(* ===== verification/Prelude.thy ===== *)
theory Prelude
  imports
    Main
    "HOL-Library.Char_ord"
    "HOL-Library.List_Lexorder"
    "HOL-Library.Product_Lexorder"
    "HOL-Library.AList"
begin

text \<open>
  What every component of the development shares: the collections of facts that component
  proofs draw on, Python dictionaries as association lists in insertion order, Python string
  operations on ASCII strings (the only ones the modelled code applies to its identifiers),
  decimal printing of integers, and the sequencing of computations that may raise.
\<close>

named_theorems inv_simps "definitions of well-formedness invariants"
named_theorems op_defs "definitions of straight-line operations"

section \<open>Computations that may raise\<close>

text \<open>\<open>Inl e\<close> is a raised exception, \<open>Inr v\<close> a returned value.\<close>

fun rbind :: "'e + 'a \<Rightarrow> ('a \<Rightarrow> 'e + 'b) \<Rightarrow> 'e + 'b" where
  "rbind (Inl e) f = Inl e"
| "rbind (Inr a) f = f a"

lemma rbind_Inr_iff [simp]: "rbind r f = Inr b \<longleftrightarrow> (\<exists>a. r = Inr a \<and> f a = Inr b)"
  by (cases r) auto

lemma rbind_assoc: "rbind (rbind r f) g = rbind r (\<lambda>x. rbind (f x) g)"
  by (cases r) auto

definition returns :: "'e + 'a \<Rightarrow> bool" where
  "returns r = (case r of Inl _ \<Rightarrow> False | Inr _ \<Rightarrow> True)"

lemma returns_simps [simp]: "\<not> returns (Inl e)" "returns (Inr a)"
  by (simp_all add: returns_def)

lemma returns_iff: "returns r \<longleftrightarrow> (\<exists>a. r = Inr a)"
  by (cases r) auto

section \<open>Python dictionaries\<close>

text \<open>
  A dictionary keeps its keys in insertion order; storing under an existing key keeps the
  key's position. This is the behaviour of \<^const>\<open>AList.update\<close>.
\<close>

type_synonym ('k, 'v) dict = "('k \<times> 'v) list"

abbreviation dget :: "('k, 'v) dict \<Rightarrow> 'k \<Rightarrow> 'v option" where
  "dget d k \<equiv> map_of d k"

abbreviation dset :: "('k, 'v) dict \<Rightarrow> 'k \<Rightarrow> 'v \<Rightarrow> ('k, 'v) dict" where
  "dset d k v \<equiv> AList.update k v d"

abbreviation dkeys :: "('k, 'v) dict \<Rightarrow> 'k list" where
  "dkeys d \<equiv> map fst d"

definition dget_default :: "('k, 'v) dict \<Rightarrow> 'k \<Rightarrow> 'v \<Rightarrow> 'v" where
  "dget_default d k v = (case dget d k of None \<Rightarrow> v | Some w \<Rightarrow> w)"

lemma dget_dset [simp]: "dget (dset d k v) k' = (if k' = k then Some v else dget d k')"
  by (simp add: update_conv')

lemma dget_default_dset [simp]:
  "dget_default (dset d k v) k' w = (if k' = k then v else dget_default d k' w)"
  by (simp add: dget_default_def)

lemma distinct_dset [intro]: "distinct (dkeys d) \<Longrightarrow> distinct (dkeys (dset d k v))"
  by (rule distinct_update)

lemma set_dkeys_dset: "set (dkeys (dset d k v)) = insert k (set (dkeys d))"
  by (simp add: AList.dom_update)

lemma dget_None_iff: "dget d k = None \<longleftrightarrow> k \<notin> set (dkeys d)"
  by (simp add: map_of_eq_None_iff)

lemma dget_Some_in: "dget d k = Some v \<Longrightarrow> k \<in> set (dkeys d)"
  by (metis dget_None_iff option.distinct(1))

text \<open>A sum over the values of a dictionary changes by the one entry that is stored.\<close>

lemma sum_dset_fresh:
  fixes f :: "'v \<Rightarrow> int"
  shows "dget d k = None \<Longrightarrow>
    sum_list (map (f \<circ> snd) (dset d k v)) = sum_list (map (f \<circ> snd) d) + f v"
  by (induction d) (auto split: if_splits)

lemma sum_dset_old:
  fixes f :: "'v \<Rightarrow> int"
  shows "dget d k = Some w \<Longrightarrow>
    sum_list (map (f \<circ> snd) (dset d k v)) = sum_list (map (f \<circ> snd) d) - f w + f v"
  by (induction d) (auto split: if_splits)

section \<open>Python strings\<close>

definition py_space :: "char \<Rightarrow> bool" where
  "py_space c = (let n = (of_char c :: nat) in 9 \<le> n \<and> n \<le> 13 \<or> 28 \<le> n \<and> n \<le> 32)"

definition py_strip :: "string \<Rightarrow> string" where
  "py_strip s = rev (dropWhile py_space (rev (dropWhile py_space s)))"

definition lower_char :: "char \<Rightarrow> char" where
  "lower_char c = (let n = (of_char c :: nat) in
     if 65 \<le> n \<and> n \<le> 90 then char_of (n + 32) else c)"

definition upper_char :: "char \<Rightarrow> char" where
  "upper_char c = (let n = (of_char c :: nat) in
     if 97 \<le> n \<and> n \<le> 122 then char_of (n - 32) else c)"

definition py_lower :: "string \<Rightarrow> string" where
  "py_lower s = map lower_char s"

definition py_upper :: "string \<Rightarrow> string" where
  "py_upper s = map upper_char s"

text \<open>\<open>s.replace(a, b)\<close> for one-character \<open>a\<close> and \<open>b\<close>.\<close>

definition py_replace1 :: "char \<Rightarrow> char \<Rightarrow> string \<Rightarrow> string" where
  "py_replace1 a b s = map (\<lambda>c. if c = a then b else c) s"

definition py_rstrip1 :: "char \<Rightarrow> string \<Rightarrow> string" where
  "py_rstrip1 a s = rev (dropWhile (\<lambda>c. c = a) (rev s))"

definition py_lstrip1 :: "char \<Rightarrow> string \<Rightarrow> string" where
  "py_lstrip1 a s = dropWhile (\<lambda>c. c = a) s"

definition startswith :: "string \<Rightarrow> string \<Rightarrow> bool" where
  "startswith s p = (take (length p) s = p)"

text \<open>\<open>p in s\<close> on strings.\<close>

fun contains :: "string \<Rightarrow> string \<Rightarrow> bool" where
  "contains p [] = (p = [])"
| "contains p (c # s) = (startswith (c # s) p \<or> contains p s)"

lemma contains_iff: "contains p s \<longleftrightarrow> (\<exists>a b. s = a @ p @ b)"
proof (induction s)
  case Nil
  then show ?case by auto
next
  case (Cons c s)
  have pre: "startswith (c # s) p \<longleftrightarrow> (\<exists>b. c # s = p @ b)"
    unfolding startswith_def by (metis append_eq_conv_conj append_take_drop_id)
  show ?case
  proof
    assume "contains p (c # s)"
    then consider "\<exists>b. c # s = p @ b" | "\<exists>a b. s = a @ p @ b"
      using Cons.IH pre by auto
    then show "\<exists>a b. c # s = a @ p @ b"
    proof cases
      case 1
      then show ?thesis by (metis append_Nil)
    next
      case 2
      then show ?thesis by (metis append_Cons)
    qed
  next
    assume "\<exists>a b. c # s = a @ p @ b"
    then obtain a b where ab: "c # s = a @ p @ b" by blast
    show "contains p (c # s)"
    proof (cases a)
      case Nil
      with ab have "\<exists>b. c # s = p @ b" by simp
      with pre have "startswith (c # s) p" by blast
      then show ?thesis by (simp only: contains.simps) simp
    next
      case (Cons x a')
      with ab have "s = a' @ p @ b" by simp
      with Cons.IH show ?thesis by auto
    qed
  qed
qed

text \<open>\<open>sep.join(xs)\<close>.\<close>

fun py_join :: "string \<Rightarrow> string list \<Rightarrow> string" where
  "py_join sep [] = []"
| "py_join sep [x] = x"
| "py_join sep (x # y # ys) = x @ sep @ py_join sep (y # ys)"

text \<open>\<open>s.split(c)\<close> for a one-character separator.\<close>

fun py_split1 :: "char \<Rightarrow> string \<Rightarrow> string list" where
  "py_split1 c [] = [[]]"
| "py_split1 c (x # xs) =
     (if x = c then [] # py_split1 c xs
      else case py_split1 c xs of [] \<Rightarrow> [[x]] | w # ws \<Rightarrow> (x # w) # ws)"

text \<open>\<open>str(b)\<close> for a boolean.\<close>

definition str_bool :: "bool \<Rightarrow> string" where
  "str_bool b = (if b then ''True'' else ''False'')"

text \<open>\<open>not s or not s.strip()\<close>: the emptiness test of the constructors.\<close>

definition blank :: "string \<Rightarrow> bool" where
  "blank s = (s = [] \<or> py_strip s = [])"

section \<open>Decimal printing\<close>

definition digit_char :: "nat \<Rightarrow> char" where
  "digit_char d = char_of (48 + d)"

fun str_nat :: "nat \<Rightarrow> string" where
  "str_nat n = (if n < 10 then [digit_char n] else str_nat (n div 10) @ [digit_char (n mod 10)])"

declare str_nat.simps [simp del]

definition str_int :: "int \<Rightarrow> string" where
  "str_int i = (if i < 0 then CHR ''-'' # str_nat (nat (- i)) else str_nat (nat i))"

lemma of_char_digit_char: "d < 10 \<Longrightarrow> of_char (digit_char d) = 48 + d"
  by (simp add: digit_char_def)

lemma digit_char_inj: "d < 10 \<Longrightarrow> e < 10 \<Longrightarrow> digit_char d = digit_char e \<Longrightarrow> d = e"
  by (metis add_left_cancel of_char_digit_char)

lemma str_nat_nonempty [simp]: "str_nat n \<noteq> []"
  by (subst str_nat.simps) simp

lemma str_nat_digits: "c \<in> set (str_nat n) \<Longrightarrow> \<exists>d<10. c = digit_char d"
proof (induction n rule: str_nat.induct)
  case (1 n)
  show ?case
  proof (cases "n < 10")
    case True
    with 1 show ?thesis by (auto simp: str_nat.simps [of n])
  next
    case False
    with "1.prems" have "c \<in> set (str_nat (n div 10)) \<or> c = digit_char (n mod 10)"
      by (auto simp: str_nat.simps [of n])
    then show ?thesis
    proof
      assume "c \<in> set (str_nat (n div 10))"
      with "1.IH" False show ?thesis by blast
    next
      assume "c = digit_char (n mod 10)"
      then show ?thesis by (intro exI [of _ "n mod 10"]) simp
    qed
  qed
qed

lemma str_nat_inj: "str_nat m = str_nat n \<Longrightarrow> m = n"
proof (induction m arbitrary: n rule: str_nat.induct)
  case (1 m)
  show ?case
  proof (cases "m < 10"; cases "n < 10")
    assume "m < 10" "n < 10"
    with "1.prems" show ?thesis
      by (simp add: str_nat.simps [of m] str_nat.simps [of n] digit_char_inj)
  next
    assume "m < 10" "\<not> n < 10"
    with "1.prems" have "[digit_char m] = str_nat (n div 10) @ [digit_char (n mod 10)]"
      by (simp add: str_nat.simps [of m] str_nat.simps [of n])
    then show ?thesis using str_nat_nonempty [of "n div 10"]
      by (metis append_Nil butlast_snoc)
  next
    assume "\<not> m < 10" "n < 10"
    with "1.prems" show ?thesis
      by (simp add: str_nat.simps [of m] str_nat.simps [of n])
  next
    assume big: "\<not> m < 10" "\<not> n < 10"
    with "1.prems" have "str_nat (m div 10) = str_nat (n div 10)"
      and "digit_char (m mod 10) = digit_char (n mod 10)"
      by (simp_all add: str_nat.simps [of m] str_nat.simps [of n])
    with big "1.IH" have "m div 10 = n div 10" "m mod 10 = n mod 10"
      by (simp_all add: digit_char_inj)
    then show ?thesis by (metis div_mult_mod_eq)
  qed
qed

text \<open>A printed number holds no separator, so the text before the last \<open>#\<close> is recovered.\<close>

lemma hash_notin_str_nat: "CHR ''#'' \<notin> set (str_nat n)"
proof
  assume "CHR ''#'' \<in> set (str_nat n)"
  then obtain d where "d < 10" "CHR ''#'' = digit_char d" using str_nat_digits by blast
  then have "(of_char CHR ''#'' :: nat) = 48 + d" by (metis of_char_digit_char)
  then show False by simp
qed

lemma split_at_last:
  assumes "c \<notin> set u" "c \<notin> set v" and eq: "a @ c # u = b @ c # v"
  shows "a = b \<and> u = v"
proof -
  have "takeWhile (\<lambda>x. x \<noteq> c) (rev (a @ c # u)) = rev u"
    using assms(1) by (simp add: takeWhile_append)
  moreover have "takeWhile (\<lambda>x. x \<noteq> c) (rev (b @ c # v)) = rev v"
    using assms(2) by (simp add: takeWhile_append)
  ultimately have "u = v" using eq by (metis rev_rev_ident)
  with eq show ?thesis by simp
qed

text \<open>The same for the text before the first separator.\<close>

lemma split_at_first:
  assumes "c \<notin> set u" "c \<notin> set v" and eq: "u @ c # a = v @ c # b"
  shows "u = v \<and> a = b"
proof -
  have "takeWhile (\<lambda>x. x \<noteq> c) (u @ c # a) = u" "takeWhile (\<lambda>x. x \<noteq> c) (v @ c # b) = v"
    using assms(1,2) by (simp_all add: takeWhile_append)
  with eq show ?thesis by simp
qed

lemma not_digit_str_nat: "\<not> (48 \<le> (of_char c :: nat) \<and> (of_char c :: nat) < 58) \<Longrightarrow> c \<notin> set (str_nat n)"
  using of_char_digit_char by (fastforce dest: str_nat_digits)

text \<open>A joined list whose words hold no separator is split again by the separator.\<close>

lemma py_join_Cons: "xs \<noteq> [] \<Longrightarrow> py_join sep (x # xs) = x @ sep @ py_join sep xs"
  by (cases xs) auto

lemma py_join_inj:
  assumes "length xs = length ys" "\<forall>x\<in>set xs \<union> set ys. c \<notin> set x" "py_join [c] xs = py_join [c] ys"
  shows "xs = ys"
  using assms
proof (induction xs ys rule: list_induct2)
  case (Cons x xs y ys)
  show ?case
  proof (cases "xs = []")
    case True
    with Cons show ?thesis by simp
  next
    case False
    with Cons.hyps have "ys \<noteq> []" by auto
    with False Cons.prems(2) have "x @ c # py_join [c] xs = y @ c # py_join [c] ys"
      by (simp add: py_join_Cons)
    then have "x = y \<and> py_join [c] xs = py_join [c] ys"
      using Cons.prems(1) by (intro split_at_first) auto
    with Cons show ?thesis by simp
  qed
qed simp

section \<open>Lists\<close>

lemma insort_key_map: "insort_key f (g x) (map g xs) = map g (insort_key (f \<circ> g) x xs)"
  by (induction xs) auto

lemma sort_key_map: "sort_key f (map g xs) = map g (sort_key (f \<circ> g) xs)"
  by (induction xs) (simp_all add: insort_key_map comp_def)

lemma insort_key_agree:
  "f a = g a \<Longrightarrow> \<forall>x\<in>set xs. f x = g x \<Longrightarrow> insort_key f a xs = insort_key g a xs"
  by (induction xs) auto

lemma sort_key_agree: "\<forall>x\<in>set xs. f x = g x \<Longrightarrow> sort_key f xs = sort_key g xs"
proof (induction xs)
  case (Cons a xs)
  then show ?case using insort_key_agree [of f a g "sort_key g xs"] by simp
qed simp


text \<open>Appending what is not yet there: deduplication that keeps the first occurrence.\<close>

fun dedup_onto :: "'a list \<Rightarrow> 'a list \<Rightarrow> 'a list" where
  "dedup_onto acc [] = acc"
| "dedup_onto acc (x # xs) = dedup_onto (if x \<in> set acc then acc else acc @ [x]) xs"

lemma set_dedup_onto [simp]: "set (dedup_onto acc xs) = set acc \<union> set xs"
  by (induction xs arbitrary: acc) auto

lemma distinct_dedup_onto: "distinct acc \<Longrightarrow> distinct (dedup_onto acc xs)"
  by (induction xs arbitrary: acc) auto

end
