(* ===== verification/AbstractState.thy ===== *)
theory AbstractState
  imports Prelude
begin

text \<open>
  The path-sensitive abstract domain of \<^verbatim>\<open>karsasec/graph/dataflow/abstract_state.py\<close>:
  semantic constraints, the taint lattice with its conservative join, versioned abstract
  values and the environment that maps variables to them. The lattice is an instance of the
  library's semilattice classes; the interface \<open>state_join\<close> states what a
  join of path facts promises and is interpreted on both joins of the module.
\<close>

section \<open>Constraints\<close>

datatype constraint_category = TYPE_CONSTRAINT | SANITIZATION | NORMALIZATION

datatype semantic_constraint =
    NUMERIC | INTEGER | DIGITS_ONLY
  | SHELL_ESCAPED | HTML_ESCAPED | SQL_ESCAPED
  | PATH_NORMALIZED

definition constraint_category_of :: "semantic_constraint \<Rightarrow> constraint_category" where
  "constraint_category_of c =
     (if c \<in> {NUMERIC, INTEGER, DIGITS_ONLY} then TYPE_CONSTRAINT
      else if c \<in> {SHELL_ESCAPED, HTML_ESCAPED, SQL_ESCAPED} then SANITIZATION
      else NORMALIZATION)"

definition join_constraints ::
  "semantic_constraint set \<Rightarrow> semantic_constraint set \<Rightarrow> semantic_constraint set" where
  "join_constraints a b = a \<inter> b"

section \<open>The taint lattice\<close>

datatype taint_state = UNTAINTED | TAINTED | SANITIZED | CONSTRAINED | TAINT_UNKNOWN

definition join_taint_state :: "taint_state \<Rightarrow> taint_state \<Rightarrow> taint_state" where
  "join_taint_state a b =
     (if a = b then a
      else if TAINTED \<in> {a, b} \<or> CONSTRAINED \<in> {a, b} then TAINTED
      else if TAINT_UNKNOWN \<in> {a, b} then TAINT_UNKNOWN
      else TAINT_UNKNOWN)"

text \<open>
  The order the join induces: proven states at the bottom, \<^const>\<open>TAINT_UNKNOWN\<close> above the
  two of them that carry no taint, \<^const>\<open>TAINTED\<close> at the top.
\<close>

instantiation taint_state :: semilattice_sup
begin

definition less_eq_taint_state :: "taint_state \<Rightarrow> taint_state \<Rightarrow> bool" where
  "less_eq_taint_state a b \<longleftrightarrow>
     a = b \<or> b = TAINTED \<or> (b = TAINT_UNKNOWN \<and> a \<in> {UNTAINTED, SANITIZED})"

definition less_taint_state :: "taint_state \<Rightarrow> taint_state \<Rightarrow> bool" where
  "less_taint_state a b \<longleftrightarrow> a \<le> b \<and> \<not> b \<le> (a :: taint_state)"

definition sup_taint_state :: "taint_state \<Rightarrow> taint_state \<Rightarrow> taint_state" where
  "sup_taint_state a b = join_taint_state a b"

instance
proof (standard, goal_cases)
  case (1 x y)
  show ?case by (rule less_taint_state_def)
next
  case (2 x)
  show ?case by (simp add: less_eq_taint_state_def)
next
  case (3 x y z)
  then show ?case by (auto simp: less_eq_taint_state_def)
next
  case (4 x y)
  then show ?case by (auto simp: less_eq_taint_state_def)
next
  case (5 x y)
  show ?case
    by (cases x; cases y)
      (simp_all add: less_eq_taint_state_def sup_taint_state_def join_taint_state_def)
next
  case (6 y x)
  show ?case
    by (cases x; cases y)
      (simp_all add: less_eq_taint_state_def sup_taint_state_def join_taint_state_def)
next
  case (7 y x z)
  then show ?case
    by (cases x; cases y; cases z)
      (simp_all add: less_eq_taint_state_def sup_taint_state_def join_taint_state_def)
qed

end

lemma join_taint_sup: "join_taint_state a b = sup a b"
  by (simp add: sup_taint_state_def)

lemma TAINTED_top: "a \<le> TAINTED"
  by (simp add: less_eq_taint_state_def)

lemma TAINTED_le_iff: "TAINTED \<le> a \<longleftrightarrow> a = TAINTED"
  by (auto simp: less_eq_taint_state_def)

section \<open>The interface of a join of path facts\<close>

text \<open>
  A join is commutative, associative and idempotent, and everything each side may be
  (\<open>covers\<close>) stays possible after it. The client folds the join over the paths that
  reach a point; the order and repetition of the paths do not matter, and the result
  covers every one of them.
\<close>

locale state_join =
  fixes join :: "'a \<Rightarrow> 'a \<Rightarrow> 'a"
    and covers :: "'a \<Rightarrow> 'a \<Rightarrow> bool"
  assumes join_commute: "join a b = join b a"
    and join_assoc: "join (join a b) c = join a (join b c)"
    and join_idem: "join a a = a"
    and covers_refl: "covers a a"
    and covers_trans: "covers a b \<Longrightarrow> covers b c \<Longrightarrow> covers a c"
    and join_covers: "covers (join a b) a"
    and join_least: "covers c a \<Longrightarrow> covers c b \<Longrightarrow> covers c (join a b)"
begin

definition join_all :: "'a \<Rightarrow> 'a list \<Rightarrow> 'a" where
  "join_all a as = foldl join a as"

lemma join_covers2: "covers (join a b) b"
  using join_covers [of b a] by (simp add: join_commute)

lemma join_all_Cons [simp]: "join_all a (b # bs) = join_all (join a b) bs"
  by (simp add: join_all_def)

lemma join_all_Nil [simp]: "join_all a [] = a"
  by (simp add: join_all_def)

lemma join_all_covers_start: "covers (join_all a as) a"
  by (induction as arbitrary: a) (auto intro: covers_refl covers_trans join_covers)

lemma join_all_covers: "x \<in> set as \<Longrightarrow> covers (join_all a as) x"
proof (induction as arbitrary: a)
  case Nil
  then show ?case by simp
next
  case (Cons b bs)
  show ?case
  proof (cases "x = b")
    case True
    then show ?thesis
      using covers_trans [OF join_all_covers_start join_covers2] by simp
  next
    case False
    with Cons show ?thesis by simp
  qed
qed

lemma join_all_least:
  "covers c a \<Longrightarrow> (\<And>x. x \<in> set as \<Longrightarrow> covers c x) \<Longrightarrow> covers c (join_all a as)"
  by (induction as arbitrary: a) (auto intro: join_least)

end

lemma state_join_taint: "state_join join_taint_state (\<lambda>a b. b \<le> a)"
  by (unfold_locales, unfold join_taint_sup)
    (auto simp: ac_simps)

interpretation taint: state_join join_taint_state "\<lambda>a b. b \<le> (a :: taint_state)"
  by (rule state_join_taint)

interpretation facts: state_join join_constraints "\<lambda>a b. a \<subseteq> b"
  by unfold_locales (auto simp: join_constraints_def)

section \<open>Abstract values\<close>

record abstract_value =
  av_var_name :: string
  av_var_version :: string
  av_taint :: taint_state
  av_type_facts :: "semantic_constraint set"
  av_sanitization_facts :: "semantic_constraint set"
  av_provenance_node_id :: string
  av_provenance_description :: string

definition all_constraints :: "abstract_value \<Rightarrow> semantic_constraint set" where
  "all_constraints v = av_type_facts v \<union> av_sanitization_facts v"

definition with_constraints :: "abstract_value \<Rightarrow> semantic_constraint set \<Rightarrow> abstract_value" where
  "with_constraints v new =
     \<lparr> av_var_name = av_var_name v,
       av_var_version = av_var_version v,
       av_taint = (if av_taint v = TAINTED \<and> new \<noteq> {} then CONSTRAINED else av_taint v),
       av_type_facts = av_type_facts v \<union> {c \<in> new. constraint_category_of c = TYPE_CONSTRAINT},
       av_sanitization_facts =
         av_sanitization_facts v \<union> {c \<in> new. constraint_category_of c \<noteq> TYPE_CONSTRAINT},
       av_provenance_node_id = av_provenance_node_id v,
       av_provenance_description = av_provenance_description v \<rparr>"

lemma all_constraints_with_constraints [simp]:
  "all_constraints (with_constraints v new) = all_constraints v \<union> new"
  by (auto simp: all_constraints_def with_constraints_def)

lemma with_constraints_fields [simp]:
  "av_var_name (with_constraints v new) = av_var_name v"
  "av_var_version (with_constraints v new) = av_var_version v"
  by (simp_all add: with_constraints_def)

section \<open>Environments\<close>

record abstract_environment =
  env_counters :: "(string, nat) dict"
  env_values :: "(string, abstract_value) dict"

definition empty_env :: abstract_environment where
  "empty_env = \<lparr> env_counters = [], env_values = [] \<rparr>"

definition version_key :: "string \<Rightarrow> nat \<Rightarrow> string" where
  "version_key v n = v @ ''#'' @ str_nat n"

definition env_get_version :: "abstract_environment \<Rightarrow> string \<Rightarrow> string" where
  "env_get_version e v = version_key v (dget_default (env_counters e) v 1)"

definition unassigned_value :: "string \<Rightarrow> string \<Rightarrow> abstract_value" where
  "unassigned_value v version =
     \<lparr> av_var_name = v, av_var_version = version, av_taint = TAINT_UNKNOWN,
       av_type_facts = {}, av_sanitization_facts = {},
       av_provenance_node_id = [], av_provenance_description = [] \<rparr>"

definition env_get_value :: "abstract_environment \<Rightarrow> string \<Rightarrow> abstract_value" where
  "env_get_value e v =
     (let version = env_get_version e v in
      case dget (env_values e) version of
        Some val \<Rightarrow> val
      | None \<Rightarrow> unassigned_value v version)"

definition env_set_value :: "abstract_environment \<Rightarrow> abstract_value \<Rightarrow> abstract_environment" where
  "env_set_value e val = e\<lparr> env_values := dset (env_values e) (av_var_version val) val \<rparr>"

definition assignment_kill ::
  "abstract_environment \<Rightarrow> string \<Rightarrow> taint_state \<Rightarrow> string \<Rightarrow> string
     \<Rightarrow> abstract_environment \<times> abstract_value" where
  "assignment_kill e v new_taint prov_id prov_desc =
     (let curr = dget_default (env_counters e) v 0 + 1;
          new_version = version_key v curr;
          new_val = \<lparr> av_var_name = v, av_var_version = new_version, av_taint = new_taint,
                      av_type_facts = {}, av_sanitization_facts = {},
                      av_provenance_node_id = prov_id, av_provenance_description = prov_desc \<rparr>
      in (\<lparr> env_counters = dset (env_counters e) v curr,
            env_values = dset (env_values e) new_version new_val \<rparr>, new_val))"

text \<open>One iteration of the loop of \<open>join\<close>.\<close>

definition join_count :: "abstract_environment \<Rightarrow> abstract_environment \<Rightarrow> string \<Rightarrow> nat" where
  "join_count a b v =
     max (dget_default (env_counters a) v 1) (dget_default (env_counters b) v 1)"

definition join_value ::
  "abstract_environment \<Rightarrow> abstract_environment \<Rightarrow> string \<Rightarrow> abstract_value" where
  "join_value a b v =
     (let va = env_get_value a v; vb = env_get_value b v in
      \<lparr> av_var_name = v,
        av_var_version = version_key v (join_count a b v),
        av_taint = join_taint_state (av_taint va) (av_taint vb),
        av_type_facts = join_constraints (av_type_facts va) (av_type_facts vb),
        av_sanitization_facts =
          join_constraints (av_sanitization_facts va) (av_sanitization_facts vb),
        av_provenance_node_id =
          (if av_provenance_node_id va \<noteq> [] then av_provenance_node_id va
           else av_provenance_node_id vb),
        av_provenance_description =
          ''Join('' @ av_var_version va @ '', '' @ av_var_version vb @ '')'' \<rparr>)"

definition join_step ::
  "abstract_environment \<Rightarrow> abstract_environment \<Rightarrow> abstract_environment \<Rightarrow> string
     \<Rightarrow> abstract_environment" where
  "join_step a b acc v =
     \<lparr> env_counters = dset (env_counters acc) v (join_count a b v),
       env_values =
         dset (env_values acc) (version_key v (join_count a b v)) (join_value a b v) \<rparr>"

definition env_vars :: "abstract_environment \<Rightarrow> abstract_environment \<Rightarrow> string list" where
  "env_vars a b = sort (remdups (dkeys (env_counters a) @ dkeys (env_counters b)))"

definition env_join ::
  "abstract_environment \<Rightarrow> abstract_environment \<Rightarrow> abstract_environment" where
  "env_join a b = foldl (join_step a b) empty_env (env_vars a b)"

section \<open>Versions and lookups\<close>

lemma version_key_inj [simp]: "version_key v m = version_key w n \<longleftrightarrow> v = w \<and> m = n"
proof
  assume "version_key v m = version_key w n"
  then have "v @ CHR ''#'' # str_nat m = w @ CHR ''#'' # str_nat n"
    by (simp add: version_key_def)
  then have "v = w \<and> str_nat m = str_nat n"
    by (rule split_at_last [OF hash_notin_str_nat hash_notin_str_nat])
  then show "v = w \<and> m = n" by (blast dest: str_nat_inj)
qed simp

lemma env_get_version_kill [simp]:
  "env_get_version (fst (assignment_kill e v t p d)) w =
     (if w = v then version_key v (dget_default (env_counters e) v 0 + 1) else env_get_version e w)"
  by (simp add: env_get_version_def assignment_kill_def Let_def)

lemma env_get_version_inj: "env_get_version e v = env_get_version e' w \<Longrightarrow> v = w"
  by (simp add: env_get_version_def)

lemma env_get_value_kill:
  "env_get_value (fst (assignment_kill e v t p d)) w =
     (if w = v then snd (assignment_kill e v t p d) else env_get_value e w)"
  unfolding env_get_value_def Let_def env_get_version_kill
  by (auto simp: assignment_kill_def Let_def env_get_version_def)

lemma kill_value_fields [simp]:
  "av_taint (snd (assignment_kill e v t p d)) = t"
  "av_type_facts (snd (assignment_kill e v t p d)) = {}"
  "av_sanitization_facts (snd (assignment_kill e v t p d)) = {}"
  "av_var_version (snd (assignment_kill e v t p d)) =
     version_key v (dget_default (env_counters e) v 0 + 1)"
  by (simp_all add: assignment_kill_def Let_def)

lemma env_counters_kill [simp]:
  "dget (env_counters (fst (assignment_kill e v t p d))) w =
     (if w = v then Some (dget_default (env_counters e) v 0 + 1) else dget (env_counters e) w)"
  by (simp add: assignment_kill_def Let_def)

lemma env_set_value_counters [simp]: "env_counters (env_set_value e val) = env_counters e"
  by (simp add: env_set_value_def)

lemma env_get_version_set [simp]: "env_get_version (env_set_value e val) w = env_get_version e w"
  by (simp add: env_get_version_def)

lemma env_get_value_set:
  "env_get_value (env_set_value e val) w =
     (if av_var_version val = env_get_version e w then val else env_get_value e w)"
  by (simp add: env_get_value_def Let_def) (simp add: env_set_value_def)

section \<open>Well-formed environments\<close>

text \<open>
  Values are filed under their own version, counters start at one, and a variable that has
  never been assigned is \<^const>\<open>TAINT_UNKNOWN\<close> (a branch guard may have attached facts to it).
\<close>

definition env_wf :: "abstract_environment \<Rightarrow> bool" where
  [inv_simps]: "env_wf e \<longleftrightarrow>
     (\<forall>k val. dget (env_values e) k = Some val \<longrightarrow> av_var_version val = k) \<and>
     (\<forall>v n. dget (env_counters e) v = Some n \<longrightarrow> 1 \<le> n) \<and>
     (\<forall>v. dget (env_counters e) v = None \<longrightarrow> av_taint (env_get_value e v) = TAINT_UNKNOWN)"

lemma env_wf_empty [simp]: "env_wf empty_env"
  by (simp add: env_wf_def empty_env_def env_get_value_def env_get_version_def
      unassigned_value_def)

lemma env_wf_version:
  assumes "env_wf e"
  shows "av_var_version (env_get_value e v) = env_get_version e v"
proof (cases "dget (env_values e) (env_get_version e v)")
  case None
  then show ?thesis by (simp add: env_get_value_def unassigned_value_def)
next
  case (Some val)
  with assms show ?thesis by (simp add: env_get_value_def env_wf_def)
qed

lemma env_wf_kill [intro]:
  assumes "env_wf e"
  shows "env_wf (fst (assignment_kill e v t p d))"
proof -
  let ?e = "fst (assignment_kill e v t p d)"
  have "av_var_version val = k" if "dget (env_values ?e) k = Some val" for k val
    using that assms
    by (auto simp: env_wf_def assignment_kill_def Let_def split: if_splits)
  moreover have "1 \<le> n" if "dget (env_counters ?e) w = Some n" for w n
    using that assms by (auto simp: env_wf_def split: if_splits)
  moreover have "av_taint (env_get_value ?e w) = TAINT_UNKNOWN"
    if "dget (env_counters ?e) w = None" for w
    using that assms by (auto simp: env_wf_def env_get_value_kill split: if_splits)
  ultimately show ?thesis unfolding env_wf_def by blast
qed

lemma env_get_value_refine:
  assumes "env_wf e"
  shows "env_get_value (env_set_value e (with_constraints (env_get_value e v) cs)) w =
    (if w = v then with_constraints (env_get_value e v) cs else env_get_value e w)"
  by (auto simp: env_get_value_set env_wf_version [OF assms] dest: env_get_version_inj)

lemma env_wf_set_value:
  assumes "env_wf e" "av_var_version val = env_get_version e v"
    and "dget (env_counters e) v = None \<Longrightarrow> av_taint val = TAINT_UNKNOWN"
  shows "env_wf (env_set_value e val)"
proof -
  have "av_var_version x = k" if "dget (env_values (env_set_value e val)) k = Some x" for k x
    using that assms(1) by (auto simp: env_wf_def env_set_value_def split: if_splits)
  moreover have "av_taint (env_get_value (env_set_value e val) w) = TAINT_UNKNOWN"
    if "dget (env_counters e) w = None" for w
    using that assms env_get_version_inj [of e v e w]
    by (auto simp: env_wf_def env_get_value_set)
  ultimately show ?thesis using assms(1) by (simp add: env_wf_def)
qed

lemma env_wf_refine [intro]:
  assumes "env_wf e"
  shows "env_wf (env_set_value e (with_constraints (env_get_value e v) cs))"
  using assms
  by (intro env_wf_set_value [where v = v])
    (auto simp: env_wf_version with_constraints_def env_wf_def)

section \<open>The join of environments\<close>

lemma join_fold_counters:
  "dget (env_counters (foldl (join_step a b) acc vs)) v =
     (if v \<in> set vs then Some (join_count a b v) else dget (env_counters acc) v)"
  by (induction vs arbitrary: acc) (auto simp: join_step_def)

lemma join_fold_other:
  "(\<And>v. v \<in> set vs \<Longrightarrow> k \<noteq> version_key v (join_count a b v)) \<Longrightarrow>
     dget (env_values (foldl (join_step a b) acc vs)) k = dget (env_values acc) k"
  by (induction vs arbitrary: acc) (auto simp: join_step_def)

lemma join_fold_value:
  "v \<in> set vs \<Longrightarrow>
     dget (env_values (foldl (join_step a b) acc vs)) (version_key v (join_count a b v)) =
       Some (join_value a b v)"
proof (induction vs arbitrary: acc rule: rev_induct)
  case Nil
  then show ?case by simp
next
  case (snoc w vs)
  then show ?case by (auto simp: join_step_def)
qed

lemma set_env_vars: "set (env_vars a b) = set (dkeys (env_counters a)) \<union> set (dkeys (env_counters b))"
  by (simp add: env_vars_def)

lemma notin_env_vars:
  "v \<notin> set (env_vars a b) \<longleftrightarrow> dget (env_counters a) v = None \<and> dget (env_counters b) v = None"
  by (simp only: set_env_vars dget_None_iff) simp

lemma env_counters_join:
  "dget (env_counters (env_join a b)) v =
     (if v \<in> set (env_vars a b) then Some (join_count a b v) else None)"
  by (simp add: env_join_def join_fold_counters empty_env_def)

lemma env_get_value_join:
  "env_get_value (env_join a b) v =
     (if v \<in> set (env_vars a b) then join_value a b v else unassigned_value v (version_key v 1))"
proof (cases "v \<in> set (env_vars a b)")
  case True
  then have "env_get_version (env_join a b) v = version_key v (join_count a b v)"
    by (simp add: env_get_version_def dget_default_def env_counters_join)
  with True show ?thesis
    by (simp add: env_get_value_def Let_def) (simp add: env_join_def join_fold_value)
next
  case False
  then have version: "env_get_version (env_join a b) v = version_key v 1"
    by (simp add: env_get_version_def dget_default_def env_counters_join)
  have "dget (env_values (env_join a b)) (version_key v 1) = None"
    unfolding env_join_def using False
    by (subst join_fold_other) (auto simp: empty_env_def)
  with False version show ?thesis by (simp add: env_get_value_def)
qed

lemma env_wf_join [intro]:
  assumes "env_wf a" "env_wf b"
  shows "env_wf (env_join a b)"
proof -
  have "av_var_version x = k" if x: "dget (env_values (env_join a b)) k = Some x" for k x
  proof (cases "\<exists>v \<in> set (env_vars a b). k = version_key v (join_count a b v)")
    case True
    then obtain v where v: "v \<in> set (env_vars a b)" "k = version_key v (join_count a b v)"
      by blast
    with x have "x = join_value a b v"
      using join_fold_value [OF v(1), of a b empty_env] by (simp add: env_join_def)
    with v show ?thesis by (simp add: join_value_def Let_def)
  next
    case False
    then have "dget (env_values (env_join a b)) k = None"
      unfolding env_join_def by (subst join_fold_other) (auto simp: empty_env_def)
    with x show ?thesis by simp
  qed
  moreover have "1 \<le> join_count a b v" for v
    using assms
    by (auto simp: join_count_def env_wf_def dget_default_def le_max_iff_disj split: option.splits)
  ultimately show ?thesis
    by (auto simp: env_wf_def env_counters_join env_get_value_join unassigned_value_def
        split: if_splits)
qed

text \<open>
  One environment covers another when it allows at least its taint and claims at most its
  facts, variable by variable.
\<close>

definition env_covers :: "abstract_environment \<Rightarrow> abstract_environment \<Rightarrow> bool" where
  "env_covers c a \<longleftrightarrow> (\<forall>v.
     av_taint (env_get_value a v) \<le> av_taint (env_get_value c v) \<and>
     av_type_facts (env_get_value c v) \<subseteq> av_type_facts (env_get_value a v) \<and>
     av_sanitization_facts (env_get_value c v) \<subseteq> av_sanitization_facts (env_get_value a v))"

lemma env_join_covers_left:
  assumes "env_wf a"
  shows "env_covers (env_join a b) a"
  unfolding env_covers_def
proof
  fix v
  show "av_taint (env_get_value a v) \<le> av_taint (env_get_value (env_join a b) v) \<and>
    av_type_facts (env_get_value (env_join a b) v) \<subseteq> av_type_facts (env_get_value a v) \<and>
    av_sanitization_facts (env_get_value (env_join a b) v)
      \<subseteq> av_sanitization_facts (env_get_value a v)"
  proof (cases "v \<in> set (env_vars a b)")
    case True
    then show ?thesis
      using taint.join_covers facts.join_covers by (simp add: env_get_value_join join_value_def Let_def)
  next
    case False
    with assms have "av_taint (env_get_value a v) = TAINT_UNKNOWN"
      unfolding notin_env_vars env_wf_def by blast
    with False show ?thesis by (simp add: env_get_value_join unassigned_value_def)
  qed
qed

lemma join_value_commute:
  "av_taint (join_value a b v) = av_taint (join_value b a v)"
  "av_type_facts (join_value a b v) = av_type_facts (join_value b a v)"
  "av_sanitization_facts (join_value a b v) = av_sanitization_facts (join_value b a v)"
  by (simp_all add: join_value_def Let_def taint.join_commute facts.join_commute)

lemma env_vars_commute: "set (env_vars a b) = set (env_vars b a)"
  by (auto simp: set_env_vars)

lemma env_get_join_commute:
  "av_taint (env_get_value (env_join a b) v) = av_taint (env_get_value (env_join b a) v)"
  "av_type_facts (env_get_value (env_join a b) v) =
     av_type_facts (env_get_value (env_join b a) v)"
  "av_sanitization_facts (env_get_value (env_join a b) v) =
     av_sanitization_facts (env_get_value (env_join b a) v)"
  using join_value_commute [of a b v] env_vars_commute [of a b]
  by (auto simp only: env_get_value_join split: if_splits)

lemma env_join_covers_right:
  assumes "env_wf b"
  shows "env_covers (env_join a b) b"
  using env_join_covers_left [OF assms, of a]
  unfolding env_covers_def env_get_join_commute [of b a] .

lemmas env_join_covers = env_join_covers_left env_join_covers_right

section \<open>Properties\<close>

text \<open>
  The join of two well-formed environments is well formed and covers both: on either
  path every variable is at most as tainted as in the join, and every type or sanitization
  fact that survives the join holds on both paths.
\<close>

theorem join_covers_both:
  assumes "env_wf a" "env_wf b"
  shows "env_wf (env_join a b) \<and> env_covers (env_join a b) a \<and> env_covers (env_join a b) b"
  using assms env_join_covers by blast

theorem join_covers_both_witness:
  "let a = fst (assignment_kill empty_env ''$id'' TAINTED [] []);
       b = fst (assignment_kill empty_env ''$q'' UNTAINTED [] [])
   in env_wf (env_join a b) \<and> env_covers (env_join a b) a \<and> env_covers (env_join a b) b"
  unfolding Let_def by (rule join_covers_both) (simp_all add: env_wf_kill)

end
