(* ===== verification/PyRegex.thy ===== *)
theory PyRegex
  imports Prelude
begin

text \<open>
  The part of Python's \<^verbatim>\<open>re\<close> the guard analysis uses: a backtracking matcher as a
  function from a position to the list of its successes, in the order the engine tries
  them (greedy repetition first). A position is the character before it, the rest of the
  text and the groups captured so far; \<open>re_search\<close> takes the first success of the
  first starting position, \<open>re_match\<close> only the start of the text, and
  \<open>re_findall\<close> every non-overlapping match.
\<close>

type_synonym position = "char option \<times> string \<times> string list"
type_synonym matcher = "position \<Rightarrow> position list"

fun re_char :: "(char \<Rightarrow> bool) \<Rightarrow> matcher" where
  "re_char P (p, [], gs) = []"
| "re_char P (p, c # s, gs) = (if P c then [(Some c, s, gs)] else [])"

definition re_lit :: "char \<Rightarrow> matcher" where
  "re_lit c = re_char (\<lambda>x. x = c)"

definition re_seq :: "matcher \<Rightarrow> matcher \<Rightarrow> matcher" where
  "re_seq m n st = concat (map n (m st))"

fun re_empty :: matcher where
  "re_empty st = [st]"

definition re_list :: "matcher list \<Rightarrow> matcher" where
  "re_list ms = foldr re_seq ms re_empty"

text \<open>Greedy repetition of one character class, the longest run first.\<close>

fun re_many_from :: "(char \<Rightarrow> bool) \<Rightarrow> char option \<Rightarrow> string \<Rightarrow> string list \<Rightarrow> position list" where
  "re_many_from P p [] gs = [(p, [], gs)]"
| "re_many_from P p (c # s) gs =
     (if P c then re_many_from P (Some c) s gs @ [(p, c # s, gs)] else [(p, c # s, gs)])"

fun re_many :: "(char \<Rightarrow> bool) \<Rightarrow> matcher" where
  "re_many P (p, s, gs) = re_many_from P p s gs"

definition re_many1 :: "(char \<Rightarrow> bool) \<Rightarrow> matcher" where
  "re_many1 P = re_seq (re_char P) (re_many P)"

definition re_opt :: "matcher \<Rightarrow> matcher" where
  "re_opt m st = m st @ [st]"

text \<open>A capturing group records the text between its start and its end.\<close>

fun re_group :: "matcher \<Rightarrow> matcher" where
  "re_group m (p, s, gs) =
     map (\<lambda>(p', s', gs'). (p', s', gs' @ [take (length s - length s') s])) (m (p, s, gs))"

definition in_range :: "char \<Rightarrow> char \<Rightarrow> char \<Rightarrow> bool" where
  "in_range lo hi c = ((of_char lo :: nat) \<le> of_char c \<and> (of_char c :: nat) \<le> of_char hi)"

definition is_alpha_us :: "char \<Rightarrow> bool" where
  "is_alpha_us c = (in_range CHR ''a'' CHR ''z'' c \<or> in_range CHR ''A'' CHR ''Z'' c \<or> c = CHR ''_'')"

definition is_word :: "char \<Rightarrow> bool" where
  "is_word c = (is_alpha_us c \<or> in_range CHR ''0'' CHR ''9'' c)"

definition is_newline :: "char \<Rightarrow> bool" where
  "is_newline c = (of_char c = (10 :: nat))"

text \<open>\<open>\b\<close>: a word character on exactly one side.\<close>

fun re_boundary :: matcher where
  "re_boundary (p, s, gs) =
     (let wb = (case p of None \<Rightarrow> False | Some c \<Rightarrow> is_word c);
          wa = (case s of [] \<Rightarrow> False | c # _ \<Rightarrow> is_word c)
      in if wb \<noteq> wa then [(p, s, gs)] else [])"

text \<open>\<open>$\<close>: the end of the text, or just before a final newline.\<close>

fun re_end :: matcher where
  "re_end (p, s, gs) =
     (case s of [] \<Rightarrow> [(p, s, gs)]
      | [c] \<Rightarrow> if is_newline c then [(p, s, gs)] else []
      | _ \<Rightarrow> [])"

text \<open>The groups of a match and the text left after it.\<close>

definition first_success :: "position list \<Rightarrow> (string list \<times> string) option" where
  "first_success ps = (case ps of [] \<Rightarrow> None | (_, s, gs) # _ \<Rightarrow> Some (gs, s))"

definition re_match :: "matcher \<Rightarrow> string \<Rightarrow> string list option" where
  "re_match m s = map_option fst (first_success (m (None, s, [])))"

fun re_search_from :: "matcher \<Rightarrow> char option \<Rightarrow> string \<Rightarrow> string list option" where
  "re_search_from m p [] = map_option fst (first_success (m (p, [], [])))"
| "re_search_from m p (c # s) =
     (case first_success (m (p, c # s, [])) of
        Some (gs, _) \<Rightarrow> Some gs
      | None \<Rightarrow> re_search_from m (Some c) s)"

definition re_search :: "matcher \<Rightarrow> string \<Rightarrow> string list option" where
  "re_search m s = re_search_from m None s"

text \<open>
  \<open>findall\<close> for a pattern without groups whose matches are never empty: \<open>skip\<close>
  counts the characters of the last match still to be passed over.
\<close>

fun re_findall_from :: "matcher \<Rightarrow> char option \<Rightarrow> nat \<Rightarrow> string \<Rightarrow> string list" where
  "re_findall_from m p skip [] = []"
| "re_findall_from m p (Suc skip) (c # s) = re_findall_from m (Some c) skip s"
| "re_findall_from m p 0 (c # s) =
     (case first_success (m (p, c # s, [])) of
        Some (_, r) \<Rightarrow>
          take (length (c # s) - length r) (c # s) #
            re_findall_from m (Some c) (length s - length r) s
      | None \<Rightarrow> re_findall_from m (Some c) 0 s)"

definition re_findall :: "matcher \<Rightarrow> string \<Rightarrow> string list" where
  "re_findall m s = re_findall_from m None 0 s"

section \<open>Facts about matching\<close>

text \<open>Every success of a run of a class leaves a suffix of the text, and consumes the class only.\<close>

lemma re_many_from_suffix:
  "(q, r, gs') \<in> set (re_many_from P p s gs) \<Longrightarrow>
     gs' = gs \<and> (\<exists>u. s = u @ r \<and> (\<forall>c \<in> set u. P c))"
proof (induction P p s gs rule: re_many_from.induct)
  case (1 P p gs)
  then show ?case by simp
next
  case (2 P p c s gs)
  show ?case
  proof (cases "P c \<and> (q, r, gs') \<in> set (re_many_from P (Some c) s gs)")
    case True
    with 2 obtain u where "gs' = gs" "s = u @ r" "\<forall>x \<in> set u. P x" by blast
    with True show ?thesis by (intro conjI exI [of _ "c # u"]) auto
  next
    case False
    with "2.prems" have "r = c # s" "gs' = gs" by (auto split: if_splits)
    then show ?thesis by (intro conjI exI [of _ "[]"]) auto
  qed
qed

lemma re_search_from_None:
  "re_search_from m p s = None \<Longrightarrow> first_success (m (p, s, [])) = None"
  by (cases s) (auto split: option.splits)

end
