(* ===== verification/GuardRegistry.thy ===== *)
theory GuardRegistry
  imports AbstractState PyRegex
begin

text \<open>
  The guard capability registry of \<^verbatim>\<open>karsasec/graph/dataflow/registry.py\<close>: which predicate
  calls establish which constraints on which branch, which transformations produce which
  constraints, and the parsing of a branch condition into a registered predicate.
\<close>

record predicate_capability =
  pc_name :: string
  pc_target_arg_idx :: nat
  pc_true_constraints :: "semantic_constraint set"
  pc_false_constraints :: "semantic_constraint set"

record value_transformation =
  vt_name :: string
  vt_target_arg_idx :: nat
  vt_produced :: "semantic_constraint set"

record guard_registry =
  gr_predicates :: "(string, predicate_capability) dict"
  gr_transformations :: "(string, value_transformation) dict"

definition empty_registry :: guard_registry where
  "empty_registry = \<lparr> gr_predicates = [], gr_transformations = [] \<rparr>"

definition register_predicate :: "predicate_capability \<Rightarrow> guard_registry \<Rightarrow> guard_registry" where
  "register_predicate cap r =
     r\<lparr> gr_predicates := dset (gr_predicates r) (py_lower (pc_name cap)) cap \<rparr>"

definition register_transformation :: "value_transformation \<Rightarrow> guard_registry \<Rightarrow> guard_registry" where
  "register_transformation t r =
     r\<lparr> gr_transformations := dset (gr_transformations r) (py_lower (vt_name t)) t \<rparr>"

definition lookup_predicate :: "guard_registry \<Rightarrow> string \<Rightarrow> predicate_capability option" where
  "lookup_predicate r name = dget (gr_predicates r) (py_strip (py_lower name))"

definition lookup_transformation :: "guard_registry \<Rightarrow> string \<Rightarrow> value_transformation option" where
  "lookup_transformation r name = dget (gr_transformations r) (py_strip (py_lower name))"

definition default_predicates :: "predicate_capability list" where
  "default_predicates =
     [ \<lparr> pc_name = ''is_numeric'', pc_target_arg_idx = 0,
         pc_true_constraints = {NUMERIC}, pc_false_constraints = {} \<rparr>,
       \<lparr> pc_name = ''ctype_digit'', pc_target_arg_idx = 0,
         pc_true_constraints = {DIGITS_ONLY, NUMERIC}, pc_false_constraints = {} \<rparr>,
       \<lparr> pc_name = ''is_int'', pc_target_arg_idx = 0,
         pc_true_constraints = {INTEGER, NUMERIC}, pc_false_constraints = {} \<rparr>,
       \<lparr> pc_name = ''is_integer'', pc_target_arg_idx = 0,
         pc_true_constraints = {INTEGER, NUMERIC}, pc_false_constraints = {} \<rparr>,
       \<lparr> pc_name = ''is_long'', pc_target_arg_idx = 0,
         pc_true_constraints = {INTEGER, NUMERIC}, pc_false_constraints = {} \<rparr> ]"

definition default_transformations :: "value_transformation list" where
  "default_transformations =
     [ \<lparr> vt_name = ''intval'', vt_target_arg_idx = 0, vt_produced = {INTEGER, NUMERIC} \<rparr>,
       \<lparr> vt_name = ''(int)'', vt_target_arg_idx = 0, vt_produced = {INTEGER, NUMERIC} \<rparr>,
       \<lparr> vt_name = ''floatval'', vt_target_arg_idx = 0, vt_produced = {NUMERIC} \<rparr>,
       \<lparr> vt_name = ''escapeshellarg'', vt_target_arg_idx = 0, vt_produced = {SHELL_ESCAPED} \<rparr>,
       \<lparr> vt_name = ''escapeshellcmd'', vt_target_arg_idx = 0, vt_produced = {SHELL_ESCAPED} \<rparr>,
       \<lparr> vt_name = ''htmlspecialchars'', vt_target_arg_idx = 0, vt_produced = {HTML_ESCAPED} \<rparr>,
       \<lparr> vt_name = ''htmlentities'', vt_target_arg_idx = 0, vt_produced = {HTML_ESCAPED} \<rparr>,
       \<lparr> vt_name = ''basename'', vt_target_arg_idx = 0, vt_produced = {PATH_NORMALIZED} \<rparr>,
       \<lparr> vt_name = ''realpath'', vt_target_arg_idx = 0, vt_produced = {PATH_NORMALIZED} \<rparr> ]"

text \<open>\<open>guard_registry\<close>, the registry with the defaults registered.\<close>

definition default_registry :: guard_registry where
  "default_registry =
     fold register_transformation default_transformations
       (fold register_predicate default_predicates empty_registry)"

text \<open>
  A statement or a condition: a string, a dictionary with optional \<open>text\<close> and
  \<open>raw\<close> entries, or an object with an optional \<open>text\<close> attribute.
\<close>

datatype text_node =
    TextStr string
  | TextDict "string option" "string option"
  | TextObj "string option"

fun node_text :: "text_node \<Rightarrow> string" where
  "node_text (TextStr s) = s"
| "node_text (TextDict (Some t) _) = t"
| "node_text (TextDict None (Some r)) = r"
| "node_text (TextDict None None) = []"
| "node_text (TextObj (Some t)) = t"
| "node_text (TextObj None) = []"

definition re_var :: matcher where
  "re_var = re_seq (re_lit CHR ''$'') (re_many1 is_word)"

text \<open>The call pattern of \<open>match_predicate_ast\<close>: a name applied to one variable.\<close>

definition re_guard_call :: matcher where
  "re_guard_call = re_list
     [ re_boundary,
       re_group (re_seq (re_char is_alpha_us) (re_many is_word)),
       re_many py_space, re_lit CHR ''('', re_many py_space,
       re_group re_var,
       re_many py_space, re_lit CHR '')'' ]"

definition match_predicate_ast ::
  "guard_registry \<Rightarrow> text_node option \<Rightarrow> predicate_capability option \<times> string \<times> bool" where
  "match_predicate_ast r expr =
     (case expr of
        None \<Rightarrow> (None, [], False)
      | Some node \<Rightarrow>
          let clean = py_strip (node_text node);
              negated = startswith clean ''!'';
              body = (if negated then py_strip (drop 1 clean) else clean)
          in case re_search re_guard_call body of
               Some [fn, var] \<Rightarrow>
                 (case lookup_predicate r fn of
                    Some cap \<Rightarrow> (Some cap, var, negated)
                  | None \<Rightarrow> (None, [], False))
             | _ \<Rightarrow> (None, [], False))"

section \<open>Facts about the registry\<close>

lemma lookup_register_predicate:
  "py_strip (py_lower name) = py_lower (pc_name cap) \<Longrightarrow>
     lookup_predicate (register_predicate cap r) name = Some cap"
  by (simp add: lookup_predicate_def register_predicate_def)

lemma lookup_register_predicate_other:
  "py_strip (py_lower name) \<noteq> py_lower (pc_name cap) \<Longrightarrow>
     lookup_predicate (register_predicate cap r) name = lookup_predicate r name"
  by (simp add: lookup_predicate_def register_predicate_def)

lemma lookup_register_transformation:
  "py_strip (py_lower name) = py_lower (vt_name t) \<Longrightarrow>
     lookup_transformation (register_transformation t r) name = Some t"
  by (simp add: lookup_transformation_def register_transformation_def)

text \<open>
  No registered predicate says anything on its false branch, so a guard refines a false
  branch only when the condition is negated.
\<close>

lemma default_false_constraints:
  "lookup_predicate default_registry name = Some cap \<Longrightarrow> pc_false_constraints cap = {}"
proof -
  have "\<forall>cap \<in> set (map snd (gr_predicates default_registry)). pc_false_constraints cap = {}"
    by code_simp
  then show "lookup_predicate default_registry name = Some cap \<Longrightarrow> pc_false_constraints cap = {}"
    unfolding lookup_predicate_def by (metis image_eqI list.set_map map_of_SomeD snd_conv)
qed

lemma default_true_constraints:
  "lookup_predicate default_registry name = Some cap \<Longrightarrow>
     NUMERIC \<in> pc_true_constraints cap \<and>
     (\<forall>c \<in> pc_true_constraints cap. constraint_category_of c = TYPE_CONSTRAINT)"
proof -
  have "\<forall>cap \<in> set (map snd (gr_predicates default_registry)).
      NUMERIC \<in> pc_true_constraints cap \<and>
      (\<forall>c \<in> pc_true_constraints cap. constraint_category_of c = TYPE_CONSTRAINT)"
    by code_simp
  then show "lookup_predicate default_registry name = Some cap \<Longrightarrow>
     NUMERIC \<in> pc_true_constraints cap \<and>
     (\<forall>c \<in> pc_true_constraints cap. constraint_category_of c = TYPE_CONSTRAINT)"
    unfolding lookup_predicate_def by (metis image_eqI list.set_map map_of_SomeD snd_conv)
qed

lemma match_predicate_SomeD:
  "match_predicate_ast r expr = (Some cap, var, neg) \<Longrightarrow> \<exists>fn. lookup_predicate r fn = Some cap"
  by (auto simp: match_predicate_ast_def Let_def split: option.splits list.splits)

end
