(* ===== verification/GuardPropagation.thy ===== *)
theory GuardPropagation
  imports GuardRegistry
begin

text \<open>
  The forward worklist analysis of \<^verbatim>\<open>karsasec/graph/dataflow/guard_propagation.py\<close> over the
  control flow graphs of \<^verbatim>\<open>karsasec/graph/cfg/model.py\<close>: transfer of statements, refinement
  along branch edges, and the bounded fixpoint loop. Environments are copied where the
  code copies them and mutated only through such copies, so passing them by value is the
  code's behaviour. Looking a missing block up raises.
\<close>

section \<open>Control flow graphs\<close>

datatype cfg_edge_kind = FALLTHROUGH | TRUE_BRANCH | FALSE_BRANCH | LOOP_BACKEDGE

record cfg_edge =
  ce_src :: string
  ce_target :: string
  ce_kind :: cfg_edge_kind
  ce_condition :: "text_node option"

record basic_block =
  bb_block_id :: string
  bb_label :: string
  bb_statements :: "text_node list"
  bb_predecessors :: "string list"
  bb_successors :: "string list"
  bb_is_entry :: bool
  bb_is_exit :: bool
  bb_is_terminate :: bool

record control_flow_graph =
  cfg_name :: string
  cfg_entry_id :: string
  cfg_exit_id :: string
  cfg_blocks :: "(string, basic_block) dict"
  cfg_edges :: "cfg_edge list"
  cfg_dominators :: "(string, string set) dict"
  cfg_reachable_blocks :: "string set"

definition get_block :: "control_flow_graph \<Rightarrow> string \<Rightarrow> basic_block option" where
  "get_block g b = dget (cfg_blocks g) b"

definition outgoing_edges :: "control_flow_graph \<Rightarrow> string \<Rightarrow> cfg_edge list" where
  "outgoing_edges g b = filter (\<lambda>e. ce_src e = b) (cfg_edges g)"

definition incoming_edges :: "control_flow_graph \<Rightarrow> string \<Rightarrow> cfg_edge list" where
  "incoming_edges g b = filter (\<lambda>e. ce_target e = b) (cfg_edges g)"

definition is_reachable :: "control_flow_graph \<Rightarrow> string \<Rightarrow> bool" where
  "is_reachable g b = (b \<in> cfg_reachable_blocks g)"

definition dominates :: "control_flow_graph \<Rightarrow> string \<Rightarrow> string \<Rightarrow> bool" where
  "dominates g d b = (d \<in> dget_default (cfg_dominators g) b {})"

section \<open>Transfer of statements\<close>

definition re_assign :: matcher where
  "re_assign = re_list
     [ re_group re_var, re_many py_space, re_lit CHR ''='', re_many py_space,
       re_group (re_many1 (\<lambda>c. \<not> is_newline c)) ]"

definition re_paren_var :: matcher where
  "re_paren_var = re_list
     [ re_lit CHR ''('', re_many py_space, re_group re_var, re_many py_space, re_lit CHR '')'' ]"

definition re_copy_var :: matcher where
  "re_copy_var = re_list [ re_group re_var, re_opt (re_lit CHR '';''), re_end ]"

definition trans_names :: "string list" where
  "trans_names =
     [ ''intval'', ''floatval'', ''escapeshellarg'', ''escapeshellcmd'', ''htmlspecialchars'',
       ''htmlentities'', ''basename'', ''realpath'', ''(int)'' ]"

definition superglobals :: "string list" where
  "superglobals = [ ''$_GET'', ''$_POST'', ''$_REQUEST'', ''$_COOKIE'', ''$_FILES'', ''$_SERVER'' ]"

fun find_transformation ::
  "guard_registry \<Rightarrow> string list \<Rightarrow> string \<Rightarrow> (string \<times> value_transformation) option" where
  "find_transformation r [] rhs = None"
| "find_transformation r (n # ns) rhs =
     (if contains n (py_lower rhs) then
        (case lookup_transformation r n of
           Some t \<Rightarrow> Some (n, t)
         | None \<Rightarrow> find_transformation r ns rhs)
      else find_transformation r ns rhs)"

text \<open>\<open>new_val = env.assignment_kill(...); env.set_value(new_val.with_constraints(cs))\<close>.\<close>

definition assign_with ::
  "abstract_environment \<Rightarrow> string \<Rightarrow> taint_state \<Rightarrow> string \<Rightarrow> string \<Rightarrow> semantic_constraint set
     \<Rightarrow> abstract_environment" where
  "assign_with e v t prov_id prov_desc cs =
     (let (e', val) = assignment_kill e v t prov_id prov_desc
      in env_set_value e' (with_constraints val cs))"

text \<open>The loop over the variables of a compound right-hand side.\<close>

fun collect_rhs ::
  "abstract_environment \<Rightarrow> string list \<Rightarrow> semantic_constraint set \<Rightarrow> taint_state
     \<Rightarrow> semantic_constraint set \<times> taint_state" where
  "collect_rhs e [] cs t = (cs, t)"
| "collect_rhs e (v # vs) cs t =
     (if startswith v ''$_'' then collect_rhs e vs cs t
      else let val = env_get_value e v; cs' = cs \<union> all_constraints val
        in collect_rhs e vs cs'
             (if av_taint val \<in> {TAINTED, CONSTRAINED}
              then (if cs' \<noteq> {} then CONSTRAINED else TAINTED) else t))"

definition transfer_assign ::
  "guard_registry \<Rightarrow> string \<Rightarrow> string \<Rightarrow> abstract_environment \<Rightarrow> abstract_environment" where
  "transfer_assign r lhs rhs e =
     (case find_transformation r trans_names rhs of
        Some (n, tr) \<Rightarrow>
          let src_taint = (case re_search re_paren_var rhs of
                             Some [src] \<Rightarrow> av_taint (env_get_value e src)
                           | _ \<Rightarrow> TAINTED)
          in assign_with e lhs src_taint [] (''Transformed by '' @ n) (vt_produced tr)
      | None \<Rightarrow>
          (case re_match re_copy_var rhs of
             Some [v] \<Rightarrow>
               let val = env_get_value e v
               in assign_with e lhs (av_taint val) (av_provenance_node_id val)
                    (''Copy of '' @ v) (all_constraints val)
           | _ \<Rightarrow>
               let is_super = list_ex (\<lambda>sg. contains sg rhs) superglobals;
                   (cs, t) = collect_rhs e (re_findall re_var rhs) {}
                               (if is_super then TAINTED else TAINT_UNKNOWN)
               in if cs \<noteq> {} then assign_with e lhs t [] (''Assigned '' @ take 30 rhs) cs
                  else let (e', val) = assignment_kill e lhs t [] (''Assigned '' @ take 30 rhs)
                       in env_set_value e' val))"

definition transfer_stmt ::
  "guard_registry \<Rightarrow> text_node \<Rightarrow> abstract_environment \<Rightarrow> abstract_environment" where
  "transfer_stmt r stmt e =
     (let text = node_text stmt in
      if text = [] then e
      else case re_search re_assign text of
        Some [lhs, rhs] \<Rightarrow> transfer_assign r (py_strip lhs) (py_strip rhs) e
      | _ \<Rightarrow> e)"

definition transfer_block ::
  "guard_registry \<Rightarrow> text_node list \<Rightarrow> abstract_environment \<Rightarrow> abstract_environment" where
  "transfer_block r stmts e = foldl (\<lambda>e s. transfer_stmt r s e) e stmts"

section \<open>Refinement along an edge\<close>

definition branch_constraints ::
  "cfg_edge_kind \<Rightarrow> bool \<Rightarrow> predicate_capability \<Rightarrow> semantic_constraint set" where
  "branch_constraints kind negated cap =
     (if kind = TRUE_BRANCH
      then (if negated then pc_false_constraints cap else pc_true_constraints cap)
      else (if negated then pc_true_constraints cap else pc_false_constraints cap))"

definition refine_edge ::
  "guard_registry \<Rightarrow> cfg_edge \<Rightarrow> abstract_environment \<Rightarrow> abstract_environment" where
  "refine_edge r edge e =
     (if ce_kind edge \<notin> {TRUE_BRANCH, FALSE_BRANCH} then e
      else case match_predicate_ast r (ce_condition edge) of
        (None, _, _) \<Rightarrow> e
      | (Some cap, var, negated) \<Rightarrow>
          if var = [] then e
          else let cs = branch_constraints (ce_kind edge) negated cap
            in if cs = {} then e
               else env_set_value e (with_constraints (env_get_value e var) cs))"

section \<open>The fixpoint loop\<close>

definition same_facts :: "abstract_value \<Rightarrow> abstract_value \<Rightarrow> bool" where
  "same_facts v w =
     (av_taint v = av_taint w \<and> av_type_facts v = av_type_facts w \<and>
      av_sanitization_facts v = av_sanitization_facts w)"

definition envs_equal :: "abstract_environment \<Rightarrow> abstract_environment \<Rightarrow> bool" where
  "envs_equal a b =
     (set (dkeys (env_values a)) = set (dkeys (env_values b)) \<and>
      list_all (\<lambda>(k, v). case dget (env_values b) k of None \<Rightarrow> False | Some w \<Rightarrow> same_facts v w)
        (env_values a))"

datatype analysis_error = KeyError string

record wl_state =
  wl_in :: "(string, abstract_environment) dict"
  wl_out :: "(string, abstract_environment) dict"
  wl_edge :: "(string \<times> string, abstract_environment) dict"
  wl_list :: "string list"

definition join_edges ::
  "wl_state \<Rightarrow> (string \<times> string) list \<Rightarrow> abstract_environment option" where
  "join_edges st es =
     (case List.map_filter (dget (wl_edge st)) es of
        [] \<Rightarrow> None
      | e # rest \<Rightarrow> Some (foldl env_join e rest))"

definition enqueue :: "string \<Rightarrow> wl_state \<Rightarrow> wl_state" where
  "enqueue b st = (if b \<in> set (wl_list st) then st else st\<lparr> wl_list := wl_list st @ [b] \<rparr>)"

definition block_of :: "control_flow_graph \<Rightarrow> string \<Rightarrow> analysis_error + basic_block" where
  "block_of g b = (case get_block g b of None \<Rightarrow> Inl (KeyError b) | Some bb \<Rightarrow> Inr bb)"

text \<open>The IN state of a block: the join of its incoming edge states, where there are any.\<close>

definition merge_in ::
  "control_flow_graph \<Rightarrow> abstract_environment \<Rightarrow> string \<Rightarrow> basic_block \<Rightarrow> wl_state
     \<Rightarrow> abstract_environment \<times> wl_state" where
  "merge_in g init b bb st =
     (let preds = filter (is_reachable g) (bb_predecessors bb) in
      if preds \<noteq> [] \<and> b \<noteq> cfg_entry_id g then
        (case join_edges st (map (\<lambda>p. (p, b)) preds) of
           Some merged \<Rightarrow> (merged, st\<lparr> wl_in := dset (wl_in st) b merged \<rparr>)
         | None \<Rightarrow> (dget_default (wl_in st) b init, st))
      else (dget_default (wl_in st) b init, st))"

definition propagate_edge ::
  "guard_registry \<Rightarrow> control_flow_graph \<Rightarrow> string \<Rightarrow> abstract_environment \<Rightarrow> wl_state \<Rightarrow> cfg_edge
     \<Rightarrow> analysis_error + wl_state" where
  "propagate_edge r g b out st edge =
     (let succ = ce_target edge in
      if \<not> is_reachable g succ then Inr st
      else
        let env = refine_edge r edge out;
            st1 = st\<lparr> wl_edge := dset (wl_edge st) (b, succ) env \<rparr>
        in case dget (wl_in st1) succ of
             None \<Rightarrow> Inr (enqueue succ (st1\<lparr> wl_in := dset (wl_in st1) succ env \<rparr>))
           | Some existing \<Rightarrow>
               rbind (block_of g succ) (\<lambda>sb.
                 let new_in = (case join_edges st1 (map (\<lambda>p. (p, succ)) (bb_predecessors sb)) of
                                 Some j \<Rightarrow> j | None \<Rightarrow> env)
                 in Inr (if envs_equal existing new_in then st1
                         else enqueue succ (st1\<lparr> wl_in := dset (wl_in st1) succ new_in \<rparr>))))"

fun propagate_edges ::
  "guard_registry \<Rightarrow> control_flow_graph \<Rightarrow> string \<Rightarrow> abstract_environment \<Rightarrow> cfg_edge list \<Rightarrow> wl_state
     \<Rightarrow> analysis_error + wl_state" where
  "propagate_edges r g b out [] st = Inr st"
| "propagate_edges r g b out (e # es) st =
     rbind (propagate_edge r g b out st e) (propagate_edges r g b out es)"

text \<open>One iteration of the loop, for the block taken from the front of the worklist.\<close>

definition process_block ::
  "guard_registry \<Rightarrow> control_flow_graph \<Rightarrow> abstract_environment \<Rightarrow> string \<Rightarrow> wl_state
     \<Rightarrow> analysis_error + wl_state" where
  "process_block r g init b st =
     (if \<not> is_reachable g b then Inr st
      else rbind (block_of g b) (\<lambda>bb.
        let (merged, st1) = merge_in g init b bb st;
            out = transfer_block r (bb_statements bb) merged;
            st2 = st1\<lparr> wl_out := dset (wl_out st1) b out \<rparr>
        in propagate_edges r g b out (outgoing_edges g b) st2))"

fun worklist_run ::
  "guard_registry \<Rightarrow> control_flow_graph \<Rightarrow> abstract_environment \<Rightarrow> nat \<Rightarrow> wl_state
     \<Rightarrow> analysis_error + wl_state" where
  "worklist_run r g init 0 st = Inr st"
| "worklist_run r g init (Suc n) st =
     (case wl_list st of
        [] \<Rightarrow> Inr st
      | b # rest \<Rightarrow>
          rbind (process_block r g init b (st\<lparr> wl_list := rest \<rparr>)) (worklist_run r g init n))"

definition max_steps :: nat where
  "max_steps = 1000"

definition wl_init :: "control_flow_graph \<Rightarrow> abstract_environment \<Rightarrow> wl_state" where
  "wl_init g init =
     \<lparr> wl_in = [(cfg_entry_id g, init)], wl_out = [], wl_edge = [], wl_list = [cfg_entry_id g] \<rparr>"

definition analyze ::
  "guard_registry \<Rightarrow> control_flow_graph \<Rightarrow> abstract_environment
     \<Rightarrow> analysis_error + (string, abstract_environment) dict" where
  "analyze r g init =
     rbind (worklist_run r g init max_steps (wl_init g init)) (\<lambda>st. Inr (wl_in st))"

section \<open>Well-formedness through the analysis\<close>

lemma env_wf_assign_with [intro]:
  assumes "env_wf e"
  shows "env_wf (assign_with e v t p d cs)"
proof -
  let ?k = "assignment_kill e v t p d"
  have "env_wf (fst ?k)" using assms by (rule env_wf_kill)
  then have "env_wf (env_set_value (fst ?k) (with_constraints (snd ?k) cs))"
    by (rule env_wf_set_value [where v = v]) simp_all
  then show ?thesis by (simp add: assign_with_def split_beta)
qed

lemma env_get_value_assign_with:
  "env_get_value (assign_with e v t p d cs) w =
     (if w = v then with_constraints (snd (assignment_kill e v t p d)) cs else env_get_value e w)"
  using env_get_version_inj [of "fst (assignment_kill e v t p d)" v e w]
  by (auto simp: assign_with_def split_beta env_get_value_set env_get_value_kill
      dest: env_get_version_inj)

lemma env_wf_set_killed:
  assumes "env_wf e"
  shows "env_wf (env_set_value (fst (assignment_kill e v t p d)) (snd (assignment_kill e v t p d)))"
  by (rule env_wf_set_value [where v = v, OF env_wf_kill [OF assms]]) simp_all

lemma env_wf_transfer_assign [intro]: "env_wf e \<Longrightarrow> env_wf (transfer_assign r lhs rhs e)"
  by (auto simp: transfer_assign_def Let_def split_beta env_wf_set_killed
      split: option.splits list.splits)

lemma env_wf_transfer_stmt [intro]: "env_wf e \<Longrightarrow> env_wf (transfer_stmt r s e)"
  by (auto simp: transfer_stmt_def Let_def split: option.splits list.splits)

lemma env_wf_transfer_block [intro]: "env_wf e \<Longrightarrow> env_wf (transfer_block r ss e)"
  unfolding transfer_block_def by (induction ss arbitrary: e) auto

lemma env_wf_refine_edge [intro]: "env_wf e \<Longrightarrow> env_wf (refine_edge r edge e)"
  by (auto simp: refine_edge_def Let_def split: prod.splits option.splits)

definition envs_wf :: "('k, abstract_environment) dict \<Rightarrow> bool" where
  "envs_wf d \<longleftrightarrow> (\<forall>k e. dget d k = Some e \<longrightarrow> env_wf e)"

definition wl_wf :: "wl_state \<Rightarrow> bool" where
  [inv_simps]: "wl_wf st \<longleftrightarrow> envs_wf (wl_in st) \<and> envs_wf (wl_edge st)"

lemma envs_wf_dset [intro]: "envs_wf d \<Longrightarrow> env_wf e \<Longrightarrow> envs_wf (dset d k e)"
  by (auto simp: envs_wf_def)

lemma env_wf_foldl_join: "env_wf e \<Longrightarrow> (\<And>x. x \<in> set es \<Longrightarrow> env_wf x) \<Longrightarrow> env_wf (foldl env_join e es)"
  by (induction es arbitrary: e) auto

lemma join_edges_wf:
  assumes "envs_wf (wl_edge st)" "join_edges st es = Some e"
  shows "env_wf e"
proof -
  obtain x xs where xs: "List.map_filter (dget (wl_edge st)) es = x # xs" "e = foldl env_join x xs"
    using assms(2) by (auto simp: join_edges_def split: list.splits)
  have "env_wf y" if "y \<in> set (x # xs)" for y
  proof -
    have "y \<in> set (List.map_filter (dget (wl_edge st)) es)" using that xs by simp
    then obtain k where "dget (wl_edge st) k = Some y" by (auto simp: List.map_filter_def)
    with assms(1) show ?thesis unfolding envs_wf_def by blast
  qed
  with xs show ?thesis by (auto intro: env_wf_foldl_join)
qed

lemma enqueue_fields [simp]:
  "wl_in (enqueue b st) = wl_in st" "wl_edge (enqueue b st) = wl_edge st"
  "set (wl_list (enqueue b st)) = insert b (set (wl_list st))"
  by (auto simp: enqueue_def)

lemma dget_default_wf: "envs_wf d \<Longrightarrow> env_wf e \<Longrightarrow> env_wf (dget_default d k e)"
  by (auto simp: dget_default_def envs_wf_def split: option.splits)

lemma merge_in_wf:
  assumes "wl_wf st" "env_wf init"
  shows "env_wf (fst (merge_in g init b bb st)) \<and> wl_wf (snd (merge_in g init b bb st))"
  using assms join_edges_wf
  by (auto simp: merge_in_def Let_def wl_wf_def dget_default_wf split: option.splits)

lemma wl_wf_edge [intro]: "wl_wf st \<Longrightarrow> env_wf e \<Longrightarrow> wl_wf (st\<lparr>wl_edge := dset (wl_edge st) k e\<rparr>)"
  by (auto simp: wl_wf_def)

lemma wl_wf_in [intro]: "wl_wf st \<Longrightarrow> env_wf e \<Longrightarrow> wl_wf (st\<lparr>wl_in := dset (wl_in st) k e\<rparr>)"
  by (auto simp: wl_wf_def)

lemma wl_wf_enqueue [simp]: "wl_wf (enqueue b st) = wl_wf st"
  by (simp add: wl_wf_def)

lemma propagate_edge_wf:
  assumes wf: "wl_wf st" "env_wf out" and step: "propagate_edge r g b out st edge = Inr st'"
  shows "wl_wf st'"
proof (cases "is_reachable g (ce_target edge)")
  case False
  with step wf show ?thesis by (simp add: propagate_edge_def)
next
  case True
  define env where "env = refine_edge r edge out"
  define st1 where "st1 = st\<lparr>wl_edge := dset (wl_edge st) (b, ce_target edge) env\<rparr>"
  have env: "env_wf env" and st1: "wl_wf st1" using wf by (auto simp: env_def st1_def)
  have upd: "wl_wf (enqueue s (st1\<lparr>wl_in := dset (wl_in st1) s e\<rparr>))" if "env_wf e" for s e
    using wl_wf_in [OF st1 that] by simp
  have join: "env_wf j" if "join_edges st1 es = Some j" for es j
    using st1 that by (auto simp: wl_wf_def intro: join_edges_wf)
  show ?thesis
  proof (cases "dget (wl_in st1) (ce_target edge)")
    case None
    with step True
    have "st' = enqueue (ce_target edge) (st1\<lparr>wl_in := dset (wl_in st1) (ce_target edge) env\<rparr>)"
      by (simp add: propagate_edge_def env_def st1_def Let_def)
    with upd [OF env] show ?thesis by (simp only:)
  next
    case (Some existing)
    with step True obtain sb where "block_of g (ce_target edge) = Inr sb"
      by (auto simp: propagate_edge_def Let_def st1_def)
    moreover have "wl_in st1 = wl_in st" by (simp add: st1_def)
    ultimately show ?thesis using step True Some st1 upd env join
      by (auto simp add: propagate_edge_def Let_def simp flip: env_def st1_def
          split: option.splits if_splits)
  qed
qed

lemma propagate_edges_wf:
  "wl_wf st \<Longrightarrow> env_wf out \<Longrightarrow> propagate_edges r g b out es st = Inr st' \<Longrightarrow> wl_wf st'"
  by (induction es arbitrary: st) (auto dest: propagate_edge_wf)

lemma process_block_wf:
  assumes "wl_wf st" "env_wf init" "process_block r g init b st = Inr st'"
  shows "wl_wf st'"
proof (cases "is_reachable g b")
  case False
  with assms show ?thesis by (simp add: process_block_def)
next
  case True
  with assms(3) obtain bb where bb: "block_of g b = Inr bb"
    by (auto simp: process_block_def)
  let ?m = "merge_in g init b bb st"
  let ?out = "transfer_block r (bb_statements bb) (fst ?m)"
  have m: "env_wf (fst ?m)" "wl_wf (snd ?m)" using merge_in_wf assms by blast+
  have "propagate_edges r g b ?out (outgoing_edges g b)
      ((snd ?m)\<lparr>wl_out := dset (wl_out (snd ?m)) b ?out\<rparr>) = Inr st'"
    using assms(3) True bb by (simp add: process_block_def split_beta Let_def)
  moreover have "wl_wf ((snd ?m)\<lparr>wl_out := dset (wl_out (snd ?m)) b ?out\<rparr>)"
    using m(2) by (simp add: wl_wf_def)
  moreover have "env_wf ?out" using m(1) by (rule env_wf_transfer_block)
  ultimately show ?thesis using propagate_edges_wf by blast
qed

lemma worklist_run_wf:
  "wl_wf st \<Longrightarrow> env_wf init \<Longrightarrow> worklist_run r g init n st = Inr st' \<Longrightarrow> wl_wf st'"
proof (induction n arbitrary: st)
  case (Suc n)
  show ?case
  proof (cases "wl_list st")
    case Nil
    with Suc.prems show ?thesis by simp
  next
    case (Cons b rest)
    with Suc.prems(3) obtain st1
      where st1: "process_block r g init b (st\<lparr>wl_list := rest\<rparr>) = Inr st1"
        "worklist_run r g init n st1 = Inr st'" by auto
    have "wl_wf (st\<lparr>wl_list := rest\<rparr>)" using Suc.prems(1) by (simp add: wl_wf_def)
    then have "wl_wf st1" using Suc.prems(2) st1(1) by (rule process_block_wf)
    then show ?thesis using Suc.prems(2) st1(2) by (rule Suc.IH)
  qed
qed simp

lemma wl_init_wf: "env_wf init \<Longrightarrow> wl_wf (wl_init g init)"
  by (simp add: wl_wf_def wl_init_def envs_wf_def)

section \<open>The analysis returns\<close>

text \<open>A graph whose reachable blocks are all present; looking one up never raises.\<close>

definition cfg_closed :: "control_flow_graph \<Rightarrow> bool" where
  "cfg_closed g \<longleftrightarrow> (\<forall>b \<in> cfg_reachable_blocks g. get_block g b \<noteq> None)"

lemma block_of_returns: "cfg_closed g \<Longrightarrow> is_reachable g b \<Longrightarrow> \<exists>bb. block_of g b = Inr bb"
  by (auto simp: cfg_closed_def is_reachable_def block_of_def split: option.splits)

lemma propagate_edge_returns:
  "cfg_closed g \<Longrightarrow> \<exists>st'. propagate_edge r g b out st edge = Inr st'"
  using block_of_returns [of g "ce_target edge"]
  by (auto simp: propagate_edge_def Let_def split: option.splits)

lemma propagate_edges_returns:
  "cfg_closed g \<Longrightarrow> \<exists>st'. propagate_edges r g b out es st = Inr st'"
proof (induction es arbitrary: st)
  case (Cons e es)
  then show ?case using propagate_edge_returns [of g r b out st e] by auto
qed simp

lemma process_block_returns:
  assumes "cfg_closed g"
  shows "\<exists>st'. process_block r g init b st = Inr st'"
proof (cases "is_reachable g b")
  case True
  with assms obtain bb where "block_of g b = Inr bb" using block_of_returns by blast
  with True assms show ?thesis
    by (simp add: process_block_def split_beta Let_def propagate_edges_returns)
qed (simp add: process_block_def)

lemma worklist_run_returns:
  "cfg_closed g \<Longrightarrow> \<exists>st'. worklist_run r g init n st = Inr st'"
proof (induction n arbitrary: st)
  case (Suc n)
  show ?case
  proof (cases "wl_list st")
    case (Cons b rest)
    obtain st1 where "process_block r g init b (st\<lparr>wl_list := rest\<rparr>) = Inr st1"
      using process_block_returns [OF Suc.prems] by blast
    with Cons Suc show ?thesis by simp
  qed simp
qed simp

lemma analyze_returns: "cfg_closed g \<Longrightarrow> \<exists>res. analyze r g init = Inr res"
  using worklist_run_returns [of g r init max_steps "wl_init g init"] by (auto simp: analyze_def)

lemma analyze_wf:
  assumes "env_wf init" "analyze r g init = Inr res" "dget res b = Some e"
  shows "env_wf e"
proof -
  obtain st where st: "worklist_run r g init max_steps (wl_init g init) = Inr st" "wl_in st = res"
    using assms(2) by (auto simp: analyze_def)
  have "wl_wf st" using wl_init_wf [OF assms(1)] assms(1) st(1) by (rule worklist_run_wf)
  with st(2) assms(3) show ?thesis unfolding wl_wf_def envs_wf_def by blast
qed

section \<open>Properties\<close>

text \<open>The branch on which the guarded predicate holds.\<close>

definition guard_holds :: "cfg_edge_kind \<Rightarrow> bool \<Rightarrow> bool" where
  "guard_holds kind negated =
     (kind = TRUE_BRANCH \<and> \<not> negated \<or> kind = FALSE_BRANCH \<and> negated)"

text \<open>
  C38: refining a well-formed environment along an edge with the default registry adds the
  predicate's true-branch constraints to the guarded variable exactly when the edge is the
  one on which the predicate holds (the true branch of a plain guard, the false branch of a
  negated one), and leaves the constraints of every other variable alone.
\<close>

theorem edge_refinement:
  assumes "env_wf e" "match_predicate_ast default_registry (ce_condition edge) = (Some cap, v, negated)"
    and "v \<noteq> []"
  shows "all_constraints (env_get_value (refine_edge default_registry edge e) w) =
    all_constraints (env_get_value e w) \<union>
      (if w = v \<and> guard_holds (ce_kind edge) negated then pc_true_constraints cap else {})"
proof -
  obtain fn where "lookup_predicate default_registry fn = Some cap"
    using match_predicate_SomeD [OF assms(2)] by blast
  then have "pc_false_constraints cap = {}" by (rule default_false_constraints)
  with assms(2,3) env_get_value_refine [OF assms(1)] show ?thesis
    by (auto simp: refine_edge_def branch_constraints_def guard_holds_def Let_def)
qed

definition demo_env :: abstract_environment where
  "demo_env = fst (assignment_kill empty_env ''$id'' TAINTED [] [])"

lemma demo_env_wf: "env_wf demo_env"
  unfolding demo_env_def by (rule env_wf_kill) simp

definition demo_edge :: cfg_edge where
  "demo_edge = \<lparr> ce_src = ''b0'', ce_target = ''b1'', ce_kind = FALSE_BRANCH,
     ce_condition = Some (TextStr ''!ctype_digit($id)'') \<rparr>"

theorem edge_refinement_witness:
  "all_constraints (env_get_value (refine_edge default_registry demo_edge demo_env) ''$id'') =
     all_constraints (env_get_value demo_env ''$id'') \<union> {DIGITS_ONLY, NUMERIC}"
proof -
  have "match_predicate_ast default_registry (ce_condition demo_edge) =
      (Some \<lparr> pc_name = ''ctype_digit'', pc_target_arg_idx = 0,
         pc_true_constraints = {DIGITS_ONLY, NUMERIC}, pc_false_constraints = {} \<rparr>, ''$id'', True)"
    by code_simp
  from edge_refinement [OF demo_env_wf this, of "''$id''"] show ?thesis
    by (simp add: demo_edge_def guard_holds_def)
qed

text \<open>
  A condition is searched for a guard call anywhere in its text, so the true branch of
  \<^verbatim>\<open>is_numeric($id) || $admin\<close>, on which the value may be anything, is refined as if the guard
  held: the tainted variable becomes constrained and carries the numeric fact.
\<close>

theorem compound_condition_trusted:
  "let edge = \<lparr> ce_src = ''b0'', ce_target = ''b1'', ce_kind = TRUE_BRANCH,
         ce_condition = Some (TextStr ''is_numeric($id) || $admin'') \<rparr>;
       val = env_get_value (refine_edge default_registry edge demo_env) ''$id''
   in av_taint val = CONSTRAINED \<and> av_type_facts val = {NUMERIC}"
  by code_simp

text \<open>
  An assignment moves the target to its next version and changes the value of no other
  variable.
\<close>

theorem assignment_kills_and_frames:
  "env_get_version (transfer_assign r lhs rhs e) lhs =
     version_key lhs (dget_default (env_counters e) lhs 0 + 1) \<and>
   (w = lhs \<or> env_get_value (transfer_assign r lhs rhs e) w = env_get_value e w)"
proof
  show "env_get_version (transfer_assign r lhs rhs e) lhs =
     version_key lhs (dget_default (env_counters e) lhs 0 + 1)"
    by (auto simp: transfer_assign_def Let_def split_beta assign_with_def
        split: option.splits list.splits)
  show "w = lhs \<or> env_get_value (transfer_assign r lhs rhs e) w = env_get_value e w"
    using env_get_version_inj [of "fst (assignment_kill e lhs t p d)" lhs e w for t p d]
    by (auto simp: transfer_assign_def Let_def split_beta env_get_value_assign_with
        env_get_value_set env_get_value_kill split: option.splits list.splits
        dest: env_get_version_inj)
qed

lemma all_constraints_kill [simp]: "all_constraints (snd (assignment_kill e v t p d)) = {}"
  by (simp add: all_constraints_def)

text \<open>
  A right-hand side that mentions \<^verbatim>\<open>intval\<close> anywhere gives the whole assigned value
  the integer facts, whatever else is concatenated to it.
\<close>

theorem cast_anywhere_trusted:
  assumes "contains ''intval'' (py_lower rhs)"
  shows "all_constraints (env_get_value (transfer_assign default_registry lhs rhs e) lhs) =
    {INTEGER, NUMERIC}"
proof -
  have "lookup_transformation default_registry ''intval'' =
      Some \<lparr> vt_name = ''intval'', vt_target_arg_idx = 0, vt_produced = {INTEGER, NUMERIC} \<rparr>"
    by code_simp
  with assms show ?thesis
    by (simp add: transfer_assign_def trans_names_def Let_def env_get_value_assign_with)
qed

theorem cast_anywhere_trusted_witness:
  "all_constraints (env_get_value (transfer_assign default_registry ''$sql''
     ''\"WHERE id=\" . intval($id) . \" AND n=\" . $_GET[1]'' demo_env) ''$sql'') =
     {INTEGER, NUMERIC}"
  by (rule cast_anywhere_trusted) code_simp

text \<open>
  C37: on a graph whose reachable blocks are all present the bounded fixpoint loop returns
  without a lookup error, and every environment it reports is well formed.
\<close>

theorem analysis_returns_well_formed:
  assumes "cfg_closed g" "env_wf init"
  shows "\<exists>res. analyze r g init = Inr res \<and>
    (\<forall>b. case dget res b of None \<Rightarrow> True | Some e \<Rightarrow> env_wf e)"
  using analyze_returns [OF assms(1), of r init] analyze_wf [OF assms(2)]
  by (auto split: option.splits)

definition demo_cfg :: control_flow_graph where
  "demo_cfg = \<lparr> cfg_name = ''f'', cfg_entry_id = ''b0'', cfg_exit_id = ''b0'',
     cfg_blocks = [(''b0'', \<lparr> bb_block_id = ''b0'', bb_label = ''entry'',
        bb_statements = [TextStr ''$n = intval($id);''], bb_predecessors = [''b0''],
        bb_successors = [''b0''], bb_is_entry = True, bb_is_exit = True,
        bb_is_terminate = False \<rparr>)],
     cfg_edges = [\<lparr> ce_src = ''b0'', ce_target = ''b0'', ce_kind = LOOP_BACKEDGE,
        ce_condition = None \<rparr>],
     cfg_dominators = [], cfg_reachable_blocks = {''b0''} \<rparr>"

theorem analysis_returns_well_formed_witness:
  "\<exists>res. analyze default_registry demo_cfg demo_env = Inr res \<and>
    (\<forall>b. case dget res b of None \<Rightarrow> True | Some e \<Rightarrow> env_wf e)"
proof (rule analysis_returns_well_formed)
  show "cfg_closed demo_cfg" by (simp add: cfg_closed_def demo_cfg_def get_block_def)
qed (rule demo_env_wf)

end
