(* ===== verification/SinkMatrix.thy ===== *)
theory SinkMatrix
  imports AbstractState
begin

text \<open>
  The sink compatibility matrix of \<^verbatim>\<open>karsasec/graph/dataflow/sink_matrix.py\<close>: whether the
  constraints proven for a value are enough for the sink it reaches. The decision is sound
  against a declarative table of which constraint protects which sink family in which
  context.
\<close>

datatype sink_context =
    SQL_VALUE | SQL_IDENTIFIER | SQL_ORDER_BY | SHELL_ARGUMENT
  | HTML_TEXT | HTML_ATTRIBUTE | FILE_PATH | CTX_UNKNOWN

datatype compatibility_decision = COMPATIBLE | COMPAT_NOT_PROVEN | CONFLICT

text \<open>The reason text of a result, with the values it interpolates.\<close>

datatype matrix_reason =
    NoConstraints
  | TypeSatisfiesSqlValue semantic_constraint
  | TypeNotProvenFor semantic_constraint sink_context
  | TypePreventsCommandInjection semantic_constraint
  | TypeSatisfiesHtml semantic_constraint
  | ShellEscapedSatisfies
  | ShellEscapedIncompatible string
  | HtmlEscapedSatisfies
  | HtmlEscapedIncompatible string
  | PathNormalizedSatisfies
  | Unsatisfied "semantic_constraint set" string sink_context

record evaluation_result =
  er_decision :: compatibility_decision
  er_reason :: matrix_reason
  er_matching_constraint :: "semantic_constraint option"
  er_sink_context :: sink_context

definition type_constraints :: "semantic_constraint set" where
  "type_constraints = {NUMERIC, INTEGER, DIGITS_ONLY}"

definition matched_type :: "semantic_constraint set \<Rightarrow> semantic_constraint" where
  "matched_type cs =
     (if INTEGER \<in> cs then INTEGER else if DIGITS_ONLY \<in> cs then DIGITS_ONLY else NUMERIC)"

definition cat_sql :: "string \<Rightarrow> bool" where
  "cat_sql cat = contains ''SQL'' cat"

definition cat_shell :: "string \<Rightarrow> bool" where
  "cat_shell cat = (contains ''COMMAND'' cat \<or> contains ''EXEC'' cat \<or> contains ''SHELL'' cat)"

definition cat_html :: "string \<Rightarrow> bool" where
  "cat_html cat = (contains ''XSS'' cat \<or> contains ''HTML'' cat)"

definition cat_file :: "string \<Rightarrow> bool" where
  "cat_file cat = (contains ''FILE'' cat \<or> contains ''PATH'' cat \<or> contains ''LFI'' cat
     \<or> contains ''TRAVERSAL'' cat)"

definition norm_category :: "string \<Rightarrow> string" where
  "norm_category cat = py_strip (py_upper cat)"

abbreviation eval_result ::
  "compatibility_decision \<Rightarrow> matrix_reason \<Rightarrow> semantic_constraint option \<Rightarrow> sink_context
     \<Rightarrow> evaluation_result" where
  "eval_result d r m ctx \<equiv>
     \<lparr> er_decision = d, er_reason = r, er_matching_constraint = m, er_sink_context = ctx \<rparr>"

text \<open>
  Branch 1: a type constraint decides for SQL and HTML sinks, and for shell sinks in
  argument position; otherwise the later branches are tried.
\<close>

definition matrix_type_branch ::
  "semantic_constraint set \<Rightarrow> string \<Rightarrow> sink_context \<Rightarrow> evaluation_result option" where
  "matrix_type_branch cs cat ctx =
     (if \<not> (NUMERIC \<in> cs \<or> INTEGER \<in> cs \<or> DIGITS_ONLY \<in> cs) then None
      else let m = matched_type cs in
        if cat_sql cat then
          (if ctx = SQL_VALUE \<or> ctx = CTX_UNKNOWN
           then Some (eval_result COMPATIBLE (TypeSatisfiesSqlValue m) (Some m) ctx)
           else Some (eval_result COMPAT_NOT_PROVEN (TypeNotProvenFor m ctx) (Some m) ctx))
        else if cat_shell cat then
          (if ctx = SHELL_ARGUMENT \<or> ctx = CTX_UNKNOWN
           then Some (eval_result COMPATIBLE (TypePreventsCommandInjection m) (Some m) ctx)
           else None)
        else if cat_html cat then
          Some (eval_result COMPATIBLE (TypeSatisfiesHtml m) (Some m) ctx)
        else None)"

definition matrix_evaluate ::
  "semantic_constraint set \<Rightarrow> string \<Rightarrow> sink_context \<Rightarrow> evaluation_result" where
  "matrix_evaluate cs sink_category ctx =
     (if cs = {} then eval_result COMPAT_NOT_PROVEN NoConstraints None ctx
      else let cat = norm_category sink_category in
        case matrix_type_branch cs cat ctx of
          Some r \<Rightarrow> r
        | None \<Rightarrow>
           if SHELL_ESCAPED \<in> cs then
             (if cat_shell cat
              then eval_result COMPATIBLE ShellEscapedSatisfies (Some SHELL_ESCAPED) ctx
              else eval_result COMPAT_NOT_PROVEN (ShellEscapedIncompatible cat)
                     (Some SHELL_ESCAPED) ctx)
           else if HTML_ESCAPED \<in> cs then
             (if cat_html cat
              then eval_result COMPATIBLE HtmlEscapedSatisfies (Some HTML_ESCAPED) ctx
              else eval_result COMPAT_NOT_PROVEN (HtmlEscapedIncompatible cat)
                     (Some HTML_ESCAPED) ctx)
           else if PATH_NORMALIZED \<in> cs \<and> cat_file cat then
             eval_result COMPATIBLE PathNormalizedSatisfies (Some PATH_NORMALIZED) ctx
           else eval_result COMPAT_NOT_PROVEN (Unsatisfied cs cat ctx) None ctx)"

section \<open>What a constraint protects\<close>

text \<open>
  The table the matrix is meant to implement: a type constraint protects an SQL value, a
  shell argument and any HTML position; an escape protects the sink it escapes for; a
  normalised path protects a file sink.
\<close>

fun protects :: "semantic_constraint \<Rightarrow> string \<Rightarrow> sink_context \<Rightarrow> bool" where
  "protects SHELL_ESCAPED cat ctx = cat_shell cat"
| "protects HTML_ESCAPED cat ctx = cat_html cat"
| "protects PATH_NORMALIZED cat ctx = cat_file cat"
| "protects SQL_ESCAPED cat ctx = False"
| "protects _ cat ctx =
     (cat_sql cat \<and> ctx \<in> {SQL_VALUE, CTX_UNKNOWN} \<or>
      cat_shell cat \<and> ctx \<in> {SHELL_ARGUMENT, CTX_UNKNOWN} \<or> cat_html cat)"

lemma matched_type_in: "type_constraints \<inter> cs \<noteq> {} \<Longrightarrow> matched_type cs \<in> type_constraints \<inter> cs"
  by (auto simp: matched_type_def type_constraints_def)

lemma protects_type:
  "m \<in> type_constraints \<Longrightarrow> protects m cat ctx \<longleftrightarrow>
     (cat_sql cat \<and> ctx \<in> {SQL_VALUE, CTX_UNKNOWN} \<or>
      cat_shell cat \<and> ctx \<in> {SHELL_ARGUMENT, CTX_UNKNOWN} \<or> cat_html cat)"
  by (auto simp: type_constraints_def)

lemma matrix_type_branch_Some:
  assumes "matrix_type_branch cs cat ctx = Some r"
  shows "er_matching_constraint r = Some (matched_type cs) \<and> matched_type cs \<in> cs \<and>
    matched_type cs \<in> type_constraints \<and> er_decision r \<noteq> CONFLICT \<and>
    (er_decision r = COMPATIBLE \<longrightarrow> protects (matched_type cs) cat ctx)"
proof -
  have "type_constraints \<inter> cs \<noteq> {}"
    using assms by (auto simp: matrix_type_branch_def type_constraints_def split: if_splits)
  then have m: "matched_type cs \<in> cs" "matched_type cs \<in> type_constraints"
    using matched_type_in by blast+
  with assms show ?thesis
    by (auto simp: matrix_type_branch_def Let_def protects_type split: if_splits)
qed

lemma matrix_sound:
  assumes "er_decision (matrix_evaluate cs cat ctx) = COMPATIBLE"
  shows "\<exists>c \<in> cs. er_matching_constraint (matrix_evaluate cs cat ctx) = Some c \<and>
    protects c (norm_category cat) ctx"
proof (cases "matrix_type_branch cs (norm_category cat) ctx")
  case None
  with assms show ?thesis
    by (auto simp: matrix_evaluate_def Let_def split: if_splits)
next
  case (Some r)
  with assms have "matrix_evaluate cs cat ctx = r"
    by (auto simp: matrix_evaluate_def Let_def split: if_splits)
  with assms matrix_type_branch_Some [OF Some] show ?thesis by auto
qed

lemma matrix_never_conflict: "er_decision (matrix_evaluate cs cat ctx) \<noteq> CONFLICT"
proof (cases "matrix_type_branch cs (norm_category cat) ctx")
  case None
  then show ?thesis by (simp add: matrix_evaluate_def Let_def)
next
  case (Some r)
  with matrix_type_branch_Some [OF Some] show ?thesis by (simp add: matrix_evaluate_def Let_def)
qed

lemma matrix_empty [simp]: "er_decision (matrix_evaluate {} cat ctx) = COMPAT_NOT_PROVEN"
  by (simp add: matrix_evaluate_def)

lemma matrix_sql_position:
  assumes "cat_sql (norm_category cat)" "\<not> cat_shell (norm_category cat)"
    "\<not> cat_html (norm_category cat)" "\<not> cat_file (norm_category cat)"
    and "ctx \<notin> {SQL_VALUE, CTX_UNKNOWN}"
  shows "er_decision (matrix_evaluate cs cat ctx) = COMPAT_NOT_PROVEN"
proof (rule ccontr)
  assume "er_decision (matrix_evaluate cs cat ctx) \<noteq> COMPAT_NOT_PROVEN"
  then have "er_decision (matrix_evaluate cs cat ctx) = COMPATIBLE"
    using matrix_never_conflict by (metis compatibility_decision.exhaust)
  then obtain c where "protects c (norm_category cat) ctx" using matrix_sound by blast
  with assms show False by (cases c) auto
qed

section \<open>Properties\<close>

text \<open>
  Whenever the matrix answers \<^const>\<open>COMPATIBLE\<close>, the constraint it reports as the
  match is one of the constraints proven for the value, and it is one that protects the
  normalised sink category in the given context.
\<close>

theorem compatible_constraint_protects:
  assumes "er_decision (matrix_evaluate cs cat ctx) = COMPATIBLE"
  shows "\<exists>c \<in> cs. er_matching_constraint (matrix_evaluate cs cat ctx) = Some c \<and>
    protects c (norm_category cat) ctx"
  by (rule matrix_sound [OF assms])

theorem compatible_constraint_protects_witness:
  "\<exists>c \<in> {HTML_ESCAPED, INTEGER}.
     er_matching_constraint (matrix_evaluate {HTML_ESCAPED, INTEGER} ''sql_query'' SQL_VALUE) = Some c \<and>
     protects c (norm_category ''sql_query'') SQL_VALUE"
  by (rule compatible_constraint_protects) code_simp

text \<open>
  No set of constraints makes a value acceptable where an SQL sink uses it as
  structure (an identifier or an \<^verbatim>\<open>ORDER BY\<close> term): numeric facts, escapes and normalisation
  are all refused there.
\<close>

theorem sql_structure_positions_refused:
  assumes "cat_sql (norm_category cat)" "\<not> cat_shell (norm_category cat)"
    "\<not> cat_html (norm_category cat)" "\<not> cat_file (norm_category cat)"
    and "ctx = SQL_IDENTIFIER \<or> ctx = SQL_ORDER_BY"
  shows "er_decision (matrix_evaluate cs cat ctx) = COMPAT_NOT_PROVEN"
  using matrix_sql_position [OF assms(1-4), of ctx cs] assms(5) by auto

theorem sql_structure_positions_refused_witness:
  "er_decision (matrix_evaluate {INTEGER, DIGITS_ONLY} ''sql_query'' SQL_ORDER_BY) = COMPAT_NOT_PROVEN"
  by (rule sql_structure_positions_refused) code_simp+

end
