(* ===== verification/SecurityDecision.thy ===== *)
theory SecurityDecision
  imports SinkMatrix "HOL-Library.Multiset"
begin

text \<open>
  Evidence bundles, verdicts and the decision engine of
  \<^verbatim>\<open>karsasec/graph/dataflow/semantic_evidence.py\<close>, \<^verbatim>\<open>security_verdict.py\<close> and
  \<^verbatim>\<open>security_decision.py\<close>. The hash is a parameter \<open>sha256\<close>; the call context of an
  evidence item is held as its printed form, the only thing the engine does with it.
\<close>

section \<open>Evidence\<close>

datatype evidence_kind =
    EV_SOURCE | EV_ASSIGNMENT | EV_GUARD | EV_TRANSFORMATION | EV_SANITIZER | EV_RETURN
  | EV_CALL_SITE | EV_CROSS_FILE | EV_SINK

fun evidence_kind_value :: "evidence_kind \<Rightarrow> string" where
  "evidence_kind_value EV_SOURCE = ''SOURCE''"
| "evidence_kind_value EV_ASSIGNMENT = ''ASSIGNMENT''"
| "evidence_kind_value EV_GUARD = ''GUARD''"
| "evidence_kind_value EV_TRANSFORMATION = ''TRANSFORMATION''"
| "evidence_kind_value EV_SANITIZER = ''SANITIZER''"
| "evidence_kind_value EV_RETURN = ''RETURN''"
| "evidence_kind_value EV_CALL_SITE = ''CALL_SITE''"
| "evidence_kind_value EV_CROSS_FILE = ''CROSS_FILE''"
| "evidence_kind_value EV_SINK = ''SINK''"

datatype proof_status = PROVEN | PROOF_NOT_PROVEN | PROOF_UNKNOWN | PROOF_NON_CONVERGED

fun proof_status_value :: "proof_status \<Rightarrow> string" where
  "proof_status_value PROVEN = ''PROVEN''"
| "proof_status_value PROOF_NOT_PROVEN = ''NOT_PROVEN''"
| "proof_status_value PROOF_UNKNOWN = ''UNKNOWN''"
| "proof_status_value PROOF_NON_CONVERGED = ''NON_CONVERGED''"

record semantic_evidence =
  se_node_id :: string
  se_evidence_kind :: evidence_kind
  se_file_path :: string
  se_function_name :: string
  se_statement :: string
  se_var_name :: string
  se_var_version :: string
  se_taint_state :: taint_state
  se_type_constraints :: "semantic_constraint set"
  se_sanitization_constraints :: "semantic_constraint set"
  se_normalization_constraints :: "semantic_constraint set"
  se_call_context :: "string option"
  se_branch_polarity :: string
  se_provenance_path :: "string list"
  se_proof_status :: proof_status
  se_source_location :: string
  se_description :: string

definition se_all_constraints :: "semantic_evidence \<Rightarrow> semantic_constraint set" where
  "se_all_constraints ev =
     se_type_constraints ev \<union> se_sanitization_constraints ev \<union> se_normalization_constraints ev"

record evidence_bundle =
  eb_sink_node_id :: string
  eb_sink_category :: string
  eb_sink_context :: sink_context
  eb_evidences :: "semantic_evidence list"
  eb_aggregated_constraints :: "semantic_constraint set"
  eb_proof_status :: proof_status
  eb_evaluation_result :: "evaluation_result option"

section \<open>Verdicts\<close>

datatype verdict_status = VULNERABLE | SAFE | VERDICT_UNKNOWN | VERDICT_NOT_PROVEN

fun verdict_status_value :: "verdict_status \<Rightarrow> string" where
  "verdict_status_value VULNERABLE = ''VULNERABLE''"
| "verdict_status_value SAFE = ''SAFE''"
| "verdict_status_value VERDICT_UNKNOWN = ''UNKNOWN''"
| "verdict_status_value VERDICT_NOT_PROVEN = ''NOT_PROVEN''"

datatype decision_reason =
    TAINT_REACHES_SINK | SANITIZER_COMPATIBLE | SANITIZER_INCOMPATIBLE
  | GUARD_PROVEN | GUARD_NOT_PROVEN | TRANSFORMATION_PROVEN | TRANSFORMATION_NOT_PROVEN
  | REASSIGNMENT_INVALIDATED | SINK_COMPATIBILITY_PROVEN | SINK_COMPATIBILITY_NOT_PROVEN
  | SOURCE_PROVENANCE | CALL_CONTEXT_ISOLATED | SSA_VERSION_ISOLATED
  | PATH_CONSTRAINT_PROVEN | PATH_CONSTRAINT_NOT_PROVEN | UNKNOWN_EVIDENCE
  | NON_CONVERGED_ANALYSIS

fun reason_value :: "decision_reason \<Rightarrow> string" where
  "reason_value TAINT_REACHES_SINK = ''TAINT_REACHES_SINK''"
| "reason_value SANITIZER_COMPATIBLE = ''SANITIZER_COMPATIBLE''"
| "reason_value SANITIZER_INCOMPATIBLE = ''SANITIZER_INCOMPATIBLE''"
| "reason_value GUARD_PROVEN = ''GUARD_PROVEN''"
| "reason_value GUARD_NOT_PROVEN = ''GUARD_NOT_PROVEN''"
| "reason_value TRANSFORMATION_PROVEN = ''TRANSFORMATION_PROVEN''"
| "reason_value TRANSFORMATION_NOT_PROVEN = ''TRANSFORMATION_NOT_PROVEN''"
| "reason_value REASSIGNMENT_INVALIDATED = ''REASSIGNMENT_INVALIDATED''"
| "reason_value SINK_COMPATIBILITY_PROVEN = ''SINK_COMPATIBILITY_PROVEN''"
| "reason_value SINK_COMPATIBILITY_NOT_PROVEN = ''SINK_COMPATIBILITY_NOT_PROVEN''"
| "reason_value SOURCE_PROVENANCE = ''SOURCE_PROVENANCE''"
| "reason_value CALL_CONTEXT_ISOLATED = ''CALL_CONTEXT_ISOLATED''"
| "reason_value SSA_VERSION_ISOLATED = ''SSA_VERSION_ISOLATED''"
| "reason_value PATH_CONSTRAINT_PROVEN = ''PATH_CONSTRAINT_PROVEN''"
| "reason_value PATH_CONSTRAINT_NOT_PROVEN = ''PATH_CONSTRAINT_NOT_PROVEN''"
| "reason_value UNKNOWN_EVIDENCE = ''UNKNOWN_EVIDENCE''"
| "reason_value NON_CONVERGED_ANALYSIS = ''NON_CONVERGED_ANALYSIS''"

datatype verdict_confidence = CONF_HIGH | CONF_MEDIUM | CONF_LOW

record evidence_reference =
  er_evidence_id :: string
  er_evidence_kind :: string
  er_source_node :: string
  er_sink_node :: string
  er_file_path :: string
  er_line_number :: int
  er_var_version :: string
  er_call_context_id :: string
  er_branch_polarity :: string
  er_proof_status :: string
  er_description :: string

record security_verdict =
  sv_verdict_id :: string
  sv_status :: verdict_status
  sv_confidence :: verdict_confidence
  sv_rule_id :: string
  sv_sink_id :: string
  sv_sink_category :: string
  sv_file_path :: string
  sv_function_name :: string
  sv_line_number :: int
  sv_variable_version :: string
  sv_call_context :: "string option"
  sv_branch_polarity :: string
  sv_reason_codes :: "decision_reason list"
  sv_source_ids :: "string list"
  sv_provenance_path :: "string list"
  sv_evidence_references :: "evidence_reference list"
  sv_compatibility_decision :: "string option"
  sv_matching_constraint :: "string option"
  sv_evidence_fingerprint :: string
  sv_canonical_fingerprint :: string

definition or_empty :: "string option \<Rightarrow> string" where
  "or_empty s = (case s of None \<Rightarrow> [] | Some x \<Rightarrow> x)"

definition evidence_components ::
  "string \<Rightarrow> string \<Rightarrow> string \<Rightarrow> string \<Rightarrow> int \<Rightarrow> string \<Rightarrow> string option \<Rightarrow> string
     \<Rightarrow> string list \<Rightarrow> string list \<Rightarrow> decision_reason list \<Rightarrow> evidence_reference list \<Rightarrow> string list"
where
  "evidence_components rule_id sink_category file_path function_name line_number var_version
       call_context branch_polarity source_ids provenance_path reason_codes evidences =
     [ ''rule:'' @ py_strip rule_id,
       ''category:'' @ py_upper (py_strip sink_category),
       ''file:'' @ py_lower (py_strip (py_replace1 CHR 0x5C CHR ''/'' file_path)),
       ''func:'' @ py_strip function_name,
       ''line:'' @ str_int line_number,
       ''var_version:'' @ py_strip var_version,
       ''call_context:'' @ py_strip (or_empty call_context),
       ''branch_polarity:'' @ py_strip branch_polarity,
       ''sources:'' @ py_join '','' (sort source_ids),
       ''prov:'' @ py_join ''->'' provenance_path,
       ''reasons:'' @ py_join '','' (sort (map reason_value reason_codes)),
       ''ev_ids:'' @ py_join '','' (sort (map er_evidence_id evidences)) ]"

definition compute_evidence_fingerprint ::
  "(string \<Rightarrow> string) \<Rightarrow> string \<Rightarrow> string \<Rightarrow> string \<Rightarrow> string \<Rightarrow> int \<Rightarrow> string \<Rightarrow> string option \<Rightarrow> string
     \<Rightarrow> string list \<Rightarrow> string list \<Rightarrow> decision_reason list \<Rightarrow> evidence_reference list \<Rightarrow> string"
where
  "compute_evidence_fingerprint sha256 rule_id sink_category file_path function_name line_number
       var_version call_context branch_polarity source_ids provenance_path reason_codes evidences =
     take 32 (sha256 (py_join ''|''
       (evidence_components rule_id sink_category file_path function_name line_number var_version
          call_context branch_polarity source_ids provenance_path reason_codes evidences)))"

definition verdict_create ::
  "(string \<Rightarrow> string) \<Rightarrow> verdict_status \<Rightarrow> verdict_confidence \<Rightarrow> string \<Rightarrow> string \<Rightarrow> string \<Rightarrow> string
     \<Rightarrow> string \<Rightarrow> int \<Rightarrow> string \<Rightarrow> string option \<Rightarrow> string \<Rightarrow> decision_reason list \<Rightarrow> string list
     \<Rightarrow> string list \<Rightarrow> evidence_reference list \<Rightarrow> string option \<Rightarrow> string option \<Rightarrow> security_verdict"
where
  "verdict_create sha256 status confidence rule_id sink_id sink_category file_path function_name
       line_number variable_version call_context branch_polarity reason_codes source_ids
       provenance_path evidence_references compatibility_decision matching_constraint =
     (let ev_fp = compute_evidence_fingerprint sha256 rule_id sink_category file_path function_name
                    line_number variable_version call_context branch_polarity source_ids
                    provenance_path reason_codes evidence_references;
          compat = (case compatibility_decision of
                      None \<Rightarrow> ''NONE'' | Some c \<Rightarrow> if c = [] then ''NONE'' else c);
          canon_fp = take 32 (sha256 (verdict_status_value status @ ''|'' @ ev_fp @ ''|'' @ compat))
      in \<lparr> sv_verdict_id = ''verdict_'' @ take 16 canon_fp,
           sv_status = status, sv_confidence = confidence, sv_rule_id = rule_id,
           sv_sink_id = sink_id, sv_sink_category = sink_category, sv_file_path = file_path,
           sv_function_name = function_name, sv_line_number = line_number,
           sv_variable_version = variable_version, sv_call_context = call_context,
           sv_branch_polarity = branch_polarity, sv_reason_codes = reason_codes,
           sv_source_ids = source_ids, sv_provenance_path = provenance_path,
           sv_evidence_references = evidence_references,
           sv_compatibility_decision = compatibility_decision,
           sv_matching_constraint = matching_constraint,
           sv_evidence_fingerprint = ev_fp, sv_canonical_fingerprint = canon_fp \<rparr>)"

section \<open>The decision engine\<close>

record decision_context =
  dc_rule_id :: string
  dc_file_path :: string
  dc_function_name :: string
  dc_line_number :: int
  dc_variable_version :: string
  dc_call_context :: "string option"
  dc_branch_polarity :: string

definition or_else :: "string \<Rightarrow> string \<Rightarrow> string" where
  "or_else a b = (if a \<noteq> [] then a else b)"

definition to_reference ::
  "evidence_bundle \<Rightarrow> decision_context \<Rightarrow> semantic_evidence \<Rightarrow> evidence_reference" where
  "to_reference bundle ctx ev =
     \<lparr> er_evidence_id = se_node_id ev,
       er_evidence_kind = evidence_kind_value (se_evidence_kind ev),
       er_source_node = eb_sink_node_id bundle,
       er_sink_node = eb_sink_node_id bundle,
       er_file_path = or_else (se_file_path ev) (dc_file_path ctx),
       er_line_number = dc_line_number ctx,
       er_var_version = or_else (se_var_version ev) (dc_variable_version ctx),
       er_call_context_id =
         (case se_call_context ev of Some c \<Rightarrow> c | None \<Rightarrow> or_empty (dc_call_context ctx)),
       er_branch_polarity = or_else (se_branch_polarity ev) (dc_branch_polarity ctx),
       er_proof_status = proof_status_value (se_proof_status ev),
       er_description = se_description ev \<rparr>"

definition evidence_sources :: "semantic_evidence list \<Rightarrow> string list" where
  "evidence_sources evs =
     map se_var_name (filter (\<lambda>ev. se_evidence_kind ev = EV_SOURCE \<and> se_var_name ev \<noteq> []) evs)"

definition evidence_path :: "semantic_evidence list \<Rightarrow> string list" where
  "evidence_path evs = dedup_onto [] (filter (\<lambda>h. h \<noteq> []) (concat (map se_provenance_path evs)))"

text \<open>The pre-evaluated matrix result, or the matrix itself when the bundle has a category.\<close>

definition matrix_eval_of :: "evidence_bundle \<Rightarrow> evaluation_result option" where
  "matrix_eval_of bundle =
     (case eb_evaluation_result bundle of
        Some r \<Rightarrow> Some r
      | None \<Rightarrow>
          if eb_sink_category bundle \<noteq> []
          then Some (matrix_evaluate (eb_aggregated_constraints bundle) (eb_sink_category bundle)
                      (eb_sink_context bundle))
          else None)"

fun proof_reason :: "evidence_kind \<Rightarrow> decision_reason list" where
  "proof_reason EV_GUARD = [GUARD_PROVEN]"
| "proof_reason EV_SANITIZER = [SANITIZER_COMPATIBLE]"
| "proof_reason EV_TRANSFORMATION = [TRANSFORMATION_PROVEN]"
| "proof_reason _ = []"

definition safe_reasons :: "semantic_evidence list \<Rightarrow> decision_reason list" where
  "safe_reasons evs =
     (let rs = SINK_COMPATIBILITY_PROVEN # concat (map (proof_reason \<circ> se_evidence_kind) evs)
      in if list_ex (\<lambda>r. r \<in> set rs) [GUARD_PROVEN, SANITIZER_COMPATIBLE, TRANSFORMATION_PROVEN]
         then rs else rs @ [PATH_CONSTRAINT_PROVEN])"

definition decide ::
  "evidence_bundle \<Rightarrow> evaluation_result option
     \<Rightarrow> verdict_status \<times> verdict_confidence \<times> decision_reason list" where
  "decide bundle eval =
     (if eb_proof_status bundle = PROVEN \<and> map_option er_decision eval = Some COMPATIBLE then
        (SAFE, CONF_HIGH, safe_reasons (eb_evidences bundle))
      else if map_option er_decision eval \<in> {Some COMPAT_NOT_PROVEN, Some CONFLICT} then
        (if eb_proof_status bundle = PROVEN then
           (VULNERABLE, CONF_HIGH,
             [TAINT_REACHES_SINK, SANITIZER_INCOMPATIBLE, SINK_COMPATIBILITY_NOT_PROVEN])
         else
           (VERDICT_UNKNOWN, CONF_LOW,
             [UNKNOWN_EVIDENCE, GUARD_NOT_PROVEN, SINK_COMPATIBILITY_NOT_PROVEN]))
      else if eb_proof_status bundle = PROOF_NOT_PROVEN then
        (VERDICT_UNKNOWN, CONF_LOW,
          [UNKNOWN_EVIDENCE, GUARD_NOT_PROVEN, SINK_COMPATIBILITY_NOT_PROVEN])
      else (VERDICT_UNKNOWN, CONF_MEDIUM, [UNKNOWN_EVIDENCE, PATH_CONSTRAINT_NOT_PROVEN]))"

fun compat_value :: "compatibility_decision \<Rightarrow> string" where
  "compat_value COMPATIBLE = ''COMPATIBLE''"
| "compat_value COMPAT_NOT_PROVEN = ''NOT_PROVEN''"
| "compat_value CONFLICT = ''CONFLICT''"

fun constraint_value :: "semantic_constraint \<Rightarrow> string" where
  "constraint_value NUMERIC = ''NUMERIC''"
| "constraint_value INTEGER = ''INTEGER''"
| "constraint_value DIGITS_ONLY = ''DIGITS_ONLY''"
| "constraint_value SHELL_ESCAPED = ''SHELL_ESCAPED''"
| "constraint_value HTML_ESCAPED = ''HTML_ESCAPED''"
| "constraint_value SQL_ESCAPED = ''SQL_ESCAPED''"
| "constraint_value PATH_NORMALIZED = ''PATH_NORMALIZED''"

definition evaluate_verdict ::
  "(string \<Rightarrow> string) \<Rightarrow> evidence_bundle \<Rightarrow> decision_context \<Rightarrow> security_verdict" where
  "evaluate_verdict sha256 bundle ctx =
     (let ev_refs = map (to_reference bundle ctx) (eb_evidences bundle);
          eval = matrix_eval_of bundle;
          (status, confidence, reasons) = decide bundle eval;
          reasons' = reasons
            @ (if or_empty (dc_call_context ctx) \<noteq> [] then [CALL_CONTEXT_ISOLATED] else [])
            @ (if dc_variable_version ctx \<noteq> [] then [SSA_VERSION_ISOLATED] else [])
      in verdict_create sha256 status confidence (dc_rule_id ctx) (eb_sink_node_id bundle)
           (eb_sink_category bundle) (dc_file_path ctx) (dc_function_name ctx)
           (dc_line_number ctx) (dc_variable_version ctx) (dc_call_context ctx)
           (dc_branch_polarity ctx) (dedup_onto [] reasons')
           (evidence_sources (eb_evidences bundle)) (evidence_path (eb_evidences bundle)) ev_refs
           (map_option (compat_value \<circ> er_decision) eval)
           (map_option constraint_value (Option.bind eval er_matching_constraint)))"

section \<open>What a verdict rests on\<close>

lemma verdict_create_fields [simp]:
  "sv_status (verdict_create h st cf r si sc fp fn ln vv cc bp rc src pp er cd mc) = st"
  "sv_confidence (verdict_create h st cf r si sc fp fn ln vv cc bp rc src pp er cd mc) = cf"
  "sv_reason_codes (verdict_create h st cf r si sc fp fn ln vv cc bp rc src pp er cd mc) = rc"
  "sv_evidence_fingerprint (verdict_create h st cf r si sc fp fn ln vv cc bp rc src pp er cd mc) =
     compute_evidence_fingerprint h r sc fp fn ln vv cc bp src pp rc er"
  by (simp_all add: verdict_create_def Let_def)

lemma evaluate_verdict_status:
  "sv_status (evaluate_verdict h bundle ctx) = fst (decide bundle (matrix_eval_of bundle))"
  by (simp add: evaluate_verdict_def Let_def split_beta)

lemma evaluate_verdict_reasons:
  "set (snd (snd (decide bundle (matrix_eval_of bundle))))
     \<subseteq> set (sv_reason_codes (evaluate_verdict h bundle ctx))"
  "distinct (sv_reason_codes (evaluate_verdict h bundle ctx))"
  by (simp_all add: evaluate_verdict_def Let_def split_beta distinct_dedup_onto)

lemma decide_safe_iff:
  "fst (decide bundle eval) = SAFE \<longleftrightarrow>
     eb_proof_status bundle = PROVEN \<and> map_option er_decision eval = Some COMPATIBLE"
  by (auto simp: decide_def)

lemma decide_status_cases:
  "fst (decide bundle eval) \<in> {SAFE, VULNERABLE, VERDICT_UNKNOWN}"
  by (auto simp: decide_def)

lemma safe_reasons_justified:
  "SINK_COMPATIBILITY_PROVEN \<in> set (safe_reasons evs) \<and>
   set (safe_reasons evs) \<inter>
     {GUARD_PROVEN, SANITIZER_COMPATIBLE, TRANSFORMATION_PROVEN, PATH_CONSTRAINT_PROVEN} \<noteq> {}"
  by (auto simp: safe_reasons_def Let_def)

lemma sort_mset_eq: "mset xs = mset ys \<Longrightarrow> sort xs = sort (ys :: 'a :: linorder list)"
  by (metis mset_sort properties_for_sort sorted_sort)

section \<open>Properties\<close>

text \<open>
  The engine answers \<^const>\<open>SAFE\<close> exactly when the bundle's proof is \<^const>\<open>PROVEN\<close> and
  the matrix (pre-evaluated or computed from the bundle) found the sink compatible; no
  uncertain, non-converged or unevaluated bundle is ever safe.
\<close>

theorem safe_verdict_iff:
  "sv_status (evaluate_verdict sha256 eb ctx) = SAFE \<longleftrightarrow>
     eb_proof_status eb = PROVEN \<and>
     map_option er_decision (matrix_eval_of eb) = Some COMPATIBLE"
  by (simp add: evaluate_verdict_status decide_safe_iff)

text \<open>
  A \<^const>\<open>SAFE\<close> verdict on a bundle without a pre-computed evaluation names a sink
  category, some aggregated constraint protects that category in the bundle's context, and
  the verdict's reason codes record the compatibility.
\<close>

theorem safe_verdict_protected:
  assumes "sv_status (evaluate_verdict sha256 eb ctx) = SAFE" "eb_evaluation_result eb = None"
  shows "eb_sink_category eb \<noteq> [] \<and>
    (\<exists>c \<in> eb_aggregated_constraints eb.
       protects c (norm_category (eb_sink_category eb)) (eb_sink_context eb)) \<and>
    SINK_COMPATIBILITY_PROVEN \<in> set (sv_reason_codes (evaluate_verdict sha256 eb ctx))"
proof -
  from assms have s: "eb_proof_status eb = PROVEN"
    "map_option er_decision (matrix_eval_of eb) = Some COMPATIBLE"
    by (simp_all add: evaluate_verdict_status decide_safe_iff)
  with assms(2) have m: "eb_sink_category eb \<noteq> []"
    "er_decision (matrix_evaluate (eb_aggregated_constraints eb) (eb_sink_category eb)
       (eb_sink_context eb)) = COMPATIBLE"
    by (auto simp: matrix_eval_of_def split: if_splits)
  have "snd (snd (decide eb (matrix_eval_of eb))) = safe_reasons (eb_evidences eb)"
    using s by (simp add: decide_def)
  with evaluate_verdict_reasons(1) [of eb sha256 ctx] safe_reasons_justified [of "eb_evidences eb"]
  have "SINK_COMPATIBILITY_PROVEN \<in> set (sv_reason_codes (evaluate_verdict sha256 eb ctx))" by auto
  with m matrix_sound [OF m(2)] show ?thesis by auto
qed

definition demo_bundle :: evidence_bundle where
  "demo_bundle = \<lparr> eb_sink_node_id = ''n9'', eb_sink_category = ''command'',
     eb_sink_context = SHELL_ARGUMENT, eb_evidences = [],
     eb_aggregated_constraints = {SHELL_ESCAPED}, eb_proof_status = PROVEN,
     eb_evaluation_result = None \<rparr>"

definition demo_context :: decision_context where
  "demo_context = \<lparr> dc_rule_id = ''R7'', dc_file_path = ''a.php'', dc_function_name = ''run'',
     dc_line_number = 12, dc_variable_version = ''$cmd#2'', dc_call_context = None,
     dc_branch_polarity = [] \<rparr>"

theorem safe_verdict_protected_witness:
  "eb_sink_category demo_bundle \<noteq> [] \<and>
    (\<exists>c \<in> eb_aggregated_constraints demo_bundle.
       protects c (norm_category (eb_sink_category demo_bundle)) (eb_sink_context demo_bundle)) \<and>
    SINK_COMPATIBILITY_PROVEN
      \<in> set (sv_reason_codes (evaluate_verdict (\<lambda>s. s) demo_bundle demo_context))"
proof (rule safe_verdict_protected)
  show "sv_status (evaluate_verdict (\<lambda>s. s) demo_bundle demo_context) = SAFE"
    unfolding evaluate_verdict_status by code_simp
  show "eb_evaluation_result demo_bundle = None" by (simp add: demo_bundle_def)
qed

text \<open>
  The evidence fingerprint does not depend on the order in which sources, reason
  codes and evidence items were collected.
\<close>

theorem fingerprint_order_independent:
  assumes "mset src = mset src'" "mset evs = mset evs'" "mset rcs = mset rcs'"
  shows "compute_evidence_fingerprint sha256 rule cat file func line var call pol src path rcs evs =
    compute_evidence_fingerprint sha256 rule cat file func line var call pol src' path rcs' evs'"
proof -
  have "sort src = sort src'" "sort (map reason_value rcs) = sort (map reason_value rcs')"
    "sort (map er_evidence_id evs) = sort (map er_evidence_id evs')"
    using assms by (auto intro!: sort_mset_eq)
  then show ?thesis by (simp add: compute_evidence_fingerprint_def evidence_components_def)
qed

theorem fingerprint_order_independent_witness:
  "compute_evidence_fingerprint (\<lambda>s. s) ''R1'' ''SQL'' ''a.php'' ''f'' 3 ''$x#1'' None [] [''$b'', ''$a''] [] [] [] =
   compute_evidence_fingerprint (\<lambda>s. s) ''R1'' ''SQL'' ''a.php'' ''f'' 3 ''$x#1'' None [] [''$a'', ''$b''] [] [] []"
  by (rule fingerprint_order_independent) simp_all

end
