(* ===== verification/TransitionMatrix.thy ===== *)
theory TransitionMatrix
  imports Prelude
begin

text \<open>
  The interface of a state machine given by a transition matrix, shared by the AI request
  state machine and the remediation lifecycle: terminal states have no successor and no state
  is its own successor. A machine whose matrix has no cycle also comes with a rank that every
  transition lowers, which bounds every run.
\<close>

text \<open>A run: each state is an allowed successor of the one before.\<close>

fun chain_from :: "('s \<Rightarrow> 's \<Rightarrow> bool) \<Rightarrow> 's \<Rightarrow> 's list \<Rightarrow> bool" where
  "chain_from allowed s [] = True"
| "chain_from allowed s (t # ts) = (allowed s t \<and> chain_from allowed t ts)"

lemma chain_from_append:
  "chain_from allowed s (ts @ us) \<longleftrightarrow>
     chain_from allowed s ts \<and> chain_from allowed (last (s # ts)) us"
  by (induction ts arbitrary: s) auto

locale transition_matrix =
  fixes allowed :: "'s \<Rightarrow> 's \<Rightarrow> bool"
    and terminal :: "'s \<Rightarrow> bool"
  assumes terminal_stuck: "terminal s \<Longrightarrow> \<not> allowed s t"
    and no_self: "\<not> allowed s s"
begin

lemma chain_terminal: "chain_from allowed s ts \<Longrightarrow> terminal s \<Longrightarrow> ts = []"
  by (cases ts) (auto simp: terminal_stuck)

lemma chain_terminal_last:
  assumes "chain_from allowed s ts" "ts = us @ t # vs" "terminal t"
  shows "vs = []"
proof -
  have "chain_from allowed t vs" using assms(1,2) by (simp add: chain_from_append)
  then show ?thesis using assms(3) by (rule chain_terminal)
qed

lemma chain_changes: "chain_from allowed s (t # ts) \<Longrightarrow> t \<noteq> s"
  using no_self by auto

end

locale ranked_matrix = transition_matrix +
  fixes rank :: "'a \<Rightarrow> nat"
  assumes allowed_rank: "allowed s t \<Longrightarrow> rank t < rank s"
begin

lemma chain_length: "chain_from allowed s ts \<Longrightarrow> length ts \<le> rank s"
proof (induction ts arbitrary: s)
  case (Cons t ts)
  then have "length ts \<le> rank t" "rank t < rank s" using allowed_rank by auto
  then show ?case by simp
qed simp

lemma chain_rank: "chain_from allowed s ts \<Longrightarrow> t \<in> set ts \<Longrightarrow> rank t < rank s"
proof (induction ts arbitrary: s)
  case (Cons u ts)
  then show ?case using allowed_rank by (fastforce dest: less_trans)
qed simp

lemma chain_distinct: "chain_from allowed s ts \<Longrightarrow> distinct (s # ts)"
proof (induction ts arbitrary: s)
  case (Cons t ts)
  then have "distinct (t # ts)" by (simp only: chain_from.simps)
  moreover have "s \<notin> set (t # ts)" using chain_rank [OF Cons.prems] by blast
  ultimately show ?case by simp
qed simp

end

end
