(* ===== verification/AiStore.thy ===== *)
theory AiStore
  imports Prelude
begin

text \<open>
  The tables of \<^verbatim>\<open>karsasec/persistence/models.py\<close> that the AI gateway works on, and the
  conditional UPDATE its services are built from: a row addressed by its key is rewritten
  when it satisfies the WHERE clause, and the statement reports the number of rows it
  changed. The database itself is the dictionary of rows a session sees; timestamps are
  left out, identifiers are strings, counters unbounded integers.
\<close>

datatype ai_error =
    BudgetAccountingError
  | TokenBudgetExceededError
  | AIRequestNotFoundError
  | AIRequestIdempotencyConflictError
  | AIRequestStateConflictError
  | InvalidAIRequestStateTransitionError
  | NoEligibleProviderError
  | InvalidAttemptError
  | PricingError
  | ProviderRegistryConflictError
  | CircuitStateConflictError
  | IntegrityError
  | ExecutorError
  | ValueError

record budget_row =
  bg_tenant_id :: string
  bg_token_limit :: int
  bg_used_tokens :: int
  bg_reserved_tokens :: int
  bg_cost_limit_micro_units :: int
  bg_used_cost_micro_units :: int

record request_row =
  rq_task_id :: string
  rq_budget_id :: string
  rq_prompt_hash :: string
  rq_context_hash :: string
  rq_status :: string
  rq_reserved_tokens :: int
  rq_committed_tokens :: int
  rq_actual_cost_micro_units :: int
  rq_selected_provider_id :: "string option"
  rq_selected_model_id :: "string option"

record attempt_row =
  at_provider_id :: string
  at_model_id :: string
  at_status :: string
  at_error_class :: "string option"
  at_input_tokens :: int
  at_output_tokens :: int

text \<open>The CHECK constraints of the budget table.\<close>

definition budget_row_ok :: "budget_row \<Rightarrow> bool" where
  [inv_simps]: "budget_row_ok b \<longleftrightarrow>
     0 \<le> bg_token_limit b \<and> 0 \<le> bg_used_tokens b \<and> 0 \<le> bg_reserved_tokens b \<and>
     0 \<le> bg_cost_limit_micro_units b \<and> 0 \<le> bg_used_cost_micro_units b"

text \<open>The CHECK constraints of the request table on its counters.\<close>

definition request_row_ok :: "request_row \<Rightarrow> bool" where
  [inv_simps]: "request_row_ok r \<longleftrightarrow>
     0 \<le> rq_reserved_tokens r \<and> 0 \<le> rq_committed_tokens r \<and> 0 \<le> rq_actual_cost_micro_units r"

record ai_db =
  db_budgets :: "(string, budget_row) dict"
  db_requests :: "(string, request_row) dict"
  db_attempts :: "(string \<times> int, attempt_row) dict"

section \<open>Conditional updates\<close>

definition update_row ::
  "('k, 'r) dict \<Rightarrow> 'k \<Rightarrow> ('r \<Rightarrow> bool) \<Rightarrow> ('r \<Rightarrow> 'r) \<Rightarrow> ('k, 'r) dict \<times> nat" where
  "update_row t k P f =
     (case dget t k of
        None \<Rightarrow> (t, 0)
      | Some r \<Rightarrow> if P r then (dset t k (f r), 1) else (t, 0))"

text \<open>
  What a client of a table with conditional updates may rely on. A table is seen through
  \<open>lookup\<close>; the update changes the addressed row when it exists and satisfies the guard,
  and nothing else ever.
\<close>

locale cas_table =
  fixes lookup :: "'t \<Rightarrow> 'k \<Rightarrow> 'r option"
    and cas :: "'t \<Rightarrow> 'k \<Rightarrow> ('r \<Rightarrow> bool) \<Rightarrow> ('r \<Rightarrow> 'r) \<Rightarrow> 't \<times> nat"
  assumes cas_hit: "lookup t k = Some r \<Longrightarrow> P r \<Longrightarrow>
      lookup (fst (cas t k P f)) = (lookup t)(k \<mapsto> f r) \<and> snd (cas t k P f) = 1"
    and cas_guard: "lookup t k = Some r \<Longrightarrow> \<not> P r \<Longrightarrow> cas t k P f = (t, 0)"
    and cas_absent: "lookup t k = None \<Longrightarrow> cas t k P f = (t, 0)"
begin

lemma cas_outcome:
  obtains (hit) r where "lookup t k = Some r" "P r"
      "lookup (fst (cas t k P f)) = (lookup t)(k \<mapsto> f r)" "snd (cas t k P f) = 1"
    | (miss) "\<And>r. lookup t k = Some r \<Longrightarrow> \<not> P r" "cas t k P f = (t, 0)"
proof (cases "lookup t k")
  case None
  then show ?thesis using miss cas_absent by simp
next
  case (Some r)
  then show ?thesis using hit miss cas_hit cas_guard by (cases "P r") simp_all
qed

lemma cas_count: "snd (cas t k P f) = 1 \<longleftrightarrow> (\<exists>r. lookup t k = Some r \<and> P r)"
  by (rule cas_outcome [of t k P f]) auto

lemma cas_count_le: "snd (cas t k P f) \<le> 1"
  by (rule cas_outcome [of t k P f]) auto

text \<open>A property of rows that the guarded rewriting keeps holds of every row afterwards.\<close>

lemma cas_row_inv:
  assumes "\<And>j r. lookup t j = Some r \<Longrightarrow> I r"
    and "\<And>r. I r \<Longrightarrow> P r \<Longrightarrow> I (f r)"
    and "lookup (fst (cas t k P f)) j = Some r"
  shows "I r"
proof (cases "\<exists>q. lookup t k = Some q \<and> P q")
  case True
  then obtain q where q: "lookup t k = Some q" "P q" by blast
  with assms(3) cas_hit [of t k q P f] have "(j = k \<and> r = f q) \<or> lookup t j = Some r"
    by (auto split: if_splits)
  with assms(1,2) q show ?thesis by blast
next
  case False
  then have "fst (cas t k P f) = t" using cas_guard cas_absent by (metis fst_conv option.exhaust)
  with assms(1,3) show ?thesis by simp
qed

lemma cas_frame: "j \<noteq> k \<Longrightarrow> lookup (fst (cas t k P f)) j = lookup t j"
  by (rule cas_outcome [of t k P f]) auto

end

interpretation rows: cas_table dget update_row
  by unfold_locales (auto simp: update_row_def)

lemma update_row_cases:
  obtains (hit) r where "dget t k = Some r" "P r" "update_row t k P f = (dset t k (f r), 1)"
  | (miss) "\<And>r. dget t k = Some r \<Longrightarrow> \<not> P r" "update_row t k P f = (t, 0)"
  by (cases "dget t k") (auto simp: update_row_def split: if_splits)

end
