(* ===== verification/AiRequestState.thy ===== *)
theory AiRequestState
  imports TransitionMatrix AiStore
begin

text \<open>
  The request state machine of \<^verbatim>\<open>karsasec/ai/state_machine.py\<close>. Statuses are the strings the
  database stores, so an unknown status is representable and rejected as the code rejects it.
\<close>

abbreviation STATE_CREATED :: string where "STATE_CREATED \<equiv> ''CREATED''"
abbreviation STATE_RESERVED :: string where "STATE_RESERVED \<equiv> ''RESERVED''"
abbreviation STATE_ROUTED :: string where "STATE_ROUTED \<equiv> ''ROUTED''"
abbreviation STATE_IN_FLIGHT :: string where "STATE_IN_FLIGHT \<equiv> ''IN_FLIGHT''"
abbreviation STATE_PROVIDER_FAILED :: string where "STATE_PROVIDER_FAILED \<equiv> ''PROVIDER_FAILED''"
abbreviation STATE_COMPLETED :: string where "STATE_COMPLETED \<equiv> ''COMPLETED''"
abbreviation STATE_FAILED :: string where "STATE_FAILED \<equiv> ''FAILED''"
abbreviation STATE_CANCELLED :: string where "STATE_CANCELLED \<equiv> ''CANCELLED''"

definition all_states :: "string list" where
  "all_states =
     [ STATE_CREATED, STATE_RESERVED, STATE_ROUTED, STATE_IN_FLIGHT, STATE_PROVIDER_FAILED,
       STATE_COMPLETED, STATE_FAILED, STATE_CANCELLED ]"

definition terminal_states :: "string list" where
  "terminal_states = [ STATE_COMPLETED, STATE_FAILED, STATE_CANCELLED ]"

definition allowed_transitions :: "(string, string list) dict" where
  "allowed_transitions =
     [ (STATE_CREATED, [STATE_RESERVED, STATE_CANCELLED, STATE_FAILED]),
       (STATE_RESERVED, [STATE_ROUTED, STATE_CANCELLED, STATE_FAILED]),
       (STATE_ROUTED, [STATE_IN_FLIGHT, STATE_PROVIDER_FAILED, STATE_FAILED, STATE_CANCELLED]),
       (STATE_IN_FLIGHT, [STATE_COMPLETED, STATE_PROVIDER_FAILED, STATE_FAILED, STATE_CANCELLED]),
       (STATE_PROVIDER_FAILED, [STATE_ROUTED, STATE_FAILED, STATE_CANCELLED]),
       (STATE_COMPLETED, []),
       (STATE_FAILED, []),
       (STATE_CANCELLED, []) ]"

definition is_terminal_state :: "string \<Rightarrow> bool" where
  "is_terminal_state s = (s \<in> set terminal_states)"

definition validate_state_transition :: "string \<Rightarrow> string \<Rightarrow> ai_error + unit" where
  "validate_state_transition current new =
     (if current \<notin> set all_states then Inl InvalidAIRequestStateTransitionError
      else if new \<notin> set all_states then Inl InvalidAIRequestStateTransitionError
      else if current = new then Inl InvalidAIRequestStateTransitionError
      else if new \<notin> set (dget_default allowed_transitions current [])
      then Inl InvalidAIRequestStateTransitionError
      else Inr ())"

definition may_transition :: "string \<Rightarrow> string \<Rightarrow> bool" where
  "may_transition s t = returns (validate_state_transition s t)"

section \<open>The matrix\<close>

lemma all_states_def': "set all_states = set (map fst allowed_transitions)"
  by (simp add: all_states_def allowed_transitions_def)

lemma validate_cases:
  "validate_state_transition s t = Inr () \<or>
   validate_state_transition s t = Inl InvalidAIRequestStateTransitionError"
  by (simp add: validate_state_transition_def)

lemma validate_Inr_iff [simp]: "validate_state_transition s t = Inr u \<longleftrightarrow> may_transition s t"
  using validate_cases [of s t] by (auto simp: may_transition_def)

lemma targets_ok:
  "\<forall>s\<in>set all_states. \<forall>t\<in>set (dget_default allowed_transitions s []). t \<in> set all_states \<and> s \<noteq> t"
  by code_simp

lemma may_transition_targets:
  "may_transition s t \<longleftrightarrow> s \<in> set all_states \<and> t \<in> set (dget_default allowed_transitions s [])"
  using targets_ok unfolding may_transition_def validate_state_transition_def by (auto split: if_splits)

lemma targets:
  "dget_default allowed_transitions STATE_CREATED [] = [STATE_RESERVED, STATE_CANCELLED, STATE_FAILED]"
  "dget_default allowed_transitions STATE_RESERVED [] = [STATE_ROUTED, STATE_CANCELLED, STATE_FAILED]"
  "dget_default allowed_transitions STATE_ROUTED [] =
     [STATE_IN_FLIGHT, STATE_PROVIDER_FAILED, STATE_FAILED, STATE_CANCELLED]"
  "dget_default allowed_transitions STATE_IN_FLIGHT [] =
     [STATE_COMPLETED, STATE_PROVIDER_FAILED, STATE_FAILED, STATE_CANCELLED]"
  "dget_default allowed_transitions STATE_PROVIDER_FAILED [] =
     [STATE_ROUTED, STATE_FAILED, STATE_CANCELLED]"
  "dget_default allowed_transitions STATE_COMPLETED [] = []"
  "dget_default allowed_transitions STATE_FAILED [] = []"
  "dget_default allowed_transitions STATE_CANCELLED [] = []"
  by (simp_all add: allowed_transitions_def dget_default_def)

text \<open>
  The entries of the matrix the services depend on: reservations start from CREATED only and
  completion from IN_FLIGHT only.
\<close>

lemma may_transition_known: "may_transition s t \<Longrightarrow> s \<in> set all_states \<and> t \<in> set all_states"
  using targets_ok by (auto simp: may_transition_targets)

lemma to_reserved: "may_transition s STATE_RESERVED \<Longrightarrow> s = STATE_CREATED"
proof -
  have "\<forall>s\<in>set all_states. may_transition s STATE_RESERVED \<longrightarrow> s = STATE_CREATED" by code_simp
  then show "may_transition s STATE_RESERVED \<Longrightarrow> s = STATE_CREATED"
    using may_transition_known by blast
qed

lemma to_completed: "may_transition s STATE_COMPLETED \<Longrightarrow> s = STATE_IN_FLIGHT"
proof -
  have "\<forall>s\<in>set all_states. may_transition s STATE_COMPLETED \<longrightarrow> s = STATE_IN_FLIGHT" by code_simp
  then show "may_transition s STATE_COMPLETED \<Longrightarrow> s = STATE_IN_FLIGHT"
    using may_transition_known by blast
qed

lemma is_terminal_iff:
  "is_terminal_state s \<longleftrightarrow> s \<in> {STATE_COMPLETED, STATE_FAILED, STATE_CANCELLED}"
  by (simp add: is_terminal_state_def terminal_states_def)

lemma terminal_no_targets: "is_terminal_state s \<Longrightarrow> \<not> may_transition s t"
  unfolding is_terminal_iff may_transition_targets by (auto simp only: targets insert_iff empty_iff list.set)

interpretation request_sm: transition_matrix may_transition is_terminal_state
  using terminal_no_targets targets_ok by unfold_locales (auto simp: may_transition_targets)

lemma request_progress:
  assumes "s \<in> set all_states" "\<not> is_terminal_state s"
  shows "may_transition s STATE_FAILED"
proof -
  have "\<forall>s\<in>set all_states. is_terminal_state s \<or> may_transition s STATE_FAILED" by code_simp
  with assms show ?thesis by blast
qed

end
