(* ===== verification/AiBudget.thy ===== *)
theory AiBudget
  imports AiStore
begin

text \<open>
  Token and cost fencing of \<^verbatim>\<open>karsasec/ai/budget.py\<close>: each operation is one conditional
  UPDATE of the budget row, and when it changes no row the cause is looked up and raised.
\<close>

definition reserve_tokens :: "ai_db \<Rightarrow> string \<Rightarrow> int \<Rightarrow> ai_error + ai_db" where
  "reserve_tokens db budget_id request_tokens =
     (if request_tokens \<le> 0 then Inl BudgetAccountingError
      else
        let (t, rowcount) = update_row (db_budgets db) budget_id
              (\<lambda>b. bg_used_tokens b + bg_reserved_tokens b + request_tokens \<le> bg_token_limit b)
              (\<lambda>b. b\<lparr> bg_reserved_tokens := bg_reserved_tokens b + request_tokens \<rparr>)
        in if rowcount = 1 then Inr (db\<lparr> db_budgets := t \<rparr>)
           else case dget (db_budgets db) budget_id of
                  None \<Rightarrow> Inl BudgetAccountingError
                | Some _ \<Rightarrow> Inl TokenBudgetExceededError)"

definition commit_tokens :: "ai_db \<Rightarrow> string \<Rightarrow> int \<Rightarrow> int \<Rightarrow> int \<Rightarrow> ai_error + ai_db" where
  "commit_tokens db budget_id reserved actual actual_cost =
     (if reserved < 0 \<or> actual < 0 \<or> actual_cost < 0 then Inl BudgetAccountingError
      else
        let (t, rowcount) = update_row (db_budgets db) budget_id
              (\<lambda>b. reserved \<le> bg_reserved_tokens b \<and>
                   bg_used_cost_micro_units b + actual_cost \<le> bg_cost_limit_micro_units b)
              (\<lambda>b. b\<lparr> bg_reserved_tokens := bg_reserved_tokens b - reserved,
                      bg_used_tokens := bg_used_tokens b + actual,
                      bg_used_cost_micro_units := bg_used_cost_micro_units b + actual_cost \<rparr>)
        in if rowcount = 1 then Inr (db\<lparr> db_budgets := t \<rparr>)
           else case dget (db_budgets db) budget_id of
                  None \<Rightarrow> Inl BudgetAccountingError
                | Some b \<Rightarrow> if bg_reserved_tokens b < reserved then Inl BudgetAccountingError
                           else Inl TokenBudgetExceededError)"

definition release_tokens :: "ai_db \<Rightarrow> string \<Rightarrow> int \<Rightarrow> ai_error + ai_db" where
  "release_tokens db budget_id tokens =
     (if tokens < 0 then Inl BudgetAccountingError
      else if tokens = 0 then Inr db
      else
        let (t, rowcount) = update_row (db_budgets db) budget_id
              (\<lambda>b. tokens \<le> bg_reserved_tokens b)
              (\<lambda>b. b\<lparr> bg_reserved_tokens := bg_reserved_tokens b - tokens \<rparr>)
        in if rowcount = 1 then Inr (db\<lparr> db_budgets := t \<rparr>)
           else case dget (db_budgets db) budget_id of
                  None \<Rightarrow> Inl BudgetAccountingError
                | Some _ \<Rightarrow> Inl BudgetAccountingError)"

section \<open>Outcomes\<close>

text \<open>Each operation in one equivalence: when it returns, and the row it leaves.\<close>

lemma reserve_tokens_Inr_iff:
  "reserve_tokens db k n = Inr db' \<longleftrightarrow>
     (\<exists>b. 0 < n \<and> dget (db_budgets db) k = Some b \<and>
        bg_used_tokens b + bg_reserved_tokens b + n \<le> bg_token_limit b \<and>
        db' = db\<lparr> db_budgets := dset (db_budgets db) k
                   (b\<lparr> bg_reserved_tokens := bg_reserved_tokens b + n \<rparr>) \<rparr>)"
  by (auto simp: reserve_tokens_def update_row_def split: option.splits)

lemma commit_tokens_Inr_iff:
  "commit_tokens db k reserved actual cost = Inr db' \<longleftrightarrow>
     (\<exists>b. 0 \<le> reserved \<and> 0 \<le> actual \<and> 0 \<le> cost \<and> dget (db_budgets db) k = Some b \<and>
        reserved \<le> bg_reserved_tokens b \<and>
        bg_used_cost_micro_units b + cost \<le> bg_cost_limit_micro_units b \<and>
        db' = db\<lparr> db_budgets := dset (db_budgets db) k
                   (b\<lparr> bg_reserved_tokens := bg_reserved_tokens b - reserved,
                       bg_used_tokens := bg_used_tokens b + actual,
                       bg_used_cost_micro_units := bg_used_cost_micro_units b + cost \<rparr>) \<rparr>)"
  by (auto simp: commit_tokens_def update_row_def split: option.splits)

lemma release_tokens_Inr_iff:
  "release_tokens db k n = Inr db' \<longleftrightarrow>
     n = 0 \<and> db' = db \<or>
     (\<exists>b. 0 < n \<and> dget (db_budgets db) k = Some b \<and> n \<le> bg_reserved_tokens b \<and>
        db' = db\<lparr> db_budgets := dset (db_budgets db) k
                   (b\<lparr> bg_reserved_tokens := bg_reserved_tokens b - n \<rparr>) \<rparr>)"
  by (auto simp: release_tokens_def update_row_def split: option.splits)

section \<open>The fence\<close>

text \<open>Within limits: what is used and what is reserved never exceed the limits together.\<close>

definition within_limits :: "budget_row \<Rightarrow> bool" where
  [inv_simps]: "within_limits b \<longleftrightarrow>
     bg_used_tokens b + bg_reserved_tokens b \<le> bg_token_limit b \<and>
     bg_used_cost_micro_units b \<le> bg_cost_limit_micro_units b"

definition budgets_ok :: "ai_db \<Rightarrow> bool" where
  [inv_simps]: "budgets_ok db \<longleftrightarrow>
     (\<forall>k b. dget (db_budgets db) k = Some b \<longrightarrow> budget_row_ok b \<and> within_limits b)"

lemma budgets_ok_dset:
  "budgets_ok db \<Longrightarrow> budget_row_ok b \<and> within_limits b \<Longrightarrow>
     budgets_ok (db\<lparr> db_budgets := dset (db_budgets db) k b \<rparr>)"
  by (auto simp: budgets_ok_def)

lemma reserve_tokens_ok:
  assumes "budgets_ok db" "reserve_tokens db k n = Inr db'"
  shows "budgets_ok db'"
proof -
  obtain b where b: "0 < n" "dget (db_budgets db) k = Some b"
    "bg_used_tokens b + bg_reserved_tokens b + n \<le> bg_token_limit b"
    "db' = db\<lparr> db_budgets := dset (db_budgets db) k
       (b\<lparr> bg_reserved_tokens := bg_reserved_tokens b + n \<rparr>) \<rparr>"
    using assms(2) unfolding reserve_tokens_Inr_iff by blast
  from assms(1) b(2) have "budget_row_ok b" "within_limits b" by (auto simp: budgets_ok_def)
  with assms(1) b show ?thesis
    by (auto intro!: budgets_ok_dset simp: budget_row_ok_def within_limits_def)
qed

lemma commit_tokens_ok:
  assumes "budgets_ok db" "commit_tokens db k reserved actual cost = Inr db'" "actual \<le> reserved"
  shows "budgets_ok db'"
proof -
  obtain b where b: "0 \<le> reserved" "0 \<le> actual" "0 \<le> cost" "dget (db_budgets db) k = Some b"
    "reserved \<le> bg_reserved_tokens b"
    "bg_used_cost_micro_units b + cost \<le> bg_cost_limit_micro_units b"
    "db' = db\<lparr> db_budgets := dset (db_budgets db) k
       (b\<lparr> bg_reserved_tokens := bg_reserved_tokens b - reserved,
           bg_used_tokens := bg_used_tokens b + actual,
           bg_used_cost_micro_units := bg_used_cost_micro_units b + cost \<rparr>) \<rparr>"
    using assms(2) unfolding commit_tokens_Inr_iff by blast
  from assms(1) b(4) have "budget_row_ok b" "within_limits b" by (auto simp: budgets_ok_def)
  with assms(1,3) b show ?thesis
    by (auto intro!: budgets_ok_dset simp: budget_row_ok_def within_limits_def)
qed

lemma release_tokens_ok:
  assumes "budgets_ok db" "release_tokens db k n = Inr db'"
  shows "budgets_ok db'"
  using assms(2) unfolding release_tokens_Inr_iff
proof
  assume "n = 0 \<and> db' = db"
  with assms(1) show ?thesis by simp
next
  assume "\<exists>b. 0 < n \<and> dget (db_budgets db) k = Some b \<and> n \<le> bg_reserved_tokens b \<and>
    db' = db\<lparr> db_budgets := dset (db_budgets db) k
      (b\<lparr> bg_reserved_tokens := bg_reserved_tokens b - n \<rparr>) \<rparr>"
  then obtain b where b: "0 < n" "dget (db_budgets db) k = Some b" "n \<le> bg_reserved_tokens b"
    "db' = db\<lparr> db_budgets := dset (db_budgets db) k
      (b\<lparr> bg_reserved_tokens := bg_reserved_tokens b - n \<rparr>) \<rparr>" by blast
  from assms(1) b(2) have "budget_row_ok b" "within_limits b" by (auto simp: budgets_ok_def)
  with assms(1) b show ?thesis
    by (auto intro!: budgets_ok_dset simp: budget_row_ok_def within_limits_def)
qed

section \<open>Properties\<close>

text \<open>
  The calls the services make on a budget. A commit is \<open>frugal\<close> when it uses no more than
  was reserved; \<open>budget_step True\<close> allows frugal commits only.
\<close>

inductive budget_step :: "bool \<Rightarrow> ai_db \<Rightarrow> ai_db \<Rightarrow> bool" where
  reserve: "reserve_tokens db k n = Inr db' \<Longrightarrow> budget_step frugal db db'"
| commit: "commit_tokens db k reserved actual cost = Inr db' \<Longrightarrow> frugal \<longrightarrow> actual \<le> reserved \<Longrightarrow>
     budget_step frugal db db'"
| release: "release_tokens db k n = Inr db' \<Longrightarrow> budget_step frugal db db'"

lemma budget_step_fence: "budget_step True db db' \<Longrightarrow> budgets_ok db \<Longrightarrow> budgets_ok db'"
  by (induction True db db' rule: budget_step.induct)
    (auto intro: reserve_tokens_ok commit_tokens_ok release_tokens_ok)

text \<open>
  Through any sequence of reservations, commits that use at most what they reserved, and
  releases, on any budgets and in any order, every budget stays within its limits: used plus
  reserved tokens never exceed the token limit, the cost never exceeds the cost limit, and no
  counter is negative.
\<close>

theorem budget_fence_kept:
  assumes "(budget_step True)\<^sup>*\<^sup>* db db'" "budgets_ok db"
  shows "budgets_ok db'"
  using assms by (induction rule: rtranclp_induct) (auto intro: budget_step_fence)

definition demo_budget :: budget_row where
  "demo_budget = \<lparr> bg_tenant_id = ''t'', bg_token_limit = 100, bg_used_tokens = 20,
     bg_reserved_tokens = 30, bg_cost_limit_micro_units = 1000, bg_used_cost_micro_units = 5 \<rparr>"

definition demo_db :: "budget_row \<Rightarrow> ai_db" where
  "demo_db b = \<lparr> db_budgets = [(''b1'', b)], db_requests = [], db_attempts = [] \<rparr>"

lemma demo_db_ok: "budgets_ok (demo_db demo_budget)"
  by (auto simp: budgets_ok_def budget_row_ok_def within_limits_def demo_db_def demo_budget_def)

theorem budget_fence_kept_witness:
  "budgets_ok (demo_db (demo_budget\<lparr> bg_reserved_tokens := 10, bg_used_tokens := 70,
     bg_used_cost_micro_units := 25, bg_reserved_tokens := 5 \<rparr>))"
proof (rule budget_fence_kept)
  let ?b1 = "demo_budget\<lparr> bg_reserved_tokens := 80 \<rparr>"
  let ?b2 = "demo_budget\<lparr> bg_reserved_tokens := 10, bg_used_tokens := 70,
     bg_used_cost_micro_units := 25 \<rparr>"
  let ?b3 = "?b2\<lparr> bg_reserved_tokens := 5 \<rparr>"
  have "reserve_tokens (demo_db demo_budget) ''b1'' 50 = Inr (demo_db ?b1)" by code_simp
  moreover have "commit_tokens (demo_db ?b1) ''b1'' 70 50 20 = Inr (demo_db ?b2)" by code_simp
  moreover have "release_tokens (demo_db ?b2) ''b1'' 5 = Inr (demo_db ?b3)" by code_simp
  ultimately have "budget_step True (demo_db demo_budget) (demo_db ?b1)"
    "budget_step True (demo_db ?b1) (demo_db ?b2)" "budget_step True (demo_db ?b2) (demo_db ?b3)"
    by (auto intro: budget_step.intros)
  then show "(budget_step True)\<^sup>*\<^sup>* (demo_db demo_budget) (demo_db ?b3)"
    by (rule converse_rtranclp_into_rtranclp [OF _ converse_rtranclp_into_rtranclp, OF _ _ r_into_rtranclp])
qed (rule demo_db_ok)

text \<open>
  The commit guard checks the cost but not the tokens: a commit that
  uses more than it reserved, by more than the room the budget has left, is accepted and leaves
  the budget over its token limit.
\<close>

theorem commit_overrun_breaks_fence:
  assumes "dget (db_budgets db) k = Some b" "0 \<le> reserved" "reserved \<le> bg_reserved_tokens b"
    "0 \<le> cost" "bg_used_cost_micro_units b + cost \<le> bg_cost_limit_micro_units b" "0 \<le> actual"
    "bg_token_limit b < bg_used_tokens b + bg_reserved_tokens b + (actual - reserved)"
  shows "\<exists>db'. commit_tokens db k reserved actual cost = Inr db' \<and> \<not> budgets_ok db'"
  using assms
  by (intro exI [of _ "db\<lparr> db_budgets := dset (db_budgets db) k
       (b\<lparr> bg_reserved_tokens := bg_reserved_tokens b - reserved,
           bg_used_tokens := bg_used_tokens b + actual,
           bg_used_cost_micro_units := bg_used_cost_micro_units b + cost \<rparr>) \<rparr>"])
    (auto simp: commit_tokens_Inr_iff budgets_ok_def within_limits_def intro!: exI [of _ k])

theorem commit_overrun_breaks_fence_witness:
  "\<exists>db'. commit_tokens (demo_db demo_budget) ''b1'' 30 90 10 = Inr db' \<and> \<not> budgets_ok db'"
  by (rule commit_overrun_breaks_fence [where b = demo_budget])
    (simp_all add: demo_db_def demo_budget_def)

end
