(* ===== verification/AiRequest.thy ===== *)
theory AiRequest
  imports AiRequestState AiBudget
begin

text \<open>
  The request service of \<^verbatim>\<open>karsasec/ai/request.py\<close>: creation with its idempotency check,
  reservation, status transitions, commit and release. Every operation works inside the
  caller's transaction, so it takes and returns the tables as the session sees them; a raised
  error leaves what to keep to the caller. The row an operation returns is the one stored
  under the request id in the tables it returns.
\<close>

definition get_request :: "ai_db \<Rightarrow> string \<Rightarrow> request_row option" where
  "get_request db request_id = dget (db_requests db) request_id"

definition same_identity :: "request_row \<Rightarrow> string \<Rightarrow> string \<Rightarrow> string \<Rightarrow> string \<Rightarrow> bool" where
  "same_identity r task_id budget_id prompt_hash context_hash \<longleftrightarrow>
     rq_task_id r = task_id \<and> rq_budget_id r = budget_id \<and>
     rq_prompt_hash r = prompt_hash \<and> rq_context_hash r = context_hash"

definition new_request :: "string \<Rightarrow> string \<Rightarrow> string \<Rightarrow> string \<Rightarrow> request_row" where
  "new_request task_id budget_id prompt_hash context_hash =
     \<lparr> rq_task_id = task_id, rq_budget_id = budget_id, rq_prompt_hash = prompt_hash,
       rq_context_hash = context_hash, rq_status = STATE_CREATED, rq_reserved_tokens = 0,
       rq_committed_tokens = 0, rq_actual_cost_micro_units = 0,
       rq_selected_provider_id = None, rq_selected_model_id = None \<rparr>"

text \<open>
  \<open>flushed\<close> is what the database answers to the INSERT: \<open>None\<close> when the row is stored,
  \<open>Some db'\<close> when it raises IntegrityError, with \<open>db'\<close> the tables the session sees after its
  rollback (those of a concurrent writer that created the request first, for instance).
\<close>

definition create_request ::
  "ai_db option \<Rightarrow> ai_db \<Rightarrow> string \<Rightarrow> string \<Rightarrow> string \<Rightarrow> string \<Rightarrow> string \<Rightarrow> ai_error + ai_db" where
  "create_request flushed db request_id task_id budget_id prompt_hash context_hash =
     (if length prompt_hash \<noteq> 64 \<or> length context_hash \<noteq> 64 then Inl ValueError
      else case get_request db request_id of
        Some existing \<Rightarrow>
          if same_identity existing task_id budget_id prompt_hash context_hash then Inr db
          else Inl AIRequestIdempotencyConflictError
      | None \<Rightarrow>
          (case flushed of
             None \<Rightarrow> Inr (db\<lparr> db_requests := dset (db_requests db) request_id
                            (new_request task_id budget_id prompt_hash context_hash) \<rparr>)
           | Some db' \<Rightarrow>
               (case get_request db' request_id of
                  Some existing_race \<Rightarrow>
                    if same_identity existing_race task_id budget_id prompt_hash context_hash
                    then Inr db'
                    else Inl AIRequestIdempotencyConflictError
                | None \<Rightarrow> Inl IntegrityError)))"

definition reserve_budget :: "ai_db \<Rightarrow> string \<Rightarrow> int \<Rightarrow> ai_error + ai_db" where
  "reserve_budget db request_id request_tokens =
     (case get_request db request_id of
        None \<Rightarrow> Inl AIRequestNotFoundError
      | Some request \<Rightarrow>
          if rq_status request = STATE_RESERVED then
            (if rq_reserved_tokens request = request_tokens then Inr db
             else Inl AIRequestIdempotencyConflictError)
          else
            rbind (validate_state_transition (rq_status request) STATE_RESERVED) (\<lambda>_.
            rbind (reserve_tokens db (rq_budget_id request) request_tokens) (\<lambda>db1.
              let (t, rowcount) = update_row (db_requests db1) request_id
                    (\<lambda>r. rq_status r = rq_status request)
                    (\<lambda>r. r\<lparr> rq_status := STATE_RESERVED, rq_reserved_tokens := request_tokens \<rparr>)
              in if rowcount \<noteq> 1 then Inl AIRequestStateConflictError
                 else Inr (db1\<lparr> db_requests := t \<rparr>))))"

text \<open>The optional columns of an UPDATE: set when the argument is not None.\<close>

definition set_selected :: "string option \<Rightarrow> string option \<Rightarrow> request_row \<Rightarrow> request_row" where
  "set_selected provider model r =
     (let r = (case provider of None \<Rightarrow> r | Some p \<Rightarrow> r\<lparr> rq_selected_provider_id := Some p \<rparr>)
      in case model of None \<Rightarrow> r | Some m \<Rightarrow> r\<lparr> rq_selected_model_id := Some m \<rparr>)"

definition transition_status ::
  "ai_db \<Rightarrow> string \<Rightarrow> string \<Rightarrow> string \<Rightarrow> string option \<Rightarrow> string option \<Rightarrow> ai_error + ai_db" where
  "transition_status db request_id expected_status new_status provider model =
     (case get_request db request_id of
        None \<Rightarrow> Inl AIRequestNotFoundError
      | Some request \<Rightarrow>
          rbind (validate_state_transition expected_status new_status) (\<lambda>_.
            if rq_status request \<noteq> expected_status then Inl AIRequestStateConflictError
            else
              let (t, rowcount) = update_row (db_requests db) request_id
                    (\<lambda>r. rq_status r = expected_status)
                    (\<lambda>r. set_selected provider model (r\<lparr> rq_status := new_status \<rparr>))
              in if rowcount \<noteq> 1 then Inl AIRequestStateConflictError
                 else Inr (db\<lparr> db_requests := t \<rparr>)))"

definition commit_execution ::
  "ai_db \<Rightarrow> string \<Rightarrow> int \<Rightarrow> int \<Rightarrow> string option \<Rightarrow> string option \<Rightarrow> ai_error + ai_db" where
  "commit_execution db request_id actual_tokens actual_cost provider model =
     (case get_request db request_id of
        None \<Rightarrow> Inl AIRequestNotFoundError
      | Some request \<Rightarrow>
          if rq_status request = STATE_COMPLETED then
            (if rq_committed_tokens request = actual_tokens \<and>
                rq_actual_cost_micro_units request = actual_cost then Inr db
             else Inl AIRequestIdempotencyConflictError)
          else
            rbind (validate_state_transition (rq_status request) STATE_COMPLETED) (\<lambda>_.
            rbind (commit_tokens db (rq_budget_id request) (rq_reserved_tokens request)
                     actual_tokens actual_cost) (\<lambda>db1.
              let (t, rowcount) = update_row (db_requests db1) request_id
                    (\<lambda>r. rq_status r = rq_status request)
                    (\<lambda>r. set_selected provider model
                       (r\<lparr> rq_status := STATE_COMPLETED, rq_committed_tokens := actual_tokens,
                          rq_actual_cost_micro_units := actual_cost, rq_reserved_tokens := 0 \<rparr>))
              in if rowcount \<noteq> 1 then Inl AIRequestStateConflictError
                 else Inr (db1\<lparr> db_requests := t \<rparr>))))"

definition release_reservation :: "ai_db \<Rightarrow> string \<Rightarrow> string \<Rightarrow> ai_error + ai_db" where
  "release_reservation db request_id target_status =
     (case get_request db request_id of
        None \<Rightarrow> Inl AIRequestNotFoundError
      | Some request \<Rightarrow>
          if is_terminal_state (rq_status request) then
            (if rq_status request = target_status then Inr db
             else Inl InvalidAIRequestStateTransitionError)
          else
            rbind (validate_state_transition (rq_status request) target_status) (\<lambda>_.
            rbind (if 0 < rq_reserved_tokens request
                   then release_tokens db (rq_budget_id request) (rq_reserved_tokens request)
                   else Inr db) (\<lambda>db1.
              let (t, rowcount) = update_row (db_requests db1) request_id
                    (\<lambda>r. rq_status r = rq_status request)
                    (\<lambda>r. r\<lparr> rq_status := target_status, rq_reserved_tokens := 0 \<rparr>)
              in if rowcount \<noteq> 1 then Inl AIRequestStateConflictError
                 else Inr (db1\<lparr> db_requests := t \<rparr>))))"

section \<open>Outcomes\<close>

lemma set_selected_simps [simp]:
  "rq_task_id (set_selected p m r) = rq_task_id r"
  "rq_budget_id (set_selected p m r) = rq_budget_id r"
  "rq_prompt_hash (set_selected p m r) = rq_prompt_hash r"
  "rq_context_hash (set_selected p m r) = rq_context_hash r"
  "rq_status (set_selected p m r) = rq_status r"
  "rq_reserved_tokens (set_selected p m r) = rq_reserved_tokens r"
  "rq_committed_tokens (set_selected p m r) = rq_committed_tokens r"
  "rq_actual_cost_micro_units (set_selected p m r) = rq_actual_cost_micro_units r"
  by (simp_all add: set_selected_def split: option.splits)

lemma tokens_frame:
  "reserve_tokens db k n = Inr db1 \<Longrightarrow> db_requests db1 = db_requests db"
  "commit_tokens db k n a c = Inr db1 \<Longrightarrow> db_requests db1 = db_requests db"
  "release_tokens db k n = Inr db1 \<Longrightarrow> db_requests db1 = db_requests db"
  by (auto simp: reserve_tokens_Inr_iff commit_tokens_Inr_iff release_tokens_Inr_iff)

lemma update_row_hit:
  "dget t k = Some r \<Longrightarrow> P r \<Longrightarrow> update_row t k P f = (dset t k (f r), 1)"
  by (simp add: update_row_def)

definition set_request :: "ai_db \<Rightarrow> string \<Rightarrow> request_row \<Rightarrow> ai_db" where
  "set_request db k r = db\<lparr> db_requests := dset (db_requests db) k r \<rparr>"

lemma reserve_budgetE:
  assumes "reserve_budget db k n = Inr db'"
  obtains (same) r where "get_request db k = Some r" "rq_status r = STATE_RESERVED"
      "rq_reserved_tokens r = n" "db' = db"
  | (reserved) r db1 where "get_request db k = Some r" "rq_status r = STATE_CREATED"
      "reserve_tokens db (rq_budget_id r) n = Inr db1"
      "db' = set_request db1 k (r\<lparr> rq_status := STATE_RESERVED, rq_reserved_tokens := n \<rparr>)"
proof (cases "get_request db k")
  case None
  then show ?thesis using assms by (simp add: reserve_budget_def)
next
  case (Some r)
  show ?thesis
  proof (cases "rq_status r = STATE_RESERVED")
    case True
    then show ?thesis
      using assms Some by (intro same) (auto simp: reserve_budget_def split: if_splits)
  next
    case False
    with assms Some obtain db1 where m: "may_transition (rq_status r) STATE_RESERVED"
      and t: "reserve_tokens db (rq_budget_id r) n = Inr db1"
      and d: "(let (t, rowcount) = update_row (db_requests db1) k
                (\<lambda>q. rq_status q = rq_status r)
                (\<lambda>q. q\<lparr> rq_status := STATE_RESERVED, rq_reserved_tokens := n \<rparr>)
              in if rowcount \<noteq> 1 then Inl AIRequestStateConflictError
                 else Inr (db1\<lparr> db_requests := t \<rparr>)) = Inr db'"
      by (auto simp: reserve_budget_def)
    have "dget (db_requests db1) k = Some r"
      using Some tokens_frame(1) [OF t] by (simp add: get_request_def)
    with d have "db' = set_request db1 k (r\<lparr> rq_status := STATE_RESERVED, rq_reserved_tokens := n \<rparr>)"
      by (simp add: update_row_hit set_request_def)
    with Some to_reserved [OF m] t show ?thesis by (rule reserved)
  qed
qed

lemma transition_statusE:
  assumes "transition_status db k s t p m = Inr db'"
  obtains r where "get_request db k = Some r" "rq_status r = s" "may_transition s t"
    "db' = set_request db k (set_selected p m (r\<lparr> rq_status := t \<rparr>))"
proof (cases "get_request db k")
  case None
  then show ?thesis using assms by (simp add: transition_status_def)
next
  case (Some r)
  with assms have s: "rq_status r = s" "may_transition s t"
    by (auto simp: transition_status_def split: if_splits)
  have "db' = set_request db k (set_selected p m (r\<lparr> rq_status := t \<rparr>))"
    using assms Some s
    by (auto simp: transition_status_def get_request_def set_request_def update_row_hit)
  with Some s show ?thesis by (rule that)
qed

lemma commit_executionE:
  assumes "commit_execution db k a c p m = Inr db'"
  obtains (same) r where "get_request db k = Some r" "rq_status r = STATE_COMPLETED"
      "rq_committed_tokens r = a" "rq_actual_cost_micro_units r = c" "db' = db"
  | (committed) r db1 where "get_request db k = Some r" "rq_status r = STATE_IN_FLIGHT"
      "commit_tokens db (rq_budget_id r) (rq_reserved_tokens r) a c = Inr db1"
      "db' = set_request db1 k (set_selected p m
         (r\<lparr> rq_status := STATE_COMPLETED, rq_committed_tokens := a,
            rq_actual_cost_micro_units := c, rq_reserved_tokens := 0 \<rparr>))"
proof (cases "get_request db k")
  case None
  then show ?thesis using assms by (simp add: commit_execution_def)
next
  case (Some r)
  show ?thesis
  proof (cases "rq_status r = STATE_COMPLETED")
    case True
    then show ?thesis
      using assms Some by (intro same) (auto simp: commit_execution_def split: if_splits)
  next
    case False
    with assms Some obtain db1 where m: "may_transition (rq_status r) STATE_COMPLETED"
      and t: "commit_tokens db (rq_budget_id r) (rq_reserved_tokens r) a c = Inr db1"
      and d: "(let (t, rowcount) = update_row (db_requests db1) k
                (\<lambda>q. rq_status q = rq_status r)
                (\<lambda>q. set_selected p m
                   (q\<lparr> rq_status := STATE_COMPLETED, rq_committed_tokens := a,
                      rq_actual_cost_micro_units := c, rq_reserved_tokens := 0 \<rparr>))
              in if rowcount \<noteq> 1 then Inl AIRequestStateConflictError
                 else Inr (db1\<lparr> db_requests := t \<rparr>)) = Inr db'"
      by (auto simp: commit_execution_def)
    have "dget (db_requests db1) k = Some r"
      using Some tokens_frame(2) [OF t] by (simp add: get_request_def)
    with d have "db' = set_request db1 k (set_selected p m
         (r\<lparr> rq_status := STATE_COMPLETED, rq_committed_tokens := a,
            rq_actual_cost_micro_units := c, rq_reserved_tokens := 0 \<rparr>))"
      by (simp add: update_row_hit set_request_def)
    with Some to_completed [OF m] t show ?thesis by (rule committed)
  qed
qed

lemma release_reservationE:
  assumes "release_reservation db k t = Inr db'"
  obtains (same) r where "get_request db k = Some r" "is_terminal_state (rq_status r)"
      "rq_status r = t" "db' = db"
  | (released) r db1 where "get_request db k = Some r" "may_transition (rq_status r) t"
      "if 0 < rq_reserved_tokens r
       then release_tokens db (rq_budget_id r) (rq_reserved_tokens r) = Inr db1 else db1 = db"
      "db' = set_request db1 k (r\<lparr> rq_status := t, rq_reserved_tokens := 0 \<rparr>)"
proof (cases "get_request db k")
  case None
  then show ?thesis using assms by (simp add: release_reservation_def)
next
  case (Some r)
  show ?thesis
  proof (cases "is_terminal_state (rq_status r)")
    case True
    then show ?thesis
      using assms Some by (intro same) (auto simp: release_reservation_def split: if_splits)
  next
    case False
    with assms Some obtain db1 where m: "may_transition (rq_status r) t"
      and t: "(if 0 < rq_reserved_tokens r
        then release_tokens db (rq_budget_id r) (rq_reserved_tokens r) else Inr db) = Inr db1"
      and d: "(let (tb, rowcount) = update_row (db_requests db1) k
                (\<lambda>q. rq_status q = rq_status r)
                (\<lambda>q. q\<lparr> rq_status := t, rq_reserved_tokens := 0 \<rparr>)
              in if rowcount \<noteq> 1 then Inl AIRequestStateConflictError
                 else Inr (db1\<lparr> db_requests := tb \<rparr>)) = Inr db'"
      by (auto simp: release_reservation_def)
    have "db_requests db1 = db_requests db" using t tokens_frame(3) by (auto split: if_splits)
    with Some have "dget (db_requests db1) k = Some r" by (simp add: get_request_def)
    with d have "db' = set_request db1 k (r\<lparr> rq_status := t, rq_reserved_tokens := 0 \<rparr>)"
      by (simp add: update_row_hit set_request_def)
    with Some m t show ?thesis by (intro released) (auto split: if_splits)
  qed
qed

lemma create_requestE:
  assumes "create_request flushed db k task budget ph ch = Inr db'"
  obtains (existing) r where "get_request db k = Some r" "same_identity r task budget ph ch" "db' = db"
  | (created) "get_request db k = None" "flushed = None"
      "db' = set_request db k (new_request task budget ph ch)"
  | (raced) r where "get_request db k = None" "flushed = Some db'" "get_request db' k = Some r"
      "same_identity r task budget ph ch"
  using assms
  by (auto simp: create_request_def set_request_def split: if_splits option.splits
      intro: existing created raced)

section \<open>The accounts\<close>

text \<open>The total of a counter over the requests charged to one budget.\<close>

definition sum_for :: "(request_row \<Rightarrow> int) \<Rightarrow> ai_db \<Rightarrow> string \<Rightarrow> int" where
  "sum_for f db k = sum_list (map ((\<lambda>r. if rq_budget_id r = k then f r else 0) \<circ> snd) (db_requests db))"

text \<open>The counters of every budget are the totals over its requests.\<close>

definition balanced :: "ai_db \<Rightarrow> string \<Rightarrow> budget_row \<Rightarrow> bool" where
  "balanced db k b \<longleftrightarrow>
     bg_reserved_tokens b = sum_for rq_reserved_tokens db k \<and>
     bg_used_tokens b = sum_for rq_committed_tokens db k \<and>
     bg_used_cost_micro_units b = sum_for rq_actual_cost_micro_units db k"

definition accounted :: "ai_db \<Rightarrow> bool" where
  [inv_simps]: "accounted db \<longleftrightarrow> (\<forall>k b. dget (db_budgets db) k = Some b \<longrightarrow> balanced db k b)"

definition request_ok :: "request_row \<Rightarrow> bool" where
  [inv_simps]: "request_ok r \<longleftrightarrow>
     request_row_ok r \<and> rq_status r \<in> set all_states \<and>
     (rq_status r = STATE_CREATED \<longrightarrow> rq_reserved_tokens r = 0) \<and>
     (rq_status r \<noteq> STATE_COMPLETED \<longrightarrow>
        rq_committed_tokens r = 0 \<and> rq_actual_cost_micro_units r = 0)"

definition requests_ok :: "ai_db \<Rightarrow> bool" where
  [inv_simps]: "requests_ok db \<longleftrightarrow> (\<forall>k r. get_request db k = Some r \<longrightarrow> request_ok r)"

lemma sum_for_set_old:
  assumes "get_request db k = Some r"
  shows "sum_for f (set_request db k r') j =
    sum_for f db j - (if rq_budget_id r = j then f r else 0) + (if rq_budget_id r' = j then f r' else 0)"
  using sum_dset_old [of "db_requests db" k r "\<lambda>r. if rq_budget_id r = j then f r else 0" r'] assms
  by (simp add: sum_for_def set_request_def get_request_def)

lemma sum_for_set_fresh:
  assumes "get_request db k = None"
  shows "sum_for f (set_request db k r') j = sum_for f db j + (if rq_budget_id r' = j then f r' else 0)"
  using sum_dset_fresh [of "db_requests db" k "\<lambda>r. if rq_budget_id r = j then f r else 0" r'] assms
  by (simp add: sum_for_def set_request_def get_request_def)

lemma sum_for_frame: "db_requests db1 = db_requests db \<Longrightarrow> sum_for f db1 = sum_for f db"
  by (simp add: sum_for_def fun_eq_iff)

lemma get_request_set [simp]:
  "get_request (set_request db k r) j = (if j = k then Some r else get_request db j)"
  by (simp add: get_request_def set_request_def)

lemma budgets_set_request [simp]: "db_budgets (set_request db k r) = db_budgets db"
  by (simp add: set_request_def)

lemma requests_ok_set:
  "requests_ok db \<Longrightarrow> request_ok r \<Longrightarrow> db_requests db1 = db_requests db \<Longrightarrow>
     requests_ok (set_request db1 k r)"
  by (auto simp: requests_ok_def get_request_def set_request_def)

text \<open>
  Storing a request whose counters moved by the same amounts as those of its budget keeps the
  accounts balanced.
\<close>

lemma accounted_move:
  assumes "accounted db" "get_request db k = Some r"
    and "dget (db_budgets db) (rq_budget_id r) = Some b"
    and "db_requests db1 = db_requests db"
    and "db_budgets db1 = dset (db_budgets db) (rq_budget_id r) b'"
    and "rq_budget_id r' = rq_budget_id r"
    and "bg_reserved_tokens b' = bg_reserved_tokens b + (rq_reserved_tokens r' - rq_reserved_tokens r)"
    and "bg_used_tokens b' = bg_used_tokens b + (rq_committed_tokens r' - rq_committed_tokens r)"
    and "bg_used_cost_micro_units b' = bg_used_cost_micro_units b +
           (rq_actual_cost_micro_units r' - rq_actual_cost_micro_units r)"
  shows "accounted (set_request db1 k r')"
proof -
  have g: "get_request db1 k = Some r" using assms(2,4) by (simp add: get_request_def)
  have "balanced (set_request db1 k r') j c"
    if "dget (db_budgets db1) j = Some c" for j c
  proof -
    have "balanced db (rq_budget_id r) b" using assms(1,3) by (simp add: accounted_def)
    moreover have "j \<noteq> rq_budget_id r \<Longrightarrow> balanced db j c"
      using that assms(1,5) by (simp add: accounted_def)
    ultimately show ?thesis
      using that assms(5-) sum_for_frame [OF assms(4)]
      by (auto simp: balanced_def sum_for_set_old [OF g] split: if_splits)
  qed
  then show ?thesis by (simp add: accounted_def)
qed

lemma accounted_same:
  assumes "accounted db" "get_request db k = Some r" "rq_budget_id r' = rq_budget_id r"
    "rq_reserved_tokens r' = rq_reserved_tokens r" "rq_committed_tokens r' = rq_committed_tokens r"
    "rq_actual_cost_micro_units r' = rq_actual_cost_micro_units r"
  shows "accounted (set_request db k r')"
  using assms by (auto simp: accounted_def balanced_def sum_for_set_old [OF assms(2)])

lemma accounted_new:
  assumes "accounted db" "get_request db k = None"
    "rq_reserved_tokens r' = 0" "rq_committed_tokens r' = 0" "rq_actual_cost_micro_units r' = 0"
  shows "accounted (set_request db k r')"
  using assms by (auto simp: accounted_def balanced_def sum_for_set_fresh [OF assms(2)])

definition books_ok :: "ai_db \<Rightarrow> bool" where
  [inv_simps]: "books_ok db \<longleftrightarrow> requests_ok db \<and> accounted db"

lemma state_facts:
  "STATE_RESERVED \<in> set all_states" "STATE_COMPLETED \<in> set all_states"
  "STATE_CREATED \<in> set all_states" "\<not> may_transition s STATE_CREATED"
proof -
  show "STATE_RESERVED \<in> set all_states" "STATE_COMPLETED \<in> set all_states"
    "STATE_CREATED \<in> set all_states" by code_simp+
  have "\<forall>s\<in>set all_states. \<not> may_transition s STATE_CREATED" by code_simp
  then show "\<not> may_transition s STATE_CREATED" using may_transition_known by blast
qed

lemma create_request_books:
  assumes "books_ok db" "create_request flushed db k task budget ph ch = Inr db'"
    "\<And>db1. flushed = Some db1 \<Longrightarrow> books_ok db1"
  shows "books_ok db'"
  using assms(2)
proof (cases rule: create_requestE)
  case created
  have "request_ok (new_request task budget ph ch)"
    using state_facts by (simp add: request_ok_def new_request_def request_row_ok_def)
  with assms(1) created show ?thesis
    by (auto simp: books_ok_def new_request_def intro!: requests_ok_set accounted_new)
qed (use assms in auto)

lemma request_at: "books_ok db \<Longrightarrow> get_request db k = Some r \<Longrightarrow> request_ok r"
  by (auto simp: books_ok_def requests_ok_def)

lemma reserve_budget_books:
  assumes "books_ok db" "reserve_budget db k n = Inr db'"
  shows "books_ok db'"
  using assms(2)
proof (cases rule: reserve_budgetE)
  case (reserved r db1)
  note r = request_at [OF assms(1) reserved(1)]
  from reserved(3) obtain b where b: "0 < n" "dget (db_budgets db) (rq_budget_id r) = Some b"
    "db1 = db\<lparr> db_budgets := dset (db_budgets db) (rq_budget_id r)
       (b\<lparr> bg_reserved_tokens := bg_reserved_tokens b + n \<rparr>) \<rparr>"
    unfolding reserve_tokens_Inr_iff by blast
  have "accounted db'"
    unfolding reserved(4) using assms(1) r reserved(1,2) b
    by (intro accounted_move
        [where b' = "b\<lparr> bg_reserved_tokens := bg_reserved_tokens b + n \<rparr>", OF _ reserved(1) b(2)]) (auto simp: books_ok_def request_ok_def)
  moreover have "requests_ok db'"
    unfolding reserved(4) using assms(1) r reserved(2) b state_facts
    by (intro requests_ok_set [of db]) (auto simp: books_ok_def request_ok_def request_row_ok_def)
  ultimately show ?thesis by (simp add: books_ok_def)
qed (use assms in simp)

lemma transition_status_books:
  assumes "books_ok db" "transition_status db k s t p m = Inr db'"
  shows "books_ok db'"
  using assms(2)
proof (cases rule: transition_statusE)
  case (1 r)
  note r = request_at [OF assms(1) 1(1)]
  have stuck: "s \<noteq> STATE_COMPLETED" and t: "t \<noteq> STATE_CREATED" "t \<in> set all_states"
    using terminal_no_targets [of s t] 1(3) state_facts(4) [of s] may_transition_known
    by (auto simp: is_terminal_iff)
  have "accounted db'"
    unfolding 1(4) using assms(1) 1(1) by (intro accounted_same) (auto simp: books_ok_def)
  moreover have "requests_ok db'"
    unfolding 1(4) using assms(1) r 1(2) stuck t
    by (intro requests_ok_set [of db]) (auto simp: books_ok_def request_ok_def request_row_ok_def)
  ultimately show ?thesis by (simp add: books_ok_def)
qed

lemma commit_execution_books:
  assumes "books_ok db" "commit_execution db k a c p m = Inr db'"
  shows "books_ok db'"
  using assms(2)
proof (cases rule: commit_executionE)
  case (committed r db1)
  note r = request_at [OF assms(1) committed(1)]
  from committed(3) obtain b where b: "0 \<le> a" "0 \<le> c"
    "dget (db_budgets db) (rq_budget_id r) = Some b"
    "db1 = db\<lparr> db_budgets := dset (db_budgets db) (rq_budget_id r)
       (b\<lparr> bg_reserved_tokens := bg_reserved_tokens b - rq_reserved_tokens r,
          bg_used_tokens := bg_used_tokens b + a,
          bg_used_cost_micro_units := bg_used_cost_micro_units b + c \<rparr>) \<rparr>"
    unfolding commit_tokens_Inr_iff by blast
  have "accounted db'"
    unfolding committed(4) using assms(1) r committed(1,2) b
    by (intro accounted_move
        [where b' = "b\<lparr> bg_reserved_tokens := bg_reserved_tokens b - rq_reserved_tokens r,
           bg_used_tokens := bg_used_tokens b + a,
           bg_used_cost_micro_units := bg_used_cost_micro_units b + c \<rparr>", OF _ committed(1) b(3)]) (auto simp: books_ok_def request_ok_def)
  moreover have "requests_ok db'"
    unfolding committed(4) using assms(1) r b state_facts
    by (intro requests_ok_set [of db]) (auto simp: books_ok_def request_ok_def request_row_ok_def)
  ultimately show ?thesis by (simp add: books_ok_def)
qed (use assms in simp)

lemma release_reservation_books:
  assumes "books_ok db" "release_reservation db k t = Inr db'"
  shows "books_ok db'"
  using assms(2)
proof (cases rule: release_reservationE)
  case (released r db1)
  note r = request_at [OF assms(1) released(1)]
  have nt: "rq_status r \<noteq> STATE_COMPLETED" "t \<in> set all_states"
    using terminal_no_targets [of "rq_status r" t] released(2) may_transition_known
    by (auto simp: is_terminal_iff)
  have frame: "db_requests db1 = db_requests db"
    using released(3) tokens_frame(3) by (auto split: if_splits)
  have "accounted db'"
  proof (cases "0 < rq_reserved_tokens r")
    case True
    with released(3) obtain b where b: "dget (db_budgets db) (rq_budget_id r) = Some b"
      "db1 = db\<lparr> db_budgets := dset (db_budgets db) (rq_budget_id r)
         (b\<lparr> bg_reserved_tokens := bg_reserved_tokens b - rq_reserved_tokens r \<rparr>) \<rparr>"
      by (auto simp: release_tokens_Inr_iff)
    show ?thesis
      unfolding released(4) using assms(1) b
      by (intro accounted_move
          [where b' = "b\<lparr> bg_reserved_tokens := bg_reserved_tokens b - rq_reserved_tokens r \<rparr>",
            OF _ released(1) b(1)]) (auto simp: books_ok_def)
  next
    case False
    with r released(3) have "rq_reserved_tokens r = 0" "db1 = db"
      by (auto simp: request_ok_def request_row_ok_def)
    then show ?thesis
      unfolding released(4) using assms(1) released(1)
      by (intro accounted_same) (auto simp: books_ok_def)
  qed
  moreover have "requests_ok db'"
    unfolding released(4) using assms(1) r nt frame
    by (intro requests_ok_set [of db]) (auto simp: books_ok_def request_ok_def request_row_ok_def)
  ultimately show ?thesis by (simp add: books_ok_def)
qed (use assms in simp)

section \<open>Properties\<close>

text \<open>One call of the service on one session; every call that returns is a step.\<close>

inductive request_step :: "ai_db \<Rightarrow> ai_db \<Rightarrow> bool" where
  create: "create_request None db k task budget ph ch = Inr db' \<Longrightarrow> request_step db db'"
| reserve: "reserve_budget db k n = Inr db' \<Longrightarrow> request_step db db'"
| transition: "transition_status db k s t p m = Inr db' \<Longrightarrow> request_step db db'"
| commit: "commit_execution db k a c p m = Inr db' \<Longrightarrow> request_step db db'"
| release: "release_reservation db k t = Inr db' \<Longrightarrow> request_step db db'"

lemma request_step_books: "request_step db db' \<Longrightarrow> books_ok db \<Longrightarrow> books_ok db'"
  by (induction rule: request_step.induct)
    (auto intro: create_request_books reserve_budget_books transition_status_books
      commit_execution_books release_reservation_books)

text \<open>
  Through any sequence of request operations the reserved, used and cost counters of
  every budget equal the totals over the requests charged to it, and every request row stays
  well formed.
\<close>

theorem request_books_kept:
  assumes "request_step\<^sup>*\<^sup>* db db'" "books_ok db"
  shows "books_ok db'"
  using assms by (induction rule: rtranclp_induct) (auto intro: request_step_books)

definition hash_of :: "char \<Rightarrow> string" where
  "hash_of c = replicate 64 c"

definition fresh_db :: ai_db where
  "fresh_db = demo_db (demo_budget\<lparr> bg_used_tokens := 0, bg_reserved_tokens := 0,
     bg_used_cost_micro_units := 0 \<rparr>)"

lemma fresh_db_books: "books_ok fresh_db"
  by (auto simp: books_ok_def requests_ok_def accounted_def balanced_def sum_for_def get_request_def
      fresh_db_def demo_db_def demo_budget_def)

definition created_db :: ai_db where
  "created_db = set_request fresh_db ''r1'' (new_request ''t1'' ''b1'' (hash_of CHR ''a'') (hash_of CHR ''b''))"

lemma created_db_create:
  "create_request None fresh_db ''r1'' ''t1'' ''b1'' (hash_of CHR ''a'') (hash_of CHR ''b'') = Inr created_db"
  by (simp add: create_request_def hash_of_def created_db_def get_request_def fresh_db_def demo_db_def
      set_request_def)

theorem request_books_kept_witness: "books_ok created_db"
  by (rule request_books_kept [OF _ fresh_db_books])
    (rule r_into_rtranclp, rule request_step.create, rule created_db_create)

text \<open>A step leaves a request in a terminal status exactly as it is.\<close>

lemma request_step_terminal:
  assumes "request_step db db'" "get_request db k = Some r" "is_terminal_state (rq_status r)"
  shows "get_request db' k = Some r"
  using assms(1)
proof cases
  case (create j task budget ph ch)
  then show ?thesis using assms(2) by (auto elim!: create_requestE)
next
  case (reserve j n)
  then show ?thesis
  proof (cases rule: reserve_budgetE)
    case (reserved q db1)
    then have "db_requests db1 = db_requests db" using tokens_frame(1) by blast
    with reserved assms show ?thesis
      by (auto simp: get_request_def set_request_def is_terminal_iff)
  qed (use assms in simp)
next
  case (transition j s t p m)
  then show ?thesis
    using assms terminal_no_targets by (auto elim!: transition_statusE)
next
  case (commit j a c p m)
  then show ?thesis
  proof (cases rule: commit_executionE)
    case (committed q db1)
    then have "db_requests db1 = db_requests db" using tokens_frame(2) by blast
    with committed assms show ?thesis
      by (auto simp: get_request_def set_request_def is_terminal_iff)
  qed (use assms in simp)
next
  case (release j t)
  then show ?thesis
  proof (cases rule: release_reservationE)
    case (released q db1)
    then have "db_requests db1 = db_requests db" using tokens_frame(3) by (auto split: if_splits)
    with released assms terminal_no_targets show ?thesis
      by (auto simp: get_request_def set_request_def)
  qed (use assms in simp)
qed

text \<open>
  Once a request is completed, failed or cancelled, no sequence of operations, on it
  or on any other request, changes its row again.
\<close>

theorem terminal_request_final:
  assumes "request_step\<^sup>*\<^sup>* db db'" "get_request db k = Some r" "is_terminal_state (rq_status r)"
  shows "get_request db' k = Some r"
  using assms by (induction rule: rtranclp_induct) (auto intro: request_step_terminal)

definition cancelled_db :: ai_db where
  "cancelled_db = set_request fresh_db ''r0'' (new_request ''t1'' ''b1'' (hash_of CHR ''a'') (hash_of CHR ''b'')
     \<lparr> rq_status := STATE_CANCELLED \<rparr>)"

theorem terminal_request_final_witness:
  "let db' = set_request cancelled_db ''r1'' (new_request ''t1'' ''b1'' (hash_of CHR ''a'') (hash_of CHR ''b''))
   in get_request db' ''r0'' = get_request cancelled_db ''r0'' \<and> get_request db' ''r0'' \<noteq> None"
proof -
  let ?c = "set_request cancelled_db ''r1'' (new_request ''t1'' ''b1'' (hash_of CHR ''a'') (hash_of CHR ''b''))"
  let ?r = "new_request ''t1'' ''b1'' (hash_of CHR ''a'') (hash_of CHR ''b'') \<lparr> rq_status := STATE_CANCELLED \<rparr>"
  have c: "create_request None cancelled_db ''r1'' ''t1'' ''b1'' (hash_of CHR ''a'') (hash_of CHR ''b'') = Inr ?c"
    by (simp add: create_request_def hash_of_def cancelled_db_def get_request_def fresh_db_def
        demo_db_def set_request_def)
  have g: "get_request cancelled_db ''r0'' = Some ?r" by (simp add: cancelled_db_def)
  have "get_request ?c ''r0'' = Some ?r"
    by (rule terminal_request_final [OF r_into_rtranclp [of request_step], OF request_step.create [OF c] g])
      (simp add: is_terminal_iff)
  with g show ?thesis by (simp add: Let_def)
qed

text \<open>
  After a creation that returned, repeating it with the same identity returns the
  stored request unchanged, and repeating it with any other task, budget or hash (of valid
  length) raises the idempotency conflict, whatever the database would answer to an insert.
\<close>

theorem create_request_idempotent:
  assumes "create_request flushed db k task budget ph ch = Inr db'"
  shows "create_request flushed' db' k task' budget' ph' ch' =
    (if length ph' \<noteq> 64 \<or> length ch' \<noteq> 64 then Inl ValueError
     else if (task', budget', ph', ch') = (task, budget, ph, ch) then Inr db'
     else Inl AIRequestIdempotencyConflictError)"
proof -
  from assms obtain r where "get_request db' k = Some r" "same_identity r task budget ph ch"
    by (cases rule: create_requestE) (auto simp: same_identity_def new_request_def)
  then show ?thesis by (auto simp: create_request_def same_identity_def)
qed

theorem create_request_idempotent_witness:
  "create_request None created_db ''r1'' ''t2'' ''b1'' (hash_of CHR ''a'') (hash_of CHR ''b'') =
     Inl AIRequestIdempotencyConflictError"
  unfolding create_request_idempotent [OF created_db_create] by (simp add: hash_of_def)

text \<open>
  Releasing a fresh reservation restores every budget row exactly.
\<close>

theorem reserve_release_round_trip:
  assumes "reserve_budget db k n = Inr db1" "get_request db k = Some r"
    "rq_status r = STATE_CREATED" "release_reservation db1 k t = Inr db2"
  shows "dget (db_budgets db2) j = dget (db_budgets db) j \<and>
    map_option rq_status (get_request db2 k) = Some t"
proof -
  let ?r1 = "r\<lparr> rq_status := STATE_RESERVED, rq_reserved_tokens := n \<rparr>"
  from assms(1-3) obtain dbr where dbr: "reserve_tokens db (rq_budget_id r) n = Inr dbr"
    "db1 = set_request dbr k ?r1"
    by (cases rule: reserve_budgetE) auto
  then obtain b where b: "0 < n" "dget (db_budgets db) (rq_budget_id r) = Some b"
    "dbr = db\<lparr> db_budgets := dset (db_budgets db) (rq_budget_id r)
       (b\<lparr> bg_reserved_tokens := bg_reserved_tokens b + n \<rparr>) \<rparr>"
    unfolding reserve_tokens_Inr_iff by blast
  have g: "get_request db1 k = Some ?r1" using dbr(2) by simp
  from assms(4) obtain dbx where dbx: "release_tokens db1 (rq_budget_id r) n = Inr dbx"
    "db2 = set_request dbx k (?r1\<lparr> rq_status := t, rq_reserved_tokens := 0 \<rparr>)"
    using g b(1) by (cases rule: release_reservationE) (auto simp: is_terminal_iff)
  with b dbr(2) show ?thesis by (auto simp: release_tokens_Inr_iff)
qed

theorem reserve_release_round_trip_witness:
  "\<exists>db2. rbind (reserve_budget created_db ''r1'' 40)
        (\<lambda>db1. release_reservation db1 ''r1'' STATE_CANCELLED) = Inr db2 \<and>
      dget (db_budgets db2) ''b1'' = dget (db_budgets created_db) ''b1''"
proof -
  have "\<exists>db1 db2. reserve_budget created_db ''r1'' 40 = Inr db1 \<and>
      release_reservation db1 ''r1'' STATE_CANCELLED = Inr db2"
  proof -
    have "returns (rbind (reserve_budget created_db ''r1'' 40)
        (\<lambda>db1. release_reservation db1 ''r1'' STATE_CANCELLED))" by code_simp
    then show ?thesis unfolding returns_iff by auto
  qed
  then obtain db1 db2 where s: "reserve_budget created_db ''r1'' 40 = Inr db1"
    "release_reservation db1 ''r1'' STATE_CANCELLED = Inr db2" by blast
  have "get_request created_db ''r1'' =
      Some (new_request ''t1'' ''b1'' (hash_of CHR ''a'') (hash_of CHR ''b''))"
    by (simp add: created_db_def)
  from reserve_release_round_trip [OF s(1) this _ s(2), of "''b1''"] s show ?thesis
    by (simp add: new_request_def)
qed

end
