(* ===== verification/AiProvider.thy ===== *)
theory AiProvider
  imports AiStore
begin

text \<open>
  What the router knows of a provider: its descriptor and price (\<^verbatim>\<open>ai/provider.py\<close>,
  \<^verbatim>\<open>ai/pricing.py\<close>), the registry of descriptors (\<^verbatim>\<open>ai/provider_registry.py\<close>), their health
  (\<^verbatim>\<open>ai/health.py\<close>) and the policy of one routing pass (\<^verbatim>\<open>ai/routing_policy.py\<close>).
\<close>

abbreviation HEALTH_HEALTHY :: string where "HEALTH_HEALTHY \<equiv> ''HEALTHY''"
abbreviation HEALTH_DEGRADED :: string where "HEALTH_DEGRADED \<equiv> ''DEGRADED''"
abbreviation HEALTH_UNAVAILABLE :: string where "HEALTH_UNAVAILABLE \<equiv> ''UNAVAILABLE''"
abbreviation HEALTH_UNKNOWN :: string where "HEALTH_UNKNOWN \<equiv> ''UNKNOWN''"

definition eligible_health_states :: "string list" where
  "eligible_health_states = [HEALTH_HEALTHY, HEALTH_DEGRADED]"

definition known_health_states :: "string list" where
  "known_health_states = [HEALTH_HEALTHY, HEALTH_DEGRADED, HEALTH_UNAVAILABLE]"

definition known_error_classes :: "string list" where
  "known_error_classes =
     [ ''TIMEOUT'', ''RATE_LIMIT'', ''AUTHENTICATION_FAILED'', ''PROVIDER_UNAVAILABLE'',
       ''INVALID_REQUEST'', ''INVALID_RESPONSE'', ''NETWORK_ERROR'', ''PROVIDER_THROTTLED'',
       ''UNKNOWN_PROVIDER_ERROR'' ]"

section \<open>Descriptors\<close>

record provider_descriptor =
  pd_provider_id :: string
  pd_model_id :: string
  pd_capabilities :: "string set"
  pd_priority :: int
  pd_input_price_micro_units :: int
  pd_output_price_micro_units :: int
  pd_health :: string

type_synonym provider_key = "string \<times> string"

text \<open>The constructor's checks, in the order it makes them.\<close>

definition make_descriptor :: "provider_descriptor \<Rightarrow> ai_error + provider_descriptor" where
  "make_descriptor d =
     (if blank (pd_provider_id d) then Inl ValueError
      else if blank (pd_model_id d) then Inl ValueError
      else if pd_priority d < 0 then Inl ValueError
      else if pd_input_price_micro_units d < 0 then Inl ValueError
      else if pd_output_price_micro_units d < 0 then Inl ValueError
      else if pd_health d \<notin> set known_health_states then Inl ValueError
      else Inr d)"

definition descriptor_key :: "provider_descriptor \<Rightarrow> provider_key" where
  "descriptor_key d = (pd_provider_id d, pd_model_id d)"

definition descriptor_sort_key :: "provider_descriptor \<Rightarrow> int \<times> string \<times> string" where
  "descriptor_sort_key d = (pd_priority d, pd_provider_id d, pd_model_id d)"

section \<open>Pricing\<close>

definition estimate_cost_micro_units :: "provider_descriptor \<Rightarrow> int \<Rightarrow> int \<Rightarrow> ai_error + int" where
  "estimate_cost_micro_units d input_tokens output_tokens =
     (if input_tokens < 0 then Inl PricingError
      else if output_tokens < 0 then Inl PricingError
      else if pd_input_price_micro_units d < 0 \<or> pd_output_price_micro_units d < 0
      then Inl PricingError
      else Inr (input_tokens * pd_input_price_micro_units d +
                output_tokens * pd_output_price_micro_units d))"

definition is_within_cost_ceiling ::
  "provider_descriptor \<Rightarrow> int \<Rightarrow> int \<Rightarrow> int \<Rightarrow> ai_error + bool \<times> int" where
  "is_within_cost_ceiling d input_tokens output_tokens max_cost =
     rbind (estimate_cost_micro_units d input_tokens output_tokens) (\<lambda>estimated.
       Inr (estimated \<le> max_cost, estimated))"

section \<open>Registry\<close>

type_synonym provider_registry = "(provider_key, provider_descriptor) dict"

definition register_provider ::
  "provider_registry \<Rightarrow> provider_descriptor \<Rightarrow> ai_error + provider_registry" where
  "register_provider reg d =
     (case dget reg (descriptor_key d) of
        Some existing \<Rightarrow> if existing = d then Inr reg else Inl ProviderRegistryConflictError
      | None \<Rightarrow> Inr (dset reg (descriptor_key d) d))"

definition deregister_provider :: "provider_registry \<Rightarrow> string \<Rightarrow> string \<Rightarrow> provider_registry" where
  "deregister_provider reg p m = AList.delete (p, m) reg"

definition get_provider :: "provider_registry \<Rightarrow> string \<Rightarrow> string \<Rightarrow> provider_descriptor option" where
  "get_provider reg p m = dget reg (p, m)"

definition list_all_providers :: "provider_registry \<Rightarrow> provider_descriptor list" where
  "list_all_providers reg = map (\<lambda>k. the (dget reg k)) (sort (dkeys reg))"

definition list_by_capability :: "provider_registry \<Rightarrow> string \<Rightarrow> provider_descriptor list" where
  "list_by_capability reg c =
     map (\<lambda>k. the (dget reg k))
       (filter (\<lambda>k. c \<in> pd_capabilities (the (dget reg k))) (sort (dkeys reg)))"

section \<open>Health\<close>

type_synonym health_registry = "(provider_key, string) dict"

definition register_health ::
  "health_registry \<Rightarrow> string \<Rightarrow> string \<Rightarrow> string \<Rightarrow> ai_error + health_registry" where
  "register_health h p m health =
     (if health \<notin> set known_health_states then Inl ValueError else Inr (dset h (p, m) health))"

definition get_health :: "health_registry \<Rightarrow> string \<Rightarrow> string \<Rightarrow> string" where
  "get_health h p m = dget_default h (p, m) HEALTH_UNKNOWN"

definition is_healthy :: "health_registry \<Rightarrow> string \<Rightarrow> string \<Rightarrow> bool" where
  "is_healthy h p m = (get_health h p m \<in> set eligible_health_states)"

definition set_unavailable :: "health_registry \<Rightarrow> string \<Rightarrow> string \<Rightarrow> health_registry" where
  "set_unavailable h p m = dset h (p, m) HEALTH_UNAVAILABLE"

section \<open>Routing policy\<close>

record routing_policy =
  rp_required_capabilities :: "string set"
  rp_estimated_input_tokens :: int
  rp_estimated_output_tokens :: int
  rp_max_request_cost_micro_units :: "int option"
  rp_allow_degraded :: bool

definition make_policy :: "routing_policy \<Rightarrow> ai_error + routing_policy" where
  "make_policy p =
     (if rp_estimated_input_tokens p < 0 then Inl ValueError
      else if rp_estimated_output_tokens p < 0 then Inl ValueError
      else case rp_max_request_cost_micro_units p of
        Some c \<Rightarrow> if c < 0 then Inl ValueError else Inr p
      | None \<Rightarrow> Inr p)"

section \<open>Invariant of the registry\<close>

text \<open>Every descriptor is stored once, under its own key.\<close>

definition registry_ok :: "provider_registry \<Rightarrow> bool" where
  [inv_simps]: "registry_ok reg \<longleftrightarrow>
     distinct (dkeys reg) \<and> (\<forall>k d. dget reg k = Some d \<longrightarrow> descriptor_key d = k)"

lemma register_provider_ok:
  "registry_ok reg \<Longrightarrow> register_provider reg d = Inr reg' \<Longrightarrow> registry_ok reg'"
  unfolding registry_ok_def register_provider_def
  by (cases "dget reg (descriptor_key d)") (force split: if_splits)+

lemma deregister_provider_ok: "registry_ok reg \<Longrightarrow> registry_ok (deregister_provider reg p m)"
  unfolding registry_ok_def deregister_provider_def
  by (simp add: distinct_delete delete_conv')

lemma register_provider_get:
  assumes "register_provider reg d = Inr reg'"
  shows "get_provider reg' p m =
    (if (p, m) = descriptor_key d then Some d else get_provider reg p m)"
  using assms by (auto simp: register_provider_def get_provider_def split: option.splits if_splits)

lemma set_list_all_providers:
  assumes "registry_ok reg"
  shows "set (list_all_providers reg) = {d. get_provider reg (pd_provider_id d) (pd_model_id d) = Some d}"
proof
  show "set (list_all_providers reg) \<subseteq> {d. get_provider reg (pd_provider_id d) (pd_model_id d) = Some d}"
  proof
    fix d assume "d \<in> set (list_all_providers reg)"
    then obtain k where k: "k \<in> set (dkeys reg)" "d = the (dget reg k)"
      by (auto simp: list_all_providers_def)
    then obtain e where "dget reg k = Some e" by (cases "dget reg k") (auto simp: dget_None_iff)
    with k assms show "d \<in> {d. get_provider reg (pd_provider_id d) (pd_model_id d) = Some d}"
      by (auto simp: registry_ok_def get_provider_def descriptor_key_def)
  qed
  show "{d. get_provider reg (pd_provider_id d) (pd_model_id d) = Some d} \<subseteq> set (list_all_providers reg)"
  proof
    fix d assume "d \<in> {d. get_provider reg (pd_provider_id d) (pd_model_id d) = Some d}"
    then have g: "dget reg (pd_provider_id d, pd_model_id d) = Some d" by (simp add: get_provider_def)
    then have "(pd_provider_id d, pd_model_id d) \<in> set (dkeys reg)" by (rule dget_Some_in)
    then have "the (dget reg (pd_provider_id d, pd_model_id d)) \<in> set (list_all_providers reg)"
      unfolding list_all_providers_def set_map set_sort by (rule imageI)
    with g show "d \<in> set (list_all_providers reg)" by simp
  qed
qed

lemma cost_nonneg: "estimate_cost_micro_units d i n = Inr c \<Longrightarrow> 0 \<le> c"
  by (auto simp: estimate_cost_micro_units_def split: if_splits)

end
