(* ===== verification/FailureRetry.thy ===== *)
theory FailureRetry
  imports Complex_Main AiProvider
begin

text \<open>
  Failure classification (\<^verbatim>\<open>ai/failure_classifier.py\<close>) and the bounded retry policy with its
  backoff (\<^verbatim>\<open>ai/retry.py\<close>). Durations are real numbers, floating-point rounding is left out;
  the random source is the number it returns.
\<close>

section \<open>Classification\<close>

record failure_classification =
  fc_error_class :: string
  fc_retryable :: bool
  fc_provider_failure :: bool
  fc_client_failure :: bool
  fc_throttled :: bool

text \<open>The classes of exceptions the classifier tells apart; a timeout is also an OSError.\<close>

datatype exception_kind = TimeoutErr | ConnectionOrOSErr | OtherErr

definition is_timeout_exc :: "exception_kind option \<Rightarrow> bool" where
  "is_timeout_exc e = (e = Some TimeoutErr)"

definition is_os_exc :: "exception_kind option \<Rightarrow> bool" where
  "is_os_exc e = (e = Some ConnectionOrOSErr \<or> e = Some TimeoutErr)"

definition classification :: "string \<Rightarrow> bool \<Rightarrow> bool \<Rightarrow> bool \<Rightarrow> bool \<Rightarrow> failure_classification" where
  "classification c r p cl t =
     \<lparr> fc_error_class = c, fc_retryable = r, fc_provider_failure = p, fc_client_failure = cl,
       fc_throttled = t \<rparr>"

definition classify ::
  "int option \<Rightarrow> exception_kind option \<Rightarrow> string option \<Rightarrow> bool \<Rightarrow> failure_classification" where
  "classify status_code exception hint malformed =
     (if malformed \<or> hint = Some ''INVALID_RESPONSE''
      then classification ''INVALID_RESPONSE'' False False False False
      else if hint = Some ''TIMEOUT'' \<or> is_timeout_exc exception
      then classification ''TIMEOUT'' True True False False
      else if is_os_exc exception \<or> hint = Some ''NETWORK_ERROR''
      then classification ''NETWORK_ERROR'' True True False False
      else if status_code \<in> {Some 500, Some 502, Some 503, Some 504} \<or>
              hint = Some ''PROVIDER_UNAVAILABLE''
      then classification ''PROVIDER_UNAVAILABLE'' True True False False
      else if status_code = Some 429 \<or> hint \<in> {Some ''PROVIDER_THROTTLED'', Some ''RATE_LIMIT''}
      then classification ''PROVIDER_THROTTLED'' True True False True
      else if status_code \<in> {Some 400, Some 404, Some 422}
      then classification ''INVALID_REQUEST'' False False True False
      else if status_code \<in> {Some 401, Some 403}
      then classification ''AUTHENTICATION_FAILED'' False False True False
      else case hint of
        Some h \<Rightarrow>
          if h = ''AUTHENTICATION_FAILED'' \<or> h = ''INVALID_REQUEST''
          then classification h False False True False
          else classification ''UNKNOWN_PROVIDER_ERROR'' False False False False
      | None \<Rightarrow> classification ''UNKNOWN_PROVIDER_ERROR'' False False False False)"

lemma classification_simps [simp]:
  "fc_error_class (classification c r p cl t) = c"
  "fc_retryable (classification c r p cl t) = r"
  "fc_provider_failure (classification c r p cl t) = p"
  "fc_client_failure (classification c r p cl t) = cl"
  "fc_throttled (classification c r p cl t) = t"
  by (simp_all add: classification_def)

text \<open>
  The classifier's results: bounded names, retryable exactly when the provider failed, never
  both sides at fault, and throttling only as a provider failure.
\<close>

definition classification_ok :: "failure_classification \<Rightarrow> bool" where
  [inv_simps]: "classification_ok c \<longleftrightarrow>
     fc_error_class c \<in> set known_error_classes \<and>
     (fc_retryable c \<longleftrightarrow> fc_provider_failure c) \<and>
     \<not> (fc_provider_failure c \<and> fc_client_failure c) \<and>
     (fc_throttled c \<longrightarrow> fc_provider_failure c)"

lemma classify_ok: "classification_ok (classify s e h m)"
  unfolding classify_def classification_ok_def known_error_classes_def
  by (simp split: option.split)

text \<open>
  A 4xx answer other than 429, with no other evidence, is never charged to the provider.
\<close>

lemma classify_4xx:
  assumes "s \<in> {400, 401, 403, 404, 422}"
  shows "fc_client_failure (classify (Some s) None None False)"
    "\<not> fc_provider_failure (classify (Some s) None None False)"
  using assms by (auto simp: classify_def is_timeout_exc_def is_os_exc_def)

section \<open>Backoff\<close>

definition calculate_delay :: "int \<Rightarrow> real \<Rightarrow> real \<Rightarrow> real \<Rightarrow> ai_error + real" where
  "calculate_delay attempt_number base max_backoff rng =
     (if attempt_number \<le> 0 then Inl ValueError
      else if base \<le> 0 then Inl ValueError
      else if max_backoff < base then Inl ValueError
      else
        let exponent = nat (min (attempt_number - 1) 30);
            exponential_cap = min max_backoff (base * 2 ^ exponent);
            jitter_factor = max 0 (min 1 rng);
            delay = jitter_factor * exponential_cap
        in Inr (max 0 (min max_backoff delay)))"

lemma delay_le_cap:
  assumes "calculate_delay a base mx rng = Inr d"
  shows "0 \<le> d" "d \<le> mx" "d \<le> base * 2 ^ nat (min (a - 1) 30)"
proof -
  have pos: "0 < a" "0 < base" "base \<le> mx" using assms by (auto simp: calculate_delay_def split: if_splits)
  define cap where "cap = min mx (base * 2 ^ nat (min (a - 1) 30))"
  define j where "j = max 0 (min 1 rng)"
  have d: "d = max 0 (min mx (j * cap))"
  proof -
    have "\<not> a \<le> 0" "\<not> base \<le> 0" "\<not> mx < base" using pos by auto
    with assms show ?thesis
      unfolding calculate_delay_def by (simp only: if_False Let_def sum.inject cap_def j_def)
  qed
  have "0 < cap" using pos by (simp add: cap_def)
  have "j * cap \<le> 1 * cap" by (rule mult_right_mono) (use \<open>0 < cap\<close> in \<open>auto simp: j_def\<close>)
  then have "j * cap \<le> cap" by simp
  with \<open>0 < cap\<close> have le: "d \<le> cap" unfolding d by linarith
  show "0 \<le> d" unfolding d by simp
  show "d \<le> mx" "d \<le> base * 2 ^ nat (min (a - 1) 30)" using le by (auto simp: cap_def)
qed

lemma delay_total:
  "0 < a \<Longrightarrow> 0 < base \<Longrightarrow> base \<le> mx \<Longrightarrow> \<exists>d. calculate_delay a base mx rng = Inr d"
  by (simp add: calculate_delay_def Let_def)

section \<open>Retry policy\<close>

record retry_policy =
  rt_max_attempts :: int
  rt_base_backoff_seconds :: real
  rt_max_backoff_seconds :: real

definition make_retry_policy :: "retry_policy \<Rightarrow> ai_error + retry_policy" where
  "make_retry_policy p =
     (if rt_max_attempts p < 1 then Inl ValueError
      else if rt_base_backoff_seconds p \<le> 0 then Inl ValueError
      else if rt_max_backoff_seconds p < rt_base_backoff_seconds p then Inl ValueError
      else Inr p)"

record retry_decision =
  rd_should_retry :: bool
  rd_attempt_number :: int
  rd_max_attempts :: int
  rd_backoff_seconds :: real
  rd_reason :: string

definition retry_evaluate ::
  "retry_policy \<Rightarrow> real \<Rightarrow> int \<Rightarrow> failure_classification \<Rightarrow> ai_error + retry_decision" where
  "retry_evaluate p rng attempt_number c =
     (if rt_max_attempts p \<le> attempt_number then
        Inr \<lparr> rd_should_retry = False, rd_attempt_number = attempt_number,
             rd_max_attempts = rt_max_attempts p, rd_backoff_seconds = 0,
             rd_reason = ''EXHAUSTED_MAX_ATTEMPTS'' \<rparr>
      else if \<not> fc_retryable c \<or> \<not> fc_provider_failure c then
        Inr \<lparr> rd_should_retry = False, rd_attempt_number = attempt_number,
             rd_max_attempts = rt_max_attempts p, rd_backoff_seconds = 0,
             rd_reason = ''NON_RETRYABLE_FAILURE_'' @ fc_error_class c \<rparr>
      else
        rbind (calculate_delay attempt_number (rt_base_backoff_seconds p)
                 (rt_max_backoff_seconds p) rng) (\<lambda>backoff.
          Inr \<lparr> rd_should_retry = True, rd_attempt_number = attempt_number + 1,
               rd_max_attempts = rt_max_attempts p, rd_backoff_seconds = backoff,
               rd_reason = ''ELIGIBLE_RETRY'' \<rparr>))"

lemma retry_evaluate_retry:
  assumes "retry_evaluate p rng a c = Inr d" "rd_should_retry d"
  shows "a < rt_max_attempts p" "fc_retryable c" "fc_provider_failure c"
    "rd_attempt_number d = a + 1" "0 \<le> rd_backoff_seconds d"
    "rd_backoff_seconds d \<le> rt_max_backoff_seconds p"
  using assms by (auto simp: retry_evaluate_def delay_le_cap split: if_splits)

lemma retry_evaluate_total:
  assumes "make_retry_policy p = Inr p" "0 < a"
  shows "\<exists>d. retry_evaluate p rng a c = Inr d"
  using assms delay_total [of a "rt_base_backoff_seconds p" "rt_max_backoff_seconds p" rng]
  by (auto simp: retry_evaluate_def make_retry_policy_def split: if_splits)

section \<open>Properties\<close>

text \<open>
  Whatever the outcome of an attempt, the policy retries only
  while attempts are left and only failures classified as the provider's and not the client's,
  and the delay it asks for is between zero and the maximum backoff.
\<close>

theorem retry_only_transient_bounded:
  assumes "retry_evaluate p rng a (classify status exc hint malformed) = Inr d" "rd_should_retry d"
  shows "a < rt_max_attempts p \<and> rd_attempt_number d = a + 1 \<and>
    fc_provider_failure (classify status exc hint malformed) \<and>
    \<not> fc_client_failure (classify status exc hint malformed) \<and>
    0 \<le> rd_backoff_seconds d \<and> rd_backoff_seconds d \<le> rt_max_backoff_seconds p"
  using retry_evaluate_retry [OF assms] classify_ok [of status exc hint malformed]
  by (simp add: classification_ok_def)

theorem retry_only_transient_bounded_witness:
  "\<exists>d. retry_evaluate \<lparr> rt_max_attempts = 3, rt_base_backoff_seconds = 1, rt_max_backoff_seconds = 10 \<rparr>
       (1 / 2) 2 (classify (Some 503) None None False) = Inr d \<and>
     0 \<le> rd_backoff_seconds d \<and> rd_backoff_seconds d \<le> 10"
proof -
  let ?p = "\<lparr> rt_max_attempts = 3, rt_base_backoff_seconds = 1, rt_max_backoff_seconds = 10 \<rparr>"
  have "\<exists>d. retry_evaluate ?p (1 / 2) 2 (classify (Some 503) None None False) = Inr d \<and> rd_should_retry d"
    by (simp add: retry_evaluate_def classify_def is_timeout_exc_def is_os_exc_def calculate_delay_def Let_def)
  then obtain d where "retry_evaluate ?p (1 / 2) 2 (classify (Some 503) None None False) = Inr d"
    "rd_should_retry d" by blast
  from retry_only_transient_bounded [OF this] this(1) show ?thesis by auto
qed

end
