(* ===== verification/CircuitBreaker.thy ===== *)
theory CircuitBreaker
  imports FailureRetry
begin

text \<open>
  The provider circuit breaker of \<^verbatim>\<open>ai/circuit_breaker.py\<close> and its persistent copy of
  \<^verbatim>\<open>ai/circuit_repository.py\<close>. A breaker is a dictionary of circuits, one per provider and
  model, created closed at first use; every operation reads the clock once, here its argument
  \<open>now\<close>. Times are real numbers. The operations hold the breaker's lock throughout, so a
  concurrent history is a sequence of them.
\<close>

datatype circuit_state = CLOSED | OPEN | HALF_OPEN

record circuit =
  ci_provider_id :: string
  ci_model_id :: string
  ci_state :: circuit_state
  ci_failures :: "bool list"
  ci_opened_at :: "real option"
  ci_cooldown_until :: "real option"
  ci_cooldown_reason :: "string option"
  ci_probe_generation :: int
  ci_active_probes :: int

record breaker_config =
  bc_failure_window_size :: int
  bc_failure_threshold :: real
  bc_min_samples :: int
  bc_cooldown_seconds :: real
  bc_half_open_max_probes :: int

definition make_breaker_config :: "breaker_config \<Rightarrow> ai_error + breaker_config" where
  "make_breaker_config c =
     (if bc_failure_window_size c < 1 then Inl ValueError
      else if \<not> (0 < bc_failure_threshold c \<and> bc_failure_threshold c \<le> 1) then Inl ValueError
      else if bc_min_samples c < 1 then Inl ValueError
      else if bc_cooldown_seconds c \<le> 0 then Inl ValueError
      else if bc_half_open_max_probes c < 1 then Inl ValueError
      else Inr c)"

definition new_circuit :: "string \<Rightarrow> string \<Rightarrow> circuit" where
  "new_circuit p m =
     \<lparr> ci_provider_id = p, ci_model_id = m, ci_state = CLOSED, ci_failures = [],
       ci_opened_at = None, ci_cooldown_until = None, ci_cooldown_reason = None,
       ci_probe_generation = 0, ci_active_probes = 0 \<rparr>"

section \<open>Operations on one circuit\<close>

definition cooldown_elapsed :: "breaker_config \<Rightarrow> real \<Rightarrow> circuit \<Rightarrow> bool" where
  "cooldown_elapsed cfg now st =
     (case ci_opened_at st of None \<Rightarrow> False | Some t \<Rightarrow> bc_cooldown_seconds cfg \<le> now - t)"

text \<open>The transition out of OPEN once the cooldown has elapsed, repeated in every operation.\<close>

definition half_open_if_due :: "breaker_config \<Rightarrow> real \<Rightarrow> circuit \<Rightarrow> circuit" where
  "half_open_if_due cfg now st =
     (if ci_state st = OPEN \<and> cooldown_elapsed cfg now st
      then st\<lparr> ci_state := HALF_OPEN, ci_active_probes := 0 \<rparr> else st)"

definition circuit_get_state :: "breaker_config \<Rightarrow> real \<Rightarrow> circuit \<Rightarrow> circuit \<times> circuit_state" where
  "circuit_get_state cfg now st =
     (let st = half_open_if_due cfg now st in (st, ci_state st))"

definition circuit_is_open :: "breaker_config \<Rightarrow> real \<Rightarrow> circuit \<Rightarrow> circuit \<times> bool" where
  "circuit_is_open cfg now st =
     (if (case ci_cooldown_until st of None \<Rightarrow> False | Some u \<Rightarrow> now < u) then (st, True)
      else
        let st = st\<lparr> ci_cooldown_until := None,
                     ci_cooldown_reason := (if ci_cooldown_until st = None
                                            then ci_cooldown_reason st else None) \<rparr>
        in if ci_state st = CLOSED then (st, False)
           else if ci_state st = OPEN \<and> \<not> cooldown_elapsed cfg now st then (st, True)
           else
             let st = half_open_if_due cfg now st
             in if ci_active_probes st < bc_half_open_max_probes cfg
                then (st\<lparr> ci_active_probes := ci_active_probes st + 1 \<rparr>, False)
                else (st, True))"

definition circuit_record_throttling :: "real \<Rightarrow> real \<Rightarrow> string \<Rightarrow> circuit \<Rightarrow> circuit" where
  "circuit_record_throttling now cooldown_seconds reason st =
     st\<lparr> ci_cooldown_until := Some (now + cooldown_seconds), ci_cooldown_reason := Some reason \<rparr>"

text \<open>Appending to the sliding window.\<close>

definition push_outcome :: "breaker_config \<Rightarrow> bool \<Rightarrow> bool list \<Rightarrow> bool list" where
  "push_outcome cfg f fs =
     (let fs = fs @ [f] in if bc_failure_window_size cfg < int (length fs) then tl fs else fs)"

definition circuit_record_success :: "breaker_config \<Rightarrow> real \<Rightarrow> circuit \<Rightarrow> circuit" where
  "circuit_record_success cfg now st =
     (let st = half_open_if_due cfg now st
      in if ci_state st = HALF_OPEN then
           st\<lparr> ci_state := CLOSED, ci_failures := [], ci_active_probes := 0, ci_opened_at := None \<rparr>
         else if ci_state st = CLOSED then
           st\<lparr> ci_failures := push_outcome cfg False (ci_failures st) \<rparr>
         else st)"

definition failure_rate :: "bool list \<Rightarrow> real" where
  "failure_rate fs = real (length (filter id fs)) / real (length fs)"

definition trips :: "breaker_config \<Rightarrow> bool list \<Rightarrow> bool" where
  "trips cfg fs \<longleftrightarrow>
     bc_min_samples cfg \<le> int (length fs) \<and> bc_failure_threshold cfg \<le> failure_rate fs"

definition circuit_record_failure ::
  "breaker_config \<Rightarrow> real \<Rightarrow> failure_classification \<Rightarrow> circuit \<Rightarrow> circuit" where
  "circuit_record_failure cfg now c st =
     (if \<not> fc_provider_failure c then st
      else
        let st = (if fc_throttled c
                  then st\<lparr> ci_cooldown_until := Some (now + bc_cooldown_seconds cfg),
                           ci_cooldown_reason := Some (fc_error_class c) \<rparr> else st);
            st = half_open_if_due cfg now st
        in if ci_state st = HALF_OPEN then
             st\<lparr> ci_state := OPEN, ci_opened_at := Some now, ci_active_probes := 0 \<rparr>
           else if ci_state st = CLOSED then
             (let st = st\<lparr> ci_failures := push_outcome cfg True (ci_failures st) \<rparr>
              in if trips cfg (ci_failures st)
                 then st\<lparr> ci_state := OPEN, ci_opened_at := Some now, ci_active_probes := 0 \<rparr>
                 else st)
           else st)"

section \<open>The breaker\<close>

type_synonym breaker = "(provider_key, circuit) dict"

definition get_or_create_state :: "breaker \<Rightarrow> string \<Rightarrow> string \<Rightarrow> circuit" where
  "get_or_create_state b p m = dget_default b (p, m) (new_circuit p m)"

definition breaker_get_state ::
  "breaker_config \<Rightarrow> real \<Rightarrow> breaker \<Rightarrow> string \<Rightarrow> string \<Rightarrow> breaker \<times> circuit_state" where
  "breaker_get_state cfg now b p m =
     (let (st, s) = circuit_get_state cfg now (get_or_create_state b p m) in (dset b (p, m) st, s))"

definition is_open ::
  "breaker_config \<Rightarrow> real \<Rightarrow> breaker \<Rightarrow> string \<Rightarrow> string \<Rightarrow> breaker \<times> bool" where
  "is_open cfg now b p m =
     (let (st, r) = circuit_is_open cfg now (get_or_create_state b p m) in (dset b (p, m) st, r))"

definition record_throttling ::
  "real \<Rightarrow> real \<Rightarrow> string \<Rightarrow> breaker \<Rightarrow> string \<Rightarrow> string \<Rightarrow> breaker" where
  "record_throttling now cooldown_seconds reason b p m =
     dset b (p, m) (circuit_record_throttling now cooldown_seconds reason (get_or_create_state b p m))"

definition record_success :: "breaker_config \<Rightarrow> real \<Rightarrow> breaker \<Rightarrow> string \<Rightarrow> string \<Rightarrow> breaker" where
  "record_success cfg now b p m =
     dset b (p, m) (circuit_record_success cfg now (get_or_create_state b p m))"

definition record_failure ::
  "breaker_config \<Rightarrow> real \<Rightarrow> breaker \<Rightarrow> string \<Rightarrow> string \<Rightarrow> failure_classification \<Rightarrow> breaker" where
  "record_failure cfg now b p m c =
     (if \<not> fc_provider_failure c then b
      else dset b (p, m) (circuit_record_failure cfg now c (get_or_create_state b p m)))"

section \<open>Persistence\<close>

text \<open>
  The snapshot of a circuit and the table it is saved in. The failure window is stored as a
  JSON list of booleans, which the repository writes and reads back; the row keeps the list.
\<close>

record circuit_data =
  cd_provider_id :: string
  cd_model_id :: string
  cd_state :: circuit_state
  cd_state_version :: int
  cd_failure_count :: int
  cd_success_count :: int
  cd_failures :: "bool list"
  cd_opened_at :: "real option"
  cd_cooldown_until :: "real option"
  cd_cooldown_reason :: "string option"
  cd_probe_generation :: int

definition data_of_circuit :: "circuit \<Rightarrow> circuit_data" where
  "data_of_circuit st =
     \<lparr> cd_provider_id = ci_provider_id st, cd_model_id = ci_model_id st, cd_state = ci_state st,
       cd_state_version = 1,
       cd_failure_count = int (length (filter id (ci_failures st))),
       cd_success_count = int (length (filter Not (ci_failures st))),
       cd_failures = ci_failures st, cd_opened_at = ci_opened_at st,
       cd_cooldown_until = ci_cooldown_until st, cd_cooldown_reason = ci_cooldown_reason st,
       cd_probe_generation = ci_probe_generation st \<rparr>"

definition export_data :: "breaker \<Rightarrow> string \<Rightarrow> string \<Rightarrow> breaker \<times> circuit_data" where
  "export_data b p m =
     (let st = get_or_create_state b p m in (dset b (p, m) st, data_of_circuit st))"

definition restore_from_data :: "breaker \<Rightarrow> circuit_data \<Rightarrow> breaker" where
  "restore_from_data b d =
     (let st = get_or_create_state b (cd_provider_id d) (cd_model_id d)
      in dset b (cd_provider_id d, cd_model_id d)
           (st\<lparr> ci_state := cd_state d, ci_failures := cd_failures d, ci_opened_at := cd_opened_at d,
                ci_cooldown_until := cd_cooldown_until d, ci_cooldown_reason := cd_cooldown_reason d,
                ci_probe_generation := cd_probe_generation d, ci_active_probes := 0 \<rparr>))"

type_synonym circuit_table = "(provider_key, circuit_data) dict"

definition load_circuit :: "circuit_table \<Rightarrow> string \<Rightarrow> string \<Rightarrow> circuit_data option" where
  "load_circuit t p m = dget t (p, m)"

definition save_circuit :: "circuit_table \<Rightarrow> circuit_data \<Rightarrow> int option \<Rightarrow> ai_error + circuit_table" where
  "save_circuit t d expected_version =
     (let key = (cd_provider_id d, cd_model_id d) in
      case dget t key of
        None \<Rightarrow> Inr (dset t key (d\<lparr> cd_state_version := 1 \<rparr>))
      | Some row \<Rightarrow>
          if expected_version \<noteq> None \<and> expected_version \<noteq> Some (cd_state_version row)
          then Inl CircuitStateConflictError
          else Inr (dset t key (d\<lparr> cd_state_version := cd_state_version row + 1 \<rparr>)))"

definition list_all_circuits :: "circuit_table \<Rightarrow> circuit_data list" where
  "list_all_circuits t = map snd t"

definition restore_circuit_states :: "circuit_table \<Rightarrow> breaker \<Rightarrow> breaker" where
  "restore_circuit_states t b = foldl restore_from_data b (list_all_circuits t)"

section \<open>Invariant\<close>

text \<open>
  The window is bounded, an open circuit knows since when, and the number of admitted probes
  stays within its limit.
\<close>

definition config_ok :: "breaker_config \<Rightarrow> bool" where
  "config_ok cfg \<longleftrightarrow> make_breaker_config cfg = Inr cfg"

lemma config_ok_iff:
  "config_ok cfg \<longleftrightarrow>
     1 \<le> bc_failure_window_size cfg \<and> 0 < bc_failure_threshold cfg \<and> bc_failure_threshold cfg \<le> 1 \<and>
     1 \<le> bc_min_samples cfg \<and> 0 < bc_cooldown_seconds cfg \<and> 1 \<le> bc_half_open_max_probes cfg"
  by (auto simp: config_ok_def make_breaker_config_def)

definition circuit_ok :: "breaker_config \<Rightarrow> circuit \<Rightarrow> bool" where
  [inv_simps]: "circuit_ok cfg st \<longleftrightarrow>
     int (length (ci_failures st)) \<le> bc_failure_window_size cfg \<and>
     (ci_state st = OPEN \<longrightarrow> ci_opened_at st \<noteq> None) \<and>
     0 \<le> ci_active_probes st \<and> ci_active_probes st \<le> bc_half_open_max_probes cfg"

lemma push_outcome_length:
  "int (length fs) \<le> bc_failure_window_size cfg \<Longrightarrow>
     int (length (push_outcome cfg f fs)) \<le> bc_failure_window_size cfg"
  by (simp add: push_outcome_def Let_def)

lemma new_circuit_ok: "config_ok cfg \<Longrightarrow> circuit_ok cfg (new_circuit p m)"
  by (simp add: config_ok_iff circuit_ok_def new_circuit_def)

lemma half_open_if_due_ok: "config_ok cfg \<Longrightarrow> circuit_ok cfg st \<Longrightarrow> circuit_ok cfg (half_open_if_due cfg now st)"
  by (simp add: config_ok_iff circuit_ok_def half_open_if_due_def)

lemma circuit_get_state_ok:
  "config_ok cfg \<Longrightarrow> circuit_ok cfg st \<Longrightarrow> circuit_ok cfg (fst (circuit_get_state cfg now st))"
  by (simp add: circuit_get_state_def half_open_if_due_ok Let_def)

lemma circuit_is_open_ok:
  "config_ok cfg \<Longrightarrow> circuit_ok cfg st \<Longrightarrow> circuit_ok cfg (fst (circuit_is_open cfg now st))"
  by (auto simp: circuit_is_open_def half_open_if_due_def circuit_ok_def config_ok_iff Let_def
      split: option.splits)

lemma circuit_record_throttling_ok:
  "circuit_ok cfg st \<Longrightarrow> circuit_ok cfg (circuit_record_throttling now s r st)"
  by (simp add: circuit_ok_def circuit_record_throttling_def)

lemma circuit_record_success_ok:
  "config_ok cfg \<Longrightarrow> circuit_ok cfg st \<Longrightarrow> circuit_ok cfg (circuit_record_success cfg now st)"
  using half_open_if_due_ok [of cfg st now]
  by (auto simp: circuit_record_success_def circuit_ok_def config_ok_iff push_outcome_length Let_def)

lemma circuit_record_failure_ok:
  assumes "config_ok cfg" "circuit_ok cfg st"
  shows "circuit_ok cfg (circuit_record_failure cfg now c st)"
proof -
  define s1 where "s1 = (if fc_throttled c
    then st\<lparr> ci_cooldown_until := Some (now + bc_cooldown_seconds cfg),
             ci_cooldown_reason := Some (fc_error_class c) \<rparr> else st)"
  have "circuit_ok cfg s1" using assms(2) by (simp add: s1_def circuit_ok_def)
  then have ok: "circuit_ok cfg (half_open_if_due cfg now s1)" by (rule half_open_if_due_ok [OF assms(1)])
  show ?thesis
    unfolding circuit_record_failure_def s1_def [symmetric]
    using assms ok by (auto simp: circuit_ok_def config_ok_iff push_outcome_length Let_def)
qed

section \<open>The automaton a circuit follows\<close>

text \<open>One operation on a circuit, and the moves of the three-state automaton.\<close>

datatype circuit_op =
    OpGetState | OpIsOpen | OpThrottle real string | OpSuccess | OpFailure failure_classification

fun circuit_apply :: "breaker_config \<Rightarrow> real \<Rightarrow> circuit_op \<Rightarrow> circuit \<Rightarrow> circuit" where
  "circuit_apply cfg now OpGetState st = fst (circuit_get_state cfg now st)"
| "circuit_apply cfg now OpIsOpen st = fst (circuit_is_open cfg now st)"
| "circuit_apply cfg now (OpThrottle s r) st = circuit_record_throttling now s r st"
| "circuit_apply cfg now OpSuccess st = circuit_record_success cfg now st"
| "circuit_apply cfg now (OpFailure c) st = circuit_record_failure cfg now c st"

lemma circuit_apply_ok:
  "config_ok cfg \<Longrightarrow> circuit_ok cfg st \<Longrightarrow> circuit_ok cfg (circuit_apply cfg now op st)"
  by (cases op) (simp_all add: circuit_get_state_ok circuit_is_open_ok circuit_record_throttling_ok
      circuit_record_success_ok circuit_record_failure_ok)

text \<open>
  The moves are labelled with the time: leaving OPEN needs the cooldown since the circuit
  opened; a success closes, a failure re-opens a half-open circuit, also in the same operation
  that first lets it become half open.
\<close>

inductive circuit_move ::
  "breaker_config \<Rightarrow> real \<Rightarrow> circuit_state \<times> real option \<Rightarrow> circuit_state \<times> real option \<Rightarrow> bool"
  for cfg :: breaker_config and now :: real where
  stay: "circuit_move cfg now a a"
| trip: "circuit_move cfg now (CLOSED, u) (OPEN, Some now)"
| due: "u = Some t \<Longrightarrow> bc_cooldown_seconds cfg \<le> now - t \<Longrightarrow> circuit_move cfg now (OPEN, u) (HALF_OPEN, u)"
| close: "circuit_move cfg now (HALF_OPEN, u) (CLOSED, None)"
| reopen: "circuit_move cfg now (HALF_OPEN, u) (OPEN, Some now)"

inductive_cases circuit_moveE: "circuit_move cfg now a b"

definition control :: "circuit \<Rightarrow> circuit_state \<times> real option" where
  "control st = (ci_state st, ci_opened_at st)"


lemma control_updates [simp]:
  "control (st\<lparr> ci_failures := fs \<rparr>) = control st"
  "control (st\<lparr> ci_active_probes := n \<rparr>) = control st"
  "control (st\<lparr> ci_cooldown_until := u, ci_cooldown_reason := r \<rparr>) = control st"
  by (simp_all add: control_def)



section \<open>An open circuit blocks\<close>

definition in_cooldown :: "breaker_config \<Rightarrow> real \<Rightarrow> circuit \<Rightarrow> bool" where
  "in_cooldown cfg now st \<longleftrightarrow> ci_state st = OPEN \<and>
     (\<exists>t. ci_opened_at st = Some t \<and> now - t < bc_cooldown_seconds cfg)"

lemma in_cooldown_blocks: "in_cooldown cfg now st \<Longrightarrow> snd (circuit_is_open cfg now st)"
  by (auto simp: in_cooldown_def circuit_is_open_def cooldown_elapsed_def Let_def)

lemma in_cooldown_stable:
  assumes "in_cooldown cfg now st"
  shows "control (circuit_apply cfg now op st) = control st"
  using assms
  by (cases op) (auto simp: in_cooldown_def control_def circuit_get_state_def circuit_is_open_def
      circuit_record_throttling_def circuit_record_success_def circuit_record_failure_def
      half_open_if_due_def cooldown_elapsed_def Let_def)

text \<open>A sequence of timed operations.\<close>

fun circuit_run :: "breaker_config \<Rightarrow> (real \<times> circuit_op) list \<Rightarrow> circuit \<Rightarrow> circuit" where
  "circuit_run cfg [] st = st"
| "circuit_run cfg ((now, op) # ops) st = circuit_run cfg ops (circuit_apply cfg now op st)"

lemma circuit_run_ok: "config_ok cfg \<Longrightarrow> circuit_ok cfg st \<Longrightarrow> circuit_ok cfg (circuit_run cfg ops st)"
  by (induction cfg ops st rule: circuit_run.induct) (auto simp: circuit_apply_ok)

lemma open_until:
  assumes "ci_state st = OPEN" "ci_opened_at st = Some t"
    and "\<forall>(now, op) \<in> set ops. now < t + bc_cooldown_seconds cfg"
  shows "control (circuit_run cfg ops st) = control st"
  using assms
proof (induction cfg ops st rule: circuit_run.induct)
  case (2 cfg now op ops st)
  have "in_cooldown cfg now st" using 2(2-4) by (auto simp: in_cooldown_def)
  then have same: "control (circuit_apply cfg now op st) = control st" by (rule in_cooldown_stable)
  then have "ci_state (circuit_apply cfg now op st) = OPEN"
    "ci_opened_at (circuit_apply cfg now op st) = Some t"
    using 2(2,3) by (auto simp: control_def)
  with 2(1,4) same show ?case by auto
qed simp

section \<open>Probes\<close>

text \<open>The number of calls a sequence of checks lets through.\<close>

fun admitted :: "breaker_config \<Rightarrow> real list \<Rightarrow> circuit \<Rightarrow> int" where
  "admitted cfg [] st = 0"
| "admitted cfg (now # nows) st =
     (let (st', blocked) = circuit_is_open cfg now st
      in (if blocked then 0 else 1) + admitted cfg nows st')"

definition spare_probes :: "breaker_config \<Rightarrow> circuit \<Rightarrow> int" where
  "spare_probes cfg st =
     bc_half_open_max_probes cfg - (if ci_state st = HALF_OPEN then ci_active_probes st else 0)"

lemma is_open_spare:
  assumes "config_ok cfg" "circuit_ok cfg st" "ci_state st \<noteq> CLOSED"
    and "circuit_is_open cfg now st = (st', blocked)"
  shows "ci_state st' \<noteq> CLOSED \<and> (if blocked then 0 else 1) + spare_probes cfg st' \<le> spare_probes cfg st"
  using assms
  by (cases "ci_state st"; cases "ci_cooldown_until st")
    (auto simp: circuit_is_open_def half_open_if_due_def spare_probes_def circuit_ok_def
      config_ok_iff Let_def split: if_splits)

lemma admitted_le:
  "config_ok cfg \<Longrightarrow> circuit_ok cfg st \<Longrightarrow> ci_state st \<noteq> CLOSED \<Longrightarrow>
     admitted cfg nows st \<le> spare_probes cfg st"
proof (induction cfg nows st rule: admitted.induct)
  case (1 cfg st)
  then show ?case by (auto simp: spare_probes_def circuit_ok_def config_ok_iff)
next
  case (2 cfg now nows st)
  obtain st' blocked where r: "circuit_is_open cfg now st = (st', blocked)" by fastforce
  have ok: "circuit_ok cfg st'" using circuit_is_open_ok [OF 2(2,3), of now] r by simp
  note sp = is_open_spare [OF 2(2,3,4) r]
  then have "admitted cfg nows st' \<le> spare_probes cfg st'"
    using 2(1) [OF r [symmetric] refl 2(2) ok] by simp
  with sp r show ?case by simp
qed

text \<open>
  A half-open circuit whose probes are all taken stays blocked until an outcome is recorded;
  an attempt that ends in a client error records none.
\<close>

definition exhausted :: "breaker_config \<Rightarrow> circuit \<Rightarrow> bool" where
  "exhausted cfg st \<longleftrightarrow> ci_state st = HALF_OPEN \<and> bc_half_open_max_probes cfg \<le> ci_active_probes st"

fun silent_op :: "circuit_op \<Rightarrow> bool" where
  "silent_op OpSuccess = False"
| "silent_op (OpFailure c) = (\<not> fc_provider_failure c)"
| "silent_op _ = True"

lemma exhausted_blocks: "exhausted cfg st \<Longrightarrow> snd (circuit_is_open cfg now st)"
  by (auto simp: exhausted_def circuit_is_open_def half_open_if_due_def Let_def)

lemma exhausted_stable: "exhausted cfg st \<Longrightarrow> silent_op op \<Longrightarrow> exhausted cfg (circuit_apply cfg now op st)"
  by (cases op) (auto simp: exhausted_def circuit_get_state_def circuit_is_open_def
      circuit_record_throttling_def circuit_record_failure_def half_open_if_due_def Let_def)

lemma exhausted_run:
  "exhausted cfg st \<Longrightarrow> \<forall>(now, op) \<in> set ops. silent_op op \<Longrightarrow> exhausted cfg (circuit_run cfg ops st)"
  by (induction cfg ops st rule: circuit_run.induct) (auto simp: exhausted_stable)

section \<open>Tripping\<close>

lemma closed_failure:
  assumes "ci_state st = CLOSED" "fc_provider_failure c"
  shows "ci_state (circuit_record_failure cfg now c st) =
      (if trips cfg (push_outcome cfg True (ci_failures st)) then OPEN else CLOSED)"
  using assms by (auto simp: circuit_record_failure_def half_open_if_due_def Let_def)

text \<open>With fewer recorded outcomes than the minimum a closed circuit never trips.\<close>

lemma few_samples_closed:
  assumes "ci_state st = CLOSED" "int (length (ci_failures st)) + 1 < bc_min_samples cfg"
  shows "ci_state (circuit_record_failure cfg now c st) = CLOSED"
proof (cases "fc_provider_failure c")
  case True
  have "int (length (push_outcome cfg True (ci_failures st))) \<le> int (length (ci_failures st)) + 1"
    by (simp add: push_outcome_def Let_def)
  with assms True show ?thesis by (simp add: closed_failure trips_def)
qed (simp add: circuit_record_failure_def assms)

section \<open>The persistent copy\<close>

definition breaker_ok :: "breaker_config \<Rightarrow> breaker \<Rightarrow> bool" where
  [inv_simps]: "breaker_ok cfg b \<longleftrightarrow>
     (\<forall>p m st. dget b (p, m) = Some st \<longrightarrow>
        circuit_ok cfg st \<and> ci_provider_id st = p \<and> ci_model_id st = m)"

lemma get_or_create_ok:
  "config_ok cfg \<Longrightarrow> breaker_ok cfg b \<Longrightarrow>
     circuit_ok cfg (get_or_create_state b p m) \<and>
     ci_provider_id (get_or_create_state b p m) = p \<and> ci_model_id (get_or_create_state b p m) = m"
  by (auto simp: get_or_create_state_def dget_default_def breaker_ok_def new_circuit_ok
      split: option.splits) (simp_all add: new_circuit_def)

text \<open>
  Saving a circuit and restoring every saved circuit into a fresh breaker gives it back, with
  no probe in flight.
\<close>

lemma restore_get:
  "get_or_create_state (restore_from_data b d) p m =
     (if (p, m) = (cd_provider_id d, cd_model_id d)
      then (get_or_create_state b p m)
        \<lparr> ci_state := cd_state d, ci_failures := cd_failures d, ci_opened_at := cd_opened_at d,
          ci_cooldown_until := cd_cooldown_until d, ci_cooldown_reason := cd_cooldown_reason d,
          ci_probe_generation := cd_probe_generation d, ci_active_probes := 0 \<rparr>
      else get_or_create_state b p m)"
  by (simp add: restore_from_data_def get_or_create_state_def Let_def)

definition table_ok :: "circuit_table \<Rightarrow> bool" where
  [inv_simps]: "table_ok t \<longleftrightarrow> distinct (dkeys t) \<and>
     (\<forall>k d. dget t k = Some d \<longrightarrow> k = (cd_provider_id d, cd_model_id d))"

definition circuit_of_data :: "circuit_data \<Rightarrow> circuit" where
  "circuit_of_data d =
     \<lparr> ci_provider_id = cd_provider_id d, ci_model_id = cd_model_id d, ci_state = cd_state d,
       ci_failures = cd_failures d, ci_opened_at = cd_opened_at d,
       ci_cooldown_until = cd_cooldown_until d, ci_cooldown_reason = cd_cooldown_reason d,
       ci_probe_generation = cd_probe_generation d, ci_active_probes = 0 \<rparr>"

definition named :: "breaker \<Rightarrow> bool" where
  "named b \<longleftrightarrow> (\<forall>p m. ci_provider_id (get_or_create_state b p m) = p \<and>
                  ci_model_id (get_or_create_state b p m) = m)"

lemma restore_named: "named b \<Longrightarrow> named (restore_from_data b d)"
  by (simp add: named_def restore_get)

lemma restore_get_named:
  "named b \<Longrightarrow> get_or_create_state (restore_from_data b d) p m =
     (if (p, m) = (cd_provider_id d, cd_model_id d) then circuit_of_data d
      else get_or_create_state b p m)"
  by (simp add: restore_get named_def circuit_of_data_def)

lemma restore_all:
  "distinct (dkeys t) \<Longrightarrow> (\<forall>(k, d) \<in> set t. k = (cd_provider_id d, cd_model_id d)) \<Longrightarrow> named b \<Longrightarrow>
     get_or_create_state (restore_circuit_states t b) p m =
       (case dget t (p, m) of Some d \<Rightarrow> circuit_of_data d | None \<Rightarrow> get_or_create_state b p m)"
proof (induction t arbitrary: b)
  case Nil
  then show ?case by (simp add: restore_circuit_states_def list_all_circuits_def)
next
  case (Cons e t)
  obtain k d where e: "e = (k, d)" by fastforce
  with Cons.prems have k: "k = (cd_provider_id d, cd_model_id d)" "k \<notin> set (dkeys t)" by auto
  have step: "restore_circuit_states (e # t) b = restore_circuit_states t (restore_from_data b d)"
    by (simp add: restore_circuit_states_def list_all_circuits_def e)
  have "get_or_create_state (restore_circuit_states t (restore_from_data b d)) p m =
      (case dget t (p, m) of Some d \<Rightarrow> circuit_of_data d
       | None \<Rightarrow> get_or_create_state (restore_from_data b d) p m)"
    by (rule Cons.IH) (use Cons.prems in \<open>auto intro: restore_named\<close>)
  moreover have "dget t k = None" using k(2) unfolding dget_None_iff .
  ultimately show ?case
    unfolding step using restore_get_named [OF Cons.prems(3), of d p m] k(1)
    by (auto simp: e split: option.splits)
qed

lemma save_circuit_ok: "table_ok t \<Longrightarrow> save_circuit t d v = Inr t' \<Longrightarrow> table_ok t'"
  by (auto simp: table_ok_def save_circuit_def Let_def distinct_update split: option.splits if_splits)

lemma table_ok_entries: "table_ok t \<Longrightarrow> (k, d) \<in> set t \<Longrightarrow> k = (cd_provider_id d, cd_model_id d)"
  by (cases k) (auto simp: table_ok_def)

lemma save_circuit_get:
  assumes "save_circuit t d v = Inr t'"
  shows "load_circuit t' (cd_provider_id d) (cd_model_id d) =
      Some (d\<lparr> cd_state_version :=
        (case load_circuit t (cd_provider_id d) (cd_model_id d) of
           None \<Rightarrow> 1 | Some row \<Rightarrow> cd_state_version row + 1) \<rparr>)"
  using assms by (auto simp: save_circuit_def load_circuit_def Let_def split: option.splits if_splits)

section \<open>Properties\<close>


text \<open>
  C26: an open circuit refuses every call until its cooldown has elapsed,
  whatever operations (successes and failures of calls already in flight included) happen
  before.
\<close>

theorem open_circuit_blocks:
  assumes "ci_state st = OPEN" "ci_opened_at st = Some t"
    and "\<forall>(tm, op) \<in> set ops. tm < t + bc_cooldown_seconds cfg" "now < t + bc_cooldown_seconds cfg"
  shows "snd (circuit_is_open cfg now (circuit_run cfg ops st))"
proof -
  have "control (circuit_run cfg ops st) = control st" by (rule open_until [OF assms(1-3)])
  then have "in_cooldown cfg now (circuit_run cfg ops st)"
    using assms(1,2,4) by (auto simp: in_cooldown_def control_def)
  then show ?thesis by (rule in_cooldown_blocks)
qed

definition demo_config :: breaker_config where
  "demo_config = \<lparr> bc_failure_window_size = 5, bc_failure_threshold = 1 / 2, bc_min_samples = 2,
     bc_cooldown_seconds = 30, bc_half_open_max_probes = 1 \<rparr>"

lemma demo_config_ok: "config_ok demo_config"
  by (simp add: config_ok_iff demo_config_def)

definition opened_circuit :: circuit where
  "opened_circuit = (new_circuit ''p'' ''m'')\<lparr> ci_state := OPEN, ci_opened_at := Some 100 \<rparr>"

definition half_open_circuit :: circuit where
  "half_open_circuit = (new_circuit ''p'' ''m'')\<lparr> ci_state := HALF_OPEN,
     ci_opened_at := Some 100, ci_active_probes := 1 \<rparr>"

theorem open_circuit_blocks_witness:
  "snd (circuit_is_open demo_config 125
     (circuit_run demo_config [(105, OpSuccess), (110, OpIsOpen)] opened_circuit))"
  by (rule open_circuit_blocks [where t = 100]) (simp_all add: opened_circuit_def demo_config_def)

text \<open>
  A circuit that is not closed admits, over any sequence of checks at any
  times, no more calls than the configured number of half-open probes.
\<close>

theorem probes_bounded:
  assumes "config_ok cfg" "circuit_ok cfg st" "ci_state st \<noteq> CLOSED"
  shows "admitted cfg nows st \<le> bc_half_open_max_probes cfg"
  using admitted_le [OF assms, of nows] assms(2)
  by (auto simp: spare_probes_def circuit_ok_def split: if_splits)

theorem probes_bounded_witness:
  "admitted demo_config [120, 131, 140, 1000] opened_circuit \<le> bc_half_open_max_probes demo_config"
  by (rule probes_bounded [OF demo_config_ok])
    (simp_all add: circuit_ok_def opened_circuit_def new_circuit_def demo_config_def)

text \<open>
  When the probes of a half-open circuit are taken and the
  calls they admitted end without a recorded outcome (the caller never made the call, or it
  ended in a client error), the circuit refuses every later call, at every time: there is no
  way out of this state by waiting.
\<close>

theorem unreported_probes_block_forever:
  assumes "exhausted cfg st" "\<forall>(tm, op) \<in> set ops. silent_op op"
  shows "snd (circuit_is_open cfg now (circuit_run cfg ops st))"
  by (rule exhausted_blocks [OF exhausted_run [OF assms]])

theorem unreported_probes_block_forever_witness:
  "snd (circuit_is_open demo_config 1000000 (circuit_run demo_config
     [(140, OpIsOpen), (150, OpFailure (classify (Some 400) None None False)), (900, OpGetState)]
     half_open_circuit))"
  by (rule unreported_probes_block_forever)
    (simp_all add: exhausted_def half_open_circuit_def demo_config_def classify_4xx)

text \<open>
  A provider failure on a closed circuit opens it exactly when the window that
  includes it has at least the minimum number of samples and a failure rate at the threshold.
\<close>

theorem circuit_trips:
  assumes "config_ok cfg" "ci_state st = CLOSED" "fc_provider_failure c"
  shows "ci_state (circuit_record_failure cfg now c st) = OPEN \<longleftrightarrow>
    (let fs = push_outcome cfg True (ci_failures st)
     in bc_min_samples cfg \<le> int (length fs) \<and>
        bc_failure_threshold cfg * real (length fs) \<le> real (length (filter id fs)))"
proof -
  define fs where "fs = push_outcome cfg True (ci_failures st)"
  have "0 < real (length fs)" if "bc_min_samples cfg \<le> int (length fs)"
    using that assms(1) by (auto simp: config_ok_iff)
  then have "trips cfg fs \<longleftrightarrow> bc_min_samples cfg \<le> int (length fs) \<and>
      bc_failure_threshold cfg * real (length fs) \<le> real (length (filter id fs))"
    unfolding trips_def failure_rate_def using pos_le_divide_eq by blast
  then show ?thesis
    unfolding closed_failure [OF assms(2,3)] fs_def [symmetric] Let_def by simp
qed

theorem circuit_trips_witness:
  "ci_state (circuit_record_failure demo_config 7 (classify (Some 503) None None False)
     ((new_circuit ''p'' ''m'')\<lparr> ci_failures := [False] \<rparr>)) = OPEN"
  by (subst circuit_trips [OF demo_config_ok])
    (simp_all add: new_circuit_def classify_def is_timeout_exc_def is_os_exc_def push_outcome_def
      demo_config_def)

text \<open>
  Saving a circuit and restoring the saved table into a fresh breaker
  gives the circuit back with no probe in flight.
\<close>

theorem circuit_save_restore:
  assumes "table_ok t" "save_circuit t (data_of_circuit st) v = Inr t'"
  shows "get_or_create_state (restore_circuit_states t' []) (ci_provider_id st) (ci_model_id st) =
    st\<lparr> ci_active_probes := 0 \<rparr>"
proof -
  have ok: "table_ok t'" by (rule save_circuit_ok [OF assms])
  have "named []" by (simp add: named_def get_or_create_state_def dget_default_def new_circuit_def)
  then show ?thesis
    using save_circuit_get [OF assms(2)] ok table_ok_entries [OF ok]
    by (subst restore_all) (auto simp: table_ok_def load_circuit_def circuit_of_data_def data_of_circuit_def)
qed

theorem circuit_save_restore_witness:
  "\<exists>t'. save_circuit [] (data_of_circuit half_open_circuit) None = Inr t' \<and>
    get_or_create_state (restore_circuit_states t' []) ''p'' ''m'' =
      half_open_circuit\<lparr> ci_active_probes := 0 \<rparr>"
proof -
  have "\<exists>t'. save_circuit [] (data_of_circuit half_open_circuit) None = Inr t'"
    by (simp add: save_circuit_def Let_def)
  then obtain t' where t': "save_circuit [] (data_of_circuit half_open_circuit) None = Inr t'" by blast
  have "table_ok []" by (simp add: table_ok_def)
  from circuit_save_restore [OF this t'] t' show ?thesis
    by (auto simp: half_open_circuit_def new_circuit_def)
qed

end
