(* ===== verification/RateLimiter.thy ===== *)
theory RateLimiter
  imports Complex_Main AiProvider
begin

text \<open>
  The token buckets of \<^verbatim>\<open>ai/provider_rate_limiter.py\<close>: one row per provider and model, with a
  bucket of requests and a bucket of tokens that refill with time. Quantities and times are
  real numbers; the row lock makes each check one atomic step on the table. Each call reads the
  clock once, here its argument \<open>now\<close>.
\<close>

record rate_policy =
  rl_rpm_limit :: real
  rl_tpm_limit :: real
  rl_daily_request_limit :: "real option"
  rl_burst_multiplier :: real

definition make_rate_policy :: "rate_policy \<Rightarrow> ai_error + rate_policy" where
  "make_rate_policy p =
     (if rl_rpm_limit p \<le> 0 then Inl ValueError
      else if rl_tpm_limit p \<le> 0 then Inl ValueError
      else if rl_burst_multiplier p < 1 then Inl ValueError
      else Inr p)"

record rate_result =
  rr_allowed :: bool
  rr_reason :: "string option"
  rr_cooldown_until :: "real option"
  rr_retry_after_seconds :: real

record rate_row =
  rw_requests_remaining :: real
  rw_max_requests :: real
  rw_rpm_refill_rate :: real
  rw_last_request_refill_at :: real
  rw_tokens_remaining :: real
  rw_max_tokens :: real
  rw_tpm_refill_rate :: real
  rw_last_token_refill_at :: real
  rw_cooldown_until :: "real option"
  rw_cooldown_reason :: "string option"

type_synonym rate_table = "(provider_key, rate_row) dict"

definition new_rate_row :: "real \<Rightarrow> rate_policy \<Rightarrow> rate_row" where
  "new_rate_row now policy =
     \<lparr> rw_requests_remaining = rl_rpm_limit policy * rl_burst_multiplier policy,
       rw_max_requests = rl_rpm_limit policy * rl_burst_multiplier policy,
       rw_rpm_refill_rate = rl_rpm_limit policy / 60,
       rw_last_request_refill_at = now,
       rw_tokens_remaining = rl_tpm_limit policy * rl_burst_multiplier policy,
       rw_max_tokens = rl_tpm_limit policy * rl_burst_multiplier policy,
       rw_tpm_refill_rate = rl_tpm_limit policy / 60,
       rw_last_token_refill_at = now,
       rw_cooldown_until = None, rw_cooldown_reason = None \<rparr>"

text \<open>Both buckets refill for the time since their last refill, up to their size.\<close>

definition refill :: "real \<Rightarrow> rate_row \<Rightarrow> rate_row" where
  "refill now row =
     row\<lparr> rw_requests_remaining := min (rw_max_requests row)
            (rw_requests_remaining row +
              max 0 (now - rw_last_request_refill_at row) * rw_rpm_refill_rate row),
          rw_last_request_refill_at := now,
          rw_tokens_remaining := min (rw_max_tokens row)
            (rw_tokens_remaining row +
              max 0 (now - rw_last_token_refill_at row) * rw_tpm_refill_rate row),
          rw_last_token_refill_at := now \<rparr>"

definition refused :: "string \<Rightarrow> real \<Rightarrow> rate_result" where
  "refused reason retry_after =
     \<lparr> rr_allowed = False, rr_reason = Some reason, rr_cooldown_until = None,
       rr_retry_after_seconds = retry_after \<rparr>"

definition cooling :: "real \<Rightarrow> rate_row \<Rightarrow> bool" where
  "cooling now row = (case rw_cooldown_until row of None \<Rightarrow> False | Some u \<Rightarrow> now < u)"

definition consume_row :: "real \<Rightarrow> int \<Rightarrow> rate_row \<Rightarrow> rate_row \<times> rate_result" where
  "consume_row now requested_tokens row =
     (if cooling now row then
        (row, \<lparr> rr_allowed = False,
                rr_reason = Some (case rw_cooldown_reason row of
                    None \<Rightarrow> ''PROVIDER_COOLDOWN''
                  | Some r \<Rightarrow> if r = [] then ''PROVIDER_COOLDOWN'' else r),
                rr_cooldown_until = rw_cooldown_until row,
                rr_retry_after_seconds = the (rw_cooldown_until row) - now \<rparr>)
      else
        let row = refill now row in
        if rw_requests_remaining row < 1 then
          (row, refused ''RPM_LIMIT_EXCEEDED''
             (if 0 < rw_rpm_refill_rate row
              then (1 - rw_requests_remaining row) / rw_rpm_refill_rate row else 1))
        else if rw_tokens_remaining row < of_int requested_tokens then
          (row, refused ''TPM_LIMIT_EXCEEDED''
             (if 0 < rw_tpm_refill_rate row
              then (of_int requested_tokens - rw_tokens_remaining row) / rw_tpm_refill_rate row else 1))
        else
          (row\<lparr> rw_requests_remaining := rw_requests_remaining row - 1,
                rw_tokens_remaining := rw_tokens_remaining row - of_int requested_tokens \<rparr>,
           \<lparr> rr_allowed = True, rr_reason = None, rr_cooldown_until = None,
             rr_retry_after_seconds = 0 \<rparr>))"

text \<open>
  The table operation: the row is created at first use. When that INSERT fails, the session is
  rolled back and the row another worker created is used; \<open>flushed\<close> is then the table the
  session sees (\<open>None\<close> when the INSERT succeeds).
\<close>

definition locate_row ::
  "rate_table option \<Rightarrow> real \<Rightarrow> rate_table \<Rightarrow> string \<Rightarrow> string \<Rightarrow> rate_policy \<Rightarrow>
     ai_error + rate_table \<times> rate_row" where
  "locate_row flushed now t p m policy =
     (case dget t (p, m) of
        Some row \<Rightarrow> Inr (t, row)
      | None \<Rightarrow>
          (case flushed of
             None \<Rightarrow> Inr (dset t (p, m) (new_rate_row now policy), new_rate_row now policy)
           | Some t' \<Rightarrow> (case dget t' (p, m) of
                          None \<Rightarrow> Inl IntegrityError
                        | Some row \<Rightarrow> Inr (t', row))))"

definition check_and_consume ::
  "rate_table option \<Rightarrow> real \<Rightarrow> rate_table \<Rightarrow> string \<Rightarrow> string \<Rightarrow> rate_policy \<Rightarrow> int \<Rightarrow>
     ai_error + rate_table \<times> rate_result" where
  "check_and_consume flushed now t p m policy requested_tokens =
     rbind (locate_row flushed now t p m policy) (\<lambda>(t, row).
       let (row', res) = consume_row now requested_tokens row
       in Inr (dset t (p, m) row', res))"

definition set_cooldown ::
  "real \<Rightarrow> real \<Rightarrow> string \<Rightarrow> rate_table \<Rightarrow> string \<Rightarrow> string \<Rightarrow> rate_table" where
  "set_cooldown now cooldown_seconds reason t p m =
     (case dget t (p, m) of
        None \<Rightarrow> dset t (p, m)
          \<lparr> rw_requests_remaining = 0, rw_max_requests = 60, rw_rpm_refill_rate = 1,
            rw_last_request_refill_at = now, rw_tokens_remaining = 0, rw_max_tokens = 60000,
            rw_tpm_refill_rate = 1000, rw_last_token_refill_at = now,
            rw_cooldown_until = Some (now + cooldown_seconds), rw_cooldown_reason = Some reason \<rparr>
      | Some row \<Rightarrow> dset t (p, m)
          (row\<lparr> rw_cooldown_until := Some (now + cooldown_seconds), rw_cooldown_reason := Some reason \<rparr>))"

definition is_in_cooldown ::
  "real \<Rightarrow> rate_table \<Rightarrow> string \<Rightarrow> string \<Rightarrow> bool \<times> string option \<times> real option" where
  "is_in_cooldown now t p m =
     (case dget t (p, m) of
        None \<Rightarrow> (False, None, None)
      | Some row \<Rightarrow> if cooling now row
                   then (True, rw_cooldown_reason row, rw_cooldown_until row)
                   else (False, None, None))"

section \<open>Invariant\<close>

definition rate_row_ok :: "rate_row \<Rightarrow> bool" where
  [inv_simps]: "rate_row_ok row \<longleftrightarrow>
     0 \<le> rw_requests_remaining row \<and> rw_requests_remaining row \<le> rw_max_requests row \<and>
     0 \<le> rw_tokens_remaining row \<and> rw_tokens_remaining row \<le> rw_max_tokens row \<and>
     0 \<le> rw_rpm_refill_rate row \<and> 0 \<le> rw_tpm_refill_rate row"

lemma new_rate_row_ok: "make_rate_policy p = Inr p \<Longrightarrow> rate_row_ok (new_rate_row now p)"
  by (auto simp: rate_row_ok_def new_rate_row_def make_rate_policy_def split: if_splits)

lemma refill_ok:
  assumes "rate_row_ok row"
  shows "rate_row_ok (refill now row)"
proof -
  have "0 \<le> max 0 (now - rw_last_request_refill_at row) * rw_rpm_refill_rate row"
    "0 \<le> max 0 (now - rw_last_token_refill_at row) * rw_tpm_refill_rate row"
    using assms by (auto simp: rate_row_ok_def intro!: mult_nonneg_nonneg)
  with assms show ?thesis by (auto simp: rate_row_ok_def refill_def)
qed

lemma consume_row_ok:
  assumes "rate_row_ok row" "0 \<le> requested_tokens"
  shows "rate_row_ok (fst (consume_row now requested_tokens row))"
  using assms refill_ok [OF assms(1), of now]
  by (simp add: consume_row_def Let_def rate_row_ok_def)

definition rate_table_ok :: "rate_table \<Rightarrow> bool" where
  [inv_simps]: "rate_table_ok t \<longleftrightarrow> (\<forall>k row. dget t k = Some row \<longrightarrow> rate_row_ok row)"

lemma rate_table_ok_dset: "rate_table_ok t \<Longrightarrow> rate_row_ok row \<Longrightarrow> rate_table_ok (dset t k row)"
  by (simp add: rate_table_ok_def)

lemma rate_table_okD: "rate_table_ok t \<Longrightarrow> dget t k = Some row \<Longrightarrow> rate_row_ok row"
  unfolding rate_table_ok_def by blast

lemma locate_row_ok:
  assumes "rate_table_ok t" "make_rate_policy policy = Inr policy"
    and "\<And>t'. flushed = Some t' \<Longrightarrow> rate_table_ok t'"
    and "locate_row flushed now t p m policy = Inr (t1, row)"
  shows "rate_table_ok t1" "rate_row_ok row"
  using assms new_rate_row_ok [OF assms(2), of now]
  by (auto simp: locate_row_def intro: rate_table_ok_dset rate_table_okD split: option.splits)

lemma check_and_consume_ok:
  assumes "rate_table_ok t" "make_rate_policy policy = Inr policy" "0 \<le> requested_tokens"
    and "\<And>t'. flushed = Some t' \<Longrightarrow> rate_table_ok t'"
    and "check_and_consume flushed now t p m policy requested_tokens = Inr (t', res)"
  shows "rate_table_ok t'"
proof -
  obtain t1 row where r: "locate_row flushed now t p m policy = Inr (t1, row)"
    "t' = dset t1 (p, m) (fst (consume_row now requested_tokens row))"
    using assms(5) by (auto simp: check_and_consume_def case_prod_beta)
  note ok = locate_row_ok [OF assms(1,2,4) r(1)]
  show ?thesis unfolding r(2) by (intro rate_table_ok_dset ok consume_row_ok assms(3))
qed

section \<open>No more than the rate allows\<close>

text \<open>A sequence of checks on one row, with the decisions it returned.\<close>

fun consume_run :: "(real \<times> int) list \<Rightarrow> rate_row \<Rightarrow> rate_row \<times> bool list" where
  "consume_run [] row = (row, [])"
| "consume_run ((now, n) # calls) row =
     (let (row1, res) = consume_row now n row; (row2, rs) = consume_run calls row1
      in (row2, rr_allowed res # rs))"

fun granted :: "(real \<times> int) list \<Rightarrow> bool list \<Rightarrow> int" where
  "granted ((now, n) # calls) (b # bs) = (if b then n else 0) + granted calls bs"
| "granted _ _ = 0"

text \<open>Times in order, none before \<open>t\<close>.\<close>

fun times_from :: "real \<Rightarrow> (real \<times> int) list \<Rightarrow> bool" where
  "times_from t [] = True"
| "times_from t ((now, n) # calls) = (t \<le> now \<and> times_from now calls)"

fun last_time :: "real \<Rightarrow> (real \<times> int) list \<Rightarrow> real" where
  "last_time t [] = t"
| "last_time t ((now, n) # calls) = last_time now calls"

definition clock_at :: "real \<Rightarrow> rate_row \<Rightarrow> bool" where
  "clock_at t row \<longleftrightarrow> rw_last_request_refill_at row \<le> t \<and> rw_last_token_refill_at row \<le> t"

definition same_limits :: "rate_row \<Rightarrow> rate_row \<Rightarrow> bool" where
  "same_limits r s \<longleftrightarrow>
     rw_max_requests r = rw_max_requests s \<and> rw_rpm_refill_rate r = rw_rpm_refill_rate s \<and>
     rw_max_tokens r = rw_max_tokens s \<and> rw_tpm_refill_rate r = rw_tpm_refill_rate s"

text \<open>
  One check: what is left plus what is granted is at most what there was plus the refill since
  the last one.
\<close>

lemma consume_row_bound:
  assumes "rate_row_ok row" "clock_at now row" "consume_row now n row = (row', res)"
  shows "same_limits row' row" "clock_at now row'"
    "rw_requests_remaining row' + (if rr_allowed res then 1 else 0) \<le>
       rw_requests_remaining row + rw_rpm_refill_rate row *
         (rw_last_request_refill_at row' - rw_last_request_refill_at row)"
    "rw_tokens_remaining row' + (if rr_allowed res then of_int n else 0) \<le>
       rw_tokens_remaining row + rw_tpm_refill_rate row *
         (rw_last_token_refill_at row' - rw_last_token_refill_at row)"
  using assms
  by (auto simp: consume_row_def refill_def refused_def clock_at_def same_limits_def Let_def
      mult.commute split: if_splits)

text \<open>
  A burst of checks in time order grants at most what was in each bucket plus the rate times
  the length of the burst.
\<close>

lemma consume_run_bound:
  assumes "rate_row_ok row" "clock_at t row" "times_from t calls"
    "\<forall>(now, n) \<in> set calls. 0 \<le> n" "consume_run calls row = (row', bs)"
  shows "rate_row_ok row' \<and> same_limits row' row \<and> clock_at (last_time t calls) row' \<and>
    rw_requests_remaining row' + of_nat (count_list bs True) \<le>
       rw_requests_remaining row + rw_rpm_refill_rate row *
         (rw_last_request_refill_at row' - rw_last_request_refill_at row) \<and>
    rw_tokens_remaining row' + of_int (granted calls bs) \<le>
       rw_tokens_remaining row + rw_tpm_refill_rate row *
         (rw_last_token_refill_at row' - rw_last_token_refill_at row)"
  using assms
proof (induction t calls arbitrary: row row' bs rule: times_from.induct)
  case (1 t)
  then show ?case by (simp add: same_limits_def)
next
  case (2 t now n calls)
  obtain row1 res where c: "consume_row now n row = (row1, res)" by fastforce
  obtain row2 rs where r: "consume_run calls row1 = (row2, rs)" by fastforce
  have e: "row' = row2" "bs = rr_allowed res # rs" using 2(6) c r by auto
  have now: "clock_at now row" using 2(3,4) by (auto simp: clock_at_def)
  note b = consume_row_bound [OF 2(2) now c]
  have ok: "rate_row_ok row1" using consume_row_ok [OF 2(2), of n now] c 2(5) by simp
  have ih: "rate_row_ok row2 \<and> same_limits row2 row1 \<and> clock_at (last_time now calls) row2 \<and>
    rw_requests_remaining row2 + of_nat (count_list rs True) \<le>
       rw_requests_remaining row1 + rw_rpm_refill_rate row1 *
         (rw_last_request_refill_at row2 - rw_last_request_refill_at row1) \<and>
    rw_tokens_remaining row2 + of_int (granted calls rs) \<le>
       rw_tokens_remaining row1 + rw_tpm_refill_rate row1 *
         (rw_last_token_refill_at row2 - rw_last_token_refill_at row1)"
    using 2(1) [OF ok b(2) _ _ r] 2(4,5) by auto
  have same: "same_limits row2 row" using ih b(1) by (simp add: same_limits_def)
  show ?case
    using ih b same unfolding e same_limits_def
    by (auto simp: right_diff_distrib split: if_splits)
qed

text \<open>The bound in terms of the clock: nothing beyond the start level and the elapsed refill.\<close>

lemma consume_run_window:
  assumes "rate_row_ok row" "rw_last_request_refill_at row = t" "rw_last_token_refill_at row = t"
    "times_from t calls" "\<forall>(now, n) \<in> set calls. 0 \<le> n" "consume_run calls row = (row', bs)"
  shows "of_nat (count_list bs True) \<le>
      rw_max_requests row + rw_rpm_refill_rate row * (last_time t calls - t)"
    "of_int (granted calls bs) \<le>
      rw_max_tokens row + rw_tpm_refill_rate row * (last_time t calls - t)"
proof -
  have clk: "clock_at t row" using assms(2,3) by (simp add: clock_at_def)
  note b = consume_run_bound [OF assms(1) clk assms(4-6)]
  have le: "rw_last_request_refill_at row' \<le> last_time t calls"
    "rw_last_token_refill_at row' \<le> last_time t calls"
    using b by (auto simp: clock_at_def)
  have "rw_rpm_refill_rate row * (rw_last_request_refill_at row' - t) \<le>
      rw_rpm_refill_rate row * (last_time t calls - t)"
    "rw_tpm_refill_rate row * (rw_last_token_refill_at row' - t) \<le>
      rw_tpm_refill_rate row * (last_time t calls - t)"
    using le assms(1) by (auto intro!: mult_left_mono simp: rate_row_ok_def)
  with b assms(1,2,3) show "of_nat (count_list bs True) \<le>
      rw_max_requests row + rw_rpm_refill_rate row * (last_time t calls - t)"
    "of_int (granted calls bs) \<le>
      rw_max_tokens row + rw_tpm_refill_rate row * (last_time t calls - t)"
    by (auto simp: rate_row_ok_def)
qed

section \<open>Cooldown\<close>

lemma cooldown_blocks:
  "cooling now row \<Longrightarrow> \<not> rr_allowed (snd (consume_row now n row)) \<and> fst (consume_row now n row) = row"
  by (simp add: consume_row_def)

lemma set_cooldown_blocks:
  "now' < now + s \<Longrightarrow> fst (is_in_cooldown now' (set_cooldown now s r t p m) p m)"
  by (auto simp: set_cooldown_def is_in_cooldown_def cooling_def split: option.splits)

section \<open>Properties\<close>

text \<open>
  A sequence of checks in time order on a bucket row grants no more
  requests, and no more tokens, than the size of the bucket plus what the rate allows for the
  time the sequence takes.
\<close>

theorem rate_window_bound:
  assumes "rate_row_ok row" "rw_last_request_refill_at row = t" "rw_last_token_refill_at row = t"
    "times_from t calls" "\<forall>(now, n) \<in> set calls. 0 \<le> n"
  shows "of_nat (count_list (snd (consume_run calls row)) True) \<le>
      rw_max_requests row + rw_rpm_refill_rate row * (last_time t calls - t) \<and>
    of_int (granted calls (snd (consume_run calls row))) \<le>
      rw_max_tokens row + rw_tpm_refill_rate row * (last_time t calls - t)"
  using consume_run_window [OF assms, of "fst (consume_run calls row)" "snd (consume_run calls row)"]
  by simp

definition demo_policy :: rate_policy where
  "demo_policy = \<lparr> rl_rpm_limit = 1, rl_tpm_limit = 60, rl_daily_request_limit = None,
     rl_burst_multiplier = 1 \<rparr>"

theorem rate_window_bound_witness:
  "let calls = [(100, 10), (120, 10), (161, 70), (170, 5)]
   in of_nat (count_list (snd (consume_run calls (new_rate_row 100 demo_policy))) True) \<le> (1 + 1 / 60 * 70 :: real)"
proof -
  let ?calls = "[(100, 10), (120, 10), (161, 70), (170, 5)] :: (real \<times> int) list"
  have "make_rate_policy demo_policy = Inr demo_policy"
    by (simp add: make_rate_policy_def demo_policy_def)
  from rate_window_bound [OF new_rate_row_ok [OF this], of 100 100 ?calls]
  have "of_nat (count_list (snd (consume_run ?calls (new_rate_row 100 demo_policy))) True) \<le>
      rw_max_requests (new_rate_row 100 demo_policy) +
      rw_rpm_refill_rate (new_rate_row 100 demo_policy) * (last_time 100 ?calls - 100)"
    by (simp add: new_rate_row_def)
  then show ?thesis by (simp add: new_rate_row_def demo_policy_def Let_def)
qed

text \<open>
  A check whose clock is behind the row's last refill moves that time
  back, so the interval up to the next check is refilled a second time: a bucket of one request
  a minute that is empty at time 100 grants two requests by time 160.
\<close>

theorem backward_clock_regrants:
  "snd (consume_run [(160, 0), (100, 0), (160, 0)]
     ((new_rate_row 100 demo_policy)\<lparr> rw_requests_remaining := 0 \<rparr>)) = [True, False, True]"
  by (simp add: consume_row_def cooling_def refill_def refused_def new_rate_row_def demo_policy_def
      Let_def)

end
