(* ===== verification/Router.thy ===== *)
theory Router
  imports CircuitBreaker RateLimiter
begin

text \<open>
  Provider selection and the attempt ledger of \<^verbatim>\<open>ai/router.py\<close>. A routing pass walks the
  registered descriptors in lexical order through seven filters; the circuit breaker and the
  rate limiter it consults change while it walks, so the pass returns the new state also when
  it raises. What a pass reads from outside is one \<open>pass_input\<close> per descriptor: the breaker's
  clock, the two readings of the limiter's clock, and the outcome of the row INSERT.
\<close>

record router =
  ro_registry :: provider_registry
  ro_health :: health_registry
  ro_breaker :: "breaker_config option"
  ro_has_repository :: bool
  ro_has_rate_limiter :: bool
  ro_rate_policy :: "rate_policy option"

record gateway =
  gw_breaker :: breaker
  gw_rates :: rate_table
  gw_circuits :: circuit_table

record pass_input =
  pi_breaker_clock :: real
  pi_cooldown_clock :: real
  pi_rate_clock :: real
  pi_flushed :: "rate_table option"

record routing_result =
  rs_descriptor :: provider_descriptor
  rs_estimated_cost_micro_units :: int
  rs_attempt_number :: int

section \<open>The filters\<close>

text \<open>Stages 1 and 2: the exclusion list and the provider's health.\<close>

definition health_eligible :: "router \<Rightarrow> routing_policy \<Rightarrow> provider_descriptor \<Rightarrow> bool" where
  "health_eligible ro policy d =
     (let h = get_health (ro_health ro) (pd_provider_id d) (pd_model_id d)
      in h \<noteq> HEALTH_UNKNOWN \<and> h \<in> set eligible_health_states \<and>
         \<not> (h = HEALTH_DEGRADED \<and> \<not> rp_allow_degraded policy))"

text \<open>Stage 3: the circuit breaker, asked for every descriptor that got this far.\<close>

definition breaker_stage :: "router \<Rightarrow> pass_input \<Rightarrow> gateway \<Rightarrow> provider_descriptor \<Rightarrow> gateway \<times> bool" where
  "breaker_stage ro inp gw d =
     (case ro_breaker ro of
        None \<Rightarrow> (gw, True)
      | Some cfg \<Rightarrow>
          let (b, blocked) = is_open cfg (pi_breaker_clock inp) (gw_breaker gw)
                (pd_provider_id d) (pd_model_id d)
          in (gw\<lparr> gw_breaker := b \<rparr>, \<not> blocked))"

text \<open>Stages 4 and 5: cooldown and token buckets, when the pass has a session.\<close>

definition rate_stage ::
  "router \<Rightarrow> routing_policy \<Rightarrow> bool \<Rightarrow> pass_input \<Rightarrow> gateway \<Rightarrow> provider_descriptor \<Rightarrow>
     gateway \<times> (ai_error + bool)" where
  "rate_stage ro policy has_session inp gw d =
     (if has_session \<and> ro_has_rate_limiter ro then
        if fst (is_in_cooldown (pi_cooldown_clock inp) (gw_rates gw) (pd_provider_id d) (pd_model_id d))
        then (gw, Inr False)
        else case ro_rate_policy ro of
          None \<Rightarrow> (gw, Inr True)
        | Some rate_policy \<Rightarrow>
            (case check_and_consume (pi_flushed inp) (pi_rate_clock inp) (gw_rates gw)
                    (pd_provider_id d) (pd_model_id d) rate_policy
                    (rp_estimated_input_tokens policy + rp_estimated_output_tokens policy) of
               Inl e \<Rightarrow> (gw, Inl e)
             | Inr (rates, res) \<Rightarrow> (gw\<lparr> gw_rates := rates \<rparr>, Inr (rr_allowed res)))
      else (gw, Inr True))"

text \<open>Stages 6 and 7: capabilities and the cost ceiling.\<close>

definition cost_stage :: "routing_policy \<Rightarrow> provider_descriptor \<Rightarrow> int option" where
  "cost_stage policy d =
     (if \<not> rp_required_capabilities policy \<subseteq> pd_capabilities d then None
      else case rp_max_request_cost_micro_units policy of
        Some max_cost \<Rightarrow>
          (case is_within_cost_ceiling d (rp_estimated_input_tokens policy)
                  (rp_estimated_output_tokens policy) max_cost of
             Inl _ \<Rightarrow> None
           | Inr (fits, estimated) \<Rightarrow> if fits then Some estimated else None)
      | None \<Rightarrow>
          (case estimate_cost_micro_units d (rp_estimated_input_tokens policy)
                  (rp_estimated_output_tokens policy) of
             Inl _ \<Rightarrow> None
           | Inr estimated \<Rightarrow> Some estimated))"

text \<open>One round of the loop: the estimate when the descriptor becomes a candidate.\<close>

definition check_descriptor ::
  "router \<Rightarrow> routing_policy \<Rightarrow> provider_key set \<Rightarrow> bool \<Rightarrow> pass_input \<Rightarrow> gateway \<Rightarrow> provider_descriptor \<Rightarrow>
     gateway \<times> (ai_error + int option)" where
  "check_descriptor ro policy excluded has_session inp gw d =
     (if descriptor_key d \<in> excluded then (gw, Inr None)
      else if \<not> health_eligible ro policy d then (gw, Inr None)
      else
        let (gw1, ok1) = breaker_stage ro inp gw d in
        if \<not> ok1 then (gw1, Inr None)
        else case rate_stage ro policy has_session inp gw1 d of
          (gw2, Inl e) \<Rightarrow> (gw2, Inl e)
        | (gw2, Inr False) \<Rightarrow> (gw2, Inr None)
        | (gw2, Inr True) \<Rightarrow> (gw2, Inr (cost_stage policy d)))"

fun collect_candidates ::
  "router \<Rightarrow> routing_policy \<Rightarrow> provider_key set \<Rightarrow> bool \<Rightarrow> (provider_descriptor \<Rightarrow> pass_input) \<Rightarrow>
     gateway \<Rightarrow> provider_descriptor list \<Rightarrow> gateway \<times> (ai_error + (provider_descriptor \<times> int) list)" where
  "collect_candidates ro policy excluded has_session inp gw [] = (gw, Inr [])"
| "collect_candidates ro policy excluded has_session inp gw (d # ds) =
     (case check_descriptor ro policy excluded has_session (inp d) gw d of
        (gw1, Inl e) \<Rightarrow> (gw1, Inl e)
      | (gw1, Inr r) \<Rightarrow>
          (case collect_candidates ro policy excluded has_session inp gw1 ds of
             (gw2, Inl e) \<Rightarrow> (gw2, Inl e)
           | (gw2, Inr cs) \<Rightarrow>
               (gw2, Inr (case r of None \<Rightarrow> cs | Some estimated \<Rightarrow> (d, estimated) # cs))))"

definition filter_eligible ::
  "router \<Rightarrow> routing_policy \<Rightarrow> provider_key set \<Rightarrow> bool \<Rightarrow> (provider_descriptor \<Rightarrow> pass_input) \<Rightarrow>
     gateway \<Rightarrow> gateway \<times> (ai_error + (provider_descriptor \<times> int) list)" where
  "filter_eligible ro policy excluded has_session inp gw =
     (case collect_candidates ro policy excluded has_session inp gw
             (list_all_providers (ro_registry ro)) of
        (gw1, Inl e) \<Rightarrow> (gw1, Inl e)
      | (gw1, Inr cs) \<Rightarrow> (gw1, Inr (sort_key (descriptor_sort_key \<circ> fst) cs)))"

definition select_provider ::
  "router \<Rightarrow> routing_policy \<Rightarrow> provider_key set \<Rightarrow> bool \<Rightarrow> (provider_descriptor \<Rightarrow> pass_input) \<Rightarrow>
     gateway \<Rightarrow> gateway \<times> (ai_error + routing_result)" where
  "select_provider ro policy excluded has_session inp gw =
     (case filter_eligible ro policy excluded has_session inp gw of
        (gw1, Inl e) \<Rightarrow> (gw1, Inl e)
      | (gw1, Inr []) \<Rightarrow> (gw1, Inl NoEligibleProviderError)
      | (gw1, Inr ((d, estimated) # _)) \<Rightarrow>
          (gw1, Inr \<lparr> rs_descriptor = d, rs_estimated_cost_micro_units = estimated,
                     rs_attempt_number = int (card excluded) + 1 \<rparr>))"

definition restore_router_circuits :: "router \<Rightarrow> gateway \<Rightarrow> gateway" where
  "restore_router_circuits ro gw =
     (if ro_has_repository ro \<and> ro_breaker ro \<noteq> None
      then gw\<lparr> gw_breaker := restore_circuit_states (gw_circuits gw) (gw_breaker gw) \<rparr> else gw)"

section \<open>The attempt ledger\<close>

definition attempt_statuses :: "string list" where
  "attempt_statuses = [''IN_FLIGHT'', ''COMPLETED'', ''FAILED'', ''CANCELLED'']"

text \<open>
  An attempt row is accepted when its number is new for the request, the request exists and the
  CHECK constraints hold; otherwise the flush raises IntegrityError and the session is rolled
  back to \<open>saved\<close>, the tables at the start of its transaction.
\<close>

definition attempt_accepted :: "ai_db \<Rightarrow> string \<Rightarrow> int \<Rightarrow> attempt_row \<Rightarrow> bool" where
  "attempt_accepted db request_id n a \<longleftrightarrow>
     dget (db_attempts db) (request_id, n) = None \<and> dget (db_requests db) request_id \<noteq> None \<and>
     0 < n \<and> at_status a \<in> set attempt_statuses \<and> 0 \<le> at_input_tokens a \<and> 0 \<le> at_output_tokens a"

definition record_attempt ::
  "ai_db \<Rightarrow> ai_db \<Rightarrow> string \<Rightarrow> int \<Rightarrow> attempt_row \<Rightarrow> ai_db \<times> (ai_error + unit)" where
  "record_attempt saved db request_id n a =
     (if n < 1 then (db, Inl InvalidAttemptError)
      else if (case at_error_class a of None \<Rightarrow> False | Some c \<Rightarrow> c \<notin> set known_error_classes)
      then (db, Inl InvalidAttemptError)
      else if \<not> attempt_accepted db request_id n a then (saved, Inl InvalidAttemptError)
      else (db\<lparr> db_attempts := dset (db_attempts db) (request_id, n) a \<rparr>, Inr ()))"

definition record_attempt_failure :: "ai_db \<Rightarrow> string \<Rightarrow> int \<Rightarrow> string \<Rightarrow> ai_error + ai_db" where
  "record_attempt_failure db request_id n error_class =
     (if error_class \<notin> set known_error_classes then Inl InvalidAttemptError
      else case dget (db_attempts db) (request_id, n) of
        None \<Rightarrow> Inr db
      | Some a \<Rightarrow> Inr (db\<lparr> db_attempts := dset (db_attempts db) (request_id, n)
                   (a\<lparr> at_status := ''FAILED'', at_error_class := Some error_class \<rparr>) \<rparr>))"

section \<open>Independence of the providers\<close>

text \<open>
  A check reads and writes only the circuit and the buckets of its own descriptor. Hence the
  verdict on a descriptor does not depend on the ones visited before it.
\<close>

definition agree_on :: "provider_key \<Rightarrow> gateway \<Rightarrow> gateway \<Rightarrow> bool" where
  "agree_on k g h \<longleftrightarrow>
     get_or_create_state (gw_breaker g) (fst k) (snd k) = get_or_create_state (gw_breaker h) (fst k) (snd k) \<and>
     dget (gw_rates g) k = dget (gw_rates h) k"

lemma agree_refl [simp]: "agree_on k g g"
  by (simp add: agree_on_def)

lemma agree_trans: "agree_on k g h \<Longrightarrow> agree_on k h i \<Longrightarrow> agree_on k g i"
  by (simp add: agree_on_def)

lemma agree_sym: "agree_on k g h \<Longrightarrow> agree_on k h g"
  by (simp add: agree_on_def)

lemma breaker_stage_frame:
  "breaker_stage ro inp gw d = (gw', ok) \<Longrightarrow> k \<noteq> descriptor_key d \<Longrightarrow> agree_on k gw gw'"
  by (cases k) (auto simp: breaker_stage_def is_open_def agree_on_def descriptor_key_def
      get_or_create_state_def case_prod_beta Let_def split: option.splits)

lemma rate_stage_frame:
  assumes "rate_stage ro policy s inp gw d = (gw', r)" "k \<noteq> descriptor_key d" "pi_flushed inp = None"
  shows "agree_on k gw gw'"
proof -
  have "dget rates k = dget (gw_rates gw) k"
    if "check_and_consume None now (gw_rates gw) (pd_provider_id d) (pd_model_id d) pol n = Inr (rates, res)"
    for now pol n rates res
    using that assms(2)
    by (auto simp: check_and_consume_def locate_row_def descriptor_key_def case_prod_beta Let_def
        split: option.splits)
  with assms(1,3) show ?thesis
    by (auto simp: rate_stage_def agree_on_def split: if_splits option.splits sum.splits)
qed

lemma check_descriptor_frame:
  assumes "check_descriptor ro policy ex s inp gw d = (gw', r)" "k \<noteq> descriptor_key d"
    "pi_flushed inp = None"
  shows "agree_on k gw gw'"
proof (cases "descriptor_key d \<in> ex \<or> \<not> health_eligible ro policy d")
  case True
  then show ?thesis using assms(1) by (auto simp: check_descriptor_def split: if_splits)
next
  case False
  obtain gw1 ok where b: "breaker_stage ro inp gw d = (gw1, ok)" by fastforce
  obtain gw2 r2 where c: "rate_stage ro policy s inp gw1 d = (gw2, r2)" by fastforce
  have "gw' = gw1 \<or> gw' = gw2"
    using assms(1) False b c
    by (auto simp: check_descriptor_def split: if_splits sum.splits bool.splits)
  then show ?thesis
    using agree_trans [OF breaker_stage_frame [OF b assms(2)] rate_stage_frame [OF c assms(2,3)]]
      breaker_stage_frame [OF b assms(2)] by blast
qed

lemma breaker_stage_agree:
  assumes "agree_on (descriptor_key d) g h" "breaker_stage ro inp g d = (g', ok)"
    "breaker_stage ro inp h d = (h', ok')"
  shows "ok = ok'" "agree_on (descriptor_key d) g' h'"
  using assms
  by (auto simp: breaker_stage_def is_open_def agree_on_def descriptor_key_def
      get_or_create_state_def case_prod_beta Let_def split: option.splits)

lemma rate_stage_agree:
  assumes "agree_on (descriptor_key d) g h"
  shows "snd (rate_stage ro policy s inp g d) = snd (rate_stage ro policy s inp h d)"
  using assms
  by (auto simp: rate_stage_def agree_on_def descriptor_key_def is_in_cooldown_def
      check_and_consume_def locate_row_def case_prod_beta Let_def split: option.splits sum.splits)

lemma check_descriptor_agree:
  assumes "agree_on (descriptor_key d) g h"
  shows "snd (check_descriptor ro policy ex s inp g d) = snd (check_descriptor ro policy ex s inp h d)"
proof -
  obtain g1 ok where b: "breaker_stage ro inp g d = (g1, ok)" by fastforce
  obtain h1 ok' where b': "breaker_stage ro inp h d = (h1, ok')" by fastforce
  note a = breaker_stage_agree [OF assms b b']
  obtain g2 r where c: "rate_stage ro policy s inp g1 d = (g2, r)" by fastforce
  obtain h2 r' where c': "rate_stage ro policy s inp h1 d = (h2, r')" by fastforce
  have "r = r'" using rate_stage_agree [OF a(2), of ro policy s inp] c c' by simp
  with a(1) b b' c c' show ?thesis
    by (auto simp: check_descriptor_def split: sum.splits bool.splits)
qed

section \<open>What a pass selects\<close>

text \<open>The estimate of a descriptor that passes every filter in the state \<open>gw\<close>.\<close>

definition candidate_cost ::
  "router \<Rightarrow> routing_policy \<Rightarrow> provider_key set \<Rightarrow> bool \<Rightarrow> (provider_descriptor \<Rightarrow> pass_input) \<Rightarrow>
     gateway \<Rightarrow> provider_descriptor \<Rightarrow> int option" where
  "candidate_cost ro policy ex s inp gw d =
     (case snd (check_descriptor ro policy ex s (inp d) gw d) of Inl _ \<Rightarrow> None | Inr r \<Rightarrow> r)"

definition candidates ::
  "router \<Rightarrow> routing_policy \<Rightarrow> provider_key set \<Rightarrow> bool \<Rightarrow> (provider_descriptor \<Rightarrow> pass_input) \<Rightarrow>
     gateway \<Rightarrow> provider_descriptor list \<Rightarrow> (provider_descriptor \<times> int) list" where
  "candidates ro policy ex s inp gw ds =
     concat (map (\<lambda>d. case candidate_cost ro policy ex s inp gw d of
                        None \<Rightarrow> [] | Some e \<Rightarrow> [(d, e)]) ds)"

definition no_races :: "(provider_descriptor \<Rightarrow> pass_input) \<Rightarrow> bool" where
  "no_races inp \<longleftrightarrow> (\<forall>d. pi_flushed (inp d) = None)"

lemma check_descriptor_no_error:
  assumes "no_races inp"
  shows "\<exists>r. snd (check_descriptor ro policy ex s (inp d) gw d) = Inr r"
proof -
  have "\<exists>b. snd (rate_stage ro policy s (inp d) g d) = Inr b" for g
    using assms by (auto simp: no_races_def rate_stage_def check_and_consume_def locate_row_def
        case_prod_beta Let_def split: option.splits sum.splits)
  then obtain f where f: "\<And>g. snd (rate_stage ro policy s (inp d) g d) = Inr (f g)" by metis
  obtain g1 ok where b: "breaker_stage ro (inp d) gw d = (g1, ok)" by fastforce
  obtain g2 r where c: "rate_stage ro policy s (inp d) g1 d = (g2, r)" by fastforce
  with f [of g1] have "r = Inr (f g1)" by simp
  with b c show ?thesis by (auto simp: check_descriptor_def split: bool.splits)
qed

lemma candidates_agree:
  assumes "\<And>d. d \<in> set ds \<Longrightarrow> agree_on (descriptor_key d) g h"
  shows "candidates ro policy ex s inp g ds = candidates ro policy ex s inp h ds"
proof -
  have "candidate_cost ro policy ex s inp g d = candidate_cost ro policy ex s inp h d"
    if "d \<in> set ds" for d
    using check_descriptor_agree [OF assms [OF that]] by (simp add: candidate_cost_def)
  then show ?thesis unfolding candidates_def by (intro arg_cong [where f = concat] map_cong) auto
qed

lemma collect_candidates_eq:
  "distinct (map descriptor_key ds) \<Longrightarrow> no_races inp \<Longrightarrow>
     snd (collect_candidates ro policy ex s inp gw ds) = Inr (candidates ro policy ex s inp gw ds)"
proof (induction ds arbitrary: gw)
  case Nil
  then show ?case by (simp add: candidates_def)
next
  case (Cons d ds)
  obtain gw1 x where x: "check_descriptor ro policy ex s (inp d) gw d = (gw1, x)" by fastforce
  with check_descriptor_no_error [OF Cons.prems(2), of ro policy ex s d gw]
  obtain r where r: "check_descriptor ro policy ex s (inp d) gw d = (gw1, Inr r)" by auto
  obtain gw2 y where y: "collect_candidates ro policy ex s inp gw1 ds = (gw2, y)" by fastforce
  have "agree_on (descriptor_key e) gw gw1" if "e \<in> set ds" for e
  proof (rule check_descriptor_frame [OF r])
    show "descriptor_key e \<noteq> descriptor_key d" using Cons.prems(1) that by (auto simp: image_iff)
    show "pi_flushed (inp d) = None" using Cons.prems(2) by (simp add: no_races_def)
  qed
  then have same: "candidates ro policy ex s inp gw ds = candidates ro policy ex s inp gw1 ds"
    by (rule candidates_agree)
  have "y = Inr (candidates ro policy ex s inp gw1 ds)"
    using Cons.IH [of gw1] Cons.prems y by simp
  moreover have "candidates ro policy ex s inp gw (d # ds) =
      (case r of None \<Rightarrow> [] | Some e \<Rightarrow> [(d, e)]) @ candidates ro policy ex s inp gw ds"
    by (simp add: candidates_def candidate_cost_def r)
  ultimately show ?case using r y same by (auto split: option.splits)
qed

lemma list_all_distinct_keys:
  assumes "registry_ok reg"
  shows "distinct (map descriptor_key (list_all_providers reg))"
proof -
  have "map descriptor_key (list_all_providers reg) = sort (dkeys reg)"
    unfolding list_all_providers_def map_map
  proof (rule map_idI)
    fix k assume "k \<in> set (sort (dkeys reg))"
    then obtain d where d: "dget reg k = Some d" by (cases "dget reg k") (auto simp: dget_None_iff)
    with assms have "descriptor_key d = k" unfolding registry_ok_def by blast
    with d show "(descriptor_key \<circ> (\<lambda>k. the (dget reg k))) k = k" by simp
  qed
  then show ?thesis using assms by (simp add: registry_ok_def)
qed

lemma set_candidates:
  "(d, e) \<in> set (candidates ro policy ex s inp gw ds) \<longleftrightarrow>
     d \<in> set ds \<and> candidate_cost ro policy ex s inp gw d = Some e"
  by (force simp: candidates_def split: option.splits)

lemma filter_eligible_eq:
  assumes "registry_ok (ro_registry ro)" "no_races inp"
  shows "snd (filter_eligible ro policy ex s inp gw) =
    Inr (sort_key (descriptor_sort_key \<circ> fst)
      (candidates ro policy ex s inp gw (list_all_providers (ro_registry ro))))"
  using collect_candidates_eq [OF list_all_distinct_keys [OF assms(1)] assms(2), of ro policy ex s gw]
  by (auto simp: filter_eligible_def split: prod.splits sum.splits)

text \<open>
  The outcome of a pass, from the state it starts in: the eligible descriptor with the least
  sort key, or the error when there is none.
\<close>

lemma select_provider_spec:
  assumes "registry_ok (ro_registry ro)" "no_races inp"
  shows "case snd (select_provider ro policy ex s inp gw) of
      Inl e \<Rightarrow> e = NoEligibleProviderError \<and>
        (\<forall>d\<in>set (list_all_providers (ro_registry ro)). candidate_cost ro policy ex s inp gw d = None)
    | Inr res \<Rightarrow>
        rs_descriptor res \<in> set (list_all_providers (ro_registry ro)) \<and>
        candidate_cost ro policy ex s inp gw (rs_descriptor res) = Some (rs_estimated_cost_micro_units res) \<and>
        (\<forall>d\<in>set (list_all_providers (ro_registry ro)).
           candidate_cost ro policy ex s inp gw d \<noteq> None \<longrightarrow>
           descriptor_sort_key (rs_descriptor res) \<le> descriptor_sort_key d)"
proof -
  let ?ds = "list_all_providers (ro_registry ro)"
  let ?cs = "candidates ro policy ex s inp gw ?ds"
  let ?s = "sort_key (descriptor_sort_key \<circ> fst) ?cs"
  obtain gw1 where f: "filter_eligible ro policy ex s inp gw = (gw1, Inr ?s)"
    using filter_eligible_eq [OF assms, of policy ex s gw] by (metis prod.collapse)
  show ?thesis
  proof (cases ?s)
    case Nil
    then have "set ?cs = {}" by (metis set_sort empty_set)
    then have "candidate_cost ro policy ex s inp gw d = None" if "d \<in> set ?ds" for d
      using that set_candidates [of d _ ro policy ex s inp gw ?ds] by fastforce
    with f Nil show ?thesis by (simp add: select_provider_def)
  next
    case (Cons p ps)
    obtain d e where p: "p = (d, e)" by fastforce
    have mem: "(d, e) \<in> set ?cs" using Cons p by (metis list.set_intros(1) set_sort)
    have least: "descriptor_sort_key d \<le> descriptor_sort_key d'"
      if "d' \<in> set ?ds" "candidate_cost ro policy ex s inp gw d' \<noteq> None" for d'
    proof -
      from that obtain e' where "(d', e') \<in> set ?cs" using set_candidates by fastforce
      then have "(d', e') \<in> set (p # ps)" using Cons by (metis set_sort)
      moreover have "sorted (map (descriptor_sort_key \<circ> fst) (p # ps))"
        using sorted_sort_key [of "descriptor_sort_key \<circ> fst" ?cs] Cons by simp
      ultimately show ?thesis by (auto simp: p)
    qed
    from mem have dm: "d \<in> set ?ds" "candidate_cost ro policy ex s inp gw d = Some e"
      by (auto simp: set_candidates)
    have "snd (select_provider ro policy ex s inp gw) =
        Inr \<lparr> rs_descriptor = d, rs_estimated_cost_micro_units = e,
              rs_attempt_number = int (card ex) + 1 \<rparr>"
      using f Cons p by (simp add: select_provider_def)
    with dm least show ?thesis by simp
  qed
qed

text \<open>What passing the filters means for a descriptor.\<close>

lemma candidate_eligible:
  assumes "candidate_cost ro policy ex s inp gw d = Some e"
  shows "descriptor_key d \<notin> ex" "health_eligible ro policy d"
    "rp_required_capabilities policy \<subseteq> pd_capabilities d"
    "e = rp_estimated_input_tokens policy * pd_input_price_micro_units d +
         rp_estimated_output_tokens policy * pd_output_price_micro_units d"
    "rp_max_request_cost_micro_units policy = Some c \<Longrightarrow> e \<le> c"
    "ro_breaker ro = Some cfg \<Longrightarrow>
       \<not> snd (is_open cfg (pi_breaker_clock (inp d)) (gw_breaker gw) (pd_provider_id d) (pd_model_id d))"
proof -
  obtain gw1 ok where b: "breaker_stage ro (inp d) gw d = (gw1, ok)" by fastforce
  obtain gw2 r where r: "rate_stage ro policy s (inp d) gw1 d = (gw2, r)" by fastforce
  have all: "descriptor_key d \<notin> ex \<and> health_eligible ro policy d \<and> ok \<and> cost_stage policy d = Some e"
    using assms b r
    by (auto simp: candidate_cost_def check_descriptor_def split: if_splits sum.splits bool.splits)
  then show "descriptor_key d \<notin> ex" "health_eligible ro policy d" by auto
  from all have c: "cost_stage policy d = Some e" by simp
  then show "rp_required_capabilities policy \<subseteq> pd_capabilities d"
    "e = rp_estimated_input_tokens policy * pd_input_price_micro_units d +
         rp_estimated_output_tokens policy * pd_output_price_micro_units d"
    "rp_max_request_cost_micro_units policy = Some c \<Longrightarrow> e \<le> c"
    by (auto simp: cost_stage_def is_within_cost_ceiling_def estimate_cost_micro_units_def
        split: if_splits option.splits)
  show "ro_breaker ro = Some cfg \<Longrightarrow>
      \<not> snd (is_open cfg (pi_breaker_clock (inp d)) (gw_breaker gw) (pd_provider_id d) (pd_model_id d))"
    using all b by (auto simp: breaker_stage_def case_prod_beta Let_def)
qed

text \<open>
  An eligible provider that the breaker never sees an outcome of: with one half-open probe a
  pass that selects another provider uses the probe up, see \<open>exhausted_run\<close>.
\<close>

lemma pass_admits:
  "check_descriptor ro policy ex s inp gw d = (gw', Inr (Some e)) \<Longrightarrow> ro_breaker ro = Some cfg \<Longrightarrow>
     gw_breaker gw' = fst (is_open cfg (pi_breaker_clock inp) (gw_breaker gw) (pd_provider_id d) (pd_model_id d))"
  by (auto simp: check_descriptor_def breaker_stage_def rate_stage_def case_prod_beta Let_def
      split: if_splits sum.splits bool.splits option.splits)

section \<open>Properties\<close>

text \<open>
  C24: a routing pass that selects a provider selects one that is not
  excluded, healthy enough, not blocked by its circuit, capable of the request and within the
  cost ceiling, at the quoted estimate; and among all registered descriptors that pass the
  filters, whatever the pass itself changes while it walks, it selects one with the least
  priority, provider and model. The descriptors of the pass read the clocks and insert their
  rows without a concurrent insert.
\<close>

theorem selection_eligible_and_least:
  assumes "registry_ok (ro_registry ro)" "no_races inp"
    "snd (select_provider ro policy ex s inp gw) = Inr res"
    "get_provider (ro_registry ro) (pd_provider_id d') (pd_model_id d') = Some d'"
    "candidate_cost ro policy ex s inp gw d' \<noteq> None"
  shows "let d = rs_descriptor res; e = rs_estimated_cost_micro_units res in
    get_provider (ro_registry ro) (pd_provider_id d) (pd_model_id d) = Some d \<and>
    descriptor_key d \<notin> ex \<and> health_eligible ro policy d \<and>
    rp_required_capabilities policy \<subseteq> pd_capabilities d \<and>
    e = rp_estimated_input_tokens policy * pd_input_price_micro_units d +
        rp_estimated_output_tokens policy * pd_output_price_micro_units d \<and>
    (case rp_max_request_cost_micro_units policy of None \<Rightarrow> True | Some c \<Rightarrow> e \<le> c) \<and>
    (case ro_breaker ro of None \<Rightarrow> True | Some cfg \<Rightarrow>
       \<not> snd (is_open cfg (pi_breaker_clock (inp d)) (gw_breaker gw) (pd_provider_id d) (pd_model_id d))) \<and>
    descriptor_sort_key d \<le> descriptor_sort_key d'"
proof -
  from select_provider_spec [OF assms(1,2), of policy ex s gw] assms(3)
  have res: "rs_descriptor res \<in> set (list_all_providers (ro_registry ro))"
    "candidate_cost ro policy ex s inp gw (rs_descriptor res) = Some (rs_estimated_cost_micro_units res)"
    and least: "\<And>d. d \<in> set (list_all_providers (ro_registry ro)) \<Longrightarrow>
      candidate_cost ro policy ex s inp gw d \<noteq> None \<Longrightarrow>
      descriptor_sort_key (rs_descriptor res) \<le> descriptor_sort_key d"
    by auto
  have "d' \<in> set (list_all_providers (ro_registry ro))"
    using assms(4) by (simp add: set_list_all_providers [OF assms(1)])
  from least [OF this assms(5)] res(1) candidate_eligible [OF res(2)]
  show ?thesis
    unfolding set_list_all_providers [OF assms(1)]
    by (auto simp: Let_def split: option.splits)
qed

definition demo_provider :: "string \<Rightarrow> int \<Rightarrow> provider_descriptor" where
  "demo_provider p prio = \<lparr> pd_provider_id = p, pd_model_id = ''m'', pd_capabilities = {''chat''},
     pd_priority = prio, pd_input_price_micro_units = 3, pd_output_price_micro_units = 5,
     pd_health = HEALTH_HEALTHY \<rparr>"

definition demo_router :: router where
  "demo_router = \<lparr>
     ro_registry = [((''a'', ''m''), demo_provider ''a'' 2), ((''b'', ''m''), demo_provider ''b'' 1)],
     ro_health = [((''a'', ''m''), HEALTH_HEALTHY), ((''b'', ''m''), HEALTH_HEALTHY)],
     ro_breaker = Some demo_config, ro_has_repository = False, ro_has_rate_limiter = False,
     ro_rate_policy = None \<rparr>"

definition demo_routing :: routing_policy where
  "demo_routing = \<lparr> rp_required_capabilities = {''chat''}, rp_estimated_input_tokens = 10,
     rp_estimated_output_tokens = 4, rp_max_request_cost_micro_units = Some 60,
     rp_allow_degraded = False \<rparr>"

definition demo_pass :: "provider_descriptor \<Rightarrow> pass_input" where
  "demo_pass d = \<lparr> pi_breaker_clock = 140, pi_cooldown_clock = 140, pi_rate_clock = 140,
     pi_flushed = None \<rparr>"

definition idle_gateway :: gateway where
  "idle_gateway = \<lparr> gw_breaker = [], gw_rates = [], gw_circuits = [] \<rparr>"

lemma demo_router_registry: "registry_ok (ro_registry demo_router)"
  by (auto simp: registry_ok_def demo_router_def demo_provider_def descriptor_key_def split: if_splits)

lemma demo_candidate:
  assumes "p = ''a'' \<or> p = ''b''"
  shows "candidate_cost demo_router demo_routing {} False demo_pass idle_gateway (demo_provider p n) = Some 50"
  using assms
  by (auto simp: candidate_cost_def check_descriptor_def health_eligible_def get_health_def
      dget_default_def eligible_health_states_def breaker_stage_def rate_stage_def cost_stage_def
      is_within_cost_ceiling_def estimate_cost_micro_units_def demo_router_def demo_provider_def
      demo_routing_def idle_gateway_def is_open_def get_or_create_state_def new_circuit_def
      circuit_is_open_def descriptor_key_def Let_def)

theorem selection_eligible_and_least_witness:
  "\<exists>res. snd (select_provider demo_router demo_routing {} False demo_pass idle_gateway) = Inr res \<and>
     pd_provider_id (rs_descriptor res) = ''b''"
proof -
  have races: "no_races demo_pass" by (simp add: no_races_def demo_pass_def)
  have reg: "get_provider (ro_registry demo_router) ''b'' ''m'' = Some (demo_provider ''b'' 1)"
    by (simp add: get_provider_def demo_router_def)
  then have mem: "demo_provider ''b'' 1 \<in> set (list_all_providers (ro_registry demo_router))"
    unfolding set_list_all_providers [OF demo_router_registry] by (simp add: demo_provider_def)
  have "\<exists>res. snd (select_provider demo_router demo_routing {} False demo_pass idle_gateway) = Inr res"
    using select_provider_spec [OF demo_router_registry races, of demo_routing "{}" False idle_gateway]
      mem demo_candidate [of "''b''" 1]
    by (auto split: sum.splits)
  then obtain res where res:
    "snd (select_provider demo_router demo_routing {} False demo_pass idle_gateway) = Inr res" by blast
  from selection_eligible_and_least [OF demo_router_registry races res, of "demo_provider ''b'' 1"]
    reg demo_candidate [of "''b''" 1]
  have d: "get_provider (ro_registry demo_router) (pd_provider_id (rs_descriptor res))
      (pd_model_id (rs_descriptor res)) = Some (rs_descriptor res)"
    "descriptor_sort_key (rs_descriptor res) \<le> descriptor_sort_key (demo_provider ''b'' 1)"
    by (simp_all add: demo_provider_def Let_def)
  have "rs_descriptor res = demo_provider ''a'' 2 \<or> rs_descriptor res = demo_provider ''b'' 1"
    using d(1) by (auto simp: get_provider_def demo_router_def split: if_splits)
  with d(2) have "rs_descriptor res = demo_provider ''b'' 1"
    by (auto simp: descriptor_sort_key_def demo_provider_def)
  with res show ?thesis by (auto simp: demo_provider_def)
qed

end
