(* ===== verification/Execution.thy ===== *)
theory Execution
  imports AiRequest Router
begin

text \<open>
  The execution service of \<^verbatim>\<open>ai/execution.py\<close>: one request is created, reserved, routed and
  attempted at most as often as the policies allow, and its reservation committed or released.
  The provider call is outside: an attempt's outcome, the clock readings and the random number
  are inputs. The service uses the router's own breaker; the INSERT of a bucket row during
  routing is taken to succeed.
\<close>

record execution_request =
  er_request_id :: string
  er_task_id :: string
  er_budget_id :: string
  er_prompt :: string
  er_prompt_hash :: string
  er_context_hash :: string
  er_estimated_input_tokens :: int
  er_estimated_output_tokens :: int
  er_per_attempt_timeout_seconds :: real
  er_max_attempts :: int
  er_max_response_bytes :: int

definition make_execution_request :: "execution_request \<Rightarrow> ai_error + execution_request" where
  "make_execution_request r =
     (if blank (er_request_id r) then Inl ValueError
      else if blank (er_task_id r) then Inl ValueError
      else if blank (er_budget_id r) then Inl ValueError
      else if er_prompt r = [] then Inl ValueError
      else if er_per_attempt_timeout_seconds r \<le> 0 then Inl ValueError
      else if er_max_attempts r < 1 then Inl ValueError
      else if er_max_response_bytes r < 1024 then Inl ValueError
      else Inr r)"

record execution_response =
  es_request_id :: string
  es_attempt_number :: int
  es_provider_id :: string
  es_model_id :: string
  es_success :: bool
  es_content :: string
  es_input_tokens :: int
  es_output_tokens :: int
  es_actual_cost_micro_units :: int
  es_error_class :: "string option"

text \<open>How a provider call can end: a response, a timeout, or another exception.\<close>

datatype call_outcome = Responded execution_response | CallTimedOut | CallRaised

record attempt_input =
  xi_breaker_clock :: "provider_descriptor \<Rightarrow> real"
  xi_cooldown_clock :: "provider_descriptor \<Rightarrow> real"
  xi_rate_clock :: "provider_descriptor \<Rightarrow> real"
  xi_outcome_clock :: real
  xi_set_cooldown_clock :: real
  xi_rng :: real
  xi_call :: "provider_descriptor \<Rightarrow> call_outcome"

definition pass_of :: "attempt_input \<Rightarrow> provider_descriptor \<Rightarrow> pass_input" where
  "pass_of xi d =
     \<lparr> pi_breaker_clock = xi_breaker_clock xi d, pi_cooldown_clock = xi_cooldown_clock xi d,
       pi_rate_clock = xi_rate_clock xi d, pi_flushed = None \<rparr>"

text \<open>
  The state of the service: the tables its session sees and the in-memory breaker. A rollback
  brings the tables back to those at the start of the transaction; the breaker keeps its state.
\<close>

record service_state =
  sv_db :: ai_db
  sv_gateway :: gateway

record saved_tables =
  sd_db :: ai_db
  sd_rates :: rate_table
  sd_circuits :: circuit_table

definition rollback :: "saved_tables \<Rightarrow> service_state \<Rightarrow> service_state" where
  "rollback saved st =
     \<lparr> sv_db = sd_db saved,
       sv_gateway = (sv_gateway st)\<lparr> gw_rates := sd_rates saved, gw_circuits := sd_circuits saved \<rparr> \<rparr>"

text \<open>How one round of the attempt loop ends.\<close>

datatype round_end =
    Next_round execution_response
  | Finished execution_response
  | Failed_with ai_error

definition with_db :: "service_state \<Rightarrow> ai_db \<Rightarrow> service_state" where
  "with_db st db = st\<lparr> sv_db := db \<rparr>"

text \<open>The outcome of a call as a response: a timeout becomes a failed response.\<close>

definition execute_attempt_with_timeout ::
  "attempt_input \<Rightarrow> provider_descriptor \<Rightarrow> execution_request \<Rightarrow> int \<Rightarrow> ai_error + execution_response" where
  "execute_attempt_with_timeout xi d req n =
     (case xi_call xi d of
        Responded r \<Rightarrow> Inr r
      | CallTimedOut \<Rightarrow>
          Inr \<lparr> es_request_id = er_request_id req, es_attempt_number = n,
               es_provider_id = pd_provider_id d, es_model_id = pd_model_id d, es_success = False,
               es_content = [], es_input_tokens = 0, es_output_tokens = 0,
               es_actual_cost_micro_units = 0, es_error_class = Some ''TIMEOUT'' \<rparr>
      | CallRaised \<Rightarrow> Inl ExecutorError)"

text \<open>No provider: the reservation is released when the request is where this round found it.\<close>

definition no_provider ::
  "service_state \<Rightarrow> execution_request \<Rightarrow> int \<Rightarrow> execution_response option \<Rightarrow> service_state \<times> round_end" where
  "no_provider st req n last_response =
     (let target_status = (if 1 < n then STATE_PROVIDER_FAILED else STATE_RESERVED);
          released = (case get_request (sv_db st) (er_request_id req) of
              None \<Rightarrow> Inr (sv_db st)
            | Some q \<Rightarrow> if rq_status q = target_status
                       then release_reservation (sv_db st) (er_request_id req) STATE_FAILED
                       else Inr (sv_db st))
      in case released of
           Inl e \<Rightarrow> (st, Failed_with e)
         | Inr db \<Rightarrow>
             (with_db st db,
              case last_response of Some r \<Rightarrow> Finished r | None \<Rightarrow> Failed_with NoEligibleProviderError))"

text \<open>Saving the circuit of a provider, when the router has a repository.\<close>

definition persist_circuit :: "router \<Rightarrow> gateway \<Rightarrow> provider_descriptor \<Rightarrow> ai_error + gateway" where
  "persist_circuit ro gw d =
     (if ro_has_repository ro then
        let (b, data) = export_data (gw_breaker gw) (pd_provider_id d) (pd_model_id d) in
        rbind (save_circuit (gw_circuits gw) data None) (\<lambda>t.
          Inr (gw\<lparr> gw_breaker := b, gw_circuits := t \<rparr>))
      else Inr gw)"

definition breaker_success ::
  "router \<Rightarrow> attempt_input \<Rightarrow> gateway \<Rightarrow> provider_descriptor \<Rightarrow> ai_error + gateway" where
  "breaker_success ro xi gw d =
     (case ro_breaker ro of
        None \<Rightarrow> Inr gw
      | Some cfg \<Rightarrow>
          persist_circuit ro
            (gw\<lparr> gw_breaker := record_success cfg (xi_outcome_clock xi) (gw_breaker gw)
                   (pd_provider_id d) (pd_model_id d) \<rparr>) d)"

definition breaker_failure ::
  "router \<Rightarrow> attempt_input \<Rightarrow> gateway \<Rightarrow> provider_descriptor \<Rightarrow> failure_classification \<Rightarrow>
     ai_error + gateway" where
  "breaker_failure ro xi gw d c =
     (case ro_breaker ro of
        None \<Rightarrow> Inr gw
      | Some cfg \<Rightarrow>
          let gw1 = gw\<lparr> gw_breaker := record_failure cfg (xi_outcome_clock xi) (gw_breaker gw)
                          (pd_provider_id d) (pd_model_id d) c \<rparr>;
              gw2 = (if fc_throttled c \<and> ro_has_rate_limiter ro
                     then gw1\<lparr> gw_rates := set_cooldown (xi_set_cooldown_clock xi) 60 (fc_error_class c)
                                 (gw_rates gw1) (pd_provider_id d) (pd_model_id d) \<rparr>
                     else gw1)
          in persist_circuit ro gw2 d)"

text \<open>The attempt row of a successful call; the flush checks its counters.\<close>

definition complete_attempt :: "ai_db \<Rightarrow> string \<Rightarrow> int \<Rightarrow> execution_response \<Rightarrow> ai_error + ai_db" where
  "complete_attempt db request_id n r =
     (case dget (db_attempts db) (request_id, n) of
        None \<Rightarrow> Inr db
      | Some a \<Rightarrow>
          if es_input_tokens r < 0 \<or> es_output_tokens r < 0 then Inl IntegrityError
          else Inr (db\<lparr> db_attempts := dset (db_attempts db) (request_id, n)
                 (a\<lparr> at_status := ''COMPLETED'', at_input_tokens := es_input_tokens r,
                    at_output_tokens := es_output_tokens r \<rparr>) \<rparr>))"

definition on_success ::
  "router \<Rightarrow> attempt_input \<Rightarrow> service_state \<Rightarrow> execution_request \<Rightarrow> int \<Rightarrow> provider_descriptor \<Rightarrow>
     execution_response \<Rightarrow> service_state \<times> round_end" where
  "on_success ro xi st req n d r =
     (case breaker_success ro xi (sv_gateway st) d of
        Inl e \<Rightarrow> (st, Failed_with e)
      | Inr gw \<Rightarrow>
          let st = st\<lparr> sv_gateway := gw \<rparr> in
          case rbind (complete_attempt (sv_db st) (er_request_id req) n r) (\<lambda>db.
                 commit_execution db (er_request_id req) (es_input_tokens r + es_output_tokens r)
                   (es_actual_cost_micro_units r) (Some (pd_provider_id d)) (Some (pd_model_id d))) of
            Inl e \<Rightarrow> (st, Failed_with e)
          | Inr db \<Rightarrow> (with_db st db, Finished r))"

definition on_failure ::
  "router \<Rightarrow> retry_policy \<Rightarrow> int \<Rightarrow> attempt_input \<Rightarrow> service_state \<Rightarrow> execution_request \<Rightarrow> int \<Rightarrow>
     provider_descriptor \<Rightarrow> execution_response \<Rightarrow> service_state \<times> round_end" where
  "on_failure ro retry max_attempts xi st req n d r =
     (let c = classify None None (es_error_class r) False in
      case breaker_failure ro xi (sv_gateway st) d c of
        Inl e \<Rightarrow> (st, Failed_with e)
      | Inr gw \<Rightarrow>
          let st = st\<lparr> sv_gateway := gw \<rparr> in
          (case rbind (record_attempt_failure (sv_db st) (er_request_id req) n (fc_error_class c)) (\<lambda>db.
                  transition_status db (er_request_id req) STATE_IN_FLIGHT STATE_PROVIDER_FAILED None None) of
             Inl e \<Rightarrow> (st, Failed_with e)
           | Inr db \<Rightarrow>
               let st = with_db st db in
               (case retry_evaluate retry (xi_rng xi) n c of
                  Inl e \<Rightarrow> (st, Failed_with e)
                | Inr decision \<Rightarrow>
                    if rd_should_retry decision \<and> n < max_attempts then (st, Next_round r)
                    else case release_reservation (sv_db st) (er_request_id req) STATE_FAILED of
                      Inl e \<Rightarrow> (st, Failed_with e)
                    | Inr db \<Rightarrow> (with_db st db, Finished r))))"

text \<open>
  Routing and recording of an attempt: the two transitions, then the attempt row, whose
  rejection rolls the session back.
\<close>

definition begin_attempt ::
  "saved_tables \<Rightarrow> service_state \<Rightarrow> execution_request \<Rightarrow> int \<Rightarrow> provider_descriptor \<Rightarrow>
     execution_response option \<Rightarrow> service_state \<times> (round_end + unit)" where
  "begin_attempt saved st req n d last_response =
     (case rbind (transition_status (sv_db st) (er_request_id req)
                    (if n = 1 then STATE_RESERVED else STATE_PROVIDER_FAILED) STATE_ROUTED
                    (Some (pd_provider_id d)) (Some (pd_model_id d))) (\<lambda>db.
             transition_status db (er_request_id req) STATE_ROUTED STATE_IN_FLIGHT None None) of
        Inl e \<Rightarrow> (st, Inl (Failed_with e))
      | Inr db \<Rightarrow>
          (case record_attempt (sd_db saved) db (er_request_id req) n
                  \<lparr> at_provider_id = pd_provider_id d, at_model_id = pd_model_id d,
                    at_status = ''IN_FLIGHT'', at_error_class = None,
                    at_input_tokens = 0, at_output_tokens = 0 \<rparr> of
             (db', Inr _) \<Rightarrow> (with_db st db', Inr ())
           | (_, Inl _) \<Rightarrow>
               (rollback saved st,
                Inl (case last_response of
                       Some r \<Rightarrow> Finished r
                     | None \<Rightarrow> Failed_with AIRequestStateConflictError))))"

definition attempt_round ::
  "router \<Rightarrow> retry_policy \<Rightarrow> routing_policy \<Rightarrow> saved_tables \<Rightarrow> int \<Rightarrow> execution_request \<Rightarrow>
     attempt_input \<Rightarrow> service_state \<Rightarrow> int \<Rightarrow> execution_response option \<Rightarrow> service_state \<times> round_end" where
  "attempt_round ro retry policy saved max_attempts req xi st n last_response =
     (case select_provider ro policy {} True (pass_of xi) (sv_gateway st) of
        (gw, Inl e) \<Rightarrow>
          if e = NoEligibleProviderError
          then no_provider (st\<lparr> sv_gateway := gw \<rparr>) req n last_response
          else (st\<lparr> sv_gateway := gw \<rparr>, Failed_with e)
      | (gw, Inr routing) \<Rightarrow>
          let d = rs_descriptor routing in
          (case begin_attempt saved (st\<lparr> sv_gateway := gw \<rparr>) req n d last_response of
             (st, Inl out) \<Rightarrow> (st, out)
           | (st, Inr _) \<Rightarrow>
               (case execute_attempt_with_timeout xi d req n of
                  Inl e \<Rightarrow> (st, Failed_with e)
                | Inr r \<Rightarrow>
                    if es_success r then on_success ro xi st req n d r
                    else on_failure ro retry max_attempts xi st req n d r)))"

text \<open>The loop over the attempt numbers; \<open>k\<close> is how many are left.\<close>

fun attempt_loop ::
  "router \<Rightarrow> retry_policy \<Rightarrow> routing_policy \<Rightarrow> saved_tables \<Rightarrow> int \<Rightarrow> execution_request \<Rightarrow>
     (int \<Rightarrow> attempt_input) \<Rightarrow> nat \<Rightarrow> service_state \<Rightarrow> int \<Rightarrow> execution_response option \<Rightarrow>
     service_state \<times> (ai_error + execution_response)" where
  "attempt_loop ro retry policy saved max_attempts req xi 0 st n last_response =
     (st, Inr (case last_response of
        Some r \<Rightarrow> r
      | None \<Rightarrow>
          \<lparr> es_request_id = er_request_id req, es_attempt_number = max_attempts,
            es_provider_id = ''none'', es_model_id = ''none'', es_success = False,
            es_content = [], es_input_tokens = 0, es_output_tokens = 0,
            es_actual_cost_micro_units = 0, es_error_class = Some ''ATTEMPTS_EXHAUSTED'' \<rparr>))"
| "attempt_loop ro retry policy saved max_attempts req xi (Suc k) st n last_response =
     (case attempt_round ro retry policy saved max_attempts req (xi n) st n last_response of
        (st, Next_round r) \<Rightarrow>
          attempt_loop ro retry policy saved max_attempts req xi k st (n + 1) (Some r)
      | (st, Finished r) \<Rightarrow> (st, Inr r)
      | (st, Failed_with e) \<Rightarrow> (st, Inl e))"

definition execute ::
  "router \<Rightarrow> retry_policy \<Rightarrow> routing_policy \<Rightarrow> saved_tables \<Rightarrow> ai_db option \<Rightarrow> execution_request \<Rightarrow>
     (int \<Rightarrow> attempt_input) \<Rightarrow> service_state \<Rightarrow> service_state \<times> (ai_error + execution_response)" where
  "execute ro retry policy saved flushed req xi st =
     (case create_request flushed (sv_db st) (er_request_id req) (er_task_id req)
             (er_budget_id req) (er_prompt_hash req) (er_context_hash req) of
        Inl e \<Rightarrow> (st, Inl e)
      | Inr db1 \<Rightarrow>
          let st = with_db st db1 in
          (case reserve_budget (sv_db st) (er_request_id req)
                  (er_estimated_input_tokens req + er_estimated_output_tokens req) of
             Inl e \<Rightarrow> (st, Inl e)
           | Inr db2 \<Rightarrow>
               let max_attempts = min (er_max_attempts req) (rt_max_attempts retry)
               in attempt_loop ro retry policy saved max_attempts req xi (nat max_attempts)
                    (with_db st db2) 1 None))"

section \<open>The books stay balanced\<close>

lemma books_attempts [simp]: "books_ok (db\<lparr> db_attempts := t \<rparr>) = books_ok db"
  by (simp add: books_ok_def requests_ok_def accounted_def balanced_def sum_for_def get_request_def)

lemma with_db_simps [simp]: "sv_db (with_db st db) = db" "sv_gateway (with_db st db) = sv_gateway st"
  by (simp_all add: with_db_def)

lemma rollback_db [simp]: "sv_db (rollback saved st) = sd_db saved"
  by (simp add: rollback_def)

lemma record_attempt_books:
  "books_ok saved \<Longrightarrow> books_ok db \<Longrightarrow> record_attempt saved db k n a = (db', r) \<Longrightarrow> books_ok db'"
  by (auto simp: record_attempt_def split: if_splits option.splits)

lemma record_attempt_failure_books:
  "books_ok db \<Longrightarrow> record_attempt_failure db k n c = Inr db' \<Longrightarrow> books_ok db'"
  by (auto simp: record_attempt_failure_def split: if_splits option.splits)

lemma complete_attempt_books: "books_ok db \<Longrightarrow> complete_attempt db k n r = Inr db' \<Longrightarrow> books_ok db'"
  by (auto simp: complete_attempt_def split: if_splits option.splits)

lemma no_provider_cases:
  assumes "no_provider st req n last_response = (st', out)"
  obtains (kept) "sv_db st' = sv_db st"
  | (released) q where "get_request (sv_db st) (er_request_id req) = Some q"
      "rq_status q = (if 1 < n then STATE_PROVIDER_FAILED else STATE_RESERVED)"
      "release_reservation (sv_db st) (er_request_id req) STATE_FAILED = Inr (sv_db st')"
proof (cases "get_request (sv_db st) (er_request_id req)")
  case None
  with assms show ?thesis by (intro kept) (auto simp: no_provider_def Let_def)
next
  case (Some q)
  note q = Some
  show ?thesis
  proof (cases "rq_status q = (if 1 < n then STATE_PROVIDER_FAILED else STATE_RESERVED)")
    case False
    with assms Some show ?thesis by (intro kept) (simp add: no_provider_def Let_def, force)
  next
    case True
    show ?thesis
    proof (cases "release_reservation (sv_db st) (er_request_id req) STATE_FAILED")
      case (Inl e)
      with assms q True show ?thesis by (intro kept) (simp add: no_provider_def Let_def)
    next
      case (Inr db)
      with assms q True have "sv_db st' = db" by (simp add: no_provider_def Let_def) force
      with q True Inr show ?thesis by (intro released) auto
    qed
  qed
qed

lemma no_provider_books:
  assumes "books_ok (sv_db st)" "no_provider st req n last_response = (st', out)"
  shows "books_ok (sv_db st')"
  using assms(2)
proof (cases rule: no_provider_cases)
  case kept
  with assms(1) show ?thesis by simp
next
  case (released q)
  from release_reservation_books [OF assms(1) released(3)] show ?thesis .
qed

abbreviation fresh_attempt :: "provider_descriptor \<Rightarrow> attempt_row" where
  "fresh_attempt d \<equiv>
     \<lparr> at_provider_id = pd_provider_id d, at_model_id = pd_model_id d,
       at_status = ''IN_FLIGHT'', at_error_class = None,
       at_input_tokens = 0, at_output_tokens = 0 \<rparr>"

lemma begin_attempt_cases:
  assumes "begin_attempt saved st req n d last_response = (st', out)"
  obtains (refused) e where "out = Inl (Failed_with e)" "sv_db st' = sv_db st"
  | (rolled_back) db1 db2 db3 e where
      "transition_status (sv_db st) (er_request_id req)
         (if n = 1 then STATE_RESERVED else STATE_PROVIDER_FAILED) STATE_ROUTED
         (Some (pd_provider_id d)) (Some (pd_model_id d)) = Inr db1"
      "transition_status db1 (er_request_id req) STATE_ROUTED STATE_IN_FLIGHT None None = Inr db2"
      "record_attempt (sd_db saved) db2 (er_request_id req) n (fresh_attempt d) = (db3, Inl e)"
      "sv_db st' = sd_db saved" "\<exists>z. out = Inl z"
  | (begun) db1 db2 where
      "transition_status (sv_db st) (er_request_id req)
         (if n = 1 then STATE_RESERVED else STATE_PROVIDER_FAILED) STATE_ROUTED
         (Some (pd_provider_id d)) (Some (pd_model_id d)) = Inr db1"
      "transition_status db1 (er_request_id req) STATE_ROUTED STATE_IN_FLIGHT None None = Inr db2"
      "record_attempt (sd_db saved) db2 (er_request_id req) n (fresh_attempt d) = (sv_db st', Inr ())"
      "out = Inr ()"
proof (cases "transition_status (sv_db st) (er_request_id req)
         (if n = 1 then STATE_RESERVED else STATE_PROVIDER_FAILED) STATE_ROUTED
         (Some (pd_provider_id d)) (Some (pd_model_id d))")
  case (Inl e)
  with assms show ?thesis by (intro refused) (simp_all add: begin_attempt_def, force)
next
  case (Inr db1)
  note t1 = Inr
  show ?thesis
  proof (cases "transition_status db1 (er_request_id req) STATE_ROUTED STATE_IN_FLIGHT None None")
    case (Inl e)
    with assms t1 show ?thesis by (intro refused) (simp_all add: begin_attempt_def, force)
  next
    case (Inr db2)
    note t2 = Inr
    obtain db3 x where r:
      "record_attempt (sd_db saved) db2 (er_request_id req) n (fresh_attempt d) = (db3, x)" by fastforce
    show ?thesis
    proof (cases x)
      case (Inl e)
      with assms t1 t2 r have "st' = rollback saved st \<and> (\<exists>z. out = Inl z)"
        by (simp add: begin_attempt_def) blast
      with t1 t2 r Inl show ?thesis by (intro rolled_back) simp_all
    next
      case (Inr u)
      with assms t1 t2 r have "st' = with_db st db3" "out = Inr ()"
        by (simp_all add: begin_attempt_def)
      with t1 t2 r Inr show ?thesis by (intro begun) simp_all
    qed
  qed
qed

lemma begin_attempt_books:
  assumes "books_ok (sd_db saved)" "books_ok (sv_db st)"
    "begin_attempt saved st req n d last_response = (st', out)"
  shows "books_ok (sv_db st')"
  using assms(3)
proof (cases rule: begin_attempt_cases)
  case (begun db1 db2)
  note transition_status_books [OF transition_status_books [OF assms(2) begun(1)] begun(2)]
  from record_attempt_books [OF assms(1) this begun(3)] show ?thesis .
qed (use assms in simp_all)

lemma on_success_cases:
  assumes "on_success ro xi st req n d r = (st', out)"
  obtains (failed) e where "out = Failed_with e" "sv_db st' = sv_db st"
  | (committed) db where "complete_attempt (sv_db st) (er_request_id req) n r = Inr db"
      "commit_execution db (er_request_id req) (es_input_tokens r + es_output_tokens r)
         (es_actual_cost_micro_units r) (Some (pd_provider_id d)) (Some (pd_model_id d)) =
         Inr (sv_db st')"
      "out = Finished r"
proof (cases "breaker_success ro xi (sv_gateway st) d")
  case (Inl e)
  with assms show ?thesis by (intro failed) (auto simp: on_success_def)
next
  case (Inr gw)
  note g = Inr
  show ?thesis
  proof (cases "rbind (complete_attempt (sv_db st) (er_request_id req) n r) (\<lambda>db.
      commit_execution db (er_request_id req) (es_input_tokens r + es_output_tokens r)
        (es_actual_cost_micro_units r) (Some (pd_provider_id d)) (Some (pd_model_id d)))")
    case (Inl e)
    with assms g show ?thesis by (intro failed) (auto simp: on_success_def Let_def)
  next
    case (Inr db')
    then obtain db where c: "complete_attempt (sv_db st) (er_request_id req) n r = Inr db"
      "commit_execution db (er_request_id req) (es_input_tokens r + es_output_tokens r)
        (es_actual_cost_micro_units r) (Some (pd_provider_id d)) (Some (pd_model_id d)) = Inr db'"
      by auto
    with assms g have "sv_db st' = db'" "out = Finished r" by (auto simp: on_success_def Let_def)
    with c show ?thesis by (intro committed) simp_all
  qed
qed

lemma on_success_books:
  assumes "books_ok (sv_db st)" "on_success ro xi st req n d r = (st', out)"
  shows "books_ok (sv_db st')"
  using assms(2)
proof (cases rule: on_success_cases)
  case (committed db)
  from commit_execution_books [OF complete_attempt_books [OF assms(1) committed(1)] committed(2)]
  show ?thesis .
qed (use assms in simp)

text \<open>The four ways a failed attempt ends.\<close>

lemma on_failure_cases:
  assumes "on_failure ro retry mx xi st req n d r = (st', out)"
  obtains (early) e where "out = Failed_with e" "sv_db st' = sv_db st"
  | (late) e db0 db where
      "record_attempt_failure (sv_db st) (er_request_id req) n
         (fc_error_class (classify None None (es_error_class r) False)) = Inr db0"
      "transition_status db0 (er_request_id req) STATE_IN_FLIGHT STATE_PROVIDER_FAILED None None = Inr db"
      "out = Failed_with e" "sv_db st' = db"
      "(\<exists>c. retry_evaluate retry (xi_rng xi) n c = Inl e) \<or>
         release_reservation db (er_request_id req) STATE_FAILED = Inl e"
  | (again) db0 db where
      "record_attempt_failure (sv_db st) (er_request_id req) n
         (fc_error_class (classify None None (es_error_class r) False)) = Inr db0"
      "transition_status db0 (er_request_id req) STATE_IN_FLIGHT STATE_PROVIDER_FAILED None None = Inr db"
      "out = Next_round r" "sv_db st' = db" "n < mx"
  | (released) db0 db db' where
      "record_attempt_failure (sv_db st) (er_request_id req) n
         (fc_error_class (classify None None (es_error_class r) False)) = Inr db0"
      "transition_status db0 (er_request_id req) STATE_IN_FLIGHT STATE_PROVIDER_FAILED None None = Inr db"
      "release_reservation db (er_request_id req) STATE_FAILED = Inr db'"
      "out = Finished r" "sv_db st' = db'"
proof -
  let ?c = "classify None None (es_error_class r) False"
  let ?m = "rbind (record_attempt_failure (sv_db st) (er_request_id req) n (fc_error_class ?c)) (\<lambda>db.
    transition_status db (er_request_id req) STATE_IN_FLIGHT STATE_PROVIDER_FAILED None None)"
  show ?thesis
  proof (cases "breaker_failure ro xi (sv_gateway st) d ?c")
    case (Inl e)
    with assms show ?thesis by (intro early) (auto simp: on_failure_def Let_def)
  next
    case (Inr gw)
    note g = Inr
    show ?thesis
    proof (cases ?m)
      case (Inl e)
      with assms g show ?thesis by (intro early) (auto simp: on_failure_def Let_def)
    next
      case (Inr db)
      then obtain db0 where m: "record_attempt_failure (sv_db st) (er_request_id req) n
          (fc_error_class ?c) = Inr db0" "transition_status db0 (er_request_id req)
          STATE_IN_FLIGHT STATE_PROVIDER_FAILED None None = Inr db" by auto
      show ?thesis
      proof (cases "retry_evaluate retry (xi_rng xi) n ?c")
        case (Inl e)
        with assms g m show ?thesis by (intro late [OF m]) (auto simp: on_failure_def Let_def)
      next
        case (Inr dec)
        note e = Inr
        show ?thesis
        proof (cases "rd_should_retry dec \<and> n < mx")
          case True
          with assms g m e show ?thesis by (intro again [OF m]) (auto simp: on_failure_def Let_def)
        next
          case False
          then show ?thesis
          proof (cases "release_reservation db (er_request_id req) STATE_FAILED")
            case (Inl er)
            with assms g m e False show ?thesis
              by (intro late [OF m]) (auto simp: on_failure_def Let_def split: if_splits)
          next
            case (Inr db')
            with assms g m e False show ?thesis
              by (intro released [OF m Inr]) (auto simp: on_failure_def Let_def split: if_splits)
          qed
        qed
      qed
    qed
  qed
qed

lemma on_failure_books:
  assumes "books_ok (sv_db st)" "on_failure ro retry mx xi st req n d r = (st', out)"
  shows "books_ok (sv_db st')"
  using assms(2)
proof (cases rule: on_failure_cases)
  case early
  with assms(1) show ?thesis by simp
next
  case (late e db0 db)
  note transition_status_books [OF record_attempt_failure_books [OF assms(1) late(1)] late(2)]
  with late show ?thesis by simp
next
  case (again db0 db)
  note transition_status_books [OF record_attempt_failure_books [OF assms(1) again(1)] again(2)]
  with again show ?thesis by simp
next
  case (released db0 db db')
  note transition_status_books [OF record_attempt_failure_books [OF assms(1) released(1)] released(2)]
  from release_reservation_books [OF this released(3)] released show ?thesis by simp
qed

lemma attempt_round_books:
  assumes "books_ok (sd_db saved)" "books_ok (sv_db st)"
    "attempt_round ro retry policy saved mx req xi st n last_response = (st', out)"
  shows "books_ok (sv_db st')"
proof -
  obtain gw routed where s: "select_provider ro policy {} True (pass_of xi) (sv_gateway st) = (gw, routed)"
    by fastforce
  have st: "books_ok (sv_db (st\<lparr> sv_gateway := gw \<rparr>))" using assms(2) by simp
  show ?thesis
  proof (cases routed)
    case (Inl e)
    then show ?thesis
      using assms(3) s st no_provider_books [OF st] by (auto simp: attempt_round_def split: if_splits)
  next
    case (Inr routing)
    let ?d = "rs_descriptor routing"
    obtain st1 b where b: "begin_attempt saved (st\<lparr> sv_gateway := gw \<rparr>) req n ?d last_response = (st1, b)"
      by fastforce
    note st1 = begin_attempt_books [OF assms(1) st b]
    then show ?thesis
      using assms(3) s b Inr on_success_books [OF st1] on_failure_books [OF st1]
      by (auto simp: attempt_round_def Let_def split: sum.splits if_splits)
  qed
qed

lemma attempt_loop_books:
  assumes "books_ok (sd_db saved)"
  shows "books_ok (sv_db st) \<Longrightarrow>
    attempt_loop ro retry policy saved mx req xi k st n last_response = (st', out) \<Longrightarrow>
    books_ok (sv_db st')"
proof (induction k arbitrary: st n last_response)
  case 0
  then show ?case by auto
next
  case (Suc k)
  obtain st1 r where r: "attempt_round ro retry policy saved mx req (xi n) st n last_response = (st1, r)"
    by fastforce
  have "books_ok (sv_db st1)" by (rule attempt_round_books [OF assms Suc.prems(1) r])
  with Suc r show ?case by (auto split: round_end.splits)
qed

section \<open>Every returned response leaves the request settled\<close>

lemma attempts_set_request [simp]: "db_attempts (set_request db k r) = db_attempts db"
  by (simp add: set_request_def)

lemma attempts_tokens:
  "reserve_tokens db k n = Inr db1 \<Longrightarrow> db_attempts db1 = db_attempts db"
  "commit_tokens db k n a c = Inr db1 \<Longrightarrow> db_attempts db1 = db_attempts db"
  "release_tokens db k n = Inr db1 \<Longrightarrow> db_attempts db1 = db_attempts db"
  by (auto simp: reserve_tokens_Inr_iff commit_tokens_Inr_iff release_tokens_Inr_iff)

lemma attempts_transition: "transition_status db k s t p m = Inr db' \<Longrightarrow> db_attempts db' = db_attempts db"
  by (elim transition_statusE) simp

lemma attempts_reserve: "reserve_budget db k n = Inr db' \<Longrightarrow> db_attempts db' = db_attempts db"
  by (elim reserve_budgetE) (auto dest: attempts_tokens)

lemma attempts_commit: "commit_execution db k a c p m = Inr db' \<Longrightarrow> db_attempts db' = db_attempts db"
  by (elim commit_executionE) (auto dest: attempts_tokens)

lemma attempts_release: "release_reservation db k t = Inr db' \<Longrightarrow> db_attempts db' = db_attempts db"
  by (elim release_reservationE) (auto dest: attempts_tokens split: if_splits)

definition attempts_below :: "ai_db \<Rightarrow> string \<Rightarrow> int \<Rightarrow> bool" where
  "attempts_below db k n \<longleftrightarrow> (\<forall>m\<ge>n. dget (db_attempts db) (k, m) = None)"

lemma attempts_below_mono: "attempts_below db k n \<Longrightarrow> n \<le> n' \<Longrightarrow> attempts_below db k n'"
  by (auto simp: attempts_below_def)

lemma attempts_below_frame: "db_attempts db' = db_attempts db \<Longrightarrow> attempts_below db' k n = attempts_below db k n"
  by (simp add: attempts_below_def)

lemma request_attempts [simp]: "get_request (db\<lparr> db_attempts := t \<rparr>) k = get_request db k"
  by (simp add: get_request_def)

text \<open>A request before its \<open>n\<close>-th attempt, and one that is settled with a response.\<close>

definition ready :: "ai_db \<Rightarrow> string \<Rightarrow> int \<Rightarrow> bool" where
  "ready db k n \<longleftrightarrow> 1 \<le> n \<and> attempts_below db k n \<and>
     (\<exists>q. get_request db k = Some q \<and>
          rq_status q = (if n = 1 then STATE_RESERVED else STATE_PROVIDER_FAILED))"

definition settled :: "ai_db \<Rightarrow> string \<Rightarrow> execution_response \<Rightarrow> bool" where
  "settled db k r \<longleftrightarrow>
     (\<exists>q. get_request db k = Some q \<and> rq_reserved_tokens q = 0 \<and>
          (if es_success r
           then rq_status q = STATE_COMPLETED \<and>
                rq_committed_tokens q = es_input_tokens r + es_output_tokens r \<and>
                rq_actual_cost_micro_units q = es_actual_cost_micro_units r
           else rq_status q = STATE_FAILED))"

lemma release_settles:
  assumes "release_reservation db k STATE_FAILED = Inr db'" "get_request db k = Some q"
    "\<not> is_terminal_state (rq_status q)"
  shows "\<exists>q. get_request db' k = Some q \<and> rq_reserved_tokens q = 0 \<and> rq_status q = STATE_FAILED"
  using assms by (elim release_reservationE) auto

lemma not_terminal: "\<not> is_terminal_state STATE_RESERVED" "\<not> is_terminal_state STATE_PROVIDER_FAILED"
  by (code_simp)+

lemma no_provider_settles:
  assumes "ready (sv_db st) (er_request_id req) n" "no_provider st req n last_response = (st', Finished r)"
    "\<forall>r. last_response = Some r \<longrightarrow> \<not> es_success r"
  shows "settled (sv_db st') (er_request_id req) r \<and> attempts_below (sv_db st') (er_request_id req) n"
proof -
  obtain q where q: "get_request (sv_db st) (er_request_id req) = Some q"
    "rq_status q = (if n = 1 then STATE_RESERVED else STATE_PROVIDER_FAILED)" "1 \<le> n"
    "attempts_below (sv_db st) (er_request_id req) n"
    using assms(1) by (auto simp: ready_def)
  then have target: "rq_status q = (if 1 < n then STATE_PROVIDER_FAILED else STATE_RESERVED)" by auto
  from assms(2) q(1) target obtain db where
    db: "release_reservation (sv_db st) (er_request_id req) STATE_FAILED = Inr db"
    "st' = with_db st db" "last_response = Some r"
    by (auto simp: no_provider_def Let_def split: sum.splits option.splits if_splits)
  have nt: "\<not> is_terminal_state (rq_status q)" using target not_terminal by auto
  show ?thesis
    using release_settles [OF db(1) q(1) nt] db(2,3) q(4) assms(3)
      attempts_below_frame [OF attempts_release [OF db(1)]] by (auto simp: settled_def)
qed

lemma begin_ready:
  assumes "ready (sv_db st) (er_request_id req) n"
    "begin_attempt saved st req n d last_response = (st', out)"
  shows "(\<exists>e. out = Inl (Failed_with e)) \<or>
    (out = Inr () \<and> attempts_below (sv_db st') (er_request_id req) (n + 1) \<and>
     (\<exists>q. get_request (sv_db st') (er_request_id req) = Some q \<and> rq_status q = STATE_IN_FLIGHT))"
  using assms(2)
proof (cases rule: begin_attempt_cases)
  case (rolled_back db1 db2 db3 e)
  have "db_attempts db2 = db_attempts (sv_db st)"
    using attempts_transition [OF rolled_back(1)] attempts_transition [OF rolled_back(2)] by simp
  moreover have "dget (db_requests db2) (er_request_id req) \<noteq> None"
    using rolled_back(2) by (elim transition_statusE) (auto simp: set_request_def)
  ultimately have "attempt_accepted db2 (er_request_id req) n (fresh_attempt d)"
    using assms(1) by (auto simp: attempt_accepted_def attempt_statuses_def ready_def attempts_below_def)
  with rolled_back(3) assms(1) show ?thesis by (auto simp: record_attempt_def ready_def)
next
  case (begun db1 db2)
  have a: "db_attempts db2 = db_attempts (sv_db st)"
    using attempts_transition [OF begun(1)] attempts_transition [OF begun(2)] by simp
  obtain q where q: "get_request db2 (er_request_id req) = Some q" "rq_status q = STATE_IN_FLIGHT"
    using begun(2) by (elim transition_statusE) auto
  have "sv_db st' = db2\<lparr> db_attempts := dset (db_attempts db2) (er_request_id req, n) (fresh_attempt d) \<rparr>"
    using begun(3) by (auto simp: record_attempt_def split: if_splits)
  with q a assms(1) begun(4) show ?thesis by (auto simp: ready_def attempts_below_def)
qed simp

definition in_flight :: "ai_db \<Rightarrow> string \<Rightarrow> int \<Rightarrow> bool" where
  "in_flight db k n \<longleftrightarrow> attempts_below db k (n + 1) \<and>
     (\<exists>q. get_request db k = Some q \<and> rq_status q = STATE_IN_FLIGHT)"

lemma complete_attempt_in_flight:
  "in_flight db k n \<Longrightarrow> complete_attempt db k n r = Inr db' \<Longrightarrow> in_flight db' k n"
  by (auto simp: in_flight_def complete_attempt_def attempts_below_def split: option.splits if_splits)

lemma attempt_failure_in_flight:
  "in_flight db k n \<Longrightarrow> record_attempt_failure db k n c = Inr db' \<Longrightarrow> in_flight db' k n"
  by (auto simp: in_flight_def record_attempt_failure_def attempts_below_def
      split: option.splits if_splits)

lemma on_success_settles:
  assumes "in_flight (sv_db st) (er_request_id req) n" "on_success ro xi st req n d r = (st', Finished r')"
    "es_success r"
  shows "r' = r \<and> settled (sv_db st') (er_request_id req) r \<and>
    attempts_below (sv_db st') (er_request_id req) (n + 1)"
  using assms(2)
proof (cases rule: on_success_cases)
  case (committed db)
  have fl: "in_flight db (er_request_id req) n"
    by (rule complete_attempt_in_flight [OF assms(1) committed(1)])
  have "settled (sv_db st') (er_request_id req) r"
    using committed(2) fl assms(3)
    by (elim commit_executionE) (auto simp: settled_def in_flight_def)
  moreover have "attempts_below (sv_db st') (er_request_id req) (n + 1)"
    using attempts_below_frame [OF attempts_commit [OF committed(2)]] fl by (simp add: in_flight_def)
  ultimately show ?thesis using committed(3) by simp
qed simp

lemma failed_transition:
  assumes "in_flight db k n"
    "transition_status db k STATE_IN_FLIGHT STATE_PROVIDER_FAILED None None = Inr db'"
  shows "attempts_below db' k (n + 1)"
    "\<exists>q. get_request db' k = Some q \<and> rq_status q = STATE_PROVIDER_FAILED"
  using assms attempts_below_frame [OF attempts_transition [OF assms(2)]]
  by (auto simp: in_flight_def elim!: transition_statusE)

lemma on_failure_next:
  assumes "in_flight (sv_db st) (er_request_id req) n" "1 \<le> n" "\<not> es_success r"
    "on_failure ro retry mx xi st req n d r = (st', out)"
  shows "case out of
      Next_round r' \<Rightarrow> r' = r \<and> n < mx \<and> ready (sv_db st') (er_request_id req) (n + 1)
    | Finished r' \<Rightarrow> r' = r \<and> settled (sv_db st') (er_request_id req) r \<and>
                     attempts_below (sv_db st') (er_request_id req) (n + 1)
    | Failed_with e \<Rightarrow> True"
  using assms(4)
proof (cases rule: on_failure_cases)
  case (again db0 db)
  note t = failed_transition [OF attempt_failure_in_flight [OF assms(1) again(1)] again(2)]
  with again assms(2) show ?thesis by (auto simp: ready_def)
next
  case (released db0 db db')
  note t = failed_transition [OF attempt_failure_in_flight [OF assms(1) released(1)] released(2)]
  then obtain q where q: "get_request db (er_request_id req) = Some q"
    "rq_status q = STATE_PROVIDER_FAILED" by blast
  then have "\<not> is_terminal_state (rq_status q)" using not_terminal by simp
  from release_settles [OF released(3) q(1) this] t(1) released(4,5) assms(3)
    attempts_below_frame [OF attempts_release [OF released(3)]]
  show ?thesis by (auto simp: settled_def)
qed simp_all

lemma attempt_round_next:
  assumes "ready (sv_db st) (er_request_id req) n" "n \<le> mx"
    "\<forall>r. last_response = Some r \<longrightarrow> \<not> es_success r"
    "attempt_round ro retry policy saved mx req xi st n last_response = (st', out)"
  shows "case out of
      Next_round r \<Rightarrow> \<not> es_success r \<and> n < mx \<and> ready (sv_db st') (er_request_id req) (n + 1)
    | Finished r \<Rightarrow> settled (sv_db st') (er_request_id req) r \<and>
                    attempts_below (sv_db st') (er_request_id req) (n + 1)
    | Failed_with e \<Rightarrow> True"
proof -
  obtain gw routed where s: "select_provider ro policy {} True (pass_of xi) (sv_gateway st) = (gw, routed)"
    by fastforce
  let ?st = "st\<lparr> sv_gateway := gw \<rparr>"
  have ready: "ready (sv_db ?st) (er_request_id req) n" using assms(1) by simp
  show ?thesis
  proof (cases routed)
    case (Inl e)
    show ?thesis
    proof (cases "e = NoEligibleProviderError")
      case True
      then have np: "no_provider ?st req n last_response = (st', out)"
        using assms(4) s Inl by (simp add: attempt_round_def)
      then have "\<exists>e r. out = Finished r \<or> out = Failed_with e"
        by (auto simp: no_provider_def Let_def split: sum.splits option.splits)
      with np no_provider_settles [OF ready _ assms(3), of st']
        attempts_below_mono [of "sv_db st'" "er_request_id req" n "n + 1"]
      show ?thesis by auto
    next
      case False
      then have "out = Failed_with e" using assms(4) s Inl by (simp add: attempt_round_def)
      then show ?thesis by simp
    qed
  next
    case (Inr routing)
    let ?d = "rs_descriptor routing"
    obtain st1 b where b: "begin_attempt saved ?st req n ?d last_response = (st1, b)" by fastforce
    from begin_ready [OF ready b] show ?thesis
    proof
      assume "\<exists>e. b = Inl (Failed_with e)"
      then obtain e where "b = Inl (Failed_with e)" ..
      then have "out = Failed_with e" using assms(4) s Inr b by (simp add: attempt_round_def Let_def)
      then show ?thesis by simp
    next
      assume fl: "b = Inr () \<and> attempts_below (sv_db st1) (er_request_id req) (n + 1) \<and>
        (\<exists>q. get_request (sv_db st1) (er_request_id req) = Some q \<and> rq_status q = STATE_IN_FLIGHT)"
      then have fl': "in_flight (sv_db st1) (er_request_id req) n" by (simp add: in_flight_def)
      have n: "1 \<le> n" using assms(1) by (simp add: ready_def)
      show ?thesis
      proof (cases "execute_attempt_with_timeout xi ?d req n")
        case (Inl e)
        then have "out = Failed_with e"
          using assms(4) s \<open>routed = Inr routing\<close> b fl by (simp add: attempt_round_def Let_def)
        then show ?thesis by simp
      next
        case (Inr r)
        note r = Inr
        show ?thesis
        proof (cases "es_success r")
          case True
          then have os: "on_success ro xi st1 req n ?d r = (st', out)"
            using assms(4) s \<open>routed = Inr routing\<close> b fl r by (simp add: attempt_round_def Let_def)
          then have "(\<exists>e. out = Failed_with e) \<or> out = Finished r"
            by (cases rule: on_success_cases) (rule disjI1, rule exI, assumption, rule disjI2)
          then show ?thesis
          proof
            assume "\<exists>e. out = Failed_with e"
            then show ?thesis by (elim exE) simp
          next
            assume f: "out = Finished r"
            from on_success_settles [OF fl' os [unfolded f] True] show ?thesis by (simp add: f)
          qed
        next
          case False
          then have "on_failure ro retry mx xi st1 req n ?d r = (st', out)"
            using assms(4) s \<open>routed = Inr routing\<close> b fl r by (simp add: attempt_round_def Let_def)
          from on_failure_next [OF fl' n False this] False show ?thesis
            by (cases out) auto
        qed
      qed
    qed
  qed
qed

lemma attempt_loop_settles:
  assumes "ready (sv_db st) (er_request_id req) n" "int k = mx - n + 1" "n \<le> mx"
    "\<forall>r. last_response = Some r \<longrightarrow> \<not> es_success r"
    "attempt_loop ro retry policy saved mx req xi k st n last_response = (st', Inr r)"
  shows "settled (sv_db st') (er_request_id req) r \<and> attempts_below (sv_db st') (er_request_id req) (mx + 1)"
  using assms
proof (induction k arbitrary: st n last_response)
  case 0
  then show ?case by simp
next
  case (Suc k)
  obtain st1 out where r: "attempt_round ro retry policy saved mx req (xi n) st n last_response = (st1, out)"
    by fastforce
  note nx = attempt_round_next [OF Suc.prems(1,3,4) r]
  show ?case
  proof (cases out)
    case (Next_round r1)
    with nx have "ready (sv_db st1) (er_request_id req) (n + 1)" "n + 1 \<le> mx" "\<not> es_success r1" by auto
    moreover have "attempt_loop ro retry policy saved mx req xi k st1 (n + 1) (Some r1) = (st', Inr r)"
      using Suc.prems(5) r Next_round by simp
    ultimately show ?thesis using Suc.IH [of st1 "n + 1" "Some r1"] Suc.prems(2) by simp
  next
    case (Finished r1)
    with nx Suc.prems(3,5) r attempts_below_mono [of "sv_db st1" "er_request_id req" "n + 1" "mx + 1"]
    show ?thesis by auto
  next
    case (Failed_with e)
    with Suc.prems(5) r show ?thesis by simp
  qed
qed

lemma execute_settles:
  assumes "execute ro retry policy saved None req xi st = (st', Inr r)"
    "attempts_below (sv_db st) (er_request_id req) 1"
    "1 \<le> er_max_attempts req" "1 \<le> rt_max_attempts retry"
  shows "settled (sv_db st') (er_request_id req) r \<and>
    attempts_below (sv_db st') (er_request_id req) (min (er_max_attempts req) (rt_max_attempts retry) + 1)"
proof -
  let ?k = "er_request_id req"
  let ?n = "er_estimated_input_tokens req + er_estimated_output_tokens req"
  let ?mx = "min (er_max_attempts req) (rt_max_attempts retry)"
  from assms(1) obtain db1 where c: "create_request None (sv_db st) ?k (er_task_id req)
      (er_budget_id req) (er_prompt_hash req) (er_context_hash req) = Inr db1"
    by (auto simp: execute_def split: sum.splits)
  with assms(1) obtain db2 where b: "reserve_budget db1 ?k ?n = Inr db2"
    by (auto simp: execute_def Let_def split: sum.splits)
  have loop: "attempt_loop ro retry policy saved ?mx req xi (nat ?mx) (with_db (with_db st db1) db2) 1 None =
      (st', Inr r)"
    using assms(1) c b by (simp add: execute_def Let_def)
  have "db_attempts db1 = db_attempts (sv_db st)" using c by (elim create_requestE) auto
  then have "attempts_below db2 ?k 1"
    using assms(2) attempts_below_frame [OF attempts_reserve [OF b]]
      attempts_below_frame [of db1 "sv_db st"] by simp
  moreover have "\<exists>q. get_request db2 ?k = Some q \<and> rq_status q = STATE_RESERVED"
    using b by (elim reserve_budgetE) auto
  ultimately have "ready (sv_db (with_db (with_db st db1) db2)) ?k 1" by (simp add: ready_def)
  from attempt_loop_settles [OF this _ _ _ loop] assms(3,4) show ?thesis by simp
qed

lemma execute_books:
  assumes "books_ok (sd_db saved)" "books_ok (sv_db st)" "\<And>db. flushed = Some db \<Longrightarrow> books_ok db"
    "execute ro retry policy saved flushed req xi st = (st', out)"
  shows "books_ok (sv_db st')"
proof (cases "create_request flushed (sv_db st) (er_request_id req) (er_task_id req)
             (er_budget_id req) (er_prompt_hash req) (er_context_hash req)")
  case (Inl e)
  with assms(2,4) show ?thesis by (simp add: execute_def)
next
  case (Inr db1)
  note c = Inr
  note b1 = create_request_books [OF assms(2) Inr assms(3)]
  show ?thesis
  proof (cases "reserve_budget db1 (er_request_id req)
                  (er_estimated_input_tokens req + er_estimated_output_tokens req)")
    case (Inl e)
    with assms(4) c b1 show ?thesis by (auto simp: execute_def)
  next
    case (Inr db2)
    have "books_ok (sv_db (with_db (with_db st db1) db2))"
      using reserve_budget_books [OF b1 Inr] by simp
    from attempt_loop_books [OF assms(1) this] assms(4) c Inr show ?thesis
      by (simp add: execute_def Let_def)
  qed
qed

section \<open>Properties\<close>

definition demo_request :: execution_request where
  "demo_request = \<lparr> er_request_id = ''r1'', er_task_id = ''t1'', er_budget_id = ''b1'',
     er_prompt = ''p'', er_prompt_hash = hash_of CHR ''a'', er_context_hash = hash_of CHR ''b'',
     er_estimated_input_tokens = 10, er_estimated_output_tokens = 4,
     er_per_attempt_timeout_seconds = 30, er_max_attempts = 3, er_max_response_bytes = 4096 \<rparr>"

definition demo_retry :: retry_policy where
  "demo_retry = \<lparr> rt_max_attempts = 2, rt_base_backoff_seconds = 1, rt_max_backoff_seconds = 8 \<rparr>"

text \<open>The first attempt times out, the second is answered.\<close>

definition demo_attempts :: "int \<Rightarrow> attempt_input" where
  "demo_attempts n = \<lparr> xi_breaker_clock = (\<lambda>_. 140), xi_cooldown_clock = (\<lambda>_. 140),
     xi_rate_clock = (\<lambda>_. 140), xi_outcome_clock = 141, xi_set_cooldown_clock = 141, xi_rng = 1,
     xi_call = (\<lambda>d. if n = 1 then CallTimedOut else Responded
        \<lparr> es_request_id = ''r1'', es_attempt_number = n, es_provider_id = pd_provider_id d,
          es_model_id = pd_model_id d, es_success = True, es_content = ''ok'',
          es_input_tokens = 9, es_output_tokens = 3, es_actual_cost_micro_units = 42,
          es_error_class = None \<rparr>) \<rparr>"

definition demo_saved :: saved_tables where
  "demo_saved = \<lparr> sd_db = fresh_db, sd_rates = [], sd_circuits = [] \<rparr>"

definition demo_service :: service_state where
  "demo_service = \<lparr> sv_db = fresh_db, sv_gateway = idle_gateway \<rparr>"

definition demo_run :: "service_state \<times> (ai_error + execution_response)" where
  "demo_run = execute demo_router demo_retry demo_routing demo_saved None demo_request demo_attempts
     demo_service"

lemma demo_run_success: "map_sum id es_success (snd demo_run) = Inr True"
  by code_simp

text \<open>
  C22: whenever the service returns a response (rather than raising), for
  any provider behaviour, clock and random numbers, the request is settled: nothing stays
  reserved for it; after a success it is completed and charged exactly the tokens and cost of
  the response, otherwise it is failed and charged nothing it did not use; and no attempt is
  recorded beyond the number both policies allow.
\<close>

theorem execute_settles_request:
  assumes "execute ro retry policy saved None req xi st = (st', Inr r)"
    "attempts_below (sv_db st) (er_request_id req) 1"
    "1 \<le> er_max_attempts req" "1 \<le> rt_max_attempts retry"
  shows "settled (sv_db st') (er_request_id req) r \<and>
    attempts_below (sv_db st') (er_request_id req) (min (er_max_attempts req) (rt_max_attempts retry) + 1)"
  by (rule execute_settles [OF assms])

lemma demo_run_returns:
  obtains st' r where "execute demo_router demo_retry demo_routing demo_saved None demo_request
      demo_attempts demo_service = (st', Inr r)" "es_success r" "demo_run = (st', Inr r)"
  using demo_run_success unfolding demo_run_def
  by (cases "execute demo_router demo_retry demo_routing demo_saved None demo_request
      demo_attempts demo_service"; cases "snd (execute demo_router demo_retry demo_routing demo_saved
      None demo_request demo_attempts demo_service)") auto

theorem execute_settles_request_witness:
  "case snd demo_run of
     Inl e \<Rightarrow> False
   | Inr r \<Rightarrow> es_success r \<and> settled (sv_db (fst demo_run)) ''r1'' r \<and>
       attempts_below (sv_db (fst demo_run)) ''r1'' 3"
proof -
  obtain st' r where run: "execute demo_router demo_retry demo_routing demo_saved None demo_request
      demo_attempts demo_service = (st', Inr r)" "es_success r" "demo_run = (st', Inr r)"
    by (rule demo_run_returns)
  have "attempts_below (sv_db demo_service) (er_request_id demo_request) 1"
    by (simp add: attempts_below_def demo_service_def fresh_db_def demo_db_def)
  from execute_settles_request [OF run(1) this] run(2)
  show ?thesis unfolding run(3) by (simp add: demo_request_def demo_retry_def)
qed

text \<open>
  C23: whatever happens during an execution (success, retries, a timeout, an
  exception of the provider call, no eligible provider, a rollback), the counters of every
  budget afterwards equal the totals over the requests charged to it.
\<close>

theorem execute_keeps_books:
  assumes "books_ok (sd_db saved)" "books_ok (sv_db st)"
    "case flushed of None \<Rightarrow> True | Some db \<Rightarrow> books_ok db"
  shows "books_ok (sv_db (fst (execute ro retry policy saved flushed req xi st)))"
  using assms by (intro execute_books [OF assms(1,2) _ prod.collapse [symmetric]]) simp

theorem execute_keeps_books_witness: "books_ok (sv_db (fst demo_run))"
  unfolding demo_run_def
  by (rule execute_keeps_books) (simp_all add: demo_saved_def demo_service_def fresh_db_books)

end
