(* ===== verification/PatchVerification.thy ===== *)
theory PatchVerification
  imports SecurityDecision
begin

text \<open>
  Post-apply verification of \<^verbatim>\<open>ai/remediation/verification.py\<close>: the semantic contract taken from
  a finding and its comparison with the findings of a fresh scan. Of a finding
  (\<^verbatim>\<open>core/finding/model.py\<close>) the fields the verifier reads are kept. \<open>sha256\<close> stands for the
  standard library's digest; running the project's own test suite is not modelled.
\<close>

text \<open>\<open>s or d\<close> on an optional string.\<close>

definition opt_or :: "string option \<Rightarrow> string \<Rightarrow> string" where
  "opt_or s d = (case s of None \<Rightarrow> d | Some x \<Rightarrow> if x = [] then d else x)"

datatype verification_status =
    VS_UNVERIFIED | VS_VERIFIED_FIXED | VS_STILL_VULNERABLE | VS_UNKNOWN
  | VS_VERIFICATION_FAILED | VS_ROLLBACK_REQUIRED

fun verification_status_value :: "verification_status \<Rightarrow> string" where
  "verification_status_value VS_UNVERIFIED = ''UNVERIFIED''"
| "verification_status_value VS_VERIFIED_FIXED = ''VERIFIED_FIXED''"
| "verification_status_value VS_STILL_VULNERABLE = ''STILL_VULNERABLE''"
| "verification_status_value VS_UNKNOWN = ''UNKNOWN''"
| "verification_status_value VS_VERIFICATION_FAILED = ''VERIFICATION_FAILED''"
| "verification_status_value VS_ROLLBACK_REQUIRED = ''ROLLBACK_REQUIRED''"

record finding =
  fi_finding_id :: string
  fi_rule_id :: string
  fi_fingerprint :: string
  fi_cwe_id :: string
  fi_file_path :: string
  fi_evidence_line :: "int option"
  fi_verdict :: "security_verdict option"

record verification_contract =
  vc_finding_id :: string
  vc_rule_id :: string
  vc_cwe_id :: string
  vc_sink_category :: string
  vc_file_path :: string
  vc_line_number :: int
  vc_affected_symbol :: string
  vc_evidence_fingerprint :: string

definition slashes :: "string \<Rightarrow> string" where
  "slashes p = py_replace1 (CHR 0x5C) (CHR ''/'') p"

definition cwe_of :: "finding \<Rightarrow> string" where
  "cwe_of f = or_else (fi_cwe_id f) ''UNKNOWN''"

definition sink_category_of :: "finding \<Rightarrow> string" where
  "sink_category_of f = (case fi_verdict f of None \<Rightarrow> ''UNKNOWN'' | Some v \<Rightarrow> sv_sink_category v)"

definition contract_from_finding :: "finding \<Rightarrow> verification_contract" where
  "contract_from_finding f =
     \<lparr> vc_finding_id = fi_finding_id f, vc_rule_id = fi_rule_id f, vc_cwe_id = cwe_of f,
       vc_sink_category = sink_category_of f, vc_file_path = slashes (fi_file_path f),
       vc_line_number = (case fi_evidence_line f of
           Some l \<Rightarrow> l
         | None \<Rightarrow> (case fi_verdict f of None \<Rightarrow> 0 | Some v \<Rightarrow> sv_line_number v)),
       vc_affected_symbol = (case fi_verdict f of None \<Rightarrow> ''UNKNOWN'' | Some v \<Rightarrow> sv_variable_version v),
       vc_evidence_fingerprint = (case fi_verdict f of
           None \<Rightarrow> fi_fingerprint f | Some v \<Rightarrow> sv_evidence_fingerprint v) \<rparr>"

record verification_result =
  vr_verification_id :: string
  vr_finding_id :: string
  vr_pre_apply_verdict_status :: string
  vr_post_apply_verdict_status :: string
  vr_status :: verification_status
  vr_contract :: verification_contract
  vr_matching_findings_count :: nat
  vr_details :: string

definition verification_fingerprint :: "(string \<Rightarrow> string) \<Rightarrow> verification_result \<Rightarrow> string" where
  "verification_fingerprint sha256 r =
     sha256 (py_join ''|''
       [ vr_verification_id r, vr_finding_id r, verification_status_value (vr_status r),
         vr_pre_apply_verdict_status r, vr_post_apply_verdict_status r,
         str_nat (vr_matching_findings_count r), vc_evidence_fingerprint (vr_contract r) ])"

text \<open>A finding of the fresh scan that still violates the contract.\<close>

definition semantic_match :: "verification_contract \<Rightarrow> finding \<Rightarrow> bool" where
  "semantic_match c g \<longleftrightarrow>
     slashes (fi_file_path g) = vc_file_path c \<and>
     (fi_rule_id g = vc_rule_id c \<or> vc_cwe_id c \<noteq> ''UNKNOWN'' \<and> cwe_of g = vc_cwe_id c) \<and>
     (sink_category_of g = vc_sink_category c \<or> vc_sink_category c = ''UNKNOWN'') \<and>
     (case fi_verdict g of None \<Rightarrow> True | Some v \<Rightarrow> sv_status v = VULNERABLE)"

definition verify_patch :: "finding \<Rightarrow> finding list \<Rightarrow> string \<Rightarrow> verification_result" where
  "verify_patch f post_apply_findings vid =
     (let contract = contract_from_finding f;
          match_count = length (filter (semantic_match contract) post_apply_findings)
      in \<lparr> vr_verification_id = vid, vr_finding_id = fi_finding_id f,
           vr_pre_apply_verdict_status =
             (case fi_verdict f of None \<Rightarrow> ''VULNERABLE'' | Some v \<Rightarrow> verdict_status_value (sv_status v)),
           vr_post_apply_verdict_status = (if match_count = 0 then ''SAFE'' else ''VULNERABLE''),
           vr_status = (if match_count = 0 then VS_VERIFIED_FIXED else VS_STILL_VULNERABLE),
           vr_contract = contract, vr_matching_findings_count = match_count,
           vr_details =
             (if match_count = 0
              then ''Vulnerability '' @ vc_rule_id contract @ '' ('' @ vc_cwe_id contract @
                   '') successfully eliminated in '' @ vc_file_path contract @ ''.''
              else ''Vulnerability persists post-patch: '' @ str_nat match_count @
                   '' matching SAST findings detected in '' @ vc_file_path contract @ ''.'') \<rparr>)"

section \<open>What a verification establishes\<close>

lemma verify_patch_fixed_iff:
  "vr_status (verify_patch f gs vid) = VS_VERIFIED_FIXED \<longleftrightarrow>
     (\<forall>g\<in>set gs. \<not> semantic_match (contract_from_finding f) g)"
  by (auto simp: verify_patch_def Let_def filter_empty_conv)

lemma verify_patch_status:
  "vr_status (verify_patch f gs vid) \<in> {VS_VERIFIED_FIXED, VS_STILL_VULNERABLE}"
  by (simp add: verify_patch_def Let_def)

text \<open>An unchanged vulnerable finding in the fresh scan is always recognised.\<close>

lemma verify_patch_persisting:
  assumes "f \<in> set gs" "case fi_verdict f of None \<Rightarrow> True | Some v \<Rightarrow> sv_status v = VULNERABLE"
  shows "vr_status (verify_patch f gs vid) = VS_STILL_VULNERABLE"
proof -
  have "semantic_match (contract_from_finding f) f"
    using assms(2) by (simp add: semantic_match_def contract_from_finding_def)
  with assms(1) have "vr_status (verify_patch f gs vid) \<noteq> VS_VERIFIED_FIXED"
    by (auto simp: verify_patch_fixed_iff)
  with verify_patch_status [of f gs vid] show ?thesis by simp
qed

text \<open>
  Findings the scan could not decide do not stand in the way: a scan whose findings all have
  the verdict UNKNOWN or NOT_PROVEN, like a scan that reports nothing, verifies any patch.
\<close>

lemma verify_patch_undecided:
  assumes "\<forall>g\<in>set gs. \<exists>v. fi_verdict g = Some v \<and> sv_status v \<noteq> VULNERABLE"
  shows "vr_status (verify_patch f gs vid) = VS_VERIFIED_FIXED"
  using assms by (fastforce simp: verify_patch_fixed_iff semantic_match_def)

section \<open>Properties\<close>

text \<open>
  A verification answers VERIFIED_FIXED exactly when no
  finding of the fresh scan matches the contract, and STILL_VULNERABLE in every other case; in
  particular an unchanged vulnerable finding is always recognised as still there.
\<close>

theorem verification_sound_for_vulnerable:
  "vr_status (verify_patch f gs vid) =
     (if \<exists>g\<in>set gs. semantic_match (contract_from_finding f) g
      then VS_STILL_VULNERABLE else VS_VERIFIED_FIXED) \<and>
   (semantic_match (contract_from_finding f) f \<longleftrightarrow>
     (case fi_verdict f of None \<Rightarrow> True | Some v \<Rightarrow> sv_status v = VULNERABLE))"
proof
  show "vr_status (verify_patch f gs vid) =
     (if \<exists>g\<in>set gs. semantic_match (contract_from_finding f) g
      then VS_STILL_VULNERABLE else VS_VERIFIED_FIXED)"
    using verify_patch_fixed_iff [of f gs vid] verify_patch_status [of f gs vid] by auto
  show "semantic_match (contract_from_finding f) f \<longleftrightarrow>
     (case fi_verdict f of None \<Rightarrow> True | Some v \<Rightarrow> sv_status v = VULNERABLE)"
    by (simp add: semantic_match_def contract_from_finding_def)
qed

text \<open>
  A fresh scan that decided nothing verifies every patch: when
  each finding it reports has a verdict other than VULNERABLE (the same finding as UNKNOWN, for
  instance), or it reports none, the answer is VERIFIED_FIXED with post-apply status SAFE.
\<close>

theorem undecided_scan_verifies_fix:
  assumes "list_all (\<lambda>g. map_option sv_status (fi_verdict g) \<notin> {None, Some VULNERABLE}) gs"
  shows "vr_status (verify_patch f gs vid) = VS_VERIFIED_FIXED \<and>
    vr_post_apply_verdict_status (verify_patch f gs vid) = ''SAFE''"
proof -
  have "\<forall>g\<in>set gs. \<exists>v. fi_verdict g = Some v \<and> sv_status v \<noteq> VULNERABLE"
    using assms by (auto simp: list_all_iff)
  then have "vr_status (verify_patch f gs vid) = VS_VERIFIED_FIXED" by (rule verify_patch_undecided)
  then show ?thesis by (simp add: verify_patch_def Let_def split: if_splits)
qed

definition demo_finding :: "verdict_status \<Rightarrow> finding" where
  "demo_finding s = \<lparr> fi_finding_id = ''F1'', fi_rule_id = ''R1'', fi_fingerprint = ''fp'',
     fi_cwe_id = ''CWE-89'', fi_file_path = ''a.php'', fi_evidence_line = Some 3,
     fi_verdict = Some (verdict_create (\<lambda>x. x) s CONF_LOW ''R1'' ''n9'' ''SQL'' ''a.php'' ''f'' 3
       ''$x#1'' None [] [] [] [] [] None None) \<rparr>"

theorem undecided_scan_verifies_fix_witness:
  "vr_status (verify_patch (demo_finding VULNERABLE) [demo_finding VERDICT_UNKNOWN] ''v1'') =
     VS_VERIFIED_FIXED"
  using undecided_scan_verifies_fix [of "[demo_finding VERDICT_UNKNOWN]" "demo_finding VULNERABLE" "''v1''"]
  by (simp add: demo_finding_def)

end
