(* ===== verification/LifecycleSM.thy ===== *)
theory LifecycleSM
  imports TransitionMatrix PatchVerification
begin

text \<open>
  The remediation lifecycle state machine of \<^verbatim>\<open>ai/remediation/state_machine.py\<close>: its matrix,
  the evidence contract that guards VERIFIED_FIXED, and the history of events. The clock's
  reading is the argument \<open>now\<close>, used when no timestamp is given.
\<close>

datatype lifecycle_state =
    DETECTED | EVIDENCE_VERIFIED | RCA_ESTABLISHED | REMEDIATION_PROPOSED | AWAITING_APPROVAL
  | REJECTED | APPROVED | SNAPSHOT_VERIFIED | APPLYING | APPLY_FAILED | APPLIED_UNVERIFIED
  | SECURITY_RESCAN | VERIFIED_FIXED | STILL_VULNERABLE | UNKNOWN | ROLLED_BACK
  | CRITICAL_RECOVERY_FAILURE

fun state_value :: "lifecycle_state \<Rightarrow> string" where
  "state_value DETECTED = ''DETECTED''"
| "state_value EVIDENCE_VERIFIED = ''EVIDENCE_VERIFIED''"
| "state_value RCA_ESTABLISHED = ''RCA_ESTABLISHED''"
| "state_value REMEDIATION_PROPOSED = ''REMEDIATION_PROPOSED''"
| "state_value AWAITING_APPROVAL = ''AWAITING_APPROVAL''"
| "state_value REJECTED = ''REJECTED''"
| "state_value APPROVED = ''APPROVED''"
| "state_value SNAPSHOT_VERIFIED = ''SNAPSHOT_VERIFIED''"
| "state_value APPLYING = ''APPLYING''"
| "state_value APPLY_FAILED = ''APPLY_FAILED''"
| "state_value APPLIED_UNVERIFIED = ''APPLIED_UNVERIFIED''"
| "state_value SECURITY_RESCAN = ''SECURITY_RESCAN''"
| "state_value VERIFIED_FIXED = ''VERIFIED_FIXED''"
| "state_value STILL_VULNERABLE = ''STILL_VULNERABLE''"
| "state_value UNKNOWN = ''UNKNOWN''"
| "state_value ROLLED_BACK = ''ROLLED_BACK''"
| "state_value CRITICAL_RECOVERY_FAILURE = ''CRITICAL_RECOVERY_FAILURE''"

datatype lifecycle_error =
    LifecycleValueError
  | InvalidStateTransitionError lifecycle_state lifecycle_state

text \<open>The transition matrix.\<close>

fun valid_transitions :: "lifecycle_state \<Rightarrow> lifecycle_state list" where
  "valid_transitions DETECTED = [EVIDENCE_VERIFIED]"
| "valid_transitions EVIDENCE_VERIFIED = [RCA_ESTABLISHED]"
| "valid_transitions RCA_ESTABLISHED = [REMEDIATION_PROPOSED]"
| "valid_transitions REMEDIATION_PROPOSED = [AWAITING_APPROVAL]"
| "valid_transitions AWAITING_APPROVAL = [APPROVED, REJECTED]"
| "valid_transitions APPROVED = [SNAPSHOT_VERIFIED]"
| "valid_transitions SNAPSHOT_VERIFIED = [APPLYING]"
| "valid_transitions APPLYING = [APPLIED_UNVERIFIED, APPLY_FAILED]"
| "valid_transitions APPLY_FAILED = [ROLLED_BACK, CRITICAL_RECOVERY_FAILURE]"
| "valid_transitions APPLIED_UNVERIFIED = [SECURITY_RESCAN]"
| "valid_transitions SECURITY_RESCAN = [VERIFIED_FIXED, STILL_VULNERABLE, UNKNOWN]"
| "valid_transitions STILL_VULNERABLE = [ROLLED_BACK]"
| "valid_transitions UNKNOWN = [ROLLED_BACK]"
| "valid_transitions ROLLED_BACK = [CRITICAL_RECOVERY_FAILURE]"
| "valid_transitions REJECTED = []"
| "valid_transitions VERIFIED_FIXED = []"
| "valid_transitions CRITICAL_RECOVERY_FAILURE = []"

section \<open>Evidence\<close>

datatype verification_authority =
    DETERMINISTIC_SAST | SECURITY_ENGINE | LLM_ADVISORY | AI_MODEL | HUMAN_CLAIM

fun authority_value :: "verification_authority \<Rightarrow> string" where
  "authority_value DETERMINISTIC_SAST = ''DETERMINISTIC_SAST''"
| "authority_value SECURITY_ENGINE = ''SECURITY_ENGINE''"
| "authority_value LLM_ADVISORY = ''LLM_ADVISORY''"
| "authority_value AI_MODEL = ''AI_MODEL''"
| "authority_value HUMAN_CLAIM = ''HUMAN_CLAIM''"

record evidence_contract =
  ec_finding_id :: string
  ec_proposal_fingerprint :: string
  ec_source_snapshot_hash :: string
  ec_post_apply_snapshot_hash :: string
  ec_verification_run_id :: string
  ec_verification_fingerprint :: string
  ec_authority :: verification_authority
  ec_verification_result :: "verification_result option"

definition make_contract :: "evidence_contract \<Rightarrow> lifecycle_error + evidence_contract" where
  "make_contract c =
     (if blank (ec_finding_id c) then Inl LifecycleValueError
      else if blank (ec_proposal_fingerprint c) then Inl LifecycleValueError
      else if blank (ec_source_snapshot_hash c) then Inl LifecycleValueError
      else if blank (ec_post_apply_snapshot_hash c) then Inl LifecycleValueError
      else if blank (ec_verification_run_id c) then Inl LifecycleValueError
      else if blank (ec_verification_fingerprint c) then Inl LifecycleValueError
      else if ec_authority c \<in> {LLM_ADVISORY, AI_MODEL, HUMAN_CLAIM} then Inl LifecycleValueError
      else case ec_verification_result c of
        None \<Rightarrow> Inr c
      | Some r \<Rightarrow>
          if vr_status r \<noteq> VS_VERIFIED_FIXED then Inl LifecycleValueError
          else if vr_finding_id r \<noteq> ec_finding_id c then Inl LifecycleValueError
          else Inr c)"

definition contract_from_result ::
  "verification_result \<Rightarrow> string \<Rightarrow> string \<Rightarrow> string \<Rightarrow> string \<Rightarrow> verification_authority \<Rightarrow>
     lifecycle_error + evidence_contract" where
  "contract_from_result r proposal src_snapshot post_snapshot fingerprint authority =
     make_contract
       \<lparr> ec_finding_id = vr_finding_id r, ec_proposal_fingerprint = proposal,
         ec_source_snapshot_hash = src_snapshot, ec_post_apply_snapshot_hash = post_snapshot,
         ec_verification_run_id = vr_verification_id r, ec_verification_fingerprint = fingerprint,
         ec_authority = authority, ec_verification_result = Some r \<rparr>"

section \<open>Events\<close>

record lifecycle_event =
  le_event_id :: string
  le_finding_id :: string
  le_previous_state :: lifecycle_state
  le_new_state :: lifecycle_state
  le_actor :: string
  le_timestamp :: string
  le_reason :: string
  le_evidence_references :: "string list"
  le_event_fingerprint :: string

definition lifecycle_fingerprint ::
  "(string \<Rightarrow> string) \<Rightarrow> string \<Rightarrow> string \<Rightarrow> lifecycle_state \<Rightarrow> lifecycle_state \<Rightarrow> string \<Rightarrow> string
     \<Rightarrow> string list \<Rightarrow> string" where
  "lifecycle_fingerprint sha256 event_id finding_id prev_state new_state actor timestamp evidence_refs =
     sha256 (py_join ''|''
       [ event_id, finding_id, state_value prev_state, state_value new_state, actor, timestamp,
         py_join ''|'' (sort evidence_refs) ])"

text \<open>An event with the defaults of its optional arguments filled in.\<close>

definition lifecycle_event_of ::
  "(string \<Rightarrow> string) \<Rightarrow> string \<Rightarrow> string \<Rightarrow> lifecycle_state \<Rightarrow> string \<Rightarrow> lifecycle_state \<Rightarrow> string
     \<Rightarrow> string \<Rightarrow> string list \<Rightarrow> string option \<Rightarrow> string option \<Rightarrow> lifecycle_event" where
  "lifecycle_event_of sha256 now finding_id prev_state tag target actor reason refs timestamp event_id =
     (let now_iso = opt_or timestamp now;
          evt_id = opt_or event_id
            (''evt_'' @ take 12 (sha256 (py_join ''|'' [finding_id, tag, state_value target, now_iso])))
      in \<lparr> le_event_id = evt_id, le_finding_id = finding_id, le_previous_state = prev_state,
           le_new_state = target, le_actor = actor, le_timestamp = now_iso, le_reason = reason,
           le_evidence_references = refs,
           le_event_fingerprint =
             lifecycle_fingerprint sha256 evt_id finding_id prev_state target actor now_iso refs \<rparr>)"

section \<open>The machine\<close>

record state_machine =
  lm_finding_id :: string
  lm_current_state :: lifecycle_state
  lm_history :: "lifecycle_event list"

definition new_machine ::
  "(string \<Rightarrow> string) \<Rightarrow> string \<Rightarrow> string \<Rightarrow> lifecycle_state \<Rightarrow> string \<Rightarrow> string option \<Rightarrow> string option
     \<Rightarrow> lifecycle_error + state_machine" where
  "new_machine sha256 now finding_id initial_state initial_actor created_at event_id =
     (if blank finding_id then Inl LifecycleValueError
      else Inr \<lparr> lm_finding_id = finding_id, lm_current_state = initial_state,
                 lm_history =
                   [lifecycle_event_of sha256 now finding_id initial_state ''init'' initial_state
                      initial_actor ''Initial state creation'' [] created_at event_id] \<rparr>)"

definition can_transition :: "state_machine \<Rightarrow> lifecycle_state \<Rightarrow> bool" where
  "can_transition sm target = (target \<in> set (valid_transitions (lm_current_state sm)))"

definition transition_reason :: "string \<Rightarrow> lifecycle_state \<Rightarrow> string" where
  "transition_reason reason target = or_else reason (''Transition to '' @ state_value target)"

definition transition ::
  "(string \<Rightarrow> string) \<Rightarrow> string \<Rightarrow> state_machine \<Rightarrow> lifecycle_state \<Rightarrow> string \<Rightarrow> string \<Rightarrow> string list
     \<Rightarrow> string option \<Rightarrow> string option \<Rightarrow> lifecycle_error + state_machine" where
  "transition sha256 now sm target actor reason refs timestamp event_id =
     (if target = VERIFIED_FIXED
      then Inl (InvalidStateTransitionError (lm_current_state sm) target)
      else if \<not> can_transition sm target
      then Inl (InvalidStateTransitionError (lm_current_state sm) target)
      else Inr (sm\<lparr> lm_current_state := target,
                    lm_history := lm_history sm @
                      [lifecycle_event_of sha256 now (lm_finding_id sm) (lm_current_state sm)
                         (state_value (lm_current_state sm)) target actor
                         (transition_reason reason target) refs timestamp event_id] \<rparr>))"

definition evidence_refs :: "evidence_contract \<Rightarrow> string list" where
  "evidence_refs e =
     [ ''proposal:'' @ ec_proposal_fingerprint e, ''src_snap:'' @ ec_source_snapshot_hash e,
       ''post_snap:'' @ ec_post_apply_snapshot_hash e, ''rescan_id:'' @ ec_verification_run_id e,
       ''verification_fp:'' @ ec_verification_fingerprint e ]"

definition fixed_reason :: "string \<Rightarrow> evidence_contract \<Rightarrow> string" where
  "fixed_reason reason e =
     or_else reason (''Deterministic verification fix confirmed via '' @ authority_value (ec_authority e))"

definition transition_verified_fixed ::
  "(string \<Rightarrow> string) \<Rightarrow> string \<Rightarrow> state_machine \<Rightarrow> evidence_contract \<Rightarrow> string \<Rightarrow> string
     \<Rightarrow> string option \<Rightarrow> string option \<Rightarrow> lifecycle_error + state_machine" where
  "transition_verified_fixed sha256 now sm e actor reason timestamp event_id =
     (if lm_current_state sm \<noteq> SECURITY_RESCAN
      then Inl (InvalidStateTransitionError (lm_current_state sm) VERIFIED_FIXED)
      else if ec_finding_id e \<noteq> lm_finding_id sm
      then Inl (InvalidStateTransitionError (lm_current_state sm) VERIFIED_FIXED)
      else Inr (sm\<lparr> lm_current_state := VERIFIED_FIXED,
                    lm_history := lm_history sm @
                      [lifecycle_event_of sha256 now (lm_finding_id sm) (lm_current_state sm)
                         (state_value (lm_current_state sm)) VERIFIED_FIXED actor
                         (fixed_reason reason e) (evidence_refs e) timestamp event_id] \<rparr>))"

section \<open>The matrix has no cycle\<close>

text \<open>The length of the longest path out of a state.\<close>

fun state_rank :: "lifecycle_state \<Rightarrow> nat" where
  "state_rank DETECTED = 12"
| "state_rank EVIDENCE_VERIFIED = 11"
| "state_rank RCA_ESTABLISHED = 10"
| "state_rank REMEDIATION_PROPOSED = 9"
| "state_rank AWAITING_APPROVAL = 8"
| "state_rank APPROVED = 7"
| "state_rank SNAPSHOT_VERIFIED = 6"
| "state_rank APPLYING = 5"
| "state_rank APPLIED_UNVERIFIED = 4"
| "state_rank SECURITY_RESCAN = 3"
| "state_rank APPLY_FAILED = 2"
| "state_rank STILL_VULNERABLE = 2"
| "state_rank UNKNOWN = 2"
| "state_rank ROLLED_BACK = 1"
| "state_rank REJECTED = 0"
| "state_rank VERIFIED_FIXED = 0"
| "state_rank CRITICAL_RECOVERY_FAILURE = 0"

definition lifecycle_allowed :: "lifecycle_state \<Rightarrow> lifecycle_state \<Rightarrow> bool" where
  "lifecycle_allowed s t = (t \<in> set (valid_transitions s))"

definition lifecycle_terminal :: "lifecycle_state \<Rightarrow> bool" where
  "lifecycle_terminal s = (s \<in> {REJECTED, VERIFIED_FIXED, CRITICAL_RECOVERY_FAILURE})"

lemma lifecycle_allowed_rank: "lifecycle_allowed s t \<Longrightarrow> state_rank t < state_rank s"
  by (cases s) (auto simp: lifecycle_allowed_def)

interpretation lifecycle: ranked_matrix lifecycle_allowed lifecycle_terminal state_rank
proof unfold_locales
  show "lifecycle_terminal s \<Longrightarrow> \<not> lifecycle_allowed s t" for s t
    by (auto simp: lifecycle_terminal_def lifecycle_allowed_def)
  show "\<not> lifecycle_allowed s s" for s using lifecycle_allowed_rank by blast
qed (rule lifecycle_allowed_rank)

lemma only_from_rescan: "lifecycle_allowed s VERIFIED_FIXED \<longleftrightarrow> s = SECURITY_RESCAN"
  by (cases s) (auto simp: lifecycle_allowed_def)

section \<open>Histories\<close>

text \<open>
  One call on the machine: a general transition, or the guarded one with a contract its
  constructor accepted. A call that raises leaves the machine as it was.
\<close>

datatype lifecycle_call =
    Transition lifecycle_state string string "string list" "string option" "string option"
  | VerifiedFixed evidence_contract string string "string option" "string option"

fun lifecycle_step ::
  "(string \<Rightarrow> string) \<Rightarrow> string \<Rightarrow> lifecycle_call \<Rightarrow> state_machine \<Rightarrow> lifecycle_error + state_machine" where
  "lifecycle_step sha256 now (Transition target actor reason refs timestamp event_id) sm =
     transition sha256 now sm target actor reason refs timestamp event_id"
| "lifecycle_step sha256 now (VerifiedFixed e actor reason timestamp event_id) sm =
     rbind (make_contract e) (\<lambda>e.
       transition_verified_fixed sha256 now sm e actor reason timestamp event_id)"

fun lifecycle_run ::
  "(string \<Rightarrow> string) \<Rightarrow> (string \<times> lifecycle_call) list \<Rightarrow> state_machine \<Rightarrow> state_machine" where
  "lifecycle_run sha256 [] sm = sm"
| "lifecycle_run sha256 ((now, call) # calls) sm =
     (case lifecycle_step sha256 now call sm of
        Inl _ \<Rightarrow> lifecycle_run sha256 calls sm
      | Inr sm' \<Rightarrow> lifecycle_run sha256 calls sm')"

text \<open>
  A well-formed machine: the history starts with the creation event, every later event starts
  where the one before ended, along the matrix, and the last one ends in the current state.
  Events carry the machine's finding and their own fingerprint, and VERIFIED_FIXED is only
  entered with the references of an accepted contract.
\<close>

definition event_ok :: "(string \<Rightarrow> string) \<Rightarrow> string \<Rightarrow> lifecycle_event \<Rightarrow> bool" where
  "event_ok sha256 finding ev \<longleftrightarrow>
     le_finding_id ev = finding \<and>
     le_event_fingerprint ev = lifecycle_fingerprint sha256 (le_event_id ev) finding
       (le_previous_state ev) (le_new_state ev) (le_actor ev) (le_timestamp ev)
       (le_evidence_references ev)"

definition proof_carrying :: "lifecycle_event \<Rightarrow> bool" where
  "proof_carrying ev \<longleftrightarrow> (le_new_state ev = VERIFIED_FIXED \<longrightarrow>
     le_previous_state ev = SECURITY_RESCAN \<and>
     (\<exists>e. make_contract e = Inr e \<and> ec_finding_id e = le_finding_id ev \<and>
          le_evidence_references ev = evidence_refs e))"

fun events_chain :: "lifecycle_state \<Rightarrow> lifecycle_event list \<Rightarrow> bool" where
  "events_chain s [] = True"
| "events_chain s (ev # evs) =
     (le_previous_state ev = s \<and> lifecycle_allowed s (le_new_state ev) \<and> proof_carrying ev \<and>
      events_chain (le_new_state ev) evs)"

definition last_state :: "lifecycle_state \<Rightarrow> lifecycle_event list \<Rightarrow> lifecycle_state" where
  "last_state s evs = (if evs = [] then s else le_new_state (last evs))"

definition machine_ok :: "(string \<Rightarrow> string) \<Rightarrow> lifecycle_state \<Rightarrow> state_machine \<Rightarrow> bool" where
  [inv_simps]: "machine_ok sha256 s0 sm \<longleftrightarrow>
     (\<exists>ev evs. lm_history sm = ev # evs \<and> le_new_state ev = s0 \<and> events_chain s0 evs \<and>
        lm_current_state sm = last_state s0 evs \<and>
        (\<forall>e\<in>set (ev # evs). event_ok sha256 (lm_finding_id sm) e))"

lemma events_chain_append:
  "events_chain s (evs @ [ev]) \<longleftrightarrow> events_chain s evs \<and> le_previous_state ev = last_state s evs \<and>
     lifecycle_allowed (last_state s evs) (le_new_state ev) \<and> proof_carrying ev"
  by (induction s evs rule: events_chain.induct) (auto simp: last_state_def)

lemma last_state_append [simp]: "last_state s (evs @ [ev]) = le_new_state ev"
  by (simp add: last_state_def)

lemma events_chain_states: "events_chain s evs \<Longrightarrow> chain_from lifecycle_allowed s (map le_new_state evs)"
  by (induction s evs rule: events_chain.induct) auto

lemma event_of_simps [simp]:
  "le_finding_id (lifecycle_event_of sha256 now f s tag t actor reason refs ts eid) = f"
  "le_previous_state (lifecycle_event_of sha256 now f s tag t actor reason refs ts eid) = s"
  "le_new_state (lifecycle_event_of sha256 now f s tag t actor reason refs ts eid) = t"
  "le_evidence_references (lifecycle_event_of sha256 now f s tag t actor reason refs ts eid) = refs"
  "event_ok sha256 f (lifecycle_event_of sha256 now f s tag t actor reason refs ts eid)"
  by (simp_all add: lifecycle_event_of_def event_ok_def Let_def)

lemma new_machine_ok:
  assumes "new_machine sha256 now f s0 actor ts eid = Inr sm"
  shows "machine_ok sha256 s0 sm"
proof -
  obtain tag reason where "sm = \<lparr> lm_finding_id = f, lm_current_state = s0,
    lm_history = [lifecycle_event_of sha256 now f s0 tag s0 actor reason [] ts eid] \<rparr>"
    using assms unfolding new_machine_def by (cases "blank f") (simp_all, metis)
  then show ?thesis unfolding machine_ok_def
    by (intro exI [of _ "lifecycle_event_of sha256 now f s0 tag s0 actor reason [] ts eid"]
        exI [of _ "[]"]) (simp add: last_state_def)
qed

lemma machine_ok_snoc:
  assumes "machine_ok sha256 s0 sm" "lifecycle_allowed (lm_current_state sm) (le_new_state ev)"
    "le_previous_state ev = lm_current_state sm" "proof_carrying ev"
    "event_ok sha256 (lm_finding_id sm) ev"
  shows "machine_ok sha256 s0
    (sm\<lparr> lm_current_state := le_new_state ev, lm_history := lm_history sm @ [ev] \<rparr>)"
proof -
  obtain ev0 evs where h: "lm_history sm = ev0 # evs" "le_new_state ev0 = s0" "events_chain s0 evs"
    "lm_current_state sm = last_state s0 evs" "\<forall>e\<in>set (ev0 # evs). event_ok sha256 (lm_finding_id sm) e"
    using assms(1) unfolding machine_ok_def by blast
  then have "events_chain s0 (evs @ [ev])" using assms(2-4) by (simp add: events_chain_append)
  with h assms(5) show ?thesis
    unfolding machine_ok_def by (intro exI [of _ ev0] exI [of _ "evs @ [ev]"]) auto
qed

lemma make_contract_same: "make_contract e = Inr e' \<Longrightarrow> e' = e"
  by (auto simp: make_contract_def split: if_splits option.splits)

lemma lifecycle_step_ok:
  assumes "machine_ok sha256 s0 sm" "lifecycle_step sha256 now call sm = Inr sm'"
  shows "machine_ok sha256 s0 sm' \<and> lm_finding_id sm' = lm_finding_id sm \<and>
    (\<exists>ev. lm_history sm' = lm_history sm @ [ev])"
proof (cases call)
  case (Transition target actor reason refs ts eid)
  define ev where "ev = lifecycle_event_of sha256 now (lm_finding_id sm) (lm_current_state sm)
    (state_value (lm_current_state sm)) target actor
    (transition_reason reason target) refs ts eid"
  from assms(2) Transition have t: "target \<noteq> VERIFIED_FIXED" "can_transition sm target"
    "sm' = sm\<lparr> lm_current_state := le_new_state ev, lm_history := lm_history sm @ [ev] \<rparr>"
    by (auto simp: transition_def ev_def split: if_splits)
  have "machine_ok sha256 s0 sm'"
    unfolding t(3) using assms(1) t(1,2)
    by (intro machine_ok_snoc)
      (simp_all add: ev_def can_transition_def lifecycle_allowed_def proof_carrying_def)
  with t(3) show ?thesis by simp
next
  case (VerifiedFixed e actor reason ts eid)
  define ev where "ev = lifecycle_event_of sha256 now (lm_finding_id sm) (lm_current_state sm)
    (state_value (lm_current_state sm)) VERIFIED_FIXED actor
    (fixed_reason reason e) (evidence_refs e) ts eid"
  from assms(2) VerifiedFixed have t: "make_contract e = Inr e" "lm_current_state sm = SECURITY_RESCAN"
    "ec_finding_id e = lm_finding_id sm"
    "sm' = sm\<lparr> lm_current_state := le_new_state ev, lm_history := lm_history sm @ [ev] \<rparr>"
    by (auto simp: transition_verified_fixed_def ev_def dest: make_contract_same split: if_splits)
  have pc: "proof_carrying ev"
    using t(1-3) unfolding proof_carrying_def ev_def by auto
  have "machine_ok sha256 s0 sm'"
    unfolding t(4)
  proof (rule machine_ok_snoc [OF assms(1)])
    show "lifecycle_allowed (lm_current_state sm) (le_new_state ev)"
      by (simp add: ev_def t(2) only_from_rescan)
    show "le_previous_state ev = lm_current_state sm" "event_ok sha256 (lm_finding_id sm) ev"
      by (simp_all add: ev_def)
  qed (rule pc)
  with t(4) show ?thesis by simp
qed

lemma lifecycle_run_ok:
  "machine_ok sha256 s0 sm \<Longrightarrow>
     machine_ok sha256 s0 (lifecycle_run sha256 calls sm) \<and>
     lm_finding_id (lifecycle_run sha256 calls sm) = lm_finding_id sm \<and>
     (\<exists>evs. lm_history (lifecycle_run sha256 calls sm) = lm_history sm @ evs)"
proof (induction sha256 calls sm rule: lifecycle_run.induct)
  case (2 sha256 now call calls sm)
  show ?case
  proof (cases "lifecycle_step sha256 now call sm")
    case (Inl e)
    with 2 show ?thesis by simp
  next
    case (Inr sm')
    note st = lifecycle_step_ok [OF 2(3) Inr]
    with 2(2) [OF Inr] show ?thesis using Inr by auto
  qed
qed simp

lemma machine_history_bound:
  assumes "machine_ok sha256 s0 sm"
  shows "length (lm_history sm) \<le> Suc (state_rank s0)"
proof -
  obtain ev evs where h: "lm_history sm = ev # evs" "events_chain s0 evs"
    using assms unfolding machine_ok_def by blast
  from lifecycle.chain_length [OF events_chain_states [OF h(2)]] h(1) show ?thesis by simp
qed

lemma events_chain_proof: "events_chain s evs \<Longrightarrow> ev \<in> set evs \<Longrightarrow> proof_carrying ev"
  by (induction s evs rule: events_chain.induct) auto

lemma fixed_has_proof:
  assumes "machine_ok sha256 s0 sm" "s0 \<noteq> VERIFIED_FIXED" "lm_current_state sm = VERIFIED_FIXED"
  shows "le_previous_state (last (lm_history sm)) = SECURITY_RESCAN \<and>
    (\<exists>e. make_contract e = Inr e \<and> ec_finding_id e = lm_finding_id sm \<and>
         le_evidence_references (last (lm_history sm)) = evidence_refs e)"
proof -
  obtain ev evs where h: "lm_history sm = ev # evs" "events_chain s0 evs"
    "lm_current_state sm = last_state s0 evs" "\<forall>e\<in>set (ev # evs). event_ok sha256 (lm_finding_id sm) e"
    using assms(1) unfolding machine_ok_def by blast
  with assms(2,3) have ne: "evs \<noteq> []" "le_new_state (last evs) = VERIFIED_FIXED"
    by (auto simp: last_state_def split: if_splits)
  then have l: "last (lm_history sm) = last evs" "last evs \<in> set evs" using h(1) by auto
  then have "le_finding_id (last evs) = lm_finding_id sm" using h(4) by (auto simp: event_ok_def)
  with events_chain_proof [OF h(2) l(2)] ne(2) l(1) show ?thesis
    unfolding proof_carrying_def by metis
qed

section \<open>Properties\<close>

text \<open>
  C27: whatever calls are made on a machine, in any order and with
  any arguments, raising calls included, it is in VERIFIED_FIXED only if it started there or
  its last event came from SECURITY_RESCAN and carries the references of an evidence contract
  that the contract's constructor accepts and that is about the machine's own finding; such a
  contract never names an LLM, a model or a human claim as its authority.
\<close>

theorem verified_fixed_needs_contract:
  assumes "new_machine sha256 now f s0 actor ts eid = Inr sm" "s0 \<noteq> VERIFIED_FIXED"
    "lm_current_state (lifecycle_run sha256 calls sm) = VERIFIED_FIXED"
  shows "let ev = last (lm_history (lifecycle_run sha256 calls sm)) in
    le_previous_state ev = SECURITY_RESCAN \<and>
    (\<exists>e. make_contract e = Inr e \<and> ec_finding_id e = f \<and>
       le_evidence_references ev = evidence_refs e \<and>
       ec_authority e \<notin> {LLM_ADVISORY, AI_MODEL, HUMAN_CLAIM})"
proof -
  note run = lifecycle_run_ok [OF new_machine_ok [OF assms(1)], of calls]
  have f: "lm_finding_id sm = f" using assms(1) by (auto simp: new_machine_def split: if_splits)
  obtain e where e: "make_contract e = Inr e" "ec_finding_id e = f"
    "le_evidence_references (last (lm_history (lifecycle_run sha256 calls sm))) = evidence_refs e"
    and p: "le_previous_state (last (lm_history (lifecycle_run sha256 calls sm))) = SECURITY_RESCAN"
    using fixed_has_proof [OF conjunct1 [OF run] assms(2,3)] run f by auto
  from e(1) have "ec_authority e \<notin> {LLM_ADVISORY, AI_MODEL, HUMAN_CLAIM}"
    by (auto simp: make_contract_def split: if_splits)
  with e p show ?thesis by (auto simp: Let_def)
qed

definition demo_contract :: evidence_contract where
  "demo_contract = \<lparr> ec_finding_id = ''F1'', ec_proposal_fingerprint = ''pf'',
     ec_source_snapshot_hash = ''s0'', ec_post_apply_snapshot_hash = ''s1'',
     ec_verification_run_id = ''v1'', ec_verification_fingerprint = ''vf'',
     ec_authority = SECURITY_ENGINE, ec_verification_result = None \<rparr>"

text \<open>Claims of a fix that are refused, then the accepted one.\<close>

definition demo_calls :: "(string \<times> lifecycle_call) list" where
  "demo_calls =
     [ (''t1'', Transition VERIFIED_FIXED ''bot'' ''done'' [] None None),
       (''t2'', VerifiedFixed (demo_contract\<lparr> ec_authority := AI_MODEL \<rparr>) ''bot'' [] None None),
       (''t3'', VerifiedFixed demo_contract ''engine'' [] None None),
       (''t4'', Transition ROLLED_BACK ''bot'' ''undo'' [] None None) ]"

theorem verified_fixed_needs_contract_witness:
  "case new_machine (\<lambda>s. s) ''t0'' ''F1'' SECURITY_RESCAN ''sys'' None None of
     Inl e \<Rightarrow> False
   | Inr sm \<Rightarrow> lm_current_state (lifecycle_run (\<lambda>s. s) demo_calls sm) = VERIFIED_FIXED \<and>
       le_previous_state (last (lm_history (lifecycle_run (\<lambda>s. s) demo_calls sm))) = SECURITY_RESCAN"
proof -
  have r: "map_sum id (\<lambda>sm. lm_current_state (lifecycle_run (\<lambda>s. s) demo_calls sm))
      (new_machine (\<lambda>s. s) ''t0'' ''F1'' SECURITY_RESCAN ''sys'' None None) = Inr VERIFIED_FIXED"
    by code_simp
  then obtain sm where sm: "new_machine (\<lambda>s. s) ''t0'' ''F1'' SECURITY_RESCAN ''sys'' None None = Inr sm"
    "lm_current_state (lifecycle_run (\<lambda>s. s) demo_calls sm) = VERIFIED_FIXED"
    by (cases "new_machine (\<lambda>s. s) ''t0'' ''F1'' SECURITY_RESCAN ''sys'' None None") auto
  from verified_fixed_needs_contract [OF sm(1) _ sm(2)] sm show ?thesis by (simp add: Let_def)
qed

text \<open>
  C28: a machine never accepts more than twelve transitions: the history,
  with the creation event, has at most one more event than the longest path out of the state it
  was created in, whatever calls are made.
\<close>

theorem lifecycle_terminates:
  assumes "new_machine sha256 now f s0 actor ts eid = Inr sm"
  shows "length (lm_history (lifecycle_run sha256 calls sm)) \<le> Suc (state_rank s0) \<and>
    state_rank s0 \<le> 12"
proof
  show "length (lm_history (lifecycle_run sha256 calls sm)) \<le> Suc (state_rank s0)"
    by (rule machine_history_bound [OF conjunct1 [OF lifecycle_run_ok [OF new_machine_ok [OF assms]]]])
  show "state_rank s0 \<le> 12" by (cases s0) simp_all
qed

theorem lifecycle_terminates_witness:
  "case new_machine (\<lambda>s. s) ''t0'' ''F1'' SECURITY_RESCAN ''sys'' None None of
     Inl e \<Rightarrow> False
   | Inr sm \<Rightarrow> length (lm_history (lifecycle_run (\<lambda>s. s) demo_calls sm)) \<le> 4"
proof -
  have "returns (new_machine (\<lambda>s. s) ''t0'' ''F1'' SECURITY_RESCAN ''sys'' None None)" by code_simp
  then obtain sm where sm: "new_machine (\<lambda>s. s) ''t0'' ''F1'' SECURITY_RESCAN ''sys'' None None = Inr sm"
    unfolding returns_iff by blast
  from lifecycle_terminates [OF sm, of demo_calls] sm show ?thesis by simp
qed

end
