(* ===== verification/AuditEvents.thy ===== *)
theory AuditEvents
  imports Prelude PatchVerification
begin

text \<open>
  The audit events of \<^verbatim>\<open>ai/remediation/audit.py\<close>: metadata with its privacy filter, the
  fingerprint that binds an event, and the constructor, export and import of events.
\<close>

datatype audit_event_type =
    AE_FINDING_DETECTED | AE_EVIDENCE_VERIFIED | AE_RCA_ESTABLISHED | AE_REMEDIATION_PROPOSED
  | AE_APPROVAL_GRANTED | AE_SNAPSHOT_CAPTURED | AE_PATCH_APPLIED | AE_VERIFICATION_STARTED
  | AE_VERIFIED_FIXED | AE_STILL_VULNERABLE | AE_ROLLBACK_STARTED | AE_ROLLBACK_COMPLETED
  | AE_CRITICAL_RECOVERY_FAILURE

fun event_type_value :: "audit_event_type \<Rightarrow> string" where
  "event_type_value AE_FINDING_DETECTED = ''FINDING_DETECTED''"
| "event_type_value AE_EVIDENCE_VERIFIED = ''EVIDENCE_VERIFIED''"
| "event_type_value AE_RCA_ESTABLISHED = ''RCA_ESTABLISHED''"
| "event_type_value AE_REMEDIATION_PROPOSED = ''REMEDIATION_PROPOSED''"
| "event_type_value AE_APPROVAL_GRANTED = ''APPROVAL_GRANTED''"
| "event_type_value AE_SNAPSHOT_CAPTURED = ''SNAPSHOT_CAPTURED''"
| "event_type_value AE_PATCH_APPLIED = ''PATCH_APPLIED''"
| "event_type_value AE_VERIFICATION_STARTED = ''VERIFICATION_STARTED''"
| "event_type_value AE_VERIFIED_FIXED = ''VERIFIED_FIXED''"
| "event_type_value AE_STILL_VULNERABLE = ''STILL_VULNERABLE''"
| "event_type_value AE_ROLLBACK_STARTED = ''ROLLBACK_STARTED''"
| "event_type_value AE_ROLLBACK_COMPLETED = ''ROLLBACK_COMPLETED''"
| "event_type_value AE_CRITICAL_RECOVERY_FAILURE = ''CRITICAL_RECOVERY_FAILURE''"

definition all_event_types :: "audit_event_type list" where
  "all_event_types =
     [ AE_FINDING_DETECTED, AE_EVIDENCE_VERIFIED, AE_RCA_ESTABLISHED, AE_REMEDIATION_PROPOSED,
       AE_APPROVAL_GRANTED, AE_SNAPSHOT_CAPTURED, AE_PATCH_APPLIED, AE_VERIFICATION_STARTED,
       AE_VERIFIED_FIXED, AE_STILL_VULNERABLE, AE_ROLLBACK_STARTED, AE_ROLLBACK_COMPLETED,
       AE_CRITICAL_RECOVERY_FAILURE ]"

datatype audit_error = AuditValueError

text \<open>The enum's lookup by value; an unknown value raises.\<close>

definition event_type_of :: "string \<Rightarrow> audit_error + audit_event_type" where
  "event_type_of s =
     (case find (\<lambda>t. event_type_value t = s) all_event_types of
        None \<Rightarrow> Inl AuditValueError | Some t \<Rightarrow> Inr t)"

section \<open>Metadata\<close>

type_synonym metadata = "(string \<times> string) list"

definition exempt_metadata_keys :: "string list" where
  "exempt_metadata_keys =
     [ ''token_id'', ''approval_token_id'', ''proposal_fingerprint'', ''verification_fingerprint'',
       ''source_snapshot_hash'', ''post_apply_snapshot_hash'', ''pre_apply_snapshot_hash'',
       ''token_fingerprint'', ''provenance_fingerprint'', ''transaction_id'', ''verification_id'',
       ''proposal_id'', ''finding_id'', ''rule_id'', ''cwe_id'', ''file_path'', ''target_files'',
       ''status'', ''reason'', ''approver'', ''approved_by'', ''repository_identity'' ]"

definition sensitive_key_substrings :: "string list" where
  "sensitive_key_substrings =
     [ ''password'', ''passwd'', ''secret'', ''access_token'', ''api_key'', ''authorization'',
       ''cookie'', ''credential'', ''private_key'', ''source_code'', ''raw_source'', ''diff'',
       ''patch_content'', ''original_text'', ''proposed_text'' ]"

definition sensitive_key :: "string \<Rightarrow> bool" where
  "sensitive_key k =
     (let key_lower = py_strip (py_lower k)
      in key_lower \<notin> set exempt_metadata_keys \<and>
         list_ex (\<lambda>s. contains s key_lower) sensitive_key_substrings)"

definition sanitize_metadata :: "metadata \<Rightarrow> audit_error + metadata" where
  "sanitize_metadata m =
     (if list_ex (\<lambda>(k, v). sensitive_key k) m then Inl AuditValueError
      else Inr (sort (map (\<lambda>(k, v). (py_strip k, py_strip v)) m)))"

section \<open>Events\<close>

record audit_event =
  ae_event_id :: string
  ae_event_type :: audit_event_type
  ae_finding_id :: string
  ae_lifecycle_state :: string
  ae_actor :: string
  ae_timestamp :: string
  ae_repository_identity :: string
  ae_predecessor_event_id :: "string option"
  ae_predecessor_event_fingerprint :: "string option"
  ae_proposal_fingerprint :: "string option"
  ae_source_snapshot_hash :: "string option"
  ae_post_apply_snapshot_hash :: "string option"
  ae_verification_run_id :: "string option"
  ae_verification_fingerprint :: "string option"
  ae_provenance_fingerprint :: "string option"
  ae_metadata :: metadata
  ae_event_fingerprint :: string

definition or_none :: "string option \<Rightarrow> string" where
  "or_none s = opt_or s ''NONE''"

definition event_preimage :: "audit_event \<Rightarrow> string" where
  "event_preimage e =
     py_join ''|''
       [ ae_event_id e, event_type_value (ae_event_type e), ae_finding_id e, ae_lifecycle_state e,
         ae_actor e, ae_timestamp e, py_rstrip1 (CHR ''/'') (slashes (ae_repository_identity e)),
         or_none (ae_predecessor_event_id e), or_none (ae_predecessor_event_fingerprint e),
         or_none (ae_proposal_fingerprint e), or_none (ae_source_snapshot_hash e),
         or_none (ae_post_apply_snapshot_hash e), or_none (ae_verification_run_id e),
         or_none (ae_verification_fingerprint e), or_none (ae_provenance_fingerprint e),
         py_join ''|'' (map (\<lambda>(k, v). k @ '':'' @ v) (sort (ae_metadata e))) ]"

definition compute_event_fingerprint :: "(string \<Rightarrow> string) \<Rightarrow> audit_event \<Rightarrow> string" where
  "compute_event_fingerprint sha256 e = sha256 (event_preimage e)"

text \<open>The checks of the constructor; an empty fingerprint is not compared.\<close>

definition construct_event :: "(string \<Rightarrow> string) \<Rightarrow> audit_event \<Rightarrow> audit_error + audit_event" where
  "construct_event sha256 e =
     (if blank (ae_event_id e) then Inl AuditValueError
      else if blank (ae_finding_id e) then Inl AuditValueError
      else
        rbind (sanitize_metadata (ae_metadata e)) (\<lambda>_.
          if ae_event_fingerprint e \<noteq> [] \<and>
             ae_event_fingerprint e \<noteq> compute_event_fingerprint sha256 e
          then Inl AuditValueError else Inr e))"

text \<open>
  The factory: metadata is sanitized and the fingerprint computed. Its arguments are the fields
  of an event whose fingerprint is ignored.
\<close>

definition create_event :: "(string \<Rightarrow> string) \<Rightarrow> audit_event \<Rightarrow> audit_error + audit_event" where
  "create_event sha256 args =
     rbind (sanitize_metadata (ae_metadata args)) (\<lambda>meta.
       let e = args\<lparr> ae_metadata := meta \<rparr>
       in construct_event sha256 (e\<lparr> ae_event_fingerprint := compute_event_fingerprint sha256 e \<rparr>))"

text \<open>
  Export to a dictionary and import from one. The exported fields are those of the event, with
  the metadata as a dictionary (a later value of a key replaces an earlier one); the import
  builds the event anew and does not read the exported fingerprint.
\<close>

definition meta_dict :: "metadata \<Rightarrow> metadata" where
  "meta_dict m = foldl (\<lambda>d (k, v). dset d k v) [] m"

definition event_to_dict :: "audit_event \<Rightarrow> audit_event" where
  "event_to_dict e = e\<lparr> ae_metadata := meta_dict (ae_metadata e) \<rparr>"

definition event_from_dict :: "(string \<Rightarrow> string) \<Rightarrow> audit_event \<Rightarrow> audit_error + audit_event" where
  "event_from_dict sha256 data = create_event sha256 data"

section \<open>Facts\<close>

lemma preimage_fingerprint [simp]: "event_preimage (e\<lparr> ae_event_fingerprint := f \<rparr>) = event_preimage e"
  by (simp add: event_preimage_def)

lemma preimage_meta:
  "event_preimage (e\<lparr> ae_event_fingerprint := f, ae_metadata := m \<rparr>) = event_preimage (e\<lparr> ae_metadata := m \<rparr>)"
  by (simp add: event_preimage_def)

lemma construct_event_same: "construct_event sha256 e = Inr e' \<Longrightarrow> e' = e"
  by (auto simp: construct_event_def split: if_splits)

definition private_meta :: "metadata \<Rightarrow> bool" where
  "private_meta m \<longleftrightarrow> (\<forall>(k, v)\<in>set m. \<not> sensitive_key k)"

lemma sanitize_private: "sanitize_metadata m = Inr m' \<Longrightarrow> private_meta m"
  by (auto simp: sanitize_metadata_def private_meta_def list_ex_iff split: if_splits)

text \<open>An event that was constructed: identified, free of sensitive keys, correctly fingerprinted.\<close>

definition event_valid :: "(string \<Rightarrow> string) \<Rightarrow> audit_event \<Rightarrow> bool" where
  "event_valid sha256 e \<longleftrightarrow>
     \<not> blank (ae_event_id e) \<and> \<not> blank (ae_finding_id e) \<and> private_meta (ae_metadata e) \<and>
     (ae_event_fingerprint e \<noteq> [] \<longrightarrow> ae_event_fingerprint e = compute_event_fingerprint sha256 e)"

lemma construct_event_iff:
  "construct_event sha256 e = Inr e' \<longleftrightarrow> e' = e \<and> event_valid sha256 e"
  by (auto simp: construct_event_def event_valid_def private_meta_def sanitize_metadata_def
      list_ex_iff split: if_splits)

lemma create_event_valid:
  assumes "create_event sha256 args = Inr e"
  shows "event_valid sha256 e" "ae_event_fingerprint e = compute_event_fingerprint sha256 e"
    "sanitize_metadata (ae_metadata args) = Inr (ae_metadata e)"
  using assms
  by (auto simp: create_event_def Let_def construct_event_iff compute_event_fingerprint_def)

lemma create_event_cases:
  "create_event sha256 args = Inr e \<longleftrightarrow>
     (\<exists>meta. sanitize_metadata (ae_metadata args) = Inr meta \<and>
        e = args\<lparr> ae_metadata := meta,
                 ae_event_fingerprint := compute_event_fingerprint sha256 (args\<lparr> ae_metadata := meta \<rparr>) \<rparr> \<and>
        event_valid sha256 e)"
  by (auto simp: create_event_def Let_def construct_event_iff)

text \<open>Metadata in the form the factory stores it: sanitizing it again changes nothing.\<close>

definition canonical_meta :: "metadata \<Rightarrow> bool" where
  "canonical_meta m \<longleftrightarrow> sanitize_metadata m = Inr m \<and> distinct (map fst m)"

lemma dset_fresh: "k \<notin> fst ` set m \<Longrightarrow> dset m k v = m @ [(k, v)]"
  by (induction m) auto

lemma meta_dict_distinct: "distinct (map fst m) \<Longrightarrow> meta_dict m = m"
proof (induction m rule: rev_induct)
  case (snoc p m)
  obtain k v where p: "p = (k, v)" by fastforce
  with snoc have "meta_dict (m @ [p]) = dset m k v" "k \<notin> fst ` set m"
    by (auto simp: meta_dict_def)
  with p show ?case by (simp add: dset_fresh)
qed (simp add: meta_dict_def)

section \<open>Properties\<close>

text \<open>
  Whatever arguments the factory is given, an event it returns is
  identified, carries no metadata under a sensitive key, and its fingerprint is the digest of
  its own fields; it differs from its arguments only in the sanitized metadata and the
  fingerprint.
\<close>

theorem created_event_private_and_bound:
  assumes "create_event sha256 args = Inr e"
  shows "\<not> blank (ae_event_id e) \<and> \<not> blank (ae_finding_id e) \<and>
    list_all (\<lambda>(k, v). \<not> sensitive_key k) (ae_metadata e) \<and>
    ae_event_fingerprint e = compute_event_fingerprint sha256 e \<and>
    e = args\<lparr> ae_metadata := ae_metadata e, ae_event_fingerprint := ae_event_fingerprint e \<rparr>"
proof -
  have "event_valid sha256 e" "ae_event_fingerprint e = compute_event_fingerprint sha256 e"
    by (rule create_event_valid [OF assms])+
  moreover have "e = args\<lparr> ae_metadata := ae_metadata e, ae_event_fingerprint := ae_event_fingerprint e \<rparr>"
    using assms by (auto simp: create_event_cases)
  ultimately show ?thesis by (simp add: event_valid_def private_meta_def list_all_iff)
qed

definition demo_event :: audit_event where
  "demo_event = \<lparr> ae_event_id = ''e1'', ae_event_type = AE_PATCH_APPLIED, ae_finding_id = ''F1'',
     ae_lifecycle_state = ''APPLYING'', ae_actor = ''bot'', ae_timestamp = ''t'',
     ae_repository_identity = ''repo'', ae_predecessor_event_id = None,
     ae_predecessor_event_fingerprint = None, ae_proposal_fingerprint = None,
     ae_source_snapshot_hash = None, ae_post_apply_snapshot_hash = None,
     ae_verification_run_id = None, ae_verification_fingerprint = None,
     ae_provenance_fingerprint = None,
     ae_metadata = [(''token_id'', '' 7 ''), (''Reason'', ''x'')], ae_event_fingerprint = [] \<rparr>"

theorem created_event_private_and_bound_witness:
  "case create_event (\<lambda>s. s) demo_event of
     Inl err \<Rightarrow> False
   | Inr e \<Rightarrow> ae_event_fingerprint e = compute_event_fingerprint (\<lambda>s. s) e"
proof -
  have "returns (create_event (\<lambda>s. s) demo_event)" by code_simp
  then obtain e where e: "create_event (\<lambda>s. s) demo_event = Inr e" unfolding returns_iff by blast
  from created_event_private_and_bound [OF e] e show ?thesis by simp
qed

end
