(* ===== verification/Snapshot.thy ===== *)
theory Snapshot
  imports PatchVerification
begin

text \<open>
  Source snapshots of \<^verbatim>\<open>ai/remediation/snapshot.py\<close> and the part of the file system they look
  at. A path is the list of its components from the root. The repository's files are a
  dictionary from resolved paths to their bytes; \<open>resolve\<close> is the operating system's path
  resolution (symbolic links and parent components), fixed during a transaction. A path it
  yields is not itself a link, so the code's second test for links never applies to one.
\<close>

type_synonym path = "string list"

definition path_parts :: "string \<Rightarrow> path" where
  "path_parts s = filter (\<lambda>p. p \<noteq> [] \<and> p \<noteq> ''.'') (py_split1 (CHR ''/'') s)"

text \<open>\<open>root / rel\<close>: an absolute right operand replaces the left one.\<close>

definition path_join :: "path \<Rightarrow> string \<Rightarrow> path" where
  "path_join root rel = (if startswith rel ''/'' then path_parts rel else root @ path_parts rel)"

definition path_str :: "path \<Rightarrow> string" where
  "path_str p = (if p = [] then ''/'' else concat (map (\<lambda>c. CHR ''/'' # c) p))"

definition is_relative_to :: "path \<Rightarrow> path \<Rightarrow> bool" where
  "is_relative_to p root = (take (length root) p = root)"

type_synonym files = "(path, string) dict"

record file_snapshot =
  fs_relative_path :: string
  fs_file_size :: nat
  fs_sha256 :: string
  fs_exists :: bool

record source_snapshot =
  ss_repository_root :: string
  ss_file_snapshots :: "file_snapshot list"
  ss_aggregate_hash :: string
  ss_created_at :: string

definition snapshot_record :: "file_snapshot \<Rightarrow> string" where
  "snapshot_record f =
     slashes (fs_relative_path f) @ '':'' @ fs_sha256 f @ '':'' @ str_nat (fs_file_size f) @ '':'' @
       str_bool (fs_exists f)"

definition compute_aggregate_hash :: "(string \<Rightarrow> string) \<Rightarrow> file_snapshot list \<Rightarrow> string" where
  "compute_aggregate_hash sha256 snaps =
     sha256 (py_join ''|'' (map snapshot_record (sort_key fs_relative_path snaps)))"

text \<open>One target: \<open>None\<close> when its path escapes the repository (ValueError).\<close>

definition capture_file ::
  "(string \<Rightarrow> string) \<Rightarrow> (path \<Rightarrow> path) \<Rightarrow> path \<Rightarrow> files \<Rightarrow> string \<Rightarrow> file_snapshot option" where
  "capture_file sha256 resolve root files target_rel =
     (let norm_rel = slashes target_rel;
          target_path = resolve (path_join root norm_rel)
      in if \<not> is_relative_to target_path root then None
         else case dget files target_path of
           Some content \<Rightarrow>
             Some \<lparr> fs_relative_path = norm_rel, fs_file_size = length content,
                    fs_sha256 = sha256 content, fs_exists = True \<rparr>
         | None \<Rightarrow>
             Some \<lparr> fs_relative_path = norm_rel, fs_file_size = 0, fs_sha256 = ''MISSING'',
                    fs_exists = False \<rparr>)"

fun capture_files ::
  "(string \<Rightarrow> string) \<Rightarrow> (path \<Rightarrow> path) \<Rightarrow> path \<Rightarrow> files \<Rightarrow> string list \<Rightarrow> file_snapshot list option" where
  "capture_files sha256 resolve root files [] = Some []"
| "capture_files sha256 resolve root files (t # ts) =
     (case capture_file sha256 resolve root files t of
        None \<Rightarrow> None
      | Some s \<Rightarrow> map_option ((#) s) (capture_files sha256 resolve root files ts))"

definition snapshot_capture ::
  "(string \<Rightarrow> string) \<Rightarrow> (path \<Rightarrow> path) \<Rightarrow> path \<Rightarrow> files \<Rightarrow> string list \<Rightarrow> string \<Rightarrow> source_snapshot option" where
  "snapshot_capture sha256 resolve root files targets now_iso =
     map_option (\<lambda>snaps.
       \<lparr> ss_repository_root = path_str root, ss_file_snapshots = snaps,
         ss_aggregate_hash = compute_aggregate_hash sha256 snaps, ss_created_at = now_iso \<rparr>)
       (capture_files sha256 resolve root files targets)"

datatype snapshot_verdict =
    SNAPSHOT_MATCH | AGGREGATE_HASH_MISMATCH | FILE_LIST_MISMATCH
  | FILE_MUTATED string | FILE_EXISTENCE_CHANGED string

definition snapshot_dict :: "source_snapshot \<Rightarrow> (string, file_snapshot) dict" where
  "snapshot_dict s = foldl (\<lambda>d f. dset d (fs_relative_path f) f) [] (ss_file_snapshots s)"

text \<open>The loop over the dictionary of the first snapshot; \<open>other\<close> has the same keys.\<close>

fun compare_files ::
  "(string, file_snapshot) dict \<Rightarrow> (string, file_snapshot) dict \<Rightarrow> snapshot_verdict" where
  "compare_files [] other = SNAPSHOT_MATCH"
| "compare_files ((rel, f) # d) other =
     (case dget other rel of
        None \<Rightarrow> compare_files d other
      | Some g \<Rightarrow>
          if fs_sha256 f \<noteq> fs_sha256 g then FILE_MUTATED rel
          else if fs_exists f \<noteq> fs_exists g then FILE_EXISTENCE_CHANGED rel
          else compare_files d other)"

definition verify_matches :: "source_snapshot \<Rightarrow> source_snapshot \<Rightarrow> snapshot_verdict" where
  "verify_matches s t =
     (if ss_aggregate_hash s \<noteq> ss_aggregate_hash t then AGGREGATE_HASH_MISMATCH
      else if set (dkeys (snapshot_dict s)) \<noteq> set (dkeys (snapshot_dict t)) then FILE_LIST_MISMATCH
      else compare_files (snapshot_dict s) (snapshot_dict t))"

section \<open>What a capture holds\<close>

lemma capture_file_iff:
  "capture_file sha256 resolve root files t = Some s \<longleftrightarrow>
     is_relative_to (resolve (path_join root (slashes t))) root \<and>
     s = (case dget files (resolve (path_join root (slashes t))) of
            Some c \<Rightarrow> \<lparr> fs_relative_path = slashes t, fs_file_size = length c, fs_sha256 = sha256 c,
                        fs_exists = True \<rparr>
          | None \<Rightarrow> \<lparr> fs_relative_path = slashes t, fs_file_size = 0, fs_sha256 = ''MISSING'',
                       fs_exists = False \<rparr>)"
  by (auto simp: capture_file_def Let_def split: option.splits)

text \<open>The records are those of the targets, in order; it is refused when a target escapes.\<close>

definition captured :: "(string \<Rightarrow> string) \<Rightarrow> (path \<Rightarrow> path) \<Rightarrow> path \<Rightarrow> files \<Rightarrow> string \<Rightarrow> file_snapshot" where
  "captured sha256 resolve root files t = the (capture_file sha256 resolve root files t)"

definition inside :: "(path \<Rightarrow> path) \<Rightarrow> path \<Rightarrow> string \<Rightarrow> bool" where
  "inside resolve root t = is_relative_to (resolve (path_join root (slashes t))) root"

lemma capture_file_cases:
  "capture_file sha256 resolve root files t =
     (if inside resolve root t then Some (captured sha256 resolve root files t) else None)"
  by (auto simp: captured_def inside_def capture_file_def Let_def split: option.splits)

lemma capture_files_cases:
  "capture_files sha256 resolve root files ts =
     (if list_all (inside resolve root) ts then Some (map (captured sha256 resolve root files) ts)
      else None)"
  by (induction ts) (auto simp: capture_file_cases)

lemma snapshot_capture_cases:
  "snapshot_capture sha256 resolve root files ts now =
     (if list_all (inside resolve root) ts
      then Some \<lparr> ss_repository_root = path_str root,
                  ss_file_snapshots = map (captured sha256 resolve root files) ts,
                  ss_aggregate_hash =
                    compute_aggregate_hash sha256 (map (captured sha256 resolve root files) ts),
                  ss_created_at = now \<rparr>
      else None)"
  by (simp add: snapshot_capture_def capture_files_cases)

text \<open>A digest as the code prints it: hexadecimal digits only.\<close>

definition hex_char :: "char \<Rightarrow> bool" where
  "hex_char c = (c \<in> set ''0123456789abcdef'')"

definition hex_digest :: "(string \<Rightarrow> string) \<Rightarrow> bool" where
  "hex_digest sha256 \<longleftrightarrow> (\<forall>s. list_all hex_char (sha256 s))"

definition content_of :: "(path \<Rightarrow> path) \<Rightarrow> path \<Rightarrow> files \<Rightarrow> string \<Rightarrow> string option" where
  "content_of resolve root files t = dget files (resolve (path_join root (slashes t)))"

lemma captured_simps:
  assumes "inside resolve root t"
  shows "fs_relative_path (captured sha256 resolve root files t) = slashes t"
    "fs_exists (captured sha256 resolve root files t) \<longleftrightarrow> content_of resolve root files t \<noteq> None"
    "content_of resolve root files t = Some c \<Longrightarrow> fs_sha256 (captured sha256 resolve root files t) = sha256 c"
    "content_of resolve root files t = None \<Longrightarrow> fs_sha256 (captured sha256 resolve root files t) = ''MISSING''"
  using assms
  by (auto simp: captured_def inside_def capture_file_def content_of_def Let_def split: option.splits)

lemma slashes_idem [simp]: "slashes (slashes p) = slashes p"
  by (simp add: slashes_def py_replace1_def)

text \<open>The part of a record after the path determines the digest and whether the file exists.\<close>

definition record_body :: "file_snapshot \<Rightarrow> string" where
  "record_body f = fs_sha256 f @ '':'' @ str_nat (fs_file_size f) @ '':'' @ str_bool (fs_exists f)"

lemma record_body_eq:
  assumes "CHR '':'' \<notin> set (fs_sha256 f)" "CHR '':'' \<notin> set (fs_sha256 g)" "record_body f = record_body g"
  shows "fs_sha256 f = fs_sha256 g \<and> fs_exists f = fs_exists g"
proof -
  have c: "CHR '':'' \<notin> set (str_nat n)" for n by (rule not_digit_str_nat) simp
  have "fs_sha256 f = fs_sha256 g \<and>
      str_nat (fs_file_size f) @ CHR '':'' # str_bool (fs_exists f) =
      str_nat (fs_file_size g) @ CHR '':'' # str_bool (fs_exists g)"
    by (rule split_at_first [OF assms(1,2)]) (use assms(3) in \<open>simp add: record_body_def\<close>)
  moreover from this have "str_bool (fs_exists f) = str_bool (fs_exists g)"
    using split_at_first [OF c c] by blast
  ultimately show ?thesis by (auto simp: str_bool_def split: if_splits)
qed

lemma hex_clean: "list_all hex_char s \<Longrightarrow> CHR '':'' \<notin> set s \<and> CHR ''|'' \<notin> set s"
proof -
  have "\<not> hex_char CHR '':''" "\<not> hex_char CHR ''|''" by (simp_all add: hex_char_def)
  then show "list_all hex_char s \<Longrightarrow> ?thesis" by (auto simp: list_all_iff)
qed

lemma hash_clean:
  assumes "hex_digest sha256" "inside resolve root t"
  shows "CHR '':'' \<notin> set (fs_sha256 (captured sha256 resolve root files t))"
    "CHR ''|'' \<notin> set (record_body (captured sha256 resolve root files t))"
proof -
  let ?f = "captured sha256 resolve root files t"
  have "list_all hex_char (fs_sha256 ?f) \<or> fs_sha256 ?f = ''MISSING''"
    using captured_simps(3,4) [OF assms(2)] assms(1)
    by (cases "content_of resolve root files t") (auto simp: hex_digest_def)
  then have h: "CHR '':'' \<notin> set (fs_sha256 ?f)" "CHR ''|'' \<notin> set (fs_sha256 ?f)"
    using hex_clean [of "fs_sha256 ?f"] by auto
  then show "CHR '':'' \<notin> set (fs_sha256 ?f)" by simp
  have "CHR ''|'' \<notin> set (str_nat n)" for n by (rule not_digit_str_nat) simp
  with h show "CHR ''|'' \<notin> set (record_body ?f)" by (auto simp: record_body_def str_bool_def)
qed

text \<open>Joined records over the same paths: record by record, the bodies agree.\<close>

lemma joined_bodies:
  assumes "\<forall>t\<in>set ts. CHR ''|'' \<notin> set (b1 t) \<and> CHR ''|'' \<notin> set (b2 t)"
    and "py_join ''|'' (map (\<lambda>t. p t @ b1 t) ts) = py_join ''|'' (map (\<lambda>t. p t @ b2 t) ts)"
  shows "\<forall>t\<in>set ts. b1 t = b2 t"
  using assms
proof (induction ts)
  case (Cons t ts)
  show ?case
  proof (cases "ts = []")
    case False
    then have "b1 t @ CHR ''|'' # py_join ''|'' (map (\<lambda>t. p t @ b1 t) ts) =
        b2 t @ CHR ''|'' # py_join ''|'' (map (\<lambda>t. p t @ b2 t) ts)"
      using Cons.prems(2) by (simp add: py_join_Cons)
    then have "b1 t = b2 t \<and> py_join ''|'' (map (\<lambda>t. p t @ b1 t) ts) = py_join ''|'' (map (\<lambda>t. p t @ b2 t) ts)"
      using Cons.prems(1) by (intro split_at_first) auto
    with Cons show ?thesis by simp
  qed (use Cons.prems in simp)
qed simp

definition aggregate_preimage :: "(string \<Rightarrow> string) \<Rightarrow> (path \<Rightarrow> path) \<Rightarrow> path \<Rightarrow> files \<Rightarrow> string list \<Rightarrow> string" where
  "aggregate_preimage sha256 resolve root files ts =
     py_join ''|'' (map snapshot_record
       (sort_key fs_relative_path (map (captured sha256 resolve root files) ts)))"

lemma aggregate_preimage_eq:
  assumes "list_all (inside resolve root) ts"
  shows "aggregate_preimage sha256 resolve root files ts =
    py_join ''|'' (map (\<lambda>t. (slashes t @ '':'') @ record_body (captured sha256 resolve root files t))
      (sort_key slashes ts))"
proof -
  have "sort_key fs_relative_path (map (captured sha256 resolve root files) ts) =
      map (captured sha256 resolve root files) (sort_key slashes ts)"
    unfolding sort_key_map using assms captured_simps(1)
    by (intro arg_cong [where f = "map _"] sort_key_agree) (simp add: list_all_iff)
  moreover have "snapshot_record (captured sha256 resolve root files t) =
      (slashes t @ '':'') @ record_body (captured sha256 resolve root files t)" if "t \<in> set ts" for t
    using that assms captured_simps(1) by (simp add: list_all_iff snapshot_record_def record_body_def)
  then have "map snapshot_record (map (captured sha256 resolve root files) (sort_key slashes ts)) =
      map (\<lambda>t. (slashes t @ '':'') @ record_body (captured sha256 resolve root files t)) (sort_key slashes ts)"
    by simp
  ultimately show ?thesis
    unfolding aggregate_preimage_def by (simp only:)
qed

text \<open>Two captures of the same targets with one preimage hold the same files, up to the digest.\<close>

lemma preimage_binds:
  assumes "hex_digest sha256" "list_all (inside resolve root) ts"
    and "aggregate_preimage sha256 resolve root files ts = aggregate_preimage sha256 resolve root files' ts"
    and "t \<in> set ts"
  shows "map_option sha256 (content_of resolve root files t) =
    map_option sha256 (content_of resolve root files' t)"
proof -
  let ?b = "\<lambda>fs t. record_body (captured sha256 resolve root fs t)"
  have ins: "inside resolve root u" if "u \<in> set ts" for u using that assms(2) by (simp add: list_all_iff)
  have "\<forall>u\<in>set (sort_key slashes ts). ?b files u = ?b files' u"
    using hash_clean(2) [OF assms(1) ins] assms(3)
    unfolding aggregate_preimage_eq [OF assms(2)]
    by (intro joined_bodies [where p = "\<lambda>t. slashes t @ '':''"]) auto
  then have "?b files t = ?b files' t" using assms(4) by simp
  from record_body_eq [OF hash_clean(1) [OF assms(1) ins [OF assms(4)]]
      hash_clean(1) [OF assms(1) ins [OF assms(4)]] this]
  show ?thesis using captured_simps(2-4) [OF ins [OF assms(4)]]
    by (cases "content_of resolve root files t"; cases "content_of resolve root files' t") auto
qed

text \<open>Two different inputs with one digest.\<close>

definition collides :: "(string \<Rightarrow> string) \<Rightarrow> string \<Rightarrow> string \<Rightarrow> bool" where
  "collides sha256 x y \<longleftrightarrow> x \<noteq> y \<and> sha256 x = sha256 y"

definition content_collision ::
  "(string \<Rightarrow> string) \<Rightarrow> (path \<Rightarrow> path) \<Rightarrow> path \<Rightarrow> files \<Rightarrow> files \<Rightarrow> string \<Rightarrow> bool" where
  "content_collision sha256 resolve root files files' t \<longleftrightarrow>
     (\<exists>c d. content_of resolve root files t = Some c \<and> content_of resolve root files' t = Some d \<and>
        collides sha256 c d)"

text \<open>Captures with one aggregate hash: no target has changed, or a collision is exhibited.\<close>

lemma aggregate_binds:
  assumes "hex_digest sha256"
    "snapshot_capture sha256 resolve root files ts now = Some s"
    "snapshot_capture sha256 resolve root files' ts now' = Some s'"
    "ss_aggregate_hash s = ss_aggregate_hash s'" "t \<in> set ts"
  shows "content_of resolve root files t = content_of resolve root files' t \<or>
    content_collision sha256 resolve root files files' t \<or>
    collides sha256 (aggregate_preimage sha256 resolve root files ts)
      (aggregate_preimage sha256 resolve root files' ts)"
proof -
  let ?p = "\<lambda>fs. aggregate_preimage sha256 resolve root fs ts"
  have ins: "list_all (inside resolve root) ts"
    using assms(2) by (auto simp: snapshot_capture_cases split: if_splits)
  have "sha256 (?p files) = sha256 (?p files')"
    using assms(2-4) ins
    by (auto simp: snapshot_capture_cases compute_aggregate_hash_def aggregate_preimage_def)
  then consider "?p files = ?p files'" | "collides sha256 (?p files) (?p files')"
    unfolding collides_def by blast
  then show ?thesis
  proof cases
    case 1
    from preimage_binds [OF assms(1) ins 1 assms(5)] show ?thesis
      by (auto simp: content_collision_def collides_def map_option_case split: option.splits)
  qed simp
qed

text \<open>A digest for concrete runs: every byte as two hexadecimal digits.\<close>

definition demo_digest :: "string \<Rightarrow> string" where
  "demo_digest s = concat (map (\<lambda>c. let n = (of_char c :: nat) in
     [''0123456789abcdef'' ! (n div 16), ''0123456789abcdef'' ! (n mod 16)]) s)"

lemma demo_digest_hex: "hex_digest demo_digest"
proof -
  have d: "hex_char (''0123456789abcdef'' ! d)" if "d < 16" for d
    unfolding hex_char_def by (rule nth_mem) (use that in simp)
  have "(of_char c :: nat) div 16 < 16" for c :: char
  proof -
    have "(of_char c :: nat) < 256" by (rule nat_of_char_less_256)
    then show ?thesis by (simp add: div_less_iff_less_mult)
  qed
  with d show ?thesis
    unfolding hex_digest_def demo_digest_def by (auto simp: list_all_iff Let_def)
qed

end
