(* ===== verification/Ledger.thy ===== *)
theory Ledger
  imports AuditEvents Snapshot
begin

text \<open>
  The append-only ledger of \<^verbatim>\<open>ai/remediation/ledger.py\<close>: a tuple of audit events linked by the
  identifier and fingerprint of the one before. The ledger is the list of its events.
\<close>

type_synonym ledger = "audit_event list"

definition latest_event :: "ledger \<Rightarrow> audit_event option" where
  "latest_event l = (if l = [] then None else Some (last l))"

definition get_event :: "ledger \<Rightarrow> string \<Rightarrow> audit_event option" where
  "get_event l event_id = find (\<lambda>e. ae_event_id e = event_id) l"

definition events_for_finding :: "ledger \<Rightarrow> string \<Rightarrow> audit_event list" where
  "events_for_finding l finding_id = filter (\<lambda>e. ae_finding_id e = finding_id) l"

definition events_by_state :: "ledger \<Rightarrow> string \<Rightarrow> audit_event list" where
  "events_by_state l state = filter (\<lambda>e. ae_lifecycle_state e = state) l"

definition ledger_fingerprint :: "(string \<Rightarrow> string) \<Rightarrow> ledger \<Rightarrow> string" where
  "ledger_fingerprint sha256 l =
     sha256 (py_join ''||'' (map (\<lambda>e. py_join '':''
       [ ae_event_id e, event_type_value (ae_event_type e), ae_event_fingerprint e,
         or_none (ae_predecessor_event_id e), or_none (ae_predecessor_event_fingerprint e) ]) l))"

text \<open>The loop of the chain check: what was seen so far and the event before, if any.\<close>

fun validate_from ::
  "(string \<Rightarrow> string) \<Rightarrow> string set \<Rightarrow> string set \<Rightarrow> audit_event option \<Rightarrow> audit_event list \<Rightarrow> bool" where
  "validate_from sha256 ids fps prev [] = True"
| "validate_from sha256 ids fps prev (e # es) =
     (ae_event_id e \<notin> ids \<and> ae_event_fingerprint e \<notin> fps \<and>
      ae_event_fingerprint e = compute_event_fingerprint sha256 e \<and>
      ae_predecessor_event_id e = map_option ae_event_id prev \<and>
      ae_predecessor_event_fingerprint e = map_option ae_event_fingerprint prev \<and>
      validate_from sha256 (insert (ae_event_id e) ids) (insert (ae_event_fingerprint e) fps) (Some e) es)"

definition validate_chain :: "(string \<Rightarrow> string) \<Rightarrow> ledger \<Rightarrow> audit_error + unit" where
  "validate_chain sha256 l =
     (if validate_from sha256 {} {} None l then Inr () else Inl AuditValueError)"

text \<open>The constructor validates the chain it is given.\<close>

definition make_ledger :: "(string \<Rightarrow> string) \<Rightarrow> audit_event list \<Rightarrow> audit_error + ledger" where
  "make_ledger sha256 es = rbind (validate_chain sha256 es) (\<lambda>_. Inr es)"

definition append_event :: "(string \<Rightarrow> string) \<Rightarrow> ledger \<Rightarrow> audit_event \<Rightarrow> audit_error + ledger" where
  "append_event sha256 l e =
     (if ae_event_id e \<in> ae_event_id ` set l then Inl AuditValueError
      else if ae_event_fingerprint e \<in> ae_event_fingerprint ` set l then Inl AuditValueError
      else if l = [] \<and> (ae_predecessor_event_id e \<noteq> None \<or> ae_predecessor_event_fingerprint e \<noteq> None)
      then Inl AuditValueError
      else if l \<noteq> [] \<and> ae_predecessor_event_id e \<noteq> Some (ae_event_id (last l))
      then Inl AuditValueError
      else if l \<noteq> [] \<and> ae_predecessor_event_fingerprint e \<noteq> Some (ae_event_fingerprint (last l))
      then Inl AuditValueError
      else make_ledger sha256 (l @ [e]))"

definition ledger_to_dict :: "ledger \<Rightarrow> audit_event list" where
  "ledger_to_dict l = map event_to_dict l"

fun ledger_load :: "(string \<Rightarrow> string) \<Rightarrow> ledger \<Rightarrow> audit_event list \<Rightarrow> audit_error + ledger" where
  "ledger_load sha256 l [] = Inr l"
| "ledger_load sha256 l (d # ds) =
     rbind (event_from_dict sha256 d) (\<lambda>e.
     rbind (append_event sha256 l e) (\<lambda>l'. ledger_load sha256 l' ds))"

definition ledger_from_dict :: "(string \<Rightarrow> string) \<Rightarrow> audit_event list \<Rightarrow> audit_error + ledger" where
  "ledger_from_dict sha256 data = ledger_load sha256 [] data"

section \<open>The chain\<close>

definition ledger_ok :: "(string \<Rightarrow> string) \<Rightarrow> ledger \<Rightarrow> bool" where
  [inv_simps]: "ledger_ok sha256 l \<longleftrightarrow> validate_from sha256 {} {} None l"

lemma validate_from_append:
  "validate_from sha256 ids fps prev (l @ [e]) \<longleftrightarrow>
     validate_from sha256 ids fps prev l \<and>
     ae_event_id e \<notin> ids \<union> ae_event_id ` set l \<and>
     ae_event_fingerprint e \<notin> fps \<union> ae_event_fingerprint ` set l \<and>
     ae_event_fingerprint e = compute_event_fingerprint sha256 e \<and>
     ae_predecessor_event_id e = map_option ae_event_id (if l = [] then prev else Some (last l)) \<and>
     ae_predecessor_event_fingerprint e =
       map_option ae_event_fingerprint (if l = [] then prev else Some (last l))"
  by (induction l arbitrary: ids fps prev) auto

lemma make_ledger_iff: "make_ledger sha256 l = Inr l' \<longleftrightarrow> l' = l \<and> ledger_ok sha256 l"
  by (auto simp: make_ledger_def validate_chain_def ledger_ok_def)

text \<open>Appending: exactly when the event is new, genuine and linked to the last one.\<close>

lemma append_event_iff:
  assumes "ledger_ok sha256 l"
  shows "append_event sha256 l e = Inr l' \<longleftrightarrow>
    l' = l @ [e] \<and>
    ae_event_id e \<notin> ae_event_id ` set l \<and> ae_event_fingerprint e \<notin> ae_event_fingerprint ` set l \<and>
    ae_event_fingerprint e = compute_event_fingerprint sha256 e \<and>
    ae_predecessor_event_id e = map_option ae_event_id (latest_event l) \<and>
    ae_predecessor_event_fingerprint e = map_option ae_event_fingerprint (latest_event l)"
  using assms
  by (auto simp: append_event_def make_ledger_iff ledger_ok_def validate_from_append latest_event_def)

lemma append_event_ok: "append_event sha256 l e = Inr l' \<Longrightarrow> ledger_ok sha256 l' \<and> l' = l @ [e]"
  by (auto simp: append_event_def make_ledger_iff split: if_splits)

lemma validate_from_member:
  "validate_from sha256 ids fps prev l \<Longrightarrow> e \<in> set l \<Longrightarrow>
     ae_event_fingerprint e = compute_event_fingerprint sha256 e"
  by (induction l arbitrary: ids fps prev) auto

lemma validate_from_distinct:
  "validate_from sha256 ids fps prev l \<Longrightarrow>
     distinct (map ae_event_id l) \<and> distinct (map ae_event_fingerprint l) \<and>
     ids \<inter> ae_event_id ` set l = {} \<and> fps \<inter> ae_event_fingerprint ` set l = {}"
  by (induction l arbitrary: ids fps prev) (auto, blast+)

lemma ledger_ok_distinct:
  "ledger_ok sha256 l \<Longrightarrow> distinct (map ae_event_id l) \<and> distinct (map ae_event_fingerprint l)"
  using validate_from_distinct by (auto simp: ledger_ok_def)

lemma validate_from_prefix:
  "validate_from sha256 ids fps prev (l @ m) \<Longrightarrow> validate_from sha256 ids fps prev l"
  by (induction l arbitrary: ids fps prev) auto

section \<open>What a fingerprint binds\<close>

text \<open>
  The text that is hashed joins the fields with \<open>|\<close> and the pairs of the metadata with \<open>:\<close>, writes
  a missing or empty optional field as \<open>NONE\<close> and normalises the repository's path. An event is
  unambiguous when none of this loses anything: no field holds a separator, no optional field is
  empty or the word \<open>NONE\<close>, the path is in normal form and the metadata is sorted.
\<close>

definition plain_optional :: "string option \<Rightarrow> bool" where
  "plain_optional s = (case s of None \<Rightarrow> True | Some x \<Rightarrow> x \<noteq> [] \<and> x \<noteq> ''NONE'' \<and> CHR ''|'' \<notin> set x)"

definition unambiguous :: "audit_event \<Rightarrow> bool" where
  "unambiguous e =
     (list_all (\<lambda>s. CHR ''|'' \<notin> set s)
        [ ae_event_id e, ae_finding_id e, ae_lifecycle_state e, ae_actor e, ae_timestamp e,
          ae_repository_identity e ] \<and>
      py_rstrip1 (CHR ''/'') (slashes (ae_repository_identity e)) = ae_repository_identity e \<and>
      list_all plain_optional
        [ ae_predecessor_event_id e, ae_predecessor_event_fingerprint e, ae_proposal_fingerprint e,
          ae_source_snapshot_hash e, ae_post_apply_snapshot_hash e, ae_verification_run_id e,
          ae_verification_fingerprint e, ae_provenance_fingerprint e ] \<and>
      list_all (\<lambda>(k, v). CHR ''|'' \<notin> set k \<and> CHR '':'' \<notin> set k \<and> CHR ''|'' \<notin> set v) (ae_metadata e) \<and>
      sorted (ae_metadata e))"

lemma or_none_plain: "plain_optional s \<Longrightarrow> CHR ''|'' \<notin> set (or_none s)"
  by (auto simp: plain_optional_def or_none_def opt_or_def split: option.splits)

lemma or_none_inj: "plain_optional s \<Longrightarrow> plain_optional t \<Longrightarrow> or_none s = or_none t \<Longrightarrow> s = t"
  by (auto simp: plain_optional_def or_none_def opt_or_def split: option.splits)

lemma event_type_plain: "CHR ''|'' \<notin> set (event_type_value t)"
  by (cases t) simp_all

lemma event_type_inj: "event_type_value t = event_type_value u \<Longrightarrow> t = u"
  by (cases t; cases u) simp_all

text \<open>The words of the hashed text.\<close>

definition event_words :: "audit_event \<Rightarrow> string list" where
  "event_words e =
     [ ae_event_id e, event_type_value (ae_event_type e), ae_finding_id e, ae_lifecycle_state e,
       ae_actor e, ae_timestamp e, ae_repository_identity e,
       or_none (ae_predecessor_event_id e), or_none (ae_predecessor_event_fingerprint e),
       or_none (ae_proposal_fingerprint e), or_none (ae_source_snapshot_hash e),
       or_none (ae_post_apply_snapshot_hash e), or_none (ae_verification_run_id e),
       or_none (ae_verification_fingerprint e), or_none (ae_provenance_fingerprint e) ] @
     (if ae_metadata e = [] then [[]] else map (\<lambda>(k, v). k @ '':'' @ v) (ae_metadata e))"

lemma py_join_nested: "py_join sep (xs @ [py_join sep ys]) = py_join sep (xs @ (if ys = [] then [[]] else ys))"
  by (induction xs) (auto simp: py_join_Cons)

lemma preimage_words: "unambiguous e \<Longrightarrow> event_preimage e = py_join ''|'' (event_words e)"
  unfolding event_preimage_def event_words_def
  using py_join_nested [of "''|''" "[ ae_event_id e, event_type_value (ae_event_type e), ae_finding_id e,
       ae_lifecycle_state e, ae_actor e, ae_timestamp e, ae_repository_identity e,
       or_none (ae_predecessor_event_id e), or_none (ae_predecessor_event_fingerprint e),
       or_none (ae_proposal_fingerprint e), or_none (ae_source_snapshot_hash e),
       or_none (ae_post_apply_snapshot_hash e), or_none (ae_verification_run_id e),
       or_none (ae_verification_fingerprint e), or_none (ae_provenance_fingerprint e) ]"
      "map (\<lambda>(k, v). k @ '':'' @ v) (ae_metadata e)"]
  by (simp add: unambiguous_def sort_key_id_if_sorted split: if_splits)

lemma words_plain: "unambiguous e \<Longrightarrow> w \<in> set (event_words e) \<Longrightarrow> CHR ''|'' \<notin> set w"
  by (auto simp: unambiguous_def event_words_def or_none_plain event_type_plain list_all_iff split: if_splits)

text \<open>A text joined from words without the separator is split into them again.\<close>

lemma split_word: "c \<notin> set x \<Longrightarrow> py_split1 c (x @ c # r) = x # py_split1 c r \<and> py_split1 c x = [x]"
  by (induction x) auto

lemma split_join: "xs \<noteq> [] \<Longrightarrow> \<forall>x\<in>set xs. c \<notin> set x \<Longrightarrow> py_split1 c (py_join [c] xs) = xs"
proof (induction xs)
  case (Cons x xs)
  then show ?case
    by (cases "xs = []") (simp_all add: py_join_Cons split_word)
qed simp

lemma metadata_words_inj:
  assumes "map (\<lambda>(k, v). k @ '':'' @ v) m = map (\<lambda>(k, v). k @ '':'' @ v) n"
    "list_all (\<lambda>(k, v). CHR '':'' \<notin> set k) m" "list_all (\<lambda>(k, v). CHR '':'' \<notin> set k) n"
  shows "m = n"
  using assms
proof (induction m arbitrary: n)
  case (Cons p m)
  obtain k v where p: "p = (k, v)" by (cases p)
  obtain k' v' n' where n: "n = (k', v') # n'" using Cons.prems(1) p by (cases n) auto
  from Cons.prems p n have "k @ CHR '':'' # v = k' @ CHR '':'' # v'" "CHR '':'' \<notin> set k" "CHR '':'' \<notin> set k'"
    by simp_all
  then have kv: "k = k' \<and> v = v'" by (intro split_at_first)
  have "m = n'" using Cons.prems p n by (intro Cons.IH) simp_all
  with kv p n show ?case by simp
qed simp

lemma event_text_binds:
  assumes e: "unambiguous e" and f: "unambiguous f" and eq: "event_preimage e = event_preimage f"
    and fp: "ae_event_fingerprint e = ae_event_fingerprint f"
  shows "e = f"
proof -
  have "event_words e = event_words f"
  proof -
    have "py_join ''|'' (event_words e) = py_join ''|'' (event_words f)"
      using eq preimage_words e f by simp
    then show ?thesis
      using split_join [of "event_words e" "CHR ''|''"] split_join [of "event_words f" "CHR ''|''"]
        words_plain [OF e] words_plain [OF f] by (auto simp: event_words_def)
  qed
  then have w: "ae_event_id e = ae_event_id f" "event_type_value (ae_event_type e) = event_type_value (ae_event_type f)"
    "ae_finding_id e = ae_finding_id f" "ae_lifecycle_state e = ae_lifecycle_state f" "ae_actor e = ae_actor f"
    "ae_timestamp e = ae_timestamp f" "ae_repository_identity e = ae_repository_identity f"
    "or_none (ae_predecessor_event_id e) = or_none (ae_predecessor_event_id f)"
    "or_none (ae_predecessor_event_fingerprint e) = or_none (ae_predecessor_event_fingerprint f)"
    "or_none (ae_proposal_fingerprint e) = or_none (ae_proposal_fingerprint f)"
    "or_none (ae_source_snapshot_hash e) = or_none (ae_source_snapshot_hash f)"
    "or_none (ae_post_apply_snapshot_hash e) = or_none (ae_post_apply_snapshot_hash f)"
    "or_none (ae_verification_run_id e) = or_none (ae_verification_run_id f)"
    "or_none (ae_verification_fingerprint e) = or_none (ae_verification_fingerprint f)"
    "or_none (ae_provenance_fingerprint e) = or_none (ae_provenance_fingerprint f)"
    "(if ae_metadata e = [] then [[]] else map (\<lambda>(k, v). k @ '':'' @ v) (ae_metadata e)) =
     (if ae_metadata f = [] then [[]] else map (\<lambda>(k, v). k @ '':'' @ v) (ae_metadata f))"
    unfolding event_words_def by simp_all
  have m: "list_all (\<lambda>(k, v). CHR '':'' \<notin> set k) (ae_metadata e)" "list_all (\<lambda>(k, v). CHR '':'' \<notin> set k) (ae_metadata f)"
    using e f by (auto simp: unambiguous_def list_all_iff)
  have "map (\<lambda>(k, v). k @ '':'' @ v) (ae_metadata e) = map (\<lambda>(k, v). k @ '':'' @ v) (ae_metadata f)"
    using w(16) by (cases "ae_metadata e"; cases "ae_metadata f") auto
  then have meta: "ae_metadata e = ae_metadata f" by (rule metadata_words_inj [OF _ m])
  have opts: "list_all plain_optional
        [ ae_predecessor_event_id x, ae_predecessor_event_fingerprint x, ae_proposal_fingerprint x,
          ae_source_snapshot_hash x, ae_post_apply_snapshot_hash x, ae_verification_run_id x,
          ae_verification_fingerprint x, ae_provenance_fingerprint x ]" if "unambiguous x" for x
    using that by (simp add: unambiguous_def)
  have same: "or_none (g e) = or_none (g f) \<Longrightarrow> plain_optional (g e) \<Longrightarrow> plain_optional (g f) \<Longrightarrow> g e = g f"
    for g :: "audit_event \<Rightarrow> string option" by (rule or_none_inj)
  note oe = opts [OF e, unfolded list.pred_inject] and of' = opts [OF f, unfolded list.pred_inject]
  have "ae_predecessor_event_id e = ae_predecessor_event_id f"
    "ae_predecessor_event_fingerprint e = ae_predecessor_event_fingerprint f"
    "ae_proposal_fingerprint e = ae_proposal_fingerprint f"
    "ae_source_snapshot_hash e = ae_source_snapshot_hash f"
    "ae_post_apply_snapshot_hash e = ae_post_apply_snapshot_hash f"
    "ae_verification_run_id e = ae_verification_run_id f"
    "ae_verification_fingerprint e = ae_verification_fingerprint f"
    "ae_provenance_fingerprint e = ae_provenance_fingerprint f"
    using oe of' w(8-15) by (blast intro: same)+
  with w(1-7) event_type_inj [OF w(2)] fp meta show ?thesis
    by (intro audit_event.equality) simp_all
qed

text \<open>
  Two valid ledgers of the same length that end in the same fingerprint are equal, or the digest
  collides on the texts of two of their events: the chain binds the whole history.
\<close>

lemma chain_binds:
  assumes "ledger_ok sha256 l" "ledger_ok sha256 m" "length l = length m"
    "map_option ae_event_fingerprint (latest_event l) = map_option ae_event_fingerprint (latest_event m)"
    "list_all unambiguous l" "list_all unambiguous m"
  shows "l = m \<or> (\<exists>e\<in>set l. \<exists>f\<in>set m. collides sha256 (event_preimage e) (event_preimage f))"
  using assms
proof (induction l arbitrary: m rule: rev_induct)
  case Nil
  then show ?case by simp
next
  case (snoc e l)
  then obtain f m' where m: "m = m' @ [f]" by (cases m rule: rev_cases) auto
  have ok: "ledger_ok sha256 l" "ledger_ok sha256 m'"
    using snoc.prems(1,2) m by (auto simp: ledger_ok_def intro: validate_from_prefix)
  have fp: "ae_event_fingerprint e = ae_event_fingerprint f"
    using snoc.prems(4) m by (simp add: latest_event_def)
  have dig: "sha256 (event_preimage e) = sha256 (event_preimage f)"
    using snoc.prems(1,2) m fp
    by (auto simp: ledger_ok_def validate_from_append compute_event_fingerprint_def)
  show ?case
  proof (cases "event_preimage e = event_preimage f")
    case False
    with dig m show ?thesis by (auto simp: collides_def)
  next
    case True
    then have ef: "e = f" using snoc.prems(5,6) m fp by (intro event_text_binds) auto
    have "map_option ae_event_fingerprint (latest_event l) = ae_predecessor_event_fingerprint e"
      "map_option ae_event_fingerprint (latest_event m') = ae_predecessor_event_fingerprint f"
      using snoc.prems(1,2) m by (auto simp: ledger_ok_def validate_from_append latest_event_def)
    with ef snoc.IH [OF ok] snoc.prems(3,5,6) m show ?thesis by auto
  qed
qed

text \<open>
  A separator inside a field moves text from one field to the next without changing the
  fingerprint, whatever the digest.
\<close>

lemma separator_shifts_fields:
  "compute_event_fingerprint sha256 (e\<lparr> ae_actor := a @ ''|'' @ b, ae_timestamp := c \<rparr>) =
   compute_event_fingerprint sha256 (e\<lparr> ae_actor := a, ae_timestamp := b @ ''|'' @ c \<rparr>)"
  by (simp add: compute_event_fingerprint_def event_preimage_def)

section \<open>Export and import\<close>

lemma event_round_trip:
  assumes "event_valid sha256 e" "canonical_meta (ae_metadata e)"
    "ae_event_fingerprint e = compute_event_fingerprint sha256 e"
  shows "event_from_dict sha256 (event_to_dict e) = Inr e"
proof -
  have m: "sanitize_metadata (ae_metadata e) = Inr (ae_metadata e)"
    "meta_dict (ae_metadata e) = ae_metadata e"
    using assms(2) by (auto simp: canonical_meta_def meta_dict_distinct)
  have same: "e\<lparr> ae_metadata := ae_metadata e \<rparr> = e" by simp
  have fp: "e\<lparr> ae_event_fingerprint := compute_event_fingerprint sha256 e \<rparr> = e"
    using assms(3) by (metis audit_event.surjective audit_event.update_convs(17))
  show ?thesis
    unfolding event_from_dict_def event_to_dict_def m(2) same create_event_cases
    using m(1) assms(1) fp by (intro exI [of _ "ae_metadata e"]) simp
qed

definition importable :: "(string \<Rightarrow> string) \<Rightarrow> audit_event \<Rightarrow> bool" where
  "importable sha256 e \<longleftrightarrow> event_valid sha256 e \<and> canonical_meta (ae_metadata e)"

lemma ledger_load_round_trip:
  assumes "ledger_ok sha256 (l @ m)" "\<forall>e\<in>set m. importable sha256 e"
  shows "ledger_load sha256 l (map event_to_dict m) = Inr (l @ m)"
  using assms
proof (induction m arbitrary: l)
  case (Cons e m)
  have ok: "ledger_ok sha256 l" "ledger_ok sha256 (l @ [e])"
    using Cons.prems(1) validate_from_prefix [of sha256 "{}" "{}" None l "e # m"]
      validate_from_prefix [of sha256 "{}" "{}" None "l @ [e]" m] by (auto simp: ledger_ok_def)
  have fp: "ae_event_fingerprint e = compute_event_fingerprint sha256 e"
    using ok(2) validate_from_member [of sha256 "{}" "{}" None "l @ [e]" e] by (simp add: ledger_ok_def)
  have "event_from_dict sha256 (event_to_dict e) = Inr e"
    using Cons.prems(2) fp by (intro event_round_trip) (auto simp: importable_def)
  moreover have "append_event sha256 l e = Inr (l @ [e])"
    using ok by (auto simp: append_event_iff ledger_ok_def validate_from_append latest_event_def)
  ultimately show ?case using Cons.IH [of "l @ [e]"] Cons.prems by simp
qed simp

text \<open>
  The import recomputes every fingerprint, so an altered last event is accepted as long as its
  new digest does not occur in the ledger.
\<close>

lemma last_event_unprotected:
  assumes "ledger_ok sha256 (l @ [e])" "\<forall>x\<in>set (l @ [e]). importable sha256 x"
    and "f = e\<lparr> ae_lifecycle_state := state, ae_actor := actor \<rparr>"
    and "compute_event_fingerprint sha256 f \<notin> ae_event_fingerprint ` set l"
  shows "ledger_from_dict sha256 (ledger_to_dict (l @ [f])) =
    Inr (l @ [f\<lparr> ae_event_fingerprint := compute_event_fingerprint sha256 f \<rparr>])"
proof -
  let ?f = "f\<lparr> ae_event_fingerprint := compute_event_fingerprint sha256 f \<rparr>"
  have ok: "ledger_ok sha256 l" using assms(1) by (auto simp: ledger_ok_def validate_from_append)
  have load: "ledger_load sha256 [] (map event_to_dict l) = Inr l"
    using ledger_load_round_trip [of sha256 "[]" l] ok assms(2) by simp
  have split: "ledger_load sha256 k (xs @ ys) = rbind (ledger_load sha256 k xs) (\<lambda>l. ledger_load sha256 l ys)"
    for k xs ys
    by (induction xs arbitrary: k) (auto simp: rbind_assoc)
  have cf: "compute_event_fingerprint sha256 ?f = compute_event_fingerprint sha256 f"
    by (simp add: compute_event_fingerprint_def)
  have cm: "canonical_meta (ae_metadata f)" "event_valid sha256 ?f"
    using assms(2,3) cf by (auto simp: importable_def event_valid_def)
  have "event_from_dict sha256 (event_to_dict ?f) = Inr ?f"
    using cm cf by (intro event_round_trip) auto
  moreover have "event_from_dict sha256 (event_to_dict ?f) = event_from_dict sha256 (event_to_dict f)"
    by (simp add: event_from_dict_def event_to_dict_def create_event_def Let_def
        compute_event_fingerprint_def preimage_meta)
  ultimately have imp: "event_from_dict sha256 (event_to_dict f) = Inr ?f" by simp
  have "append_event sha256 l ?f = Inr (l @ [?f])"
    using assms(1,3,4) cf ok
    by (auto simp: append_event_iff ledger_ok_def validate_from_append latest_event_def)
  with load imp show ?thesis
    by (simp add: ledger_from_dict_def ledger_to_dict_def split)
qed

section \<open>Properties\<close>

text \<open>
  C39: two valid ledgers of the same length whose last events carry the same fingerprint are the
  same ledger, event by event and field by field, or the digest collides on the texts of two of
  their events. The events are unambiguous: without that, text moves between neighbouring fields
  unnoticed.
\<close>

theorem ledger_binds_history:
  assumes "make_ledger sha256 l = Inr l'" "make_ledger sha256 m = Inr m'" "length l = length m"
    "map_option ae_event_fingerprint (latest_event l) = map_option ae_event_fingerprint (latest_event m)"
    and "list_all unambiguous l" "list_all unambiguous m"
  shows "l' = m' \<or> (\<exists>e\<in>set l. \<exists>f\<in>set m. collides sha256 (event_preimage e) (event_preimage f))"
  using chain_binds [OF _ _ assms(3-6)] assms(1,2) by (simp add: make_ledger_iff)

definition first_event :: "string \<Rightarrow> audit_event" where
  "first_event actor = (let e = demo_event\<lparr> ae_actor := actor, ae_metadata := [] \<rparr>
     in e\<lparr> ae_event_fingerprint := compute_event_fingerprint (\<lambda>s. s) e \<rparr>)"

definition second_event :: "string \<Rightarrow> audit_event" where
  "second_event actor = (let e = demo_event\<lparr> ae_event_id := ''e2'', ae_actor := actor,
       ae_metadata := [(''reason'', ''x'')], ae_predecessor_event_id := Some ''e1'',
       ae_predecessor_event_fingerprint := Some (ae_event_fingerprint (first_event ''bot'')) \<rparr>
     in e\<lparr> ae_event_fingerprint := compute_event_fingerprint (\<lambda>s. s) e \<rparr>)"

definition demo_ledger :: ledger where
  "demo_ledger = [first_event ''bot'', second_event ''eve'']"

lemma demo_ledger_valid: "ledger_ok (\<lambda>s. s) demo_ledger"
  unfolding ledger_ok_def by code_simp

lemma demo_ledger_importable: "\<forall>e\<in>set demo_ledger. importable (\<lambda>s. s) e"
proof -
  have "list_all (\<lambda>e. \<not> blank (ae_event_id e) \<and> \<not> blank (ae_finding_id e) \<and>
      list_all (\<lambda>(k, v). \<not> sensitive_key k) (ae_metadata e) \<and>
      ae_event_fingerprint e = compute_event_fingerprint (\<lambda>s. s) e \<and>
      sanitize_metadata (ae_metadata e) = Inr (ae_metadata e) \<and> distinct (map fst (ae_metadata e)))
      demo_ledger" by code_simp
  then show ?thesis
    unfolding list_all_iff importable_def event_valid_def canonical_meta_def private_meta_def by blast
qed

text \<open>A digest that maps everything to one text: two histories of one event each, told by two actors.\<close>

definition told_by :: "string \<Rightarrow> audit_event" where
  "told_by actor = (first_event actor)\<lparr> ae_event_fingerprint := ''00'' \<rparr>"

theorem ledger_binds_history_witness:
  "collides (\<lambda>s. ''00'') (event_preimage (told_by ''bot'')) (event_preimage (told_by ''eve''))"
proof -
  have "returns (make_ledger (\<lambda>s. ''00'') [told_by ''bot''])" "returns (make_ledger (\<lambda>s. ''00'') [told_by ''eve''])"
    "map_option ae_event_fingerprint (latest_event [told_by ''bot'']) =
     map_option ae_event_fingerprint (latest_event [told_by ''eve''])"
    "list_all unambiguous [told_by ''bot'']" "list_all unambiguous [told_by ''eve'']"
    by code_simp+
  then obtain l m where "make_ledger (\<lambda>s. ''00'') [told_by ''bot''] = Inr l"
      "make_ledger (\<lambda>s. ''00'') [told_by ''eve''] = Inr m"
    and rest: "map_option ae_event_fingerprint (latest_event [told_by ''bot'']) =
       map_option ae_event_fingerprint (latest_event [told_by ''eve''])"
      "list_all unambiguous [told_by ''bot'']" "list_all unambiguous [told_by ''eve'']"
    by (auto simp: returns_iff)
  moreover from this(1,2) have "l \<noteq> m"
  proof -
    have "told_by ''bot'' \<noteq> told_by ''eve''" by code_simp
    then show "l \<noteq> m" using calculation by (simp add: make_ledger_iff)
  qed
  ultimately show ?thesis
    using ledger_binds_history [of "\<lambda>s. ''00''" "[told_by ''bot'']" l "[told_by ''eve'']" m] by simp
qed

text \<open>
  C40: importing the export of a valid ledger whose events are as the factory
  makes them (valid, with sanitized metadata under distinct keys) gives back the same ledger:
  every event is accepted again, in order.
\<close>

theorem ledger_export_import:
  assumes "ledger_ok sha256 l" "\<forall>e\<in>set l. importable sha256 e"
  shows "ledger_from_dict sha256 (ledger_to_dict l) = Inr l"
  using ledger_load_round_trip [of sha256 "[]" l] assms
  by (simp add: ledger_from_dict_def ledger_to_dict_def)

theorem ledger_export_import_witness:
  "ledger_from_dict (\<lambda>s. s) (ledger_to_dict demo_ledger) = Inr demo_ledger"
  by (rule ledger_export_import [OF demo_ledger_valid demo_ledger_importable])

text \<open>
  The import does not read the exported fingerprints but computes
  them anew, so an export whose last event was altered (its state and actor replaced) is
  imported without an error, with a fresh fingerprint on the altered event.
\<close>

theorem altered_last_event_imported:
  assumes "ledger_ok sha256 (l @ [e])" "\<forall>x\<in>set (l @ [e]). importable sha256 x"
    and "f = e\<lparr> ae_lifecycle_state := state, ae_actor := actor \<rparr>"
    and "compute_event_fingerprint sha256 f \<notin> ae_event_fingerprint ` set l"
  shows "ledger_from_dict sha256 (ledger_to_dict (l @ [f])) =
    Inr (l @ [f\<lparr> ae_event_fingerprint := compute_event_fingerprint sha256 f \<rparr>])"
  by (rule last_event_unprotected [OF assms])

definition altered_event :: audit_event where
  "altered_event = (second_event ''eve'')\<lparr> ae_lifecycle_state := ''VERIFIED_FIXED'', ae_actor := ''bob'' \<rparr>"

theorem altered_last_event_imported_witness:
  "ledger_from_dict (\<lambda>s. s) (ledger_to_dict ([first_event ''bot''] @ [altered_event])) =
     Inr ([first_event ''bot''] @
       [altered_event\<lparr> ae_event_fingerprint := compute_event_fingerprint (\<lambda>s. s) altered_event \<rparr>])"
proof (rule altered_last_event_imported)
  show "ledger_ok (\<lambda>s. s) ([first_event ''bot''] @ [second_event ''eve''])"
    using demo_ledger_valid by (simp add: demo_ledger_def)
  show "\<forall>x\<in>set ([first_event ''bot''] @ [second_event ''eve'']). importable (\<lambda>s. s) x"
    using demo_ledger_importable by (simp add: demo_ledger_def)
  show "compute_event_fingerprint (\<lambda>s. s) altered_event \<notin>
      ae_event_fingerprint ` set [first_event ''bot'']" by code_simp
qed (rule altered_event_def)

end
