(* ===== verification/Approval.thy ===== *)
theory Approval
  imports PatchVerification
begin

text \<open>
  Patch approval tokens of \<^verbatim>\<open>ai/remediation/approval.py\<close>: their fingerprint, creation, use and
  verification. \<open>sha256\<close> is the digest and \<open>fromisoformat\<close> the standard library's parser of
  timestamps: it yields whether the time carries a zone and the instant, or nothing when it
  raises. Comparing a time with a zone to one without raises.
\<close>

datatype approval_status =
    AP_PENDING | AP_APPROVED | AP_REJECTED | AP_EXPIRED | AP_USED | AP_INVALIDATED

fun approval_status_value :: "approval_status \<Rightarrow> string" where
  "approval_status_value AP_PENDING = ''PENDING''"
| "approval_status_value AP_APPROVED = ''APPROVED''"
| "approval_status_value AP_REJECTED = ''REJECTED''"
| "approval_status_value AP_EXPIRED = ''EXPIRED''"
| "approval_status_value AP_USED = ''USED''"
| "approval_status_value AP_INVALIDATED = ''INVALIDATED''"

datatype approval_error = ApprovalValueError | ApprovalTypeError

record approval_token =
  tk_token_id :: string
  tk_finding_id :: string
  tk_proposal_fingerprint :: string
  tk_source_snapshot_hash :: string
  tk_target_files :: "string list"
  tk_repository_identity :: string
  tk_approved_by :: string
  tk_approved_at :: string
  tk_expires_at :: "string option"
  tk_approval_context :: string
  tk_status :: approval_status
  tk_token_fingerprint :: string

definition token_preimage :: "approval_token \<Rightarrow> string" where
  "token_preimage t =
     py_join ''|''
       [ tk_token_id t, tk_finding_id t, tk_proposal_fingerprint t, tk_source_snapshot_hash t,
         py_join ''|'' (sort (map slashes (tk_target_files t))), slashes (tk_repository_identity t),
         tk_approved_by t, tk_approved_at t, opt_or (tk_expires_at t) ''NEVER'', tk_approval_context t ]"

definition token_fingerprint :: "(string \<Rightarrow> string) \<Rightarrow> approval_token \<Rightarrow> string" where
  "token_fingerprint sha256 t = sha256 (token_preimage t)"

text \<open>The factory; \<open>tid\<close> and \<open>now\<close> are the generated identifier and the clock's reading.\<close>

definition create_token ::
  "(string \<Rightarrow> string) \<Rightarrow> string \<Rightarrow> string \<Rightarrow> string \<Rightarrow> string \<Rightarrow> string \<Rightarrow> string list \<Rightarrow> string \<Rightarrow>
     string \<Rightarrow> string option \<Rightarrow> string \<Rightarrow> string option \<Rightarrow> string option \<Rightarrow> approval_token" where
  "create_token sha256 tid now finding_id proposal snapshot files repository approved_by expires_at
       context token_id approved_at =
     (let t = \<lparr> tk_token_id = opt_or token_id tid, tk_finding_id = finding_id,
                tk_proposal_fingerprint = proposal, tk_source_snapshot_hash = snapshot,
                tk_target_files = files, tk_repository_identity = repository,
                tk_approved_by = approved_by, tk_approved_at = opt_or approved_at now,
                tk_expires_at = expires_at, tk_approval_context = context,
                tk_status = AP_APPROVED, tk_token_fingerprint = [] \<rparr>
      in t\<lparr> tk_token_fingerprint := token_fingerprint sha256 t \<rparr>)"

definition mark_used :: "approval_token \<Rightarrow> approval_error + approval_token" where
  "mark_used t = (if tk_status t = AP_USED then Inl ApprovalValueError else Inr (t\<lparr> tk_status := AP_USED \<rparr>))"

datatype token_verdict =
    TOKEN_VALID | TOKEN_ALREADY_USED | INVALID_TOKEN_STATUS | TOKEN_TAMPERED | FINDING_MISMATCH
  | PROPOSAL_FINGERPRINT_MISMATCH | SNAPSHOT_HASH_MISMATCH | REPOSITORY_MISMATCH | TOKEN_EXPIRED

definition norm_repository :: "string \<Rightarrow> string" where
  "norm_repository r = py_rstrip1 (CHR ''/'') (slashes r)"

text \<open>
  The expiry check: \<open>current\<close> is the caller's timestamp, \<open>now\<close> the clock in UTC used when there
  is none.
\<close>

definition expired ::
  "(string \<Rightarrow> (bool \<times> int) option) \<Rightarrow> int \<Rightarrow> string option \<Rightarrow> string \<Rightarrow> approval_error + bool" where
  "expired fromisoformat now current expires =
     (let now_dt = (if current = None \<or> current = Some [] then Some (True, now)
                    else fromisoformat (the current))
      in case now_dt of
           None \<Rightarrow> Inl ApprovalValueError
         | Some (zoned1, t1) \<Rightarrow>
             (case fromisoformat expires of
                None \<Rightarrow> Inl ApprovalValueError
              | Some (zoned2, t2) \<Rightarrow>
                  if zoned1 \<noteq> zoned2 then Inl ApprovalTypeError else Inr (t2 < t1)))"

definition verify_valid ::
  "(string \<Rightarrow> string) \<Rightarrow> (string \<Rightarrow> (bool \<times> int) option) \<Rightarrow> int \<Rightarrow> approval_token \<Rightarrow> string \<Rightarrow> string \<Rightarrow>
     string \<Rightarrow> string \<Rightarrow> string option \<Rightarrow> approval_error + token_verdict" where
  "verify_valid sha256 fromisoformat now t finding_id proposal snapshot repository current =
     (if tk_status t = AP_USED then Inr TOKEN_ALREADY_USED
      else if tk_status t \<noteq> AP_APPROVED then Inr INVALID_TOKEN_STATUS
      else if tk_token_fingerprint t \<noteq> token_fingerprint sha256 t then Inr TOKEN_TAMPERED
      else if tk_finding_id t \<noteq> finding_id then Inr FINDING_MISMATCH
      else if tk_proposal_fingerprint t \<noteq> proposal then Inr PROPOSAL_FINGERPRINT_MISMATCH
      else if tk_source_snapshot_hash t \<noteq> snapshot then Inr SNAPSHOT_HASH_MISMATCH
      else if norm_repository (tk_repository_identity t) \<noteq> norm_repository repository
      then Inr REPOSITORY_MISMATCH
      else case tk_expires_at t of
        None \<Rightarrow> Inr TOKEN_VALID
      | Some e \<Rightarrow>
          if e = [] then Inr TOKEN_VALID
          else rbind (expired fromisoformat now current e) (\<lambda>x.
            Inr (if x then TOKEN_EXPIRED else TOKEN_VALID)))"

section \<open>What a valid token binds\<close>

definition not_expired ::
  "(string \<Rightarrow> (bool \<times> int) option) \<Rightarrow> int \<Rightarrow> string option \<Rightarrow> approval_token \<Rightarrow> bool" where
  "not_expired fromisoformat now current t \<longleftrightarrow>
     (case tk_expires_at t of
        None \<Rightarrow> True
      | Some e \<Rightarrow> e = [] \<or> expired fromisoformat now current e = Inr False)"

lemma verify_valid_iff:
  "verify_valid sha256 ptime now t finding_id proposal snapshot repository current = Inr TOKEN_VALID \<longleftrightarrow>
     tk_status t = AP_APPROVED \<and> tk_token_fingerprint t = token_fingerprint sha256 t \<and>
     tk_finding_id t = finding_id \<and> tk_proposal_fingerprint t = proposal \<and>
     tk_source_snapshot_hash t = snapshot \<and>
     norm_repository (tk_repository_identity t) = norm_repository repository \<and>
     not_expired ptime now current t"
  by (auto simp: verify_valid_def not_expired_def split: option.splits)

lemma create_token_fields:
  "tk_status (create_token sha256 tid now f p s files r by exp ctx i at) = AP_APPROVED"
  "tk_token_fingerprint (create_token sha256 tid now f p s files r by exp ctx i at) =
     token_fingerprint sha256 (create_token sha256 tid now f p s files r by exp ctx i at)"
  "tk_finding_id (create_token sha256 tid now f p s files r by exp ctx i at) = f"
  "tk_proposal_fingerprint (create_token sha256 tid now f p s files r by exp ctx i at) = p"
  "tk_source_snapshot_hash (create_token sha256 tid now f p s files r by exp ctx i at) = s"
  "tk_repository_identity (create_token sha256 tid now f p s files r by exp ctx i at) = r"
  "tk_expires_at (create_token sha256 tid now f p s files r by exp ctx i at) = exp"
  by (simp_all add: create_token_def token_fingerprint_def token_preimage_def Let_def)

text \<open>A used token is never valid again and cannot be used again.\<close>

lemma used_token:
  assumes "mark_used t = Inr t'"
  shows "verify_valid sha256 ptime now t' f p s r current = Inr TOKEN_ALREADY_USED"
    "mark_used t' = Inl ApprovalValueError"
  using assms by (auto simp: mark_used_def verify_valid_def split: if_splits)

text \<open>The status is outside the fingerprint: putting it back makes the used token valid again.\<close>

lemma used_token_revived:
  assumes "verify_valid sha256 ptime now t f p s r current = Inr TOKEN_VALID" "mark_used t = Inr t'"
  shows "verify_valid sha256 ptime now (t'\<lparr> tk_status := AP_APPROVED \<rparr>) f p s r current = Inr TOKEN_VALID"
  using assms
  by (auto simp: verify_valid_iff mark_used_def not_expired_def token_fingerprint_def
      token_preimage_def split: if_splits)

section \<open>Properties\<close>

text \<open>
  A token verifies as valid only for the finding, proposal, source
  snapshot and repository it was created for, while approved, untampered and not expired; and
  once it is marked used, the used token is refused whatever it is verified against and cannot
  be used a second time.
\<close>

theorem token_single_use_binding:
  "(verify_valid sha256 ptime now t finding proposal snapshot repository current = Inr TOKEN_VALID \<longleftrightarrow>
     tk_status t = AP_APPROVED \<and> tk_token_fingerprint t = token_fingerprint sha256 t \<and>
     tk_finding_id t = finding \<and> tk_proposal_fingerprint t = proposal \<and>
     tk_source_snapshot_hash t = snapshot \<and>
     norm_repository (tk_repository_identity t) = norm_repository repository \<and>
     not_expired ptime now current t) \<and>
   (case mark_used t of
      Inl e \<Rightarrow> tk_status t = AP_USED
    | Inr t' \<Rightarrow>
        verify_valid sha256 ptime now t' finding proposal snapshot repository current =
          Inr TOKEN_ALREADY_USED \<and>
        mark_used t' = Inl ApprovalValueError)"
proof
  show "case mark_used t of
      Inl e \<Rightarrow> tk_status t = AP_USED
    | Inr t' \<Rightarrow>
        verify_valid sha256 ptime now t' finding proposal snapshot repository current =
          Inr TOKEN_ALREADY_USED \<and>
        mark_used t' = Inl ApprovalValueError"
  proof (cases "mark_used t")
    case (Inl e)
    then show ?thesis by (auto simp: mark_used_def split: if_splits)
  next
    case (Inr t')
    with used_token [OF Inr] show ?thesis by simp
  qed
qed (rule verify_valid_iff)

text \<open>
  The status is not part of the token's fingerprint: resetting it on a
  stored used token makes the token valid again, for everything it was valid for before.
\<close>

theorem used_token_replayable:
  assumes "verify_valid sha256 ptime now t f p s r current = Inr TOKEN_VALID" "mark_used t = Inr t'"
  shows "verify_valid sha256 ptime now (t'\<lparr> tk_status := AP_APPROVED \<rparr>) f p s r current = Inr TOKEN_VALID"
  by (rule used_token_revived [OF assms])

definition demo_token :: approval_token where
  "demo_token = create_token (\<lambda>x. x) ''t1'' ''now'' ''F1'' ''pf'' ''s0'' [''a.php''] ''repo/'' ''alice''
     None [] None None"

theorem used_token_replayable_witness:
  "verify_valid (\<lambda>x. x) (\<lambda>x. None) 0 ((demo_token\<lparr> tk_status := AP_USED \<rparr>)\<lparr> tk_status := AP_APPROVED \<rparr>)
     ''F1'' ''pf'' ''s0'' ''repo'' None = Inr TOKEN_VALID"
proof (rule used_token_replayable)
  show "verify_valid (\<lambda>x. x) (\<lambda>x. None) 0 demo_token ''F1'' ''pf'' ''s0'' ''repo'' None = Inr TOKEN_VALID"
    by code_simp
  show "mark_used demo_token = Inr (demo_token\<lparr> tk_status := AP_USED \<rparr>)"
    by (simp add: mark_used_def demo_token_def create_token_fields)
qed

end
