(* ===== verification/Consensus.thy ===== *)
theory Consensus
  imports Prelude
begin

text \<open>
  The multi-node consensus engine of \<^verbatim>\<open>analysis/distributed/consensus.py\<close> (with the network
  conditions of \<^verbatim>\<open>analysis/distributed/partition.py\<close>): authority proposals, validation of a
  held authority, replicated events and the merge after a partition heals. The diagnostic texts
  of a result (its reason, its table of invariant names and its details) are left out; the JSON
  digest of a snapshot is a function \<open>digest\<close> of its canonical content.
\<close>

datatype network_condition =
    NC_HEALTHY | NC_DEGRADED | NC_DELAYED | NC_DROPPED | NC_PARTITIONED | NC_RECOVERING | NC_UNKNOWN

datatype consensus_failure =
    NO_FAILURE | NO_QUORUM | UNKNOWN_CONNECTIVITY | STALE_EPOCH | STALE_FENCING_TOKEN
  | DUPLICATE_EVENT | OUT_OF_ORDER_EVENT | SPLIT_BRAIN | MEMBERSHIP_CONFLICT | RECOVERY_CONFLICT
  | CONVERGENCE_FAILURE

datatype consensus_status =
    AUTHORITY_GRANTED | BLOCKED_NO_QUORUM | REJECTED_STALE | REJECTED_SPLIT_BRAIN
  | BLOCKED_FAIL_CLOSED | CONVERGED

record membership_view =
  mv_view_id :: string
  mv_members :: "string list"
  mv_epoch :: int
  mv_quorum_override :: "int option"

definition calculate_quorum :: "membership_view \<Rightarrow> int" where
  "calculate_quorum v =
     (case mv_quorum_override v of
        Some q \<Rightarrow> q
      | None \<Rightarrow> int (length (mv_members v)) div 2 + 1)"

record authority_lease =
  al_resource_id :: string
  al_node_id :: string
  al_consensus_domain :: string
  al_epoch :: int
  al_fencing_token :: int
  al_granted :: bool

record consensus_event =
  ce_event_id :: string
  ce_event_type :: string
  ce_epoch :: int
  ce_fencing_token :: int
  ce_sequence :: int
  ce_source_node :: string
  ce_resource_id :: string
  ce_membership_digest :: string
  ce_payload :: string

record consensus_proposal =
  cp_proposal_id :: string
  cp_resource_id :: string
  cp_proposer_node :: string
  cp_target_epoch :: int
  cp_target_fencing_token :: int
  cp_votes :: "string list"
  cp_membership_view :: membership_view
  cp_connectivity :: network_condition

record consensus_snapshot =
  cs_epoch :: int
  cs_fencing_token :: int
  cs_membership :: "string list"
  cs_authorities :: "authority_lease list"
  cs_sequence :: int

record consensus_result =
  cr_status :: consensus_status
  cr_failure_type :: consensus_failure
  cr_lease :: "authority_lease option"
  cr_epoch :: int
  cr_fencing_token :: int
  cr_valid_votes_count :: int
  cr_quorum_required :: int
  cr_snapshot :: "consensus_snapshot option"

record consensus_engine =
  en_domain :: string
  en_current_epoch :: int
  en_current_fencing_token :: int
  en_sequence :: int
  en_active_leases :: "(string, authority_lease) dict"
  en_processed_event_ids :: "string set"

section \<open>Snapshots\<close>

definition lease_key :: "authority_lease \<Rightarrow> string \<times> string" where
  "lease_key a = (al_resource_id a, al_node_id a)"

definition get_snapshot :: "consensus_engine \<Rightarrow> string list \<Rightarrow> consensus_snapshot" where
  "get_snapshot en membership =
     \<lparr> cs_epoch = en_current_epoch en, cs_fencing_token = en_current_fencing_token en,
       cs_membership = sort membership,
       cs_authorities = sort_key lease_key (map snd (en_active_leases en)),
       cs_sequence = en_sequence en \<rparr>"

definition snapshot_content :: "consensus_snapshot \<Rightarrow> consensus_snapshot" where
  "snapshot_content s =
     s\<lparr> cs_authorities := sort_key lease_key (cs_authorities s), cs_membership := sort (cs_membership s) \<rparr>"

definition canonical_digest :: "(consensus_snapshot \<Rightarrow> string) \<Rightarrow> consensus_snapshot \<Rightarrow> string" where
  "canonical_digest digest s = digest (snapshot_content s)"

section \<open>Operations\<close>

definition rejection ::
  "consensus_engine \<Rightarrow> consensus_status \<Rightarrow> consensus_failure \<Rightarrow> int \<Rightarrow> membership_view \<Rightarrow> consensus_result" where
  "rejection en status failure votes view =
     \<lparr> cr_status = status, cr_failure_type = failure, cr_lease = None,
       cr_epoch = en_current_epoch en, cr_fencing_token = en_current_fencing_token en,
       cr_valid_votes_count = votes, cr_quorum_required = calculate_quorum view, cr_snapshot = None \<rparr>"

definition valid_votes :: "consensus_proposal \<Rightarrow> string set" where
  "valid_votes p = {v \<in> set (cp_votes p). v \<in> set (mv_members (cp_membership_view p))}"

definition split_brain :: "consensus_engine \<Rightarrow> consensus_proposal \<Rightarrow> bool" where
  "split_brain en p =
     (case dget (en_active_leases en) (cp_resource_id p) of
        None \<Rightarrow> False
      | Some l \<Rightarrow> al_granted l \<and> al_node_id l \<noteq> cp_proposer_node p \<and> al_epoch l = cp_target_epoch p)"

definition granted_lease :: "consensus_engine \<Rightarrow> string \<Rightarrow> string \<Rightarrow> authority_lease" where
  "granted_lease en resource node =
     \<lparr> al_resource_id = resource, al_node_id = node, al_consensus_domain = en_domain en,
       al_epoch = en_current_epoch en, al_fencing_token = en_current_fencing_token en,
       al_granted = True \<rparr>"

definition request_authority ::
  "consensus_engine \<Rightarrow> consensus_proposal \<Rightarrow> consensus_engine \<times> consensus_result" where
  "request_authority en p =
     (let view = cp_membership_view p; votes = int (card (valid_votes p)) in
      if cp_connectivity p = NC_UNKNOWN
      then (en, rejection en BLOCKED_FAIL_CLOSED UNKNOWN_CONNECTIVITY 0 view)
      else if cp_proposer_node p \<notin> set (mv_members view)
      then (en, rejection en BLOCKED_FAIL_CLOSED MEMBERSHIP_CONFLICT 0 view)
      else if cp_target_epoch p < en_current_epoch en
      then (en, rejection en REJECTED_STALE STALE_EPOCH 0 view)
      else if cp_target_fencing_token p \<le> en_current_fencing_token en
      then (en, rejection en REJECTED_STALE STALE_FENCING_TOKEN 0 view)
      else if votes < calculate_quorum view
      then (en, rejection en BLOCKED_NO_QUORUM NO_QUORUM votes view)
      else if split_brain en p
      then (en, rejection en REJECTED_SPLIT_BRAIN SPLIT_BRAIN votes view)
      else
        let en1 = en\<lparr> en_current_epoch := max (en_current_epoch en) (cp_target_epoch p),
                      en_current_fencing_token :=
                        max (en_current_fencing_token en + 1) (cp_target_fencing_token p),
                      en_sequence := en_sequence en + 1 \<rparr>;
            lease = granted_lease en1 (cp_resource_id p) (cp_proposer_node p);
            en2 = en1\<lparr> en_active_leases := dset (en_active_leases en1) (cp_resource_id p) lease \<rparr>
        in (en2, \<lparr> cr_status = AUTHORITY_GRANTED, cr_failure_type = NO_FAILURE, cr_lease = Some lease,
                   cr_epoch = en_current_epoch en2, cr_fencing_token = en_current_fencing_token en2,
                   cr_valid_votes_count = votes, cr_quorum_required = calculate_quorum view,
                   cr_snapshot = Some (get_snapshot en2 (mv_members view)) \<rparr>))"

definition validate_authority ::
  "consensus_engine \<Rightarrow> string \<Rightarrow> string \<Rightarrow> int \<Rightarrow> int \<Rightarrow> membership_view \<Rightarrow> network_condition \<Rightarrow>
     consensus_result" where
  "validate_authority en resource node epoch token view connectivity =
     (if connectivity = NC_UNKNOWN
      then rejection en BLOCKED_FAIL_CLOSED UNKNOWN_CONNECTIVITY 0 view
      else if node \<notin> set (mv_members view)
      then rejection en BLOCKED_FAIL_CLOSED MEMBERSHIP_CONFLICT 0 view
      else if epoch < en_current_epoch en \<or> token < en_current_fencing_token en
      then rejection en REJECTED_STALE
             (if epoch < en_current_epoch en then STALE_EPOCH else STALE_FENCING_TOKEN) 0 view
      else case dget (en_active_leases en) resource of
        None \<Rightarrow> rejection en REJECTED_SPLIT_BRAIN SPLIT_BRAIN 0 view
      | Some lease \<Rightarrow>
          if \<not> al_granted lease \<or> al_node_id lease \<noteq> node
          then rejection en REJECTED_SPLIT_BRAIN SPLIT_BRAIN 0 view
          else \<lparr> cr_status = AUTHORITY_GRANTED, cr_failure_type = NO_FAILURE, cr_lease = Some lease,
                 cr_epoch = en_current_epoch en, cr_fencing_token = en_current_fencing_token en,
                 cr_valid_votes_count = int (length (mv_members view)),
                 cr_quorum_required = calculate_quorum view, cr_snapshot = None \<rparr>)"

definition event_members :: "string list" where
  "event_members = [''node_a'', ''node_b'']"

definition apply_event ::
  "consensus_engine \<Rightarrow> consensus_event \<Rightarrow> consensus_engine \<times> consensus_snapshot \<times> bool" where
  "apply_event en e =
     (if ce_event_id e \<in> en_processed_event_ids en then (en, get_snapshot en event_members, False)
      else if ce_epoch e < en_current_epoch en \<or>
              ce_fencing_token e < en_current_fencing_token en \<or> ce_sequence e \<le> en_sequence en
      then (en, get_snapshot en event_members, False)
      else
        let en1 = en\<lparr> en_processed_event_ids := insert (ce_event_id e) (en_processed_event_ids en),
                      en_current_epoch := max (en_current_epoch en) (ce_epoch e),
                      en_current_fencing_token := max (en_current_fencing_token en) (ce_fencing_token e),
                      en_sequence := max (en_sequence en) (ce_sequence e) \<rparr>;
            en2 = (if ce_event_type e = ''AUTHORITY_GRANT'' \<and> ce_resource_id e \<noteq> []
                   then en1\<lparr> en_active_leases := dset (en_active_leases en1) (ce_resource_id e)
                               (granted_lease en1 (ce_resource_id e) (ce_source_node e)) \<rparr>
                   else en1)
        in (en2, get_snapshot en2 event_members, True))"

text \<open>The snapshot with the greatest epoch, token and sequence; the first of several.\<close>

definition snapshot_rank :: "consensus_snapshot \<Rightarrow> int \<times> int \<times> int" where
  "snapshot_rank s = (cs_epoch s, cs_fencing_token s, cs_sequence s)"

fun best_snapshot :: "consensus_snapshot \<Rightarrow> consensus_snapshot list \<Rightarrow> consensus_snapshot" where
  "best_snapshot best [] = best"
| "best_snapshot best (s # ss) =
     best_snapshot (if snapshot_rank best < snapshot_rank s then s else best) ss"

definition merge_lease ::
  "(string, authority_lease) dict \<Rightarrow> authority_lease \<Rightarrow> (string, authority_lease) dict" where
  "merge_lease leases l =
     (case dget leases (al_resource_id l) of
        None \<Rightarrow> dset leases (al_resource_id l) l
      | Some held \<Rightarrow>
          if (al_epoch held, al_fencing_token held) < (al_epoch l, al_fencing_token l)
          then dset leases (al_resource_id l) l else leases)"

definition reconcile ::
  "consensus_engine \<Rightarrow> consensus_snapshot list \<Rightarrow> consensus_engine \<times> consensus_snapshot" where
  "reconcile en snapshots =
     (case snapshots of
        [] \<Rightarrow> (en, get_snapshot en event_members)
      | s # ss \<Rightarrow>
          let best = best_snapshot s ss;
              en1 = en\<lparr> en_current_epoch := max (en_current_epoch en) (cs_epoch best),
                        en_current_fencing_token := max (en_current_fencing_token en) (cs_fencing_token best),
                        en_sequence := max (en_sequence en) (cs_sequence best) \<rparr>;
              en2 = en1\<lparr> en_active_leases := foldl merge_lease (en_active_leases en1) (cs_authorities best) \<rparr>
          in (en2, get_snapshot en2 (cs_membership best)))"

section \<open>Granting\<close>

definition is_granted :: "consensus_result \<Rightarrow> bool" where
  "is_granted r = (cr_status r = AUTHORITY_GRANTED)"

lemma rejection_not_granted [simp]:
  "is_granted (rejection en st f v view) \<longleftrightarrow> st = AUTHORITY_GRANTED"
  by (simp add: is_granted_def rejection_def)

text \<open>The conditions of a grant.\<close>

definition may_grant :: "consensus_engine \<Rightarrow> consensus_proposal \<Rightarrow> bool" where
  "may_grant en p \<longleftrightarrow>
     cp_connectivity p \<noteq> NC_UNKNOWN \<and> cp_proposer_node p \<in> set (mv_members (cp_membership_view p)) \<and>
     en_current_epoch en \<le> cp_target_epoch p \<and>
     en_current_fencing_token en < cp_target_fencing_token p \<and>
     calculate_quorum (cp_membership_view p) \<le> int (card (valid_votes p)) \<and> \<not> split_brain en p"

definition lease_of :: "consensus_engine \<Rightarrow> consensus_proposal \<Rightarrow> authority_lease" where
  "lease_of en p =
     \<lparr> al_resource_id = cp_resource_id p, al_node_id = cp_proposer_node p,
       al_consensus_domain = en_domain en, al_epoch = cp_target_epoch p,
       al_fencing_token = cp_target_fencing_token p, al_granted = True \<rparr>"

lemma request_granted:
  assumes "may_grant en p"
  shows "fst (request_authority en p) =
      en\<lparr> en_current_epoch := cp_target_epoch p, en_current_fencing_token := cp_target_fencing_token p,
          en_sequence := en_sequence en + 1,
          en_active_leases := dset (en_active_leases en) (cp_resource_id p) (lease_of en p) \<rparr>"
    "is_granted (snd (request_authority en p))"
    "cr_lease (snd (request_authority en p)) = Some (lease_of en p)"
proof -
  have m: "max (en_current_epoch en) (cp_target_epoch p) = cp_target_epoch p"
    "max (en_current_fencing_token en + 1) (cp_target_fencing_token p) = cp_target_fencing_token p"
    using assms by (auto simp: may_grant_def)
  show "fst (request_authority en p) =
      en\<lparr> en_current_epoch := cp_target_epoch p, en_current_fencing_token := cp_target_fencing_token p,
          en_sequence := en_sequence en + 1,
          en_active_leases := dset (en_active_leases en) (cp_resource_id p) (lease_of en p) \<rparr>"
    "is_granted (snd (request_authority en p))"
    "cr_lease (snd (request_authority en p)) = Some (lease_of en p)"
    using assms unfolding request_authority_def m
    by (simp_all add: may_grant_def Let_def is_granted_def granted_lease_def lease_of_def)
qed

lemma request_refused:
  "\<not> may_grant en p \<Longrightarrow> fst (request_authority en p) = en \<and> \<not> is_granted (snd (request_authority en p))"
  by (auto simp: request_authority_def may_grant_def Let_def)

lemma granted_iff: "is_granted (snd (request_authority en p)) \<longleftrightarrow> may_grant en p"
  using request_granted request_refused by blast

text \<open>Two grants over the same members with the default quorum have a common voter.\<close>

lemma quorum_overlap:
  assumes "may_grant en p" "may_grant en' q"
    and "mv_members (cp_membership_view p) = mv_members (cp_membership_view q)"
    and "mv_quorum_override (cp_membership_view p) = None"
    and "mv_quorum_override (cp_membership_view q) = None"
  shows "\<exists>v. v \<in> valid_votes p \<inter> valid_votes q"
proof (rule ccontr)
  assume no: "\<nexists>v. v \<in> valid_votes p \<inter> valid_votes q"
  let ?M = "set (mv_members (cp_membership_view p))"
  have sub: "valid_votes p \<subseteq> ?M" "valid_votes q \<subseteq> ?M"
    using assms(3) by (auto simp: valid_votes_def)
  then have fin: "finite (valid_votes p)" "finite (valid_votes q)"
    by (auto intro: finite_subset [OF _ finite_set])
  have "card (valid_votes p) + card (valid_votes q) = card (valid_votes p \<union> valid_votes q)"
    using no by (intro card_Un_disjoint [OF fin, symmetric]) blast
  also have "\<dots> \<le> card ?M" using sub by (intro card_mono) auto
  also have "\<dots> \<le> length (mv_members (cp_membership_view p))" by (rule card_length)
  finally have "int (card (valid_votes p)) + int (card (valid_votes q)) \<le>
      int (length (mv_members (cp_membership_view p)))" by linarith
  moreover have "int (length (mv_members (cp_membership_view p))) div 2 + 1 \<le> int (card (valid_votes p))"
    "int (length (mv_members (cp_membership_view p))) div 2 + 1 \<le> int (card (valid_votes q))"
    using assms by (auto simp: may_grant_def calculate_quorum_def)
  ultimately show False by linarith
qed

section \<open>Invariant and monotonicity\<close>

text \<open>Leases sit under their resource and never outrun the engine's epoch and token.\<close>

definition lease_within :: "int \<Rightarrow> int \<Rightarrow> authority_lease \<Rightarrow> bool" where
  "lease_within epoch token l \<longleftrightarrow> al_epoch l \<le> epoch \<and> al_fencing_token l \<le> token"

definition leases_within :: "int \<Rightarrow> int \<Rightarrow> (string, authority_lease) dict \<Rightarrow> bool" where
  "leases_within e t d \<longleftrightarrow> distinct (dkeys d) \<and>
     (\<forall>r l. dget d r = Some l \<longrightarrow> al_resource_id l = r \<and> al_granted l \<and> lease_within e t l)"

definition engine_ok :: "consensus_engine \<Rightarrow> bool" where
  [inv_simps]: "engine_ok en \<longleftrightarrow>
     leases_within (en_current_epoch en) (en_current_fencing_token en) (en_active_leases en)"

lemma lease_within_mono:
  "lease_within e t l \<Longrightarrow> e \<le> e' \<Longrightarrow> t \<le> t' \<Longrightarrow> lease_within e' t' l"
  by (auto simp: lease_within_def)

lemma leases_within_mono:
  "leases_within e t d \<Longrightarrow> e \<le> e' \<Longrightarrow> t \<le> t' \<Longrightarrow> leases_within e' t' d"
  unfolding leases_within_def using lease_within_mono by blast

lemma leases_within_dset:
  "leases_within e t d \<Longrightarrow> al_resource_id l = r \<Longrightarrow> al_granted l \<Longrightarrow> lease_within e t l \<Longrightarrow>
     leases_within e t (dset d r l)"
  unfolding leases_within_def by (simp add: distinct_update)

lemma leases_within_entry: "leases_within e t d \<Longrightarrow> (r, l) \<in> set d \<Longrightarrow> al_granted l \<and> lease_within e t l"
  unfolding leases_within_def by (metis map_of_is_SomeI)

definition snapshot_ok :: "consensus_snapshot \<Rightarrow> bool" where
  [inv_simps]: "snapshot_ok s \<longleftrightarrow>
     (\<forall>l\<in>set (cs_authorities s). al_granted l \<and> lease_within (cs_epoch s) (cs_fencing_token s) l)"

lemma get_snapshot_ok: "engine_ok en \<Longrightarrow> snapshot_ok (get_snapshot en ms)"
  unfolding engine_ok_def snapshot_ok_def get_snapshot_def
  by (auto dest: leases_within_entry)

lemma request_authority_ok:
  assumes "engine_ok en"
  shows "engine_ok (fst (request_authority en p))"
proof (cases "may_grant en p")
  case True
  then have "en_current_epoch en \<le> cp_target_epoch p"
    "en_current_fencing_token en \<le> cp_target_fencing_token p" by (auto simp: may_grant_def)
  with assms have "leases_within (cp_target_epoch p) (cp_target_fencing_token p) (en_active_leases en)"
    by (auto simp: engine_ok_def intro: leases_within_mono)
  then show ?thesis
    by (auto simp: request_granted [OF True] engine_ok_def lease_of_def lease_within_def
        intro!: leases_within_dset)
qed (simp add: request_refused assms)

lemma apply_event_ok:
  assumes "engine_ok en"
  shows "engine_ok (fst (apply_event en e))"
proof -
  have "leases_within (max (en_current_epoch en) (ce_epoch e))
      (max (en_current_fencing_token en) (ce_fencing_token e)) (en_active_leases en)"
    using assms by (auto simp: engine_ok_def intro: leases_within_mono)
  with assms show ?thesis
    by (auto simp: apply_event_def Let_def engine_ok_def granted_lease_def lease_within_def
        intro!: leases_within_dset)
qed

lemma merge_lease_within:
  "leases_within e t d \<Longrightarrow> al_granted l \<Longrightarrow> lease_within e t l \<Longrightarrow> leases_within e t (merge_lease d l)"
  by (auto simp: merge_lease_def intro: leases_within_dset split: option.splits)

lemma merge_all_within:
  "leases_within e t d \<Longrightarrow> \<forall>l\<in>set ls. al_granted l \<and> lease_within e t l \<Longrightarrow>
     leases_within e t (foldl merge_lease d ls)"
  by (induction ls arbitrary: d) (auto simp: merge_lease_within)

lemma best_snapshot_in: "best_snapshot s ss \<in> set (s # ss)"
proof (induction ss arbitrary: s)
  case (Cons a ss)
  from Cons [of "if snapshot_rank s < snapshot_rank a then a else s"] show ?case by auto
qed simp

lemma best_snapshot_max:
  "\<forall>x\<in>set (s # ss). snapshot_rank x \<le> snapshot_rank (best_snapshot s ss)"
proof (induction ss arbitrary: s)
  case (Cons a ss)
  let ?b = "if snapshot_rank s < snapshot_rank a then a else s"
  from Cons [of ?b] have ih: "snapshot_rank ?b \<le> snapshot_rank (best_snapshot ?b ss)"
    "\<forall>x\<in>set ss. snapshot_rank x \<le> snapshot_rank (best_snapshot ?b ss)" by auto
  moreover have "snapshot_rank s \<le> snapshot_rank ?b" "snapshot_rank a \<le> snapshot_rank ?b" by auto
  ultimately show ?case by (auto intro: order_trans)
qed simp

lemma reconcile_ok:
  assumes "engine_ok en" "\<forall>s\<in>set snaps. snapshot_ok s"
  shows "engine_ok (fst (reconcile en snaps))"
proof (cases snaps)
  case Nil
  with assms(1) show ?thesis by (simp add: reconcile_def)
next
  case (Cons s ss)
  let ?b = "best_snapshot s ss"
  let ?e = "max (en_current_epoch en) (cs_epoch ?b)"
  let ?t = "max (en_current_fencing_token en) (cs_fencing_token ?b)"
  have "snapshot_ok ?b" using assms(2) best_snapshot_in [of s ss] Cons by blast
  then have "\<forall>l\<in>set (cs_authorities ?b). al_granted l \<and> lease_within ?e ?t l"
    by (auto simp: snapshot_ok_def intro: lease_within_mono)
  moreover have "leases_within ?e ?t (en_active_leases en)"
    using assms(1) by (auto simp: engine_ok_def intro: leases_within_mono)
  ultimately have "leases_within ?e ?t (foldl merge_lease (en_active_leases en) (cs_authorities ?b))"
    by (intro merge_all_within)
  then show ?thesis by (simp add: reconcile_def Cons Let_def engine_ok_def)
qed

definition advances :: "consensus_engine \<Rightarrow> consensus_engine \<Rightarrow> bool" where
  "advances en en' \<longleftrightarrow> en_current_epoch en \<le> en_current_epoch en' \<and>
     en_current_fencing_token en \<le> en_current_fencing_token en' \<and> en_sequence en \<le> en_sequence en'"

lemma request_advances: "advances en (fst (request_authority en p))"
  by (cases "may_grant en p")
    (auto simp: advances_def request_granted request_refused may_grant_def)

lemma apply_event_advances: "advances en (fst (apply_event en e))"
  by (auto simp: advances_def apply_event_def Let_def)

lemma reconcile_advances: "advances en (fst (reconcile en ss))"
  by (cases ss) (auto simp: advances_def reconcile_def Let_def)

section \<open>No dual authority\<close>

text \<open>A sequence of proposals on one engine and the leases it grants, oldest first.\<close>

fun grants :: "consensus_engine \<Rightarrow> consensus_proposal list \<Rightarrow> authority_lease list" where
  "grants en [] = []"
| "grants en (p # ps) =
     (let (en', r) = request_authority en p
      in (case cr_lease r of None \<Rightarrow> [] | Some l \<Rightarrow> [l]) @ grants en' ps)"

lemma refused_lease: "\<not> may_grant en p \<Longrightarrow> cr_lease (snd (request_authority en p)) = None"
  by (auto simp: request_authority_def may_grant_def Let_def rejection_def)

lemma grants_Cons:
  "grants en (p # ps) =
     (if may_grant en p then lease_of en p # grants (fst (request_authority en p)) ps else grants en ps)"
  by (auto simp: case_prod_beta Let_def request_granted refused_lease request_refused)

text \<open>Fencing tokens strictly increase along the grants.\<close>

lemma grants_tokens:
  "sorted_wrt (<) (en_current_fencing_token en # map al_fencing_token (grants en ps))"
proof (induction ps arbitrary: en)
  case (Cons p ps)
  show ?case
  proof (cases "may_grant en p")
    case True
    have "sorted_wrt (<) (cp_target_fencing_token p # map al_fencing_token (grants (fst (request_authority en p)) ps))"
      using Cons.IH [of "fst (request_authority en p)"] by (simp add: request_granted [OF True])
    moreover have "en_current_fencing_token en < cp_target_fencing_token p"
      using True by (simp add: may_grant_def)
    ultimately show ?thesis using True by (auto simp: grants_Cons lease_of_def simp del: grants.simps)
  next
    case False
    then show ?thesis using Cons.IH [of en] by (simp add: grants_Cons del: grants.simps)
  qed
qed simp

lemma grants_epochs: "l \<in> set (grants en ps) \<Longrightarrow> en_current_epoch en \<le> al_epoch l"
proof (induction ps arbitrary: en)
  case (Cons p ps)
  show ?case
  proof (cases "may_grant en p")
    case True
    with Cons.prems consider "l = lease_of en p" | "l \<in> set (grants (fst (request_authority en p)) ps)"
      by (auto simp: grants_Cons simp del: grants.simps)
    then show ?thesis
    proof cases
      case 1
      with True show ?thesis by (simp add: lease_of_def may_grant_def)
    next
      case 2
      from Cons.IH [OF this] request_advances [of en p] show ?thesis by (simp add: advances_def)
    qed
  next
    case False
    with Cons show ?thesis by (simp add: grants_Cons del: grants.simps)
  qed
qed simp

text \<open>
  At one epoch a resource is only ever granted to one node: whatever is granted later at an
  epoch a held lease carries goes to that lease's node.
\<close>

lemma grants_exclusive_from:
  assumes "dget (en_active_leases en) r = Some held" "al_granted held"
    "al_epoch held \<le> en_current_epoch en"
    "l \<in> set (grants en ps)" "al_resource_id l = r" "al_epoch l = al_epoch held"
  shows "al_node_id l = al_node_id held"
  using assms
proof (induction ps arbitrary: en held)
  case (Cons p ps)
  show ?case
  proof (cases "may_grant en p")
    case False
    then have g: "l \<in> set (grants en ps)"
      using Cons.prems(4) by (simp add: grants_Cons del: grants.simps)
    show ?thesis by (rule Cons.IH [OF Cons.prems(1-3) g Cons.prems(5,6)])
  next
    case True
    let ?en = "fst (request_authority en p)"
    from Cons.prems(4) True consider (here) "l = lease_of en p" | (later) "l \<in> set (grants ?en ps)"
      by (auto simp: grants_Cons simp del: grants.simps)
    then show ?thesis
    proof cases
      case here
      with True Cons.prems show ?thesis
        by (auto simp: lease_of_def may_grant_def split_brain_def)
    next
      case later
      show ?thesis
      proof (cases "cp_resource_id p = r")
        case False
        then have d: "dget (en_active_leases ?en) r = Some held"
          using Cons.prems(1) by (simp add: request_granted [OF True])
        have "al_epoch held \<le> en_current_epoch ?en"
          using Cons.prems(3) request_advances [of en p] by (simp add: advances_def)
        from Cons.IH [OF d Cons.prems(2) this later Cons.prems(5,6)] show ?thesis .
      next
        case res: True
        have d: "dget (en_active_leases ?en) r = Some (lease_of en p)"
          using res by (simp add: request_granted [OF True])
        have e: "al_epoch (lease_of en p) \<le> en_current_epoch ?en"
          by (simp add: request_granted [OF True] lease_of_def)
        show ?thesis
        proof (cases "cp_target_epoch p = al_epoch held")
          case same: True
          have "al_node_id l = al_node_id (lease_of en p)"
            by (rule Cons.IH [OF d _ e later Cons.prems(5)])
              (use same Cons.prems(6) in \<open>simp_all add: lease_of_def\<close>)
          moreover have "cp_proposer_node p = al_node_id held"
            using True Cons.prems(1,2) res same by (auto simp: may_grant_def split_brain_def)
          ultimately show ?thesis by (simp add: lease_of_def)
        next
          case False
          have "al_epoch held < cp_target_epoch p"
            using False True Cons.prems(3) by (auto simp: may_grant_def)
          moreover have "cp_target_epoch p \<le> al_epoch l"
            using later grants_epochs [of l ?en ps] by (simp add: request_granted [OF True])
          ultimately show ?thesis using Cons.prems(6) by simp
        qed
      qed
    qed
  qed
qed simp

lemma grants_exclusive:
  assumes "engine_ok en" "l \<in> set (grants en ps)" "m \<in> set (grants en ps)"
    "al_resource_id l = al_resource_id m" "al_epoch l = al_epoch m"
  shows "al_node_id l = al_node_id m"
  using assms
proof (induction ps arbitrary: en)
  case (Cons p ps)
  let ?en = "fst (request_authority en p)"
  show ?case
  proof (cases "may_grant en p")
    case False
    with Cons show ?thesis by (simp add: grants_Cons del: grants.simps)
  next
    case True
    have d: "dget (en_active_leases ?en) (cp_resource_id p) = Some (lease_of en p)"
      "al_granted (lease_of en p)" "al_epoch (lease_of en p) \<le> en_current_epoch ?en"
      by (simp_all add: request_granted [OF True] lease_of_def)
    have later: "al_node_id x = cp_proposer_node p"
      if "x \<in> set (grants ?en ps)" "al_resource_id x = cp_resource_id p" "al_epoch x = cp_target_epoch p" for x
      using grants_exclusive_from [OF d that(1,2)] that(3) by (simp add: lease_of_def)
    from Cons.prems(2,3) True have
      "l = lease_of en p \<or> l \<in> set (grants ?en ps)" "m = lease_of en p \<or> m \<in> set (grants ?en ps)"
      by (auto simp: grants_Cons simp del: grants.simps)
    then show ?thesis
      using later [of l] later [of m] Cons.IH [OF request_authority_ok [OF Cons.prems(1)]] Cons.prems(4,5)
      by (auto simp: lease_of_def)
  qed
qed simp

section \<open>Events\<close>

text \<open>Applying an event a second time changes nothing and reports so.\<close>

lemma apply_event_idempotent:
  "fst (apply_event (fst (apply_event en e)) e) = fst (apply_event en e) \<and>
   \<not> snd (snd (apply_event (fst (apply_event en e)) e))"
proof (cases "snd (snd (apply_event en e))")
  case True
  then have "ce_event_id e \<in> en_processed_event_ids (fst (apply_event en e))"
    by (auto simp: apply_event_def Let_def split: if_splits)
  then show ?thesis by (simp add: apply_event_def)
next
  case False
  then have "fst (apply_event en e) = en" by (auto simp: apply_event_def Let_def split: if_splits)
  with False show ?thesis by simp
qed

text \<open>
  An event with the current epoch and token but a newer sequence number takes a resource from
  the node that holds it: the new holder's lease has the same epoch and token as the old one's.
\<close>

lemma event_dual_authority:
  assumes "may_grant en p" "ce_event_type e = ''AUTHORITY_GRANT''"
    "ce_resource_id e = cp_resource_id p" "cp_resource_id p \<noteq> []"
    "ce_epoch e = cp_target_epoch p" "ce_fencing_token e = cp_target_fencing_token p"
    "en_sequence en + 1 < ce_sequence e" "ce_event_id e \<notin> en_processed_event_ids en"
  shows "dget (en_active_leases (fst (apply_event (fst (request_authority en p)) e))) (cp_resource_id p) =
    Some ((lease_of en p)\<lparr> al_node_id := ce_source_node e \<rparr>)"
  using assms
  by (auto simp: apply_event_def request_granted [OF assms(1)] Let_def granted_lease_def lease_of_def)

section \<open>Validation\<close>

lemma validate_iff:
  "is_granted (validate_authority en resource node epoch token view c) \<longleftrightarrow>
     c \<noteq> NC_UNKNOWN \<and> node \<in> set (mv_members view) \<and> en_current_epoch en \<le> epoch \<and>
     en_current_fencing_token en \<le> token \<and>
     (\<exists>l. dget (en_active_leases en) resource = Some l \<and> al_granted l \<and> al_node_id l = node)"
  by (auto simp: validate_authority_def is_granted_def rejection_def split: option.splits)

text \<open>
  The fencing token is one for all resources: a grant on any resource makes the lease of every
  other holder stale.
\<close>

lemma grant_stales_others:
  assumes "engine_ok en" "may_grant en p" "dget (en_active_leases en) r = Some l"
  shows "\<not> is_granted (validate_authority (fst (request_authority en p)) r (al_node_id l)
    (al_epoch l) (al_fencing_token l) view c)"
proof -
  have "al_fencing_token l \<le> en_current_fencing_token en"
    using assms(1,3) unfolding engine_ok_def leases_within_def lease_within_def by blast
  then show ?thesis using assms(2) by (auto simp: validate_iff request_granted may_grant_def)
qed

section \<open>Properties\<close>

text \<open>
  C29: whatever proposals an engine is given, the leases it grants carry
  strictly increasing fencing tokens, all above the token it started with, and within one epoch
  a resource is only ever granted to one node.
\<close>

theorem grants_exclusive_and_fenced:
  assumes "engine_ok en"
  shows "sorted_wrt (<) (en_current_fencing_token en # map al_fencing_token (grants en ps)) \<and>
    (\<forall>l \<in> set (grants en ps). \<forall>m \<in> set (grants en ps).
       al_resource_id l = al_resource_id m \<longrightarrow> al_epoch l = al_epoch m \<longrightarrow> al_node_id l = al_node_id m)"
  using grants_tokens [of en ps] grants_exclusive [OF assms] by blast

definition demo_view :: membership_view where
  "demo_view = \<lparr> mv_view_id = ''v1'', mv_members = [''n1'', ''n2'', ''n3''], mv_epoch = 1,
     mv_quorum_override = None \<rparr>"

definition demo_proposal :: "string \<Rightarrow> int \<Rightarrow> int \<Rightarrow> string list \<Rightarrow> consensus_proposal" where
  "demo_proposal node epoch token votes = \<lparr> cp_proposal_id = ''p'', cp_resource_id = ''lock'',
     cp_proposer_node = node, cp_target_epoch = epoch, cp_target_fencing_token = token,
     cp_votes = votes, cp_membership_view = demo_view, cp_connectivity = NC_HEALTHY \<rparr>"

definition demo_engine :: consensus_engine where
  "demo_engine = \<lparr> en_domain = ''d'', en_current_epoch = 1, en_current_fencing_token = 10,
     en_sequence = 0, en_active_leases = [], en_processed_event_ids = {} \<rparr>"

text \<open>A grant, a competing proposal at the same epoch, one without quorum, and a later epoch.\<close>

definition demo_proposals :: "consensus_proposal list" where
  "demo_proposals =
     [ demo_proposal ''n1'' 1 11 [''n1'', ''n2''], demo_proposal ''n2'' 1 12 [''n2'', ''n3''],
       demo_proposal ''n2'' 2 12 [''n2'', ''n9''], demo_proposal ''n2'' 2 13 [''n2'', ''n3''] ]"

lemma demo_engine_ok: "engine_ok demo_engine"
  by (simp add: engine_ok_def leases_within_def demo_engine_def)

theorem grants_exclusive_and_fenced_witness:
  "map al_node_id (grants demo_engine demo_proposals) = [''n1'', ''n2''] \<and>
   sorted_wrt (<) (10 # map al_fencing_token (grants demo_engine demo_proposals))"
proof
  show "map al_node_id (grants demo_engine demo_proposals) = [''n1'', ''n2'']" by code_simp
  show "sorted_wrt (<) (10 # map al_fencing_token (grants demo_engine demo_proposals))"
    using grants_exclusive_and_fenced [OF demo_engine_ok, of demo_proposals]
    by (simp add: demo_engine_def)
qed

text \<open>
  Two grants, on any two engines, over the same members and with the
  default quorum, have at least one voter in common; so no two disjoint sides of a partition
  can both be granted authority.
\<close>

theorem granted_quorums_overlap:
  assumes "is_granted (snd (request_authority en p))" "is_granted (snd (request_authority en' q))"
    and "mv_members (cp_membership_view p) = mv_members (cp_membership_view q)"
    and "mv_quorum_override (cp_membership_view p) = None"
    and "mv_quorum_override (cp_membership_view q) = None"
  shows "\<exists>v. v \<in> valid_votes p \<inter> valid_votes q"
  using assms(1,2) unfolding granted_iff by (rule quorum_overlap) (rule assms(3-5))+

theorem granted_quorums_overlap_witness:
  "\<exists>v. v \<in> valid_votes (demo_proposal ''n1'' 1 11 [''n1'', ''n2'']) \<inter>
           valid_votes (demo_proposal ''n2'' 2 13 [''n2'', ''n3''])"
  by (rule granted_quorums_overlap [of demo_engine _ demo_engine])
    (code_simp, code_simp, simp_all add: demo_proposal_def demo_view_def)

text \<open>Everything that can happen to an engine, in any order.\<close>

inductive consensus_step :: "consensus_engine \<Rightarrow> consensus_engine \<Rightarrow> bool" where
  request: "consensus_step en (fst (request_authority en p))"
| replicate: "consensus_step en (fst (apply_event en e))"
| merge: "\<forall>s\<in>set snaps. snapshot_ok s \<Longrightarrow> consensus_step en (fst (reconcile en snaps))"

lemma consensus_step_ok: "consensus_step en en' \<Longrightarrow> engine_ok en \<Longrightarrow> engine_ok en' \<and> advances en en'"
  by (induction rule: consensus_step.induct)
    (simp_all add: request_authority_ok apply_event_ok reconcile_ok request_advances
      apply_event_advances reconcile_advances)

text \<open>
  C30: through any interleaving of proposals, replicated events and merges of well-formed
  snapshots, the engine's epoch, fencing token and sequence number never go back, every lease
  sits under its own resource and no lease carries an epoch or token above the engine's.
\<close>

theorem engine_monotone:
  assumes "consensus_step\<^sup>*\<^sup>* en en'" "engine_ok en"
  shows "engine_ok en' \<and> advances en en'"
  using assms
proof (induction rule: rtranclp_induct)
  case (step y z)
  with consensus_step_ok [OF step(2)] show ?case by (auto simp: advances_def)
qed (simp add: advances_def)

definition demo_grant_event :: consensus_event where
  "demo_grant_event = \<lparr> ce_event_id = ''e1'', ce_event_type = ''AUTHORITY_GRANT'', ce_epoch = 1,
     ce_fencing_token = 11, ce_sequence = 5, ce_source_node = ''n2'', ce_resource_id = ''lock'',
     ce_membership_digest = ''m'', ce_payload = [] \<rparr>"

theorem engine_monotone_witness:
  "let en = fst (request_authority demo_engine (demo_proposal ''n1'' 1 11 [''n1'', ''n2'']));
       en' = fst (apply_event en demo_grant_event);
       en'' = fst (reconcile en' [get_snapshot en event_members, get_snapshot en' event_members])
   in engine_ok en'' \<and> advances demo_engine en''"
  unfolding Let_def
proof (rule engine_monotone [OF _ demo_engine_ok])
  let ?en = "fst (request_authority demo_engine (demo_proposal ''n1'' 1 11 [''n1'', ''n2'']))"
  let ?en' = "fst (apply_event ?en demo_grant_event)"
  have ok: "engine_ok ?en" "engine_ok ?en'"
    by (simp_all add: request_authority_ok apply_event_ok demo_engine_ok)
  then have "consensus_step ?en' (fst (reconcile ?en' [get_snapshot ?en event_members,
      get_snapshot ?en' event_members]))"
    by (intro consensus_step.merge) (simp add: get_snapshot_ok)
  then have "consensus_step\<^sup>*\<^sup>* ?en' (fst (reconcile ?en' [get_snapshot ?en event_members,
      get_snapshot ?en' event_members]))" by (rule r_into_rtranclp)
  then have "consensus_step\<^sup>*\<^sup>* ?en (fst (reconcile ?en' [get_snapshot ?en event_members,
      get_snapshot ?en' event_members]))"
    by (rule converse_rtranclp_into_rtranclp [of consensus_step, OF consensus_step.replicate])
  then show "consensus_step\<^sup>*\<^sup>* demo_engine
      (fst (reconcile ?en' [get_snapshot ?en event_members, get_snapshot ?en' event_members]))"
    by (rule converse_rtranclp_into_rtranclp [of consensus_step, OF consensus_step.request])
qed

text \<open>
  A replicated grant event with the epoch and token of a lease
  just granted, but a newer sequence number, hands the resource to another node under the same
  epoch and token, with no quorum and no split-brain check: two nodes then hold leases that
  differ in nothing but the node.
\<close>

theorem replicated_grant_dual_authority:
  assumes "may_grant en p" "ce_event_type e = ''AUTHORITY_GRANT''"
    "ce_resource_id e = cp_resource_id p" "cp_resource_id p \<noteq> []"
    "ce_epoch e = cp_target_epoch p" "ce_fencing_token e = cp_target_fencing_token p"
    "en_sequence en + 1 < ce_sequence e" "ce_event_id e \<notin> en_processed_event_ids en"
  shows "cr_lease (snd (request_authority en p)) = Some (lease_of en p) \<and>
    dget (en_active_leases (fst (apply_event (fst (request_authority en p)) e))) (cp_resource_id p) =
      Some ((lease_of en p)\<lparr> al_node_id := ce_source_node e \<rparr>)"
  using event_dual_authority [OF assms] request_granted(3) [OF assms(1)] by blast

theorem replicated_grant_dual_authority_witness:
  "let p = demo_proposal ''n1'' 1 11 [''n1'', ''n2'']
   in map_option al_node_id (cr_lease (snd (request_authority demo_engine p))) = Some ''n1'' \<and>
      map_option al_node_id (dget (en_active_leases (fst (apply_event
        (fst (request_authority demo_engine p)) demo_grant_event))) ''lock'') = Some ''n2''"
proof -
  let ?p = "demo_proposal ''n1'' 1 11 [''n1'', ''n2'']"
  have "is_granted (snd (request_authority demo_engine ?p))" by code_simp
  then have "may_grant demo_engine ?p" unfolding granted_iff .
  from replicated_grant_dual_authority [OF this, of demo_grant_event]
  show ?thesis
    by (simp add: Let_def demo_grant_event_def demo_proposal_def demo_engine_def lease_of_def)
qed

end
