(* ===== verification/RemediationModels.thy ===== *)
theory RemediationModels
  imports PatchVerification Complex_Main
begin

text \<open>
  The remediation data of \<^verbatim>\<open>ai/remediation/models.py\<close>: strategies, hunks and proposals with their
  fingerprints, and the string operations the patching code applies to file contents. A text is
  its UTF-8 encoding, one character per byte; searching and replacing a nonempty text in another
  is the same on the encodings.
\<close>

datatype strategy_type =
    ADD_INPUT_VALIDATION | ADD_OUTPUT_ENCODING | REPLACE_UNSAFE_API | ADD_AUTHORIZATION_CHECK
  | ADD_PARAMETERIZATION | ADD_CSRF_PROTECTION | REMOVE_SECRET | ADD_SECURITY_HEADER
  | FIX_INSECURE_CONFIGURATION | CONSTRAIN_DATA_FLOW | REFACTOR_UNSAFE_TRANSFORMATION
  | MANUAL_REVIEW_REQUIRED | UNKNOWN_REMEDIATION

fun strategy_type_value :: "strategy_type \<Rightarrow> string" where
  "strategy_type_value ADD_INPUT_VALIDATION = ''ADD_INPUT_VALIDATION''"
| "strategy_type_value ADD_OUTPUT_ENCODING = ''ADD_OUTPUT_ENCODING''"
| "strategy_type_value REPLACE_UNSAFE_API = ''REPLACE_UNSAFE_API''"
| "strategy_type_value ADD_AUTHORIZATION_CHECK = ''ADD_AUTHORIZATION_CHECK''"
| "strategy_type_value ADD_PARAMETERIZATION = ''ADD_PARAMETERIZATION''"
| "strategy_type_value ADD_CSRF_PROTECTION = ''ADD_CSRF_PROTECTION''"
| "strategy_type_value REMOVE_SECRET = ''REMOVE_SECRET''"
| "strategy_type_value ADD_SECURITY_HEADER = ''ADD_SECURITY_HEADER''"
| "strategy_type_value FIX_INSECURE_CONFIGURATION = ''FIX_INSECURE_CONFIGURATION''"
| "strategy_type_value CONSTRAIN_DATA_FLOW = ''CONSTRAIN_DATA_FLOW''"
| "strategy_type_value REFACTOR_UNSAFE_TRANSFORMATION = ''REFACTOR_UNSAFE_TRANSFORMATION''"
| "strategy_type_value MANUAL_REVIEW_REQUIRED = ''MANUAL_REVIEW_REQUIRED''"
| "strategy_type_value UNKNOWN_REMEDIATION = ''UNKNOWN_REMEDIATION''"

datatype patch_validation_status =
    PV_VALID | PV_INVALID | PV_INCOMPLETE | PV_NOT_PROVEN | PV_REQUIRES_HUMAN_REVIEW

fun patch_status_value :: "patch_validation_status \<Rightarrow> string" where
  "patch_status_value PV_VALID = ''VALID''"
| "patch_status_value PV_INVALID = ''INVALID''"
| "patch_status_value PV_INCOMPLETE = ''INCOMPLETE''"
| "patch_status_value PV_NOT_PROVEN = ''NOT_PROVEN''"
| "patch_status_value PV_REQUIRES_HUMAN_REVIEW = ''REQUIRES_HUMAN_REVIEW''"

record knowledge_reference =
  kr_chunk_id :: string
  kr_title :: string
  kr_source :: string
  kr_relevance_score :: real

record remediation_strategy =
  rs_finding_id :: string
  rs_root_cause_category :: string
  rs_strategy_type :: strategy_type
  rs_rationale :: string
  rs_target_file :: string
  rs_target_locations :: "string list"
  rs_affected_symbols :: "string list"
  rs_evidence_references :: "string list"
  rs_knowledge_references :: "knowledge_reference list"
  rs_confidence :: real
  rs_assumptions :: "string list"
  rs_limitations :: "string list"
  rs_strategy_fingerprint :: string

definition strategy_fingerprint ::
  "(string \<Rightarrow> string) \<Rightarrow> string \<Rightarrow> string \<Rightarrow> strategy_type \<Rightarrow> string \<Rightarrow> string list \<Rightarrow> string" where
  "strategy_fingerprint sha256 finding_id category strat target_file evidence_refs =
     sha256 (py_join ''|''
       [ finding_id, category, strategy_type_value strat, slashes target_file,
         py_join ''|'' (sort evidence_refs) ])"

record patch_hunk =
  ph_file_path :: string
  ph_start_line :: int
  ph_end_line :: int
  ph_original_text :: string
  ph_proposed_text :: string
  ph_context :: string
  ph_evidence_reference :: string

record patch_proposal =
  pp_proposal_id :: string
  pp_finding_id :: string
  pp_target_files :: "string list"
  pp_hunks :: "patch_hunk list"
  pp_unified_diff :: string
  pp_rationale :: string
  pp_root_cause_reference :: string
  pp_evidence_references :: "string list"
  pp_expected_effect :: string
  pp_risk_level :: string
  pp_assumptions :: "string list"
  pp_validation_status :: patch_validation_status
  pp_proposal_fingerprint :: string

definition proposal_fingerprint ::
  "(string \<Rightarrow> string) \<Rightarrow> string \<Rightarrow> string list \<Rightarrow> string \<Rightarrow> patch_validation_status \<Rightarrow> string" where
  "proposal_fingerprint sha256 finding_id target_files unified_diff status =
     sha256 (py_join ''|''
       [ finding_id, py_join ''|'' (sort (map slashes target_files)), py_strip unified_diff,
         patch_status_value status ])"

section \<open>Text operations\<close>

text \<open>\<open>s.replace(p, q, 1)\<close>.\<close>

fun replace_first :: "string \<Rightarrow> string \<Rightarrow> string \<Rightarrow> string" where
  "replace_first p q [] = (if p = [] then q else [])"
| "replace_first p q (c # s) =
     (if startswith (c # s) p then q @ drop (length p) (c # s) else c # replace_first p q s)"

text \<open>
  \<open>s.count(p)\<close>: occurrences that do not overlap; the counter skips the rest of an occurrence.
  The empty text occurs before every code point and once more.
\<close>

fun count_from :: "string \<Rightarrow> nat \<Rightarrow> string \<Rightarrow> nat" where
  "count_from p k [] = 0"
| "count_from p (Suc k) (c # s) = count_from p k s"
| "count_from p 0 (c # s) =
     (if startswith (c # s) p then Suc (count_from p (length p - 1) s) else count_from p 0 s)"

definition continuation_byte :: "char \<Rightarrow> bool" where
  "continuation_byte c = (let n = (of_char c :: nat) in 128 \<le> n \<and> n < 192)"

definition py_count :: "string \<Rightarrow> string \<Rightarrow> nat" where
  "py_count p s =
     (if p = [] then Suc (length (filter (\<lambda>c. \<not> continuation_byte c) s)) else count_from p 0 s)"

text \<open>
  Whether bytes decode as UTF-8: the lead byte determines the ranges of the bytes that follow.
\<close>

definition utf8_lead :: "nat \<Rightarrow> (nat \<times> nat) list option" where
  "utf8_lead n =
     (let cont = (128, 191) in
      if n < 128 then Some []
      else if n < 194 then None
      else if n < 224 then Some [cont]
      else if n = 224 then Some [(160, 191), cont]
      else if n = 237 then Some [(128, 159), cont]
      else if n < 240 then Some [cont, cont]
      else if n = 240 then Some [(144, 191), cont, cont]
      else if n < 244 then Some [cont, cont, cont]
      else if n = 244 then Some [(128, 143), cont, cont]
      else None)"

fun utf8_run :: "(nat \<times> nat) list \<Rightarrow> string \<Rightarrow> bool" where
  "utf8_run rs [] = (rs = [])"
| "utf8_run ((lo, hi) # rs) (c # s) =
     (lo \<le> (of_char c :: nat) \<and> (of_char c :: nat) \<le> hi \<and> utf8_run rs s)"
| "utf8_run [] (c # s) = (case utf8_lead (of_char c) of None \<Rightarrow> False | Some rs \<Rightarrow> utf8_run rs s)"

definition utf8_decodes :: "string \<Rightarrow> bool" where
  "utf8_decodes s = utf8_run [] s"

text \<open>Reading a file in text mode turns every line end into a line feed.\<close>

fun universal_newlines :: "string \<Rightarrow> string" where
  "universal_newlines [] = []"
| "universal_newlines (c # s) =
     (if c = CHR 0x0D
      then CHR 0x0A # (case s of [] \<Rightarrow> [] | d # s' \<Rightarrow>
             if d = CHR 0x0A then universal_newlines s' else universal_newlines s)
      else c # universal_newlines s)"

section \<open>Facts\<close>

lemma startswith_iff: "startswith s p \<longleftrightarrow> (\<exists>b. s = p @ b)"
  unfolding startswith_def by (metis append_eq_conv_conj append_take_drop_id)

lemma replace_first_split:
  "replace_first p q s = s \<and> \<not> contains p s \<or>
   (\<exists>a b. s = a @ p @ b \<and> replace_first p q s = a @ q @ b)"
proof (induction s)
  case Nil
  then show ?case by auto
next
  case (Cons c s)
  show ?case
  proof (cases "startswith (c # s) p")
    case True
    then obtain b where "c # s = p @ b" unfolding startswith_iff by blast
    with True show ?thesis by (metis append_Nil append_eq_conv_conj replace_first.simps(2))
  next
    case False
    from Cons show ?thesis
    proof
      assume "\<exists>a b. s = a @ p @ b \<and> replace_first p q s = a @ q @ b"
      then obtain a b where "s = a @ p @ b" "replace_first p q s = a @ q @ b" by blast
      with False have "c # s = (c # a) @ p @ b \<and> replace_first p q (c # s) = (c # a) @ q @ b" by simp
      then show ?thesis by blast
    qed (use False in simp)
  qed
qed

lemma replace_first_absent: "\<not> contains p s \<Longrightarrow> replace_first p q s = s"
  using replace_first_split contains_iff by metis

lemma count_from_zero: "p \<noteq> [] \<Longrightarrow> count_from p 0 s = 0 \<longleftrightarrow> \<not> contains p s"
  by (induction s) (auto simp: startswith_def)

lemma py_count_zero: "py_count p s = 0 \<longleftrightarrow> \<not> contains p s"
proof (cases "p = []")
  case True
  then have "s = [] @ p @ s" by simp
  then have "contains p s" unfolding contains_iff by blast
  with True show ?thesis by (simp add: py_count_def)
qed (simp add: py_count_def count_from_zero)

lemma universal_newlines_id: "CHR 0x0D \<notin> set s \<Longrightarrow> universal_newlines s = s"
  by (induction s) auto

end
