(* ===== verification/Applier.thy ===== *)
theory Applier
  imports Snapshot RemediationModels Approval
begin

text \<open>
  The controlled patch applier of \<^verbatim>\<open>ai/remediation/applier.py\<close>. The world it acts on is the
  repository's files and the outcomes the operating system has in store for the next writes: a
  write succeeds, or it raises with a message and leaves the file as it was or with other bytes.
  Reads of an existing file succeed; nobody else writes during a transaction. The host record
  holds the standard library's functions and the clock's readings.
\<close>

datatype write_outcome = Write_ok | Write_error string "string option"

record world =
  wd_files :: files
  wd_writes :: "write_outcome list"

record host =
  ho_sha256 :: "string \<Rightarrow> string"
  ho_fromisoformat :: "string \<Rightarrow> (bool \<times> int) option"
  ho_resolve :: "path \<Rightarrow> path"
  ho_root :: path
  ho_clock :: int
  ho_now_iso :: string

text \<open>\<open>write_bytes\<close>: the new world and the message of the exception, if one is raised.\<close>

definition write_bytes :: "world \<Rightarrow> path \<Rightarrow> string \<Rightarrow> world \<times> string option" where
  "write_bytes w p bytes =
     (let stored = w\<lparr> wd_files := dset (wd_files w) p bytes, wd_writes := tl (wd_writes w) \<rparr> in
      case wd_writes w of
        Write_error msg left # ws \<Rightarrow>
          (case left of
             None \<Rightarrow> (w\<lparr> wd_writes := ws \<rparr>, Some msg)
           | Some b \<Rightarrow> (w\<lparr> wd_files := dset (wd_files w) p b, wd_writes := ws \<rparr>, Some msg))
      | _ \<Rightarrow> (stored, None))"

datatype application_status =
    AS_READY | AS_APPLIED | AS_REJECTED | AS_FAILED | AS_ROLLED_BACK | AS_CRITICAL_RECOVERY_FAILURE

fun application_status_value :: "application_status \<Rightarrow> string" where
  "application_status_value AS_READY = ''READY''"
| "application_status_value AS_APPLIED = ''APPLIED''"
| "application_status_value AS_REJECTED = ''REJECTED''"
| "application_status_value AS_FAILED = ''FAILED''"
| "application_status_value AS_ROLLED_BACK = ''ROLLED_BACK''"
| "application_status_value AS_CRITICAL_RECOVERY_FAILURE = ''CRITICAL_RECOVERY_FAILURE''"

record application_result =
  ar_transaction_id :: string
  ar_finding_id :: string
  ar_proposal_fingerprint :: string
  ar_token_id :: string
  ar_status :: application_status
  ar_target_files :: "string list"
  ar_pre_apply_snapshot_hash :: string
  ar_post_apply_snapshot_hash :: string
  ar_rollback_status :: string
  ar_failure_reason :: "string option"

definition traversal_message :: "string \<Rightarrow> path \<Rightarrow> string" where
  "traversal_message target_rel repo =
     ''Path traversal blocked: '' @ CHR 0x27 # target_rel @ CHR 0x27 # '' escapes '' @
       CHR 0x27 # path_str repo @ [CHR 0x27, CHR ''.'']"

text \<open>The same guard in \<open>SourceSnapshot.capture\<close> has its own wording.\<close>

definition capture_message :: "string list \<Rightarrow> host \<Rightarrow> string" where
  "capture_message targets h =
     (case find (\<lambda>t. \<not> inside (ho_resolve h) (ho_root h) t) targets of
        None \<Rightarrow> []
      | Some t \<Rightarrow> ''Path traversal detected: '' @ CHR 0x27 # t @ CHR 0x27 # '' resolves outside '' @
          CHR 0x27 # path_str (ho_root h) @ [CHR 0x27, CHR ''.''])"

definition validate_path_safety :: "host \<Rightarrow> string \<Rightarrow> string + path" where
  "validate_path_safety h target_rel =
     (let target_path = ho_resolve h (path_join (ho_root h) (slashes target_rel))
      in if \<not> is_relative_to target_path (ho_root h)
         then Inl (traversal_message target_rel (ho_root h)) else Inr target_path)"

definition host_capture :: "host \<Rightarrow> world \<Rightarrow> string list \<Rightarrow> source_snapshot option" where
  "host_capture h w targets =
     snapshot_capture (ho_sha256 h) (ho_resolve h) (ho_root h) (wd_files w) targets (ho_now_iso h)"

section \<open>Rollback\<close>

definition path_name :: "path \<Rightarrow> string" where
  "path_name p = (if p = [] then [] else last p)"

definition mismatch_message :: "path \<Rightarrow> string \<Rightarrow> string \<Rightarrow> string" where
  "mismatch_message p restored expected =
     ''Rollback hash mismatch for '' @ path_name p @ '': restored '' @ take 8 restored @
       '' != expected '' @ take 8 expected @ ''.''"

text \<open>One file: write the saved bytes, read them back and compare digests.\<close>

definition restore_file ::
  "host \<Rightarrow> (path, string) dict \<Rightarrow> world \<Rightarrow> path \<Rightarrow> string \<Rightarrow> world \<times> string list" where
  "restore_file h initial_file_hashes w p raw_bytes =
     (case write_bytes w p raw_bytes of
        (w, Some msg) \<Rightarrow> (w, [''Failed to restore '' @ path_name p @ '': '' @ msg])
      | (w, None) \<Rightarrow>
          let restored = ho_sha256 h (dget_default (wd_files w) p []) in
          (case dget initial_file_hashes p of
             None \<Rightarrow> (w, [])
           | Some expected \<Rightarrow>
               if expected \<noteq> [] \<and> restored \<noteq> expected then (w, [mismatch_message p restored expected])
               else (w, [])))"

fun restore_files ::
  "host \<Rightarrow> (path, string) dict \<Rightarrow> world \<Rightarrow> (path \<times> string) list \<Rightarrow> world \<times> string list" where
  "restore_files h hashes w [] = (w, [])"
| "restore_files h hashes w ((p, raw) # rest) =
     (let (w1, errs) = restore_file h hashes w p raw;
          (w2, errs') = restore_files h hashes w1 rest
      in (w2, errs @ errs'))"

definition rollback_transaction ::
  "host \<Rightarrow> world \<Rightarrow> (path, string) dict \<Rightarrow> (path, string) dict \<Rightarrow> world \<times> string \<times> string option" where
  "rollback_transaction h w backup_buffers initial_file_hashes =
     (let (w1, recovery_errors) = restore_files h initial_file_hashes w backup_buffers
      in if recovery_errors \<noteq> []
         then (w1, ''CRITICAL_RECOVERY_FAILURE'', Some (py_join ''; '' recovery_errors))
         else (w1, ''SUCCESS'', None))"

section \<open>Preflight\<close>

text \<open>The reason \<open>verify_valid\<close> gives with its answer.\<close>

fun token_message :: "approval_token \<Rightarrow> string \<Rightarrow> string \<Rightarrow> token_verdict \<Rightarrow> string" where
  "token_message t finding repo TOKEN_VALID = ''VALID''"
| "token_message t finding repo TOKEN_ALREADY_USED =
     ''TOKEN_ALREADY_USED: Token has already been consumed.''"
| "token_message t finding repo INVALID_TOKEN_STATUS =
     ''INVALID_TOKEN_STATUS: Token status is '' @ CHR 0x27 # approval_status_value (tk_status t) @
       CHR 0x27 # '', expected APPROVED.''"
| "token_message t finding repo TOKEN_TAMPERED =
     ''TOKEN_TAMPERED: Approval token fingerprint does not match computed digest.''"
| "token_message t finding repo FINDING_MISMATCH =
     ''FINDING_MISMATCH: Token finding_id '' @ CHR 0x27 # tk_finding_id t @ CHR 0x27 #
       '' != expected '' @ CHR 0x27 # finding @ [CHR 0x27, CHR ''.'']"
| "token_message t finding repo PROPOSAL_FINGERPRINT_MISMATCH =
     ''PROPOSAL_FINGERPRINT_MISMATCH: Token proposal fingerprint does not match proposal.''"
| "token_message t finding repo SNAPSHOT_HASH_MISMATCH =
     ''SNAPSHOT_HASH_MISMATCH: Source code modified after approval (TOCTOU violation).''"
| "token_message t finding repo REPOSITORY_MISMATCH =
     ''REPOSITORY_MISMATCH: Token repository '' @ CHR 0x27 # norm_repository (tk_repository_identity t) @
       CHR 0x27 # '' != current '' @ CHR 0x27 # norm_repository repo @ [CHR 0x27, CHR ''.'']"
| "token_message t finding repo TOKEN_EXPIRED =
     ''TOKEN_EXPIRED: Token expired at '' @ opt_or (tk_expires_at t) [] @ ''.''"

fun target_paths ::
  "host \<Rightarrow> (string, path) dict \<Rightarrow> string list \<Rightarrow> string + (string, path) dict" where
  "target_paths h acc [] = Inr acc"
| "target_paths h acc (rel # rels) =
     rbind (validate_path_safety h rel) (\<lambda>p. target_paths h (dset acc rel p) rels)"

definition quoted :: "string \<Rightarrow> string" where
  "quoted s = CHR 0x27 # s @ [CHR 0x27]"

text \<open>The texts by target and the saved bytes by path.\<close>

type_synonym read_state = "(string, string) dict \<times> (path, string) dict"

fun read_targets ::
  "files \<Rightarrow> read_state \<Rightarrow> (string \<times> path) list \<Rightarrow> string + read_state" where
  "read_targets files st [] = Inr st"
| "read_targets files (contents, backup) ((rel, p) # rest) =
     (case dget files p of
        None \<Rightarrow> Inl (''TARGET_FILE_MISSING: File '' @ quoted rel @ '' does not exist.'')
      | Some raw \<Rightarrow>
          if \<not> utf8_decodes raw
          then Inl (''BINARY_FILE_REJECTED: File '' @ quoted rel @ '' is binary/non-UTF8.'')
          else read_targets files (dset contents rel raw, dset backup p raw) rest)"

text \<open>The hunks in order, each on the text the earlier ones left.\<close>

fun match_hunks ::
  "nat \<Rightarrow> (string, string) dict \<Rightarrow> patch_hunk list \<Rightarrow> string + (string, string) dict" where
  "match_hunks idx modified [] = Inr modified"
| "match_hunks idx modified (k # ks) =
     (let content = dget_default modified (ph_file_path k) [];
          match_count = py_count (ph_original_text k) content
      in if match_count = 0
         then Inl (''EXACT_HUNK_MATCH_FAILED: Hunk '' @ str_nat (idx + 1) @
                '' original_text not found in '' @ quoted (ph_file_path k) @ ''.'')
         else if 1 < match_count
         then Inl (''AMBIGUOUS_HUNK_MATCH: Hunk '' @ str_nat (idx + 1) @ '' matches '' @
                str_nat match_count @ '' occurrences in '' @ quoted (ph_file_path k) @
                ''. Exact 1 match required.'')
         else match_hunks (idx + 1)
                (dset modified (ph_file_path k)
                   (replace_first (ph_original_text k) (ph_proposed_text k) content)) ks)"

definition allowlist_violation :: "patch_proposal \<Rightarrow> patch_hunk option" where
  "allowlist_violation p = find (\<lambda>k. ph_file_path k \<notin> set (pp_target_files p)) (pp_hunks p)"

record patch_plan =
  pl_paths :: "(string, path) dict"
  pl_backup :: "(path, string) dict"
  pl_modified :: "(string, string) dict"

text \<open>Everything between the token's verification and the first write.\<close>

definition plan_patch :: "host \<Rightarrow> world \<Rightarrow> patch_proposal \<Rightarrow> string + patch_plan" where
  "plan_patch h w p =
     (case allowlist_violation p of
        Some k \<Rightarrow> Inl (''TARGET_ALLOWLIST_VIOLATION: Hunk file '' @ quoted (ph_file_path k) @
                    '' not in proposal target_files.'')
      | None \<Rightarrow>
          (case target_paths h [] (pp_target_files p) of
             Inl err \<Rightarrow> Inl (''PATH_TRAVERSAL_REJECTED: '' @ err)
           | Inr paths \<Rightarrow>
               rbind (read_targets (wd_files w) ([], []) paths) (\<lambda>(contents, backup).
               rbind (match_hunks 0 contents (pp_hunks p)) (\<lambda>modified.
                 Inr \<lparr> pl_paths = paths, pl_backup = backup, pl_modified = modified \<rparr>))))"

section \<open>Application\<close>

definition make_result ::
  "string \<Rightarrow> patch_proposal \<Rightarrow> approval_token \<Rightarrow> application_status \<Rightarrow> string \<Rightarrow> string \<Rightarrow> string \<Rightarrow>
     string option \<Rightarrow> application_result" where
  "make_result tx p token status pre post rollback reason =
     \<lparr> ar_transaction_id = tx, ar_finding_id = pp_finding_id p,
       ar_proposal_fingerprint = pp_proposal_fingerprint p, ar_token_id = tk_token_id token,
       ar_status = status, ar_target_files = pp_target_files p, ar_pre_apply_snapshot_hash = pre,
       ar_post_apply_snapshot_hash = post, ar_rollback_status = rollback,
       ar_failure_reason = reason \<rparr>"

definition rejected ::
  "string \<Rightarrow> patch_proposal \<Rightarrow> approval_token \<Rightarrow> string \<Rightarrow> string \<Rightarrow> application_result \<times> approval_token" where
  "rejected tx p token pre reason =
     (make_result tx p token AS_REJECTED pre ''N/A'' ''NOT_NEEDED'' (Some reason), token)"

fun write_all ::
  "(string, path) dict \<Rightarrow> world \<Rightarrow> (string \<times> string) list \<Rightarrow> world \<times> string option" where
  "write_all paths w [] = (w, None)"
| "write_all paths w ((rel, new_text) # rest) =
     (case write_bytes w (dget_default paths rel []) new_text of
        (w1, Some msg) \<Rightarrow> (w1, Some msg)
      | (w1, None) \<Rightarrow> write_all paths w1 rest)"

text \<open>
  The writes, the snapshot after them and the token's use; an exception of any of them is caught
  and its message returned.
\<close>

definition commit_patch ::
  "host \<Rightarrow> world \<Rightarrow> patch_proposal \<Rightarrow> approval_token \<Rightarrow> patch_plan \<Rightarrow>
     world \<times> (string + source_snapshot \<times> approval_token)" where
  "commit_patch h w p token plan =
     (case write_all (pl_paths plan) w (pl_modified plan) of
        (w1, Some msg) \<Rightarrow> (w1, Inl msg)
      | (w1, None) \<Rightarrow>
          (case host_capture h w1 (pp_target_files p) of
             None \<Rightarrow> (w1, Inl (capture_message (pp_target_files p) h))
           | Some post \<Rightarrow>
               (case mark_used token of
                  Inl _ \<Rightarrow> (w1, Inl (''Approval token '' @ quoted (tk_token_id token) @ '' is already USED.''))
                | Inr used \<Rightarrow> (w1, Inr (post, used)))))"

definition failure_message :: "string \<Rightarrow> string option \<Rightarrow> string" where
  "failure_message exc rb_err =
     ''APPLICATION_WRITE_FAILED: '' @ exc @
       (case rb_err of None \<Rightarrow> [] | Some e \<Rightarrow> if e = [] then [] else '' | ROLLBACK_ERROR: '' @ e)"

definition execute_plan ::
  "host \<Rightarrow> world \<Rightarrow> string \<Rightarrow> patch_proposal \<Rightarrow> approval_token \<Rightarrow> string \<Rightarrow> patch_plan \<Rightarrow>
     world \<times> application_result \<times> approval_token" where
  "execute_plan h w tx p token pre plan =
     (case commit_patch h w p token plan of
        (w1, Inr (post, used)) \<Rightarrow>
          (w1, make_result tx p token AS_APPLIED pre (ss_aggregate_hash post) ''NOT_NEEDED'' None, used)
      | (w1, Inl exc) \<Rightarrow>
          let (w2, rb_status, rb_err) =
                rollback_transaction h w1 (pl_backup plan)
                  (map (\<lambda>(q, raw). (q, ho_sha256 h raw)) (pl_backup plan))
          in (w2, make_result tx p token
                (if rb_status = ''CRITICAL_RECOVERY_FAILURE'' then AS_CRITICAL_RECOVERY_FAILURE
                 else AS_FAILED)
                pre ''N/A'' rb_status (Some (failure_message exc rb_err)), token))"

definition apply_patch ::
  "host \<Rightarrow> world \<Rightarrow> string \<Rightarrow> patch_proposal \<Rightarrow> approval_token \<Rightarrow> source_snapshot option \<Rightarrow>
     approval_error + world \<times> application_result \<times> approval_token" where
  "apply_patch h w tx p token current =
     (if tk_status token = AP_USED
      then Inr (w, rejected tx p token ''N/A''
             ''TOKEN_ALREADY_USED: Approval token has already been consumed.'')
      else case (case current of Some s \<Rightarrow> Some s | None \<Rightarrow> host_capture h w (pp_target_files p)) of
        None \<Rightarrow> Inr (w, rejected tx p token ''N/A''
                  (''PATH_TRAVERSAL_REJECTED: '' @ capture_message (pp_target_files p) h))
      | Some snap \<Rightarrow>
          rbind (verify_valid (ho_sha256 h) (ho_fromisoformat h) (ho_clock h) token
                   (pp_finding_id p) (pp_proposal_fingerprint p) (ss_aggregate_hash snap)
                   (path_str (ho_root h)) None) (\<lambda>verdict.
            if verdict \<noteq> TOKEN_VALID
            then Inr (w, rejected tx p token (ss_aggregate_hash snap)
                   (''APPROVAL_VERIFICATION_FAILED: '' @
                    token_message token (pp_finding_id p) (path_str (ho_root h)) verdict))
            else case plan_patch h w p of
              Inl reason \<Rightarrow> Inr (w, rejected tx p token (ss_aggregate_hash snap) reason)
            | Inr plan \<Rightarrow> Inr (execute_plan h w tx p token (ss_aggregate_hash snap) plan)))"

section \<open>Writes and rollback\<close>

lemma write_bytes_ok: "write_bytes w p b = (w', None) \<Longrightarrow> wd_files w' = dset (wd_files w) p b"
  by (auto simp: write_bytes_def Let_def split: list.splits write_outcome.splits option.splits)

lemma write_bytes_frame:
  "write_bytes w p b = (w', m) \<Longrightarrow> q \<noteq> p \<Longrightarrow> dget (wd_files w') q = dget (wd_files w) q"
  by (auto simp: write_bytes_def Let_def split: list.splits write_outcome.splits option.splits)

lemma write_bytes_no_faults: "wd_writes w = [] \<Longrightarrow> write_bytes w p b = (w\<lparr> wd_files := dset (wd_files w) p b \<rparr>, None)"
  by (simp add: write_bytes_def)

definition written :: "(string, path) dict \<Rightarrow> files \<Rightarrow> (string \<times> string) list \<Rightarrow> files" where
  "written paths files ms = foldl (\<lambda>f (rel, t). dset f (dget_default paths rel []) t) files ms"

lemma write_all_ok:
  "write_all paths w ms = (w', None) \<Longrightarrow> wd_files w' = written paths (wd_files w) ms"
  by (induction ms arbitrary: w)
    (auto simp: written_def write_bytes_ok split: prod.splits option.splits)

lemma write_all_frame:
  "write_all paths w ms = (w', m) \<Longrightarrow> q \<notin> (\<lambda>(rel, t). dget_default paths rel []) ` set ms \<Longrightarrow>
     dget (wd_files w') q = dget (wd_files w) q"
proof (induction ms arbitrary: w)
  case (Cons a ms)
  obtain rel t where a: "a = (rel, t)" by fastforce
  obtain w1 m1 where w1: "write_bytes w (dget_default paths rel []) t = (w1, m1)" by fastforce
  have "dget (wd_files w1) q = dget (wd_files w) q"
    using write_bytes_frame [OF w1] Cons.prems(2) a by auto
  with Cons a w1 show ?case by (cases m1) auto
qed simp

lemma write_all_no_faults:
  "wd_writes w = [] \<Longrightarrow> write_all paths w ms = (w\<lparr> wd_files := written paths (wd_files w) ms \<rparr>, None)"
  by (induction ms arbitrary: w) (auto simp: write_bytes_no_faults written_def)

lemma restore_file_ok:
  assumes "restore_file h hashes w p raw = (w', [])"
  shows "wd_files w' = dset (wd_files w) p raw"
  using assms write_bytes_ok
  by (auto simp: restore_file_def Let_def split: prod.splits option.splits if_splits)

lemma restore_files_ok:
  "restore_files h hashes w backup = (w', []) \<Longrightarrow> distinct (map fst backup) \<Longrightarrow>
     dget (wd_files w') q = (case dget backup q of Some raw \<Rightarrow> Some raw | None \<Rightarrow> dget (wd_files w) q)"
proof (induction backup arbitrary: w)
  case (Cons a backup)
  obtain p raw where a: "a = (p, raw)" by fastforce
  obtain w1 e1 where w1: "restore_file h hashes w p raw = (w1, e1)" by fastforce
  obtain w2 e2 where w2: "restore_files h hashes w1 backup = (w2, e2)" by fastforce
  from Cons.prems(1) a w1 w2 have e: "e1 = []" "e2 = []" "w2 = w'" by simp_all
  have "dget (wd_files w') q = (case dget backup q of Some raw \<Rightarrow> Some raw | None \<Rightarrow> dget (wd_files w1) q)"
    using Cons.IH w2 e Cons.prems(2) by auto
  moreover have "wd_files w1 = dset (wd_files w) p raw" using restore_file_ok w1 e(1) by blast
  moreover have "dget backup p = None"
    using Cons.prems(2) a by (simp add: dget_None_iff)
  ultimately show ?case using a by (auto split: option.splits)
qed simp

lemma rollback_success:
  assumes "rollback_transaction h w backup hashes = (w', ''SUCCESS'', err)" "distinct (map fst backup)"
  shows "dget (wd_files w') q = (case dget backup q of Some raw \<Rightarrow> Some raw | None \<Rightarrow> dget (wd_files w) q)"
  using assms restore_files_ok [of h hashes w backup]
  by (auto simp: rollback_transaction_def Let_def split: prod.splits if_splits)

section \<open>The plan\<close>

lemma target_paths_ok:
  assumes "target_paths h acc rels = Inr paths"
  shows "list_all (\<lambda>t. inside (ho_resolve h) (ho_root h) t) rels \<and>
    dget paths t = (if t \<in> set rels then Some (ho_resolve h (path_join (ho_root h) (slashes t)))
                    else dget acc t) \<and>
    (distinct (dkeys acc) \<longrightarrow> distinct (dkeys paths))"
  using assms
proof (induction rels arbitrary: acc)
  case (Cons rel rels)
  then obtain p where p: "validate_path_safety h rel = Inr p" "target_paths h (dset acc rel p) rels = Inr paths"
    by auto
  have "inside (ho_resolve h) (ho_root h) rel" "p = ho_resolve h (path_join (ho_root h) (slashes rel))"
    using p(1) by (auto simp: validate_path_safety_def inside_def Let_def split: if_splits)
  with Cons.IH [OF p(2)] show ?case using distinct_dset by auto
qed auto

lemma read_targets_ok:
  assumes "read_targets files (c, b) ps = Inr (contents, backup)" "distinct (map fst ps)"
  shows "dget contents t = (case dget ps t of Some p \<Rightarrow> dget files p | None \<Rightarrow> dget c t) \<and>
    dget backup q = (if q \<in> snd ` set ps then dget files q else dget b q) \<and>
    (\<forall>p\<in>snd ` set ps. dget files p \<noteq> None) \<and>
    (distinct (dkeys c) \<longrightarrow> distinct (dkeys contents)) \<and>
    (distinct (dkeys b) \<longrightarrow> distinct (dkeys backup))"
  using assms
proof (induction ps arbitrary: c b)
  case (Cons a ps)
  obtain rel p where a: "a = (rel, p)" by fastforce
  with Cons.prems(1) obtain raw where raw: "dget files p = Some raw"
    "read_targets files (dset c rel raw, dset b p raw) ps = Inr (contents, backup)"
    by (auto split: option.splits if_splits)
  have "dget ps rel = None" using Cons.prems(2) a by (simp add: dget_None_iff)
  with Cons.IH [OF raw(2)] Cons.prems(2) raw(1) a distinct_dset [of b p raw] distinct_dset [of c rel raw]
  show ?case by (auto split: option.splits)
qed auto

text \<open>What a hunk list makes of one file's text; each hunk must occur exactly once when its turn comes.\<close>

fun patch_text :: "string \<Rightarrow> patch_hunk list \<Rightarrow> string \<Rightarrow> string option" where
  "patch_text t [] s = Some s"
| "patch_text t (k # ks) s =
     (if ph_file_path k \<noteq> t then patch_text t ks s
      else if py_count (ph_original_text k) s = 1
      then patch_text t ks (replace_first (ph_original_text k) (ph_proposed_text k) s)
      else None)"

lemma match_hunks_ok:
  assumes "match_hunks i m ks = Inr m'" "\<forall>k\<in>set ks. ph_file_path k \<in> set (dkeys m)"
  shows "set (dkeys m') = set (dkeys m) \<and> (distinct (dkeys m) \<longrightarrow> distinct (dkeys m')) \<and>
    (\<forall>s. dget m t = Some s \<longrightarrow> dget m' t = patch_text t ks s \<and> patch_text t ks s \<noteq> None)"
  using assms
proof (induction ks arbitrary: i m)
  case (Cons k ks)
  let ?c = "dget_default m (ph_file_path k) []"
  let ?m = "dset m (ph_file_path k) (replace_first (ph_original_text k) (ph_proposed_text k) ?c)"
  have one: "py_count (ph_original_text k) ?c = 1" and rest: "match_hunks (i + 1) ?m ks = Inr m'"
    using Cons.prems(1) by (auto simp: Let_def split: if_splits)
  have "ph_file_path k \<in> set (dkeys m)" using Cons.prems(2) by simp
  then obtain s0 where s0: "dget m (ph_file_path k) = Some s0"
    by (metis dget_None_iff option.exhaust)
  then have keys: "set (dkeys ?m) = set (dkeys m)" using \<open>ph_file_path k \<in> set (dkeys m)\<close>
    unfolding set_dkeys_dset by blast
  have "\<forall>k\<in>set ks. ph_file_path k \<in> set (dkeys ?m)" using Cons.prems(2) unfolding keys by simp
  from Cons.IH [OF rest this] keys s0 one distinct_dset [of m]
  show ?case by (auto simp: dget_default_def)
qed simp

text \<open>A plan in terms of the files it was made from.\<close>

definition plan_ok :: "host \<Rightarrow> files \<Rightarrow> patch_proposal \<Rightarrow> patch_plan \<Rightarrow> bool" where
  "plan_ok h files p plan \<longleftrightarrow>
     list_all (inside (ho_resolve h) (ho_root h)) (pp_target_files p) \<and>
     (\<forall>t. dget (pl_paths plan) t = (if t \<in> set (pp_target_files p)
        then Some (ho_resolve h (path_join (ho_root h) (slashes t))) else None)) \<and>
     set (dkeys (pl_modified plan)) = set (pp_target_files p) \<and> distinct (dkeys (pl_modified plan)) \<and>
     distinct (dkeys (pl_backup plan)) \<and>
     (\<forall>q. dget (pl_backup plan) q =
        (if q \<in> (\<lambda>t. ho_resolve h (path_join (ho_root h) (slashes t))) ` set (pp_target_files p)
         then dget files q else None)) \<and>
     (\<forall>t\<in>set (pp_target_files p). \<exists>s s'. content_of (ho_resolve h) (ho_root h) files t = Some s \<and>
        patch_text t (pp_hunks p) s = Some s' \<and> dget (pl_modified plan) t = Some s')"

lemma plan_patch_ok:
  assumes "plan_patch h w p = Inr plan"
  shows "plan_ok h (wd_files w) p plan"
proof -
  let ?r = "\<lambda>t. ho_resolve h (path_join (ho_root h) (slashes t))"
  from assms obtain paths contents backup modified where
    allow: "allowlist_violation p = None"
    and paths: "target_paths h [] (pp_target_files p) = Inr paths"
    and contents: "read_targets (wd_files w) ([], []) paths = Inr (contents, backup)"
    and modified: "match_hunks 0 contents (pp_hunks p) = Inr modified"
    and plan: "plan = \<lparr> pl_paths = paths, pl_backup = backup, pl_modified = modified \<rparr>"
    by (auto simp: plan_patch_def split: option.splits sum.splits)
  have P: "list_all (inside (ho_resolve h) (ho_root h)) (pp_target_files p)"
    "\<And>t. dget paths t = (if t \<in> set (pp_target_files p) then Some (?r t) else None)"
    "distinct (dkeys paths)"
    using target_paths_ok [OF paths] by auto
  have range: "snd ` set paths = ?r ` set (pp_target_files p)"
  proof -
    have "snd ` set paths = ran (map_of paths)" using P(3) by (simp add: ran_distinct)
    also have "\<dots> = ?r ` set (pp_target_files p)" using P(2) by (auto simp: ran_def)
    finally show ?thesis .
  qed
  note C = read_targets_ok [OF contents P(3)]
  have c: "dget contents t = (if t \<in> set (pp_target_files p) then dget (wd_files w) (?r t) else None)" for t
    using C [of t] P(2) [of t] by (simp split: if_splits)
  have some: "dget (wd_files w) (?r t) \<noteq> None" if "t \<in> set (pp_target_files p)" for t
    using C range that by blast
  have keys: "set (dkeys contents) = set (pp_target_files p)"
    using c some by (auto simp: dom_map_of_conv_image_fst [symmetric] dom_def split: if_splits)
  have "\<forall>k\<in>set (pp_hunks p). ph_file_path k \<in> set (dkeys contents)"
    using allow unfolding keys by (auto simp: allowlist_violation_def find_None_iff)
  note M = match_hunks_ok [OF modified this]
  have "\<exists>s s'. content_of (ho_resolve h) (ho_root h) (wd_files w) t = Some s \<and>
      patch_text t (pp_hunks p) s = Some s' \<and> dget modified t = Some s'"
    if "t \<in> set (pp_target_files p)" for t
    using M [of t] c [of t] some [OF that] that by (auto simp: content_of_def)
  moreover have "distinct (dkeys backup)" "distinct (dkeys contents)"
    "\<And>q. dget backup q = (if q \<in> ?r ` set (pp_target_files p) then dget (wd_files w) q else None)"
    using C range by auto
  ultimately show ?thesis
    unfolding plan_ok_def plan using P(1,2) M keys by auto
qed

lemma plan_patch_frame:
  assumes "plan_ok h files p plan" "q \<notin> (\<lambda>t. ho_resolve h (path_join (ho_root h) (slashes t))) ` set (pp_target_files p)"
  shows "q \<notin> (\<lambda>(rel, t). dget_default (pl_paths plan) rel []) ` set (pl_modified plan)"
proof
  assume "q \<in> (\<lambda>(rel, t). dget_default (pl_paths plan) rel []) ` set (pl_modified plan)"
  then obtain rel t where rt: "(rel, t) \<in> set (pl_modified plan)" "q = dget_default (pl_paths plan) rel []"
    by auto
  then have "rel \<in> set (pp_target_files p)" using assms(1) by (force simp: plan_ok_def)
  with rt assms show False by (auto simp: plan_ok_def dget_default_def)
qed

text \<open>With distinct paths for distinct targets, each target ends with its own text.\<close>

lemma written_dget:
  assumes "distinct (map fst ms)" "inj_on (\<lambda>rel. dget_default paths rel []) (set (map fst ms))"
  shows "(rel, t) \<in> set ms \<Longrightarrow> dget (written paths files ms) (dget_default paths rel []) = Some t"
  using assms
proof (induction ms arbitrary: files)
  case (Cons a ms)
  obtain r0 t0 where a: "a = (r0, t0)" by fastforce
  have frame: "dget (written paths fs ms) q = dget fs q"
    if "q \<notin> (\<lambda>rel. dget_default paths rel []) ` set (map fst ms)" for fs q ms
    using that by (induction ms arbitrary: fs) (auto simp: written_def)
  show ?case
  proof (cases "(rel, t) \<in> set ms")
    case True
    with Cons a show ?thesis by (auto simp: written_def)
  next
    case False
    with Cons.prems a have "rel = r0" "t = t0" by auto
    moreover have "dget_default paths r0 [] \<notin> (\<lambda>rel. dget_default paths rel []) ` set (map fst ms)"
      using Cons.prems(2,3) a by (auto simp: inj_on_def)
    ultimately show ?thesis
      using frame [of "dget_default paths r0 []" ms "dset files (dget_default paths r0 []) t0"] a
      by (simp add: written_def)
  qed
qed simp

section \<open>Outcomes\<close>

lemma commit_patch_ok:
  assumes "commit_patch h w p token plan = (w', Inr (post, used))"
  shows "wd_files w' = written (pl_paths plan) (wd_files w) (pl_modified plan)"
    "mark_used token = Inr used" "host_capture h w' (pp_target_files p) = Some post"
  using assms write_all_ok
  by (auto simp: commit_patch_def split: prod.splits option.splits sum.splits)

lemma commit_patch_frame:
  assumes "commit_patch h w p token plan = (w', res)"
    "q \<notin> (\<lambda>(rel, t). dget_default (pl_paths plan) rel []) ` set (pl_modified plan)"
  shows "dget (wd_files w') q = dget (wd_files w) q"
  using assms write_all_frame
  by (fastforce simp: commit_patch_def split: prod.splits option.splits sum.splits)

lemma execute_plan_cases:
  assumes "execute_plan h w tx p token pre plan = (w', r, t')" "plan_ok h (wd_files w) p plan"
  obtains (applied) "ar_status r = AS_APPLIED" "mark_used token = Inr t'"
      "wd_files w' = written (pl_paths plan) (wd_files w) (pl_modified plan)"
      "ar_pre_apply_snapshot_hash r = pre"
  | (failed) "ar_status r = AS_FAILED" "t' = token" "\<forall>q. dget (wd_files w') q = dget (wd_files w) q"
      "ar_rollback_status r = ''SUCCESS''"
  | (critical) "ar_status r = AS_CRITICAL_RECOVERY_FAILURE" "t' = token"
      "ar_rollback_status r = ''CRITICAL_RECOVERY_FAILURE''"
proof -
  obtain w1 res where c: "commit_patch h w p token plan = (w1, res)" by fastforce
  show thesis
  proof (cases res)
    case (Inr b)
    obtain post used where b: "b = (post, used)" by fastforce
    have c': "commit_patch h w p token plan = (w1, Inr (post, used))" using c Inr b by simp
    from assms(1) c' have "w' = w1" "t' = used" "ar_status r = AS_APPLIED" "ar_pre_apply_snapshot_hash r = pre"
      by (auto simp: execute_plan_def make_result_def)
    with commit_patch_ok [OF c'] show thesis by (intro applied) simp_all
  next
    case (Inl exc)
    let ?hashes = "map (\<lambda>(q, raw). (q, ho_sha256 h raw)) (pl_backup plan)"
    obtain w2 st err where rb: "rollback_transaction h w1 (pl_backup plan) ?hashes = (w2, st, err)"
      by (metis prod_cases3)
    have r: "w' = w2" "t' = token" "ar_rollback_status r = st"
      "ar_status r = (if st = ''CRITICAL_RECOVERY_FAILURE'' then AS_CRITICAL_RECOVERY_FAILURE else AS_FAILED)"
      using assms(1) c Inl rb by (auto simp: execute_plan_def make_result_def)
    have st: "st = ''SUCCESS'' \<or> st = ''CRITICAL_RECOVERY_FAILURE''"
      using rb by (auto simp: rollback_transaction_def Let_def split: prod.splits if_splits)
    show thesis
    proof (cases "st = ''SUCCESS''")
      case True
      have d: "distinct (map fst (pl_backup plan))" using assms(2) by (simp add: plan_ok_def)
      have "dget (wd_files w2) q = dget (wd_files w) q" for q
      proof -
        have "dget (wd_files w2) q =
            (case dget (pl_backup plan) q of Some raw \<Rightarrow> Some raw | None \<Rightarrow> dget (wd_files w1) q)"
          using rollback_success [OF _ d] rb True by blast
        moreover have "dget (wd_files w1) q = dget (wd_files w) q"
          if "q \<notin> (\<lambda>t. ho_resolve h (path_join (ho_root h) (slashes t))) ` set (pp_target_files p)"
          by (rule commit_patch_frame [OF c plan_patch_frame [OF assms(2) that]])
        moreover have "dget (wd_files w) q \<noteq> None"
          if "q \<in> (\<lambda>t. ho_resolve h (path_join (ho_root h) (slashes t))) ` set (pp_target_files p)"
          using that assms(2) by (fastforce simp: plan_ok_def content_of_def)
        ultimately show ?thesis using assms(2) by (auto simp: plan_ok_def split: option.splits)
      qed
      then show thesis using r True by (intro failed) simp_all
    next
      case False
      with st r show thesis by (intro critical) simp_all
    qed
  qed
qed

lemma apply_patch_cases:
  assumes "apply_patch h w tx p token current = Inr (w', r, t')"
  obtains (rejected) "ar_status r = AS_REJECTED" "w' = w" "t' = token" "ar_rollback_status r = ''NOT_NEEDED''"
  | (executed) snap plan where
      "(case current of Some s \<Rightarrow> Some s | None \<Rightarrow> host_capture h w (pp_target_files p)) = Some snap"
      "verify_valid (ho_sha256 h) (ho_fromisoformat h) (ho_clock h) token (pp_finding_id p)
         (pp_proposal_fingerprint p) (ss_aggregate_hash snap) (path_str (ho_root h)) None = Inr TOKEN_VALID"
      "plan_patch h w p = Inr plan" "plan_ok h (wd_files w) p plan"
      "execute_plan h w tx p token (ss_aggregate_hash snap) plan = (w', r, t')"
proof -
  let ?cap = "case current of Some s \<Rightarrow> Some s | None \<Rightarrow> host_capture h w (pp_target_files p)"
  have rej: "thesis" if "rejected tx p token pre reason = (r, t')" "w = w'" for pre reason
    using that rejected by (auto simp: rejected_def make_result_def)
  show thesis
  proof (cases "tk_status token = AP_USED \<or> ?cap = None")
    case True
    then show thesis using assms by (auto simp: apply_patch_def intro: rej split: if_splits)
  next
    case False
    then obtain snap where snap: "?cap = Some snap" by blast
    with assms False obtain v where v: "verify_valid (ho_sha256 h) (ho_fromisoformat h) (ho_clock h) token
        (pp_finding_id p) (pp_proposal_fingerprint p) (ss_aggregate_hash snap) (path_str (ho_root h)) None = Inr v"
      unfolding apply_patch_def by auto
    show thesis
    proof (cases "v = TOKEN_VALID")
      case False': False
      then show thesis using assms False snap v by (auto simp: apply_patch_def intro: rej)
    next
      case True
      then show thesis
      proof (cases "plan_patch h w p")
        case (Inl reason)
        then show thesis using assms False snap v True by (auto simp: apply_patch_def intro: rej)
      next
        case (Inr plan)
        show thesis
        proof (rule executed [OF snap _ Inr plan_patch_ok [OF Inr]])
          show "execute_plan h w tx p token (ss_aggregate_hash snap) plan = (w', r, t')"
            using assms False snap v True Inr by (auto simp: apply_patch_def)
        qed (use v True in simp)
      qed
    qed
  qed
qed

lemma applied_patch_facts:
  assumes "apply_patch h w tx p token None = Inr (w', r, t')" "ar_status r = AS_APPLIED"
    and "inj_on (\<lambda>t. ho_resolve h (path_join (ho_root h) (slashes t))) (set (pp_target_files p))"
  shows "(\<exists>snap. host_capture h w (pp_target_files p) = Some snap \<and>
      verify_valid (ho_sha256 h) (ho_fromisoformat h) (ho_clock h) token (pp_finding_id p)
        (pp_proposal_fingerprint p) (ss_aggregate_hash snap) (path_str (ho_root h)) None = Inr TOKEN_VALID) \<and>
    (\<forall>t\<in>set (pp_target_files p). \<exists>s. content_of (ho_resolve h) (ho_root h) (wd_files w) t = Some s \<and>
       patch_text t (pp_hunks p) s \<noteq> None \<and>
       content_of (ho_resolve h) (ho_root h) (wd_files w') t = patch_text t (pp_hunks p) s) \<and>
    (\<forall>q. q \<notin> (\<lambda>t. ho_resolve h (path_join (ho_root h) (slashes t))) ` set (pp_target_files p) \<longrightarrow>
       dget (wd_files w') q = dget (wd_files w) q)"
  using assms(1)
proof (cases rule: apply_patch_cases)
  case (executed snap plan)
  note plan = executed(4)
  from executed(5) plan have files: "wd_files w' = written (pl_paths plan) (wd_files w) (pl_modified plan)"
    by (cases rule: execute_plan_cases) (use assms(2) in auto)
  have keys: "set (map fst (pl_modified plan)) = set (pp_target_files p)" "distinct (map fst (pl_modified plan))"
    using plan by (auto simp: plan_ok_def)
  have at: "dget_default (pl_paths plan) t [] = ho_resolve h (path_join (ho_root h) (slashes t))"
    if "t \<in> set (pp_target_files p)" for t
    using plan that by (simp add: plan_ok_def dget_default_def)
  have inj: "inj_on (\<lambda>t. dget_default (pl_paths plan) t []) (set (map fst (pl_modified plan)))"
    using assms(3) unfolding keys by (simp add: inj_on_def at)
  have "\<exists>s. content_of (ho_resolve h) (ho_root h) (wd_files w) t = Some s \<and>
      patch_text t (pp_hunks p) s \<noteq> None \<and>
      content_of (ho_resolve h) (ho_root h) (wd_files w') t = patch_text t (pp_hunks p) s"
    if t: "t \<in> set (pp_target_files p)" for t
  proof -
    obtain s s' where s: "content_of (ho_resolve h) (ho_root h) (wd_files w) t = Some s"
      "patch_text t (pp_hunks p) s = Some s'" "dget (pl_modified plan) t = Some s'"
      using plan t by (fastforce simp: plan_ok_def)
    have "dget (wd_files w') (dget_default (pl_paths plan) t []) = Some s'"
      unfolding files by (rule written_dget [OF keys(2) inj map_of_SomeD [OF s(3)]])
    with s t show ?thesis by (simp add: content_of_def at)
  qed
  moreover have "dget (wd_files w') q = dget (wd_files w) q"
    if "q \<notin> (\<lambda>t. ho_resolve h (path_join (ho_root h) (slashes t))) ` set (pp_target_files p)" for q
    using write_all_frame [OF write_all_no_faults plan_patch_frame [OF plan that], of "w\<lparr> wd_writes := [] \<rparr>"]
    unfolding files by simp
  ultimately show ?thesis using executed(1,2) by auto
qed (use assms(2) in simp)

section \<open>Properties\<close>

text \<open>
  C6: A patch application that returns has left the files and the token in
  one of three ways: rejected or failed, with every file byte for byte as before and the token
  untouched (a failed write was rolled back); applied, with the planned texts written and the
  token used up; or reported as a critical recovery failure, with the token untouched.
\<close>

theorem apply_all_or_nothing:
  assumes "apply_patch h w tx p token current = Inr (w', r, t')"
  shows "ar_status r \<in> {AS_REJECTED, AS_FAILED} \<and> t' = token \<and>
      (\<forall>q. dget (wd_files w') q = dget (wd_files w) q) \<or>
    ar_status r = AS_APPLIED \<and> mark_used token = Inr t' \<and>
      (\<exists>plan. plan_patch h w p = Inr plan \<and>
         wd_files w' = written (pl_paths plan) (wd_files w) (pl_modified plan)) \<or>
    ar_status r = AS_CRITICAL_RECOVERY_FAILURE \<and> t' = token \<and>
      ar_rollback_status r = ''CRITICAL_RECOVERY_FAILURE''"
  using assms
proof (cases rule: apply_patch_cases)
  case (executed snap plan)
  from executed(5,4) show ?thesis
    by (cases rule: execute_plan_cases) (use executed(3) in auto)
qed simp

definition demo_host :: host where
  "demo_host = \<lparr> ho_sha256 = demo_digest, ho_fromisoformat = (\<lambda>_. None), ho_resolve = (\<lambda>p. p),
     ho_root = [''r''], ho_clock = 0, ho_now_iso = ''t'' \<rparr>"

definition demo_world :: "write_outcome list \<Rightarrow> world" where
  "demo_world ws = \<lparr> wd_files = [([''r'', ''a.py''], ''x = q(i)''), ([''r'', ''b.py''], ''y'')],
     wd_writes = ws \<rparr>"

definition demo_hunk :: "string \<Rightarrow> patch_hunk" where
  "demo_hunk new = \<lparr> ph_file_path = ''a.py'', ph_start_line = 1, ph_end_line = 1,
     ph_original_text = ''q(i)'', ph_proposed_text = new, ph_context = [], ph_evidence_reference = [] \<rparr>"

definition demo_proposal :: "string \<Rightarrow> patch_proposal" where
  "demo_proposal new = \<lparr> pp_proposal_id = ''p1'', pp_finding_id = ''F1'', pp_target_files = [''a.py''],
     pp_hunks = [demo_hunk new], pp_unified_diff = ''d'', pp_rationale = [],
     pp_root_cause_reference = [], pp_evidence_references = [], pp_expected_effect = [],
     pp_risk_level = [], pp_assumptions = [], pp_validation_status = PV_VALID,
     pp_proposal_fingerprint =
       proposal_fingerprint demo_digest ''F1'' [''a.py''] ''d'' PV_VALID \<rparr>"

text \<open>A token for the proposal that wraps the argument, on the demo world's files.\<close>

definition demo_snapshot :: source_snapshot where
  "demo_snapshot = the (host_capture demo_host (demo_world []) [''a.py''])"

definition demo_approval :: approval_token where
  "demo_approval = create_token demo_digest ''T1'' ''t'' ''F1''
     (pp_proposal_fingerprint (demo_proposal ''q(safe(i))''))
     (ss_aggregate_hash demo_snapshot) [''a.py''] ''/r'' ''alice'' None [] None None"

theorem apply_all_or_nothing_witness:
  "case apply_patch demo_host (demo_world [Write_error ''disk full'' (Some ''x ='')]) ''tx''
      (demo_proposal ''q(safe(i))'') demo_approval None of
     Inl e \<Rightarrow> False
   | Inr (w', r, t') \<Rightarrow> ar_status r = AS_FAILED \<and>
       (\<forall>q. dget (wd_files w') q = dget (wd_files (demo_world [])) q)"
proof -
  let ?w = "demo_world [Write_error ''disk full'' (Some ''x ='')]"
  let ?run = "apply_patch demo_host ?w ''tx'' (demo_proposal ''q(safe(i))'') demo_approval None"
  have "map_sum id (\<lambda>(w', r, t'). ar_status r) ?run = Inr AS_FAILED" by code_simp
  then obtain w' r t' where run: "?run = Inr (w', r, t')" "ar_status r = AS_FAILED"
    by (cases ?run) auto
  from apply_all_or_nothing [OF run(1)] run(2) have "\<forall>q. dget (wd_files w') q = dget (wd_files ?w) q"
    by simp
  moreover have "wd_files ?w = wd_files (demo_world [])" by (simp add: demo_world_def)
  ultimately show ?thesis using run by simp
qed

text \<open>
  C7: When a patch is applied, the token verified as valid for the proposal,
  the repository and a snapshot of the current files; each target existed and each hunk occurred
  in its file exactly once when its turn came; the files of the targets hold the patched texts
  (when no two targets name one file) and every other file is unchanged.
\<close>

theorem applied_patch_exact:
  assumes "apply_patch h w tx p token None = Inr (w', r, t')" "ar_status r = AS_APPLIED"
    and "inj_on (\<lambda>t. ho_resolve h (path_join (ho_root h) (slashes t))) (set (pp_target_files p))"
  shows "(\<exists>snap. host_capture h w (pp_target_files p) = Some snap \<and>
      verify_valid (ho_sha256 h) (ho_fromisoformat h) (ho_clock h) token (pp_finding_id p)
        (pp_proposal_fingerprint p) (ss_aggregate_hash snap) (path_str (ho_root h)) None = Inr TOKEN_VALID) \<and>
    (\<forall>t\<in>set (pp_target_files p). \<exists>s. content_of (ho_resolve h) (ho_root h) (wd_files w) t = Some s \<and>
       patch_text t (pp_hunks p) s \<noteq> None \<and>
       content_of (ho_resolve h) (ho_root h) (wd_files w') t = patch_text t (pp_hunks p) s) \<and>
    (\<forall>q. q \<notin> (\<lambda>t. ho_resolve h (path_join (ho_root h) (slashes t))) ` set (pp_target_files p) \<longrightarrow>
       dget (wd_files w') q = dget (wd_files w) q)"
  by (rule applied_patch_facts [OF assms])

theorem applied_patch_exact_witness:
  "case apply_patch demo_host (demo_world []) ''tx'' (demo_proposal ''q(safe(i))'') demo_approval None of
     Inl e \<Rightarrow> False
   | Inr (w', r, t') \<Rightarrow>
       content_of (ho_resolve demo_host) (ho_root demo_host) (wd_files w') ''a.py'' =
         patch_text ''a.py'' [demo_hunk ''q(safe(i))''] ''x = q(i)'' \<and>
       dget (wd_files w') [''r'', ''b.py''] = Some ''y''"
proof -
  let ?run = "apply_patch demo_host (demo_world []) ''tx'' (demo_proposal ''q(safe(i))'') demo_approval None"
  have "map_sum id (\<lambda>(w', r, t'). ar_status r) ?run = Inr AS_APPLIED" by code_simp
  then obtain w' r t' where run: "?run = Inr (w', r, t')" "ar_status r = AS_APPLIED"
    by (cases ?run) auto
  have "inj_on f (set (pp_target_files (demo_proposal x)))" for f :: "string \<Rightarrow> path" and x
    by (simp add: demo_proposal_def)
  note ex = applied_patch_exact [OF run this]
  have p: "path_join [''r''] (slashes ''a.py'') = [''r'', ''a.py'']" by code_simp
  show ?thesis
    using ex run(1)
    by (auto simp: demo_proposal_def demo_world_def demo_host_def content_of_def p)
qed

text \<open>
  C8: A patch is applied only while every target still holds
  what it held when the approval's snapshot was taken, whatever happened to the files in
  between, unless the digest collides on two contents of a target or on the two aggregate
  records, which are exhibited.
\<close>

theorem applied_only_to_approved_contents:
  assumes "apply_patch h w tx p token None = Inr (w', r, t')" "ar_status r = AS_APPLIED"
    and "hex_digest (ho_sha256 h)"
    and "snapshot_capture (ho_sha256 h) (ho_resolve h) (ho_root h) (wd_files w0) (pp_target_files p)
      approval_time = Some snap0"
    and "tk_source_snapshot_hash token = ss_aggregate_hash snap0"
    and "t \<in> set (pp_target_files p)"
  shows "content_of (ho_resolve h) (ho_root h) (wd_files w) t =
      content_of (ho_resolve h) (ho_root h) (wd_files w0) t \<or>
    content_collision (ho_sha256 h) (ho_resolve h) (ho_root h) (wd_files w) (wd_files w0) t \<or>
    collides (ho_sha256 h)
      (aggregate_preimage (ho_sha256 h) (ho_resolve h) (ho_root h) (wd_files w) (pp_target_files p))
      (aggregate_preimage (ho_sha256 h) (ho_resolve h) (ho_root h) (wd_files w0) (pp_target_files p))"
  using assms(1)
proof (cases rule: apply_patch_cases)
  case (executed snap plan)
  from executed(2) assms(5) have "ss_aggregate_hash snap = ss_aggregate_hash snap0"
    by (simp add: verify_valid_iff)
  from aggregate_binds [OF assms(3) _ assms(4) this assms(6)] executed(1) show ?thesis
    by (simp add: host_capture_def)
qed (use assms(2) in simp)

theorem applied_only_to_approved_contents_witness:
  "case apply_patch demo_host (demo_world []) ''tx'' (demo_proposal ''q(safe(i))'') demo_approval None of
     Inl e \<Rightarrow> False
   | Inr (w', r, t') \<Rightarrow>
       dget (wd_files (demo_world [])) [''r'', ''a.py''] = Some ''x = q(i)'' \<or>
       collides demo_digest ''x = q(i)'' ''x = q(i)'' \<or>
       (\<exists>x y. collides demo_digest x y)"
proof -
  let ?run = "apply_patch demo_host (demo_world []) ''tx'' (demo_proposal ''q(safe(i))'') demo_approval None"
  have "map_sum id (\<lambda>(w', r, t'). ar_status r) ?run = Inr AS_APPLIED" by code_simp
  then obtain w' r t' where run: "?run = Inr (w', r, t')" "ar_status r = AS_APPLIED"
    by (cases ?run) auto
  have cap: "snapshot_capture (ho_sha256 demo_host) (ho_resolve demo_host) (ho_root demo_host)
      (wd_files (demo_world [])) (pp_target_files (demo_proposal ''q(safe(i))'')) ''t'' = Some demo_snapshot"
    by code_simp
  have "tk_source_snapshot_hash demo_approval = ss_aggregate_hash demo_snapshot"
    by (simp add: demo_approval_def create_token_fields)
  with applied_only_to_approved_contents [OF run _ cap, of "''a.py''"] demo_digest_hex run(1)
  show ?thesis
    by (auto simp: demo_host_def demo_proposal_def demo_world_def content_collision_def)
qed

text \<open>
  C9: Neither the proposal's fingerprint nor the token covers the hunks
  that are written: a token that verifies for a proposal also lets the same proposal with any
  other hunks through, and if they can be planned they are applied and use up the token.
\<close>

theorem unapproved_hunks_applied:
  assumes "host_capture h w (pp_target_files p) = Some snap" "wd_writes w = []"
    and "verify_valid (ho_sha256 h) (ho_fromisoformat h) (ho_clock h) token (pp_finding_id p)
      (pp_proposal_fingerprint p) (ss_aggregate_hash snap) (path_str (ho_root h)) None = Inr TOKEN_VALID"
    and "plan_patch h w (p\<lparr> pp_hunks := others \<rparr>) = Inr plan"
  shows "case apply_patch h w tx (p\<lparr> pp_hunks := others \<rparr>) token None of
      Inl e \<Rightarrow> False
    | Inr (w', r, t') \<Rightarrow> ar_status r = AS_APPLIED \<and> tk_status t' = AP_USED \<and>
        wd_files w' = written (pl_paths plan) (wd_files w) (pl_modified plan)"
proof -
  let ?p = "p\<lparr> pp_hunks := others \<rparr>"
  let ?w = "w\<lparr> wd_files := written (pl_paths plan) (wd_files w) (pl_modified plan) \<rparr>"
  have st: "tk_status token = AP_APPROVED" using assms(3) by (simp add: verify_valid_iff)
  have "list_all (inside (ho_resolve h) (ho_root h)) (pp_target_files p)"
    using assms(1) by (auto simp: host_capture_def snapshot_capture_cases split: if_splits)
  then obtain post where "host_capture h ?w (pp_target_files p) = Some post"
    by (auto simp: host_capture_def snapshot_capture_cases)
  then have "commit_patch h w ?p token plan = (?w, Inr (post, token\<lparr> tk_status := AP_USED \<rparr>))"
    using st by (simp add: commit_patch_def write_all_no_faults [OF assms(2)] mark_used_def)
  then show ?thesis
    using assms(1,3,4) st by (simp add: apply_patch_def execute_plan_def make_result_def)
qed

theorem unapproved_hunks_applied_witness:
  "case apply_patch demo_host (demo_world []) ''tx''
      ((demo_proposal ''q(safe(i))'')\<lparr> pp_hunks := [demo_hunk ''evil()''] \<rparr>) demo_approval None of
     Inl e \<Rightarrow> False
   | Inr (w', r, t') \<Rightarrow> ar_status r = AS_APPLIED \<and>
       dget (wd_files w') [''r'', ''a.py''] = Some ''x = evil()''"
proof -
  let ?p = "demo_proposal ''q(safe(i))''"
  let ?q = "?p\<lparr> pp_hunks := [demo_hunk ''evil()''] \<rparr>"
  have cap: "host_capture demo_host (demo_world []) (pp_target_files ?p) = Some demo_snapshot" by code_simp
  have ok: "verify_valid (ho_sha256 demo_host) (ho_fromisoformat demo_host) (ho_clock demo_host)
      demo_approval (pp_finding_id ?p) (pp_proposal_fingerprint ?p) (ss_aggregate_hash demo_snapshot)
      (path_str (ho_root demo_host)) None = Inr TOKEN_VALID" by code_simp
  have w: "wd_writes (demo_world []) = []" by (simp add: demo_world_def)
  have "map_sum id (\<lambda>plan. dget (written (pl_paths plan) (wd_files (demo_world [])) (pl_modified plan))
      [''r'', ''a.py'']) (plan_patch demo_host (demo_world []) ?q) = Inr (Some ''x = evil()'')" by code_simp
  then obtain plan where plan: "plan_patch demo_host (demo_world []) ?q = Inr plan"
    "dget (written (pl_paths plan) (wd_files (demo_world [])) (pl_modified plan)) [''r'', ''a.py''] =
       Some ''x = evil()''"
    by (cases "plan_patch demo_host (demo_world []) ?q") auto
  from unapproved_hunks_applied [OF cap w ok plan(1), of "''tx''"] plan(2)
  show ?thesis by (auto split: sum.splits)
qed

end
