(* ===== verification/ApplicationAgent.thy ===== *)
theory ApplicationAgent
  imports Applier
begin

text \<open>
  The application agent of \<^verbatim>\<open>ai/remediation/application_agent.py\<close>: apply, rescan, verify, and
  undo what was applied. The rescan's outcome (its findings, or the message of the exception it
  raises), the outcome of the project's own tests and the generated identifiers are inputs.
\<close>

datatype agent_error =
    ApprovalRaised approval_error
  | CaptureRaised string
  | DecodeRaised path
  | WriteRaised string

record application_audit_record =
  aa_audit_id :: string
  aa_transaction_id :: string
  aa_finding_id :: string
  aa_proposal_fingerprint :: string
  aa_token_id :: string
  aa_pre_apply_snapshot_hash :: string
  aa_post_apply_snapshot_hash :: string
  aa_application_status :: application_status
  aa_verification_status :: verification_status
  aa_rollback_status :: string
  aa_target_files :: "string list"
  aa_timestamp :: string
  aa_failure_reason :: "string option"

record transaction_input =
  ti_transaction_id :: string
  ti_audit_id :: string
  ti_verification_id :: string
  ti_rescan :: "string + finding list"
  ti_business_tests :: "bool \<times> string"

definition audit_record_of ::
  "host \<Rightarrow> transaction_input \<Rightarrow> patch_proposal \<Rightarrow> approval_token \<Rightarrow> application_result \<Rightarrow>
     verification_status \<Rightarrow> application_audit_record" where
  "audit_record_of h xi p token r vs =
     \<lparr> aa_audit_id = ti_audit_id xi, aa_transaction_id = ar_transaction_id r,
       aa_finding_id = pp_finding_id p, aa_proposal_fingerprint = pp_proposal_fingerprint p,
       aa_token_id = tk_token_id token,
       aa_pre_apply_snapshot_hash = ar_pre_apply_snapshot_hash r,
       aa_post_apply_snapshot_hash = ar_post_apply_snapshot_hash r,
       aa_application_status = ar_status r, aa_verification_status = vs,
       aa_rollback_status = ar_rollback_status r, aa_target_files = pp_target_files p,
       aa_timestamp = ho_now_iso h, aa_failure_reason = ar_failure_reason r \<rparr>"

definition append_record ::
  "application_audit_record list option \<Rightarrow> application_audit_record \<Rightarrow>
     application_audit_record list option" where
  "append_record records r = map_option (\<lambda>rs. rs @ [r]) records"

text \<open>The paths as the agent resolves them: unlike the applier it does not turn backslashes.\<close>

definition agent_path :: "host \<Rightarrow> string \<Rightarrow> path" where
  "agent_path h rel = ho_resolve h (path_join (ho_root h) rel)"

text \<open>The bytes the targets hold now, for those that exist.\<close>

fun current_bytes :: "host \<Rightarrow> files \<Rightarrow> (path, string) dict \<Rightarrow> string list \<Rightarrow> (path, string) dict" where
  "current_bytes h files acc [] = acc"
| "current_bytes h files acc (rel # rels) =
     (case dget files (agent_path h rel) of
        None \<Rightarrow> current_bytes h files acc rels
      | Some raw \<Rightarrow> current_bytes h files (dset acc (agent_path h rel) raw) rels)"

type_synonym transaction_output =
  "application_result \<times> verification_result option \<times> approval_token \<times>
   application_audit_record list option"

text \<open>The rescan raised: the files are read back and written again, without expected digests.\<close>

definition rescan_failed ::
  "host \<Rightarrow> world \<Rightarrow> patch_proposal \<Rightarrow> approval_token \<Rightarrow> application_result \<Rightarrow> approval_token \<Rightarrow> string \<Rightarrow>
     application_audit_record list option \<Rightarrow> world \<times> (agent_error + transaction_output)" where
  "rescan_failed h w p token r updated scan_err records =
     (case host_capture h w (pp_target_files p) of
        None \<Rightarrow> (w, Inl (CaptureRaised (capture_message (pp_target_files p) h)))
      | Some pre_snap \<Rightarrow>
          let (w1, rb_status, rb_err) =
                rollback_transaction h w (current_bytes h (wd_files w) [] (pp_target_files p)) []
          in (w1, Inr
               (make_result (ar_transaction_id r) p token AS_FAILED (ss_aggregate_hash pre_snap) ''N/A''
                  rb_status
                  (Some (''SAST_RESCAN_FAILED: '' @ scan_err @ '' | Rollback: '' @
                     (case rb_err of None \<Rightarrow> ''None'' | Some e \<Rightarrow> e))),
                None, updated, records)))"

text \<open>The undoing of the hunks, in their order; a read or write that raises ends it.\<close>

fun reverse_hunks :: "host \<Rightarrow> world \<Rightarrow> patch_hunk list \<Rightarrow> world \<times> agent_error option" where
  "reverse_hunks h w [] = (w, None)"
| "reverse_hunks h w (k # ks) =
     (let q = agent_path h (ph_file_path k) in
      case dget (wd_files w) q of
        None \<Rightarrow> reverse_hunks h w ks
      | Some raw \<Rightarrow>
          if \<not> utf8_decodes raw then (w, Some (DecodeRaised q))
          else
            let cur_text = universal_newlines raw in
            if contains (ph_proposed_text k) cur_text
            then (case write_bytes w q (replace_first (ph_proposed_text k) (ph_original_text k) cur_text) of
                    (w1, None) \<Rightarrow> reverse_hunks h w1 ks
                  | (w1, Some msg) \<Rightarrow> (w1, Some (WriteRaised msg)))
            else reverse_hunks h w ks)"

text \<open>The verification, overridden when the project's own tests fail after it.\<close>

definition verify_with_tests ::
  "finding \<Rightarrow> finding list \<Rightarrow> transaction_input \<Rightarrow> verification_result" where
  "verify_with_tests f post_findings xi =
     (let v = verify_patch f post_findings (ti_verification_id xi);
          (test_success, test_output) = ti_business_tests xi
      in if vr_status v = VS_VERIFIED_FIXED \<and> \<not> test_success
         then v\<lparr> vr_status := VS_ROLLBACK_REQUIRED,
                 vr_details := ''Business test suite regression detected:'' @ CHR 0x0A # test_output \<rparr>
         else v)"

definition rollback_statuses :: "verification_status set" where
  "rollback_statuses = {VS_STILL_VULNERABLE, VS_UNKNOWN, VS_VERIFICATION_FAILED, VS_ROLLBACK_REQUIRED}"

definition roll_back_patch ::
  "host \<Rightarrow> world \<Rightarrow> patch_proposal \<Rightarrow> approval_token \<Rightarrow> application_result \<Rightarrow> verification_result \<Rightarrow>
     world \<times> (agent_error + application_result)" where
  "roll_back_patch h w p token r v =
     (case reverse_hunks h w (pp_hunks p) of
        (w1, Some e) \<Rightarrow> (w1, Inl e)
      | (w1, None) \<Rightarrow>
          (case host_capture h w1 (pp_target_files p) of
             None \<Rightarrow> (w1, Inl (CaptureRaised (capture_message (pp_target_files p) h)))
           | Some post \<Rightarrow>
               (w1, Inr (make_result (ar_transaction_id r) p token AS_ROLLED_BACK
                  (ar_pre_apply_snapshot_hash r) (ss_aggregate_hash post) ''SUCCESS''
                  (Some (''SECURITY_VERIFICATION_FAILED ('' @ verification_status_value (vr_status v) @
                         ''): Automatic rollback executed.''))))))"

definition execute_transaction ::
  "host \<Rightarrow> world \<Rightarrow> transaction_input \<Rightarrow> patch_proposal \<Rightarrow> approval_token \<Rightarrow> finding \<Rightarrow>
     application_audit_record list option \<Rightarrow> world \<times> (agent_error + transaction_output)" where
  "execute_transaction h w xi p token f records =
     (case apply_patch h w (ti_transaction_id xi) p token None of
        Inl e \<Rightarrow> (w, Inl (ApprovalRaised e))
      | Inr (w1, r, updated) \<Rightarrow>
          if ar_status r \<notin> {AS_APPLIED, AS_READY}
          then (w1, Inr (r, None, updated,
                  append_record records (audit_record_of h xi p token r VS_UNVERIFIED)))
          else case ti_rescan xi of
            Inl scan_err \<Rightarrow> rescan_failed h w1 p token r updated scan_err records
          | Inr post_findings \<Rightarrow>
              let v = verify_with_tests f post_findings xi in
              (case (if vr_status v \<in> rollback_statuses then roll_back_patch h w1 p token r v
                     else (w1, Inr r)) of
                 (w2, Inl e) \<Rightarrow> (w2, Inl e)
               | (w2, Inr r2) \<Rightarrow>
                   (w2, Inr (r2, Some v, updated,
                      append_record records (audit_record_of h xi p token r2 (vr_status v))))))"

section \<open>Facts\<close>

lemma verify_with_tests_status:
  "vr_status (verify_with_tests f gs xi) = VS_VERIFIED_FIXED \<longleftrightarrow>
     fst (ti_business_tests xi) \<and> (\<forall>g\<in>set gs. \<not> semantic_match (contract_from_finding f) g)"
  "vr_status (verify_with_tests f gs xi) \<noteq> VS_VERIFIED_FIXED \<Longrightarrow>
     vr_status (verify_with_tests f gs xi) \<in> rollback_statuses"
  "vr_status (verify_with_tests f gs xi) = VS_VERIFIED_FIXED \<Longrightarrow>
     vr_status (verify_with_tests f gs xi) \<notin> rollback_statuses"
  "vr_finding_id (verify_with_tests f gs xi) = fi_finding_id f"
  "vr_verification_id (verify_with_tests f gs xi) = ti_verification_id xi"
  using verify_patch_status [of f gs "ti_verification_id xi"]
    verify_patch_fixed_iff [of f gs "ti_verification_id xi"]
  by (auto simp: verify_with_tests_def Let_def rollback_statuses_def verify_patch_def split: prod.splits)

text \<open>Every way a transaction returns.\<close>

lemma execute_transaction_cases:
  assumes "execute_transaction h w xi p token f records = (w', Inr (r, v, t', recs))"
  obtains (not_applied) "apply_patch h w (ti_transaction_id xi) p token None = Inr (w', r, t')" "v = None"
      "ar_status r \<in> {AS_REJECTED, AS_FAILED, AS_CRITICAL_RECOVERY_FAILURE}"
  | (scan_failed) w1 r1 err where
      "apply_patch h w (ti_transaction_id xi) p token None = Inr (w1, r1, t')" "ar_status r1 = AS_APPLIED"
      "ti_rescan xi = Inl err" "v = None" "ar_status r = AS_FAILED" "recs = records"
  | (fixed) gs where
      "apply_patch h w (ti_transaction_id xi) p token None = Inr (w', r, t')" "ar_status r = AS_APPLIED"
      "ti_rescan xi = Inr gs" "v = Some (verify_with_tests f gs xi)"
      "vr_status (verify_with_tests f gs xi) = VS_VERIFIED_FIXED"
  | (rolled_back) w1 r1 gs where
      "apply_patch h w (ti_transaction_id xi) p token None = Inr (w1, r1, t')" "ar_status r1 = AS_APPLIED"
      "ti_rescan xi = Inr gs" "v = Some (verify_with_tests f gs xi)"
      "vr_status (verify_with_tests f gs xi) \<noteq> VS_VERIFIED_FIXED"
      "reverse_hunks h w1 (pp_hunks p) = (w', None)" "ar_status r = AS_ROLLED_BACK"
      "ar_rollback_status r = ''SUCCESS''"
proof -
  obtain w1 r1 t1 where a: "apply_patch h w (ti_transaction_id xi) p token None = Inr (w1, r1, t1)"
    using assms by (auto simp: execute_transaction_def split: sum.splits)
  have st: "ar_status r1 \<in> {AS_REJECTED, AS_FAILED, AS_CRITICAL_RECOVERY_FAILURE, AS_APPLIED}"
    using a by (cases rule: apply_patch_cases) (auto elim!: execute_plan_cases)
  show thesis
  proof (cases "ar_status r1 = AS_APPLIED")
    case False
    with st have "ar_status r1 \<notin> {AS_APPLIED, AS_READY}" by auto
    with assms a have "w' = w1" "r = r1" "v = None" "t' = t1"
      by (auto simp: execute_transaction_def)
    with a st False show thesis by (intro not_applied) auto
  next
    case True
    show thesis
    proof (cases "ti_rescan xi")
      case (Inl err)
      with assms a True have "rescan_failed h w1 p token r1 t1 err records = (w', Inr (r, v, t', recs))"
        by (simp add: execute_transaction_def)
      then have "v = None" "t' = t1" "ar_status r = AS_FAILED" "recs = records"
        by (auto simp: rescan_failed_def make_result_def Let_def split: option.splits prod.splits)
      with a True Inl show thesis by (intro scan_failed) auto
    next
      case (Inr gs)
      let ?v = "verify_with_tests f gs xi"
      show thesis
      proof (cases "vr_status ?v = VS_VERIFIED_FIXED")
        case v: True
        have "r = r1" "w' = w1" "t' = t1" "v = Some ?v"
          using assms a True Inr verify_with_tests_status(3) [OF v]
          by (auto simp: execute_transaction_def Let_def)
        with a True Inr v show thesis by (intro fixed) auto
      next
        case v: False
        obtain w2 out where rb: "roll_back_patch h w1 p token r1 ?v = (w2, out)" by fastforce
        have "out = Inr r" "w' = w2" "t' = t1" "v = Some ?v"
          using assms a True Inr verify_with_tests_status(2) [OF v] rb
          by (auto simp: execute_transaction_def Let_def split: sum.splits)
        moreover from this rb have "reverse_hunks h w1 (pp_hunks p) = (w', None)" "ar_status r = AS_ROLLED_BACK"
          "ar_rollback_status r = ''SUCCESS''"
          by (auto simp: roll_back_patch_def make_result_def split: prod.splits option.splits)
        ultimately show thesis using a True Inr v by (intro rolled_back) auto
      qed
    qed
  qed
qed

section \<open>Undoing a patch\<close>

text \<open>A text occurs in exactly one place.\<close>

definition occurs_once :: "string \<Rightarrow> string \<Rightarrow> bool" where
  "occurs_once p s = (length (filter (\<lambda>i. startswith (drop i s) p) [0..<Suc (length s)]) = 1)"

lemma occurs_once_unique:
  assumes "occurs_once q (a @ q @ b)" "a @ q @ b = a' @ q @ b'"
  shows "a = a' \<and> b = b'"
proof -
  let ?s = "a @ q @ b" and ?P = "\<lambda>i. startswith (drop i (a @ q @ b)) q"
  have at: "?P (length x)" "length x \<in> set (filter ?P [0..<Suc (length ?s)])" if "?s = x @ q @ y" for x y
    using that by (auto simp: startswith_def) 
  have single: "\<exists>i. xs = [i]" if "length xs = 1" for xs :: "nat list"
    using that by (cases xs) auto
  obtain i where i: "filter ?P [0..<Suc (length ?s)] = [i]"
    using assms(1) single unfolding occurs_once_def by blast
  from at(2) [OF refl] at(2) [OF assms(2)] have "length a = i" "length a' = i" unfolding i by simp_all
  with assms(2) show ?thesis by auto
qed

text \<open>Replacing a unique text there and back.\<close>

lemma replace_back:
  assumes "contains p s" "occurs_once q (replace_first p q s)"
  shows "replace_first q p (replace_first p q s) = s"
proof -
  from replace_first_split [of p q s] assms(1) obtain a b where
    ab: "s = a @ p @ b" "replace_first p q s = a @ q @ b" by auto
  have "contains q (a @ q @ b)" unfolding contains_iff by blast
  with replace_first_split [of q p "a @ q @ b"] obtain a' b' where
    ab': "a @ q @ b = a' @ q @ b'" "replace_first q p (a @ q @ b) = a' @ p @ b'" by blast
  from occurs_once_unique [OF _ ab'(1)] assms(2) ab(2) have "a = a'" "b = b'" by auto
  with ab ab' show ?thesis by simp
qed

text \<open>After a hunk was undone the file holds no carriage return but those of the hunk's own text.\<close>

lemma set_replace_first: "set (replace_first p q s) \<subseteq> set s \<union> set q"
  by (induction s) (auto dest: in_set_dropD)

lemma universal_newlines_no_cr: "CHR 0x0D \<notin> set (universal_newlines s)"
  by (induction s rule: universal_newlines.induct) (auto split: list.splits)

section \<open>What a transaction leaves\<close>

lemma reverse_hunks_single:
  assumes "reverse_hunks h w [k] = (w', None)" "dget (wd_files w) (agent_path h (ph_file_path k)) = Some raw"
  shows "wd_files w' = (if contains (ph_proposed_text k) (universal_newlines raw)
     then dset (wd_files w) (agent_path h (ph_file_path k))
       (replace_first (ph_proposed_text k) (ph_original_text k) (universal_newlines raw))
     else wd_files w)"
  using assms write_bytes_ok by (auto simp: Let_def split: prod.splits option.splits if_splits)

lemma current_bytes_subset:
  "\<forall>q raw. dget acc q = Some raw \<longrightarrow> dget files q = Some raw \<Longrightarrow>
     dget (current_bytes h files acc rels) q = Some raw \<Longrightarrow> dget files q = Some raw"
proof (induction rels arbitrary: acc)
  case (Cons rel rels)
  show ?case
  proof (cases "dget files (agent_path h rel)")
    case None
    with Cons show ?thesis by simp
  next
    case (Some x)
    with Cons.prems(1) have "\<forall>q raw. dget (dset acc (agent_path h rel) x) q = Some raw \<longrightarrow> dget files q = Some raw"
      by simp
    from Cons.IH [OF this] Cons.prems(2) Some show ?thesis by simp
  qed
qed simp

lemma current_bytes_distinct:
  "distinct (dkeys acc) \<Longrightarrow> distinct (dkeys (current_bytes h files acc rels))"
  by (induction rels arbitrary: acc) (auto split: option.splits simp: distinct_dset)

lemma restore_files_no_faults:
  "wd_writes w = [] \<Longrightarrow> snd (restore_files h [] w backup) = []"
proof (induction backup arbitrary: w)
  case (Cons a backup)
  obtain p raw where a: "a = (p, raw)" by fastforce
  have "restore_file h [] w p raw = (w\<lparr> wd_files := dset (wd_files w) p raw \<rparr>, [])"
    using Cons.prems by (simp add: restore_file_def write_bytes_no_faults)
  with Cons.IH [of "w\<lparr> wd_files := dset (wd_files w) p raw \<rparr>"] Cons.prems a
  show ?case by (simp add: split_beta)
qed simp

text \<open>The rollback after a failed rescan writes back what is there already.\<close>

lemma rescan_failed_keeps:
  assumes "rescan_failed h w p token r updated err records = (w', Inr (r', v, t', recs))" "wd_writes w = []"
  shows "dget (wd_files w') q = dget (wd_files w) q" "ar_rollback_status r' = ''SUCCESS''"
proof -
  let ?b = "current_bytes h (wd_files w) [] (pp_target_files p)"
  obtain w1 errs where rf: "restore_files h [] w ?b = (w1, errs)" by fastforce
  with restore_files_no_faults [OF assms(2), of h ?b] have errs: "errs = []" by simp
  have d: "distinct (map fst ?b)" by (rule current_bytes_distinct) simp
  have w1: "w' = w1" "ar_rollback_status r' = ''SUCCESS''"
    using assms(1) rf errs
    by (auto simp: rescan_failed_def rollback_transaction_def make_result_def Let_def split: option.splits)
  from restore_files_ok [OF rf [unfolded errs] d, of q] current_bytes_subset [of "[]" "wd_files w" h _ q]
  show "dget (wd_files w') q = dget (wd_files w) q"
    unfolding w1 by (cases "dget ?b q") auto
  show "ar_rollback_status r' = ''SUCCESS''" by (rule w1)
qed

section \<open>Properties\<close>

text \<open>
  A transaction ends with the patch still applied exactly
  when its verification is VERIFIED_FIXED, and that is so only if the patch was applied, the
  rescan returned, none of its findings matches the contract and the project's own tests passed;
  the transaction is recorded once, except when the rescan raised.
\<close>

theorem transaction_fixed_only_if_verified:
  assumes "execute_transaction h w xi p token f records = (w', Inr (r, v, t', recs))"
  shows "(ar_status r = AS_APPLIED \<longleftrightarrow> map_option vr_status v = Some VS_VERIFIED_FIXED) \<and>
    (ar_status r = AS_APPLIED \<longrightarrow>
       apply_patch h w (ti_transaction_id xi) p token None = Inr (w', r, t') \<and>
       (\<exists>gs. ti_rescan xi = Inr gs \<and> (\<forall>g\<in>set gs. \<not> semantic_match (contract_from_finding f) g)) \<and>
       fst (ti_business_tests xi))"
  using assms
proof (cases rule: execute_transaction_cases)
  case (fixed gs)
  then show ?thesis using verify_with_tests_status(1) [of f gs xi] by auto
qed auto

definition demo_finding_a :: finding where
  "demo_finding_a = (demo_finding VULNERABLE)\<lparr> fi_file_path := ''a.py'' \<rparr>"

definition demo_input :: "string + finding list \<Rightarrow> transaction_input" where
  "demo_input scan = \<lparr> ti_transaction_id = ''tx1'', ti_audit_id = ''aud1'', ti_verification_id = ''v1'',
     ti_rescan = scan, ti_business_tests = (True, []) \<rparr>"

theorem transaction_fixed_only_if_verified_witness:
  "case execute_transaction demo_host (demo_world []) (demo_input (Inr [demo_finding_a]))
      (demo_proposal ''q(safe(i))'') demo_approval demo_finding_a None of
     (w', Inl e) \<Rightarrow> False
   | (w', Inr (r, v, t', recs)) \<Rightarrow> ar_status r = AS_ROLLED_BACK \<and> map_option vr_status v \<noteq> Some VS_VERIFIED_FIXED"
proof -
  let ?run = "execute_transaction demo_host (demo_world []) (demo_input (Inr [demo_finding_a]))
      (demo_proposal ''q(safe(i))'') demo_approval demo_finding_a None"
  have "map_sum id (\<lambda>(r, v, t', recs). ar_status r) (snd ?run) = Inr AS_ROLLED_BACK" by code_simp
  then obtain w' r v t' recs where run: "?run = (w', Inr (r, v, t', recs))" "ar_status r = AS_ROLLED_BACK"
    by (cases ?run; cases "snd ?run") auto
  from transaction_fixed_only_if_verified [OF run(1)] run(2)
  have "map_option vr_status v \<noteq> Some VS_VERIFIED_FIXED" by simp
  with run show ?thesis by simp
qed

text \<open>
  C10: When the patch was applied and the rescan then raises, the
  transaction reports a failed application with a successful rollback, but every file still
  holds what the patch wrote, and no audit record is made.
\<close>

theorem rescan_failure_keeps_patch:
  assumes "apply_patch h w (ti_transaction_id xi) p token None = Inr (w1, r1, t1)"
    and "ar_status r1 = AS_APPLIED" "ti_rescan xi = Inl err" "wd_writes w1 = []"
  shows "case execute_transaction h w xi p token f records of
      (w', Inl e) \<Rightarrow> False
    | (w', Inr (r, v, t', recs)) \<Rightarrow>
        ar_status r = AS_FAILED \<and> ar_rollback_status r = ''SUCCESS'' \<and> v = None \<and> recs = records \<and>
        (\<forall>q. dget (wd_files w') q = dget (wd_files w1) q)"
proof -
  have "list_all (inside (ho_resolve h) (ho_root h)) (pp_target_files p)"
    using assms(1) by (cases rule: apply_patch_cases) (use assms(2) in \<open>auto simp: plan_ok_def\<close>)
  then obtain pre where "host_capture h w1 (pp_target_files p) = Some pre"
    by (simp add: host_capture_def snapshot_capture_cases)
  moreover obtain w' st e where
    "rollback_transaction h w1 (current_bytes h (wd_files w1) [] (pp_target_files p)) [] = (w', st, e)"
    by (metis prod_cases3)
  ultimately obtain r where rf:
    "rescan_failed h w1 p token r1 t1 err records = (w', Inr (r, None, t1, records))"
    "ar_status r = AS_FAILED"
    by (simp add: rescan_failed_def Let_def make_result_def)
  with rescan_failed_keeps [OF rf(1) assms(4)] assms(1-3) show ?thesis
    by (simp add: execute_transaction_def)
qed

theorem rescan_failure_keeps_patch_witness:
  "case execute_transaction demo_host (demo_world []) (demo_input (Inl ''timeout''))
      (demo_proposal ''q(safe(i))'') demo_approval demo_finding_a (Some []) of
     (w', Inl e) \<Rightarrow> False
   | (w', Inr (r, v, t', recs)) \<Rightarrow> ar_status r = AS_FAILED \<and> recs = Some [] \<and>
       dget (wd_files w') [''r'', ''a.py''] = Some ''x = q(safe(i))''"
proof -
  let ?ap = "apply_patch demo_host (demo_world []) (ti_transaction_id (demo_input (Inl ''timeout'')))
      (demo_proposal ''q(safe(i))'') demo_approval None"
  have "map_sum id (\<lambda>(w1, r, t). (ar_status r, wd_writes w1, dget (wd_files w1) [''r'', ''a.py''])) ?ap =
      Inr (AS_APPLIED, [], Some ''x = q(safe(i))'')" by code_simp
  then obtain w1 r1 t1 where ap: "?ap = Inr (w1, r1, t1)" "ar_status r1 = AS_APPLIED" "wd_writes w1 = []"
    "dget (wd_files w1) [''r'', ''a.py''] = Some ''x = q(safe(i))''"
    by (cases ?ap) auto
  have "ti_rescan (demo_input (Inl ''timeout'')) = Inl ''timeout''" by (simp add: demo_input_def)
  from rescan_failure_keeps_patch [OF ap(1,2) this ap(3), where f = demo_finding_a and records = "Some []"] ap(4)
  show ?thesis by (auto split: sum.splits prod.splits)
qed

text \<open>
  When the verification of a patch with one hunk fails, the rollback
  restores every file byte for byte, provided the file has no carriage returns, the target is
  written with forward slashes, and the proposed text occurs just once in the patched file.
\<close>

theorem single_hunk_rolled_back:
  assumes "apply_patch h w (ti_transaction_id xi) p token None = Inr (w1, r1, t1)"
    and "ar_status r1 = AS_APPLIED" "wd_writes w1 = []"
    and "pp_target_files p = [t]" "pp_hunks p = [k]" "slashes t = t"
    and "content_of (ho_resolve h) (ho_root h) (wd_files w) t = Some s" "CHR 0x0D \<notin> set s"
    and "CHR 0x0D \<notin> set (ph_proposed_text k)"
    and "utf8_decodes (replace_first (ph_original_text k) (ph_proposed_text k) s)"
    and "occurs_once (ph_proposed_text k) (replace_first (ph_original_text k) (ph_proposed_text k) s)"
    and "ti_rescan xi = Inr gs" "vr_status (verify_with_tests f gs xi) \<noteq> VS_VERIFIED_FIXED"
  shows "case execute_transaction h w xi p token f records of
      (w', Inl e) \<Rightarrow> False
    | (w', Inr (r, v, t', recs)) \<Rightarrow>
        ar_status r = AS_ROLLED_BACK \<and> (\<forall>q. dget (wd_files w') q = dget (wd_files w) q)"
proof -
  let ?o = "ph_original_text k" and ?n = "ph_proposed_text k" and ?q = "agent_path h t"
  let ?s = "replace_first ?o ?n s"
  have q: "?q = ho_resolve h (path_join (ho_root h) (slashes t))" by (simp add: agent_path_def assms(6))
  have inj: "inj_on (\<lambda>t. ho_resolve h (path_join (ho_root h) (slashes t))) (set (pp_target_files p))"
    by (simp add: assms(4))
  obtain plan where plan: "plan_patch h w p = Inr plan" "plan_ok h (wd_files w) p plan"
    using assms(1) by (cases rule: apply_patch_cases) (use assms(2) in auto)
  then have kp: "ph_file_path k = t"
    using assms(4,5) by (auto simp: plan_patch_def allowlist_violation_def split: option.splits if_splits)
  note facts = applied_patch_facts [OF assms(1,2) inj]
  have pt: "patch_text t [k] s \<noteq> None" and after: "dget (wd_files w1) ?q = patch_text t [k] s"
    and frame: "\<And>x. x \<noteq> ?q \<Longrightarrow> dget (wd_files w1) x = dget (wd_files w) x"
    using facts assms(4,5,7) by (auto simp: content_of_def q)
  have once: "py_count ?o s = 1" and now: "dget (wd_files w1) ?q = Some ?s"
    using pt after kp by (auto split: if_splits)
  have "contains ?o s" using once py_count_zero [of ?o s] by simp
  then have undo: "replace_first ?n ?o ?s = s" using assms(11) by (rule replace_back)
  have cr: "universal_newlines ?s = ?s"
    using set_replace_first [of ?o ?n s] assms(8,9) by (intro universal_newlines_id) blast
  have has: "contains ?n ?s"
    using replace_first_split [of ?o ?n s] \<open>contains ?o s\<close> by (auto simp: contains_iff)
  have "reverse_hunks h w1 [k] = (w1\<lparr> wd_files := dset (wd_files w1) ?q s \<rparr>, None)"
    using now cr has undo assms(10) kp by (simp add: Let_def write_bytes_no_faults [OF assms(3)])
  moreover obtain post where
    "host_capture h (w1\<lparr> wd_files := dset (wd_files w1) ?q s \<rparr>) (pp_target_files p) = Some post"
    using plan(2) by (simp add: plan_ok_def host_capture_def snapshot_capture_cases)
  ultimately obtain r where rb: "roll_back_patch h w1 p token r1 (verify_with_tests f gs xi) =
      (w1\<lparr> wd_files := dset (wd_files w1) ?q s \<rparr>, Inr r)" "ar_status r = AS_ROLLED_BACK"
    by (simp add: roll_back_patch_def assms(5) make_result_def)
  have "dget (wd_files w) ?q = Some s" using assms(7) by (simp add: content_of_def q)
  then have "\<forall>x. dget (dset (wd_files w1) ?q s) x = dget (wd_files w) x" using frame by simp
  with rb assms(1,2,12) verify_with_tests_status(2) [OF assms(13)] show ?thesis
    by (simp add: execute_transaction_def Let_def)
qed

theorem single_hunk_rolled_back_witness:
  "case execute_transaction demo_host (demo_world []) (demo_input (Inr [demo_finding_a]))
      (demo_proposal ''q(safe(i))'') demo_approval demo_finding_a None of
     (w', Inl e) \<Rightarrow> False
   | (w', Inr (r, v, t', recs)) \<Rightarrow> ar_status r = AS_ROLLED_BACK \<and>
       (\<forall>q. dget (wd_files w') q = dget (wd_files (demo_world [])) q)"
proof -
  let ?xi = "demo_input (Inr [demo_finding_a])" and ?p = "demo_proposal ''q(safe(i))''"
  let ?ap = "apply_patch demo_host (demo_world []) (ti_transaction_id ?xi) ?p demo_approval None"
  have "map_sum id (\<lambda>(w1, r, t). (ar_status r, wd_writes w1)) ?ap = Inr (AS_APPLIED, [])" by code_simp
  then obtain w1 r1 t1 where ap: "?ap = Inr (w1, r1, t1)" "ar_status r1 = AS_APPLIED" "wd_writes w1 = []"
    by (cases ?ap) auto
  show ?thesis
  proof (rule single_hunk_rolled_back [OF ap, where t = "''a.py''" and k = "demo_hunk ''q(safe(i))''"
        and s = "''x = q(i)''" and gs = "[demo_finding_a]"])
    show "pp_target_files ?p = [''a.py'']" "pp_hunks ?p = [demo_hunk ''q(safe(i))'']"
      by (simp_all add: demo_proposal_def)
    show "slashes ''a.py'' = ''a.py''" by code_simp
    show "content_of (ho_resolve demo_host) (ho_root demo_host) (wd_files (demo_world [])) ''a.py'' =
        Some ''x = q(i)''" by code_simp
    show "ti_rescan ?xi = Inr [demo_finding_a]" by (simp add: demo_input_def)
    show "vr_status (verify_with_tests demo_finding_a [demo_finding_a] ?xi) \<noteq> VS_VERIFIED_FIXED" by code_simp
    show "occurs_once (ph_proposed_text (demo_hunk ''q(safe(i))''))
        (replace_first (ph_original_text (demo_hunk ''q(safe(i))''))
          (ph_proposed_text (demo_hunk ''q(safe(i))'')) ''x = q(i)'')" by code_simp
    show "utf8_decodes (replace_first (ph_original_text (demo_hunk ''q(safe(i))''))
        (ph_proposed_text (demo_hunk ''q(safe(i))'')) ''x = q(i)'')" by code_simp
  qed (simp_all add: demo_hunk_def)
qed

text \<open>
  The rollback of a failed verification reads the file in text mode:
  when the file had a carriage return, a one-hunk patch is reported as rolled back with success
  although the file does not hold its former bytes.
\<close>

theorem rollback_loses_line_ends:
  assumes "execute_transaction h w xi p token f records = (w', Inr (r, v, t', recs))"
    and "ar_status r = AS_ROLLED_BACK"
    and "pp_target_files p = [t]" "pp_hunks p = [k]" "slashes t = t"
    and "content_of (ho_resolve h) (ho_root h) (wd_files w) t = Some s" "CHR 0x0D \<in> set s"
    and "CHR 0x0D \<notin> set (ph_original_text k)" "ph_original_text k \<noteq> ph_proposed_text k"
  shows "ar_rollback_status r = ''SUCCESS'' \<and>
    content_of (ho_resolve h) (ho_root h) (wd_files w') t \<noteq> Some s"
  using assms(1)
proof (cases rule: execute_transaction_cases)
  case (rolled_back w1 r1 gs)
  let ?o = "ph_original_text k" and ?n = "ph_proposed_text k" and ?q = "agent_path h t"
  let ?s = "replace_first ?o ?n s"
  have q: "?q = ho_resolve h (path_join (ho_root h) (slashes t))" by (simp add: agent_path_def assms(5))
  have inj: "inj_on (\<lambda>t. ho_resolve h (path_join (ho_root h) (slashes t))) (set (pp_target_files p))"
    by (simp add: assms(3))
  obtain plan where plan: "plan_patch h w p = Inr plan"
    using rolled_back(1) by (cases rule: apply_patch_cases) (use rolled_back(2) in auto)
  then have kp: "ph_file_path k = t"
    using assms(3,4) by (auto simp: plan_patch_def allowlist_violation_def split: option.splits if_splits)
  from applied_patch_facts [OF rolled_back(1,2) inj]
  have "patch_text t [k] s \<noteq> None" "dget (wd_files w1) ?q = patch_text t [k] s"
    using assms(3,4,6) by (auto simp: content_of_def q)
  then have once: "py_count ?o s = 1" and now: "dget (wd_files w1) ?q = Some ?s"
    using kp by (auto split: if_splits)
  have "contains ?o s" using once py_count_zero [of ?o s] by simp
  with replace_first_split [of ?o ?n s] assms(9) have changed: "?s \<noteq> s" by auto
  let ?u = "replace_first ?n ?o (universal_newlines ?s)"
  have "CHR 0x0D \<notin> set ?u"
    using set_replace_first [of ?n ?o "universal_newlines ?s"] universal_newlines_no_cr assms(8) by blast
  then have "?u \<noteq> s" using assms(7) by metis
  moreover have "wd_files w' = (if contains ?n (universal_newlines ?s)
      then dset (wd_files w1) ?q ?u else wd_files w1)"
    using reverse_hunks_single [of h w1 k w' ?s] rolled_back(6) now by (simp add: assms(4) kp)
  ultimately have "dget (wd_files w') ?q \<noteq> Some s" using now changed by simp
  with rolled_back(8) show ?thesis by (simp add: content_of_def q)
qed (use assms(2) in auto)

definition crlf_world :: world where
  "crlf_world = (demo_world [])\<lparr> wd_files := [([''r'', ''a.py''], ''x = q(i)'' @ [CHR 0x0D, CHR 0x0A])] \<rparr>"

definition crlf_approval :: approval_token where
  "crlf_approval = create_token demo_digest ''T1'' ''t'' ''F1''
     (pp_proposal_fingerprint (demo_proposal ''q(safe(i))''))
     (ss_aggregate_hash (the (host_capture demo_host crlf_world [''a.py'']))) [''a.py''] ''/r'' ''alice''
     None [] None None"

theorem rollback_loses_line_ends_witness:
  "case execute_transaction demo_host crlf_world (demo_input (Inr [demo_finding_a]))
      (demo_proposal ''q(safe(i))'') crlf_approval demo_finding_a None of
     (w', Inl e) \<Rightarrow> False
   | (w', Inr (r, v, t', recs)) \<Rightarrow> ar_rollback_status r = ''SUCCESS'' \<and>
       content_of (ho_resolve demo_host) (ho_root demo_host) (wd_files w') ''a.py'' \<noteq>
         Some (''x = q(i)'' @ [CHR 0x0D, CHR 0x0A])"
proof -
  let ?run = "execute_transaction demo_host crlf_world (demo_input (Inr [demo_finding_a]))
      (demo_proposal ''q(safe(i))'') crlf_approval demo_finding_a None"
  have "map_sum id (\<lambda>(r, v, t', recs). ar_status r) (snd ?run) = Inr AS_ROLLED_BACK" by code_simp
  then obtain w' r v t' recs where run: "?run = (w', Inr (r, v, t', recs))" "ar_status r = AS_ROLLED_BACK"
    by (cases ?run; cases "snd ?run") auto
  have c: "content_of (ho_resolve demo_host) (ho_root demo_host) (wd_files crlf_world) ''a.py'' =
      Some (''x = q(i)'' @ [CHR 0x0D, CHR 0x0A])" by code_simp
  have s: "slashes ''a.py'' = ''a.py''" by code_simp
  have t: "pp_target_files (demo_proposal ''q(safe(i))'') = [''a.py'']"
    "pp_hunks (demo_proposal ''q(safe(i))'') = [demo_hunk ''q(safe(i))'']"
    by (simp_all add: demo_proposal_def)
  from rollback_loses_line_ends [OF run t s c] run show ?thesis by (simp add: demo_hunk_def)
qed

end
