(* ===== verification/Provenance.thy ===== *)
theory Provenance
  imports ApplicationAgent AuditEvents "HOL-Library.Multiset"
begin

text \<open>
  The remediation provenance graph of \<^verbatim>\<open>ai/remediation/provenance.py\<close>: fingerprinted nodes with
  the identifiers of their predecessors, the factories that bind the domain's artifacts, and the
  graph's integrity and cycle checks, export and import. A graph is the list of its nodes.
\<close>

datatype provenance_node_type =
    PN_FINDING | PN_EVIDENCE | PN_RCA | PN_STRATEGY | PN_PROPOSAL | PN_APPROVAL_TOKEN
  | PN_SOURCE_SNAPSHOT | PN_APPLICATION_RESULT | PN_VERIFICATION_RESULT

fun node_type_value :: "provenance_node_type \<Rightarrow> string" where
  "node_type_value PN_FINDING = ''FINDING''"
| "node_type_value PN_EVIDENCE = ''EVIDENCE''"
| "node_type_value PN_RCA = ''RCA''"
| "node_type_value PN_STRATEGY = ''STRATEGY''"
| "node_type_value PN_PROPOSAL = ''PROPOSAL''"
| "node_type_value PN_APPROVAL_TOKEN = ''APPROVAL_TOKEN''"
| "node_type_value PN_SOURCE_SNAPSHOT = ''SOURCE_SNAPSHOT''"
| "node_type_value PN_APPLICATION_RESULT = ''APPLICATION_RESULT''"
| "node_type_value PN_VERIFICATION_RESULT = ''VERIFICATION_RESULT''"

text \<open>The reasons for which the code raises ValueError.\<close>

datatype provenance_error =
    EmptyNodeId | TamperedFingerprint | DuplicateNode | SelfReference | OrphanPredecessor | CycleDetected

record provenance_node =
  pn_node_id :: string
  pn_node_type :: provenance_node_type
  pn_fingerprint :: string
  pn_predecessors :: "string list"
  pn_metadata :: metadata

definition node_fingerprint ::
  "(string \<Rightarrow> string) \<Rightarrow> string \<Rightarrow> provenance_node_type \<Rightarrow> string list \<Rightarrow> metadata \<Rightarrow> string" where
  "node_fingerprint sha256 node_id node_type preds meta =
     sha256 (py_join ''|''
       [ node_id, node_type_value node_type, py_join ''|'' (sort preds),
         py_join ''|'' (map (\<lambda>(k, v). k @ '':'' @ v) (sort meta)) ])"

definition fingerprint_of :: "(string \<Rightarrow> string) \<Rightarrow> provenance_node \<Rightarrow> string" where
  "fingerprint_of sha256 n =
     node_fingerprint sha256 (pn_node_id n) (pn_node_type n) (pn_predecessors n) (pn_metadata n)"

definition make_node :: "(string \<Rightarrow> string) \<Rightarrow> provenance_node \<Rightarrow> provenance_error + provenance_node" where
  "make_node sha256 n =
     (if blank (pn_node_id n) then Inl EmptyNodeId
      else if pn_fingerprint n \<noteq> fingerprint_of sha256 n then Inl TamperedFingerprint
      else Inr n)"

text \<open>What every factory does with its identifier, predecessors and metadata.\<close>

definition factory_node ::
  "(string \<Rightarrow> string) \<Rightarrow> string \<Rightarrow> provenance_node_type \<Rightarrow> string list \<Rightarrow> metadata \<Rightarrow>
     provenance_error + provenance_node" where
  "factory_node sha256 nid node_type preds meta =
     make_node sha256
       \<lparr> pn_node_id = nid, pn_node_type = node_type,
         pn_fingerprint = node_fingerprint sha256 nid node_type preds (sort meta),
         pn_predecessors = preds, pn_metadata = sort meta \<rparr>"

section \<open>Factories\<close>

record root_cause_analysis =
  rc_finding_id :: string
  rc_rca_fingerprint :: string
  rc_root_cause_category :: string
  rc_reflection_status :: string
  rc_false_positive_risk :: string
  rc_primary_variable_version :: "string option"

definition create_finding_node ::
  "(string \<Rightarrow> string) \<Rightarrow> finding \<Rightarrow> string option \<Rightarrow> provenance_error + provenance_node" where
  "create_finding_node sha256 f node_id =
     factory_node sha256 (opt_or node_id (''prov_finding_'' @ fi_finding_id f)) PN_FINDING []
       [ (''finding_id'', fi_finding_id f), (''rule_id'', fi_rule_id f), (''cwe_id'', cwe_of f),
         (''file_path'', slashes (fi_file_path f)), (''finding_fingerprint'', fi_fingerprint f) ]"

text \<open>\<open>symbol\<close> is the symbol read from the finding's evidence object.\<close>

definition create_evidence_node ::
  "(string \<Rightarrow> string) \<Rightarrow> finding \<Rightarrow> string \<Rightarrow> string \<Rightarrow> string option \<Rightarrow> provenance_error + provenance_node" where
  "create_evidence_node sha256 f symbol pred node_id =
     factory_node sha256 (opt_or node_id (''prov_ev_'' @ fi_finding_id f)) PN_EVIDENCE [pred]
       [ (''finding_id'', fi_finding_id f),
         (''evidence_fingerprint'',
            case fi_verdict f of Some v \<Rightarrow> sv_evidence_fingerprint v | None \<Rightarrow> fi_fingerprint f),
         (''line_number'', case fi_evidence_line f of Some l \<Rightarrow> str_int l | None \<Rightarrow> ''0''),
         (''affected_symbol'', case fi_evidence_line f of Some l \<Rightarrow> symbol | None \<Rightarrow> ''UNKNOWN'') ]"

definition create_rca_node ::
  "(string \<Rightarrow> string) \<Rightarrow> root_cause_analysis \<Rightarrow> string \<Rightarrow> string option \<Rightarrow> provenance_error + provenance_node" where
  "create_rca_node sha256 rca pred node_id =
     factory_node sha256 (opt_or node_id (''prov_rca_'' @ rc_finding_id rca)) PN_RCA [pred]
       [ (''finding_id'', rc_finding_id rca), (''rca_fingerprint'', rc_rca_fingerprint rca),
         (''root_cause_category'', rc_root_cause_category rca),
         (''reflection_status'', rc_reflection_status rca),
         (''false_positive_risk'', rc_false_positive_risk rca) ]"

definition create_strategy_node ::
  "(string \<Rightarrow> string) \<Rightarrow> remediation_strategy \<Rightarrow> string \<Rightarrow> string option \<Rightarrow> provenance_error + provenance_node" where
  "create_strategy_node sha256 s pred node_id =
     factory_node sha256 (opt_or node_id (''prov_strat_'' @ rs_finding_id s)) PN_STRATEGY [pred]
       [ (''finding_id'', rs_finding_id s), (''strategy_fingerprint'', rs_strategy_fingerprint s),
         (''strategy_type'', strategy_type_value (rs_strategy_type s)),
         (''target_file'', slashes (rs_target_file s)) ]"

definition create_proposal_node ::
  "(string \<Rightarrow> string) \<Rightarrow> patch_proposal \<Rightarrow> string \<Rightarrow> string option \<Rightarrow> provenance_error + provenance_node" where
  "create_proposal_node sha256 p pred node_id =
     factory_node sha256 (opt_or node_id (''prov_prop_'' @ pp_proposal_id p)) PN_PROPOSAL [pred]
       [ (''proposal_id'', pp_proposal_id p), (''finding_id'', pp_finding_id p),
         (''proposal_fingerprint'', pp_proposal_fingerprint p),
         (''validation_status'', patch_status_value (pp_validation_status p)),
         (''target_files'', py_join ''|'' (sort (map slashes (pp_target_files p)))) ]"

definition create_approval_token_node ::
  "(string \<Rightarrow> string) \<Rightarrow> approval_token \<Rightarrow> string \<Rightarrow> string option \<Rightarrow> provenance_error + provenance_node" where
  "create_approval_token_node sha256 t pred node_id =
     factory_node sha256 (opt_or node_id (''prov_tok_'' @ tk_token_id t)) PN_APPROVAL_TOKEN [pred]
       [ (''token_id'', tk_token_id t), (''finding_id'', tk_finding_id t),
         (''proposal_fingerprint'', tk_proposal_fingerprint t),
         (''token_fingerprint'', tk_token_fingerprint t),
         (''source_snapshot_hash'', tk_source_snapshot_hash t), (''approved_by'', tk_approved_by t),
         (''repository_identity'', tk_repository_identity t) ]"

definition create_source_snapshot_node ::
  "(string \<Rightarrow> string) \<Rightarrow> source_snapshot \<Rightarrow> string \<Rightarrow> string option \<Rightarrow> provenance_error + provenance_node" where
  "create_source_snapshot_node sha256 s pred node_id =
     factory_node sha256 (opt_or node_id (''prov_snap_'' @ take 12 (ss_aggregate_hash s)))
       PN_SOURCE_SNAPSHOT [pred]
       [ (''aggregate_hash'', ss_aggregate_hash s),
         (''repository_root'', slashes (ss_repository_root s)),
         (''file_count'', str_nat (length (ss_file_snapshots s))) ]"

definition create_application_node ::
  "(string \<Rightarrow> string) \<Rightarrow> application_result \<Rightarrow> string list \<Rightarrow> string option \<Rightarrow> provenance_error + provenance_node" where
  "create_application_node sha256 r preds node_id =
     factory_node sha256 (opt_or node_id (''prov_app_'' @ ar_transaction_id r)) PN_APPLICATION_RESULT
       (sort preds)
       [ (''transaction_id'', ar_transaction_id r), (''finding_id'', ar_finding_id r),
         (''proposal_fingerprint'', ar_proposal_fingerprint r),
         (''status'', application_status_value (ar_status r)),
         (''pre_apply_snapshot_hash'', ar_pre_apply_snapshot_hash r),
         (''post_apply_snapshot_hash'', ar_post_apply_snapshot_hash r) ]"

definition create_verification_node ::
  "(string \<Rightarrow> string) \<Rightarrow> verification_result \<Rightarrow> string \<Rightarrow> string \<Rightarrow> string \<Rightarrow> string \<Rightarrow> string \<Rightarrow>
     string option \<Rightarrow> provenance_error + provenance_node" where
  "create_verification_node sha256 v pred proposal_fp src_hash post_hash ver_fp node_id =
     factory_node sha256 (opt_or node_id (''prov_ver_'' @ vr_verification_id v)) PN_VERIFICATION_RESULT
       [pred]
       [ (''verification_id'', vr_verification_id v), (''finding_id'', vr_finding_id v),
         (''status'', verification_status_value (vr_status v)),
         (''proposal_fingerprint'', proposal_fp), (''source_snapshot_hash'', src_hash),
         (''post_apply_snapshot_hash'', post_hash), (''verification_fingerprint'', ver_fp) ]"

section \<open>Graphs\<close>

type_synonym provenance_graph = "provenance_node list"

definition get_node :: "provenance_graph \<Rightarrow> string \<Rightarrow> provenance_node option" where
  "get_node g node_id = find (\<lambda>n. pn_node_id n = node_id) g"

definition root_nodes :: "provenance_graph \<Rightarrow> provenance_node list" where
  "root_nodes g = filter (\<lambda>n. pn_predecessors n = []) g"

definition terminal_nodes :: "provenance_graph \<Rightarrow> provenance_node list" where
  "terminal_nodes g =
     (let all_preds = concat (map pn_predecessors g)
      in filter (\<lambda>n. pn_node_id n \<notin> set all_preds) g)"

definition graph_fingerprint :: "(string \<Rightarrow> string) \<Rightarrow> provenance_graph \<Rightarrow> string" where
  "graph_fingerprint sha256 g =
     sha256 (py_join ''||'' (map (\<lambda>n. py_join '':''
       [ pn_node_id n, node_type_value (pn_node_type n), pn_fingerprint n,
         py_join ''|'' (sort (pn_predecessors n)) ]) (sort_key pn_node_id g)))"

text \<open>The tables of Kahn's algorithm: successors and in-degrees, built edge by edge.\<close>

type_synonym kahn_tables = "(string, string list) dict \<times> (string, int) dict"

definition node_edges :: "provenance_graph \<Rightarrow> (string \<times> string) list" where
  "node_edges g = concat (map (\<lambda>n. map (Pair (pn_node_id n)) (pn_predecessors n)) g)"

definition add_edge :: "kahn_tables \<Rightarrow> string \<times> string \<Rightarrow> kahn_tables" where
  "add_edge = (\<lambda>(adj, deg) (n, pred).
     (dset adj pred (dget_default adj pred [] @ [n]), dset deg n (dget_default deg n 0 + 1)))"

definition zero_degrees :: "provenance_graph \<Rightarrow> (string, int) dict" where
  "zero_degrees g = foldl (\<lambda>d n. dset d (pn_node_id n) 0) [] g"

text \<open>The check skips predecessors that are not in the graph, the import does not.\<close>

definition check_tables :: "provenance_graph \<Rightarrow> kahn_tables" where
  "check_tables g =
     (let adj = foldl (\<lambda>d n. dset d (pn_node_id n) []) [] g
      in foldl (\<lambda>t (n, pred). if dget (fst t) pred \<noteq> None then add_edge t (n, pred) else t)
           (adj, zero_degrees g) (node_edges g))"

definition load_tables :: "provenance_graph \<Rightarrow> kahn_tables" where
  "load_tables g = foldl add_edge ([], zero_degrees g) (node_edges g)"

fun decrement_all ::
  "(string, int) dict \<Rightarrow> string list \<Rightarrow> string list \<Rightarrow> (string, int) dict \<times> string list" where
  "decrement_all deg queue [] = (deg, queue)"
| "decrement_all deg queue (c # cs) =
     (let d = dget_default deg c 0 - 1
      in decrement_all (dset deg c d) (if d = 0 then queue @ [c] else queue) cs)"

definition positive_degrees :: "(string, int) dict \<Rightarrow> nat" where
  "positive_degrees deg = length (filter (\<lambda>(k, v). 0 < v) deg)"

lemma positive_degrees_dset:
  "int (positive_degrees (dset deg k v)) =
     int (positive_degrees deg) - (if 0 < dget_default deg k 0 then 1 else 0) + (if 0 < v then 1 else 0)"
  by (induction deg) (auto simp: positive_degrees_def dget_default_def)

lemma decrement_all_measure:
  "decrement_all deg queue cs = (deg', queue') \<Longrightarrow>
     positive_degrees deg' + length queue' \<le> positive_degrees deg + length queue"
proof (induction deg queue cs rule: decrement_all.induct)
  case (2 deg queue c cs)
  let ?d = "dget_default deg c 0 - 1"
  have "positive_degrees (dset deg c ?d) + length (if ?d = 0 then queue @ [c] else queue)
      \<le> positive_degrees deg + length queue"
    using positive_degrees_dset [where deg = deg and k = c and v = ?d]
    by (cases "dget_default deg c 0 = 1") (auto split: if_splits)
  moreover have "positive_degrees deg' + length queue'
      \<le> positive_degrees (dset deg c ?d) + length (if ?d = 0 then queue @ [c] else queue)"
    using "2.IH" "2.prems" by (simp add: Let_def)
  ultimately show ?case by linarith
qed simp

text \<open>The loop: the identifiers in the order they leave the queue.\<close>

function kahn_loop ::
  "(string, string list) dict \<Rightarrow> (string, int) dict \<Rightarrow> string list \<Rightarrow> string list \<Rightarrow> string list" where
  "kahn_loop adj deg [] visited = visited"
| "kahn_loop adj deg (cur # queue) visited =
     (let (deg', queue') = decrement_all deg queue (dget_default adj cur [])
      in kahn_loop adj deg' queue' (visited @ [cur]))"
  by pat_completeness auto
termination
proof (relation "measure (\<lambda>(adj, deg, queue, visited). positive_degrees deg + length queue)")
  fix adj :: "(string, string list) dict" and deg :: "(string, int) dict" and cur :: string
    and queue visited :: "string list" and r deg' queue'
  assume "r = decrement_all deg queue (dget_default adj cur [])" "(deg', queue') = r"
  then have "positive_degrees deg' + length queue' \<le> positive_degrees deg + length queue"
    by (intro decrement_all_measure) simp
  then show "((adj, deg', queue', visited @ [cur]), (adj, deg, cur # queue, visited)) \<in>
      measure (\<lambda>(adj, deg, queue, visited). positive_degrees deg + length queue)" by simp
qed simp

definition kahn_order :: "kahn_tables \<Rightarrow> string list" where
  "kahn_order t =
     kahn_loop (fst t) (snd t) (map fst (filter (\<lambda>(k, d). d = 0) (snd t))) []"

definition detect_cycle :: "provenance_graph \<Rightarrow> provenance_error + unit" where
  "detect_cycle g =
     (if length (kahn_order (check_tables g)) \<noteq> length g then Inl CycleDetected else Inr ())"

fun check_nodes :: "(string \<Rightarrow> string) \<Rightarrow> string set \<Rightarrow> provenance_node list \<Rightarrow> provenance_error + string set" where
  "check_nodes sha256 seen [] = Inr seen"
| "check_nodes sha256 seen (n # ns) =
     (if pn_node_id n \<in> seen then Inl DuplicateNode
      else if pn_node_id n \<in> set (pn_predecessors n) then Inl SelfReference
      else if pn_fingerprint n \<noteq> fingerprint_of sha256 n then Inl TamperedFingerprint
      else check_nodes sha256 (insert (pn_node_id n) seen) ns)"

definition validate_integrity :: "(string \<Rightarrow> string) \<Rightarrow> provenance_graph \<Rightarrow> provenance_error + unit" where
  "validate_integrity sha256 g =
     rbind (check_nodes sha256 {} g) (\<lambda>seen.
       if list_ex (\<lambda>n. list_ex (\<lambda>p. p \<notin> seen) (pn_predecessors n)) g then Inl OrphanPredecessor
       else detect_cycle g)"

definition make_graph :: "(string \<Rightarrow> string) \<Rightarrow> provenance_node list \<Rightarrow> provenance_error + provenance_graph" where
  "make_graph sha256 ns = rbind (validate_integrity sha256 ns) (\<lambda>_. Inr ns)"

definition add_node ::
  "(string \<Rightarrow> string) \<Rightarrow> provenance_graph \<Rightarrow> provenance_node \<Rightarrow> provenance_error + provenance_graph" where
  "add_node sha256 g n =
     (let existing = map pn_node_id g in
      if pn_node_id n \<in> set existing then Inl DuplicateNode
      else if pn_node_id n \<in> set (pn_predecessors n) then Inl SelfReference
      else if list_ex (\<lambda>p. p \<notin> set existing) (pn_predecessors n) then Inl OrphanPredecessor
      else rbind (detect_cycle (g @ [n])) (\<lambda>_. make_graph sha256 (g @ [n])))"

text \<open>
  Export and import. A node's dictionary is the node with its metadata as a dictionary; an empty
  fingerprint is computed. The exported graph fingerprint is not read back.
\<close>

definition node_to_dict :: "provenance_node \<Rightarrow> provenance_node" where
  "node_to_dict n = n\<lparr> pn_metadata := meta_dict (pn_metadata n) \<rparr>"

definition node_from_dict :: "(string \<Rightarrow> string) \<Rightarrow> provenance_node \<Rightarrow> provenance_error + provenance_node" where
  "node_from_dict sha256 d =
     (let n = d\<lparr> pn_metadata := sort (pn_metadata d) \<rparr>
      in make_node sha256 (if pn_fingerprint n = [] then n\<lparr> pn_fingerprint := fingerprint_of sha256 n \<rparr>
                           else n))"

definition graph_to_dict :: "provenance_graph \<Rightarrow> provenance_node list" where
  "graph_to_dict g = map node_to_dict (sort_key pn_node_id g)"

fun nodes_from_dict ::
  "(string \<Rightarrow> string) \<Rightarrow> provenance_node list \<Rightarrow> provenance_error + provenance_node list" where
  "nodes_from_dict sha256 [] = Inr []"
| "nodes_from_dict sha256 (d # ds) =
     rbind (node_from_dict sha256 d) (\<lambda>n. rbind (nodes_from_dict sha256 ds) (\<lambda>ns. Inr (n # ns)))"

fun add_nodes ::
  "(string \<Rightarrow> string) \<Rightarrow> provenance_graph \<Rightarrow> provenance_node list \<Rightarrow> provenance_error + provenance_graph" where
  "add_nodes sha256 g [] = Inr g"
| "add_nodes sha256 g (n # ns) = rbind (add_node sha256 g n) (\<lambda>g'. add_nodes sha256 g' ns)"

definition graph_from_dict ::
  "(string \<Rightarrow> string) \<Rightarrow> provenance_node list \<Rightarrow> provenance_error + provenance_graph" where
  "graph_from_dict sha256 data =
     rbind (nodes_from_dict sha256 data) (\<lambda>raw_nodes.
       let node_map = foldl (\<lambda>d n. dset d (pn_node_id n) n) [] raw_nodes;
           order = kahn_order (load_tables raw_nodes)
       in add_nodes sha256 [] (map (\<lambda>i. the (dget node_map i)) order))"

section \<open>Kahn's algorithm\<close>

lemma decrement_all_spec:
  assumes "decrement_all deg queue cs = (deg', queue')"
    and "\<forall>n. n \<in> set cs \<longrightarrow> int (count_list cs n) \<le> dget_default deg n 0"
  shows "(\<forall>n. dget_default deg' n 0 = dget_default deg n 0 - int (count_list cs n)) \<and>
    (\<exists>new. queue' = queue @ new \<and> distinct new \<and>
      set new = {n \<in> set cs. dget_default deg n 0 = int (count_list cs n)})"
  using assms
proof (induction cs arbitrary: deg queue)
  case (Cons c cs)
  let ?d = "dget_default deg c 0 - 1"
  let ?deg = "dset deg c ?d"
  have run: "decrement_all ?deg (if ?d = 0 then queue @ [c] else queue) cs = (deg', queue')"
    using Cons.prems(1) by (simp add: Let_def)
  have c: "int (count_list cs c) \<le> ?d" using Cons.prems(2) by (auto dest: spec [of _ c])
  have pre: "\<forall>n. n \<in> set cs \<longrightarrow> int (count_list cs n) \<le> dget_default ?deg n 0"
  proof (intro allI impI)
    fix n assume "n \<in> set cs"
    with Cons.prems(2) have "int (count_list (c # cs) n) \<le> dget_default deg n 0" by (simp only: list.set_intros)
    with c show "int (count_list cs n) \<le> dget_default ?deg n 0" by (cases "n = c") simp_all
  qed
  note IH = Cons.IH [OF run pre]
  have deg: "\<forall>n. dget_default deg' n 0 = dget_default deg n 0 - int (count_list (c # cs) n)"
    using conjunct1 [OF IH] by simp
  obtain new where new: "queue' = (if ?d = 0 then queue @ [c] else queue) @ new" "distinct new"
    "set new = {n \<in> set cs. dget_default ?deg n 0 = int (count_list cs n)}"
    using conjunct2 [OF IH] by blast
  have other: "n \<in> set new \<longleftrightarrow> n \<in> set (c # cs) \<and> dget_default deg n 0 = int (count_list (c # cs) n)"
    if "n \<noteq> c" for n using that unfolding new(3) mem_Collect_eq by simp
  let ?spec = "\<lambda>xs. \<forall>n. n \<in> set xs \<longleftrightarrow> n \<in> set (c # cs) \<and> dget_default deg n 0 = int (count_list (c # cs) n)"
  have "\<exists>new. queue' = queue @ new \<and> distinct new \<and> ?spec new"
  proof (cases "?d = 0")
    case True
    with c have nc: "c \<notin> set cs" "count_list cs c = 0" using count_list_0_iff [of cs c] by simp_all
    have "n \<in> set (c # new) \<longleftrightarrow> n \<in> set (c # cs) \<and> dget_default deg n 0 = int (count_list (c # cs) n)" for n
    proof (cases "n = c")
      case False
      with other [OF False] show ?thesis by simp
    qed (use True nc in simp)
    moreover have "distinct (c # new)" using new(2) nc(1) unfolding distinct.simps new(3) by blast
    moreover have "queue' = queue @ c # new" using new(1) True by simp
    ultimately show ?thesis by blast
  next
    case False
    have "c \<in> set new \<longleftrightarrow> dget_default deg c 0 = int (count_list (c # cs) c)"
    proof (cases "c \<in> set cs")
      case in_cs: True
      then show ?thesis unfolding new(3) mem_Collect_eq by (simp add: algebra_simps)
    next
      case out: False
      then have "count_list cs c = 0" by (simp add: count_list_0_iff)
      with False out show ?thesis unfolding new(3) mem_Collect_eq by simp
    qed
    then have "n \<in> set new \<longleftrightarrow> n \<in> set (c # cs) \<and> dget_default deg n 0 = int (count_list (c # cs) n)" for n
      using other [of n] by (cases "n = c") simp_all
    moreover have "queue' = queue @ new" using new(1) False by simp
    ultimately show ?thesis using new(2) by blast
  qed
  then have "\<exists>new. queue' = queue @ new \<and> distinct new \<and>
      set new = {n \<in> set (c # cs). dget_default deg n 0 = int (count_list (c # cs) n)}"
    unfolding set_eq_iff mem_Collect_eq .
  with deg show ?case by blast
qed simp

text \<open>
  Tables agree with a graph when the successors of a node are counted as often as it occurs
  among their predecessors, and the degree of a node is the number of its predecessors.
\<close>

locale kahn_graph =
  fixes ids :: "string set" and preds :: "string \<Rightarrow> string list"
    and adj :: "(string, string list) dict"
  assumes finite_ids: "finite ids"
    and preds_outside: "n \<notin> ids \<Longrightarrow> preds n = []"
    and successors: "c \<in> ids \<Longrightarrow> count_list (dget_default adj c []) n = count_list (preds n) c"
begin

definition open_preds :: "string list \<Rightarrow> string \<Rightarrow> nat" where
  "open_preds visited n = length (filter (\<lambda>p. p \<notin> set visited) (preds n))"

definition ordered :: "string list \<Rightarrow> bool" where
  "ordered xs \<longleftrightarrow> (\<forall>us n vs. xs = us @ n # vs \<longrightarrow> set (preds n) \<subseteq> set us)"

definition kahn_inv :: "(string, int) dict \<Rightarrow> string list \<Rightarrow> string list \<Rightarrow> bool" where
  "kahn_inv deg queue visited \<longleftrightarrow>
     distinct (visited @ queue) \<and> set (visited @ queue) \<subseteq> ids \<and> ordered visited \<and>
     (\<forall>n\<in>ids. dget_default deg n 0 = int (open_preds visited n)) \<and>
     (\<forall>n\<in>ids. n \<in> set (visited @ queue) \<longleftrightarrow> open_preds visited n = 0)"

lemma open_preds_snoc:
  "open_preds (visited @ [c]) n + (if c \<in> set visited then 0 else count_list (preds n) c) = open_preds visited n"
proof -
  have "length (filter (\<lambda>p. p \<notin> set (visited @ [c])) xs) + (if c \<in> set visited then 0 else count_list xs c) =
      length (filter (\<lambda>p. p \<notin> set visited) xs)" for xs
    by (induction xs) auto
  then show ?thesis unfolding open_preds_def .
qed

lemma ordered_snoc: "ordered (xs @ [n]) \<longleftrightarrow> ordered xs \<and> set (preds n) \<subseteq> set xs"
proof
  assume a: "ordered (xs @ [n])"
  then have "set (preds n) \<subseteq> set xs" unfolding ordered_def by blast
  moreover have "ordered xs" unfolding ordered_def
  proof (intro allI impI)
    fix us m vs assume "xs = us @ m # vs"
    then have "xs @ [n] = us @ m # (vs @ [n])" by simp
    with a show "set (preds m) \<subseteq> set us" unfolding ordered_def by blast
  qed
  ultimately show "ordered xs \<and> set (preds n) \<subseteq> set xs" by blast
next
  assume a: "ordered xs \<and> set (preds n) \<subseteq> set xs"
  show "ordered (xs @ [n])" unfolding ordered_def
  proof (intro allI impI)
    fix us m vs assume "xs @ [n] = us @ m # vs"
    then consider "vs = []" "us = xs" "m = n" | vs' where "vs = vs' @ [n]" "xs = us @ m # vs'"
      by (cases vs rule: rev_cases) auto
    then show "set (preds m) \<subseteq> set us" using a unfolding ordered_def by cases blast+
  qed
qed

lemma kahn_step:
  assumes inv: "kahn_inv deg (cur # queue) visited"
    and dec: "decrement_all deg queue (dget_default adj cur []) = (deg', queue')"
  shows "kahn_inv deg' queue' (visited @ [cur])"
proof -
  let ?cs = "dget_default adj cur []"
  have d: "distinct (visited @ cur # queue)" and s: "set (visited @ cur # queue) \<subseteq> ids"
    and ord0: "ordered visited"
    and deg: "\<And>n. n \<in> ids \<Longrightarrow> dget_default deg n 0 = int (open_preds visited n)"
    and old: "\<And>n. n \<in> ids \<Longrightarrow> n \<in> set (visited @ cur # queue) \<longleftrightarrow> open_preds visited n = 0"
    using inv unfolding kahn_inv_def by blast+
  have cur: "cur \<in> ids" "cur \<notin> set visited" "cur \<notin> set queue" using d s by auto
  have cnt: "count_list ?cs n = count_list (preds n) cur" for n by (rule successors [OF cur(1)])
  have in_ids: "n \<in> ids" if "n \<in> set ?cs" for n
  proof (rule ccontr)
    assume "n \<notin> ids"
    then have "count_list ?cs n = 0" using cnt [of n] by (simp add: preds_outside)
    with that show False by (simp add: count_list_0_iff)
  qed
  have step: "open_preds (visited @ [cur]) n + count_list ?cs n = open_preds visited n" for n
    using open_preds_snoc [of visited cur n] cur(2) cnt by simp
  have pre: "\<forall>n. n \<in> set ?cs \<longrightarrow> int (count_list ?cs n) \<le> dget_default deg n 0"
  proof (intro allI impI)
    fix n assume "n \<in> set ?cs"
    with deg [of n] in_ids [of n] step [of n] show "int (count_list ?cs n) \<le> dget_default deg n 0" by linarith
  qed
  note spec = conjunct1 [OF decrement_all_spec [OF dec pre]] conjunct2 [OF decrement_all_spec [OF dec pre]]
  obtain new where new: "queue' = queue @ new" "distinct new"
    "set new = {n \<in> set ?cs. dget_default deg n 0 = int (count_list ?cs n)}" using spec(2) by blast
  have new': "n \<in> set new \<longleftrightarrow> n \<in> set ?cs \<and> open_preds (visited @ [cur]) n = 0" for n
  proof (cases "n \<in> set ?cs")
    case True
    have "dget_default deg n 0 = int (count_list ?cs n) \<longleftrightarrow> open_preds (visited @ [cur]) n = 0"
      unfolding deg [OF in_ids [OF True]] using step [of n] by linarith
    with True show ?thesis unfolding new(3) by blast
  qed (use new(3) in blast)
  have was_open: "open_preds visited n \<noteq> 0" if "n \<in> set new" for n
  proof -
    have "count_list ?cs n \<noteq> 0" using that new' [of n] by (simp add: count_list_0_iff)
    with step [of n] show ?thesis by linarith
  qed
  have disj: "set new \<inter> set (visited @ cur # queue) = {}"
    using was_open old new' in_ids by blast
  have dist: "distinct ((visited @ [cur]) @ queue')"
    unfolding new(1) using d disj new(2) by auto
  have sub: "set ((visited @ [cur]) @ queue') \<subseteq> ids"
    unfolding new(1) using s new' in_ids by auto
  have "open_preds visited cur = 0" using old [OF cur(1)] by simp
  then have "set (preds cur) \<subseteq> set visited" by (auto simp: open_preds_def filter_empty_conv)
  then have ord: "ordered (visited @ [cur])" using ord0 unfolding ordered_snoc by blast
  have deg': "\<forall>n\<in>ids. dget_default deg' n 0 = int (open_preds (visited @ [cur]) n)"
  proof
    fix n assume "n \<in> ids"
    from deg [OF this] spec(1) step [of n]
    show "dget_default deg' n 0 = int (open_preds (visited @ [cur]) n)" by (metis add_diff_cancel_right' of_nat_add)
  qed
  have mem: "n \<in> set ((visited @ [cur]) @ queue') \<longleftrightarrow> open_preds (visited @ [cur]) n = 0" if n: "n \<in> ids" for n
  proof (cases "n \<in> set ?cs")
    case True
    then have "open_preds visited n \<noteq> 0" using step [of n] count_list_0_iff [of ?cs n] by linarith
    then have "n \<notin> set (visited @ cur # queue)" unfolding old [OF n] .
    then show ?thesis unfolding new(1) using new' [of n] True by auto
  next
    case False
    then have "open_preds (visited @ [cur]) n = open_preds visited n"
      using step [of n] count_list_0_iff [of ?cs n] by linarith
    moreover have "n \<notin> set new" using False new' [of n] by blast
    ultimately show ?thesis unfolding new(1) using old [OF n] by auto
  qed
  show ?thesis
    unfolding kahn_inv_def using dist sub ord deg' mem by simp
qed

text \<open>The start of the loop satisfies the invariant.\<close>

lemma kahn_start:
  assumes "\<And>n. n \<in> ids \<Longrightarrow> dget_default deg n 0 = int (length (preds n))"
    and "set (dkeys deg) = ids" "distinct (dkeys deg)"
  shows "kahn_inv deg (map fst (filter (\<lambda>(k, d). d = 0) deg)) []"
proof -
  let ?q = "map fst (filter (\<lambda>(k, d). d = 0) deg)"
  have "distinct ?q" using assms(3) by (rule distinct_map_filter)
  moreover have "set ?q \<subseteq> ids" using assms(2) by auto
  moreover have "n \<in> set ?q \<longleftrightarrow> dget_default deg n 0 = 0" if "n \<in> ids" for n
  proof -
    have "n \<in> set (dkeys deg)" using that assms(2) by simp
    then obtain d where d: "dget deg n = Some d" by (metis dget_None_iff option.exhaust)
    have "n \<in> set ?q \<longleftrightarrow> (n, 0) \<in> set deg" by force
    also have "\<dots> \<longleftrightarrow> dget deg n = Some 0" using map_of_eq_Some_iff [OF assms(3)] by simp
    finally show ?thesis using d by (simp add: dget_default_def)
  qed
  ultimately show ?thesis
    using assms(1) by (auto simp: kahn_inv_def ordered_def open_preds_def)
qed

text \<open>The loop ends with a list that is ordered and cannot be extended.\<close>

definition complete_order :: "string list \<Rightarrow> bool" where
  "complete_order xs \<longleftrightarrow> distinct xs \<and> set xs \<subseteq> ids \<and> ordered xs \<and>
     (\<forall>n\<in>ids. n \<in> set xs \<longleftrightarrow> set (preds n) \<subseteq> set xs)"

lemma kahn_loop_complete:
  assumes "kahn_inv deg queue visited"
  shows "complete_order (kahn_loop adj deg queue visited)"
proof -
  have "a = adj \<Longrightarrow> kahn_inv deg queue visited \<Longrightarrow> complete_order (kahn_loop a deg queue visited)" for a
  proof (induction a deg queue visited rule: kahn_loop.induct)
    case (1 a deg visited)
    have "open_preds visited n = 0 \<longleftrightarrow> set (preds n) \<subseteq> set visited" for n
      by (auto simp: open_preds_def filter_empty_conv)
    with 1 show ?case by (auto simp: kahn_inv_def complete_order_def)
  next
    case (2 a deg cur queue visited)
    obtain deg' queue' where dec: "decrement_all deg queue (dget_default adj cur []) = (deg', queue')"
      by fastforce
    with "2.IH" [of "(deg', queue')" deg' queue'] kahn_step [OF "2.prems"(2) dec] "2.prems"(1)
    show ?case by simp
  qed
  with assms show ?thesis by blast
qed

definition edges :: "(string \<times> string) set" where
  "edges = {(p, n). n \<in> ids \<and> p \<in> ids \<and> p \<in> set (preds n)}"

lemma edges_finite: "finite edges"
  by (rule finite_subset [of _ "ids \<times> ids"]) (auto simp: edges_def finite_ids)

definition position :: "string list \<Rightarrow> string \<Rightarrow> nat" where
  "position xs n = length (takeWhile (\<lambda>x. x \<noteq> n) xs)"

lemma ordered_position:
  assumes "distinct xs" "ordered xs" "n \<in> set xs" "p \<in> set (preds n)"
  shows "position xs p < position xs n"
proof -
  obtain us vs where xs: "xs = us @ n # vs" "n \<notin> set us"
    using split_list_first [OF assms(3)] by blast
  then have "p \<in> set us" using assms(2,4) unfolding ordered_def by blast
  then obtain as bs where us: "us = as @ p # bs" "p \<notin> set as" using split_list_first by metis
  have "position xs p = length as" "position xs n = length us"
    using xs us by (auto simp: position_def takeWhile_append)
  with us show ?thesis by simp
qed

text \<open>All nodes are ordered exactly when the graph has no cycle.\<close>

lemma complete_order_acyclic:
  assumes "complete_order xs" "\<forall>n\<in>ids. set (preds n) \<subseteq> ids"
  shows "set xs = ids \<longleftrightarrow> acyclic edges"
proof
  assume all: "set xs = ids"
  have "edges \<subseteq> inv_image less_than (position xs)"
    using ordered_position [of xs] assms(1) all by (auto simp: edges_def complete_order_def)
  then have "wf edges" using wf_inv_image [OF wf_less_than] wf_subset by blast
  then show "acyclic edges" by (rule wf_acyclic)
next
  assume "acyclic edges"
  then have wf: "wf edges" by (rule finite_acyclic_wf [OF edges_finite])
  show "set xs = ids"
  proof (rule ccontr)
    assume "set xs \<noteq> ids"
    then obtain n0 where "n0 \<in> ids - set xs" using assms(1) by (auto simp: complete_order_def)
    with wf obtain n where n: "n \<in> ids - set xs" "\<And>p. (p, n) \<in> edges \<Longrightarrow> p \<notin> ids - set xs"
      by (metis wfE_min)
    then obtain p where p: "p \<in> set (preds n)" "p \<notin> set xs"
      using assms(1) n(1) unfolding complete_order_def by blast
    with n assms(2) have "(p, n) \<in> edges" by (auto simp: edges_def)
    with n(2) p assms(2) n(1) show False by blast
  qed
qed

end

section \<open>The graph's tables\<close>

definition node_ids :: "provenance_graph \<Rightarrow> string set" where
  "node_ids g = pn_node_id ` set g"

definition preds_of :: "provenance_graph \<Rightarrow> string \<Rightarrow> string list" where
  "preds_of g n = concat (map pn_predecessors (filter (\<lambda>m. pn_node_id m = n) g))"

definition inner_preds :: "provenance_graph \<Rightarrow> string \<Rightarrow> string list" where
  "inner_preds g n = filter (\<lambda>p. p \<in> node_ids g) (preds_of g n)"

lemma preds_of_outside: "n \<notin> node_ids g \<Longrightarrow> preds_of g n = []"
  by (auto simp: preds_of_def node_ids_def filter_empty_conv)

lemma preds_of_node: "distinct (map pn_node_id g) \<Longrightarrow> m \<in> set g \<Longrightarrow> preds_of g (pn_node_id m) = pn_predecessors m"
proof -
  assume a: "distinct (map pn_node_id g)" "m \<in> set g"
  then have "filter (\<lambda>k. pn_node_id k = pn_node_id m) g = [m]"
  proof (induction g)
    case (Cons k g)
    have "filter (\<lambda>k. pn_node_id k = pn_node_id m) g = []" if "m = k"
      using that Cons.prems(1) by (auto simp: filter_empty_conv image_iff)
    with Cons show ?case by auto
  qed simp
  then show ?thesis by (simp add: preds_of_def)
qed

lemma fold_add_edge:
  "dget_default (fst (foldl add_edge t es)) c [] =
     dget_default (fst t) c [] @ map fst (filter (\<lambda>(n, p). p = c) es)"
  "dget_default (snd (foldl add_edge t es)) n 0 =
     dget_default (snd t) n 0 + int (length (filter (\<lambda>(m, p). m = n) es))"
  by (induction es arbitrary: t) (auto simp: add_edge_def split: prod.splits)

lemma fold_add_edge_keys:
  "\<forall>(n, p)\<in>set es. n \<in> set (dkeys (snd t)) \<Longrightarrow>
     dkeys (snd (foldl add_edge t es)) = dkeys (snd t)"
proof (induction es arbitrary: t)
  case (Cons e es)
  obtain n p where e: "e = (n, p)" by fastforce
  have k: "dkeys (snd (add_edge t e)) = dkeys (snd t)"
    using Cons.prems e by (simp add: add_edge_def split_beta update_keys)
  have "\<forall>(n, p)\<in>set es. n \<in> set (dkeys (snd (add_edge t e)))" using Cons.prems unfolding k by auto
  from Cons.IH [OF this] k show ?case by simp
qed simp

lemma zero_degrees_facts:
  "dget_default (zero_degrees g) n 0 = 0" "set (dkeys (zero_degrees g)) = node_ids g"
  "distinct (dkeys (zero_degrees g))"
proof -
  have "dget_default (foldl (\<lambda>d m. dset d (pn_node_id m) 0) d g) n 0 = 0" if "dget_default d n 0 = 0" for d :: "(string, int) dict"
    using that by (induction g arbitrary: d) auto
  then show "dget_default (zero_degrees g) n 0 = 0" by (simp add: zero_degrees_def dget_default_def)
  have "set (dkeys (foldl (\<lambda>d m. dset d (pn_node_id m) v) d g)) = set (dkeys d) \<union> node_ids g" for d and v :: int
  proof (induction g arbitrary: d)
    case (Cons m g)
    show ?case unfolding foldl_Cons Cons.IH set_dkeys_dset by (auto simp: node_ids_def)
  qed (simp add: node_ids_def)
  then show "set (dkeys (zero_degrees g)) = node_ids g" by (simp add: zero_degrees_def)
  have "distinct (dkeys d) \<Longrightarrow> distinct (dkeys (foldl (\<lambda>d m. dset d (pn_node_id m) v) d g))" for d and v :: int
    by (induction g arbitrary: d) auto
  then show "distinct (dkeys (zero_degrees g))" by (simp add: zero_degrees_def)
qed

lemma zero_degrees_keys: "fst ` set (zero_degrees g) = node_ids g"
  using zero_degrees_facts(2) [of g] by simp

lemma empty_successors:
  "dget_default (foldl (\<lambda>d n. dset d (pn_node_id n) []) ([] :: (string, string list) dict) g) c [] = []"
  "dget (foldl (\<lambda>d n. dset d (pn_node_id n) []) ([] :: (string, string list) dict) g) c \<noteq> None \<longleftrightarrow> c \<in> node_ids g"
proof -
  let ?f = "\<lambda>d :: (string, string list) dict. foldl (\<lambda>d n. dset d (pn_node_id n) []) d g"
  have "dget_default (?f d) c [] = []" if "dget_default d c [] = []" for d :: "(string, string list) dict"
    using that by (induction g arbitrary: d) auto
  from this [of "[]"] show "dget_default (?f []) c [] = []" by (simp add: dget_default_def)
  have "dget (?f d) c \<noteq> None \<longleftrightarrow> dget d c \<noteq> None \<or> c \<in> node_ids g" for d :: "(string, string list) dict"
    by (induction g arbitrary: d) (auto simp: node_ids_def)
  then show "dget (?f []) c \<noteq> None \<longleftrightarrow> c \<in> node_ids g" by simp
qed

text \<open>The check's fold is the other one over the edges inside the graph.\<close>

lemma guarded_fold:
  assumes "\<forall>c. dget (fst t) c \<noteq> None \<longleftrightarrow> c \<in> K"
  shows "foldl (\<lambda>t (n, pred). if dget (fst t) pred \<noteq> None then add_edge t (n, pred) else t) t es =
    foldl add_edge t (filter (\<lambda>(n, p). p \<in> K) es)"
  using assms
proof (induction es arbitrary: t)
  case (Cons e es)
  obtain n p where e: "e = (n, p)" by fastforce
  show ?case
  proof (cases "p \<in> K")
    case True
    then have "\<forall>c. dget (fst (add_edge t (n, p))) c \<noteq> None \<longleftrightarrow> c \<in> K"
      using Cons.prems by (auto simp: add_edge_def split_beta)
    with Cons.IH [OF this] Cons.prems True e show ?thesis by auto
  next
    case False
    with Cons e show ?thesis by auto
  qed
qed simp

lemma node_edges_count:
  "count_list (map fst (filter (\<lambda>(m, p). p = c) (node_edges g))) n = count_list (preds_of g n) c"
  "length (filter (\<lambda>(m, p). m = n) (node_edges g)) = length (preds_of g n)"
proof -
  have one: "count_list (map fst (filter (\<lambda>(m, p). p = c) (map (Pair i) ps))) n =
      (if i = n then count_list ps c else 0)" for i ps
    by (induction ps) auto
  show "count_list (map fst (filter (\<lambda>(m, p). p = c) (node_edges g))) n = count_list (preds_of g n) c"
    unfolding node_edges_def preds_of_def by (induction g) (auto simp: one)
  have two: "length (filter (\<lambda>(m, p). m = n) (map (Pair i) ps)) = (if i = n then length ps else 0)" for i ps
    by (induction ps) auto
  show "length (filter (\<lambda>(m, p). m = n) (node_edges g)) = length (preds_of g n)"
    unfolding node_edges_def preds_of_def by (induction g) (auto simp: two)
qed

lemma inner_edges_count:
  "c \<in> node_ids g \<Longrightarrow> count_list (map fst (filter (\<lambda>(m, p). p = c)
     (filter (\<lambda>(m, p). p \<in> node_ids g) (node_edges g)))) n = count_list (inner_preds g n) c"
  "length (filter (\<lambda>(m, p). m = n) (filter (\<lambda>(m, p). p \<in> node_ids g) (node_edges g))) =
     length (inner_preds g n)"
proof -
  assume c: "c \<in> node_ids g"
  have "filter (\<lambda>(m, p). p = c) (filter (\<lambda>(m, p). p \<in> node_ids g) es) = filter (\<lambda>(m, p). p = c) es" for es :: "(string \<times> string) list"
    using c by (induction es) auto
  moreover have "count_list (filter (\<lambda>p. p \<in> node_ids g) ps) c = count_list ps c" for ps
    using c by (induction ps) auto
  ultimately show "count_list (map fst (filter (\<lambda>(m, p). p = c)
     (filter (\<lambda>(m, p). p \<in> node_ids g) (node_edges g)))) n = count_list (inner_preds g n) c"
    by (simp add: node_edges_count inner_preds_def)
next
  have both: "filter (\<lambda>(m, p). m = n) (filter (\<lambda>(m, p). p \<in> K) es) =
      filter (\<lambda>(m, p). m = n \<and> p \<in> K) es" for es and K :: "string set"
    by (induction es) auto
  have "length (filter (\<lambda>(m, p). m = n \<and> p \<in> K) (node_edges g)) =
      length (filter (\<lambda>p. p \<in> K) (preds_of g n))" for K
    unfolding node_edges_def preds_of_def by (induction g) (auto simp: comp_def)
  then show "length (filter (\<lambda>(m, p). m = n) (filter (\<lambda>(m, p). p \<in> node_ids g) (node_edges g))) =
     length (inner_preds g n)" unfolding both inner_preds_def .
qed

lemma check_tables_facts:
  "c \<in> node_ids g \<Longrightarrow> count_list (dget_default (fst (check_tables g)) c []) n = count_list (inner_preds g n) c"
  "dget_default (snd (check_tables g)) n 0 = int (length (inner_preds g n))"
  "dkeys (snd (check_tables g)) = dkeys (zero_degrees g)"
proof -
  let ?adj = "foldl (\<lambda>d n. dset d (pn_node_id n) []) ([] :: (string, string list) dict) g"
  have t: "check_tables g =
      foldl add_edge (?adj, zero_degrees g) (filter (\<lambda>(n, p). p \<in> node_ids g) (node_edges g))"
    unfolding check_tables_def Let_def
    by (rule guarded_fold) (simp only: fst_conv empty_successors(2) simp_thms)
  show "c \<in> node_ids g \<Longrightarrow> count_list (dget_default (fst (check_tables g)) c []) n = count_list (inner_preds g n) c"
    unfolding t fold_add_edge(1) fst_conv empty_successors(1) append_Nil by (rule inner_edges_count(1))
  show "dget_default (snd (check_tables g)) n 0 = int (length (inner_preds g n))"
    unfolding t fold_add_edge(2) snd_conv zero_degrees_facts(1) inner_edges_count(2) by simp
  have "dkeys (snd (check_tables g)) = dkeys (snd (?adj, zero_degrees g))"
    unfolding t by (rule fold_add_edge_keys)
      (auto simp: zero_degrees_keys node_edges_def node_ids_def)
  then show "dkeys (snd (check_tables g)) = dkeys (zero_degrees g)" by simp
qed

lemma load_tables_facts:
  "count_list (dget_default (fst (load_tables g)) c []) n = count_list (preds_of g n) c"
  "dget_default (snd (load_tables g)) n 0 = int (length (preds_of g n))"
  "dkeys (snd (load_tables g)) = dkeys (zero_degrees g)"
proof -
  show "count_list (dget_default (fst (load_tables g)) c []) n = count_list (preds_of g n) c"
    unfolding load_tables_def fold_add_edge(1) node_edges_count(1) [symmetric] by (simp add: dget_default_def)
  show "dget_default (snd (load_tables g)) n 0 = int (length (preds_of g n))"
    unfolding load_tables_def fold_add_edge(2) by (simp add: zero_degrees_facts(1) node_edges_count(2))
  have "dkeys (snd (load_tables g)) = dkeys (snd ([] :: (string, string list) dict, zero_degrees g))"
    unfolding load_tables_def by (rule fold_add_edge_keys)
      (auto simp: zero_degrees_keys node_edges_def node_ids_def)
  then show "dkeys (snd (load_tables g)) = dkeys (zero_degrees g)" by simp
qed

interpretation check: kahn_graph "node_ids g" "inner_preds g" "fst (check_tables g)" for g
proof unfold_locales
  show "finite (node_ids g)" by (simp add: node_ids_def)
  show "n \<notin> node_ids g \<Longrightarrow> inner_preds g n = []" for n by (simp add: inner_preds_def preds_of_outside)
qed (rule check_tables_facts(1))

interpretation load: kahn_graph "node_ids g" "preds_of g" "fst (load_tables g)" for g
proof unfold_locales
  show "finite (node_ids g)" by (simp add: node_ids_def)
  show "n \<notin> node_ids g \<Longrightarrow> preds_of g n = []" for n by (rule preds_of_outside)
qed (rule load_tables_facts(1))

section \<open>Integrity\<close>

definition graph_edges :: "provenance_graph \<Rightarrow> (string \<times> string) set" where
  "graph_edges g = {(p, pn_node_id n) | p n. n \<in> set g \<and> p \<in> set (pn_predecessors n) \<and> p \<in> node_ids g}"

lemma check_complete: "kahn_graph.complete_order (node_ids g) (inner_preds g) (kahn_order (check_tables g))"
  unfolding kahn_order_def
proof (intro check.kahn_loop_complete check.kahn_start)
  show "distinct (dkeys (snd (check_tables g)))" "set (dkeys (snd (check_tables g))) = node_ids g"
    unfolding check_tables_facts(3) by (rule zero_degrees_facts)+
qed (rule check_tables_facts(2))

lemma load_complete: "kahn_graph.complete_order (node_ids g) (preds_of g) (kahn_order (load_tables g))"
  unfolding kahn_order_def
proof (intro load.kahn_loop_complete load.kahn_start)
  show "distinct (dkeys (snd (load_tables g)))" "set (dkeys (snd (load_tables g))) = node_ids g"
    unfolding load_tables_facts(3) by (rule zero_degrees_facts)+
qed (rule load_tables_facts(2))

lemma check_edges: "kahn_graph.edges (node_ids g) (inner_preds g) = graph_edges g"
  unfolding check.edges_def
  by (auto simp: graph_edges_def inner_preds_def preds_of_def node_ids_def) metis

lemma order_length:
  assumes "distinct xs" "set xs \<subseteq> node_ids g" "distinct (map pn_node_id g)"
  shows "length xs = length g \<longleftrightarrow> set xs = node_ids g"
proof -
  have g: "card (node_ids g) = length g" "finite (node_ids g)"
    using distinct_card [OF assms(3)] by (simp_all add: node_ids_def)
  have "card (set xs) = length xs" by (rule distinct_card [OF assms(1)])
  then show ?thesis using card_subset_eq [OF g(2) assms(2)] g(1) by auto
qed

text \<open>The check passes exactly on acyclic graphs.\<close>

lemma detect_cycle_iff:
  assumes "distinct (map pn_node_id g)"
  shows "detect_cycle g = Inr () \<longleftrightarrow> acyclic (graph_edges g)"
proof -
  let ?xs = "kahn_order (check_tables g)"
  have "\<forall>n\<in>node_ids g. set (inner_preds g n) \<subseteq> node_ids g" by (auto simp: inner_preds_def)
  from check.complete_order_acyclic [OF check_complete this]
  have "set ?xs = node_ids g \<longleftrightarrow> acyclic (graph_edges g)" unfolding check_edges .
  moreover have "length ?xs = length g \<longleftrightarrow> set ?xs = node_ids g"
    using check_complete [of g] assms unfolding check.complete_order_def by (intro order_length) auto
  ultimately show ?thesis by (simp add: detect_cycle_def)
qed

definition node_ok :: "(string \<Rightarrow> string) \<Rightarrow> provenance_node \<Rightarrow> bool" where
  "node_ok sha256 n \<longleftrightarrow>
     pn_node_id n \<notin> set (pn_predecessors n) \<and> pn_fingerprint n = fingerprint_of sha256 n"

definition graph_ok :: "(string \<Rightarrow> string) \<Rightarrow> provenance_graph \<Rightarrow> bool" where
  [inv_simps]: "graph_ok sha256 g \<longleftrightarrow>
     distinct (map pn_node_id g) \<and> (\<forall>n\<in>set g. node_ok sha256 n \<and> set (pn_predecessors n) \<subseteq> node_ids g) \<and>
     acyclic (graph_edges g)"

lemma check_nodes_iff:
  "check_nodes sha256 seen ns = Inr s \<longleftrightarrow>
     distinct (map pn_node_id ns) \<and> node_ids ns \<inter> seen = {} \<and> (\<forall>n\<in>set ns. node_ok sha256 n) \<and>
     s = seen \<union> node_ids ns"
  by (induction ns arbitrary: seen) (auto simp: node_ids_def node_ok_def)

lemma validate_integrity_iff: "validate_integrity sha256 g = Inr () \<longleftrightarrow> graph_ok sha256 g"
proof (cases "distinct (map pn_node_id g) \<and> (\<forall>n\<in>set g. node_ok sha256 n)")
  case True
  then have "check_nodes sha256 {} g = Inr (node_ids g)" by (simp add: check_nodes_iff)
  with detect_cycle_iff [of g] True show ?thesis
    by (auto simp: validate_integrity_def graph_ok_def list_ex_iff)
next
  case False
  then have "check_nodes sha256 {} g \<noteq> Inr s" for s unfolding check_nodes_iff by blast
  with False show ?thesis by (auto simp: validate_integrity_def graph_ok_def)
qed

lemma make_graph_iff: "make_graph sha256 ns = Inr g \<longleftrightarrow> g = ns \<and> graph_ok sha256 ns"
  by (auto simp: make_graph_def validate_integrity_iff [symmetric] old.unit.exhaust)

text \<open>A fresh node whose predecessors are there adds no cycle.\<close>

lemma acyclic_add_sink:
  assumes "acyclic E" "finite S" "n \<notin> S" "\<forall>(a, b)\<in>E. a \<noteq> n"
  shows "acyclic (E \<union> S \<times> {n})"
  using assms(2,3)
proof (induction S)
  case empty
  then show ?case using assms(1) by simp
next
  case (insert p S)
  let ?E = "E \<union> S \<times> {n}"
  have "n \<notin> Domain ?E" using insert.prems assms(4) by auto
  then have "(n, p) \<notin> ?E\<^sup>*" using insert.prems by (auto elim: converse_rtranclE)
  moreover have "acyclic ?E" using insert by simp
  moreover have "E \<union> insert p S \<times> {n} = insert (p, n) ?E" by auto
  ultimately show ?case by (simp only: acyclic_insert) simp
qed

lemma graph_ok_snoc:
  assumes "graph_ok sha256 g"
  shows "graph_ok sha256 (g @ [n]) \<longleftrightarrow>
    pn_node_id n \<notin> node_ids g \<and> node_ok sha256 n \<and> set (pn_predecessors n) \<subseteq> node_ids g"
proof
  assume a: "graph_ok sha256 (g @ [n])"
  then have "pn_node_id n \<notin> node_ids g" "node_ok sha256 n" by (auto simp: graph_ok_def node_ids_def)
  moreover have "set (pn_predecessors n) \<subseteq> insert (pn_node_id n) (node_ids g)"
    using a by (auto simp: graph_ok_def node_ids_def)
  ultimately show "pn_node_id n \<notin> node_ids g \<and> node_ok sha256 n \<and> set (pn_predecessors n) \<subseteq> node_ids g"
    by (auto simp: node_ok_def)
next
  assume a: "pn_node_id n \<notin> node_ids g \<and> node_ok sha256 n \<and> set (pn_predecessors n) \<subseteq> node_ids g"
  have ids: "node_ids (g @ [n]) = insert (pn_node_id n) (node_ids g)" by (auto simp: node_ids_def)
  have inner: "p \<in> node_ids g" if "m \<in> set g" "p \<in> set (pn_predecessors m)" for m p
    using assms that by (auto simp: graph_ok_def)
  have "graph_edges (g @ [n]) = graph_edges g \<union> set (pn_predecessors n) \<times> {pn_node_id n}"
  proof (rule set_eqI)
    fix e :: "string \<times> string"
    obtain p q where e: "e = (p, q)" by fastforce
    have "p \<in> node_ids g" if "p \<in> set (pn_predecessors n)" using a that by blast
    then show "e \<in> graph_edges (g @ [n]) \<longleftrightarrow> e \<in> graph_edges g \<union> set (pn_predecessors n) \<times> {pn_node_id n}"
      using inner unfolding e graph_edges_def ids by auto
  qed
  moreover have "\<forall>(p, q)\<in>graph_edges g. p \<noteq> pn_node_id n" using a by (auto simp: graph_edges_def)
  moreover have "acyclic (graph_edges g)" using assms by (simp add: graph_ok_def)
  ultimately have "acyclic (graph_edges (g @ [n]))"
    using acyclic_add_sink [of "graph_edges g" "set (pn_predecessors n)" "pn_node_id n"] a
    by (simp add: node_ok_def)
  then show "graph_ok sha256 (g @ [n])"
    using assms a ids by (auto simp: graph_ok_def node_ids_def)
qed

lemma add_node_ok: "add_node sha256 g n = Inr g' \<Longrightarrow> g' = g @ [n] \<and> graph_ok sha256 g'"
  by (auto simp: add_node_def make_graph_iff Let_def split: if_splits)

lemma add_node_iff:
  assumes "graph_ok sha256 g"
  shows "add_node sha256 g n = Inr g' \<longleftrightarrow>
    g' = g @ [n] \<and> pn_node_id n \<notin> node_ids g \<and> node_ok sha256 n \<and> set (pn_predecessors n) \<subseteq> node_ids g"
proof
  assume "add_node sha256 g n = Inr g'"
  from add_node_ok [OF this] graph_ok_snoc [OF assms]
  show "g' = g @ [n] \<and> pn_node_id n \<notin> node_ids g \<and> node_ok sha256 n \<and> set (pn_predecessors n) \<subseteq> node_ids g"
    by auto
next
  assume a: "g' = g @ [n] \<and> pn_node_id n \<notin> node_ids g \<and> node_ok sha256 n \<and> set (pn_predecessors n) \<subseteq> node_ids g"
  then have ok: "graph_ok sha256 (g @ [n])" using graph_ok_snoc [OF assms] by blast
  then have "detect_cycle (g @ [n]) = Inr ()" by (subst detect_cycle_iff) (simp_all add: graph_ok_def)
  then show "add_node sha256 g n = Inr g'"
    using a ok by (auto simp: add_node_def make_graph_iff Let_def list_ex_iff node_ids_def node_ok_def)
qed

lemma factory_node_ok:
  assumes "factory_node sha256 nid ty preds meta = Inr n"
  shows "pn_node_id n = nid" "pn_predecessors n = preds" "pn_node_type n = ty"
    "pn_fingerprint n = fingerprint_of sha256 n" "\<not> blank nid"
  using assms by (auto simp: factory_node_def make_node_def fingerprint_of_def split: if_splits)

section \<open>Export and import\<close>

lemma sort_key_unique:
  fixes f :: "'a \<Rightarrow> 'b::linorder"
  assumes "mset xs = mset ys" "distinct (map f xs)"
  shows "sort_key f xs = sort_key f ys"
proof (rule properties_for_sort_key [symmetric])
  show "mset (sort_key f xs) = mset ys" using assms(1) by simp
  show "sorted (map f (sort_key f xs))" by simp
  fix k assume "k \<in> set (sort_key f xs)"
  have one: "filter (\<lambda>x. f k = f x) zs = [k]" if "distinct (map f zs)" "k \<in> set zs" for zs
    using that by (induction zs) (auto simp: filter_empty_conv image_iff)
  have d: "distinct (map f ys)" "distinct (map f (sort_key f xs))"
    using assms by (metis mset_map mset_eq_imp_distinct_iff, metis mset_map mset_eq_imp_distinct_iff mset_sort)
  have "k \<in> set ys" using \<open>k \<in> set (sort_key f xs)\<close> assms(1) by (metis mset_eq_setD set_sort)
  then show "filter (\<lambda>x. f k = f x) (sort_key f xs) = filter (\<lambda>x. f k = f x) ys"
    using one [OF d(1)] one [OF d(2) \<open>k \<in> set (sort_key f xs)\<close>] by simp
qed

lemma graph_fingerprint_order:
  "mset g = mset g' \<Longrightarrow> distinct (map pn_node_id g) \<Longrightarrow> graph_fingerprint sha256 g = graph_fingerprint sha256 g'"
  using sort_key_unique [of g g' pn_node_id] by (simp add: graph_fingerprint_def)

text \<open>A node in the form the factories build it.\<close>

definition exportable :: "provenance_node \<Rightarrow> bool" where
  "exportable n \<longleftrightarrow> \<not> blank (pn_node_id n) \<and> sort (pn_metadata n) = pn_metadata n \<and>
     distinct (map fst (pn_metadata n))"

lemma fingerprint_of_fingerprint [simp]: "fingerprint_of sha256 (n\<lparr> pn_fingerprint := x \<rparr>) = fingerprint_of sha256 n"
  by (simp add: fingerprint_of_def)

lemma node_round_trip:
  assumes "exportable n" "pn_fingerprint n = fingerprint_of sha256 n"
  shows "node_from_dict sha256 (node_to_dict n) = Inr n"
proof -
  have m: "meta_dict (pn_metadata n) = pn_metadata n" "sort (pn_metadata n) = pn_metadata n"
    using assms(1) by (auto simp: exportable_def meta_dict_distinct)
  have same: "n\<lparr> pn_metadata := pn_metadata n \<rparr> = n" by simp
  have fp: "n\<lparr> pn_fingerprint := fingerprint_of sha256 n \<rparr> = n"
    using assms(2) by (metis provenance_node.surjective provenance_node.update_convs(3))
  show ?thesis
    using assms fp
    by (auto simp: node_from_dict_def node_to_dict_def m same make_node_def exportable_def Let_def)
qed

lemma nodes_round_trip:
  "\<forall>n\<in>set ns. exportable n \<and> pn_fingerprint n = fingerprint_of sha256 n \<Longrightarrow>
     nodes_from_dict sha256 (map node_to_dict ns) = Inr ns"
  by (induction ns) (auto simp: node_round_trip)

lemma add_nodes_ordered:
  assumes "graph_ok sha256 g" "distinct (map pn_node_id (g @ ns))"
    and "\<forall>us n vs. ns = us @ n # vs \<longrightarrow> node_ok sha256 n \<and> set (pn_predecessors n) \<subseteq> node_ids (g @ us)"
  shows "add_nodes sha256 g ns = Inr (g @ ns) \<and> graph_ok sha256 (g @ ns)"
  using assms
proof (induction ns arbitrary: g)
  case (Cons n ns)
  have "node_ok sha256 n" "set (pn_predecessors n) \<subseteq> node_ids g"
    using Cons.prems(3) [rule_format, of "[]" n ns] by auto
  moreover have "pn_node_id n \<notin> node_ids g" using Cons.prems(2) by (auto simp: node_ids_def)
  ultimately have a: "add_node sha256 g n = Inr (g @ [n])"
    using add_node_iff [OF Cons.prems(1)] by blast
  have "\<forall>us m vs. ns = us @ m # vs \<longrightarrow> node_ok sha256 m \<and> set (pn_predecessors m) \<subseteq> node_ids ((g @ [n]) @ us)"
    using Cons.prems(3) by (metis append.assoc append_Cons append_Nil)
  from Cons.IH [OF conjunct2 [OF add_node_ok [OF a]] _ this] Cons.prems(2) a show ?case by simp
qed simp

lemma nodes_from_dict_ok:
  "nodes_from_dict sha256 ds = Inr ns \<Longrightarrow> \<forall>n\<in>set ns. pn_fingerprint n = fingerprint_of sha256 n"
  by (induction ds arbitrary: ns)
    (auto simp: node_from_dict_def make_node_def Let_def split: if_splits)

lemma node_map_get:
  fixes g :: provenance_graph
  assumes "distinct (map pn_node_id g)" "n \<in> set g"
  shows "dget (foldl (\<lambda>d n. dset d (pn_node_id n) n) d g) (pn_node_id n) = Some n"
  using assms
proof (induction g arbitrary: d)
  case (Cons m g)
  have frame: "i \<notin> node_ids g \<Longrightarrow> dget (foldl (\<lambda>d n. dset d (pn_node_id n) n) d g) i = dget d i" for d i
    by (induction g arbitrary: d) (auto simp: node_ids_def)
  show ?case
  proof (cases "n = m")
    case True
    with Cons.prems(1) frame [of "pn_node_id m" "dset d (pn_node_id m) m"] show ?thesis
      by (simp add: node_ids_def)
  qed (use Cons in simp)
qed simp

text \<open>
  The import of nodes with distinct identifiers never raises for the graph's structure: it keeps
  the nodes whose predecessors it keeps, in a topological order, and drops the others.
\<close>

lemma import_keeps:
  assumes "nodes_from_dict sha256 data = Inr raw" "distinct (map pn_node_id raw)"
  shows "\<exists>g. graph_from_dict sha256 data = Inr g \<and> graph_ok sha256 g \<and> set g \<subseteq> set raw \<and>
    distinct g \<and> node_ids g = set (kahn_order (load_tables raw)) \<and>
    (\<forall>n\<in>set raw. n \<in> set g \<longleftrightarrow> set (pn_predecessors n) \<subseteq> node_ids g)"
proof -
  let ?xs = "kahn_order (load_tables raw)"
  let ?map = "foldl (\<lambda>d n. dset d (pn_node_id n) n) [] raw"
  let ?ns = "map (\<lambda>i. the (dget ?map i)) ?xs"
  have co: "distinct ?xs" "set ?xs \<subseteq> node_ids raw"
    "\<And>us i vs. ?xs = us @ i # vs \<Longrightarrow> set (preds_of raw i) \<subseteq> set us"
    "\<And>i. i \<in> node_ids raw \<Longrightarrow> i \<in> set ?xs \<longleftrightarrow> set (preds_of raw i) \<subseteq> set ?xs"
    using load_complete [of raw] unfolding load.complete_order_def load.ordered_def by blast+
  have at: "the (dget ?map i) \<in> set raw \<and> pn_node_id (the (dget ?map i)) = i" if "i \<in> set ?xs" for i
  proof -
    have "i \<in> pn_node_id ` set raw" using that co(2) unfolding node_ids_def by blast
    then obtain n where "n \<in> set raw" "i = pn_node_id n" by blast
    with node_map_get [OF assms(2)] show ?thesis by simp
  qed
  have ids: "map pn_node_id ?ns = ?xs" using at by (simp add: map_idI)
  then have nids: "node_ids ?ns = set ?xs" using set_map [of pn_node_id ?ns] by (simp only: node_ids_def)
  have sub: "set ?ns \<subseteq> set raw" using at by auto
  have pred: "pn_predecessors n = preds_of raw (pn_node_id n)" if "n \<in> set raw" for n
    using preds_of_node [OF assms(2) that] by simp
  have "add_nodes sha256 [] ?ns = Inr ([] @ ?ns) \<and> graph_ok sha256 ([] @ ?ns)"
  proof (rule add_nodes_ordered)
    show "graph_ok sha256 []" by (simp add: graph_ok_def graph_edges_def acyclic_def)
    show "distinct (map pn_node_id ([] @ ?ns))" using ids co(1) by simp
    show "\<forall>us n vs. ?ns = us @ n # vs \<longrightarrow> node_ok sha256 n \<and> set (pn_predecessors n) \<subseteq> node_ids ([] @ us)"
    proof (intro allI impI)
      fix us n vs assume ns: "?ns = us @ n # vs"
      have "?xs = map pn_node_id ?ns" by (rule ids [symmetric])
      also have "\<dots> = map pn_node_id us @ pn_node_id n # map pn_node_id vs" unfolding ns by simp
      finally have xs: "?xs = map pn_node_id us @ pn_node_id n # map pn_node_id vs" .
      have "n \<in> set ?ns" unfolding ns by simp
      then have n: "n \<in> set raw" using sub by blast
      have p: "set (pn_predecessors n) \<subseteq> node_ids us"
        using co(3) [OF xs] pred [OF n] by (simp add: node_ids_def)
      moreover have "pn_node_id n \<notin> node_ids us"
        using co(1) xs by (simp add: node_ids_def)
      moreover have "pn_fingerprint n = fingerprint_of sha256 n"
        using nodes_from_dict_ok [OF assms(1)] n by blast
      ultimately show "node_ok sha256 n \<and> set (pn_predecessors n) \<subseteq> node_ids ([] @ us)"
        by (auto simp: node_ok_def)
    qed
  qed
  then have run: "graph_from_dict sha256 data = Inr ?ns" "graph_ok sha256 ?ns"
    using assms(1) by (simp_all add: graph_from_dict_def Let_def)
  have mem: "n \<in> set ?ns \<longleftrightarrow> set (pn_predecessors n) \<subseteq> node_ids ?ns" if n: "n \<in> set raw" for n
  proof -
    have "n \<in> set ?ns \<longleftrightarrow> pn_node_id n \<in> set ?xs"
    proof
      assume "n \<in> set ?ns"
      then have "pn_node_id n \<in> node_ids ?ns" by (simp add: node_ids_def)
      then show "pn_node_id n \<in> set ?xs" unfolding nids .
    next
      assume i: "pn_node_id n \<in> set ?xs"
      show "n \<in> set ?ns"
        unfolding set_map by (rule image_eqI [OF _ i]) (simp add: node_map_get [OF assms(2) n])
    qed
    also have "\<dots> \<longleftrightarrow> set (pn_predecessors n) \<subseteq> set ?xs"
      unfolding pred [OF n] by (rule co(4)) (simp add: node_ids_def n)
    finally show ?thesis unfolding nids .
  qed
  have "distinct (map pn_node_id ?ns)" unfolding ids by (rule co(1))
  then have dist: "distinct ?ns" by (rule distinct_map [THEN iffD1, THEN conjunct1])
  show ?thesis
  proof (intro exI conjI ballI)
    fix n assume "n \<in> set raw"
    then show "n \<in> set ?ns \<longleftrightarrow> set (pn_predecessors n) \<subseteq> node_ids ?ns" by (rule mem)
  qed (rule run sub dist nids)+
qed

lemma acyclic_import_complete:
  assumes "graph_ok sha256 g"
  shows "set (kahn_order (load_tables g)) = node_ids g"
proof -
  have "\<forall>n\<in>node_ids g. set (preds_of g n) \<subseteq> node_ids g"
    using assms preds_of_node [of g] by (auto simp: graph_ok_def node_ids_def)
  moreover have "kahn_graph.edges (node_ids g) (preds_of g) = graph_edges g"
    unfolding load.edges_def using assms preds_of_node [of g]
    by (fastforce simp: graph_edges_def graph_ok_def node_ids_def)
  ultimately show ?thesis
    using load.complete_order_acyclic [OF load_complete, of g] assms by (simp add: graph_ok_def)
qed

lemma graph_round_trip:
  assumes "graph_ok sha256 g" "\<forall>n\<in>set g. exportable n"
  shows "\<exists>g'. graph_from_dict sha256 (graph_to_dict g) = Inr g' \<and> graph_ok sha256 g' \<and> mset g' = mset g"
proof -
  let ?gs = "sort_key pn_node_id g"
  have d: "distinct (map pn_node_id ?gs)"
    using assms(1) by (metis graph_ok_def mset_map mset_eq_imp_distinct_iff mset_sort)
  have ids: "node_ids ?gs = node_ids g" by (simp add: node_ids_def)
  have ok: "graph_ok sha256 ?gs"
    using assms(1) d ids by (simp add: graph_ok_def graph_edges_def)
  have "nodes_from_dict sha256 (graph_to_dict g) = Inr ?gs"
    unfolding graph_to_dict_def using assms
    by (intro nodes_round_trip) (auto simp: graph_ok_def node_ok_def)
  from import_keeps [OF this d] obtain g' where g': "graph_from_dict sha256 (graph_to_dict g) = Inr g'"
    "graph_ok sha256 g'" "distinct g'" "set g' \<subseteq> set ?gs" "node_ids g' = node_ids ?gs"
    "\<forall>n\<in>set ?gs. n \<in> set g' \<longleftrightarrow> set (pn_predecessors n) \<subseteq> node_ids g'"
    unfolding acyclic_import_complete [OF ok] by blast
  then have "set g' = set ?gs" using ok by (auto simp: graph_ok_def)
  moreover have "distinct ?gs" using d by (rule distinct_map [THEN iffD1, THEN conjunct1])
  ultimately have "mset g' = mset ?gs" using g'(3) by (simp add: set_eq_iff_mset_eq_distinct)
  with g' show ?thesis by auto
qed

section \<open>Properties\<close>

text \<open>
  C11: On a graph with distinct identifiers the cycle check, Kahn's algorithm
  over the tables it builds, passes exactly when the relation of predecessors has no cycle.
\<close>

theorem cycle_check_exact:
  assumes "distinct (map pn_node_id g)"
  shows "detect_cycle g = Inr () \<longleftrightarrow> acyclic (graph_edges g)"
  by (rule detect_cycle_iff [OF assms])

definition demo_node :: "string \<Rightarrow> string list \<Rightarrow> provenance_node" where
  "demo_node i ps = \<lparr> pn_node_id = i, pn_node_type = PN_RCA,
     pn_fingerprint = node_fingerprint demo_digest i PN_RCA ps [], pn_predecessors = ps,
     pn_metadata = [] \<rparr>"

theorem cycle_check_exact_witness:
  "\<not> acyclic (graph_edges [demo_node ''a'' [''c''], demo_node ''b'' [''a''], demo_node ''c'' [''b'']])"
proof -
  let ?g = "[demo_node ''a'' [''c''], demo_node ''b'' [''a''], demo_node ''c'' [''b'']]"
  have "detect_cycle ?g = Inl CycleDetected" by code_simp
  moreover have "distinct (map pn_node_id ?g)" by code_simp
  ultimately show ?thesis using cycle_check_exact [of ?g] by simp
qed

text \<open>
  On a graph that passes the integrity check, adding a node succeeds exactly
  when its identifier is new, it does not name itself, its predecessors are in the graph and its
  fingerprint is that of its fields; it is appended, the new graph passes the check again, and
  neither the cycle check nor the second integrity check ever refuses such a node.
\<close>

theorem add_node_exact:
  assumes "validate_integrity sha256 g = Inr ()"
  shows "(add_node sha256 g n = Inr g' \<longleftrightarrow>
      g' = g @ [n] \<and> pn_node_id n \<notin> node_ids g \<and> pn_node_id n \<notin> set (pn_predecessors n) \<and>
      pn_fingerprint n = fingerprint_of sha256 n \<and> set (pn_predecessors n) \<subseteq> node_ids g) \<and>
    (add_node sha256 g n = Inr g' \<longrightarrow> validate_integrity sha256 g' = Inr ())"
  using add_node_iff [of sha256 g n g'] add_node_ok [of sha256 g n g'] assms
  unfolding validate_integrity_iff node_ok_def by blast

theorem add_node_exact_witness:
  "add_node demo_digest [demo_node ''a'' []] (demo_node ''b'' [''a'']) =
     Inr [demo_node ''a'' [], demo_node ''b'' [''a'']]"
proof -
  have "validate_integrity demo_digest [demo_node ''a'' []] = Inr ()" by code_simp
  from add_node_exact [OF this, of "demo_node ''b'' [''a'']" "[demo_node ''a'' [], demo_node ''b'' [''a'']]"]
  show ?thesis by (simp add: node_ids_def demo_node_def fingerprint_of_def)
qed

text \<open>
  C12: Importing the export of a graph that passes the integrity check, whose
  nodes are as the factories build them, gives a graph with the same nodes and the same
  fingerprint, whatever the order of insertion was.
\<close>

theorem graph_export_import:
  assumes "validate_integrity sha256 g = Inr ()" "list_all exportable g"
  shows "\<exists>g'. graph_from_dict sha256 (graph_to_dict g) = Inr g' \<and> mset g' = mset g \<and>
    validate_integrity sha256 g' = Inr () \<and> graph_fingerprint sha256 g' = graph_fingerprint sha256 g"
proof -
  have ok: "graph_ok sha256 g" "\<forall>n\<in>set g. exportable n"
    using assms by (simp_all add: validate_integrity_iff list_all_iff)
  from graph_round_trip [OF ok] obtain g' where
    g': "graph_from_dict sha256 (graph_to_dict g) = Inr g'" "graph_ok sha256 g'" "mset g' = mset g" by blast
  have "graph_fingerprint sha256 g' = graph_fingerprint sha256 g"
    by (rule graph_fingerprint_order) (use g'(2,3) in \<open>simp_all add: graph_ok_def\<close>)
  with g' show ?thesis unfolding validate_integrity_iff by blast
qed

theorem graph_export_import_witness:
  "\<exists>g'. graph_from_dict demo_digest (graph_to_dict [demo_node ''b'' [], demo_node ''a'' [''b'']]) = Inr g' \<and>
     mset g' = mset [demo_node ''b'' [], demo_node ''a'' [''b'']]"
proof -
  let ?g = "[demo_node ''b'' [], demo_node ''a'' [''b'']]"
  have "validate_integrity demo_digest ?g = Inr ()" by code_simp
  moreover have "list_all exportable ?g"
    by (simp add: exportable_def demo_node_def blank_def py_strip_def py_space_def)
  ultimately show ?thesis using graph_export_import [of demo_digest ?g] by blast
qed

text \<open>
  Importing nodes with distinct identifiers raises for no cycle and no
  missing predecessor: the graph returned passes the integrity check and holds exactly the
  imported nodes whose predecessors it holds; the others are dropped without an error.
\<close>

theorem import_drops_silently:
  assumes "nodes_from_dict sha256 data = Inr raw" "distinct (map pn_node_id raw)"
  shows "\<exists>g. graph_from_dict sha256 data = Inr g \<and> validate_integrity sha256 g = Inr () \<and>
    set g = {n \<in> set raw. set (pn_predecessors n) \<subseteq> node_ids g}"
  using import_keeps [OF assms] unfolding validate_integrity_iff by blast

theorem import_drops_silently_witness:
  "\<exists>g. graph_from_dict demo_digest [demo_node ''a'' [''c''], demo_node ''b'' [], demo_node ''c'' [''a'']] = Inr g \<and>
     demo_node ''a'' [''c''] \<notin> set g"
proof -
  let ?d = "[demo_node ''a'' [''c''], demo_node ''b'' [], demo_node ''c'' [''a'']]"
  have raw: "nodes_from_dict demo_digest ?d = Inr ?d" by code_simp
  have ids: "distinct (map pn_node_id ?d)" by code_simp
  from import_drops_silently [OF raw ids] obtain g where
    g: "graph_from_dict demo_digest ?d = Inr g" "validate_integrity demo_digest g = Inr ()" by blast
  have "map_sum id (map pn_node_id) (graph_from_dict demo_digest ?d) = Inr [''b'']" by code_simp
  with g(1) have "map pn_node_id g = [''b'']" by simp
  then have "pn_node_id n = ''b''" if "n \<in> set g" for n
    using that by (metis in_set_conv_nth length_map less_one list.size(3,4) nth_Cons_0 nth_map One_nat_def add_0)
  with g(1) show ?thesis by (force simp: demo_node_def)
qed

end
