(* ===== verification/LifecycleEngine.thy ===== *)
theory LifecycleEngine
  imports LifecycleSM Ledger Provenance
begin

text \<open>
  The remediation lifecycle engine of \<^verbatim>\<open>ai/remediation/lifecycle.py\<close>: one transaction drives the
  state machine, the provenance graph and the ledger from a detected finding to a terminal
  state. The remediation agent, the approval callback and the rescan callback are objects the
  caller passes in; the input record holds what they return or the message of what they raise.
\<close>

datatype engine_error =
    MachineRaised lifecycle_error
  | AuditRaised audit_error
  | GraphRaised provenance_error
  | TokenRaised approval_error
  | SnapshotRaised string
  | PlanRaised string
  | ProviderRaised string
  | TransactionRaised agent_error

datatype approval_provider =
    No_provider
  | Given_token approval_token
  | Callback "patch_proposal \<Rightarrow> source_snapshot \<Rightarrow> string + approval_token option"

record lifecycle_input =
  li_finding :: finding
  li_verdict :: "security_verdict option"
  li_rca :: "root_cause_analysis option"
  li_plan :: "string + remediation_strategy \<times> patch_proposal"
  li_approval :: approval_provider
  li_rescan :: "(string + finding list) option"
  li_actor :: string
  li_transaction_id :: string
  li_audit_id :: string
  li_verification_id :: string
  li_business_tests :: "bool \<times> string"

record lifecycle_result =
  lr_finding_id :: string
  lr_current_state :: lifecycle_state
  lr_repository_identity :: string
  lr_finding :: finding
  lr_verdict :: "security_verdict option"
  lr_rca :: "root_cause_analysis option"
  lr_strategy :: "remediation_strategy option"
  lr_proposal :: "patch_proposal option"
  lr_approval_token :: "approval_token option"
  lr_source_snapshot :: "source_snapshot option"
  lr_application_result :: "application_result option"
  lr_verification_result :: "verification_result option"
  lr_provenance_graph :: provenance_graph
  lr_ledger :: ledger
  lr_state_history :: "lifecycle_event list"
  lr_failure_reason :: "string option"

text \<open>The three local variables the stages carry along.\<close>

record lifecycle_tx =
  tx_machine :: state_machine
  tx_graph :: provenance_graph
  tx_ledger :: ledger

record audit_fields =
  af_proposal :: "string option"
  af_source :: "string option"
  af_post :: "string option"
  af_run :: "string option"
  af_verification :: "string option"
  af_metadata :: metadata

definition no_fields :: audit_fields where
  "no_fields = \<lparr> af_proposal = None, af_source = None, af_post = None, af_run = None,
     af_verification = None, af_metadata = [] \<rparr>"

definition append_audit ::
  "host \<Rightarrow> lifecycle_input \<Rightarrow> audit_event_type \<Rightarrow> audit_fields \<Rightarrow> lifecycle_tx \<Rightarrow> engine_error + lifecycle_tx" where
  "append_audit h li event_type a tx =
     (let ledger = tx_ledger tx;
          args = \<lparr> ae_event_id = ''aud_evt_'' @ str_nat (length ledger + 1) @ ''_'' @ event_type_value event_type,
                   ae_event_type = event_type, ae_finding_id = fi_finding_id (li_finding li),
                   ae_lifecycle_state = state_value (lm_current_state (tx_machine tx)),
                   ae_actor = li_actor li, ae_timestamp = ho_now_iso h,
                   ae_repository_identity = path_str (ho_root h),
                   ae_predecessor_event_id = map_option ae_event_id (latest_event ledger),
                   ae_predecessor_event_fingerprint = map_option ae_event_fingerprint (latest_event ledger),
                   ae_proposal_fingerprint = af_proposal a, ae_source_snapshot_hash = af_source a,
                   ae_post_apply_snapshot_hash = af_post a, ae_verification_run_id = af_run a,
                   ae_verification_fingerprint = af_verification a,
                   ae_provenance_fingerprint = Some (graph_fingerprint (ho_sha256 h) (tx_graph tx)),
                   ae_metadata = af_metadata a, ae_event_fingerprint = [] \<rparr>
      in map_sum AuditRaised (\<lambda>l. tx\<lparr> tx_ledger := l \<rparr>)
           (rbind (create_event (ho_sha256 h) args) (append_event (ho_sha256 h) ledger)))"

text \<open>A transition and the audit event after it.\<close>

definition advance ::
  "host \<Rightarrow> lifecycle_input \<Rightarrow> lifecycle_state \<Rightarrow> string \<Rightarrow> audit_event_type \<Rightarrow> audit_fields \<Rightarrow>
     lifecycle_tx \<Rightarrow> engine_error + lifecycle_tx" where
  "advance h li target reason event_type a tx =
     (case transition (ho_sha256 h) (ho_now_iso h) (tx_machine tx) target (li_actor li) reason []
             (Some (ho_now_iso h)) None of
        Inl e \<Rightarrow> Inl (MachineRaised e)
      | Inr sm \<Rightarrow> append_audit h li event_type a (tx\<lparr> tx_machine := sm \<rparr>))"

text \<open>Creating a node and adding it to the graph; the identifier is kept for the successors.\<close>

definition add_artifact ::
  "host \<Rightarrow> provenance_error + provenance_node \<Rightarrow> lifecycle_tx \<Rightarrow> engine_error + lifecycle_tx \<times> string" where
  "add_artifact h node tx =
     map_sum GraphRaised (\<lambda>(n, g). (tx\<lparr> tx_graph := g \<rparr>, pn_node_id n))
       (rbind node (\<lambda>n. rbind (add_node (ho_sha256 h) (tx_graph tx) n) (\<lambda>g. Inr (n, g))))"

definition finish ::
  "host \<Rightarrow> lifecycle_input \<Rightarrow> lifecycle_tx \<Rightarrow> remediation_strategy \<Rightarrow> patch_proposal \<Rightarrow> approval_token option \<Rightarrow>
     source_snapshot \<Rightarrow> application_result option \<Rightarrow> verification_result option \<Rightarrow> string option \<Rightarrow>
     lifecycle_result" where
  "finish h li tx strategy proposal token snapshot app_res ver_res reason =
     \<lparr> lr_finding_id = fi_finding_id (li_finding li),
       lr_current_state = lm_current_state (tx_machine tx),
       lr_repository_identity = path_str (ho_root h), lr_finding = li_finding li,
       lr_verdict = li_verdict li, lr_rca = li_rca li, lr_strategy = Some strategy,
       lr_proposal = Some proposal, lr_approval_token = token, lr_source_snapshot = Some snapshot,
       lr_application_result = app_res, lr_verification_result = ver_res,
       lr_provenance_graph = tx_graph tx, lr_ledger = tx_ledger tx,
       lr_state_history = lm_history (tx_machine tx), lr_failure_reason = reason \<rparr>"

section \<open>Stages 1 to 3\<close>

definition stage_detect :: "host \<Rightarrow> lifecycle_input \<Rightarrow> engine_error + lifecycle_tx \<times> string" where
  "stage_detect h li =
     (case new_machine (ho_sha256 h) (ho_now_iso h) (fi_finding_id (li_finding li)) DETECTED (li_actor li)
             (Some (ho_now_iso h)) None of
        Inl e \<Rightarrow> Inl (MachineRaised e)
      | Inr sm \<Rightarrow>
          rbind (add_artifact h (create_finding_node (ho_sha256 h) (li_finding li) None)
                   \<lparr> tx_machine = sm, tx_graph = [], tx_ledger = [] \<rparr>) (\<lambda>(tx, finding_node).
          rbind (append_audit h li AE_FINDING_DETECTED
                   (no_fields\<lparr> af_metadata := [(''rule_id'', fi_rule_id (li_finding li)),
                                             (''file_path'', fi_file_path (li_finding li))] \<rparr>) tx) (\<lambda>tx.
          rbind (advance h li EVIDENCE_VERIFIED ''Evidence verified for finding'' AE_EVIDENCE_VERIFIED
                   no_fields tx) (\<lambda>tx. Inr (tx, finding_node)))))"

definition stage_rca ::
  "host \<Rightarrow> lifecycle_input \<Rightarrow> lifecycle_tx \<times> string \<Rightarrow> engine_error + lifecycle_tx \<times> string" where
  "stage_rca h li = (\<lambda>(tx, prev_node).
     case li_rca li of
       Some rca \<Rightarrow>
         rbind (add_artifact h (create_rca_node (ho_sha256 h) rca prev_node None) tx) (\<lambda>(tx, rca_node).
         rbind (advance h li RCA_ESTABLISHED ''Root cause analysis established'' AE_RCA_ESTABLISHED
                  no_fields tx) (\<lambda>tx. Inr (tx, rca_node)))
     | None \<Rightarrow>
         rbind (advance h li RCA_ESTABLISHED ''RCA step completed'' AE_RCA_ESTABLISHED no_fields tx)
           (\<lambda>tx. Inr (tx, prev_node)))"

definition stage_propose ::
  "host \<Rightarrow> lifecycle_input \<Rightarrow> lifecycle_tx \<times> string \<Rightarrow>
     engine_error + lifecycle_tx \<times> string \<times> remediation_strategy \<times> patch_proposal" where
  "stage_propose h li = (\<lambda>(tx, prev_node).
     case li_plan li of
       Inl msg \<Rightarrow> Inl (PlanRaised msg)
     | Inr (strategy, proposal) \<Rightarrow>
         rbind (add_artifact h (create_strategy_node (ho_sha256 h) strategy prev_node None) tx) (\<lambda>(tx, strat_node).
         rbind (add_artifact h (create_proposal_node (ho_sha256 h) proposal strat_node None) tx) (\<lambda>(tx, prop_node).
         rbind (advance h li REMEDIATION_PROPOSED ''Patch proposal generated and validated''
                  AE_REMEDIATION_PROPOSED
                  (no_fields\<lparr> af_proposal := Some (pp_proposal_fingerprint proposal) \<rparr>) tx) (\<lambda>tx.
           Inr (tx, prop_node, strategy, proposal)))))"

definition stage_await ::
  "host \<Rightarrow> lifecycle_input \<Rightarrow> world \<Rightarrow> lifecycle_tx \<times> string \<times> remediation_strategy \<times> patch_proposal \<Rightarrow>
     engine_error + lifecycle_tx \<times> string \<times> source_snapshot" where
  "stage_await h li w = (\<lambda>(tx, prop_node, strategy, proposal).
     rbind (advance h li AWAITING_APPROVAL ''Patch proposal awaiting review and approval''
              AE_APPROVAL_GRANTED
              (no_fields\<lparr> af_proposal := Some (pp_proposal_fingerprint proposal),
                         af_metadata := [(''status'', ''AWAITING_APPROVAL'')] \<rparr>) tx) (\<lambda>tx.
     case host_capture h w (pp_target_files proposal) of
       None \<Rightarrow> Inl (SnapshotRaised (capture_message (pp_target_files proposal) h))
     | Some snapshot \<Rightarrow>
         rbind (add_artifact h (create_source_snapshot_node (ho_sha256 h) snapshot prop_node None) tx)
           (\<lambda>(tx, snap_node). Inr (tx, snap_node, snapshot))))"

definition resolve_token ::
  "lifecycle_input \<Rightarrow> patch_proposal \<Rightarrow> source_snapshot \<Rightarrow> engine_error + approval_token option" where
  "resolve_token li proposal snapshot =
     (case li_approval li of
        No_provider \<Rightarrow> Inr None
      | Given_token t \<Rightarrow> Inr (Some t)
      | Callback f \<Rightarrow> map_sum ProviderRaised id (f proposal snapshot))"

definition reject_fields :: "patch_proposal \<Rightarrow> source_snapshot \<Rightarrow> metadata \<Rightarrow> audit_fields" where
  "reject_fields proposal snapshot meta =
     no_fields\<lparr> af_proposal := Some (pp_proposal_fingerprint proposal),
                af_source := Some (ss_aggregate_hash snapshot), af_metadata := meta \<rparr>"

text \<open>A rejection ends the transaction (\<open>Inl\<close> of the inner sum); an approval goes on.\<close>

definition stage_approve ::
  "host \<Rightarrow> lifecycle_input \<Rightarrow> remediation_strategy \<Rightarrow> patch_proposal \<Rightarrow> lifecycle_tx \<times> string \<times> source_snapshot \<Rightarrow>
     engine_error + (lifecycle_result + lifecycle_tx \<times> string \<times> approval_token)" where
  "stage_approve h li strategy proposal = (\<lambda>(tx, snap_node, snapshot).
     rbind (resolve_token li proposal snapshot) (\<lambda>found.
     case found of
       None \<Rightarrow>
         rbind (advance h li REJECTED ''Approval rejected: No approval token provided'' AE_APPROVAL_GRANTED
                  (reject_fields proposal snapshot [(''status'', ''REJECTED''), (''reason'', ''NO_TOKEN'')]) tx)
           (\<lambda>tx. Inr (Inl (finish h li tx strategy proposal None snapshot None None
                         (Some ''Approval token missing or rejected.''))))
     | Some token \<Rightarrow>
         rbind (map_sum TokenRaised id
                  (verify_valid (ho_sha256 h) (ho_fromisoformat h) (ho_clock h) token
                     (fi_finding_id (li_finding li)) (pp_proposal_fingerprint proposal)
                     (ss_aggregate_hash snapshot) (path_str (ho_root h)) (Some (ho_now_iso h)))) (\<lambda>verdict.
           if verdict \<noteq> TOKEN_VALID
           then
             let val_err = token_message token (fi_finding_id (li_finding li)) (path_str (ho_root h)) verdict in
             rbind (advance h li REJECTED (''Approval token validation failed: '' @ val_err) AE_APPROVAL_GRANTED
                      (reject_fields proposal snapshot [(''status'', ''REJECTED''), (''reason'', val_err)]) tx)
               (\<lambda>tx. Inr (Inl (finish h li tx strategy proposal (Some token) snapshot None None
                             (Some (''Approval token invalid: '' @ val_err)))))
           else
             rbind (add_artifact h (create_approval_token_node (ho_sha256 h) token snap_node None) tx)
               (\<lambda>(tx, tok_node).
             rbind (advance h li APPROVED (''Patch proposal approved by '' @ tk_approved_by token)
                      AE_APPROVAL_GRANTED
                      (reject_fields proposal snapshot
                         [(''status'', ''APPROVED''), (''approver'', tk_approved_by token)]) tx) (\<lambda>tx.
               Inr (Inr (tx, tok_node, token)))))))"

section \<open>Stages 4 to 6\<close>

definition stage_prepare ::
  "host \<Rightarrow> lifecycle_input \<Rightarrow> patch_proposal \<Rightarrow> source_snapshot \<Rightarrow> lifecycle_tx \<Rightarrow> engine_error + lifecycle_tx" where
  "stage_prepare h li proposal snapshot tx =
     rbind (advance h li SNAPSHOT_VERIFIED ''Pre-apply snapshot verified'' AE_SNAPSHOT_CAPTURED
              (reject_fields proposal snapshot []) tx)
       (advance h li APPLYING ''Executing controlled patch application'' AE_PATCH_APPLIED
          (reject_fields proposal snapshot [(''status'', ''APPLYING'')]))"

definition transaction_input_of :: "lifecycle_input \<Rightarrow> transaction_input" where
  "transaction_input_of li =
     \<lparr> ti_transaction_id = li_transaction_id li, ti_audit_id = li_audit_id li,
       ti_verification_id = li_verification_id li,
       ti_rescan = (case li_rescan li of Some s \<Rightarrow> s | None \<Rightarrow> Inr []),
       ti_business_tests = li_business_tests li \<rparr>"

text \<open>The verification's node, when there is one.\<close>

definition add_verification ::
  "host \<Rightarrow> patch_proposal \<Rightarrow> application_result \<Rightarrow> verification_result option \<Rightarrow> string \<Rightarrow> lifecycle_tx \<Rightarrow>
     engine_error + lifecycle_tx" where
  "add_verification h proposal app_res ver_res app_node tx =
     (case ver_res of
        None \<Rightarrow> Inr tx
      | Some v \<Rightarrow>
          map_sum id fst (add_artifact h
            (create_verification_node (ho_sha256 h) v app_node (pp_proposal_fingerprint proposal)
               (ar_pre_apply_snapshot_hash app_res) (ar_post_apply_snapshot_hash app_res)
               (verification_fingerprint (ho_sha256 h) v) None) tx))"

definition str_option :: "string option \<Rightarrow> string" where
  "str_option s = (case s of None \<Rightarrow> ''None'' | Some x \<Rightarrow> x)"

definition apply_fields :: "patch_proposal \<Rightarrow> application_result \<Rightarrow> audit_fields" where
  "apply_fields proposal app_res =
     no_fields\<lparr> af_proposal := Some (pp_proposal_fingerprint proposal),
                af_source := Some (ar_pre_apply_snapshot_hash app_res) \<rparr>"

definition post_fields :: "patch_proposal \<Rightarrow> application_result \<Rightarrow> audit_fields" where
  "post_fields proposal app_res =
     (apply_fields proposal app_res)\<lparr> af_post := Some (ar_post_apply_snapshot_hash app_res) \<rparr>"

definition stage_apply_failed ::
  "host \<Rightarrow> lifecycle_input \<Rightarrow> patch_proposal \<Rightarrow> application_result \<Rightarrow> verification_result option \<Rightarrow> string \<Rightarrow>
     lifecycle_tx \<Rightarrow> engine_error + lifecycle_tx" where
  "stage_apply_failed h li proposal app_res ver_res app_node tx =
     rbind (add_verification h proposal app_res ver_res app_node tx) (\<lambda>tx.
     rbind (advance h li APPLY_FAILED (''Patch application failed: '' @ str_option (ar_failure_reason app_res))
              AE_ROLLBACK_STARTED (apply_fields proposal app_res) tx) (\<lambda>tx.
       let target_terminal = (if ar_rollback_status app_res = ''CRITICAL_FAILURE''
                              then CRITICAL_RECOVERY_FAILURE else ROLLED_BACK)
       in advance h li target_terminal
            (''Rollback completed: '' @ str_option (ar_failure_reason app_res))
            (if target_terminal = CRITICAL_RECOVERY_FAILURE then AE_CRITICAL_RECOVERY_FAILURE
             else AE_ROLLBACK_COMPLETED)
            (apply_fields proposal app_res) tx))"

definition stage_applied ::
  "host \<Rightarrow> lifecycle_input \<Rightarrow> patch_proposal \<Rightarrow> application_result \<Rightarrow> verification_result option \<Rightarrow> string \<Rightarrow>
     lifecycle_tx \<Rightarrow> engine_error + lifecycle_tx" where
  "stage_applied h li proposal app_res ver_res app_node tx =
     rbind (advance h li APPLIED_UNVERIFIED ''Patch applied successfully; awaiting verification''
              AE_PATCH_APPLIED
              ((post_fields proposal app_res)\<lparr> af_metadata := [(''status'', ''APPLIED_UNVERIFIED'')] \<rparr>) tx) (\<lambda>tx.
     rbind (advance h li SECURITY_RESCAN ''Executing post-apply security rescan'' AE_VERIFICATION_STARTED
              (post_fields proposal app_res) tx)
       (add_verification h proposal app_res ver_res app_node))"

definition verified_fields ::
  "host \<Rightarrow> patch_proposal \<Rightarrow> application_result \<Rightarrow> verification_result option \<Rightarrow> audit_fields" where
  "verified_fields h proposal app_res ver_res =
     (post_fields proposal app_res)\<lparr> af_run := map_option vr_verification_id ver_res,
        af_verification := map_option (verification_fingerprint (ho_sha256 h)) ver_res \<rparr>"

definition stage_verified ::
  "host \<Rightarrow> lifecycle_input \<Rightarrow> patch_proposal \<Rightarrow> application_result \<Rightarrow> verification_result \<Rightarrow> lifecycle_tx \<Rightarrow>
     engine_error + lifecycle_tx" where
  "stage_verified h li proposal app_res v tx =
     (case rbind (contract_from_result v (pp_proposal_fingerprint proposal)
                    (ar_pre_apply_snapshot_hash app_res) (ar_post_apply_snapshot_hash app_res)
                    (verification_fingerprint (ho_sha256 h) v) DETERMINISTIC_SAST)
             (\<lambda>c. transition_verified_fixed (ho_sha256 h) (ho_now_iso h) (tx_machine tx) c (li_actor li)
                ''Deterministic SAST rescan confirmed vulnerability fix'' (Some (ho_now_iso h)) None) of
        Inl e \<Rightarrow> Inl (MachineRaised e)
      | Inr sm \<Rightarrow> append_audit h li AE_VERIFIED_FIXED (verified_fields h proposal app_res (Some v))
                   (tx\<lparr> tx_machine := sm \<rparr>))"

definition stage_not_verified ::
  "host \<Rightarrow> lifecycle_input \<Rightarrow> patch_proposal \<Rightarrow> application_result \<Rightarrow> verification_result option \<Rightarrow> lifecycle_tx \<Rightarrow>
     engine_error + lifecycle_tx \<times> lifecycle_state" where
  "stage_not_verified h li proposal app_res ver_res tx =
     (let unknown = (map_option vr_status ver_res \<in> {None, Some VS_UNKNOWN});
          failed_state = (if unknown then UNKNOWN else STILL_VULNERABLE);
          ev_type = (if unknown then AE_CRITICAL_RECOVERY_FAILURE else AE_STILL_VULNERABLE)
      in rbind (advance h li failed_state
                  (''Security verification failed: '' @
                     (case ver_res of Some v \<Rightarrow> vr_details v | None \<Rightarrow> ''No verification result''))
                  ev_type (verified_fields h proposal app_res ver_res) tx) (\<lambda>tx.
         rbind (advance h li ROLLED_BACK ''Atomic rollback executed following verification failure''
                  AE_ROLLBACK_COMPLETED (apply_fields proposal app_res) tx) (\<lambda>tx.
           Inr (tx, failed_state))))"

definition stage_conclude ::
  "host \<Rightarrow> lifecycle_input \<Rightarrow> remediation_strategy \<Rightarrow> patch_proposal \<Rightarrow> source_snapshot \<Rightarrow> string \<Rightarrow>
     transaction_output \<Rightarrow> lifecycle_tx \<Rightarrow> engine_error + lifecycle_result" where
  "stage_conclude h li strategy proposal snapshot tok_node = (\<lambda>(app_res, ver_res, updated, recs) tx.
     rbind (add_artifact h (create_application_node (ho_sha256 h) app_res [tok_node] None) tx) (\<lambda>(tx, app_node).
     if ar_status app_res \<noteq> AS_APPLIED
     then rbind (stage_apply_failed h li proposal app_res ver_res app_node tx) (\<lambda>tx.
            Inr (finish h li tx strategy proposal (Some updated) snapshot (Some app_res) ver_res
              (Some (''Application failed: '' @ str_option (ar_failure_reason app_res)))))
     else
       rbind (stage_applied h li proposal app_res ver_res app_node tx) (\<lambda>tx.
       if map_option vr_status ver_res = Some VS_VERIFIED_FIXED
       then rbind (stage_verified h li proposal app_res (the ver_res) tx) (\<lambda>tx.
              Inr (finish h li tx strategy proposal (Some updated) snapshot (Some app_res) ver_res None))
       else rbind (stage_not_verified h li proposal app_res ver_res tx) (\<lambda>(tx, failed_state).
              Inr (finish h li tx strategy proposal (Some updated) snapshot (Some app_res) ver_res
                (Some (''Verification failed with state '' @ quoted (state_value failed_state))))))))"

definition engine_execute ::
  "host \<Rightarrow> lifecycle_input \<Rightarrow> world \<Rightarrow> world \<times> (engine_error + lifecycle_result)" where
  "engine_execute h li w =
     (case rbind (stage_detect h li) (\<lambda>s. rbind (stage_rca h li s) (stage_propose h li)) of
        Inl e \<Rightarrow> (w, Inl e)
      | Inr (tx, prop_node, strategy, proposal) \<Rightarrow>
     (case stage_await h li w (tx, prop_node, strategy, proposal) of
        Inl e \<Rightarrow> (w, Inl e)
      | Inr (tx, snap_node, snapshot) \<Rightarrow>
     (case stage_approve h li strategy proposal (tx, snap_node, snapshot) of
        Inl e \<Rightarrow> (w, Inl e)
      | Inr (Inl result) \<Rightarrow> (w, Inr result)
      | Inr (Inr (tx, tok_node, token)) \<Rightarrow>
     (case stage_prepare h li proposal snapshot tx of
        Inl e \<Rightarrow> (w, Inl e)
      | Inr tx \<Rightarrow>
     (case execute_transaction h w (transaction_input_of li) proposal token (li_finding li) None of
        (w', Inl e) \<Rightarrow> (w', Inl (TransactionRaised e))
      | (w', Inr out) \<Rightarrow> (w', stage_conclude h li strategy proposal snapshot tok_node out tx))))))"

end
