(* ===== verification/LifecycleRuns.thy ===== *)
theory LifecycleRuns
  imports LifecycleEngine
begin

text \<open>
  What a run of the lifecycle engine guarantees. Each operation of the engine keeps the
  transaction's invariant (a chained history, a valid ledger that mirrors it, an intact graph);
  the stages compose these facts in weakest-precondition style, and the whole transaction ends
  rejected or concluded, or raises one of the exceptions that come from outside.
\<close>


section \<open>Outcomes\<close>

text \<open>What holds of the value returned, and of the exception raised.\<close>

definition outcome :: "('e \<Rightarrow> bool) \<Rightarrow> ('a \<Rightarrow> bool) \<Rightarrow> 'e + 'a \<Rightarrow> bool" where
  "outcome E P r = (case r of Inl e \<Rightarrow> E e | Inr a \<Rightarrow> P a)"

lemma outcome_simps [simp]: "outcome E P (Inl e) = E e" "outcome E P (Inr a) = P a"
  by (simp_all add: outcome_def)

lemma outcome_rbind:
  "outcome E P r \<Longrightarrow> (\<And>a. P a \<Longrightarrow> outcome E Q (f a)) \<Longrightarrow> outcome E Q (rbind r f)"
  by (cases r) auto

lemma outcome_mono: "outcome E P r \<Longrightarrow> (\<And>a. P a \<Longrightarrow> Q a) \<Longrightarrow> outcome E Q r"
  by (cases r) auto

lemma outcome_map: "outcome (E \<circ> f) (P \<circ> g) r \<Longrightarrow> outcome E P (map_sum f g r)"
  by (cases r) auto

lemma map_sum_Inr_iff [simp]: "map_sum f g r = Inr b \<longleftrightarrow> (\<exists>a. r = Inr a \<and> b = g a)"
  by (cases r) auto

text \<open>The check of the token against what is about to be applied.\<close>

definition engine_verdict ::
  "host \<Rightarrow> lifecycle_input \<Rightarrow> patch_proposal \<Rightarrow> source_snapshot \<Rightarrow> approval_token \<Rightarrow> approval_error + token_verdict" where
  "engine_verdict h li p snap t =
     verify_valid (ho_sha256 h) (ho_fromisoformat h) (ho_clock h) t (fi_finding_id (li_finding li))
       (pp_proposal_fingerprint p) (ss_aggregate_hash snap) (path_str (ho_root h)) (Some (ho_now_iso h))"

definition engine_contract ::
  "host \<Rightarrow> patch_proposal \<Rightarrow> application_result \<Rightarrow> verification_result \<Rightarrow> lifecycle_error + evidence_contract" where
  "engine_contract h p a v = contract_from_result v (pp_proposal_fingerprint p) (ar_pre_apply_snapshot_hash a)
     (ar_post_apply_snapshot_hash a) (verification_fingerprint (ho_sha256 h) v) DETERMINISTIC_SAST"

text \<open>
  What explains an exception of the engine: a finding without an identifier, an exception of the
  object it called, or a collision of the digest, on which the ledger refuses an event. A refused
  transition and an error of the graph have no explanation.
\<close>

fun explained :: "host \<Rightarrow> lifecycle_input \<Rightarrow> world \<Rightarrow> engine_error \<Rightarrow> bool" where
  "explained h li w (MachineRaised e) \<longleftrightarrow> e = LifecycleValueError \<and>
     (blank (fi_finding_id (li_finding li)) \<or>
      (\<exists>st p snap t w' a v t' recs. li_plan li = Inr (st, p) \<and>
         host_capture h w (pp_target_files p) = Some snap \<and> resolve_token li p snap = Inr (Some t) \<and>
         execute_transaction h w (transaction_input_of li) p t (li_finding li) None =
           (w', Inr (a, Some v, t', recs)) \<and> engine_contract h p a v = Inl e))"
| "explained h li w (AuditRaised e) \<longleftrightarrow> (\<exists>x y. collides (ho_sha256 h) x y)"
| "explained h li w (GraphRaised e) \<longleftrightarrow> False"
| "explained h li w (PlanRaised m) \<longleftrightarrow> li_plan li = Inl m"
| "explained h li w (SnapshotRaised m) \<longleftrightarrow>
     (\<exists>st p. li_plan li = Inr (st, p) \<and> host_capture h w (pp_target_files p) = None)"
| "explained h li w (ProviderRaised m) \<longleftrightarrow>
     (\<exists>st p snap. li_plan li = Inr (st, p) \<and> host_capture h w (pp_target_files p) = Some snap \<and>
        resolve_token li p snap = Inl (ProviderRaised m))"
| "explained h li w (TokenRaised e) \<longleftrightarrow>
     (\<exists>st p snap t. li_plan li = Inr (st, p) \<and> host_capture h w (pp_target_files p) = Some snap \<and>
        resolve_token li p snap = Inr (Some t) \<and> engine_verdict h li p snap t = Inl e)"
| "explained h li w (TransactionRaised e) \<longleftrightarrow>
     (\<exists>st p snap t w'. li_plan li = Inr (st, p) \<and>
        host_capture h w (pp_target_files p) = Some snap \<and> resolve_token li p snap = Inr (Some t) \<and>
        execute_transaction h w (transaction_input_of li) p t (li_finding li) None = (w', Inl e))"

section \<open>The transaction's invariant\<close>

definition numbered :: "ledger \<Rightarrow> bool" where
  "numbered l \<longleftrightarrow> (\<forall>i<length l. \<exists>x. ae_event_id (l ! i) = ''aud_evt_'' @ str_nat (i + 1) @ ''_'' @ x)"

definition tx_at ::
  "host \<Rightarrow> lifecycle_input \<Rightarrow> lifecycle_state list \<Rightarrow> lifecycle_state list \<Rightarrow> string set \<Rightarrow> lifecycle_tx \<Rightarrow> bool" where
  "tx_at h li ss ls N tx \<longleftrightarrow>
     machine_ok (ho_sha256 h) DETECTED (tx_machine tx) \<and>
     lm_finding_id (tx_machine tx) = fi_finding_id (li_finding li) \<and>
     \<not> blank (fi_finding_id (li_finding li)) \<and>
     map le_new_state (lm_history (tx_machine tx)) = ss \<and> ledger_ok (ho_sha256 h) (tx_ledger tx) \<and>
     numbered (tx_ledger tx) \<and> map ae_lifecycle_state (tx_ledger tx) = map state_value ls \<and>
     graph_ok (ho_sha256 h) (tx_graph tx) \<and> node_ids (tx_graph tx) \<subseteq> N"

lemma tx_at_current:
  assumes "tx_at h li ss ls N tx"
  shows "lm_current_state (tx_machine tx) = last ss"
proof -
  from assms obtain ev evs where "lm_history (tx_machine tx) = ev # evs" "le_new_state ev = DETECTED"
    "lm_current_state (tx_machine tx) = last_state DETECTED evs"
    by (auto simp: tx_at_def machine_ok_def)
  moreover from this assms have "ss = DETECTED # map le_new_state evs" by (auto simp: tx_at_def)
  ultimately show ?thesis by (auto simp: last_state_def last_map)
qed

lemma blank_prefix: "\<not> py_space c \<Longrightarrow> \<not> blank (c # s)"
proof -
  assume a: "\<not> py_space c"
  have "dropWhile py_space (rev s @ [c]) \<noteq> []" using a by (simp add: dropWhile_eq_Nil_conv)
  with a show ?thesis by (simp add: blank_def py_strip_def)
qed

lemma not_blank_a [simp]: "\<not> blank (CHR ''a'' # s)"
  by (rule blank_prefix) (simp add: py_space_def)

lemma not_blank_p [simp]: "\<not> blank (CHR ''p'' # s)"
  by (rule blank_prefix) (simp add: py_space_def)

lemma numbered_fresh:
  assumes "numbered l"
  shows "''aud_evt_'' @ str_nat (length l + 1) @ ''_'' @ x \<notin> ae_event_id ` set l"
proof
  assume "''aud_evt_'' @ str_nat (length l + 1) @ ''_'' @ x \<in> ae_event_id ` set l"
  then obtain e where e: "e \<in> set l" "ae_event_id e = ''aud_evt_'' @ str_nat (length l + 1) @ ''_'' @ x"
    by (auto simp: image_iff)
  then obtain i where i: "i < length l" "l ! i = e" by (auto simp: in_set_conv_nth)
  with assms obtain y where "ae_event_id e = ''aud_evt_'' @ str_nat (i + 1) @ ''_'' @ y"
    unfolding numbered_def by blast
  with e(2) have eq: "str_nat (length l + 1) @ CHR ''_'' # x = str_nat (i + 1) @ CHR ''_'' # y"
    by (metis append_Cons append_Nil same_append_eq)
  have nd: "CHR ''_'' \<notin> set (str_nat n)" for n by (rule not_digit_str_nat) simp
  have "str_nat (length l + 1) = str_nat (i + 1)" using split_at_first [OF nd nd eq] by blast
  then have "length l + 1 = i + 1" by (rule str_nat_inj)
  with i(1) show False by simp
qed

text \<open>The preimage starts with the event's number, so events of different numbers differ in it.\<close>

lemma numbered_preimage:
  assumes "numbered l" "f \<in> set l" "ae_event_id e = ''aud_evt_'' @ str_nat (length l + 1) @ ''_'' @ x"
  shows "event_preimage f \<noteq> event_preimage e"
proof
  assume eq: "event_preimage f = event_preimage e"
  have pre: "\<exists>y. event_preimage g = ae_event_id g @ CHR ''|'' # y" for g
    by (simp add: event_preimage_def)
  obtain i where i: "i < length l" "l ! i = f" using assms(2) by (auto simp: in_set_conv_nth)
  with assms(1) obtain z where "ae_event_id f = ''aud_evt_'' @ str_nat (i + 1) @ ''_'' @ z"
    unfolding numbered_def by blast
  with pre [of f] obtain a where "event_preimage f = ''aud_evt_'' @ str_nat (i + 1) @ CHR ''_'' # a" by auto
  moreover from pre [of e] assms(3) obtain b where
    "event_preimage e = ''aud_evt_'' @ str_nat (length l + 1) @ CHR ''_'' # b" by auto
  ultimately have eq: "str_nat (i + 1) @ CHR ''_'' # a = str_nat (length l + 1) @ CHR ''_'' # b"
    using eq by simp
  have nd: "CHR ''_'' \<notin> set (str_nat n)" for n by (rule not_digit_str_nat) simp
  have "str_nat (i + 1) = str_nat (length l + 1)" using split_at_first [OF nd nd eq] by blast
  then have "i + 1 = length l + 1" by (rule str_nat_inj)
  with i(1) show False by simp
qed

lemma numbered_snoc:
  "numbered l \<Longrightarrow> ae_event_id e = ''aud_evt_'' @ str_nat (length l + 1) @ ''_'' @ x \<Longrightarrow> numbered (l @ [e])"
  by (auto simp: numbered_def nth_append less_Suc_eq)

definition public_keys :: "string list" where
  "public_keys = [''rule_id'', ''file_path'', ''status'', ''reason'', ''approver'']"

lemma public_key_ok: "k \<in> set public_keys \<Longrightarrow> \<not> sensitive_key k \<and> py_strip k = k"
proof -
  have "list_all (\<lambda>k. \<not> sensitive_key k \<and> py_strip k = k) public_keys" by code_simp
  then show "k \<in> set public_keys \<Longrightarrow> \<not> sensitive_key k \<and> py_strip k = k" by (auto simp: list_all_iff)
qed

lemma public_meta_sanitized:
  assumes "fst ` set m \<subseteq> set public_keys"
  shows "\<exists>m'. sanitize_metadata m = Inr m' \<and> private_meta m'"
proof -
  have "\<not> list_ex (\<lambda>(k, v). sensitive_key k) m" using assms public_key_ok by (fastforce simp: list_ex_iff)
  moreover have "private_meta (sort (map (\<lambda>(k, v). (py_strip k, py_strip v)) m))"
    using assms public_key_ok by (fastforce simp: private_meta_def)
  ultimately show ?thesis by (simp add: sanitize_metadata_def)
qed


section \<open>The engine's three operations\<close>

text \<open>An audit event records the machine's state; it is refused only when the digest collides.\<close>

lemma append_audit_out:
  assumes at: "tx_at h li ss ls N tx" and pub: "fst ` set (af_metadata a) \<subseteq> set public_keys"
  shows "outcome (explained h li w) (tx_at h li ss (ls @ [last ss]) N) (append_audit h li ty a tx)"
proof -
  let ?l = "tx_ledger tx" and ?d = "ho_sha256 h"
  obtain args where args: "append_audit h li ty a tx =
      map_sum AuditRaised (\<lambda>l. tx\<lparr> tx_ledger := l \<rparr>) (rbind (create_event ?d args) (append_event ?d ?l))"
    "ae_event_id args = ''aud_evt_'' @ str_nat (length ?l + 1) @ ''_'' @ event_type_value ty"
    "ae_finding_id args = fi_finding_id (li_finding li)"
    "ae_lifecycle_state args = state_value (last ss)" "ae_metadata args = af_metadata a"
    "ae_predecessor_event_id args = map_option ae_event_id (latest_event ?l)"
    "ae_predecessor_event_fingerprint args = map_option ae_event_fingerprint (latest_event ?l)"
    using tx_at_current [OF at] unfolding append_audit_def Let_def by force
  from public_meta_sanitized [OF pub] obtain m where m: "sanitize_metadata (ae_metadata args) = Inr m"
    "private_meta m" using args(5) by metis
  define e where "e = args\<lparr> ae_metadata := m,
    ae_event_fingerprint := compute_event_fingerprint ?d (args\<lparr> ae_metadata := m \<rparr>) \<rparr>"
  have fp: "ae_event_fingerprint e = compute_event_fingerprint ?d e"
    by (simp add: e_def compute_event_fingerprint_def event_preimage_def)
  have "event_valid ?d e"
    using at m(2) args(2,3) fp by (simp add: event_valid_def e_def tx_at_def)
  then have c: "create_event ?d args = Inr e" using m(1) by (simp add: create_event_cases e_def)
  have ok: "ledger_ok ?d ?l" "numbered ?l" using at by (auto simp: tx_at_def)
  have id: "ae_event_id e \<notin> ae_event_id ` set ?l"
    using numbered_fresh [OF ok(2)] args(2) by (simp add: e_def)
  show ?thesis
  proof (cases "ae_event_fingerprint e \<in> ae_event_fingerprint ` set ?l")
    case True
    then obtain f where f: "f \<in> set ?l" "ae_event_fingerprint f = ae_event_fingerprint e" by auto
    have "compute_event_fingerprint ?d f = compute_event_fingerprint ?d e"
      using f fp validate_from_member [of ?d "{}" "{}" None ?l f] ok(1) by (simp add: ledger_ok_def)
    moreover have "event_preimage f \<noteq> event_preimage e"
      using numbered_preimage [OF ok(2) f(1)] args(2) by (simp add: e_def)
    ultimately have "\<exists>x y. collides ?d x y"
      unfolding collides_def compute_event_fingerprint_def by blast
    moreover have "append_event ?d ?l e = Inl AuditValueError" using True id by (simp add: append_event_def)
    ultimately show ?thesis by (simp add: args(1) c)
  next
    case False
    have "append_event ?d ?l e = Inr (?l @ [e])"
      unfolding append_event_iff [OF ok(1)] using False id fp args(6,7) by (simp add: e_def)
    moreover from this have "ledger_ok ?d (?l @ [e])" using append_event_ok by blast
    moreover have "numbered (?l @ [e])"
      using ok(2) args(2) by (intro numbered_snoc) (simp_all add: e_def)
    moreover have "ae_lifecycle_state e = state_value (last ss)" using args(4) by (simp add: e_def)
    ultimately show ?thesis using at by (simp add: args(1) c tx_at_def)
  qed
qed

lemma advance_out:
  assumes at: "tx_at h li ss ss N tx" and t: "t \<noteq> VERIFIED_FIXED" "lifecycle_allowed (last ss) t"
    and pub: "fst ` set (af_metadata a) \<subseteq> set public_keys"
  shows "outcome (explained h li w) (tx_at h li (ss @ [t]) (ss @ [t]) N) (advance h li t reason ty a tx)"
proof -
  let ?call = "Transition t (li_actor li) reason [] (Some (ho_now_iso h)) None"
  let ?r = "transition (ho_sha256 h) (ho_now_iso h) (tx_machine tx) t (li_actor li) reason []
              (Some (ho_now_iso h)) None"
  obtain sm where sm: "?r = Inr sm" "lm_history sm = lm_history (tx_machine tx) @
      [lifecycle_event_of (ho_sha256 h) (ho_now_iso h) (lm_finding_id (tx_machine tx))
         (lm_current_state (tx_machine tx)) (state_value (lm_current_state (tx_machine tx))) t (li_actor li)
         (transition_reason reason t) [] (Some (ho_now_iso h)) None]"
    using tx_at_current [OF at] t by (auto simp: transition_def can_transition_def lifecycle_allowed_def)
  have "lifecycle_step (ho_sha256 h) (ho_now_iso h) ?call (tx_machine tx) = Inr sm" using sm(1) by simp
  from lifecycle_step_ok [OF _ this, of DETECTED] at
  have "machine_ok (ho_sha256 h) DETECTED sm" "lm_finding_id sm = fi_finding_id (li_finding li)"
    by (auto simp: tx_at_def)
  with at sm(2) have "tx_at h li (ss @ [t]) ss N (tx\<lparr> tx_machine := sm \<rparr>)" by (simp add: tx_at_def)
  from append_audit_out [OF this pub] show ?thesis by (simp add: advance_def sm(1))
qed

text \<open>A factory's node with a new identifier and a known predecessor is added.\<close>

lemma add_artifact_out:
  assumes at: "tx_at h li ss ls N tx" and node: "node = factory_node (ho_sha256 h) i ty ps meta"
    and i: "\<not> blank i" "i \<notin> N" "i \<notin> set ps" and ps: "set ps \<subseteq> node_ids (tx_graph tx)"
  shows "outcome (explained h li w)
    (\<lambda>(tx', j). tx_at h li ss ls (insert i N) tx' \<and> j = i \<and> i \<in> node_ids (tx_graph tx') \<and>
       tx_machine tx' = tx_machine tx \<and> tx_ledger tx' = tx_ledger tx)
    (add_artifact h node tx)"
proof -
  have "\<exists>n. node = Inr n" using i(1) by (auto simp: node factory_node_def make_node_def fingerprint_of_def)
  then obtain n where n: "node = Inr n" by blast
  note nf = factory_node_ok [OF n [unfolded node]]
  have g: "graph_ok (ho_sha256 h) (tx_graph tx)" "node_ids (tx_graph tx) \<subseteq> N"
    using at by (auto simp: tx_at_def)
  have "add_node (ho_sha256 h) (tx_graph tx) n = Inr (tx_graph tx @ [n])"
    unfolding add_node_iff [OF g(1)] using g(2) nf i ps by (auto simp: node_ok_def)
  moreover from this have "graph_ok (ho_sha256 h) (tx_graph tx @ [n])" using add_node_ok by blast
  moreover have "node_ids (tx_graph tx @ [n]) = insert i (node_ids (tx_graph tx))"
    using nf(1) by (auto simp: node_ids_def)
  ultimately show ?thesis using at nf(1) g(2) by (auto simp: add_artifact_def n tx_at_def)
qed


section \<open>The stages\<close>

text \<open>
  The artifacts come in a fixed order, each with its own prefix of identifiers, so that none of
  them can meet one that is already in the graph.
\<close>

definition node_prefixes :: "string list" where
  "node_prefixes = [ ''prov_finding_'', ''prov_rca_'', ''prov_strat_'', ''prov_prop_'', ''prov_snap_'',
     ''prov_tok_'', ''prov_app_'', ''prov_ver_'' ]"

definition free_from :: "nat \<Rightarrow> string set \<Rightarrow> bool" where
  "free_from k N \<longleftrightarrow> (\<forall>p\<in>set (drop k node_prefixes). \<forall>s. p @ s \<notin> N)"

lemma free_from_insert:
  assumes "free_from k N" "k \<le> m" "m < 8"
  shows "node_prefixes ! m @ s \<notin> N" "free_from (Suc m) (insert (node_prefixes ! m @ s) N)"
proof -
  have "node_prefixes ! m \<in> set (drop k node_prefixes)"
    using assms(2,3) by (auto simp: in_set_conv_nth node_prefixes_def intro!: exI [of _ "m - k"])
  with assms(1) show "node_prefixes ! m @ s \<notin> N" by (auto simp: free_from_def)
  have "set (drop (Suc m) node_prefixes) \<subseteq> set (drop k node_prefixes)"
    using assms(2) by (simp add: set_drop_subset_set_drop)
  moreover have "\<forall>p\<in>set (drop (Suc m) node_prefixes). \<forall>t. p @ t \<noteq> node_prefixes ! m @ s"
    using assms(3) by (auto simp: node_prefixes_def less_Suc_eq numeral_eq_Suc)
  ultimately show "free_from (Suc m) (insert (node_prefixes ! m @ s) N)"
    using assms(1) unfolding free_from_def by blast
qed

text \<open>The invariant between two operations, with the node the next artifact succeeds.\<close>

definition at_node ::
  "host \<Rightarrow> lifecycle_input \<Rightarrow> lifecycle_state list \<Rightarrow> nat \<Rightarrow> string \<Rightarrow> lifecycle_tx \<Rightarrow> bool" where
  "at_node h li ss k i tx \<longleftrightarrow> (\<exists>N. tx_at h li ss ss N tx \<and> free_from k N) \<and> i \<in> node_ids (tx_graph tx)"

lemma at_node_later: "at_node h li ss k i tx \<Longrightarrow> k \<le> m \<Longrightarrow> at_node h li ss m i tx"
  using set_drop_subset_set_drop [of k m node_prefixes] unfolding at_node_def free_from_def by blast

lemma append_audit_graph: "append_audit h li ty a tx = Inr tx' \<Longrightarrow> tx_graph tx' = tx_graph tx"
  by (auto simp: append_audit_def Let_def)

lemma advance_graph: "advance h li t reason ty a tx = Inr tx' \<Longrightarrow> tx_graph tx' = tx_graph tx"
  by (auto simp: advance_def dest!: append_audit_graph split: sum.splits)

abbreviation (input) engine_outcome :: "host \<Rightarrow> lifecycle_input \<Rightarrow> world \<Rightarrow> ('a \<Rightarrow> bool) \<Rightarrow> engine_error + 'a \<Rightarrow> bool" where
  "engine_outcome h li w \<equiv> outcome (explained h li w)"

lemma audit_wp:
  assumes "tx_at h li ss ls N tx" "free_from k N" "i \<in> node_ids (tx_graph tx)"
    "fst ` set (af_metadata a) \<subseteq> set public_keys"
    "ls @ [last ss] = ss" "\<And>tx'. at_node h li ss k i tx' \<Longrightarrow> engine_outcome h li w Q (f tx')"
  shows "engine_outcome h li w Q (rbind (append_audit h li ty a tx) f)"
proof (rule outcome_rbind)
  show "engine_outcome h li w (at_node h li ss k i) (append_audit h li ty a tx)"
    using append_audit_out [OF assms(1,4), where w = w and ty = ty] append_audit_graph assms(2,3,5)
    by (cases "append_audit h li ty a tx") (auto simp: at_node_def)
qed (rule assms(6))

lemma advance_wp:
  assumes "at_node h li ss k i tx" "t \<noteq> VERIFIED_FIXED" "lifecycle_allowed (last ss) t"
    "fst ` set (af_metadata a) \<subseteq> set public_keys"
    "\<And>tx'. at_node h li (ss @ [t]) k i tx' \<Longrightarrow> engine_outcome h li w Q (f tx')"
  shows "engine_outcome h li w Q (rbind (advance h li t reason ty a tx) f)"
proof (rule outcome_rbind)
  obtain N where "tx_at h li ss ss N tx" "free_from k N" "i \<in> node_ids (tx_graph tx)"
    using assms(1) by (auto simp: at_node_def)
  with advance_out [OF this(1) assms(2-4), where w = w and reason = reason and ty = ty] advance_graph
  show "engine_outcome h li w (at_node h li (ss @ [t]) k i) (advance h li t reason ty a tx)"
    by (cases "advance h li t reason ty a tx") (auto simp: at_node_def)
qed (rule assms(5))

lemma artifact_wp:
  assumes "at_node h li ss k i tx" "node = factory_node (ho_sha256 h) j ty [i] meta"
    "j = node_prefixes ! m @ s" "k \<le> m" "m < 8"
    "\<And>tx'. at_node h li ss (Suc m) j tx' \<Longrightarrow> engine_outcome h li w Q (f (tx', j))"
  shows "engine_outcome h li w Q (rbind (add_artifact h node tx) f)"
proof (rule outcome_rbind)
  obtain N where at: "tx_at h li ss ss N tx" "free_from k N" and i: "i \<in> node_ids (tx_graph tx)"
    using assms(1) by (auto simp: at_node_def)
  note fr = free_from_insert [OF at(2) assms(4,5), of s, folded assms(3)]
  have "j \<noteq> i" using at(1) i fr(1) by (auto simp: tx_at_def)
  moreover have "\<not> blank j"
    using assms(3,5) by (auto simp: node_prefixes_def less_Suc_eq numeral_eq_Suc)
  ultimately show "engine_outcome h li w (\<lambda>(tx', k). k = j \<and> at_node h li ss (Suc m) j tx') (add_artifact h node tx)"
    using i fr by (intro outcome_mono [OF add_artifact_out [OF at(1) assms(2)]]) (auto simp: at_node_def)
qed (use assms(6) in auto)

lemmas stage_simps = lifecycle_allowed_def public_keys_def no_fields_def opt_or_def node_prefixes_def

lemma stage_detect_out:
  "engine_outcome h li w (\<lambda>(tx, i). at_node h li [DETECTED, EVIDENCE_VERIFIED] 1 i tx) (stage_detect h li)"
proof (cases "blank (fi_finding_id (li_finding li))")
  case True
  then show ?thesis by (simp add: stage_detect_def new_machine_def)
next
  case False
  then obtain sm where sm: "new_machine (ho_sha256 h) (ho_now_iso h) (fi_finding_id (li_finding li)) DETECTED
      (li_actor li) (Some (ho_now_iso h)) None = Inr sm" "map le_new_state (lm_history sm) = [DETECTED]"
    "lm_finding_id sm = fi_finding_id (li_finding li)"
    by (auto simp: new_machine_def)
  let ?tx = "\<lparr> tx_machine = sm, tx_graph = [], tx_ledger = [] \<rparr>"
  let ?N = "{''prov_finding_'' @ fi_finding_id (li_finding li)}"
  have at: "tx_at h li [DETECTED] [] {} ?tx"
    using False sm new_machine_ok [OF sm(1)]
    by (simp add: tx_at_def ledger_ok_def numbered_def graph_ok_def node_ids_def graph_edges_def acyclic_def)
  have fr: "free_from 1 ?N" by (simp add: free_from_def node_prefixes_def)
  have "engine_outcome h li w (\<lambda>(tx, i). tx_at h li [DETECTED] [] ?N tx \<and> i \<in> node_ids (tx_graph tx))
      (add_artifact h (create_finding_node (ho_sha256 h) (li_finding li) None) ?tx)"
    by (rule outcome_mono [OF add_artifact_out [OF at create_finding_node_def]]) (auto simp: stage_simps tx_at_def)
  then show ?thesis
    unfolding stage_detect_def sm(1) sum.case
  proof (rule outcome_rbind, clarify)
    fix tx i assume a: "tx_at h li [DETECTED] [] ?N tx" "i \<in> node_ids (tx_graph tx)"
    show "engine_outcome h li w (\<lambda>(tx, i). at_node h li [DETECTED, EVIDENCE_VERIFIED] 1 i tx)
      (rbind (append_audit h li AE_FINDING_DETECTED
                   (no_fields\<lparr> af_metadata := [(''rule_id'', fi_rule_id (li_finding li)),
                                             (''file_path'', fi_file_path (li_finding li))] \<rparr>) tx) (\<lambda>tx.
          rbind (advance h li EVIDENCE_VERIFIED ''Evidence verified for finding'' AE_EVIDENCE_VERIFIED
                   no_fields tx) (\<lambda>tx. Inr (tx, i))))"
      by (rule audit_wp [OF a(1) fr a(2)]; (rule advance_wp)?) (auto simp: stage_simps)
  qed
qed

lemma stage_rca_out:
  assumes "at_node h li ss 1 i tx" "last ss = EVIDENCE_VERIFIED"
  shows "engine_outcome h li w (\<lambda>(tx, i). at_node h li (ss @ [RCA_ESTABLISHED]) 2 i tx) (stage_rca h li (tx, i))"
proof (cases "li_rca li")
  case None
  show ?thesis unfolding stage_rca_def prod.case None option.case
    by (rule advance_wp [OF assms(1)]) (auto simp: stage_simps assms(2) intro: at_node_later)
next
  case (Some rca)
  show ?thesis unfolding stage_rca_def prod.case Some option.case
    by (rule artifact_wp [OF assms(1) create_rca_node_def, where m = 1]; (clarify, rule advance_wp)?)
      (auto simp: stage_simps assms(2) numeral_2_eq_2)
qed


lemma rbind_Inr [simp]: "rbind r Inr = r"
  by (cases r) auto

lemmas advance_last = advance_wp [where f = Inr, unfolded rbind_Inr]

definition result_at :: "host \<Rightarrow> lifecycle_input \<Rightarrow> lifecycle_state list \<Rightarrow> lifecycle_result \<Rightarrow> bool" where
  "result_at h li ss r \<longleftrightarrow>
     machine_ok (ho_sha256 h) DETECTED
       \<lparr> lm_finding_id = lr_finding_id r, lm_current_state = lr_current_state r,
         lm_history = lr_state_history r \<rparr> \<and>
     lr_finding_id r = fi_finding_id (li_finding li) \<and>
     map le_new_state (lr_state_history r) = ss \<and> lr_current_state r = last ss \<and>
     ledger_ok (ho_sha256 h) (lr_ledger r) \<and>
     map ae_lifecycle_state (lr_ledger r) = map state_value ss \<and>
     graph_ok (ho_sha256 h) (lr_provenance_graph r)"

lemma finish_at:
  assumes "at_node h li ss k i tx"
  shows "result_at h li ss (finish h li tx st p tok snap a v reason)"
proof -
  obtain N where at: "tx_at h li ss ss N tx" using assms by (auto simp: at_node_def)
  then have f: "lm_finding_id (tx_machine tx) = fi_finding_id (li_finding li)" by (simp add: tx_at_def)
  have sm: "\<lparr> lm_finding_id = fi_finding_id (li_finding li), lm_current_state = last ss,
      lm_history = lm_history (tx_machine tx) \<rparr> = tx_machine tx"
    unfolding tx_at_current [OF at, symmetric] f [symmetric] by simp
  have "machine_ok (ho_sha256 h) DETECTED \<lparr> lm_finding_id = fi_finding_id (li_finding li),
      lm_current_state = last ss, lm_history = lm_history (tx_machine tx) \<rparr>"
    unfolding sm using at by (simp add: tx_at_def)
  with at tx_at_current [OF at] show ?thesis by (simp add: tx_at_def result_at_def finish_def)
qed

lemma finish_fields [simp]:
  "lr_approval_token (finish h li tx st p tok snap a v reason) = tok"
  "lr_proposal (finish h li tx st p tok snap a v reason) = Some p"
  "lr_source_snapshot (finish h li tx st p tok snap a v reason) = Some snap"
  "lr_application_result (finish h li tx st p tok snap a v reason) = a"
  "lr_verification_result (finish h li tx st p tok snap a v reason) = v"
  "lr_strategy (finish h li tx st p tok snap a v reason) = Some st"
  by (simp_all add: finish_def)

lemma stage_propose_out:
  assumes "at_node h li ss 2 i tx" "last ss = RCA_ESTABLISHED"
  shows "engine_outcome h li w (\<lambda>(tx, j, st, p). at_node h li (ss @ [REMEDIATION_PROPOSED]) 4 j tx \<and>
      li_plan li = Inr (st, p)) (stage_propose h li (tx, i))"
proof (cases "li_plan li")
  case (Inr sp)
  obtain st p where sp: "sp = (st, p)" by fastforce
  show ?thesis unfolding stage_propose_def prod.case Inr sum.case sp
    by (rule artifact_wp [OF assms(1) create_strategy_node_def, where m = 2],
        (simp_all add: stage_simps)[3],
        clarify, rule artifact_wp [OF _ create_proposal_node_def, where m = 3], assumption,
        (simp_all add: stage_simps)[3], clarify, rule advance_wp, assumption)
      (auto simp: stage_simps assms(2) numeral_eq_Suc)
qed (simp add: stage_propose_def)

lemma stage_await_out:
  assumes "at_node h li ss 4 i tx" "last ss = REMEDIATION_PROPOSED" "li_plan li = Inr (st, p)"
  shows "engine_outcome h li w (\<lambda>(tx, j, snap). at_node h li (ss @ [AWAITING_APPROVAL]) 5 j tx \<and>
      host_capture h w (pp_target_files p) = Some snap) (stage_await h li w (tx, i, st, p))"
  unfolding stage_await_def prod.case
proof (rule advance_wp [OF assms(1)])
  fix tx' assume a: "at_node h li (ss @ [AWAITING_APPROVAL]) 4 i tx'"
  show "engine_outcome h li w (\<lambda>(tx, j, snap). at_node h li (ss @ [AWAITING_APPROVAL]) 5 j tx \<and>
      host_capture h w (pp_target_files p) = Some snap)
    (case host_capture h w (pp_target_files p) of
       None \<Rightarrow> Inl (SnapshotRaised (capture_message (pp_target_files p) h))
     | Some snapshot \<Rightarrow>
         rbind (add_artifact h (create_source_snapshot_node (ho_sha256 h) snapshot i None) tx')
           (\<lambda>(tx, snap_node). Inr (tx, snap_node, snapshot)))"
  proof (cases "host_capture h w (pp_target_files p)")
    case (Some snap)
    show ?thesis unfolding Some option.case
      by (rule artifact_wp [OF a create_source_snapshot_node_def, where m = 4])
        (auto simp: stage_simps numeral_eq_Suc)
  qed (simp add: assms(3))
qed (auto simp: stage_simps assms(2))

lemma stage_approve_out:
  assumes at: "at_node h li ss 5 i tx" and l: "last ss = AWAITING_APPROVAL"
    and plan: "li_plan li = Inr (st, p)" "host_capture h w (pp_target_files p) = Some snap"
  shows "engine_outcome h li w (\<lambda>res. case res of
      Inl r \<Rightarrow> result_at h li (ss @ [REJECTED]) r \<and> lr_proposal r = Some p \<and>
        lr_application_result r = None \<and>
        lr_source_snapshot r = Some snap \<and> resolve_token li p snap = Inr (lr_approval_token r) \<and>
        (\<forall>t. lr_approval_token r = Some t \<longrightarrow>
           engine_verdict h li p snap t \<noteq> Inr TOKEN_VALID)
    | Inr (tx, j, t) \<Rightarrow> at_node h li (ss @ [APPROVED]) 6 j tx \<and> resolve_token li p snap = Inr (Some t) \<and>
        engine_verdict h li p snap t = Inr TOKEN_VALID)
    (stage_approve h li st p (tx, i, snap))"
    (is "engine_outcome h li w ?Q _")
proof -
  note vd = engine_verdict_def [symmetric]
  consider (raise) e where "resolve_token li p snap = Inl e" | (none) "resolve_token li p snap = Inr None"
    | (some) t where "resolve_token li p snap = Inr (Some t)"
    by (metis option.exhaust sum.exhaust)
  then show ?thesis
  proof cases
    case raise
    then have "\<exists>m. e = ProviderRaised m"
      by (cases "li_approval li"; cases "(case li_approval li of Callback f \<Rightarrow> f p snap)")
        (auto simp: resolve_token_def)
    then have "explained h li w e" using raise plan by auto
    with raise show ?thesis by (simp add: stage_approve_def)
  next
    case none
    show ?thesis unfolding stage_approve_def prod.case none rbind.simps option.case
      by (rule advance_wp [OF at]) (auto simp: stage_simps l reject_fields_def none intro: finish_at)
  next
    case some
    show ?thesis
    proof (cases "engine_verdict h li p snap t")
      case (Inl e)
      then show ?thesis using some plan by (auto simp: stage_approve_def vd)
    next
      case (Inr v)
      show ?thesis
      proof (cases "v = TOKEN_VALID")
        case True
        show ?thesis unfolding stage_approve_def prod.case some rbind.simps option.case vd Inr map_sum.simps
          unfolding True id_apply simp_thms if_False
          by (rule artifact_wp [OF at create_approval_token_node_def, where m = 5],
              (simp_all add: stage_simps)[3], clarify, rule advance_wp, assumption)
            (auto simp: stage_simps l reject_fields_def some Inr True numeral_eq_Suc)
      next
        case False
        show ?thesis unfolding stage_approve_def prod.case some rbind.simps option.case vd Inr map_sum.simps Let_def
          using False
          by simp (rule advance_wp [OF at], auto simp: stage_simps l reject_fields_def some Inr intro: finish_at)
      qed
    qed
  qed
qed


lemma stage_prepare_out:
  assumes "at_node h li ss 6 i tx" "last ss = APPROVED"
  shows "engine_outcome h li w (at_node h li (ss @ [SNAPSHOT_VERIFIED, APPLYING]) 6 i) (stage_prepare h li p snap tx)"
  unfolding stage_prepare_def
  by (rule advance_wp [OF assms(1)], (simp_all add: stage_simps assms(2) reject_fields_def)[3],
      rule outcome_mono, rule advance_last, assumption)
    (auto simp: stage_simps reject_fields_def)

lemma add_verification_out:
  assumes "at_node h li ss 7 i tx"
  shows "engine_outcome h li w (\<lambda>tx. \<exists>j. at_node h li ss 8 j tx) (add_verification h p a v i tx)"
proof (cases v)
  case None
  with at_node_later [OF assms, of 8] show ?thesis by (auto simp: add_verification_def)
next
  case (Some r)
  have e: "map_sum id fst x = rbind x (\<lambda>y. Inr (fst y))" for x :: "engine_error + lifecycle_tx \<times> string"
    by (cases x) auto
  show ?thesis unfolding add_verification_def Some option.case e
    by (rule artifact_wp [OF assms create_verification_node_def, where m = 7])
      (auto simp: stage_simps numeral_eq_Suc)
qed

lemma stage_apply_failed_out:
  assumes at: "at_node h li ss 7 i tx" and l: "last ss = APPLYING"
    and r: "ar_rollback_status a \<noteq> ''CRITICAL_FAILURE''"
  shows "engine_outcome h li w (\<lambda>tx. \<exists>j. at_node h li (ss @ [APPLY_FAILED, ROLLED_BACK]) 8 j tx)
    (stage_apply_failed h li p a v i tx)"
  unfolding stage_apply_failed_def
proof (rule outcome_rbind [OF add_verification_out [OF at]], clarify)
  fix tx' j assume at': "at_node h li ss 8 j tx'"
  show "engine_outcome h li w (\<lambda>tx. \<exists>j. at_node h li (ss @ [APPLY_FAILED, ROLLED_BACK]) 8 j tx)
    (rbind (advance h li APPLY_FAILED (''Patch application failed: '' @ str_option (ar_failure_reason a))
              AE_ROLLBACK_STARTED (apply_fields p a) tx') (\<lambda>tx.
       let target_terminal = (if ar_rollback_status a = ''CRITICAL_FAILURE''
                              then CRITICAL_RECOVERY_FAILURE else ROLLED_BACK)
       in advance h li target_terminal
            (''Rollback completed: '' @ str_option (ar_failure_reason a))
            (if target_terminal = CRITICAL_RECOVERY_FAILURE then AE_CRITICAL_RECOVERY_FAILURE
             else AE_ROLLBACK_COMPLETED)
            (apply_fields p a) tx))"
    unfolding Let_def if_not_P [OF r]
    by (rule advance_wp [OF at'], (simp_all add: stage_simps l apply_fields_def)[3],
        rule outcome_mono, rule advance_last, assumption)
      (auto simp: stage_simps apply_fields_def)
qed

lemma stage_applied_out:
  assumes at: "at_node h li ss 7 i tx" and l: "last ss = APPLYING"
  shows "engine_outcome h li w (\<lambda>tx. \<exists>j. at_node h li (ss @ [APPLIED_UNVERIFIED, SECURITY_RESCAN]) 8 j tx)
    (stage_applied h li p a v i tx)"
  unfolding stage_applied_def
  by (rule advance_wp [OF at], (simp_all add: stage_simps l apply_fields_def post_fields_def)[3],
      rule advance_wp, assumption, (simp_all add: stage_simps l apply_fields_def post_fields_def)[3],
      rule outcome_mono, rule add_verification_out, assumption) simp

lemma stage_verified_out:
  assumes at: "at_node h li ss 8 i tx" and l: "last ss = SECURITY_RESCAN"
    and f: "vr_finding_id v = fi_finding_id (li_finding li)"
    and c: "\<And>e. engine_contract h p a v = Inl e \<Longrightarrow> explained h li w (MachineRaised e)"
  shows "engine_outcome h li w (\<lambda>tx. \<exists>j. at_node h li (ss @ [VERIFIED_FIXED]) 8 j tx) (stage_verified h li p a v tx)"
proof -
  obtain N where N: "tx_at h li ss ss N tx" "free_from 8 N" "i \<in> node_ids (tx_graph tx)"
    using at by (auto simp: at_node_def)
  let ?why = "''Deterministic SAST rescan confirmed vulnerability fix''"
  show ?thesis
  proof (cases "engine_contract h p a v")
    case (Inl e)
    with c [OF Inl] show ?thesis
      by (simp add: stage_verified_def engine_contract_def [symmetric] del: explained.simps)
  next
    case (Inr c)
    then have mc: "make_contract c = Inr c" "ec_finding_id c = fi_finding_id (li_finding li)"
      using f make_contract_same by (fastforce simp: contract_from_result_def engine_contract_def)+
    let ?call = "VerifiedFixed c (li_actor li) ?why (Some (ho_now_iso h)) None"
    obtain sm where sm: "lifecycle_step (ho_sha256 h) (ho_now_iso h) ?call (tx_machine tx) = Inr sm"
      "map le_new_state (lm_history sm) = map le_new_state (lm_history (tx_machine tx)) @ [VERIFIED_FIXED]"
      using mc l N(1) tx_at_current [OF N(1)] by (simp add: transition_verified_fixed_def tx_at_def)
    from lifecycle_step_ok [OF _ sm(1), of DETECTED] N(1)
    have "machine_ok (ho_sha256 h) DETECTED sm" "lm_finding_id sm = fi_finding_id (li_finding li)"
      by (auto simp: tx_at_def)
    with N(1) sm(2) have at': "tx_at h li (ss @ [VERIFIED_FIXED]) ss N (tx\<lparr> tx_machine := sm \<rparr>)"
      by (simp add: tx_at_def)
    have sv: "stage_verified h li p a v tx = append_audit h li AE_VERIFIED_FIXED (verified_fields h p a (Some v))
        (tx\<lparr> tx_machine := sm \<rparr>)"
      using Inr sm(1) mc(1) by (simp add: stage_verified_def engine_contract_def)
    show ?thesis unfolding sv
      by (rule audit_wp [OF at' N(2), where f = Inr, unfolded rbind_Inr])
        (use N(3) in \<open>auto simp: verified_fields_def post_fields_def apply_fields_def no_fields_def\<close>)
  qed
qed


text \<open>The rollback statuses an application result can have.\<close>

lemma rollback_transaction_status:
  "rollback_transaction h w b i = (w', st, err) \<Longrightarrow> st = ''SUCCESS'' \<or> st = ''CRITICAL_RECOVERY_FAILURE''"
  by (auto simp: rollback_transaction_def Let_def split: prod.splits if_splits)

lemma apply_patch_rollback_status:
  assumes "apply_patch h w tx p t current = Inr (w', r, t')"
  shows "ar_rollback_status r \<in> {''NOT_NEEDED'', ''SUCCESS'', ''CRITICAL_RECOVERY_FAILURE''}"
  using assms
proof (cases rule: apply_patch_cases)
  case (executed snap plan)
  from executed(5) show ?thesis
    by (auto simp: execute_plan_def make_result_def Let_def dest: rollback_transaction_status
        split: prod.splits sum.splits)
qed simp

text \<open>What the transaction hands over: an applied patch is a verified one.\<close>

lemma transaction_hands_over:
  assumes "execute_transaction h w xi p t f records = (w', Inr (a, v, t', recs))"
  shows "ar_rollback_status a \<noteq> ''CRITICAL_FAILURE''"
    "ar_status a = AS_APPLIED \<Longrightarrow> \<exists>r. v = Some r \<and> vr_status r = VS_VERIFIED_FIXED \<and> vr_finding_id r = fi_finding_id f"
proof -
  show "ar_rollback_status a \<noteq> ''CRITICAL_FAILURE''"
    using assms
  proof (cases rule: execute_transaction_cases)
    case (scan_failed w1 r1 err)
    then have "rescan_failed h w1 p t r1 t' err records = (w', Inr (a, v, t', recs))"
      using assms by (simp add: execute_transaction_def)
    then show ?thesis
      by (auto simp: rescan_failed_def make_result_def Let_def dest: rollback_transaction_status
          split: option.splits prod.splits)
  qed (auto dest: apply_patch_rollback_status)
  show "\<exists>r. v = Some r \<and> vr_status r = VS_VERIFIED_FIXED \<and> vr_finding_id r = fi_finding_id f"
    if "ar_status a = AS_APPLIED"
    using assms by (cases rule: execute_transaction_cases) (use that in \<open>auto simp: verify_with_tests_status(4)\<close>)
qed

text \<open>The rest of the transaction after the application's node.\<close>

definition concluded ::
  "host \<Rightarrow> lifecycle_input \<Rightarrow> lifecycle_state list \<Rightarrow> patch_proposal \<Rightarrow> source_snapshot \<Rightarrow> application_result \<Rightarrow>
     verification_result option \<Rightarrow> approval_token \<Rightarrow> lifecycle_result \<Rightarrow> bool" where
  "concluded h li ss p snap a v t' res \<longleftrightarrow>
     result_at h li (ss @ (if ar_status a = AS_APPLIED then [APPLIED_UNVERIFIED, SECURITY_RESCAN, VERIFIED_FIXED]
                           else [APPLY_FAILED, ROLLED_BACK])) res \<and>
     lr_proposal res = Some p \<and> lr_source_snapshot res = Some snap \<and> lr_application_result res = Some a \<and>
     lr_verification_result res = v \<and> lr_approval_token res = Some t'"

lemma failed_tail:
  assumes "at_node h li ss 7 j tx" "last ss = APPLYING" "ar_status a \<noteq> AS_APPLIED"
    "ar_rollback_status a \<noteq> ''CRITICAL_FAILURE''"
  shows "engine_outcome h li w (concluded h li ss p snap a v t')
    (rbind (stage_apply_failed h li p a v j tx) (\<lambda>tx. Inr (finish h li tx st p (Some t') snap (Some a) v reason)))"
  by (rule outcome_rbind [OF stage_apply_failed_out [OF assms(1,2,4)]])
    (auto simp: concluded_def assms(3) intro: finish_at)

lemma fixed_tail:
  assumes "at_node h li ss 7 j tx" "last ss = APPLYING" "ar_status a = AS_APPLIED"
    "vr_finding_id r = fi_finding_id (li_finding li)"
    "\<And>e. engine_contract h p a r = Inl e \<Longrightarrow> explained h li w (MachineRaised e)"
  shows "engine_outcome h li w (concluded h li ss p snap a (Some r) t')
    (rbind (stage_applied h li p a (Some r) j tx) (\<lambda>tx.
     rbind (stage_verified h li p a r tx) (\<lambda>tx. Inr (finish h li tx st p (Some t') snap (Some a) (Some r) reason))))"
proof (rule outcome_rbind [OF stage_applied_out [OF assms(1,2)]], clarify)
  fix tx k assume at: "at_node h li (ss @ [APPLIED_UNVERIFIED, SECURITY_RESCAN]) 8 k tx"
  show "engine_outcome h li w (concluded h li ss p snap a (Some r) t')
    (rbind (stage_verified h li p a r tx) (\<lambda>tx. Inr (finish h li tx st p (Some t') snap (Some a) (Some r) reason)))"
    by (rule outcome_rbind [OF stage_verified_out [OF at _ assms(4,5)]])
      (auto simp: concluded_def assms(3) dest: finish_at)
qed

lemma stage_conclude_out:
  assumes at: "at_node h li ss 6 i tx" and l: "last ss = APPLYING"
    and r: "ar_rollback_status a \<noteq> ''CRITICAL_FAILURE''"
    and v: "ar_status a = AS_APPLIED \<Longrightarrow>
      \<exists>r. v = Some r \<and> vr_status r = VS_VERIFIED_FIXED \<and> vr_finding_id r = fi_finding_id (li_finding li)"
    and c: "\<And>r e. v = Some r \<Longrightarrow> engine_contract h p a r = Inl e \<Longrightarrow> explained h li w (MachineRaised e)"
  shows "engine_outcome h li w (concluded h li ss p snap a v t')
    (stage_conclude h li st p snap i (a, v, t', recs) tx)"
proof -
  have node: "create_application_node (ho_sha256 h) a [i] None =
      factory_node (ho_sha256 h) (opt_or None (''prov_app_'' @ ar_transaction_id a)) PN_APPLICATION_RESULT [i]
        [(''transaction_id'', ar_transaction_id a), (''finding_id'', ar_finding_id a),
         (''proposal_fingerprint'', ar_proposal_fingerprint a),
         (''status'', application_status_value (ar_status a)),
         (''pre_apply_snapshot_hash'', ar_pre_apply_snapshot_hash a),
         (''post_apply_snapshot_hash'', ar_post_apply_snapshot_hash a)]"
    by (simp add: create_application_node_def)
  show ?thesis
  proof (cases "ar_status a = AS_APPLIED")
    case False
    show ?thesis unfolding stage_conclude_def prod.case using False l r
      by (intro artifact_wp [OF at node, where m = 6]) (auto simp: stage_simps numeral_eq_Suc intro!: failed_tail)
  next
    case True
    with v obtain vr where vr: "v = Some vr" "vr_status vr = VS_VERIFIED_FIXED"
      "vr_finding_id vr = fi_finding_id (li_finding li)" by blast
    show ?thesis unfolding stage_conclude_def prod.case using True l vr c
      by (intro artifact_wp [OF at node, where m = 6]) (auto simp: stage_simps numeral_eq_Suc intro!: fixed_tail)
  qed
qed


section \<open>The whole transaction\<close>

definition proposal_states :: "lifecycle_state list" where
  "proposal_states = [DETECTED, EVIDENCE_VERIFIED, RCA_ESTABLISHED, REMEDIATION_PROPOSED, AWAITING_APPROVAL]"

definition applying_states :: "lifecycle_state list" where
  "applying_states = proposal_states @ [APPROVED, SNAPSHOT_VERIFIED, APPLYING]"

text \<open>How a transaction ends: rejected with the world as it was, or concluded after the agent's run.\<close>

inductive engine_ends :: "host \<Rightarrow> lifecycle_input \<Rightarrow> world \<Rightarrow> world \<Rightarrow> lifecycle_result \<Rightarrow> bool"
  for h li w where
  ends_rejected:
    "li_plan li = Inr (st, p) \<Longrightarrow> host_capture h w (pp_target_files p) = Some snap \<Longrightarrow>
     resolve_token li p snap = Inr found \<Longrightarrow>
     (\<And>t. found = Some t \<Longrightarrow> engine_verdict h li p snap t \<noteq> Inr TOKEN_VALID) \<Longrightarrow>
     result_at h li (proposal_states @ [REJECTED]) r \<Longrightarrow> lr_application_result r = None \<Longrightarrow> engine_ends h li w w r"
| ends_concluded:
    "li_plan li = Inr (st, p) \<Longrightarrow> host_capture h w (pp_target_files p) = Some snap \<Longrightarrow>
     resolve_token li p snap = Inr (Some t) \<Longrightarrow> engine_verdict h li p snap t = Inr TOKEN_VALID \<Longrightarrow>
     execute_transaction h w (transaction_input_of li) p t (li_finding li) None = (w', Inr (a, v, t', recs)) \<Longrightarrow>
     concluded h li applying_states p snap a v t' r \<Longrightarrow> engine_ends h li w w' r"

lemma engine_execute_out:
  "engine_outcome h li w (engine_ends h li w (fst (engine_execute h li w))) (snd (engine_execute h li w))"
proof -
  have open_out: "engine_outcome h li w (\<lambda>(tx, j, st, p). at_node h li [DETECTED, EVIDENCE_VERIFIED, RCA_ESTABLISHED,
      REMEDIATION_PROPOSED] 4 j tx \<and> li_plan li = Inr (st, p))
    (rbind (stage_detect h li) (\<lambda>s. rbind (stage_rca h li s) (stage_propose h li)))"
  proof (rule outcome_rbind [OF stage_detect_out], clarify, rule outcome_rbind [OF stage_rca_out], assumption)
    fix s :: "lifecycle_tx \<times> string"
    assume "case s of (tx, i) \<Rightarrow> at_node h li ([DETECTED, EVIDENCE_VERIFIED] @ [RCA_ESTABLISHED]) 2 i tx"
    then show "engine_outcome h li w (\<lambda>(tx, j, st, p). at_node h li [DETECTED, EVIDENCE_VERIFIED, RCA_ESTABLISHED,
      REMEDIATION_PROPOSED] 4 j tx \<and> li_plan li = Inr (st, p)) (stage_propose h li s)"
      using stage_propose_out [where h = h and li = li and ss = "[DETECTED, EVIDENCE_VERIFIED, RCA_ESTABLISHED]"] by (cases s) auto
  qed simp
  show ?thesis
  proof (cases "rbind (stage_detect h li) (\<lambda>s. rbind (stage_rca h li s) (stage_propose h li))")
    case (Inl e)
    with open_out show ?thesis by (simp add: engine_execute_def)
  next
    case r1: (Inr y1)
    obtain tx1 i1 st p where y1: "y1 = (tx1, i1, st, p)" by (cases y1)
    note o1 = open_out [unfolded r1 y1, simplified]
    have o2: "engine_outcome h li w (\<lambda>(tx, j, snap). at_node h li proposal_states 5 j tx \<and>
        host_capture h w (pp_target_files p) = Some snap) (stage_await h li w (tx1, i1, st, p))"
      using stage_await_out [OF conjunct1 [OF o1] _ conjunct2 [OF o1]] by (simp add: proposal_states_def)
    show ?thesis
    proof (cases "stage_await h li w (tx1, i1, st, p)")
      case (Inl e)
      with o2 show ?thesis by (simp add: engine_execute_def r1 y1)
    next
      case r2: (Inr y2)
      obtain tx2 i2 snap where y2: "y2 = (tx2, i2, snap)" by (cases y2)
      note o2 = o2 [unfolded r2 y2, simplified]
      note o3 = stage_approve_out [OF conjunct1 [OF o2] _ conjunct2 [OF o1] conjunct2 [OF o2]]
      show ?thesis
      proof (cases "stage_approve h li st p (tx2, i2, snap)")
        case (Inl e)
        with o3 show ?thesis by (simp add: engine_execute_def r1 y1 r2 y2 proposal_states_def)
      next
        case r3: (Inr y3)
        show ?thesis
        proof (cases y3)
          case (Inl r)
          have "engine_ends h li w w r"
            using o3 r3 Inl by (intro ends_rejected [OF conjunct2 [OF o1] conjunct2 [OF o2]]) (auto simp: proposal_states_def)
          with r3 Inl show ?thesis by (simp add: engine_execute_def r1 y1 r2 y2)
        next
          case r4: (Inr y4)
          obtain tx4 i4 t where y4: "y4 = (tx4, i4, t)" by (cases y4)
          have o4: "at_node h li (proposal_states @ [APPROVED]) 6 i4 tx4" "resolve_token li p snap = Inr (Some t)"
            "engine_verdict h li p snap t = Inr TOKEN_VALID"
            using o3 r3 r4 y4 by (auto simp: proposal_states_def)
          have o5: "engine_outcome h li w (at_node h li applying_states 6 i4) (stage_prepare h li p snap tx4)"
            using stage_prepare_out [OF o4(1)] by (simp add: applying_states_def)
          show ?thesis
          proof (cases "stage_prepare h li p snap tx4")
            case (Inl e)
            with o5 show ?thesis by (simp add: engine_execute_def r1 y1 r2 y2 r3 r4 y4)
          next
            case r5: (Inr tx5)
            obtain w' out where tr: "execute_transaction h w (transaction_input_of li) p t (li_finding li) None = (w', out)"
              by fastforce
            show ?thesis
            proof (cases out)
              case (Inl e)
              have "explained h li w (TransactionRaised e)"
                unfolding explained.simps using o1 o2 o4(2) tr Inl by blast
              with Inl show ?thesis by (simp add: engine_execute_def r1 y1 r2 y2 r3 r4 y4 r5 tr)
            next
              case (Inr o6)
              obtain a v t' recs where o6: "o6 = (a, v, t', recs)" by (cases o6)
              note ho = transaction_hands_over [OF tr [unfolded Inr o6]]
              have "engine_outcome h li w (concluded h li applying_states p snap a v t')
                  (stage_conclude h li st p snap i4 (a, v, t', recs) tx5)"
                proof (rule stage_conclude_out)
                fix vr e assume "v = Some vr" and c: "engine_contract h p a vr = Inl e"
                then have tr': "execute_transaction h w (transaction_input_of li) p t (li_finding li) None =
                    (w', Inr (a, Some vr, t', recs))" using tr Inr o6 by simp
                have "e = LifecycleValueError"
                  using c by (auto simp: engine_contract_def contract_from_result_def make_contract_def
                      split: if_splits option.splits)
                with o1 o2 o4(2) tr' c show "explained h li w (MachineRaised e)" by (simp only: explained.simps) blast
              qed (use o5 r5 ho in \<open>auto simp: applying_states_def\<close>)
              then have "engine_outcome h li w (engine_ends h li w w')
                  (stage_conclude h li st p snap i4 (a, v, t', recs) tx5)"
                by (rule outcome_mono) (rule ends_concluded [OF conjunct2 [OF o1] conjunct2 [OF o2] o4(2,3) tr [unfolded Inr o6]])
              with Inr o6 show ?thesis by (simp add: engine_execute_def r1 y1 r2 y2 r3 r4 y4 r5 tr)
            qed
          qed
        qed
      qed
    qed
  qed
qed

lemma engine_execute_ends: "engine_execute h li w = (w', Inr r) \<Longrightarrow> engine_ends h li w w' r"
  using engine_execute_out [of h li w] by simp

lemma engine_execute_raises: "engine_execute h li w = (w', Inl e) \<Longrightarrow> explained h li w e"
  using engine_execute_out [of h li w] by simp


lemma events_chain_links:
  "events_chain s evs \<Longrightarrow> map le_previous_state evs = butlast (s # map le_new_state evs)"
  by (induction s evs rule: events_chain.induct) auto

lemma result_at_facts:
  assumes "result_at h li ss r"
  shows "map le_new_state (lr_state_history r) = ss \<and>
    lr_current_state r = le_new_state (last (lr_state_history r)) \<and>
    map le_previous_state (tl (lr_state_history r)) = map le_new_state (butlast (lr_state_history r)) \<and>
    validate_chain (ho_sha256 h) (lr_ledger r) = Inr () \<and>
    map ae_lifecycle_state (lr_ledger r) = map (state_value \<circ> le_new_state) (lr_state_history r) \<and>
    validate_integrity (ho_sha256 h) (lr_provenance_graph r) = Inr ()"
proof -
  obtain ev evs where h: "lr_state_history r = ev # evs" "le_new_state ev = DETECTED" "events_chain DETECTED evs"
    using assms by (auto simp: result_at_def machine_ok_def)
  then have "map le_previous_state (tl (lr_state_history r)) = map le_new_state (butlast (lr_state_history r))"
    using events_chain_links [OF h(3)] by (simp add: map_butlast)
  moreover have "lr_current_state r = le_new_state (last (lr_state_history r))"
    using assms h(1) by (auto simp: result_at_def last_map)
  ultimately show ?thesis
    using assms by (auto simp: result_at_def validate_integrity_iff validate_chain_def ledger_ok_def)
qed


text \<open>Nothing else stops a run: with its callees well behaved it returns.\<close>

lemma engine_runs:
  assumes "\<not> blank (fi_finding_id (li_finding li))" "\<And>x y. \<not> collides (ho_sha256 h) x y"
    "li_plan li = Inr (st, p)" "host_capture h w (pp_target_files p) = Some snap"
    "resolve_token li p snap = Inr found"
    "\<And>t. found = Some t \<Longrightarrow> returns (engine_verdict h li p snap t)"
    "\<And>t. found = Some t \<Longrightarrow> \<exists>w' a v t' recs.
       execute_transaction h w (transaction_input_of li) p t (li_finding li) None = (w', Inr (a, v, t', recs)) \<and>
       (\<forall>r. v = Some r \<longrightarrow> returns (engine_contract h p a r))"
  shows "\<exists>w' r. engine_execute h li w = (w', Inr r)"
proof -
  obtain w' out where run: "engine_execute h li w = (w', out)" by fastforce
  show ?thesis
  proof (cases out)
    case (Inl e)
    have "explained h li w e" using engine_execute_raises run Inl by simp
    with assms have False by (cases e) (fastforce simp: returns_def)+
    then show ?thesis ..
  qed (use run in auto)
qed


text \<open>Where a run with an application result ends.\<close>

lemma result_at_last:
  assumes "result_at h li ss r" "ss \<noteq> []"
  shows "ae_lifecycle_state (last (lr_ledger r)) = state_value (lr_current_state r)"
proof -
  have m: "map ae_lifecycle_state (lr_ledger r) = map state_value ss" "lr_current_state r = last ss"
    using assms(1) by (auto simp: result_at_def)
  then have "lr_ledger r \<noteq> []" using assms(2) by auto
  then have "ae_lifecycle_state (last (lr_ledger r)) = last (map ae_lifecycle_state (lr_ledger r))"
    by (simp add: last_map)
  also have "\<dots> = state_value (last ss)" unfolding m(1) using assms(2) by (simp add: last_map)
  finally show ?thesis by (simp add: m(2))
qed

lemma engine_final_state:
  assumes "engine_execute h li w = (w', Inr r)" "lr_application_result r = Some a"
  shows "lr_current_state r = (if ar_status a = AS_APPLIED then VERIFIED_FIXED else ROLLED_BACK)"
    "ae_lifecycle_state (last (lr_ledger r)) = state_value (lr_current_state r)"
proof -
  from engine_execute_ends [OF assms(1)]
  have "lr_current_state r = (if ar_status a = AS_APPLIED then VERIFIED_FIXED else ROLLED_BACK) \<and>
    ae_lifecycle_state (last (lr_ledger r)) = state_value (lr_current_state r)"
  proof (cases rule: engine_ends.cases)
    case (ends_concluded st p snap t b v t' recs)
    then have "b = a" using assms(2) by (simp add: concluded_def)
    then have at: "result_at h li (applying_states @ (if ar_status a = AS_APPLIED
        then [APPLIED_UNVERIFIED, SECURITY_RESCAN, VERIFIED_FIXED] else [APPLY_FAILED, ROLLED_BACK])) r"
      using ends_concluded(6) by (simp add: concluded_def)
    from result_at_last [OF this] at show ?thesis by (simp add: result_at_def)
  qed (use assms(2) in simp)
  then show "lr_current_state r = (if ar_status a = AS_APPLIED then VERIFIED_FIXED else ROLLED_BACK)"
    "ae_lifecycle_state (last (lr_ledger r)) = state_value (lr_current_state r)" by auto
qed

lemma applied_token_used:
  assumes "apply_patch h w tx p t None = Inr (w', a, t')" "ar_status a = AS_APPLIED"
  shows "tk_status t' = AP_USED"
  using assms(1)
proof (cases rule: apply_patch_cases)
  case (executed snap plan)
  from executed(5,4) show ?thesis
    by (cases rule: execute_plan_cases) (use assms(2) in \<open>auto simp: mark_used_def split: if_splits\<close>)
qed (use assms(2) in simp)
section \<open>Concrete runs\<close>

definition plain_digest :: "string \<Rightarrow> string" where
  "plain_digest s = CHR ''h'' # s"

definition engine_host :: host where
  "engine_host = demo_host\<lparr> ho_sha256 := plain_digest \<rparr>"

definition engine_proposal :: patch_proposal where
  "engine_proposal = (demo_proposal ''q(safe(i))'')\<lparr> pp_proposal_fingerprint :=
     proposal_fingerprint plain_digest ''F1'' [''a.py''] ''d'' PV_VALID \<rparr>"

definition engine_strategy :: remediation_strategy where
  "engine_strategy = \<lparr> rs_finding_id = ''F1'', rs_root_cause_category = ''UNSAFE_ASSIGNMENT'',
     rs_strategy_type = ADD_PARAMETERIZATION, rs_rationale = [], rs_target_file = ''a.py'',
     rs_target_locations = [], rs_affected_symbols = [], rs_evidence_references = [],
     rs_knowledge_references = [], rs_confidence = 1, rs_assumptions = [], rs_limitations = [],
     rs_strategy_fingerprint = ''fp'' \<rparr>"

definition engine_token :: "patch_proposal \<Rightarrow> source_snapshot \<Rightarrow> approval_token" where
  "engine_token p snap = create_token plain_digest ''T1'' ''t'' ''F1'' (pp_proposal_fingerprint p)
     (ss_aggregate_hash snap) [''a.py''] ''/r'' ''alice'' None [] None None"

definition engine_input :: "bool \<Rightarrow> lifecycle_input" where
  "engine_input approve = \<lparr> li_finding = demo_finding_a, li_verdict = None, li_rca = None,
     li_plan = Inr (engine_strategy, engine_proposal),
     li_approval = (if approve then Callback (\<lambda>p snap. Inr (Some (engine_token p snap))) else No_provider),
     li_rescan = None, li_actor = ''bot'', li_transaction_id = ''tx1'', li_audit_id = ''aud1'',
     li_verification_id = ''v1'', li_business_tests = (True, []) \<rparr>"

definition engine_snapshot :: source_snapshot where
  "engine_snapshot = the (host_capture engine_host (demo_world []) [''a.py''])"

lemma engine_setup:
  "\<not> blank (fi_finding_id (li_finding (engine_input a)))" "\<not> collides (ho_sha256 engine_host) x y"
  "li_plan (engine_input a) = Inr (engine_strategy, engine_proposal)"
  "host_capture engine_host (demo_world ws) (pp_target_files engine_proposal) = Some engine_snapshot"
  "resolve_token (engine_input a) engine_proposal engine_snapshot =
     Inr (if a then Some (engine_token engine_proposal engine_snapshot) else None)"
  "engine_verdict engine_host (engine_input a) engine_proposal engine_snapshot
     (engine_token engine_proposal engine_snapshot) = Inr TOKEN_VALID"
proof -
  show "\<not> blank (fi_finding_id (li_finding (engine_input a)))"
    unfolding engine_input_def lifecycle_input.simps by code_simp
  show "\<not> collides (ho_sha256 engine_host) x y"
    by (simp add: collides_def engine_host_def plain_digest_def)
  show "li_plan (engine_input a) = Inr (engine_strategy, engine_proposal)" by (simp add: engine_input_def)
  have files: "wd_files (demo_world ws) = wd_files (demo_world [])" by (simp add: demo_world_def)
  have "host_capture engine_host (demo_world []) [''a.py''] \<noteq> None" by code_simp
  then show "host_capture engine_host (demo_world ws) (pp_target_files engine_proposal) = Some engine_snapshot"
    by (auto simp: engine_snapshot_def host_capture_def files engine_proposal_def demo_proposal_def)
  show "resolve_token (engine_input a) engine_proposal engine_snapshot =
     Inr (if a then Some (engine_token engine_proposal engine_snapshot) else None)"
    by (simp add: resolve_token_def engine_input_def)
  have "engine_verdict engine_host (engine_input True) engine_proposal engine_snapshot
     (engine_token engine_proposal engine_snapshot) = Inr TOKEN_VALID" by code_simp
  then show "engine_verdict engine_host (engine_input a) engine_proposal engine_snapshot
     (engine_token engine_proposal engine_snapshot) = Inr TOKEN_VALID"
    by (simp add: engine_verdict_def engine_input_def)
qed

definition transaction_status ::
  "world \<Rightarrow> (application_status \<times> bool) option" where
  "transaction_status w =
     (case execute_transaction engine_host w (transaction_input_of (engine_input True)) engine_proposal
             (engine_token engine_proposal engine_snapshot) (li_finding (engine_input True)) None of
        (w', Inl e) \<Rightarrow> None
      | (w', Inr (a, v, t', recs)) \<Rightarrow> Some (ar_status a,
          case v of None \<Rightarrow> True | Some r \<Rightarrow> returns (engine_contract engine_host engine_proposal a r)))"

lemma transaction_status_cases:
  assumes "transaction_status w = Some (s, True)"
  shows "\<exists>w' a v t' recs.
    execute_transaction engine_host w (transaction_input_of (engine_input True)) engine_proposal
       (engine_token engine_proposal engine_snapshot) (li_finding (engine_input True)) None =
       (w', Inr (a, v, t', recs)) \<and> ar_status a = s \<and>
    (\<forall>r. v = Some r \<longrightarrow> returns (engine_contract engine_host engine_proposal a r))"
  using assms by (auto simp: transaction_status_def split: prod.splits sum.splits option.splits)

lemma applied_status: "transaction_status (demo_world []) = Some (AS_APPLIED, True)"
  by code_simp

definition failing_world :: world where
  "failing_world = demo_world [Write_error ''disk full'' (Some ''x =''), Write_error ''disk full'' None]"

lemma critical_status: "transaction_status failing_world = Some (AS_CRITICAL_RECOVERY_FAILURE, True)"
  by code_simp

lemma approved_run:
  assumes "transaction_status (demo_world ws) = Some (s, True)"
  obtains w' r a where "engine_execute engine_host (engine_input True) (demo_world ws) = (w', Inr r)"
    "lr_application_result r = Some a" "ar_status a = s"
proof -
  let ?w = "demo_world ws"
  from transaction_status_cases [OF assms] obtain w1 a v t' recs where
    tr: "execute_transaction engine_host ?w (transaction_input_of (engine_input True)) engine_proposal
      (engine_token engine_proposal engine_snapshot) (li_finding (engine_input True)) None =
      (w1, Inr (a, v, t', recs))" "ar_status a = s"
      "\<And>r. v = Some r \<Longrightarrow> returns (engine_contract engine_host engine_proposal a r)" by metis
  have "\<exists>w' r. engine_execute engine_host (engine_input True) ?w = (w', Inr r)"
    by (rule engine_runs [OF engine_setup(1,2,3,4,5)]) (use tr engine_setup(6) in auto)
  then obtain w' r where run: "engine_execute engine_host (engine_input True) ?w = (w', Inr r)" by blast
  from engine_execute_ends [OF run] have "lr_application_result r = Some a"
    by (cases rule: engine_ends.cases) (use engine_setup tr(1) in \<open>auto simp: concluded_def\<close>)
  with run tr(2) that show thesis by blast
qed

section \<open>Properties\<close>

text \<open>
  C2: a run of the lifecycle engine that returns went along one of three paths:
  rejected at the approval, failed application and rollback, or verified fix. Its ledger is valid
  and records exactly the states of the history, in order; its provenance graph is intact; every
  event of the history starts where the one before ended. The states STILL_VULNERABLE and
  UNKNOWN of the documented flow are on none of the paths.
\<close>

theorem lifecycle_paths:
  assumes "engine_execute h li w = (w', Inr r)"
  shows "map le_new_state (lr_state_history r) \<in>
      {proposal_states @ [REJECTED], applying_states @ [APPLY_FAILED, ROLLED_BACK],
       applying_states @ [APPLIED_UNVERIFIED, SECURITY_RESCAN, VERIFIED_FIXED]} \<and>
    lr_current_state r = le_new_state (last (lr_state_history r)) \<and>
    map le_previous_state (tl (lr_state_history r)) = map le_new_state (butlast (lr_state_history r)) \<and>
    validate_chain (ho_sha256 h) (lr_ledger r) = Inr () \<and>
    map ae_lifecycle_state (lr_ledger r) = map (state_value \<circ> le_new_state) (lr_state_history r) \<and>
    validate_integrity (ho_sha256 h) (lr_provenance_graph r) = Inr ()"
  using engine_execute_ends [OF assms]
proof (cases rule: engine_ends.cases)
  case ends_rejected
  from result_at_facts [OF this(6)] show ?thesis by simp
next
  case (ends_concluded st p snap t a v t' recs)
  from result_at_facts [OF this(6) [unfolded concluded_def, THEN conjunct1]] show ?thesis by simp
qed

theorem lifecycle_paths_witness:
  "case engine_execute engine_host (engine_input True) (demo_world []) of
     (w', Inl e) \<Rightarrow> False
   | (w', Inr r) \<Rightarrow> validate_chain plain_digest (lr_ledger r) = Inr () \<and>
       map ae_lifecycle_state (lr_ledger r) = map (state_value \<circ> le_new_state) (lr_state_history r)"
proof -
  obtain w' r where "engine_execute engine_host (engine_input True) (demo_world []) = (w', Inr r)"
    using approved_run [OF applied_status] by blast
  with lifecycle_paths [OF this] show ?thesis by (simp add: engine_host_def)
qed

text \<open>
  C1: a run that ends VERIFIED_FIXED was proposed by the agent, approved by
  a token valid for the finding, the proposal and the files as they were, and applied; the token
  is used up; the project's tests passed and the rescan, when there is one, returned without a
  finding that matches the one to be fixed.
\<close>

theorem verified_fixed_grounds:
  assumes "engine_execute h li w = (w', Inr r)" "lr_current_state r = VERIFIED_FIXED"
  shows "\<exists>st p snap t a t'. li_plan li = Inr (st, p) \<and>
    host_capture h w (pp_target_files p) = Some snap \<and> resolve_token li p snap = Inr (Some t) \<and>
    verify_valid (ho_sha256 h) (ho_fromisoformat h) (ho_clock h) t (fi_finding_id (li_finding li))
      (pp_proposal_fingerprint p) (ss_aggregate_hash snap) (path_str (ho_root h)) (Some (ho_now_iso h)) =
      Inr TOKEN_VALID \<and>
    apply_patch h w (li_transaction_id li) p t None = Inr (w', a, t') \<and> ar_status a = AS_APPLIED \<and>
    tk_status t' = AP_USED \<and> fst (li_business_tests li) \<and>
    (case li_rescan li of None \<Rightarrow> True | Some (Inl e) \<Rightarrow> False
     | Some (Inr gs) \<Rightarrow> \<not> list_ex (semantic_match (contract_from_finding (li_finding li))) gs)"
  using engine_execute_ends [OF assms(1)]
proof (cases rule: engine_ends.cases)
  case ends_rejected
  with assms(2) show ?thesis by (simp add: result_at_def)
next
  case (ends_concluded st p snap t a v t' recs)
  have "ar_status a = AS_APPLIED"
    using ends_concluded(6) assms(2) by (auto simp: concluded_def result_at_def split: if_splits)
  with ends_concluded(5) obtain gs where gs: "apply_patch h w (li_transaction_id li) p t None = Inr (w', a, t')"
    "ti_rescan (transaction_input_of li) = Inr gs"
    "vr_status (verify_with_tests (li_finding li) gs (transaction_input_of li)) = VS_VERIFIED_FIXED"
    by (cases rule: execute_transaction_cases) (auto simp: transaction_input_of_def)
  have "tk_status t' = AP_USED" using applied_token_used [OF gs(1) \<open>ar_status a = AS_APPLIED\<close>] .
  with ends_concluded gs \<open>ar_status a = AS_APPLIED\<close> show ?thesis
    using verify_with_tests_status(1) [of "li_finding li" gs "transaction_input_of li"]
    by (intro exI conjI) (auto simp: engine_verdict_def transaction_input_of_def list_ex_iff
        split: option.splits sum.splits)
qed

theorem verified_fixed_grounds_witness:
  "case engine_execute engine_host (engine_input True) (demo_world []) of
     (w', Inl e) \<Rightarrow> False
   | (w', Inr r) \<Rightarrow> lr_current_state r = VERIFIED_FIXED \<and>
       (\<exists>t a t'. apply_patch engine_host (demo_world []) ''tx1'' engine_proposal t None = Inr (w', a, t') \<and>
          tk_status t' = AP_USED)"
proof -
  obtain w' r a where run: "engine_execute engine_host (engine_input True) (demo_world []) = (w', Inr r)"
    "lr_application_result r = Some a" "ar_status a = AS_APPLIED"
    using approved_run [OF applied_status] by blast
  then have "lr_current_state r = VERIFIED_FIXED" using engine_final_state by force
  with verified_fixed_grounds [OF run(1)] run(1) show ?thesis
    by (auto simp: engine_setup(3)) (auto simp: engine_input_def)
qed

text \<open>
  C3: a run that returns is rejected exactly when no token is given or the given
  one does not verify for the finding, the proposal and the captured files; a rejected run
  changes no file.
\<close>

theorem rejection_exact:
  assumes "engine_execute h li w = (w', Inr r)"
  shows "\<exists>st p snap found. li_plan li = Inr (st, p) \<and> host_capture h w (pp_target_files p) = Some snap \<and>
    resolve_token li p snap = Inr found \<and>
    (lr_current_state r = REJECTED) =
      (case found of None \<Rightarrow> True | Some t \<Rightarrow>
         verify_valid (ho_sha256 h) (ho_fromisoformat h) (ho_clock h) t (fi_finding_id (li_finding li))
           (pp_proposal_fingerprint p) (ss_aggregate_hash snap) (path_str (ho_root h))
           (Some (ho_now_iso h)) \<noteq> Inr TOKEN_VALID) \<and>
    (lr_current_state r = REJECTED \<longrightarrow> w' = w)"
  using engine_execute_ends [OF assms]
proof (cases rule: engine_ends.cases)
  case (ends_rejected st p snap found)
  then show ?thesis by (auto simp: engine_verdict_def result_at_def split: option.split)
next
  case (ends_concluded st p snap t a v t' recs)
  then have "lr_current_state r \<noteq> REJECTED" by (auto simp: concluded_def result_at_def split: if_splits)
  with ends_concluded show ?thesis by (auto simp: engine_verdict_def)
qed

theorem rejection_exact_witness:
  "case engine_execute engine_host (engine_input False) (demo_world []) of
     (w', Inl e) \<Rightarrow> False | (w', Inr r) \<Rightarrow> lr_current_state r = REJECTED \<and> w' = demo_world []"
proof -
  have "\<exists>w' r. engine_execute engine_host (engine_input False) (demo_world []) = (w', Inr r)"
    by (rule engine_runs [OF engine_setup(1,2,3,4,5)]) auto
  then obtain w' r where run: "engine_execute engine_host (engine_input False) (demo_world []) = (w', Inr r)"
    by blast
  with rejection_exact [OF run] show ?thesis using engine_setup(3,4) engine_setup(5) [of False] by auto
qed

text \<open>
  C4: an exception that leaves the engine is one of its callees' or a
  refusal with a cause: a state transition or a change of the provenance graph is never refused,
  an audit event only when the digest collides, and the machine raises only ValueError, for a
  finding without an identifier or evidence the contract does not accept.
\<close>

theorem engine_errors_explained:
  assumes "engine_execute h li w = (w', Inl e)"
  shows "case e of
      GraphRaised x \<Rightarrow> False
    | MachineRaised x \<Rightarrow> x = LifecycleValueError \<and>
        (blank (fi_finding_id (li_finding li)) \<or> (\<exists>p a v. returns (li_plan li) \<and> engine_contract h p a v = Inl x))
    | AuditRaised x \<Rightarrow> \<exists>x y. collides (ho_sha256 h) x y
    | PlanRaised m \<Rightarrow> li_plan li = Inl m
    | SnapshotRaised m \<Rightarrow> \<exists>st p. li_plan li = Inr (st, p) \<and> host_capture h w (pp_target_files p) = None
    | ProviderRaised m \<Rightarrow> \<exists>st p snap. li_plan li = Inr (st, p) \<and> resolve_token li p snap = Inl (ProviderRaised m)
    | TokenRaised x \<Rightarrow> \<exists>st p snap t. li_plan li = Inr (st, p) \<and> resolve_token li p snap = Inr (Some t) \<and>
        verify_valid (ho_sha256 h) (ho_fromisoformat h) (ho_clock h) t (fi_finding_id (li_finding li))
          (pp_proposal_fingerprint p) (ss_aggregate_hash snap) (path_str (ho_root h)) (Some (ho_now_iso h)) = Inl x
    | TransactionRaised x \<Rightarrow> \<exists>st p t. li_plan li = Inr (st, p) \<and>
        snd (execute_transaction h w (transaction_input_of li) p t (li_finding li) None) = Inl x"
proof -
  have e: "explained h li w e" by (rule engine_execute_raises [OF assms])
  show ?thesis
  proof (cases e)
    case (TransactionRaised x)
    with e show ?thesis by (simp, metis snd_conv)
  next
    case (MachineRaised x)
    with e show ?thesis by (auto simp: returns_iff)
  qed (use e in \<open>auto simp: engine_verdict_def\<close>)
qed

theorem engine_errors_explained_witness:
  "snd (engine_execute engine_host ((engine_input True)\<lparr> li_plan := Inl ''no strategy'' \<rparr>) (demo_world [])) =
     Inl (PlanRaised ''no strategy'')"
proof -
  let ?li = "(engine_input True)\<lparr> li_plan := Inl ''no strategy'' \<rparr>"
  obtain w' out where run: "engine_execute engine_host ?li (demo_world []) = (w', out)" by fastforce
  have plan: "li_plan ?li = Inl ''no strategy''" "\<not> blank (fi_finding_id (li_finding ?li))"
    using engine_setup(1) [of True] by simp_all
  show ?thesis
  proof (cases out)
    case (Inr r)
    with run have "engine_ends engine_host ?li (demo_world []) w' r" by (intro engine_execute_ends) simp
    then show ?thesis using plan(1) by (cases rule: engine_ends.cases) auto
  next
    case (Inl e)
    from engine_errors_explained [OF run [unfolded Inl]] plan engine_setup(2)
    have "e = PlanRaised ''no strategy''" by (cases e) (auto simp del: lifecycle_input.simps(17))
    with run Inl show ?thesis by simp
  qed
qed

text \<open>
  C5: with a finding that has an identifier, a digest without collisions and
  callees that return, the engine returns a result: it neither raises nor stops half way.
\<close>

theorem engine_returns:
  assumes "\<not> blank (fi_finding_id (li_finding li))" "\<And>x y. \<not> collides (ho_sha256 h) x y"
    "li_plan li = Inr (st, p)" "host_capture h w (pp_target_files p) = Some snap"
    "resolve_token li p snap = Inr (Some t)" "engine_verdict h li p snap t = Inr vd"
    "execute_transaction h w (transaction_input_of li) p t (li_finding li) None = (w1, Inr (a, v, t', recs))"
    "\<And>r. v = Some r \<Longrightarrow> returns (engine_contract h p a r)"
  shows "\<exists>w' r. engine_execute h li w = (w', Inr r) \<and>
    lr_current_state r = (if vd \<noteq> TOKEN_VALID then REJECTED
      else if ar_status a = AS_APPLIED then VERIFIED_FIXED else ROLLED_BACK)"
proof -
  have "\<exists>w' r. engine_execute h li w = (w', Inr r)"
    by (rule engine_runs [OF assms(1-5)]) (use assms(6-8) in auto)
  then obtain w' r where run: "engine_execute h li w = (w', Inr r)" by blast
  from engine_execute_ends [OF run]
  have "lr_current_state r = (if vd \<noteq> TOKEN_VALID then REJECTED
      else if ar_status a = AS_APPLIED then VERIFIED_FIXED else ROLLED_BACK)"
    by (cases rule: engine_ends.cases) (use assms(3-7) in \<open>auto simp: concluded_def result_at_def\<close>)
  with run show ?thesis by blast
qed

theorem engine_returns_witness:
  "\<exists>w' r. engine_execute engine_host (engine_input True) (demo_world []) = (w', Inr r) \<and>
     lr_current_state r = VERIFIED_FIXED"
proof -
  obtain w1 a v t' recs where tr: "execute_transaction engine_host (demo_world []) (transaction_input_of (engine_input True))
      engine_proposal (engine_token engine_proposal engine_snapshot) (li_finding (engine_input True)) None =
      (w1, Inr (a, v, t', recs))" "ar_status a = AS_APPLIED"
      "\<And>r. v = Some r \<Longrightarrow> returns (engine_contract engine_host engine_proposal a r)"
    using transaction_status_cases [OF applied_status] by metis
  from engine_returns [OF engine_setup(1-4) _ engine_setup(6) tr(1,3)] tr(2) show ?thesis
    by (simp add: engine_setup(5))
qed

text \<open>
  When the application reports that the recovery of the files failed,
  the engine's result and its ledger say ROLLED_BACK: the state CRITICAL_RECOVERY_FAILURE that is
  meant for it is not entered.
\<close>

theorem recovery_failure_hidden:
  assumes "engine_execute h li w = (w', Inr r)" "lr_application_result r = Some a"
    "ar_status a = AS_CRITICAL_RECOVERY_FAILURE"
  shows "lr_current_state r = ROLLED_BACK \<and> ae_lifecycle_state (last (lr_ledger r)) = ''ROLLED_BACK''"
  using engine_final_state [OF assms(1,2)] assms(3) by simp

theorem recovery_failure_hidden_witness:
  "\<exists>w' r a. engine_execute engine_host (engine_input True) failing_world = (w', Inr r) \<and>
     lr_application_result r = Some a \<and> ar_status a = AS_CRITICAL_RECOVERY_FAILURE \<and>
     lr_current_state r = ROLLED_BACK"
proof -
  obtain w' r a where run: "engine_execute engine_host (engine_input True) failing_world = (w', Inr r)"
    "lr_application_result r = Some a" "ar_status a = AS_CRITICAL_RECOVERY_FAILURE"
    using approved_run [OF critical_status [unfolded failing_world_def]] unfolding failing_world_def by blast
  with recovery_failure_hidden [OF run] show ?thesis by blast
qed

end
