(* ===== verification/CallGraph.thy ===== *)
theory CallGraph
  imports Prelude
begin

text \<open>
  The interprocedural call graph of \<^verbatim>\<open>graph/dataflow/call_graph.py\<close>: registered functions, call
  edges with their two indexes, and Tarjan's algorithm. The stack of the algorithm is kept with
  its top first; the recursion over the callees carries a fuel, and the number of registered
  functions is always enough of it.
\<close>

datatype call_resolution = CALL_RESOLVED | CALL_MULTIPLE | CALL_UNRESOLVED | CALL_DYNAMIC

record call_node =
  cn_node_id :: string
  cn_file_path :: string
  cn_function_name :: string
  cn_class_name :: string
  cn_namespace :: string

definition qualified_name :: "call_node \<Rightarrow> string" where
  "qualified_name n =
     py_join ''::'' ((if cn_namespace n \<noteq> [] then [cn_namespace n] else []) @
       (if cn_class_name n \<noteq> [] then [cn_class_name n] else []) @ [cn_function_name n])"

record call_edge =
  ce_caller_id :: string
  ce_callee_id :: string
  ce_call_site_id :: string
  ce_source_location :: string
  ce_line_number :: int
  ce_resolution_status :: call_resolution

record call_graph =
  cg_nodes :: "(string, call_node) dict"
  cg_edges :: "call_edge list"
  cg_outgoing :: "(string, call_edge list) dict"
  cg_incoming :: "(string, call_edge list) dict"

definition empty_call_graph :: call_graph where
  "empty_call_graph = \<lparr> cg_nodes = [], cg_edges = [], cg_outgoing = [], cg_incoming = [] \<rparr>"

definition add_function :: "call_graph \<Rightarrow> call_node \<Rightarrow> call_graph" where
  "add_function g n = g\<lparr> cg_nodes := dset (cg_nodes g) (cn_node_id n) n \<rparr>"

definition add_call :: "call_graph \<Rightarrow> call_edge \<Rightarrow> call_graph" where
  "add_call g e = g\<lparr> cg_edges := cg_edges g @ [e],
     cg_outgoing := dset (cg_outgoing g) (ce_caller_id e) (dget_default (cg_outgoing g) (ce_caller_id e) [] @ [e]),
     cg_incoming := dset (cg_incoming g) (ce_callee_id e) (dget_default (cg_incoming g) (ce_callee_id e) [] @ [e]) \<rparr>"

definition call_node_of :: "call_graph \<Rightarrow> string \<Rightarrow> call_node option" where
  "call_node_of g node_id = dget (cg_nodes g) node_id"

definition graph_nodes :: "call_graph \<Rightarrow> call_node list" where
  "graph_nodes g = map (\<lambda>k. the (dget (cg_nodes g) k)) (sort (dkeys (cg_nodes g)))"

definition graph_calls :: "call_graph \<Rightarrow> call_edge list" where
  "graph_calls g =
     sort_key (\<lambda>e. (ce_caller_id e, ce_callee_id e, ce_call_site_id e, ce_line_number e)) (cg_edges g)"

text \<open>The loop that collects registered nodes without repetition.\<close>

definition collect_nodes :: "call_graph \<Rightarrow> string list \<Rightarrow> call_node list" where
  "collect_nodes g ids = sort_key cn_node_id (dedup_onto [] (List.map_filter (call_node_of g) ids))"

definition get_callees :: "call_graph \<Rightarrow> string \<Rightarrow> call_node list" where
  "get_callees g caller_id = collect_nodes g (map ce_callee_id (dget_default (cg_outgoing g) caller_id []))"

definition get_callers :: "call_graph \<Rightarrow> string \<Rightarrow> call_node list" where
  "get_callers g callee_id = collect_nodes g (map ce_caller_id (dget_default (cg_incoming g) callee_id []))"

definition get_call_sites :: "call_graph \<Rightarrow> string \<Rightarrow> call_edge list" where
  "get_call_sites g caller_id =
     sort_key (\<lambda>e. (ce_callee_id e, ce_call_site_id e, ce_line_number e)) (dget_default (cg_outgoing g) caller_id [])"

section \<open>Tarjan's algorithm\<close>

record tarjan =
  ta_index :: nat
  ta_stack :: "string list"
  ta_on_stack :: "string set"
  ta_indices :: "(string, nat) dict"
  ta_lowlink :: "(string, nat) dict"
  ta_sccs :: "string list list"

definition tarjan_start :: tarjan where
  "tarjan_start = \<lparr> ta_index = 0, ta_stack = [], ta_on_stack = {}, ta_indices = [], ta_lowlink = [], ta_sccs = [] \<rparr>"

definition callee_ids :: "call_graph \<Rightarrow> string \<Rightarrow> string list" where
  "callee_ids g v =
     sort (remdups (filter (\<lambda>w. dget (cg_nodes g) w \<noteq> None) (map ce_callee_id (dget_default (cg_outgoing g) v []))))"

definition visit_node :: "string \<Rightarrow> tarjan \<Rightarrow> tarjan" where
  "visit_node v s = s\<lparr> ta_indices := dset (ta_indices s) v (ta_index s),
     ta_lowlink := dset (ta_lowlink s) v (ta_index s), ta_index := ta_index s + 1,
     ta_stack := v # ta_stack s, ta_on_stack := insert v (ta_on_stack s) \<rparr>"

definition num :: "tarjan \<Rightarrow> string \<Rightarrow> nat" where
  "num s v = dget_default (ta_indices s) v 0"

definition low :: "tarjan \<Rightarrow> string \<Rightarrow> nat" where
  "low s v = dget_default (ta_lowlink s) v 0"

definition lower_to :: "string \<Rightarrow> nat \<Rightarrow> tarjan \<Rightarrow> tarjan" where
  "lower_to v n s = s\<lparr> ta_lowlink := dset (ta_lowlink s) v (min (low s v) n) \<rparr>"

text \<open>The popping loop: what was popped, in that order, and what is left.\<close>

fun pop_until :: "string \<Rightarrow> string list \<Rightarrow> string list \<times> string list" where
  "pop_until v [] = ([], [])"
| "pop_until v (w # ws) =
     (if w = v then ([w], ws) else (let (c, rest) = pop_until v ws in (w # c, rest)))"

definition close_component :: "string \<Rightarrow> tarjan \<Rightarrow> tarjan" where
  "close_component v s =
     (if low s v = num s v
      then let (scc, rest) = pop_until v (ta_stack s)
           in s\<lparr> ta_stack := rest, ta_on_stack := ta_on_stack s - set scc,
                 ta_sccs := ta_sccs s @ [sort scc] \<rparr>
      else s)"

fun strongconnect :: "nat \<Rightarrow> call_graph \<Rightarrow> string \<Rightarrow> tarjan \<Rightarrow> tarjan option"
  and connect_callees :: "nat \<Rightarrow> call_graph \<Rightarrow> string \<Rightarrow> string list \<Rightarrow> tarjan \<Rightarrow> tarjan option" where
  "strongconnect 0 g v s = None"
| "strongconnect (Suc fuel) g v s =
     map_option (close_component v) (connect_callees fuel g v (callee_ids g v) (visit_node v s))"
| "connect_callees fuel g v [] s = Some s"
| "connect_callees fuel g v (w # ws) s =
     (if dget (ta_indices s) w = None
      then case strongconnect fuel g w s of
             None \<Rightarrow> None
           | Some s' \<Rightarrow> connect_callees fuel g v ws (lower_to v (low s' w) s')
      else if w \<in> ta_on_stack s then connect_callees fuel g v ws (lower_to v (num s w) s)
      else connect_callees fuel g v ws s)"

fun connect_all :: "nat \<Rightarrow> call_graph \<Rightarrow> string list \<Rightarrow> tarjan \<Rightarrow> tarjan option" where
  "connect_all fuel g [] s = Some s"
| "connect_all fuel g (v # vs) s =
     (if dget (ta_indices s) v = None
      then Option.bind (strongconnect fuel g v s) (connect_all fuel g vs)
      else connect_all fuel g vs s)"

definition strongly_connected_components :: "call_graph \<Rightarrow> string list list option" where
  "strongly_connected_components g =
     map_option ta_sccs
       (connect_all (length (cg_nodes g)) g (sort (dkeys (cg_nodes g))) tarjan_start)"

section \<open>Components\<close>

definition registered :: "call_graph \<Rightarrow> string set" where
  "registered g = set (dkeys (cg_nodes g))"

definition calls :: "call_graph \<Rightarrow> (string \<times> string) set" where
  "calls g = {(v, w). v \<in> registered g \<and> w \<in> set (callee_ids g v)}"

definition component :: "call_graph \<Rightarrow> string set \<Rightarrow> bool" where
  "component g C \<longleftrightarrow> C \<noteq> {} \<and>
     (\<forall>x\<in>C. \<forall>y. y \<in> C \<longleftrightarrow> (x, y) \<in> (calls g)\<^sup>* \<and> (y, x) \<in> (calls g)\<^sup>*)"

text \<open>No component calls into a later one.\<close>

definition bottom_up :: "call_graph \<Rightarrow> string list list \<Rightarrow> bool" where
  "bottom_up g cs \<longleftrightarrow>
     (\<forall>i<length cs. calls g `` set (cs ! i) \<subseteq> \<Union> (set ` set (take (Suc i) cs)))"

lemma bottom_up_snoc:
  "bottom_up g (cs @ [c]) \<longleftrightarrow> bottom_up g cs \<and> calls g `` set c \<subseteq> \<Union> (set ` set cs) \<union> set c"
proof -
  have "(\<forall>i<length cs. calls g `` set ((cs @ [c]) ! i) \<subseteq> \<Union> (set ` set (take (Suc i) (cs @ [c])))) \<longleftrightarrow>
      bottom_up g cs"
    unfolding bottom_up_def by (intro all_cong) (simp add: nth_append)
  then show ?thesis
    unfolding bottom_up_def [of g "cs @ [c]"] length_append_singleton All_less_Suc by (auto simp: Un_commute)
qed

lemma set_callee_ids:
  "set (callee_ids g v) = {w. w \<in> registered g \<and> w \<in> ce_callee_id ` set (dget_default (cg_outgoing g) v [])}"
proof -
  have "dget (cg_nodes g) w \<noteq> None \<longleftrightarrow> w \<in> registered g" for w
    by (simp only: registered_def dget_None_iff) simp
  then show ?thesis by (auto simp: callee_ids_def simp del: not_None_eq)
qed

lemma calls_registered: "(v, w) \<in> calls g \<Longrightarrow> v \<in> registered g \<and> w \<in> registered g"
  by (auto simp: calls_def set_callee_ids)

definition visited :: "tarjan \<Rightarrow> string set" where
  "visited s = set (dkeys (ta_indices s))"

lemma unvisited_iff: "dget (ta_indices s) w = None \<longleftrightarrow> w \<notin> visited s"
  by (simp add: visited_def dget_None_iff)

definition emitted :: "tarjan \<Rightarrow> string set" where
  "emitted s = visited s - set (ta_stack s)"

definition tarjan_inv :: "call_graph \<Rightarrow> string set \<Rightarrow> tarjan \<Rightarrow> bool" where
  [inv_simps]: "tarjan_inv g gray s \<longleftrightarrow>
     visited s \<subseteq> registered g \<and> set (ta_stack s) \<subseteq> visited s \<and> ta_on_stack s = set (ta_stack s) \<and>
     gray \<subseteq> set (ta_stack s) \<and> (\<forall>x\<in>visited s. num s x < ta_index s) \<and>
     sorted_wrt (\<lambda>x y. num s y < num s x) (ta_stack s) \<and>
     (\<forall>x\<in>visited s - gray. calls g `` {x} \<subseteq> visited s) \<and>
     calls g `` emitted s \<subseteq> emitted s \<and>
     (\<forall>x\<in>set (ta_stack s). \<forall>y\<in>set (ta_stack s). num s x \<le> num s y \<longrightarrow> (x, y) \<in> (calls g)\<^sup>*) \<and>
     (\<forall>y\<in>set (ta_stack s). \<exists>x\<in>gray. num s x \<le> num s y \<and> (y, x) \<in> (calls g)\<^sup>*) \<and>
     (\<forall>c\<in>set (ta_sccs s). component g (set c) \<and> sorted c \<and> distinct c) \<and>
     distinct (map set (ta_sccs s)) \<and>
     \<Union> (set ` set (ta_sccs s)) = emitted s \<and> bottom_up g (ta_sccs s)"

section \<open>The invariant of the search\<close>

lemma visit_node_simps [simp]:
  "visited (visit_node v s) = insert v (visited s)" "ta_stack (visit_node v s) = v # ta_stack s"
  "ta_on_stack (visit_node v s) = insert v (ta_on_stack s)" "ta_sccs (visit_node v s) = ta_sccs s"
  "ta_index (visit_node v s) = Suc (ta_index s)"
  "num (visit_node v s) x = (if x = v then ta_index s else num s x)"
  "low (visit_node v s) x = (if x = v then ta_index s else low s x)"
  by (simp_all add: visit_node_def visited_def num_def low_def AList.dom_update)

lemma lower_to_simps [simp]:
  "visited (lower_to v n s) = visited s" "ta_stack (lower_to v n s) = ta_stack s"
  "ta_on_stack (lower_to v n s) = ta_on_stack s" "ta_sccs (lower_to v n s) = ta_sccs s"
  "ta_index (lower_to v n s) = ta_index s" "num (lower_to v n s) x = num s x"
  "low (lower_to v n s) x = (if x = v then min (low s v) n else low s x)"
  by (simp_all add: lower_to_def visited_def num_def low_def)

lemma tarjan_inv_lower_to [simp]: "tarjan_inv g gray (lower_to v n s) = tarjan_inv g gray s"
  by (simp add: tarjan_inv_def emitted_def)

lemma tarjan_invD:
  assumes "tarjan_inv g gray s"
  shows "visited s \<subseteq> registered g" "set (ta_stack s) \<subseteq> visited s" "ta_on_stack s = set (ta_stack s)"
    "gray \<subseteq> set (ta_stack s)" "\<forall>x\<in>visited s. num s x < ta_index s"
    "sorted_wrt (\<lambda>x y. num s y < num s x) (ta_stack s)"
    "\<forall>x\<in>visited s - gray. calls g `` {x} \<subseteq> visited s" "calls g `` emitted s \<subseteq> emitted s"
    "\<forall>x\<in>set (ta_stack s). \<forall>y\<in>set (ta_stack s). num s x \<le> num s y \<longrightarrow> (x, y) \<in> (calls g)\<^sup>*"
    "\<forall>y\<in>set (ta_stack s). \<exists>x\<in>gray. num s x \<le> num s y \<and> (y, x) \<in> (calls g)\<^sup>*"
    "\<forall>c\<in>set (ta_sccs s). component g (set c) \<and> sorted c \<and> distinct c"
    "distinct (map set (ta_sccs s))" "\<Union> (set ` set (ta_sccs s)) = emitted s" "bottom_up g (ta_sccs s)"
  by (insert assms, unfold tarjan_inv_def, (elim conjE, assumption)+)

lemma tarjan_invI:
  assumes "visited s \<subseteq> registered g" "set (ta_stack s) \<subseteq> visited s" "ta_on_stack s = set (ta_stack s)"
    "gray \<subseteq> set (ta_stack s)" "\<forall>x\<in>visited s. num s x < ta_index s"
    "sorted_wrt (\<lambda>x y. num s y < num s x) (ta_stack s)"
    "\<forall>x\<in>visited s - gray. calls g `` {x} \<subseteq> visited s" "calls g `` emitted s \<subseteq> emitted s"
    "\<forall>x\<in>set (ta_stack s). \<forall>y\<in>set (ta_stack s). num s x \<le> num s y \<longrightarrow> (x, y) \<in> (calls g)\<^sup>*"
    "\<forall>y\<in>set (ta_stack s). \<exists>x\<in>gray. num s x \<le> num s y \<and> (y, x) \<in> (calls g)\<^sup>*"
    "\<forall>c\<in>set (ta_sccs s). component g (set c) \<and> sorted c \<and> distinct c"
    "distinct (map set (ta_sccs s))" "\<Union> (set ` set (ta_sccs s)) = emitted s" "bottom_up g (ta_sccs s)"
  shows "tarjan_inv g gray s"
  unfolding tarjan_inv_def by (intro conjI assms)

lemma pop_until_append: "v \<notin> set new \<Longrightarrow> pop_until v (new @ v # rest) = (new @ [v], rest)"
  by (induction new) auto

lemma calls_closed_reach:
  assumes "calls g `` S \<subseteq> S" "x \<in> S" "(x, y) \<in> (calls g)\<^sup>*"
  shows "y \<in> S"
  using Image_closed_trancl [OF assms(1)] assms(2,3) by blast

text \<open>What is visited keeps its number; what becomes visited gets a later one.\<close>

definition extends :: "tarjan \<Rightarrow> tarjan \<Rightarrow> bool" where
  "extends s s' \<longleftrightarrow> visited s \<subseteq> visited s' \<and> ta_index s \<le> ta_index s' \<and>
     (\<forall>x\<in>visited s. num s' x = num s x) \<and> (\<forall>x\<in>visited s' - visited s. ta_index s \<le> num s' x)"

lemma extends_refl [simp]: "extends s s"
  by (simp add: extends_def)

lemma extends_trans: "extends s t \<Longrightarrow> extends t u \<Longrightarrow> extends s u"
  unfolding extends_def by (metis Diff_iff dual_order.trans subsetD subsetI)

lemma extends_lower_to [simp]: "extends s (lower_to v n t) = extends s t" "extends (lower_to v n t) s = extends t s"
  by (simp_all add: extends_def)

lemma extends_visit [simp]: "v \<notin> visited s \<Longrightarrow> extends s (visit_node v s)"
  by (auto simp: extends_def)

text \<open>
  After exploring callees of the gray node \<open>v\<close>: what was pushed is above the old stack, and the
  low link of \<open>v\<close> is at most the number of every old stack node that a pushed node calls, and is
  itself the number of an old stack node that \<open>v\<close> reaches when it was lowered.
\<close>

definition explored :: "call_graph \<Rightarrow> string \<Rightarrow> string set \<Rightarrow> tarjan \<Rightarrow> tarjan \<Rightarrow> bool" where
  "explored g v W s s' \<longleftrightarrow> extends s s' \<and> W \<subseteq> visited s' \<and>
     (\<forall>x\<in>visited s - {v}. low s' x = low s x) \<and> low s' v \<le> low s v \<and>
     (low s' v = low s v \<or> (\<exists>y\<in>set (ta_stack s). num s y = low s' v \<and> (v, y) \<in> (calls g)\<^sup>*)) \<and>
     (\<forall>w\<in>W \<inter> set (ta_stack s). low s' v \<le> num s w) \<and>
     (\<exists>new. ta_stack s' = new @ ta_stack s \<and> set new \<inter> visited s = {} \<and>
        (\<forall>x\<in>set new. \<forall>y\<in>calls g `` {x} \<inter> set (ta_stack s). low s' v \<le> num s y))"

text \<open>After a call of \<open>strongconnect\<close>.\<close>

definition connected :: "call_graph \<Rightarrow> string \<Rightarrow> tarjan \<Rightarrow> tarjan \<Rightarrow> bool" where
  "connected g v s s' \<longleftrightarrow> extends s s' \<and> v \<in> visited s' \<and>
     (\<forall>x\<in>visited s. low s' x = low s x) \<and>
     (ta_stack s' = ta_stack s \<and> low s' v = ta_index s \<or>
      (\<exists>y\<in>set (ta_stack s). num s y = low s' v \<and> (v, y) \<in> (calls g)\<^sup>*)) \<and>
     (\<exists>new. ta_stack s' = new @ ta_stack s \<and> set new \<inter> visited s = {} \<and>
        (\<forall>x\<in>set new. \<forall>y\<in>calls g `` {x} \<inter> set (ta_stack s). low s' v \<le> num s y))"

lemma explored_refl: "explored g v {} s s"
  by (simp add: explored_def)

text \<open>The three ways of treating one callee.\<close>

lemma explored_other:
  assumes "w \<in> visited s" "w \<notin> set (ta_stack s)" "explored g v W s s'"
  shows "explored g v (insert w W) s s'"
  using assms by (auto simp: explored_def extends_def)

lemma explored_stack:
  assumes ex: "explored g v W (lower_to v (num s w) s) s'" and w: "w \<in> set (ta_stack s)" "(v, w) \<in> calls g"
    and inv: "tarjan_inv g gray s"
  shows "explored g v (insert w W) s s'"
proof -
  have vis: "w \<in> visited s" using inv w(1) by (auto simp: tarjan_inv_def)
  have "low s' v = low s v \<or> (\<exists>y\<in>set (ta_stack s). num s y = low s' v \<and> (v, y) \<in> (calls g)\<^sup>*)"
    using ex w by (auto simp: explored_def min_def split: if_splits)
  moreover have "low s' v \<le> num s w" "low s' v \<le> low s v" using ex by (auto simp: explored_def)
  ultimately show ?thesis using ex vis w(1) by (auto simp: explored_def extends_def)
qed

lemma explored_connected:
  assumes con: "connected g w s t" and ex: "explored g v W (lower_to v (low t w) t) s'"
    and inv: "tarjan_inv g gray s" "tarjan_inv g gray' t"
    and v: "v \<in> set (ta_stack s)" "low s v \<le> num s v" and w: "w \<notin> visited s" "(v, w) \<in> calls g"
  shows "explored g v (insert w W) s s'"
proof -
  let ?t = "lower_to v (low t w) t"
  have st: "set (ta_stack s) \<subseteq> visited s" "\<forall>x\<in>visited s. num s x < ta_index s"
    using inv(1) by (auto simp: tarjan_inv_def)
  have ext: "extends s t" "extends t s'" "extends s s'" "w \<in> visited t"
    using con ex extends_trans by (auto simp: connected_def explored_def)
  then have sub: "visited s \<subseteq> visited t" "visited t \<subseteq> visited s'" and eq: "\<forall>x\<in>visited s. num t x = num s x"
    by (auto simp: extends_def)
  obtain new1 where n1: "ta_stack t = new1 @ ta_stack s" "set new1 \<inter> visited s = {}"
    "\<forall>x\<in>set new1. \<forall>y\<in>calls g `` {x} \<inter> set (ta_stack s). low t w \<le> num s y"
    using con by (auto simp: connected_def)
  obtain new2 where n2: "ta_stack s' = new2 @ ta_stack t" "set new2 \<inter> visited t = {}"
    "\<forall>x\<in>set new2. \<forall>y\<in>calls g `` {x} \<inter> set (ta_stack t). low s' v \<le> num t y"
    using ex by (auto simp: explored_def)
  have lowv: "low t v = low s v" using con v(1) st(1) by (auto simp: connected_def)
  have small: "low s v < ta_index s" using v st by force
  have le: "low s' v \<le> min (low s v) (low t w)" using ex lowv by (simp add: explored_def)
  have late: "ta_index s \<le> num t y" if "y \<in> set new1" for y
    using that n1 ext(1) inv(2) by (auto simp: extends_def tarjan_inv_def)
  have exact: "low s' v = low s v \<or> (\<exists>y\<in>set (ta_stack s). num s y = low s' v \<and> (v, y) \<in> (calls g)\<^sup>*)"
  proof -
    have "low s' v = min (low s v) (low t w) \<or>
        (\<exists>y\<in>set (ta_stack t). num t y = low s' v \<and> (v, y) \<in> (calls g)\<^sup>*)"
      using ex lowv by (auto simp: explored_def)
    then show ?thesis
    proof
      assume m: "low s' v = min (low s v) (low t w)"
      show ?thesis
      proof (cases "low t w < low s v")
        case True
        with small con obtain y where "y \<in> set (ta_stack s)" "num s y = low t w" "(w, y) \<in> (calls g)\<^sup>*"
          by (auto simp: connected_def)
        with True m w(2) show ?thesis by (auto intro: converse_rtrancl_into_rtrancl)
      qed (use m in auto)
    next
      assume "\<exists>y\<in>set (ta_stack t). num t y = low s' v \<and> (v, y) \<in> (calls g)\<^sup>*"
      then obtain y where y: "y \<in> set (ta_stack t)" "num t y = low s' v" "(v, y) \<in> (calls g)\<^sup>*" by blast
      have "y \<notin> set new1" using late y(2) le small by fastforce
      with y n1(1) eq st(1) show ?thesis by auto
    qed
  qed
  have old: "low s' v \<le> num s y" if "y \<in> (insert w W) \<inter> set (ta_stack s)" for y
  proof -
    have y: "y \<in> W" "y \<in> set (ta_stack t)" "num t y = num s y" using that w(1) st(1) eq n1(1) by auto
    have "\<forall>w\<in>W \<inter> set (ta_stack t). low s' v \<le> num t w" using ex by (simp add: explored_def)
    with y have "low s' v \<le> num t y" by blast
    with y show ?thesis by simp
  qed
  have bound: "low s' v \<le> num s y" if "x \<in> set (new2 @ new1)" "y \<in> calls g `` {x} \<inter> set (ta_stack s)" for x y
  proof (cases "x \<in> set new1")
    case True
    with n1(3) that(2) have "low t w \<le> num s y" by blast
    with le show ?thesis by simp
  next
    case False
    with that n2(3) n1(1) have "low s' v \<le> num t y" by auto
    with that(2) eq st(1) show ?thesis by auto
  qed
  have keep: "\<forall>x\<in>visited s - {v}. low s' x = low s x"
  proof
    fix x assume x: "x \<in> visited s - {v}"
    then have "low t x = low s x" using con by (simp add: connected_def)
    moreover have "low s' x = low t x" using ex x sub(1) unfolding explored_def by auto
    ultimately show "low s' x = low s x" by simp
  qed
  have "insert w W \<subseteq> visited s'" using ext(4) sub ex by (auto simp: explored_def)
  moreover have "ta_stack s' = (new2 @ new1) @ ta_stack s" "set (new2 @ new1) \<inter> visited s = {}"
    using n1(1,2) n2(1,2) sub(1) by auto
  moreover have "low s' v \<le> low s v" using le by simp
  ultimately show ?thesis
    unfolding explored_def using ext(3) keep exact old bound
    by (intro conjI exI [of _ "new2 @ new1"] ballI) simp_all
qed


text \<open>Entering a node: it becomes gray, on top of the stack.\<close>

lemma tarjan_inv_visit:
  assumes inv: "tarjan_inv g gray s" and v: "v \<in> registered g" "v \<notin> visited s"
    and reach: "\<forall>x\<in>gray. (x, v) \<in> (calls g)\<^sup>*"
  shows "tarjan_inv g (insert v gray) (visit_node v s)"
proof -
  note i = tarjan_invD [OF inv]
  let ?s = "visit_node v s"
  have stack: "x \<in> set (ta_stack s) \<Longrightarrow> x \<noteq> v" for x using v(2) i(2) by blast
  have lt: "x \<in> visited s \<Longrightarrow> num s x < ta_index s" for x using i(5) by blast
  have same: "x \<in> set (ta_stack s) \<Longrightarrow> num ?s x = num s x" for x using stack by simp
  have to_v: "(y, v) \<in> (calls g)\<^sup>*" if y: "y \<in> set (ta_stack s)" for y
  proof -
    obtain x where "x \<in> gray" "(y, x) \<in> (calls g)\<^sup>*" using i(10) y by blast
    with reach show ?thesis by (blast intro: rtrancl_trans)
  qed
  have em: "emitted ?s = emitted s" using v(2) by (auto simp: emitted_def)
  show ?thesis
  proof (rule tarjan_invI, unfold em)
    show "visited ?s \<subseteq> registered g" "set (ta_stack ?s) \<subseteq> visited ?s" "ta_on_stack ?s = set (ta_stack ?s)"
      "insert v gray \<subseteq> set (ta_stack ?s)" using i(1-4) v(1) by auto
    show "\<forall>x\<in>visited ?s. num ?s x < ta_index ?s" using lt by fastforce
    show "sorted_wrt (\<lambda>x y. num ?s y < num ?s x) (ta_stack ?s)"
      using sorted_wrt_mono_rel [OF _ i(6), of "\<lambda>x y. num ?s y < num ?s x"] same stack lt i(2) by auto
    show "\<forall>x\<in>visited ?s - insert v gray. calls g `` {x} \<subseteq> visited ?s" using i(7) by auto
    show "\<forall>x\<in>set (ta_stack ?s). \<forall>y\<in>set (ta_stack ?s). num ?s x \<le> num ?s y \<longrightarrow> (x, y) \<in> (calls g)\<^sup>*"
    proof (intro ballI impI)
      fix x y assume a: "x \<in> set (ta_stack ?s)" "y \<in> set (ta_stack ?s)" "num ?s x \<le> num ?s y"
      show "(x, y) \<in> (calls g)\<^sup>*"
      proof (cases "x = v")
        case True
        then have "y = v" using a lt [of y] i(2) by (auto split: if_splits)
        with True show ?thesis by simp
      next
        case False
        then show ?thesis using a to_v i(9) same by (cases "y = v") auto
      qed
    qed
    show "\<forall>y\<in>set (ta_stack ?s). \<exists>x\<in>insert v gray. num ?s x \<le> num ?s y \<and> (y, x) \<in> (calls g)\<^sup>*"
    proof
      fix y assume y: "y \<in> set (ta_stack ?s)"
      show "\<exists>x\<in>insert v gray. num ?s x \<le> num ?s y \<and> (y, x) \<in> (calls g)\<^sup>*"
      proof (cases "y = v")
        case False
        with y i(10) obtain x where "x \<in> gray" "num s x \<le> num s y" "(y, x) \<in> (calls g)\<^sup>*" by auto
        moreover from this have "x \<noteq> v" using i(4) stack by blast
        ultimately show ?thesis using False by auto
      qed auto
    qed
  qed (use i(8,11-) in simp_all)
qed

section \<open>Closing a component\<close>

text \<open>Leaving a node: its component is emitted, or it stays on the stack below an older node.\<close>

lemma distinct_by_num: "sorted_wrt (\<lambda>x y. f y < (f x :: nat)) xs \<Longrightarrow> distinct xs"
  by (induction xs) auto

lemma component_intro:
  assumes "v \<in> C" and out: "\<forall>x\<in>C. (v, x) \<in> (calls g)\<^sup>*" and home: "\<forall>x\<in>C. (x, v) \<in> (calls g)\<^sup>*"
    and closed: "calls g `` (C \<union> D) \<subseteq> C \<union> D" "calls g `` D \<subseteq> D" "C \<inter> D = {}"
  shows "component g C"
  unfolding component_def
proof (intro conjI ballI allI)
  show "C \<noteq> {}" using assms(1) by blast
  fix x y assume x: "x \<in> C"
  show "y \<in> C \<longleftrightarrow> (x, y) \<in> (calls g)\<^sup>* \<and> (y, x) \<in> (calls g)\<^sup>*"
  proof
    assume "y \<in> C"
    with x out home show "(x, y) \<in> (calls g)\<^sup>* \<and> (y, x) \<in> (calls g)\<^sup>*" by (meson rtrancl_trans)
  next
    assume a: "(x, y) \<in> (calls g)\<^sup>* \<and> (y, x) \<in> (calls g)\<^sup>*"
    then have "y \<in> C \<union> D" using calls_closed_reach [OF closed(1)] x by blast
    moreover have "y \<notin> D" using calls_closed_reach [OF closed(2), of y x] a x closed(3) by blast
    ultimately show "y \<in> C" by blast
  qed
qed

lemma close_connected:
  assumes inv: "tarjan_inv g gray s" and v: "v \<in> registered g" "v \<notin> visited s"
    and reach: "\<forall>x\<in>gray. (x, v) \<in> (calls g)\<^sup>*"
    and inv': "tarjan_inv g (insert v gray) t"
    and ex: "explored g v (set (callee_ids g v)) (visit_node v s) t"
  shows "tarjan_inv g gray (close_component v t) \<and> connected g v s (close_component v t)"
proof -
  note i = tarjan_invD [OF inv] and j = tarjan_invD [OF inv']
  obtain new where new: "ta_stack t = new @ v # ta_stack s" "set new \<inter> insert v (visited s) = {}"
    "\<forall>x\<in>set new. \<forall>y\<in>calls g `` {x} \<inter> set (ta_stack (visit_node v s)). low t v \<le> num (visit_node v s) y"
    using ex by (auto simp: explored_def)
  have ext: "extends (visit_node v s) t" and ext': "extends s t"
    using ex extends_trans [OF extends_visit [OF v(2)]] by (auto simp: explored_def)
  have old: "num t x = num s x" if "x \<in> visited s" for x using ext' that by (simp add: extends_def)
  have vn: "num t v = ta_index s" using ext by (simp add: extends_def)
  have callees: "calls g `` {v} = set (callee_ids g v)" using v(1) by (auto simp: calls_def)
  have callees_in: "calls g `` {v} \<subseteq> visited t" using ex callees by (simp add: explored_def)
  have lowv: "low t v \<le> num t v" using ex vn by (simp add: explored_def)
  have below: "num s y < ta_index s" if "y \<in> set (ta_stack s)" for y using that i(2,5) by blast
  have bound: "low t v \<le> num s y" if "x \<in> insert v (set new)" "(x, y) \<in> calls g" "y \<in> set (ta_stack s)" for x y
  proof -
    have y: "y \<noteq> v" using that(3) i(2) v(2) by blast
    show ?thesis
    proof (cases "x = v")
      case True
      then have "y \<in> set (callee_ids g v) \<inter> set (ta_stack (visit_node v s))" using that callees by auto
      then have "low t v \<le> num (visit_node v s) y" using ex unfolding explored_def by blast
      with y show ?thesis by simp
    next
      case False
      with that have "low t v \<le> num (visit_node v s) y" using new(3) by auto
      with y show ?thesis by simp
    qed
  qed
  have gray_v: "v \<notin> gray" using i(2,4) v(2) by blast
  have black: "calls g `` {x} \<subseteq> visited t" if "x \<in> visited t - gray" for x
    using that j(7) callees_in by (cases "x = v") auto
  have keep: "\<forall>x\<in>visited s. low t x = low s x"
    using ex v(2) unfolding explored_def by (auto split: if_splits)
  have vt: "v \<in> visited t" "visited s \<subseteq> visited t" using ext by (auto simp: extends_def)
  show ?thesis
  proof (cases "low t v = num t v")
    case True
    have pop: "pop_until v (ta_stack t) = (new @ [v], ta_stack s)"
      using new(1,2) pop_until_append by simp
    let ?t = "close_component v t"
    have t: "?t = t\<lparr> ta_stack := ta_stack s, ta_on_stack := ta_on_stack t - set (new @ [v]),
        ta_sccs := ta_sccs t @ [sort (new @ [v])] \<rparr>"
      using True pop by (simp add: close_component_def)
    have t_simps: "visited ?t = visited t" "num ?t = num t" "low ?t = low t" "ta_stack ?t = ta_stack s"
      "ta_index ?t = ta_index t"
      by (simp_all add: t visited_def num_def low_def fun_eq_iff)
    let ?C = "insert v (set new)"
    have dis: "?C \<inter> set (ta_stack s) = {}" using new(2) i(2) v(2) by auto
    have C_vis: "?C \<subseteq> visited t" using j(2) new(1) by auto
    have em: "emitted ?t = emitted t \<union> ?C"
      using new(1) dis C_vis by (auto simp: emitted_def t_simps)
    have em_dis: "?C \<inter> emitted t = {}" using new(1) by (auto simp: emitted_def)
    have no_edge: "y \<notin> set (ta_stack s)" if "x \<in> ?C" "(x, y) \<in> calls g" for x y
      using bound [OF that] True vn below [of y] by fastforce
    have closed: "calls g `` (?C \<union> emitted t) \<subseteq> ?C \<union> emitted t"
    proof
      fix y assume "y \<in> calls g `` (?C \<union> emitted t)"
      then obtain x where x: "x \<in> ?C \<union> emitted t" "(x, y) \<in> calls g" by blast
      show "y \<in> ?C \<union> emitted t"
      proof (cases "x \<in> emitted t")
        case True
        with x j(8) show ?thesis by blast
      next
        case False
        with x have xC: "x \<in> ?C" by blast
        then have "x \<notin> gray" using i(4) dis by blast
        with xC C_vis black x(2) have "y \<in> visited t" by blast
        with no_edge [OF xC x(2)] new(1) show ?thesis by (auto simp: emitted_def)
      qed
    qed
    have later: "num t v \<le> num t x" if "x \<in> ?C" for x
      using that j(6) new(1) by (auto simp: sorted_wrt_append less_imp_le)
    have out: "\<forall>x\<in>?C. (v, x) \<in> (calls g)\<^sup>*" using j(9) new(1) later by auto
    have home: "\<forall>x\<in>?C. (x, v) \<in> (calls g)\<^sup>*"
    proof
      fix x assume "x \<in> ?C"
      then have "x \<in> set (ta_stack t)" using new(1) by auto
      with j(10) obtain z where "z \<in> insert v gray" "(x, z) \<in> (calls g)\<^sup>*" by blast
      with reach show "(x, v) \<in> (calls g)\<^sup>*" by (auto intro: rtrancl_trans)
    qed
    have comp: "component g ?C" by (rule component_intro [OF _ out home closed j(8) em_dis]) simp
    have dist: "distinct (new @ [v])"
      using distinct_by_num [OF j(6)] new(1) by auto
    have "tarjan_inv g gray ?t"
    proof (rule tarjan_invI, unfold t_simps em)
      show "visited t \<subseteq> registered g" "\<forall>x\<in>visited t. num t x < ta_index t" by (rule j)+
      show "set (ta_stack s) \<subseteq> visited t" using i(2) vt(2) by blast
      show "ta_on_stack ?t = set (ta_stack s)" using j(3) new(1) dis by (auto simp: t)
      show "gray \<subseteq> set (ta_stack s)" by (rule i)
      show "sorted_wrt (\<lambda>x y. num t y < num t x) (ta_stack s)"
        using j(6) new(1) by (simp add: sorted_wrt_append)
      show "\<forall>x\<in>visited t - gray. calls g `` {x} \<subseteq> visited t" using black by blast
      show "calls g `` (emitted t \<union> ?C) \<subseteq> emitted t \<union> ?C" using closed by (simp add: Un_commute)
      show "\<forall>x\<in>set (ta_stack s). \<forall>y\<in>set (ta_stack s). num t x \<le> num t y \<longrightarrow> (x, y) \<in> (calls g)\<^sup>*"
        using j(9) new(1) by simp
      show "\<forall>y\<in>set (ta_stack s). \<exists>x\<in>gray. num t x \<le> num t y \<and> (y, x) \<in> (calls g)\<^sup>*"
      proof
        fix y assume y: "y \<in> set (ta_stack s)"
        with i(10) obtain x where "x \<in> gray" "num s x \<le> num s y" "(y, x) \<in> (calls g)\<^sup>*" by blast
        moreover from this y i(2,4) have "num t x = num s x" "num t y = num s y" by (blast intro: old)+
        ultimately show "\<exists>x\<in>gray. num t x \<le> num t y \<and> (y, x) \<in> (calls g)\<^sup>*" by metis
      qed
      show "\<forall>c\<in>set (ta_sccs ?t). component g (set c) \<and> sorted c \<and> distinct c"
        using j(11) comp dist by (auto simp: t)
      have "set (sort (new @ [v])) \<notin> set ` set (ta_sccs t)"
        using j(13) em_dis by (auto simp: image_iff)
      then show "distinct (map set (ta_sccs ?t))" using j(12) by (simp add: t)
      show "\<Union> (set ` set (ta_sccs ?t)) = emitted t \<union> ?C" using j(13) by (auto simp: t)
      have "calls g `` set (sort (new @ [v])) \<subseteq> \<Union> (set ` set (ta_sccs t)) \<union> set (sort (new @ [v]))"
        using closed unfolding j(13) by auto
      then show "bottom_up g (ta_sccs ?t)" using j(14) bottom_up_snoc by (simp add: t)
    qed
    moreover have "connected g v s ?t"
      unfolding connected_def t_simps
      using ext' vt keep True vn by (auto simp: extends_def t_simps)
    ultimately show ?thesis ..
  next
    case False
    then have t: "close_component v t = t" by (simp add: close_component_def)
    have less: "low t v < num t v" using False lowv by simp
    then obtain y where y: "y \<in> set (ta_stack s)" "num s y = low t v" "(v, y) \<in> (calls g)\<^sup>*"
      using ex vn by (auto simp: explored_def split: if_splits)
    obtain x where x: "x \<in> gray" "num s x \<le> num s y" "(y, x) \<in> (calls g)\<^sup>*" using i(10) y(1) by blast
    have "tarjan_inv g gray t"
    proof (rule tarjan_invI)
      show "gray \<subseteq> set (ta_stack t)" using j(4) by blast
      show "\<forall>x\<in>visited t - gray. calls g `` {x} \<subseteq> visited t" using black by blast
      show "\<forall>z\<in>set (ta_stack t). \<exists>x\<in>gray. num t x \<le> num t z \<and> (z, x) \<in> (calls g)\<^sup>*"
      proof
        fix z assume "z \<in> set (ta_stack t)"
        with j(10) obtain u where u: "u \<in> insert v gray" "num t u \<le> num t z" "(z, u) \<in> (calls g)\<^sup>*" by blast
        show "\<exists>x\<in>gray. num t x \<le> num t z \<and> (z, x) \<in> (calls g)\<^sup>*"
        proof (cases "u = v")
          case True
          have "num t x = num s x" using x(1) i(2,4) by (blast intro: old)
          then have "num t x \<le> num t z" using x(2) y(2) less u(2) True by simp
          moreover have "(z, x) \<in> (calls g)\<^sup>*" using u(3) y(3) x(3) True by (meson rtrancl_trans)
          ultimately show ?thesis using x(1) by blast
        qed (use u in blast)
      qed
    qed (rule j)+
    moreover have "connected g v s t"
    proof -
      have "ta_stack t = (new @ [v]) @ ta_stack s" "set (new @ [v]) \<inter> visited s = {}" using new v(2) by auto
      moreover have "\<forall>x\<in>set (new @ [v]). \<forall>y\<in>calls g `` {x} \<inter> set (ta_stack s). low t v \<le> num s y"
        using bound by auto
      ultimately show ?thesis
        unfolding connected_def using ext' vt(1) keep y by blast
    qed
    ultimately show ?thesis using t by simp
  qed
qed

section \<open>What the search finds\<close>

definition unvisited :: "call_graph \<Rightarrow> tarjan \<Rightarrow> nat" where
  "unvisited g s = card (registered g - visited s)"

lemma registered_finite [simp]: "finite (registered g)"
  by (simp add: registered_def)

lemma unvisited_mono: "visited s \<subseteq> visited t \<Longrightarrow> unvisited g t \<le> unvisited g s"
  unfolding unvisited_def by (intro card_mono) auto

lemma unvisited_visit:
  assumes "v \<in> registered g" "v \<notin> visited s"
  shows "unvisited g s = Suc (unvisited g (visit_node v s))"
proof -
  have eq: "registered g - visited s = insert v (registered g - insert v (visited s))" using assms by auto
  have "card (registered g - visited s) = Suc (card (registered g - insert v (visited s)))"
    unfolding eq by (rule card_insert_disjoint) auto
  then show ?thesis by (simp add: unvisited_def)
qed

text \<open>
  The recursion: with fuel for the nodes not yet visited, \<open>strongconnect\<close> returns, keeps the
  invariant and links its node; the loop over the callees explores them.
\<close>

lemma strongconnect_returns:
  "tarjan_inv g gray s \<Longrightarrow> v \<in> registered g \<Longrightarrow> v \<notin> visited s \<Longrightarrow> \<forall>x\<in>gray. (x, v) \<in> (calls g)\<^sup>* \<Longrightarrow>
     unvisited g s \<le> fuel \<Longrightarrow>
     \<exists>t. strongconnect fuel g v s = Some t \<and> tarjan_inv g gray t \<and> connected g v s t"
  "tarjan_inv g gray s \<Longrightarrow> v \<in> gray \<Longrightarrow> \<forall>x\<in>gray. (x, v) \<in> (calls g)\<^sup>* \<Longrightarrow> low s v \<le> num s v \<Longrightarrow>
     set ws \<subseteq> calls g `` {v} \<Longrightarrow> unvisited g s \<le> fuel \<Longrightarrow>
     \<exists>t. connect_callees fuel g v ws s = Some t \<and> tarjan_inv g gray t \<and> explored g v (set ws) s t"
proof (induction fuel g v s and fuel g v ws s arbitrary: gray and gray
    rule: strongconnect_connect_callees.induct)
  case (1 g v s)
  then have "v \<in> registered g - visited s" by blast
  then have "0 < unvisited g s" unfolding unvisited_def by (subst card_gt_0_iff) auto
  with "1.prems"(5) show ?case by simp
next
  case (2 fuel g v s)
  let ?s = "visit_node v s"
  have inv: "tarjan_inv g (insert v gray) ?s"
    by (rule tarjan_inv_visit [OF 2(2-5)])
  have "unvisited g ?s \<le> fuel" using unvisited_visit [OF 2(3,4)] 2(6) by simp
  moreover have "\<forall>x\<in>insert v gray. (x, v) \<in> (calls g)\<^sup>*" using 2(5) by blast
  moreover have "set (callee_ids g v) \<subseteq> calls g `` {v}" using 2(3) by (auto simp: calls_def)
  moreover have "low ?s v \<le> num ?s v" by simp
  ultimately obtain t where t: "connect_callees fuel g v (callee_ids g v) ?s = Some t"
    "tarjan_inv g (insert v gray) t" "explored g v (set (callee_ids g v)) ?s t"
    using 2(1) [OF inv] by blast
  with close_connected [OF 2(2-5) t(2,3)] show ?case by simp
next
  case (3 fuel g v s)
  then show ?case by (simp add: explored_refl)
next
  case (4 fuel g v w ws s)
  note i = tarjan_invD [OF 4(5)]
  have vs: "v \<in> set (ta_stack s)" using 4(6) i(4) by blast
  have vw: "(v, w) \<in> calls g" using 4(9) by auto
  consider (new) "w \<notin> visited s" | (stack) "w \<in> visited s" "w \<in> set (ta_stack s)"
    | (other) "w \<in> visited s" "w \<notin> set (ta_stack s)" by blast
  then show ?case
  proof cases
    case new
    have reach: "\<forall>x\<in>gray. (x, w) \<in> (calls g)\<^sup>*" using 4(7) vw by (meson rtrancl.rtrancl_into_rtrancl)
    have none: "dget (ta_indices s) w = None" using new by (simp add: unvisited_iff)
    obtain t where t: "strongconnect fuel g w s = Some t" "tarjan_inv g gray t" "connected g w s t"
      using 4(1) [OF none 4(5) _ new reach 4(10)] calls_registered [OF vw] by blast
    let ?t = "lower_to v (low t w) t"
    have ext: "extends s t" using t(3) by (simp add: connected_def)
    have v_vis: "v \<in> visited s" using vs i(2) by blast
    have "low t v = low s v" "num t v = num s v" using t(3) ext v_vis by (simp_all add: connected_def extends_def)
    then have "low ?t v \<le> num ?t v" using 4(8) by simp
    moreover have "unvisited g ?t \<le> fuel"
      using unvisited_mono [of s ?t g] ext 4(10) by (simp add: extends_def)
    moreover have "tarjan_inv g gray ?t" using t(2) by simp
    moreover have "set ws \<subseteq> calls g `` {v}" using 4(9) by simp
    ultimately obtain u where u: "connect_callees fuel g v ws ?t = Some u" "tarjan_inv g gray u"
      "explored g v (set ws) ?t u"
      using 4(2) [OF none t(1)] 4(6,7) by blast
    from explored_connected [OF t(3) u(3) 4(5) t(2) vs 4(8) new vw] u(1,2) t(1) none
    show ?thesis by simp
  next
    case stack
    have some: "dget (ta_indices s) w \<noteq> None" using stack(1) unvisited_iff by blast
    have on: "w \<in> ta_on_stack s" using stack(2) i(3) by simp
    let ?t = "lower_to v (num s w) s"
    have "low ?t v \<le> num ?t v" using 4(8) by simp
    moreover have "unvisited g ?t \<le> fuel" using 4(10) by (simp add: unvisited_def)
    moreover have "tarjan_inv g gray ?t" using 4(5) by simp
    moreover have "set ws \<subseteq> calls g `` {v}" using 4(9) by simp
    ultimately obtain u where u: "connect_callees fuel g v ws ?t = Some u" "tarjan_inv g gray u"
      "explored g v (set ws) ?t u"
      using 4(3) [OF some on] 4(6,7) by blast
    from explored_stack [OF u(3) stack(2) vw 4(5)] u(1,2) some on show ?thesis by (simp del: not_None_eq)
  next
    case other
    have some: "dget (ta_indices s) w \<noteq> None" using other(1) unvisited_iff by blast
    have off: "w \<notin> ta_on_stack s" using other(2) i(3) by simp
    have "set ws \<subseteq> calls g `` {v}" using 4(9) by simp
    then obtain u where u: "connect_callees fuel g v ws s = Some u" "tarjan_inv g gray u"
      "explored g v (set ws) s u"
      using 4(4) [OF some off 4(5-8) _ 4(10)] by blast
    from explored_other [OF other u(3)] u(1,2) some off show ?thesis by (simp del: not_None_eq)
  qed
qed

lemma connect_all_returns:
  assumes "tarjan_inv g {} s" "set vs \<subseteq> registered g" "unvisited g s \<le> fuel"
  shows "\<exists>t. connect_all fuel g vs s = Some t \<and> tarjan_inv g {} t \<and> visited s \<union> set vs \<subseteq> visited t"
  using assms
proof (induction vs arbitrary: s)
  case Nil
  then show ?case by simp
next
  case (Cons v vs)
  show ?case
  proof (cases "v \<in> visited s")
    case True
    obtain t where t: "connect_all fuel g vs s = Some t" "tarjan_inv g {} t" "visited s \<union> set vs \<subseteq> visited t"
      using Cons.IH [OF Cons.prems(1)] Cons.prems(2,3) by auto
    moreover have "connect_all fuel g (v # vs) s = connect_all fuel g vs s"
      using True unvisited_iff [of s v] by (simp del: not_None_eq)
    ultimately show ?thesis using True by auto
  next
    case False
    have "\<exists>t. strongconnect fuel g v s = Some t \<and> tarjan_inv g {} t \<and> connected g v s t"
      by (rule strongconnect_returns(1)) (use Cons.prems False in auto)
    then obtain t where t: "strongconnect fuel g v s = Some t" "tarjan_inv g {} t" "connected g v s t" by blast
    have vis: "visited s \<subseteq> visited t" "v \<in> visited t" using t(3) by (auto simp: connected_def extends_def)
    obtain u where "connect_all fuel g vs t = Some u" "tarjan_inv g {} u" "visited t \<union> set vs \<subseteq> visited u"
      using Cons.IH [OF t(2)] Cons.prems(2,3) unvisited_mono [OF vis(1), of g] by auto
    moreover have "dget (ta_indices s) v = None" using False by (simp add: unvisited_iff)
    ultimately show ?thesis using t(1) vis by auto
  qed
qed

lemma tarjan_start_inv: "tarjan_inv g {} tarjan_start"
  by (simp add: tarjan_inv_def tarjan_start_def visited_def emitted_def bottom_up_def)

lemma components_found:
  "\<exists>cs. strongly_connected_components g = Some cs \<and>
     (\<forall>c\<in>set cs. component g (set c) \<and> sorted c \<and> distinct c) \<and> distinct (map set cs) \<and>
     \<Union> (set ` set cs) = registered g \<and> bottom_up g cs"
proof -
  have "unvisited g tarjan_start \<le> length (cg_nodes g)"
    using card_length [of "map fst (cg_nodes g)"]
    by (simp add: unvisited_def registered_def tarjan_start_def visited_def)
  moreover have "set (sort (dkeys (cg_nodes g))) = registered g" by (simp add: registered_def)
  ultimately obtain t where t: "connect_all (length (cg_nodes g)) g (sort (dkeys (cg_nodes g))) tarjan_start = Some t"
    "tarjan_inv g {} t" "registered g \<subseteq> visited t"
    using connect_all_returns [OF tarjan_start_inv, of "sort (dkeys (cg_nodes g))" g "length (cg_nodes g)"] by auto
  note i = tarjan_invD [OF t(2)]
  have "ta_stack t = []" using i(10) by (cases "ta_stack t") auto
  then have "emitted t = registered g" using i(1) t(3) by (auto simp: emitted_def)
  with i t(1) show ?thesis by (auto simp: strongly_connected_components_def)
qed

section \<open>The indexes of the edges\<close>

definition indexed :: "call_graph \<Rightarrow> bool" where
  [inv_simps]: "indexed g \<longleftrightarrow>
     (\<forall>v. dget_default (cg_outgoing g) v [] = filter (\<lambda>e. ce_caller_id e = v) (cg_edges g)) \<and>
     (\<forall>v. dget_default (cg_incoming g) v [] = filter (\<lambda>e. ce_callee_id e = v) (cg_edges g)) \<and>
     (\<forall>k n. dget (cg_nodes g) k = Some n \<longrightarrow> cn_node_id n = k)"

lemma indexed_empty: "indexed empty_call_graph"
  by (simp add: indexed_def empty_call_graph_def dget_default_def)

lemma indexed_add_function: "indexed g \<Longrightarrow> indexed (add_function g n)"
  by (simp add: indexed_def add_function_def)

lemma indexed_add_call: "indexed g \<Longrightarrow> indexed (add_call g e)"
  by (auto simp: indexed_def add_call_def)

lemma set_collect_nodes: "set (collect_nodes g ids) = {n. \<exists>k\<in>set ids. call_node_of g k = Some n}"
  by (force simp: collect_nodes_def List.map_filter_def)

lemma get_callees_exact:
  "indexed g \<Longrightarrow> set (get_callees g v) =
     {n. \<exists>e\<in>set (cg_edges g). ce_caller_id e = v \<and> call_node_of g (ce_callee_id e) = Some n}"
  by (auto simp: get_callees_def set_collect_nodes indexed_def)

lemma get_callers_exact:
  "indexed g \<Longrightarrow> set (get_callers g v) =
     {n. \<exists>e\<in>set (cg_edges g). ce_callee_id e = v \<and> call_node_of g (ce_caller_id e) = Some n}"
  by (auto simp: get_callers_def set_collect_nodes indexed_def)

text \<open>Callees and callers are the two sides of the same relation.\<close>

lemma callee_iff_caller:
  assumes g: "indexed g" "call_node_of g (cn_node_id m) = Some m" "call_node_of g (cn_node_id n) = Some n"
  shows "n \<in> set (get_callees g (cn_node_id m)) \<longleftrightarrow> m \<in> set (get_callers g (cn_node_id n))"
proof -
  have key: "call_node_of g k = Some x \<Longrightarrow> cn_node_id x = k" for k x
    using g(1) by (simp add: indexed_def call_node_of_def)
  have n: "call_node_of g k = Some n \<longleftrightarrow> k = cn_node_id n" for k using key g(3) by blast
  have m: "call_node_of g k = Some m \<longleftrightarrow> k = cn_node_id m" for k using key g(2) by blast
  show ?thesis unfolding get_callees_exact [OF g(1)] get_callers_exact [OF g(1)] mem_Collect_eq n m by blast
qed

lemma set_graph_nodes: "set (graph_nodes g) = {n. \<exists>k. call_node_of g k = Some n}"
proof (intro set_eqI iffI)
  fix n
  assume "n \<in> set (graph_nodes g)"
  then obtain k where k: "k \<in> set (dkeys (cg_nodes g))" "n = the (dget (cg_nodes g) k)"
    unfolding graph_nodes_def set_map set_sort by blast
  have "dget (cg_nodes g) k \<noteq> None" using k(1) dget_None_iff [of "cg_nodes g" k] by blast
  then obtain x where "dget (cg_nodes g) k = Some x" by blast
  with k(2) have "call_node_of g k = Some n" by (simp add: call_node_of_def)
  then show "n \<in> {n. \<exists>k. call_node_of g k = Some n}" by blast
next
  fix n
  assume "n \<in> {n. \<exists>k. call_node_of g k = Some n}"
  then obtain k where k: "dget (cg_nodes g) k = Some n" unfolding call_node_of_def by blast
  have "k \<in> set (dkeys (cg_nodes g))" by (rule dget_Some_in [OF k])
  then show "n \<in> set (graph_nodes g)"
    unfolding graph_nodes_def set_map set_sort using image_eqI [of n "\<lambda>k. the (dget (cg_nodes g) k)" k] k by simp
qed

lemma component_same: "component g C \<Longrightarrow> component g D \<Longrightarrow> x \<in> C \<Longrightarrow> x \<in> D \<Longrightarrow> C = D"
  unfolding component_def by blast


section \<open>Properties\<close>

text \<open>
  C13: the call graph's search returns on every graph, whatever its
  edges. What it returns are exactly the strongly connected components of the call relation
  on registered functions, each once, sorted and without repetition, and no component calls
  into one that comes after it (callees come first).
\<close>

theorem tarjan_finds_components:
  "\<exists>cs. strongly_connected_components g = Some cs \<and>
     {set c |c. c \<in> set cs} = {C. component g C \<and> C \<subseteq> registered g} \<and>
     distinct cs \<and> list_all (\<lambda>c. sorted c \<and> distinct c) cs \<and> bottom_up g cs"
proof -
  obtain cs where cs: "strongly_connected_components g = Some cs"
    "\<forall>c\<in>set cs. component g (set c) \<and> sorted c \<and> distinct c"
    "distinct (map set cs)" "\<Union> (set ` set cs) = registered g" "bottom_up g cs"
    using components_found [of g] by blast
  have "\<exists>c\<in>set cs. set c = C" if C: "component g C" "C \<subseteq> registered g" for C
  proof -
    obtain x where x: "x \<in> C" using C(1) by (auto simp: component_def)
    then obtain c where c: "c \<in> set cs" "x \<in> set c" using C(2) cs(4) by blast
    then have "set c = C" using component_same [of g "set c" C x] cs(2) C(1) x by blast
    with c show ?thesis by blast
  qed
  moreover have "component g (set c) \<and> set c \<subseteq> registered g" if "c \<in> set cs" for c
    using cs(2,4) that by blast
  ultimately have "{set c |c. c \<in> set cs} = {C. component g C \<and> C \<subseteq> registered g}" by blast
  moreover have "distinct cs" using cs(3) by (simp add: distinct_map)
  moreover have "list_all (\<lambda>c. sorted c \<and> distinct c) cs" using cs(2) by (simp add: list_all_iff)
  ultimately show ?thesis using cs(1,5) by blast
qed

end
