(* ===== verification/Sweep.thy ===== *)
theory Sweep
  imports Prelude
begin

text \<open>
  The iteration the flow analyses share: sweep over the nodes, updating the state in place and
  noting whether anything changed, until a sweep changes nothing. A step may raise; the loop
  need not end, so not returning is the value \<^const>\<open>None\<close>.
\<close>

fun sweep :: "('n \<Rightarrow> 's \<Rightarrow> 'e + 's \<times> bool) \<Rightarrow> 'n list \<Rightarrow> 's \<Rightarrow> 'e + 's \<times> bool" where
  "sweep step [] s = Inr (s, False)"
| "sweep step (n # ns) s =
     rbind (step n s) (\<lambda>(s', c). rbind (sweep step ns s') (\<lambda>(s'', d). Inr (s'', c \<or> d)))"

partial_function (option) sweep_until_stable ::
  "('n \<Rightarrow> 's \<Rightarrow> 'e + 's \<times> bool) \<Rightarrow> 'n list \<Rightarrow> 's \<Rightarrow> ('e + 's) option" where
  "sweep_until_stable step ns s =
     (case sweep step ns s of
        Inl e \<Rightarrow> Some (Inl e)
      | Inr r \<Rightarrow> if snd r then sweep_until_stable step ns (fst r) else Some (Inr (fst r)))"

declare sweep_until_stable.simps [code]

text \<open>
  What a step promises the loop: on the nodes it may be used for it returns, keeps an
  invariant, leaves the state alone when it reports no change, and comes closer to the end
  when it reports one.
\<close>

locale sweeping =
  fixes step :: "'n \<Rightarrow> 's \<Rightarrow> 'e + 's \<times> bool"
    and nodes :: "'n set"
    and inv :: "'s \<Rightarrow> bool"
    and todo :: "'s \<Rightarrow> nat"
  assumes step_returns: "n \<in> nodes \<Longrightarrow> inv s \<Longrightarrow> \<exists>r. step n s = Inr r"
    and step_inv: "n \<in> nodes \<Longrightarrow> inv s \<Longrightarrow> step n s = Inr (t, c) \<Longrightarrow> inv t"
    and step_idle: "n \<in> nodes \<Longrightarrow> inv s \<Longrightarrow> step n s = Inr (t, False) \<Longrightarrow> t = s"
    and step_progress: "n \<in> nodes \<Longrightarrow> inv s \<Longrightarrow> step n s = Inr (t, True) \<Longrightarrow> todo t < todo s"
begin

lemma sweep_returns:
  assumes "set ns \<subseteq> nodes" "inv s"
  shows "\<exists>t c. sweep step ns s = Inr (t, c) \<and> inv t \<and>
    (c \<longrightarrow> todo t < todo s) \<and> (\<not> c \<longrightarrow> t = s \<and> (\<forall>n\<in>set ns. step n s = Inr (s, False)))"
  using assms
proof (induction ns arbitrary: s)
  case Nil
  then show ?case by (intro exI [of _ s] exI [of _ False]) simp
next
  case (Cons n ns)
  have n: "n \<in> nodes" using Cons.prems(1) by simp
  obtain u d where u: "step n s = Inr (u, d)" using step_returns [OF n Cons.prems(2)] by auto
  have "inv u" by (rule step_inv [OF n Cons.prems(2) u])
  then obtain t c where t: "sweep step ns u = Inr (t, c)" "inv t" "c \<longrightarrow> todo t < todo u"
    "\<not> c \<longrightarrow> t = u \<and> (\<forall>n\<in>set ns. step n u = Inr (u, False))"
    using Cons.IH [of u] Cons.prems(1) by auto
  have d: "d \<longrightarrow> todo u < todo s" "\<not> d \<longrightarrow> u = s"
    using step_progress [OF n Cons.prems(2)] step_idle [OF n Cons.prems(2)] u by (cases d; simp)+
  have "sweep step (n # ns) s = Inr (t, d \<or> c)" using u t(1) by simp
  with d t u show ?case by (cases d; cases c) auto
qed

lemma stable_result:
  assumes "set ns \<subseteq> nodes" "inv s"
  shows "\<exists>t. sweep_until_stable step ns s = Some (Inr t) \<and> inv t \<and>
    (\<forall>n\<in>set ns. step n t = Inr (t, False))"
  using assms(2)
proof (induction "todo s" arbitrary: s rule: less_induct)
  case less
  obtain t c where t: "sweep step ns s = Inr (t, c)" "inv t" "c \<longrightarrow> todo t < todo s"
    "\<not> c \<longrightarrow> t = s \<and> (\<forall>n\<in>set ns. step n s = Inr (s, False))"
    using sweep_returns [OF assms(1) less.prems] by auto
  show ?case
  proof (cases c)
    case True
    then show ?thesis using less.hyps [OF _ t(2)] t(1,3) by (subst sweep_until_stable.simps) simp
  next
    case False
    then show ?thesis using t by (subst sweep_until_stable.simps) simp
  qed
qed

end

end
