(* ===== verification/FlowGraph.thy ===== *)
theory FlowGraph
  imports Sweep
begin

text \<open>
  The control flow graphs of \<^verbatim>\<open>analysis/cfg/\<close> (\<^verbatim>\<open>models.py\<close>, \<^verbatim>\<open>builder.py\<close>, \<^verbatim>\<open>validator.py\<close>) over
  the statements of \<^verbatim>\<open>ir/nodes.py\<close>: the graph, its construction from a function's statements,
  and the validator, which the constructed graphs always pass.
\<close>

section \<open>The intermediate representation\<close>

record ir_head =
  ir_id :: string
  ir_line :: int
  ir_file_path :: string
  ir_language :: string

text \<open>The value of an assignment is kept as its printed form, the only use made of it.\<close>

datatype ir_statement =
    IRStatement ir_head
  | IRCall ir_head string "string list"
  | IRAssignment ir_head string string string
  | IRReturn ir_head string
  | IRIf ir_head string "ir_statement list" "ir_statement list"
  | IRLoop ir_head string string "ir_statement list"

fun stmt_head :: "ir_statement \<Rightarrow> ir_head" where
  "stmt_head (IRStatement h) = h"
| "stmt_head (IRCall h _ _) = h"
| "stmt_head (IRAssignment h _ _ _) = h"
| "stmt_head (IRReturn h _) = h"
| "stmt_head (IRIf h _ _ _) = h"
| "stmt_head (IRLoop h _ _ _) = h"

definition stmt_line :: "ir_statement \<Rightarrow> string" where
  "stmt_line s = str_int (ir_line (stmt_head s))"

record ir_function =
  irf_head :: ir_head
  irf_name :: string
  irf_parameters :: "string list"
  irf_body :: "ir_statement list"

section \<open>The graph\<close>

datatype flow_node_type = ENTRY | STATEMENT | CONDITION | LOOP | RETURN | THROW | EXIT

datatype flow_edge_type = NORMAL | ON_TRUE | ON_FALSE | LOOP_BACK | EXCEPTION | RETURN_EDGE

record flow_node =
  nd_id :: string
  nd_type :: flow_node_type
  nd_line :: int
  nd_statements :: "ir_statement list"
  nd_label :: string

record flow_edge =
  fe_source :: string
  fe_target :: string
  fe_type :: flow_edge_type
  fe_condition :: string

record flow_graph =
  fg_function_name :: string
  fg_file_path :: string
  fg_nodes :: "(string, flow_node) dict"
  fg_edges :: "flow_edge list"
  fg_entry :: string
  fg_exit :: string

definition empty_flow :: "string \<Rightarrow> string \<Rightarrow> flow_graph" where
  "empty_flow name file_path =
     \<lparr> fg_function_name = name, fg_file_path = file_path, fg_nodes = [], fg_edges = [],
       fg_entry = [], fg_exit = [] \<rparr>"

definition flow_add_node :: "flow_node \<Rightarrow> flow_graph \<Rightarrow> flow_graph" where
  "flow_add_node n g =
     (let g' = g\<lparr> fg_nodes := dset (fg_nodes g) (nd_id n) n \<rparr> in
      if nd_type n = ENTRY then g'\<lparr> fg_entry := nd_id n \<rparr>
      else if nd_type n = EXIT then g'\<lparr> fg_exit := nd_id n \<rparr>
      else g')"

definition flow_add_edge :: "string \<Rightarrow> string \<Rightarrow> flow_edge_type \<Rightarrow> string \<Rightarrow> flow_graph \<Rightarrow> flow_graph" where
  "flow_add_edge s t ty cond g =
     g\<lparr> fg_edges := fg_edges g @ [\<lparr> fe_source = s, fe_target = t, fe_type = ty, fe_condition = cond \<rparr>] \<rparr>"

definition flow_succs :: "flow_graph \<Rightarrow> string \<Rightarrow> string list" where
  "flow_succs g k = map fe_target (filter (\<lambda>e. fe_source e = k) (fg_edges g))"

definition flow_preds :: "flow_graph \<Rightarrow> string \<Rightarrow> string list" where
  "flow_preds g k = map fe_source (filter (\<lambda>e. fe_target e = k) (fg_edges g))"

section \<open>Construction\<close>

definition entry_node :: "string \<Rightarrow> int \<Rightarrow> flow_node" where
  "entry_node cfg_id line =
     \<lparr> nd_id = cfg_id @ ''::ENTRY'', nd_type = ENTRY, nd_line = line, nd_statements = [],
       nd_label = ''ENTRY'' \<rparr>"

definition exit_node :: "string \<Rightarrow> int \<Rightarrow> flow_node" where
  "exit_node cfg_id line =
     \<lparr> nd_id = cfg_id @ ''::EXIT'', nd_type = EXIT, nd_line = line, nd_statements = [],
       nd_label = ''EXIT'' \<rparr>"

fun is_basic :: "ir_statement \<Rightarrow> bool" where
  "is_basic (IRAssignment _ _ _ _) = True"
| "is_basic (IRCall _ _ _) = True"
| "is_basic _ = False"

text \<open>
  The label of a basic statement prints the assignment's target, an \<open>IRVar\<close> object, in its
  \<open>repr\<close> form.
\<close>

definition hex_digit :: "nat \<Rightarrow> char" where
  "hex_digit d = (if d < 10 then char_of (48 + d) else char_of (87 + d))"

definition repr_char :: "char \<Rightarrow> char \<Rightarrow> string" where
  "repr_char q c = (let n = (of_char c :: nat) in
     if c = q \<or> n = 92 then [CHR 0x5C, c]
     else if n = 9 then [CHR 0x5C, CHR ''t'']
     else if n = 10 then [CHR 0x5C, CHR ''n'']
     else if n = 13 then [CHR 0x5C, CHR ''r'']
     else if n < 32 \<or> n = 127 then [CHR 0x5C, CHR ''x'', hex_digit (n div 16), hex_digit (n mod 16)]
     else [c])"

definition py_repr :: "string \<Rightarrow> string" where
  "py_repr s =
     (let q = (if CHR 0x27 \<in> set s \<and> CHR 0x22 \<notin> set s then CHR 0x22 else CHR 0x27)
      in [q] @ concat (map (repr_char q) s) @ [q])"

definition repr_ir_var :: "string \<Rightarrow> string" where
  "repr_ir_var name = ''IRVar(name='' @ py_repr name @ '')''"

fun basic_label :: "ir_statement \<Rightarrow> string" where
  "basic_label (IRAssignment _ target value _) = repr_ir_var target @ '' = '' @ value"
| "basic_label (IRCall _ callee arguments) = callee @ ''('' @ py_join '', '' arguments @ '')''"
| "basic_label _ = []"

definition block_node :: "string \<Rightarrow> ir_statement \<Rightarrow> ir_statement list \<Rightarrow> flow_node" where
  "block_node stmt_id s block =
     \<lparr> nd_id = stmt_id, nd_type = STATEMENT, nd_line = ir_line (stmt_head s), nd_statements = block,
       nd_label = py_join ''; '' (map basic_label block) \<rparr>"

definition branch_node :: "string \<Rightarrow> flow_node_type \<Rightarrow> ir_statement \<Rightarrow> ir_statement list \<Rightarrow> string \<Rightarrow> flow_node" where
  "branch_node k ty s stmts label =
     \<lparr> nd_id = k, nd_type = ty, nd_line = ir_line (stmt_head s), nd_statements = stmts, nd_label = label \<rparr>"

definition build_if ::
  "string \<Rightarrow> ir_statement \<Rightarrow> string \<Rightarrow> ir_statement list \<Rightarrow> ir_statement list \<Rightarrow> string \<Rightarrow> flow_graph \<Rightarrow> flow_graph" where
  "build_if if_id s cond thens elses prev g =
     (let then_id = if_id @ ''::then''; else_id = if_id @ ''::else''; merge_id = if_id @ ''::merge'';
          g = flow_add_edge prev if_id NORMAL []
                (flow_add_node (branch_node if_id CONDITION s [] (''If ('' @ cond @ '')'')) g);
          g = flow_add_edge if_id then_id ON_TRUE ''True''
                (flow_add_node (branch_node then_id STATEMENT s thens ''Then Branch'') g);
          g = flow_add_edge if_id else_id ON_FALSE ''False''
                (flow_add_node (branch_node else_id STATEMENT s elses ''Else Branch'') g);
          g = flow_add_edge then_id merge_id NORMAL []
                (flow_add_node (branch_node merge_id STATEMENT s [] ''Merge'') g)
      in flow_add_edge else_id merge_id NORMAL [] g)"

definition build_loop ::
  "string \<Rightarrow> ir_statement \<Rightarrow> string \<Rightarrow> ir_statement list \<Rightarrow> string \<Rightarrow> flow_graph \<Rightarrow> flow_graph" where
  "build_loop loop_id s loop_type body prev g =
     (let body_id = loop_id @ ''::body''; exit_id = loop_id @ ''::exit'';
          g = flow_add_edge prev loop_id NORMAL []
                (flow_add_node (branch_node loop_id LOOP s [] (''Loop Header ('' @ loop_type @ '')'')) g);
          g = flow_add_edge loop_id body_id ON_TRUE []
                (flow_add_node (branch_node body_id STATEMENT s body ''Loop Body'') g);
          g = flow_add_edge body_id loop_id LOOP_BACK [] g
      in flow_add_edge loop_id exit_id ON_FALSE []
           (flow_add_node (branch_node exit_id STATEMENT s [] ''Loop Exit'') g))"

definition build_return :: "string \<Rightarrow> ir_statement \<Rightarrow> string \<Rightarrow> string \<Rightarrow> string \<Rightarrow> flow_graph \<Rightarrow> flow_graph" where
  "build_return ret_id s value exit_id prev g =
     flow_add_edge ret_id exit_id RETURN_EDGE []
       (flow_add_edge prev ret_id NORMAL []
         (flow_add_node (branch_node ret_id RETURN s [] (''Return ('' @ value @ '')'')) g))"

text \<open>The statements from position \<open>idx\<close> on, after the node \<open>prev\<close>.\<close>

function build_statements ::
  "string \<Rightarrow> string \<Rightarrow> nat \<Rightarrow> ir_statement list \<Rightarrow> string \<Rightarrow> flow_graph \<Rightarrow> string \<times> flow_graph" where
  "build_statements func_id exit_id idx [] prev g = (prev, g)"
| "build_statements func_id exit_id idx (s # ss) prev g =
     (if is_basic s
      then let block = s # takeWhile is_basic ss;
               idx = idx + length block;
               stmt_id = func_id @ ''::stmt::'' @ stmt_line s @ ''::'' @ str_nat idx
           in build_statements func_id exit_id idx (dropWhile is_basic ss) stmt_id
                (flow_add_edge prev stmt_id NORMAL [] (flow_add_node (block_node stmt_id s block) g))
      else case s of
        IRIf _ cond thens elses \<Rightarrow>
          let if_id = func_id @ ''::if::'' @ stmt_line s
          in build_statements func_id exit_id (idx + 1) ss (if_id @ ''::merge'')
               (build_if if_id s cond thens elses prev g)
      | IRLoop _ loop_type _ body \<Rightarrow>
          let loop_id = func_id @ ''::loop::'' @ stmt_line s
          in build_statements func_id exit_id (idx + 1) ss (loop_id @ ''::exit'')
               (build_loop loop_id s loop_type body prev g)
      | IRReturn _ value \<Rightarrow>
          let ret_id = func_id @ ''::return::'' @ stmt_line s
          in build_statements func_id exit_id (idx + 1) ss ret_id
               (build_return ret_id s value exit_id prev g)
      | _ \<Rightarrow> build_statements func_id exit_id (idx + 1) ss prev g)"
  by pat_completeness auto

termination
  by (relation "measure (\<lambda>(_, _, _, ss, _, _). length ss)")
    (auto simp: le_imp_less_Suc length_dropWhile_le)

definition build_flow :: "ir_function \<Rightarrow> flow_graph" where
  "build_flow f =
     (let h = irf_head f; func_id = ir_id h; en = entry_node func_id (ir_line h);
          ex = exit_node func_id (ir_line h);
          g = flow_add_node ex (flow_add_node en (empty_flow (irf_name f) (ir_file_path h)))
      in if irf_body f = [] then flow_add_edge (nd_id en) (nd_id ex) NORMAL [] g
         else let (last_id, g) = build_statements func_id (nd_id ex) 0 (irf_body f) (nd_id en) g
              in if last_id \<noteq> [] \<and> last_id \<noteq> nd_id ex \<and> last_id \<notin> set (flow_preds g (nd_id ex))
                 then flow_add_edge last_id (nd_id ex) NORMAL [] g
                 else g)"

definition build_flows :: "ir_function list \<Rightarrow> (string, flow_graph) dict" where
  "build_flows fs = fold (\<lambda>f cfgs. dset cfgs (irf_name f) (build_flow f)) fs []"

section \<open>Validation\<close>

datatype flow_error =
    EntryCount string nat
  | ExitCount string nat
  | MissingSource string
  | MissingTarget string
  | OrphanNode string
  | DeadEnd string
  | MissingEntry
  | UnreachableNodes "string set"

fun first_some :: "('a \<Rightarrow> 'e option) \<Rightarrow> 'a list \<Rightarrow> 'e option" where
  "first_some f [] = None"
| "first_some f (x # xs) = (case f x of None \<Rightarrow> first_some f xs | Some e \<Rightarrow> Some e)"

definition nodes_of_type :: "flow_graph \<Rightarrow> flow_node_type \<Rightarrow> flow_node list" where
  "nodes_of_type g ty = filter (\<lambda>n. nd_type n = ty) (map snd (fg_nodes g))"

definition check_entry_exit :: "flow_graph \<Rightarrow> flow_error option" where
  "check_entry_exit g =
     (if length (nodes_of_type g ENTRY) \<noteq> 1
      then Some (EntryCount (fg_function_name g) (length (nodes_of_type g ENTRY)))
      else if length (nodes_of_type g EXIT) \<noteq> 1
      then Some (ExitCount (fg_function_name g) (length (nodes_of_type g EXIT)))
      else None)"

definition check_edge_ends :: "flow_graph \<Rightarrow> flow_edge \<Rightarrow> flow_error option" where
  "check_edge_ends g e =
     (if dget (fg_nodes g) (fe_source e) = None then Some (MissingSource (fe_source e))
      else if dget (fg_nodes g) (fe_target e) = None then Some (MissingTarget (fe_target e))
      else None)"

definition check_degree :: "flow_graph \<Rightarrow> string \<times> flow_node \<Rightarrow> flow_error option" where
  "check_degree g kn =
     (if nd_type (snd kn) \<noteq> ENTRY \<and> flow_preds g (fst kn) = [] then Some (OrphanNode (fst kn))
      else if nd_type (snd kn) \<noteq> EXIT \<and> flow_succs g (fst kn) = [] then Some (DeadEnd (fst kn))
      else None)"

definition check_edges :: "flow_graph \<Rightarrow> flow_error option" where
  "check_edges g =
     (case first_some (check_edge_ends g) (fg_edges g) of
        Some e \<Rightarrow> Some e
      | None \<Rightarrow> first_some (check_degree g) (fg_nodes g))"

lemma flow_succs_targets: "set (flow_succs g k) \<subseteq> fe_target ` set (fg_edges g)"
  by (auto simp: flow_succs_def)

text \<open>The breadth-first search: the queue and the set of visited nodes.\<close>

function reach_from :: "flow_graph \<Rightarrow> string list \<Rightarrow> string set \<Rightarrow> string set" where
  "reach_from g [] seen = seen"
| "reach_from g (k # queue) seen =
     (if k \<in> seen then reach_from g queue seen
      else reach_from g (queue @ filter (\<lambda>s. s \<notin> insert k seen) (flow_succs g k)) (insert k seen))"
  by pat_completeness auto

termination
proof (relation "measures [\<lambda>(g, q, seen). card (fe_target ` set (fg_edges g) \<union> set q - seen), \<lambda>(g, q, seen). length q]",
    goal_cases)
  case (2 g k queue seen)
  have "card (fe_target ` set (fg_edges g) \<union> set queue - seen)
      \<le> card (fe_target ` set (fg_edges g) \<union> set (k # queue) - seen)"
    by (rule card_mono) auto
  then show ?case by auto
next
  case (3 g k queue seen)
  have "card (fe_target ` set (fg_edges g) \<union>
        set (queue @ filter (\<lambda>s. s \<notin> insert k seen) (flow_succs g k)) - insert k seen)
      < card (fe_target ` set (fg_edges g) \<union> set (k # queue) - seen)"
    using flow_succs_targets [of g k] 3 by (intro psubset_card_mono) auto
  then show ?case by simp
qed simp

definition check_reachable :: "flow_graph \<Rightarrow> flow_error option" where
  "check_reachable g =
     (if fg_entry g = [] then Some MissingEntry
      else let unreachable = set (dkeys (fg_nodes g)) - reach_from g [fg_entry g] {}
           in if unreachable = {} then None else Some (UnreachableNodes unreachable))"

text \<open>\<open>validate\<close>: the first failed check is raised.\<close>

definition validate_flow :: "flow_graph \<Rightarrow> flow_error + bool" where
  "validate_flow g =
     (case check_entry_exit g of
        Some e \<Rightarrow> Inl e
      | None \<Rightarrow>
          (case check_edges g of
             Some e \<Rightarrow> Inl e
           | None \<Rightarrow> (case check_reachable g of Some e \<Rightarrow> Inl e | None \<Rightarrow> Inr True)))"

section \<open>Reachability\<close>

definition flow :: "flow_graph \<Rightarrow> (string \<times> string) set" where
  "flow g = (\<lambda>e. (fe_source e, fe_target e)) ` set (fg_edges g)"

lemma flow_succs_flow: "w \<in> set (flow_succs g v) \<longleftrightarrow> (v, w) \<in> flow g"
  by (auto simp: flow_succs_def flow_def)

lemma flow_preds_flow: "v \<in> set (flow_preds g w) \<longleftrightarrow> (v, w) \<in> flow g"
  by (auto simp: flow_preds_def flow_def)

lemma flow_add_edge_flow [simp]: "flow (flow_add_edge s t ty c g) = insert (s, t) (flow g)"
  by (auto simp: flow_def flow_add_edge_def)

lemma reach_from_grows: "seen \<subseteq> reach_from g q seen"
  by (induction g q seen rule: reach_from.induct) auto

lemma reach_from_queue: "set q \<subseteq> reach_from g q seen"
proof (induction g q seen rule: reach_from.induct)
  case (2 g k queue seen)
  show ?case
  proof (cases "k \<in> seen")
    case True
    then show ?thesis using 2(1) reach_from_grows [of seen g queue] by auto
  next
    case False
    have "insert k seen \<subseteq> reach_from g (k # queue) seen" using False reach_from_grows by simp
    then show ?thesis using 2(2) [OF False] False by simp
  qed
qed simp

lemma reach_from_closed:
  "flow g `` seen \<subseteq> seen \<union> set q \<Longrightarrow> flow g `` reach_from g q seen \<subseteq> reach_from g q seen"
proof (induction g q seen rule: reach_from.induct)
  case (2 g k queue seen)
  show ?case
  proof (cases "k \<in> seen")
    case True
    then show ?thesis using 2(1) "2.prems" by auto
  next
    case False
    have "flow g `` insert k seen \<subseteq>
        insert k seen \<union> set (queue @ filter (\<lambda>s. s \<notin> insert k seen) (flow_succs g k))"
      using "2.prems" by (auto simp: flow_succs_flow)
    then show ?thesis using 2(2) [OF False] False by simp
  qed
qed simp

lemma reach_from_within:
  "reach_from g q seen \<subseteq> seen \<union> (flow g)\<^sup>* `` set q"
proof (induction g q seen rule: reach_from.induct)
  case (2 g k queue seen)
  show ?case
  proof (cases "k \<in> seen")
    case True
    then show ?thesis using 2(1) by auto
  next
    case False
    have "(flow g)\<^sup>* `` set (filter (\<lambda>s. s \<notin> insert k seen) (flow_succs g k)) \<subseteq> (flow g)\<^sup>* `` {k}"
      by (auto simp: flow_succs_flow intro: converse_rtrancl_into_rtrancl)
    moreover have "insert k seen \<union> (flow g)\<^sup>* `` set queue \<subseteq> seen \<union> (flow g)\<^sup>* `` set (k # queue)" by auto
    moreover have "(flow g)\<^sup>* `` {k} \<subseteq> (flow g)\<^sup>* `` set (k # queue)" by auto
    ultimately show ?thesis using 2(2) [OF False] False unfolding set_append Image_Un by (simp del: set_simps) blast
  qed
qed simp

lemma reach_from_entry: "reach_from g [k] {} = (flow g)\<^sup>* `` {k}"
proof
  show "reach_from g [k] {} \<subseteq> (flow g)\<^sup>* `` {k}" using reach_from_within [of g "[k]" "{}"] by simp
  have "k \<in> reach_from g [k] {}" using reach_from_queue [of "[k]" g "{}"] by simp
  moreover have "flow g `` reach_from g [k] {} \<subseteq> reach_from g [k] {}" by (rule reach_from_closed) simp
  then have "(flow g)\<^sup>* `` reach_from g [k] {} = reach_from g [k] {}" by (rule Image_closed_trancl)
  ultimately show "(flow g)\<^sup>* `` {k} \<subseteq> reach_from g [k] {}" by blast
qed

section \<open>What the validator accepts\<close>

definition flow_ids :: "flow_graph \<Rightarrow> string set" where
  "flow_ids g = set (dkeys (fg_nodes g))"

lemma flow_ids_None: "dget (fg_nodes g) k = None \<longleftrightarrow> k \<notin> flow_ids g"
  unfolding flow_ids_def by (rule dget_None_iff)

definition flow_closed :: "flow_graph \<Rightarrow> bool" where
  [inv_simps]: "flow_closed g \<longleftrightarrow> flow g \<subseteq> flow_ids g \<times> flow_ids g"

definition degree_ok :: "flow_graph \<Rightarrow> string \<times> flow_node \<Rightarrow> bool" where
  "degree_ok g kn \<longleftrightarrow>
     (nd_type (snd kn) = ENTRY \<or> fst kn \<in> Range (flow g)) \<and> (nd_type (snd kn) = EXIT \<or> fst kn \<in> Domain (flow g))"

definition flow_valid :: "flow_graph \<Rightarrow> bool" where
  [inv_simps]: "flow_valid g \<longleftrightarrow>
     length (nodes_of_type g ENTRY) = 1 \<and> length (nodes_of_type g EXIT) = 1 \<and> flow_closed g \<and>
     list_all (degree_ok g) (fg_nodes g) \<and> fg_entry g \<noteq> [] \<and> flow_ids g \<subseteq> (flow g)\<^sup>* `` {fg_entry g}"

lemma first_some_None: "first_some f xs = None \<longleftrightarrow> list_all (\<lambda>x. f x = None) xs"
  by (induction xs) (auto split: option.splits)

lemma preds_Nil: "flow_preds g k = [] \<longleftrightarrow> k \<notin> Range (flow g)"
proof -
  have "set (flow_preds g k) = {v. (v, k) \<in> flow g}" by (simp add: set_eq_iff flow_preds_flow)
  then have "flow_preds g k = [] \<longleftrightarrow> {v. (v, k) \<in> flow g} = {}" by (metis set_empty)
  then show ?thesis by blast
qed

lemma succs_Nil: "flow_succs g k = [] \<longleftrightarrow> k \<notin> Domain (flow g)"
proof -
  have "set (flow_succs g k) = {v. (k, v) \<in> flow g}" by (simp add: set_eq_iff flow_succs_flow)
  then have "flow_succs g k = [] \<longleftrightarrow> {v. (k, v) \<in> flow g} = {}" by (metis set_empty)
  then show ?thesis by blast
qed

lemma check_edge_ends_None:
  "check_edge_ends g e = None \<longleftrightarrow> fe_source e \<in> flow_ids g \<and> fe_target e \<in> flow_ids g"
  by (simp add: check_edge_ends_def flow_ids_None del: not_None_eq)

lemma edges_closed: "first_some (check_edge_ends g) (fg_edges g) = None \<longleftrightarrow> flow_closed g"
  unfolding first_some_None check_edge_ends_None flow_closed_def flow_def list_all_iff by auto

lemma degrees_checked: "first_some (check_degree g) (fg_nodes g) = None \<longleftrightarrow> list_all (degree_ok g) (fg_nodes g)"
proof -
  have "(check_degree g kn = None) = degree_ok g kn" for kn
    by (simp add: check_degree_def preds_Nil succs_Nil degree_ok_def)
  then show ?thesis by (simp add: first_some_None del: not_None_eq)
qed

lemma validate_flow_iff: "validate_flow g = Inr True \<longleftrightarrow> flow_valid g"
proof -
  have "check_entry_exit g = None \<longleftrightarrow>
      length (nodes_of_type g ENTRY) = 1 \<and> length (nodes_of_type g EXIT) = 1"
    by (simp add: check_entry_exit_def)
  moreover have "check_edges g = None \<longleftrightarrow> flow_closed g \<and> list_all (degree_ok g) (fg_nodes g)"
    unfolding check_edges_def edges_closed [symmetric] degrees_checked [symmetric]
    by (cases "first_some (check_edge_ends g) (fg_edges g)") simp_all
  moreover have "check_reachable g = None \<longleftrightarrow>
      fg_entry g \<noteq> [] \<and> flow_ids g \<subseteq> (flow g)\<^sup>* `` {fg_entry g}"
    unfolding check_reachable_def reach_from_entry Let_def flow_ids_def [symmetric] by (simp add: Diff_eq_empty_iff del: not_None_eq)
  ultimately show ?thesis
    unfolding validate_flow_def flow_valid_def
    by (cases "check_entry_exit g"; cases "check_edges g"; cases "check_reachable g"; simp)
qed

section \<open>A graph under construction\<close>

text \<open>
  What holds of the graph while it is built: everything but the exit is reachable from the
  entry, and everything but the exit and the nodes in \<open>dangling\<close> leads somewhere.
\<close>

abbreviation entry_of :: "string \<Rightarrow> string" where
  "entry_of fid \<equiv> fid @ ''::ENTRY''"

abbreviation exit_of :: "string \<Rightarrow> string" where
  "exit_of fid \<equiv> fid @ ''::EXIT''"

definition inner :: "string \<Rightarrow> string \<Rightarrow> bool" where
  "inner fid k \<longleftrightarrow> k \<noteq> [] \<and> k \<noteq> entry_of fid \<and> k \<noteq> exit_of fid"

definition building :: "string \<Rightarrow> string set \<Rightarrow> flow_graph \<Rightarrow> bool" where
  [inv_simps]: "building fid dangling g \<longleftrightarrow>
     distinct (dkeys (fg_nodes g)) \<and> fg_entry g = entry_of fid \<and> fg_exit g = exit_of fid \<and>
     entry_of fid \<in> flow_ids g \<and> exit_of fid \<in> flow_ids g \<and>
     (\<forall>k n. dget (fg_nodes g) k = Some n \<longrightarrow>
        (nd_type n = ENTRY \<longleftrightarrow> k = entry_of fid) \<and> (nd_type n = EXIT \<longleftrightarrow> k = exit_of fid)) \<and>
     flow_closed g \<and>
     (\<forall>k\<in>flow_ids g. k \<noteq> exit_of fid \<longrightarrow> (entry_of fid, k) \<in> (flow g)\<^sup>*) \<and>
     (\<forall>k\<in>flow_ids g. k \<noteq> exit_of fid \<longrightarrow> k \<notin> dangling \<longrightarrow> k \<in> Domain (flow g))"

lemma buildingD:
  assumes "building fid dangling g"
  shows "distinct (dkeys (fg_nodes g))" and "fg_entry g = entry_of fid"
    and "entry_of fid \<in> flow_ids g" and "exit_of fid \<in> flow_ids g" and "flow_closed g"
    and "dget (fg_nodes g) k = Some n \<Longrightarrow> nd_type n = ENTRY \<longleftrightarrow> k = entry_of fid"
    and "dget (fg_nodes g) k = Some n \<Longrightarrow> nd_type n = EXIT \<longleftrightarrow> k = exit_of fid"
    and "k \<in> flow_ids g \<Longrightarrow> k \<noteq> exit_of fid \<Longrightarrow> (entry_of fid, k) \<in> (flow g)\<^sup>*"
    and "k \<in> flow_ids g \<Longrightarrow> k \<noteq> exit_of fid \<Longrightarrow> k \<notin> dangling \<Longrightarrow> k \<in> Domain (flow g)"
    and "fg_exit g = exit_of fid"
  by (insert assms, unfold building_def, (elim conjE, blast)+)

lemma buildingI:
  assumes "distinct (dkeys (fg_nodes g))" "fg_entry g = entry_of fid" "fg_exit g = exit_of fid"
    "entry_of fid \<in> flow_ids g" "exit_of fid \<in> flow_ids g" "flow_closed g"
    "\<And>k n. dget (fg_nodes g) k = Some n \<Longrightarrow>
       (nd_type n = ENTRY \<longleftrightarrow> k = entry_of fid) \<and> (nd_type n = EXIT \<longleftrightarrow> k = exit_of fid)"
    "\<And>k. k \<in> flow_ids g \<Longrightarrow> k \<noteq> exit_of fid \<Longrightarrow> (entry_of fid, k) \<in> (flow g)\<^sup>*"
    "\<And>k. k \<in> flow_ids g \<Longrightarrow> k \<noteq> exit_of fid \<Longrightarrow> k \<notin> dangling \<Longrightarrow> k \<in> Domain (flow g)"
  shows "building fid dangling g"
  unfolding building_def using assms by blast

lemma flow_ids_add_edge [simp]: "flow_ids (flow_add_edge s t ty c g) = flow_ids g"
  by (simp add: flow_add_edge_def flow_ids_def)

lemma flow_ids_add_node [simp]: "flow_ids (flow_add_node n g) = insert (nd_id n) (flow_ids g)"
  by (simp add: flow_add_node_def flow_ids_def Let_def set_dkeys_dset del: set_map)

lemma flow_add_node_flow [simp]: "flow (flow_add_node n g) = flow g"
  by (simp add: flow_add_node_def Let_def flow_def)

lemma flow_add_edge_fields [simp]:
  "fg_nodes (flow_add_edge s t ty c g) = fg_nodes g" "fg_entry (flow_add_edge s t ty c g) = fg_entry g"
  "fg_exit (flow_add_edge s t ty c g) = fg_exit g"
  by (simp_all add: flow_add_edge_def)

lemma flow_reach_mono: "(a, b) \<in> (flow g)\<^sup>* \<Longrightarrow> flow g \<subseteq> r \<Longrightarrow> (a, b) \<in> r\<^sup>*"
  using rtrancl_mono by blast

lemma building_link:
  assumes b: "building fid dangling g" and p: "p \<in> flow_ids g" and q: "q \<in> flow_ids g"
  shows "building fid (dangling - {p}) (flow_add_edge p q ty c g)"
proof (rule buildingI, unfold flow_add_edge_flow flow_ids_add_edge flow_add_edge_fields)
  note b' = buildingD [OF b]
  show "flow_closed (flow_add_edge p q ty c g)" using b'(5) p q by (simp add: flow_closed_def)
  show "(entry_of fid, k) \<in> (insert (p, q) (flow g))\<^sup>*" if "k \<in> flow_ids g" "k \<noteq> exit_of fid" for k
    by (rule flow_reach_mono [OF b'(8) [OF that]]) blast
  show "k \<in> Domain (insert (p, q) (flow g))" if "k \<in> flow_ids g" "k \<noteq> exit_of fid" "k \<notin> dangling - {p}" for k
    using b'(9) [OF that(1,2)] that(3) by blast
  show "(nd_type n = ENTRY \<longleftrightarrow> k = entry_of fid) \<and> (nd_type n = EXIT \<longleftrightarrow> k = exit_of fid)"
    if "dget (fg_nodes g) k = Some n" for k n
    using b'(6,7) [OF that] by blast
qed (rule buildingD [OF b])+

lemma building_grow:
  assumes b: "building fid dangling g" and p: "p \<in> flow_ids g" "p \<noteq> exit_of fid"
    and n: "nd_id n \<noteq> entry_of fid" "nd_id n \<noteq> exit_of fid" "nd_type n \<noteq> ENTRY" "nd_type n \<noteq> EXIT"
  shows "building fid (insert (nd_id n) (dangling - {p})) (flow_add_edge p (nd_id n) ty c (flow_add_node n g))"
proof (rule buildingI, unfold flow_add_edge_flow flow_add_node_flow flow_ids_add_edge flow_ids_add_node)
  note b' = buildingD [OF b]
  let ?g = "flow_add_edge p (nd_id n) ty c (flow_add_node n g)" and ?r = "insert (p, nd_id n) (flow g)"
  have nodes: "fg_nodes ?g = dset (fg_nodes g) (nd_id n) n" "fg_entry ?g = fg_entry g" "fg_exit ?g = fg_exit g"
    using n(3,4) by (simp_all add: flow_add_node_def)
  have "(entry_of fid, p) \<in> ?r\<^sup>*" by (rule flow_reach_mono [OF b'(8) [OF p]]) blast
  then have new: "(entry_of fid, nd_id n) \<in> ?r\<^sup>*" by (rule rtrancl.rtrancl_into_rtrancl) simp
  show "(entry_of fid, k) \<in> ?r\<^sup>*" if "k \<in> insert (nd_id n) (flow_ids g)" "k \<noteq> exit_of fid" for k
  proof (cases "k = nd_id n")
    case False
    with that show ?thesis by (intro flow_reach_mono [OF b'(8)]) auto
  qed (simp add: new)
  show "k \<in> Domain ?r" if "k \<in> insert (nd_id n) (flow_ids g)" "k \<noteq> exit_of fid"
    "k \<notin> insert (nd_id n) (dangling - {p})" for k
    using b'(9) [of k] that by blast
  show "flow_closed ?g" using b'(5) p(1) by (auto simp: flow_closed_def)
  show "distinct (dkeys (fg_nodes ?g))" unfolding nodes by (rule distinct_dset [OF b'(1)])
  show "fg_entry ?g = entry_of fid" unfolding nodes by (rule b'(2))
  show "fg_exit ?g = exit_of fid" unfolding nodes by (rule b'(10))
  show "(nd_type m = ENTRY \<longleftrightarrow> k = entry_of fid) \<and> (nd_type m = EXIT \<longleftrightarrow> k = exit_of fid)"
    if "dget (fg_nodes ?g) k = Some m" for k m
  proof (cases "k = nd_id n")
    case True
    then show ?thesis using that n unfolding nodes by simp
  next
    case False
    then show ?thesis using that b'(6,7) [of k m] unfolding nodes by simp
  qed
qed (use buildingD(3,4) [OF b] in blast)+

lemma building_mono: "building fid dangling g \<Longrightarrow> dangling \<subseteq> dangling' \<Longrightarrow> building fid dangling' g"
  by (rule buildingI) (blast dest: buildingD)+

text \<open>The two steps of the construction: a new node with an edge to it, and an edge.\<close>

lemma new_node:
  assumes "building fid dangling g" "p \<in> flow_ids g" "p \<noteq> exit_of fid" "inner fid k"
    "nd_id n = k" "nd_type n \<noteq> ENTRY" "nd_type n \<noteq> EXIT" "insert k (dangling - {p}) \<subseteq> dangling'"
    "h = flow_add_edge p k ty c (flow_add_node n g)"
  shows "building fid dangling' h \<and> flow_ids h = insert k (flow_ids g)"
proof
  have "building fid (insert (nd_id n) (dangling - {p})) (flow_add_edge p (nd_id n) ty c (flow_add_node n g))"
    using assms(4-7) by (intro building_grow assms(1-3)) (simp_all add: inner_def)
  then have "building fid (insert k (dangling - {p})) h" unfolding assms(5,9) .
  then show "building fid dangling' h" by (rule building_mono) (rule assms(8))
qed (simp add: assms(5,9))

lemma new_edge:
  assumes "building fid dangling g" "p \<in> flow_ids g" "q \<in> flow_ids g" "dangling - {p} \<subseteq> dangling'"
    "h = flow_add_edge p q ty c g"
  shows "building fid dangling' h \<and> flow_ids h = flow_ids g"
  using building_mono [OF building_link [OF assms(1,2,3)] assms(4)] assms(5) by simp

text \<open>A position in the construction: the node the next one is linked from.\<close>

definition built_to :: "string \<Rightarrow> string \<Rightarrow> flow_graph \<Rightarrow> bool" where
  "built_to fid prev g \<longleftrightarrow> building fid {prev} g \<and> prev \<in> flow_ids g \<and> prev \<noteq> exit_of fid \<and> prev \<noteq> []"

lemma built_to_next:
  assumes "built_to fid prev g" "nd_id n = k" "inner fid k" "nd_type n \<noteq> ENTRY" "nd_type n \<noteq> EXIT"
  shows "built_to fid k (flow_add_edge prev k ty c (flow_add_node n g))"
  using new_node [of fid "{prev}" g prev k n "{k}" _ ty c] assms by (simp add: built_to_def inner_def)

lemma branch_node_simps [simp]: "nd_id (branch_node k ty s stmts l) = k" "nd_type (branch_node k ty s stmts l) = ty"
  by (simp_all add: branch_node_def)

lemma built_if:
  assumes b0: "built_to fid prev g"
    and ids: "inner fid i" "inner fid (i @ ''::then'')" "inner fid (i @ ''::else'')" "inner fid (i @ ''::merge'')"
  shows "built_to fid (i @ ''::merge'') (build_if i s cond thens elses prev g)"
proof -
  define t e m where tem: "t = i @ ''::then''" "e = i @ ''::else''" "m = i @ ''::merge''"
  define g1 where "g1 = flow_add_edge prev i NORMAL []
    (flow_add_node (branch_node i CONDITION s [] (''If ('' @ cond @ '')'')) g)"
  define g2 where "g2 = flow_add_edge i t ON_TRUE ''True''
    (flow_add_node (branch_node t STATEMENT s thens ''Then Branch'') g1)"
  define g3 where "g3 = flow_add_edge i e ON_FALSE ''False''
    (flow_add_node (branch_node e STATEMENT s elses ''Else Branch'') g2)"
  define g4 where "g4 = flow_add_edge t m NORMAL [] (flow_add_node (branch_node m STATEMENT s [] ''Merge'') g3)"
  define g5 where "g5 = flow_add_edge e m NORMAL [] g4"
  note ids = ids [folded tem]
  have 0: "building fid {prev} g" "prev \<in> flow_ids g" "prev \<noteq> exit_of fid"
    using b0 by (simp_all add: built_to_def)
  have 1: "building fid {i} g1 \<and> flow_ids g1 = insert i (flow_ids g)"
    by (rule new_node [OF 0 ids(1) _ _ _ _ g1_def]) auto
  have 2: "building fid {i, t} g2 \<and> flow_ids g2 = insert t (flow_ids g1)"
    by (rule new_node [OF conjunct1 [OF 1] _ _ ids(2) _ _ _ _ g2_def]) (use 1 ids in \<open>auto simp: inner_def\<close>)
  have 3: "building fid {t, e} g3 \<and> flow_ids g3 = insert e (flow_ids g2)"
    by (rule new_node [OF conjunct1 [OF 2] _ _ ids(3) _ _ _ _ g3_def]) (use 1 2 ids in \<open>auto simp: inner_def\<close>)
  have 4: "building fid {e, m} g4 \<and> flow_ids g4 = insert m (flow_ids g3)"
    by (rule new_node [OF conjunct1 [OF 3] _ _ ids(4) _ _ _ _ g4_def]) (use 1 2 3 ids in \<open>auto simp: inner_def\<close>)
  have "building fid {m} g5 \<and> flow_ids g5 = flow_ids g4"
    by (rule new_edge [OF conjunct1 [OF 4] _ _ _ g5_def]) (use 1 2 3 4 in auto)
  moreover have "build_if i s cond thens elses prev g = g5"
    by (simp only: build_if_def Let_def g1_def g2_def g3_def g4_def g5_def tem)
  ultimately show ?thesis using 4 ids(4) unfolding tem(3) [symmetric] by (simp add: built_to_def inner_def)
qed

lemma built_loop:
  assumes b0: "built_to fid prev g"
    and ids: "inner fid i" "inner fid (i @ ''::body'')" "inner fid (i @ ''::exit'')"
  shows "built_to fid (i @ ''::exit'') (build_loop i s ty body prev g)"
proof -
  define b x where bx: "b = i @ ''::body''" "x = i @ ''::exit''"
  define g1 where "g1 = flow_add_edge prev i NORMAL []
    (flow_add_node (branch_node i LOOP s [] (''Loop Header ('' @ ty @ '')'')) g)"
  define g2 where "g2 = flow_add_edge i b ON_TRUE [] (flow_add_node (branch_node b STATEMENT s body ''Loop Body'') g1)"
  define g3 where "g3 = flow_add_edge b i LOOP_BACK [] g2"
  define g4 where "g4 = flow_add_edge i x ON_FALSE [] (flow_add_node (branch_node x STATEMENT s [] ''Loop Exit'') g3)"
  note ids = ids [folded bx]
  have 0: "building fid {prev} g" "prev \<in> flow_ids g" "prev \<noteq> exit_of fid"
    using b0 by (simp_all add: built_to_def)
  have 1: "building fid {i} g1 \<and> flow_ids g1 = insert i (flow_ids g)"
    by (rule new_node [OF 0 ids(1) _ _ _ _ g1_def]) auto
  have 2: "building fid {b, i} g2 \<and> flow_ids g2 = insert b (flow_ids g1)"
    by (rule new_node [OF conjunct1 [OF 1] _ _ ids(2) _ _ _ _ g2_def]) (use 1 ids in \<open>auto simp: inner_def\<close>)
  have 3: "building fid {i} g3 \<and> flow_ids g3 = flow_ids g2"
    by (rule new_edge [OF conjunct1 [OF 2] _ _ _ g3_def]) (use 1 2 in auto)
  have "building fid {x} g4 \<and> flow_ids g4 = insert x (flow_ids g3)"
    by (rule new_node [OF conjunct1 [OF 3] _ _ ids(3) _ _ _ _ g4_def]) (use 1 2 3 ids in \<open>auto simp: inner_def\<close>)
  moreover have "build_loop i s ty body prev g = g4"
    by (simp only: build_loop_def Let_def g1_def g2_def g3_def g4_def bx)
  ultimately show ?thesis using ids(3) unfolding bx(2) [symmetric] by (simp add: built_to_def inner_def)
qed

lemma built_return:
  assumes "built_to fid prev g" "inner fid k"
  shows "built_to fid k (build_return k s value (exit_of fid) prev g)"
proof -
  define g1 where "g1 = flow_add_edge prev k NORMAL []
    (flow_add_node (branch_node k RETURN s [] (''Return ('' @ value @ '')'')) g)"
  have "built_to fid k g1" unfolding g1_def by (rule built_to_next [OF assms(1) _ assms(2)]) simp_all
  then have g1: "building fid {k} g1" "k \<in> flow_ids g1" "exit_of fid \<in> flow_ids g1"
    using buildingD(4) unfolding built_to_def by blast+
  have "building fid {k} (flow_add_edge k (exit_of fid) RETURN_EDGE [] g1) \<and>
      flow_ids (flow_add_edge k (exit_of fid) RETURN_EDGE [] g1) = flow_ids g1"
    by (rule new_edge [OF g1 _ refl]) auto
  moreover have "build_return k s value (exit_of fid) prev g = flow_add_edge k (exit_of fid) RETURN_EDGE [] g1"
    by (simp only: build_return_def g1_def)
  ultimately show ?thesis using g1(2) assms(2) by (simp add: built_to_def inner_def)
qed

text \<open>The identifiers of the inner nodes are never those of the entry and the exit.\<close>

lemma inner_stmt: "inner fid (fid @ ''::stmt::'' @ l)"
  and inner_if: "inner fid (fid @ ''::if::'' @ l)"
  and inner_loop: "inner fid (fid @ ''::loop::'' @ l)"
  and inner_return: "inner fid (fid @ ''::return::'' @ l)"
  by (simp_all add: inner_def)

lemma built_statements:
  "built_to fid prev g \<Longrightarrow> build_statements fid (exit_of fid) idx ss prev g = (last_id, h) \<Longrightarrow>
     built_to fid last_id h"
proof (induction fid "exit_of fid" idx ss prev g arbitrary: last_id h rule: build_statements.induct)
  case (1 fid idx prev g)
  then show ?case by simp
next
  case (2 fid idx s ss prev g)
  show ?case
  proof (cases "is_basic s")
    case True
    let ?i = "idx + length (s # takeWhile is_basic ss)"
    let ?k = "fid @ ''::stmt::'' @ stmt_line s @ ''::'' @ str_nat ?i"
    have "built_to fid ?k (flow_add_edge prev ?k NORMAL [] (flow_add_node (block_node ?k s (s # takeWhile is_basic ss)) g))"
      by (rule built_to_next [OF "2.prems"(1) _ inner_stmt]) (simp_all add: block_node_def)
    then show ?thesis using "2.hyps"(1) [OF True refl refl refl] "2.prems"(2) True by (simp add: Let_def)
  next
    case False
    then show ?thesis
    proof (cases s)
      case (IRStatement x)
      then show ?thesis using "2.hyps"(2) [OF False IRStatement "2.prems"(1)] "2.prems"(2) by simp
    next
      case (IRReturn x v)
      then show ?thesis using "2.hyps"(5) [OF False IRReturn refl] built_return [OF "2.prems"(1) inner_return] "2.prems"(2)
        by (simp add: Let_def)
    next
      case (IRIf x c t e)
      then show ?thesis using "2.hyps"(6) [OF False IRIf refl] built_if [OF "2.prems"(1) inner_if] "2.prems"(2)
        by (simp add: Let_def inner_def)
    next
      case (IRLoop x t c b)
      then show ?thesis using "2.hyps"(7) [OF False IRLoop refl] built_loop [OF "2.prems"(1) inner_loop] "2.prems"(2)
        by (simp add: Let_def inner_def)
    qed simp_all
  qed
qed

section \<open>Every constructed graph is valid\<close>

lemma one_of_type:
  assumes "distinct (dkeys d)" "dget d a \<noteq> None" "\<forall>k n. dget d k = Some n \<longrightarrow> (P n \<longleftrightarrow> k = a)"
  shows "length (filter P (map snd d)) = 1"
  using assms
proof (induction d)
  case (Cons kn d)
  obtain k n where kn: "kn = (k, n)" by (cases kn)
  have "k \<notin> set (dkeys d)" using Cons.prems(1) kn by simp
  then have fresh: "dget d k = None" unfolding dget_None_iff .
  have rest: "\<forall>j m. dget d j = Some m \<longrightarrow> (P m \<longleftrightarrow> j = a)"
  proof (intro allI impI)
    fix j m
    assume j: "dget d j = Some m"
    with fresh have "j \<noteq> k" by auto
    with j have "dget (kn # d) j = Some m" by (simp add: kn)
    then show "P m \<longleftrightarrow> j = a" using Cons.prems(3) by blast
  qed
  show ?case
  proof (cases "k = a")
    case True
    have "filter P (map snd d) = []"
    proof (rule ccontr)
      assume "filter P (map snd d) \<noteq> []"
      then obtain m where m: "m \<in> snd ` set d" "P m" by (auto simp: filter_empty_conv)
      then obtain j where "(j, m) \<in> set d" by auto
      then have "dget d j = Some m" using Cons.prems(1) kn by simp
      with rest m(2) have "j = a" by blast
      with True fresh \<open>dget d j = Some m\<close> show False by simp
    qed
    moreover have "dget (kn # d) k = Some n" by (simp add: kn)
    then have "P n" using Cons.prems(3) True by blast
    ultimately show ?thesis by (simp add: kn)
  next
    case False
    moreover have "dget (kn # d) k = Some n" by (simp add: kn)
    ultimately have "\<not> P n" using Cons.prems(3) by blast
    moreover have "length (filter P (map snd d)) = 1"
      by (rule Cons.IH [OF _ _ rest]) (use Cons.prems(1,2) False in \<open>simp_all add: kn\<close>)
    ultimately show ?thesis by (simp add: kn)
  qed
qed simp

lemma building_start:
  assumes "en = entry_node fid l" "ex = exit_node fid l"
    "g = flow_add_node ex (flow_add_node en (empty_flow name path))"
  shows "built_to fid (entry_of fid) g"
  unfolding assms
  by (auto simp: built_to_def building_def entry_node_def exit_node_def flow_add_node_def empty_flow_def
      flow_ids_def flow_closed_def flow_def)

text \<open>Paths end at the exit only.\<close>

definition exits_at :: "flow_graph \<Rightarrow> bool" where
  "exits_at g \<longleftrightarrow> fg_exit g \<in> flow_ids g \<and> flow_ids g - Domain (flow g) \<subseteq> {fg_exit g}"

lemma building_finished:
  assumes b: "building fid {last_id} g" and last: "last_id \<in> flow_ids g" "last_id \<noteq> exit_of fid"
    and e: "(last_id, exit_of fid) \<in> flow g"
  shows "flow_valid g \<and> exits_at g"
proof -
  note b' = buildingD [OF b]
  have nodes: "nodes_of_type g ty = filter (\<lambda>n. nd_type n = ty) (map snd (fg_nodes g))" for ty
    by (simp add: nodes_of_type_def)
  have ends: "dget (fg_nodes g) (entry_of fid) \<noteq> None" "dget (fg_nodes g) (exit_of fid) \<noteq> None"
    unfolding flow_ids_None using b'(3,4) by simp_all
  have one: "length (nodes_of_type g ENTRY) = 1" "length (nodes_of_type g EXIT) = 1"
    unfolding nodes using one_of_type [OF b'(1) ends(1)] one_of_type [OF b'(1) ends(2)] b'(6,7) by simp_all
  have exit: "(entry_of fid, exit_of fid) \<in> (flow g)\<^sup>*"
    by (rule rtrancl.rtrancl_into_rtrancl [OF b'(8) [OF last] e])
  have reach: "(entry_of fid, k) \<in> (flow g)\<^sup>*" if "k \<in> flow_ids g" for k
    using exit b'(8) [OF that] by (cases "k = exit_of fid") simp_all
  have "degree_ok g (k, n)" if kn: "(k, n) \<in> set (fg_nodes g)" for k n
  proof -
    have k: "k \<in> flow_ids g" using kn by (force simp: flow_ids_def)
    have kn': "dget (fg_nodes g) k = Some n" by (rule map_of_is_SomeI [OF b'(1) kn])
    have "k \<in> Range (flow g)" if "k \<noteq> entry_of fid"
      using reach [OF k] by (cases rule: rtranclE) (use that in blast)+
    moreover have "k \<in> Domain (flow g)" if "k \<noteq> exit_of fid"
    proof (cases "k = last_id")
      case True
      with e show ?thesis by blast
    next
      case False
      with b'(9) [OF k that] show ?thesis by simp
    qed
    ultimately show ?thesis using b'(6,7) [OF kn'] unfolding degree_ok_def fst_conv snd_conv by blast
  qed
  then have "list_all (degree_ok g) (fg_nodes g)" by (auto simp: list_all_iff)
  moreover have "flow_ids g \<subseteq> (flow g)\<^sup>* `` {fg_entry g}" unfolding b'(2) using reach by blast
  ultimately have "flow_valid g" using one b'(2,5) unfolding flow_valid_def by simp
  moreover have "k = fg_exit g" if "k \<in> flow_ids g" "k \<notin> Domain (flow g)" for k
  proof (rule ccontr)
    assume "k \<noteq> fg_exit g"
    then have "k \<noteq> exit_of fid" using b'(10) by simp
    moreover have "k \<noteq> last_id" using that(2) e by blast
    ultimately show False using b'(9) [OF that(1)] that(2) by simp
  qed
  ultimately show ?thesis using b'(4,10) by (auto simp: exits_at_def)
qed

lemma build_flow_finished: "flow_valid (build_flow f) \<and> exits_at (build_flow f)"
proof -
  define h fid en ex where d: "h = irf_head f" "fid = ir_id h" "en = entry_node fid (ir_line h)" "ex = exit_node fid (ir_line h)"
  define g where g: "g = flow_add_node ex (flow_add_node en (empty_flow (irf_name f) (ir_file_path h)))"
  have ids: "nd_id en = entry_of fid" "nd_id ex = exit_of fid" by (simp_all add: d entry_node_def exit_node_def)
  have start: "built_to fid (entry_of fid) g" by (rule building_start [OF d(3,4) g])
  have link: "flow_valid (flow_add_edge p (exit_of fid) NORMAL [] k) \<and>
      exits_at (flow_add_edge p (exit_of fid) NORMAL [] k)" if p: "built_to fid p k" for p k
  proof -
    have pb: "building fid {p} k" "p \<in> flow_ids k" "exit_of fid \<in> flow_ids k" "p \<noteq> exit_of fid"
      using p buildingD(4) by (auto simp: built_to_def)
    have "building fid {p} (flow_add_edge p (exit_of fid) NORMAL [] k) \<and>
        flow_ids (flow_add_edge p (exit_of fid) NORMAL [] k) = flow_ids k"
      by (rule new_edge [OF pb(1-3) _ refl]) auto
    then show ?thesis using pb by (intro building_finished [of fid p]) auto
  qed
  obtain last_id k where k: "build_statements fid (exit_of fid) 0 (irf_body f) (entry_of fid) g = (last_id, k)"
    by (cases "build_statements fid (exit_of fid) 0 (irf_body f) (entry_of fid) g")
  have built: "built_to fid last_id k" by (rule built_statements [OF start k])
  have b: "build_flow f = (if irf_body f = [] then flow_add_edge (entry_of fid) (exit_of fid) NORMAL [] g
      else if last_id \<noteq> [] \<and> last_id \<noteq> exit_of fid \<and> last_id \<notin> set (flow_preds k (exit_of fid))
        then flow_add_edge last_id (exit_of fid) NORMAL [] k else k)"
    unfolding build_flow_def Let_def d(1) [symmetric] d(2) [symmetric] d(3) [symmetric] d(4) [symmetric] ids
      g [symmetric] k by simp
  have lk: "last_id \<noteq> []" "last_id \<noteq> exit_of fid" "building fid {last_id} k" "last_id \<in> flow_ids k"
    using built by (simp_all add: built_to_def)
  show ?thesis
  proof (cases "irf_body f = [] \<or> (last_id, exit_of fid) \<notin> flow k")
    case True
    then show ?thesis using link [OF start] link [OF built] lk(1,2) by (auto simp: b flow_preds_flow)
  next
    case False
    then have "build_flow f = k" by (simp add: b flow_preds_flow)
    then show ?thesis using building_finished [OF lk(3,4,2)] False by simp
  qed
qed

text \<open>Functions of one name share one entry: the later one replaces the earlier.\<close>

lemma build_flows_last:
  "dget (build_flows fs) k = map_option build_flow (find (\<lambda>f. irf_name f = k) (rev fs))"
proof -
  have "dget (build_flows (rev fs)) k = map_option build_flow (find (\<lambda>f. irf_name f = k) fs)" for fs
    by (induction fs) (auto simp: build_flows_def)
  from this [of "rev fs"] show ?thesis by simp
qed

text \<open>
  Two conditions on one line share their identifiers: the edge meant for the second condition
  leads from the merge back to the first, a loop the program does not have.
\<close>

lemma conditions_on_one_line:
  assumes "irf_body f = [IRIf h c t e, IRIf h' c' t' e']" "ir_line h = ir_line h'"
  shows "let k = ir_id (irf_head f) @ ''::if::'' @ str_int (ir_line h)
    in (k @ ''::merge'', k) \<in> flow (build_flow f) \<and> (k, k @ ''::merge'') \<in> (flow (build_flow f))\<^sup>+"
proof -
  define k where "k = ir_id (irf_head f) @ ''::if::'' @ str_int (ir_line h)"
  have eqs: "stmt_line (IRIf h c t e) = str_int (ir_line h)" "stmt_line (IRIf h' c' t' e') = str_int (ir_line h)"
    using assms(2) by (simp_all add: stmt_line_def)
  have fl: "\<exists>g last_id. build_flow f = (if last_id \<noteq> [] \<and> last_id \<noteq> exit_of (ir_id (irf_head f)) \<and>
        last_id \<notin> set (flow_preds (build_if k (IRIf h' c' t' e') c' t' e' (k @ ''::merge'') g) (exit_of (ir_id (irf_head f))))
      then flow_add_edge last_id (exit_of (ir_id (irf_head f))) NORMAL [] (build_if k (IRIf h' c' t' e') c' t' e' (k @ ''::merge'') g)
      else build_if k (IRIf h' c' t' e') c' t' e' (k @ ''::merge'') g)"
    unfolding build_flow_def by (simp add: assms(1) Let_def eqs k_def exit_node_def) blast
  have sub: "{(k @ ''::merge'', k), (k, k @ ''::then''), (k @ ''::then'', k @ ''::merge'')}
      \<subseteq> flow (build_if k (IRIf h' c' t' e') c' t' e' (k @ ''::merge'') g)" for g
    by (simp add: build_if_def Let_def)
  then have sub: "{(k @ ''::merge'', k), (k, k @ ''::then''), (k @ ''::then'', k @ ''::merge'')} \<subseteq> flow (build_flow f)"
    using fl by (auto split: if_splits)
  then have "(k, k @ ''::merge'') \<in> (flow (build_flow f))\<^sup>+" by (auto intro: trancl.trancl_into_trancl [OF trancl.r_into_trancl])
  with sub show ?thesis by (simp add: k_def)
qed

section \<open>Properties\<close>

text \<open>
  C15: the validator accepts every graph the builder constructs, whatever the
  statements, their nesting and their line numbers: one entry and one exit, edges between
  existing nodes only, every node with the predecessors and successors it needs and reachable
  from the entry. Moreover only the exit has no successor.
\<close>

theorem built_graphs_valid:
  "validate_flow (build_flow f) = Inr True \<and>
   fg_exit (build_flow f) \<in> flow_ids (build_flow f) \<and>
   flow_ids (build_flow f) - Domain (flow (build_flow f)) \<subseteq> {fg_exit (build_flow f)}"
  using build_flow_finished [of f] by (simp add: validate_flow_iff exits_at_def)

end
