(* ===== verification/Ssa.thy ===== *)
theory Ssa
  imports FlowGraph
begin

text \<open>
  The single assignment form of \<^verbatim>\<open>analysis/ssa/\<close>: versioned variables, phi nodes and the
  renaming pass over a control flow graph, in the order the graph keeps its nodes.
\<close>

record ssa_var =
  va_base :: string
  va_version :: nat

definition ssa_name :: "ssa_var \<Rightarrow> string" where
  "ssa_name v = va_base v @ ''_'' @ str_nat (va_version v)"

record phi_node =
  ph_target :: ssa_var
  ph_operands :: "ssa_var list"
  ph_block :: string

record ssa_node =
  sn_id :: string
  sn_line :: int
  sn_target :: "ssa_var option"
  sn_phi :: "phi_node option"
  sn_uses :: "ssa_var list"
  sn_label :: string

record ssa_function =
  sf_function_name :: string
  sf_file_path :: string
  sf_nodes :: "ssa_node list"
  sf_phi_nodes :: "phi_node list"

text \<open>The pass keeps the version counters, the version stacks (last version last) and the result.\<close>

record renaming =
  rn_counters :: "(string, nat) dict"
  rn_stacks :: "(string, nat list) dict"
  rn_nodes :: "ssa_node list"
  rn_phis :: "phi_node list"

definition start_renaming :: renaming where
  "start_renaming = \<lparr> rn_counters = [], rn_stacks = [], rn_nodes = [], rn_phis = [] \<rparr>"

definition get_new_version :: "string \<Rightarrow> renaming \<Rightarrow> ssa_var \<times> renaming" where
  "get_new_version name r =
     (let v = dget_default (rn_counters r) name 0 + 1
      in (\<lparr> va_base = name, va_version = v \<rparr>,
          r\<lparr> rn_counters := dset (rn_counters r) name v,
             rn_stacks := dset (rn_stacks r) name (dget_default (rn_stacks r) name [] @ [v]) \<rparr>))"

definition get_current_version :: "string \<Rightarrow> renaming \<Rightarrow> ssa_var" where
  "get_current_version name r =
     (case dget (rn_stacks r) name of
        Some (v # vs) \<Rightarrow> \<lparr> va_base = name, va_version = last (v # vs) \<rparr>
      | _ \<Rightarrow> \<lparr> va_base = name, va_version = 0 \<rparr>)"

definition emit :: "ssa_node \<Rightarrow> renaming \<Rightarrow> renaming" where
  "emit n r = r\<lparr> rn_nodes := rn_nodes r @ [n] \<rparr>"

text \<open>The letter Phi of the label is kept as its two UTF-8 bytes.\<close>

definition phi_step :: "string \<Rightarrow> flow_node \<Rightarrow> string \<Rightarrow> renaming \<Rightarrow> renaming" where
  "phi_step nid n var_name r =
     (let (t, r) = get_new_version var_name r;
          op1 = \<lparr> va_base = var_name, va_version = va_version t - 1 \<rparr>;
          op2 = \<lparr> va_base = var_name, va_version = va_version t \<rparr>;
          phi = \<lparr> ph_target = t, ph_operands = [op1, op2], ph_block = nid \<rparr>
      in emit \<lparr> sn_id = nid @ ''::phi::'' @ var_name, sn_line = nd_line n, sn_target = Some t,
                sn_phi = Some phi, sn_uses = [],
                sn_label = [CHR 0xCE, CHR 0xA6] @ ''('' @ ssa_name op1 @ '', '' @ ssa_name op2 @ '')'' \<rparr>
           (r\<lparr> rn_phis := rn_phis r @ [phi] \<rparr>))"

definition is_merge_point :: "flow_node \<Rightarrow> bool" where
  "is_merge_point n \<longleftrightarrow> nd_type n = CONDITION \<and> contains ''Merge'' (nd_label n)"

definition used_vars :: "string \<Rightarrow> string \<Rightarrow> string \<Rightarrow> renaming \<Rightarrow> ssa_var list" where
  "used_vars target value operator r =
     (let names = filter (\<lambda>v. contains v value) (dkeys (rn_counters r));
          names = (if operator \<noteq> ''='' \<and> target \<in> set (dkeys (rn_counters r)) \<and> target \<notin> set names
                   then names @ [target] else names)
      in map (\<lambda>v. get_current_version v r) names)"

fun rename_statement :: "ir_statement \<Rightarrow> renaming \<Rightarrow> renaming" where
  "rename_statement (IRAssignment h target value operator) r =
     (let used = used_vars target value operator r;
          (t, r) = get_new_version target r
      in emit \<lparr> sn_id = ir_id h, sn_line = ir_line h, sn_target = Some t, sn_phi = None, sn_uses = used,
                sn_label = ssa_name t @ '' = '' @ value \<rparr> r)"
| "rename_statement _ r = r"

definition rename_node :: "string \<times> flow_node \<Rightarrow> renaming \<Rightarrow> renaming" where
  "rename_node kn r =
     fold rename_statement (nd_statements (snd kn))
       (if is_merge_point (snd kn) then fold (phi_step (fst kn) (snd kn)) (dkeys (rn_counters r)) r else r)"

definition build_ssa :: "flow_graph \<Rightarrow> ssa_function" where
  "build_ssa g =
     (let r = fold rename_node (fg_nodes g) start_renaming
      in \<lparr> sf_function_name = fg_function_name g, sf_file_path = fg_file_path g,
           sf_nodes = rn_nodes r, sf_phi_nodes = rn_phis r \<rparr>)"

section \<open>The invariant of the renaming\<close>

fun defined_before :: "ssa_var set \<Rightarrow> ssa_node list \<Rightarrow> bool" where
  "defined_before defs [] = True"
| "defined_before defs (n # ns) \<longleftrightarrow>
     set (sn_uses n) \<subseteq> defs \<and> defined_before (defs \<union> set_option (sn_target n)) ns"

definition targets :: "ssa_node list \<Rightarrow> ssa_var list" where
  "targets ns = List.map_filter sn_target ns"

lemma targets_simps [simp]:
  "targets [] = []" "targets (xs @ ys) = targets xs @ targets ys"
  "targets [n] = (case sn_target n of None \<Rightarrow> [] | Some t \<Rightarrow> [t])"
  by (simp_all add: targets_def List.map_filter_def split: option.split)

lemma defined_before_snoc:
  "defined_before defs (ns @ [n]) \<longleftrightarrow>
     defined_before defs ns \<and> set (sn_uses n) \<subseteq> defs \<union> set (targets ns)"
proof (induction ns arbitrary: defs)
  case (Cons m ns)
  have "set (targets (m # ns)) = set_option (sn_target m) \<union> set (targets ns)"
    by (auto simp: targets_def List.map_filter_def split: option.splits)
  then show ?case using Cons.IH by (auto simp: Un_assoc)
qed simp

definition renaming_inv :: "renaming \<Rightarrow> bool" where
  [inv_simps]: "renaming_inv r \<longleftrightarrow>
     set (targets (rn_nodes r)) =
       {v. \<exists>n. dget (rn_counters r) (va_base v) = Some n \<and> 1 \<le> va_version v \<and> va_version v \<le> n} \<and>
     distinct (targets (rn_nodes r)) \<and> defined_before {} (rn_nodes r) \<and>
     (\<forall>k n. dget (rn_counters r) k = Some n \<longrightarrow>
        1 \<le> n \<and> (\<exists>vs. dget (rn_stacks r) k = Some (vs @ [n])))"

lemma current_version:
  assumes "renaming_inv r" "k \<in> set (dkeys (rn_counters r))"
  shows "get_current_version k r \<in> set (targets (rn_nodes r))"
proof -
  obtain n where n: "dget (rn_counters r) k = Some n"
    using assms(2) dget_None_iff [of "rn_counters r" k] by (cases "dget (rn_counters r) k") blast+
  then have "1 \<le> n \<and> (\<exists>vs. dget (rn_stacks r) k = Some (vs @ [n]))"
    using assms(1) unfolding renaming_inv_def by blast
  then obtain vs where vs: "1 \<le> n" "dget (rn_stacks r) k = Some (vs @ [n])" by blast
  then have "get_current_version k r = \<lparr> va_base = k, va_version = n \<rparr>"
    by (cases vs) (simp_all add: get_current_version_def)
  then show ?thesis using assms(1) n vs(1) by (simp add: renaming_inv_def)
qed

lemma renaming_inv_emit:
  assumes inv: "renaming_inv r" and new: "get_new_version k r = (t, r')"
    and n: "sn_target n = Some t" "set (sn_uses n) \<subseteq> set (targets (rn_nodes r))"
    and s: "rn_counters s = rn_counters r'" "rn_stacks s = rn_stacks r'" "rn_nodes s = rn_nodes r @ [n]"
  shows "renaming_inv s"
proof -
  define v where "v = dget_default (rn_counters r) k 0"
  have c: "rn_counters s = dset (rn_counters r) k (v + 1)"
    "rn_stacks s = dset (rn_stacks r) k (dget_default (rn_stacks r) k [] @ [v + 1])"
    "t = \<lparr> va_base = k, va_version = v + 1 \<rparr>"
    using new by (auto simp: s get_new_version_def Let_def v_def)
  have old: "dget (rn_counters r) k = Some m \<Longrightarrow> m = v" "dget (rn_counters r) k = None \<Longrightarrow> v = 0" for m
    by (auto simp: v_def dget_default_def)
  have mem: "set (targets (rn_nodes r)) = {v. \<exists>n. dget (rn_counters r) (va_base v) = Some n \<and> 1 \<le> va_version v \<and> va_version v \<le> n}"
    and dis: "distinct (targets (rn_nodes r))" and def: "defined_before {} (rn_nodes r)"
    and stk: "\<And>k n. dget (rn_counters r) k = Some n \<Longrightarrow> 1 \<le> n \<and> (\<exists>vs. dget (rn_stacks r) k = Some (vs @ [n]))"
    using inv by (simp_all add: renaming_inv_def)
  have eq: "u = t \<longleftrightarrow> va_base u = k \<and> va_version u = v + 1" for u by (cases u) (simp add: c(3))
  have fresh: "t \<notin> set (targets (rn_nodes r))" using old by (auto simp: mem c(3))
  have all: "u \<in> insert t (set (targets (rn_nodes r))) \<longleftrightarrow>
      (\<exists>n. dget (rn_counters s) (va_base u) = Some n \<and> 1 \<le> va_version u \<and> va_version u \<le> n)" for u
  proof (cases "va_base u = k")
    case True
    show ?thesis
    proof (cases "dget (rn_counters r) k")
      case None
      then have "v = 0" by (rule old(2))
      then show ?thesis using True None by (auto simp: mem c(1,2) eq)
    next
      case (Some m)
      then have "m = v" by (rule old(1))
      then show ?thesis using True Some by (auto simp: mem c(1,2) eq le_Suc_eq)
    qed
  next
    case False
    then show ?thesis by (simp add: mem c(1,2) eq)
  qed
  have tg: "targets (rn_nodes s) = targets (rn_nodes r) @ [t]" by (simp add: s(3) n(1))
  show ?thesis
    unfolding renaming_inv_def
  proof (intro conjI allI impI)
    show "set (targets (rn_nodes s)) =
        {v. \<exists>n. dget (rn_counters s) (va_base v) = Some n \<and> 1 \<le> va_version v \<and> va_version v \<le> n}"
      using all unfolding tg by (simp only: set_append set_simps Un_insert_right Un_empty_right set_eq_iff mem_Collect_eq) blast
    show "distinct (targets (rn_nodes s))" using dis fresh by (simp add: tg)
    show "defined_before {} (rn_nodes s)" using def n(2) by (simp add: s(3) defined_before_snoc)
    fix j m
    assume "dget (rn_counters s) j = Some m"
    then show "1 \<le> m" "\<exists>vs. dget (rn_stacks s) j = Some (vs @ [m])"
      using stk [of j m] by (auto simp: c(1,2) split: if_splits)
  qed
qed

lemma phi_step_inv: "renaming_inv r \<Longrightarrow> renaming_inv (phi_step nid n k r)"
  by (cases "get_new_version k r", rule renaming_inv_emit [where r = r and k = k])
    (auto simp: phi_step_def Let_def emit_def get_new_version_def)

lemma rename_statement_inv:
  assumes "renaming_inv r"
  shows "renaming_inv (rename_statement s r)"
proof (cases "is_basic s \<and> (\<exists>h t v op. s = IRAssignment h t v op)")
  case True
  then obtain h tg v op where s: "s = IRAssignment h tg v op" by auto
  obtain t r' where new: "get_new_version tg r = (t, r')" by (cases "get_new_version tg r")
  have "set (used_vars tg v op r) \<subseteq> set (targets (rn_nodes r))"
    using current_version [OF assms] by (auto simp: used_vars_def Let_def split: if_splits)
  then show ?thesis
    by (intro renaming_inv_emit [OF assms new]) (use new in \<open>auto simp: s Let_def emit_def get_new_version_def\<close>)
next
  case False
  then show ?thesis using assms by (cases s) simp_all
qed

lemma fold_inv: "(\<And>x s. x \<in> set xs \<Longrightarrow> I s \<Longrightarrow> I (f x s)) \<Longrightarrow> I s \<Longrightarrow> I (fold f xs s)"
  by (induction xs arbitrary: s) simp_all

lemma rename_node_inv: "renaming_inv r \<Longrightarrow> renaming_inv (rename_node kn r)"
  unfolding rename_node_def
  by (rule fold_inv [where I = renaming_inv], rule rename_statement_inv, assumption)
    (simp add: fold_inv [where I = renaming_inv] phi_step_inv)

lemma start_renaming_inv: "renaming_inv start_renaming"
  by (simp add: renaming_inv_def start_renaming_def)

lemma build_ssa_inv: "renaming_inv (fold rename_node (fg_nodes g) start_renaming)"
  by (rule fold_inv [where I = renaming_inv], rule rename_node_inv, assumption, rule start_renaming_inv)

text \<open>The printed name of a version determines it.\<close>

lemma ssa_name_inj: "ssa_name u = ssa_name v \<Longrightarrow> u = v"
proof -
  assume "ssa_name u = ssa_name v"
  moreover have "CHR ''_'' \<notin> set (str_nat n)" for n by (rule not_digit_str_nat) simp
  ultimately have "va_base u = va_base v \<and> str_nat (va_version u) = str_nat (va_version v)"
    by (intro split_at_last [of "CHR ''_''"]) (simp_all add: ssa_name_def)
  then show "u = v" by (auto dest: str_nat_inj)
qed

section \<open>Phi nodes\<close>

lemma rename_statement_phis [simp]: "rn_phis (rename_statement s r) = rn_phis r"
  by (cases s) (auto simp: Let_def emit_def get_new_version_def)

lemma fold_rename_phis [simp]: "rn_phis (fold rename_statement ss r) = rn_phis r"
  by (induction ss arbitrary: r) simp_all

lemma no_merge_no_phis:
  "list_all (\<lambda>kn. \<not> is_merge_point (snd kn)) ns \<Longrightarrow> rn_phis (fold rename_node ns r) = rn_phis r"
  by (induction ns arbitrary: r) (simp_all add: rename_node_def)

text \<open>The conditions a built graph tests are the top-level ones of the function.\<close>

definition mentions_merge :: "ir_statement \<Rightarrow> bool" where
  "mentions_merge s = (case s of IRIf _ cond _ _ \<Rightarrow> contains ''Merge'' (''If ('' @ cond @ '')'') | _ \<Rightarrow> False)"

definition merge_free :: "flow_graph \<Rightarrow> bool" where
  "merge_free g \<longleftrightarrow> (\<forall>k n. dget (fg_nodes g) k = Some n \<longrightarrow> \<not> is_merge_point n)"

lemma merge_free_add_node: "merge_free g \<Longrightarrow> \<not> is_merge_point n \<Longrightarrow> merge_free (flow_add_node n g)"
  by (auto simp: merge_free_def flow_add_node_def Let_def)

lemma merge_free_add_edge [simp]: "merge_free (flow_add_edge s t ty c g) = merge_free g"
  by (simp add: merge_free_def flow_add_edge_def)

lemma not_merge_type: "nd_type n \<noteq> CONDITION \<Longrightarrow> \<not> is_merge_point n"
  by (simp add: is_merge_point_def)

lemma merge_free_statements:
  "merge_free g \<Longrightarrow> list_all (\<lambda>s. \<not> mentions_merge s) ss \<Longrightarrow>
     merge_free (snd (build_statements fid ex idx ss prev g))"
proof (induction fid ex idx ss prev g rule: build_statements.induct)
  case (1 fid ex idx prev g)
  then show ?case by simp
next
  case (2 fid ex idx s ss prev g)
  have rest: "list_all (\<lambda>s. \<not> mentions_merge s) ss" "list_all (\<lambda>s. \<not> mentions_merge s) (dropWhile is_basic ss)"
    using "2.prems"(2) by (auto simp: list_all_iff dest: set_dropWhileD)
  show ?case
  proof (cases "is_basic s")
    case True
    then show ?thesis using "2.IH"(1) [OF True refl refl refl] rest "2.prems"(1)
      by (simp add: Let_def merge_free_add_node not_merge_type block_node_def)
  next
    case False
    then show ?thesis
    proof (cases s)
      case (IRStatement x)
      then show ?thesis using "2.IH"(2) [OF False IRStatement "2.prems"(1) rest(1)] by simp
    next
      case (IRReturn x v)
      then show ?thesis using "2.IH"(5) [OF False IRReturn refl] rest "2.prems"(1)
        by (simp add: Let_def build_return_def merge_free_add_node not_merge_type)
    next
      case (IRIf x c t e)
      have "\<not> is_merge_point (branch_node k CONDITION s [] (''If ('' @ c @ '')''))" for k
        using "2.prems"(2) IRIf by (simp add: is_merge_point_def branch_node_def mentions_merge_def)
      then show ?thesis using "2.IH"(6) [OF False IRIf refl] rest "2.prems"(1) IRIf
        by (simp add: Let_def build_if_def merge_free_add_node not_merge_type)
    next
      case (IRLoop x t c b)
      then show ?thesis using "2.IH"(7) [OF False IRLoop refl] rest "2.prems"(1)
        by (simp add: Let_def build_loop_def merge_free_add_node not_merge_type)
    qed simp_all
  qed
qed

lemma build_flow_merge_free:
  assumes "list_all (\<lambda>s. \<not> mentions_merge s) (irf_body f)"
  shows "merge_free (build_flow f)"
proof -
  let ?fid = "ir_id (irf_head f)" and ?l = "ir_line (irf_head f)"
  define g where "g = flow_add_node (exit_node ?fid ?l) (flow_add_node (entry_node ?fid ?l)
    (empty_flow (irf_name f) (ir_file_path (irf_head f))))"
  have "merge_free g"
    unfolding g_def
    by (intro merge_free_add_node) (simp_all add: not_merge_type entry_node_def exit_node_def merge_free_def empty_flow_def)
  then have "merge_free (snd (build_statements ?fid (nd_id (exit_node ?fid ?l)) 0 (irf_body f) (nd_id (entry_node ?fid ?l)) g))"
    by (rule merge_free_statements [OF _ assms])
  moreover obtain last_id k where k: "build_statements ?fid (nd_id (exit_node ?fid ?l)) 0 (irf_body f)
      (nd_id (entry_node ?fid ?l)) g = (last_id, k)" by fastforce
  ultimately show ?thesis using \<open>merge_free g\<close> by (simp add: build_flow_def Let_def g_def [symmetric])
qed

lemma merge_free_listed: "distinct (dkeys (fg_nodes g)) \<Longrightarrow> merge_free g \<Longrightarrow>
  list_all (\<lambda>kn. \<not> is_merge_point (snd kn)) (fg_nodes g)"
  unfolding list_all_iff merge_free_def by (auto dest: map_of_is_SomeI)

lemma distinct_ids_step:
  "distinct (dkeys (fg_nodes g)) \<Longrightarrow> distinct (dkeys (fg_nodes (flow_add_node n g)))"
  "distinct (dkeys (fg_nodes g)) \<Longrightarrow> distinct (dkeys (fg_nodes (flow_add_edge s t ty c g)))"
  by (simp_all add: flow_add_node_def flow_add_edge_def Let_def distinct_dset)

lemma distinct_ids_statements:
  "distinct (dkeys (fg_nodes g)) \<Longrightarrow> distinct (dkeys (fg_nodes (snd (build_statements fid ex idx ss prev g))))"
  by (induction fid ex idx ss prev g rule: build_statements.induct)
    (auto simp: Let_def build_if_def build_loop_def build_return_def distinct_ids_step split: ir_statement.splits)

lemma build_flow_distinct: "distinct (dkeys (fg_nodes (build_flow f)))"
proof -
  let ?fid = "ir_id (irf_head f)" and ?l = "ir_line (irf_head f)"
  define g where "g = flow_add_node (exit_node ?fid ?l) (flow_add_node (entry_node ?fid ?l)
    (empty_flow (irf_name f) (ir_file_path (irf_head f))))"
  have g: "distinct (dkeys (fg_nodes g))"
    unfolding g_def by (intro distinct_ids_step) (simp add: empty_flow_def)
  obtain last_id k where k: "build_statements ?fid (nd_id (exit_node ?fid ?l)) 0 (irf_body f)
      (nd_id (entry_node ?fid ?l)) g = (last_id, k)" by fastforce
  have "distinct (dkeys (fg_nodes k))"
    using distinct_ids_statements [OF g] k by (metis snd_conv)
  then show ?thesis using g k distinct_ids_step(2) by (simp add: build_flow_def Let_def g_def [symmetric])
qed

text \<open>A phi node takes its own target for the version of the second path.\<close>

lemma phi_own_operand: "list_all (\<lambda>p. ph_target p \<in> set (ph_operands p)) (sf_phi_nodes (build_ssa g))"
proof -
  let ?I = "\<lambda>r. list_all (\<lambda>p. ph_target p \<in> set (ph_operands p)) (rn_phis r)"
  have step: "?I (phi_step nid n k r)" if "?I r" for nid n k r
    using that by (simp add: phi_step_def get_new_version_def Let_def emit_def)
  have "?I (rename_node kn r)" if "?I r" for kn r
    using that fold_inv [where I = ?I and f = "phi_step (fst kn) (snd kn)"] step by (simp add: rename_node_def)
  then have "?I (fold rename_node (fg_nodes g) start_renaming)"
    by (intro fold_inv [where I = ?I]) (simp_all add: start_renaming_def)
  then show ?thesis by (simp add: build_ssa_def Let_def)
qed

section \<open>Properties\<close>

text \<open>
  C16: the renaming pass produces single assignment form on every graph: no two
  nodes define the same printed name, and every variable a node uses is one that an earlier
  node defines.
\<close>

theorem single_assignment:
  "distinct (map ssa_name (targets (sf_nodes (build_ssa g)))) \<and> defined_before {} (sf_nodes (build_ssa g))"
proof -
  have "distinct (targets (sf_nodes (build_ssa g))) \<and> defined_before {} (sf_nodes (build_ssa g))"
    using build_ssa_inv [of g] by (simp add: build_ssa_def Let_def renaming_inv_def)
  then show ?thesis by (auto simp: distinct_map intro: inj_onI ssa_name_inj)
qed

definition branch_head :: "int \<Rightarrow> ir_head" where
  "branch_head l = \<lparr> ir_id = ''a.php::assign::'' @ str_int l, ir_line = l, ir_file_path = ''a.php'', ir_language = ''php'' \<rparr>"

text \<open>A variable assigned in both branches and used after them.\<close>

definition branching :: "string \<Rightarrow> string \<Rightarrow> string \<Rightarrow> ir_function" where
  "branching cond v w = \<lparr> irf_head = (branch_head 1)\<lparr> ir_id := ''a.php::f::1'' \<rparr>, irf_name = ''f'', irf_parameters = [],
     irf_body = [IRIf (branch_head 2) cond [IRAssignment (branch_head 3) ''$x'' v ''='']
                   [IRAssignment (branch_head 5) ''$x'' w ''=''],
                 IRAssignment (branch_head 7) ''$y'' ''$x'' ''=''] \<rparr>"

text \<open>
  The renaming pass places no phi node in a graph of the builder, unless
  the text of some condition contains the word Merge: it looks for merge points among the
  condition nodes, while the builder makes them statement nodes. A join of two versions
  therefore never appears in the single assignment form.
\<close>

theorem phi_nodes_missing:
  assumes "list_all (\<lambda>s. \<not> mentions_merge s) (irf_body f)"
  shows "sf_phi_nodes (build_ssa (build_flow f)) = []"
  using no_merge_no_phis [OF merge_free_listed [OF build_flow_distinct build_flow_merge_free [OF assms]]]
  by (simp add: build_ssa_def Let_def start_renaming_def)

theorem phi_nodes_missing_witness:
  "sf_phi_nodes (build_ssa (build_flow (branching ''$c'' ''$_GET'' ''1''))) = []"
proof (rule phi_nodes_missing)
  show "list_all (\<lambda>s. \<not> mentions_merge s) (irf_body (branching ''$c'' ''$_GET'' ''1''))" by code_simp
qed

text \<open>
  With the word in a condition, the condition itself gets the phi nodes, each with its own
  target as the second operand.
\<close>

lemma phi_by_accident:
  "map (\<lambda>p. (ssa_name (ph_target p), map ssa_name (ph_operands p)))
     (sf_phi_nodes (build_ssa (build_flow ((branching ''isMerged($c)'' ''1'' ''2'')
        \<lparr> irf_body := IRAssignment (branch_head 1) ''$x'' ''0'' ''='' # irf_body (branching ''isMerged($c)'' ''1'' ''2'') \<rparr>))))
   = [(''$x_2'', [''$x_1'', ''$x_2''])]"
  by code_simp

end
