(* ===== verification/Dominators.thy ===== *)
theory Dominators
  imports FlowGraph
begin

text \<open>
  The dominator analysis of \<^verbatim>\<open>analysis/cfg/dominator.py\<close>: dominators and post-dominators by
  sweeping over the nodes, immediate dominators, dominance frontiers and the sanitizer check.
  The order in which Python enumerates a set of strings is the parameter \<open>enum\<close>.
\<close>

type_synonym node_sets = "(string, string set) dict"

text \<open>\<open>[d[k] for k in ks]\<close>: the first missing key is raised.\<close>

fun lookup_all :: "('k, 'v) dict \<Rightarrow> 'k list \<Rightarrow> 'k + 'v list" where
  "lookup_all d [] = Inr []"
| "lookup_all d (k # ks) =
     (case dget d k of
        None \<Rightarrow> Inl k
      | Some v \<Rightarrow> rbind (lookup_all d ks) (\<lambda>vs. Inr (v # vs)))"

definition initial_sets :: "string list \<Rightarrow> string \<Rightarrow> node_sets" where
  "initial_sets all_nodes apex = map (\<lambda>k. (k, if k = apex then {apex} else set all_nodes)) all_nodes"

definition meet_step ::
  "string \<Rightarrow> (string \<Rightarrow> string list) \<Rightarrow> string \<Rightarrow> node_sets \<Rightarrow> string + node_sets \<times> bool" where
  "meet_step apex neighbours nid sets =
     (if nid = apex then Inr (sets, False)
      else rbind (if neighbours nid = [] then Inr {nid}
                  else rbind (lookup_all sets (neighbours nid)) (\<lambda>vs. Inr (insert nid (\<Inter> (set vs)))))
        (\<lambda>new. case dget sets nid of
           None \<Rightarrow> Inl nid
         | Some old \<Rightarrow> if new \<noteq> old then Inr (dset sets nid new, True) else Inr (sets, False)))"

definition compute_dominators :: "(string set \<Rightarrow> string list) \<Rightarrow> flow_graph \<Rightarrow> (string + node_sets) option" where
  "compute_dominators enum g =
     (let all_nodes = enum (flow_ids g)
      in sweep_until_stable (meet_step (fg_entry g) (flow_preds g)) all_nodes
           (initial_sets all_nodes (fg_entry g)))"

definition compute_post_dominators :: "(string set \<Rightarrow> string list) \<Rightarrow> flow_graph \<Rightarrow> (string + node_sets) option" where
  "compute_post_dominators enum g =
     (let all_nodes = enum (flow_ids g)
      in sweep_until_stable (meet_step (fg_exit g) (flow_succs g)) all_nodes
           (initial_sets all_nodes (fg_exit g)))"

text \<open>\<open>dominates\<close> and \<open>post_dominates\<close>, on the computed sets.\<close>

definition in_sets :: "node_sets \<Rightarrow> string \<Rightarrow> string \<Rightarrow> bool" where
  "in_sets sets a b \<longleftrightarrow> a \<in> dget_default sets b {}"

text \<open>Every node of a computed set is a key, so \<open>self.dominators[other]\<close> is always found.\<close>

definition idom_of :: "(string set \<Rightarrow> string list) \<Rightarrow> node_sets \<Rightarrow> string \<Rightarrow> string option" where
  "idom_of enum sets nid =
     (let strict = dget_default sets nid {} - {nid} in
      if strict = {} then None
      else case find (\<lambda>d. \<forall>other\<in>strict. other \<noteq> d \<longrightarrow> d \<in> dget_default sets other {}) (enum strict) of
             Some d \<Rightarrow> Some (if d \<noteq> [] then d else hd (enum strict))
           | None \<Rightarrow> Some (hd (enum strict)))"

definition compute_idom :: "(string set \<Rightarrow> string list) \<Rightarrow> node_sets \<Rightarrow> (string, string option) dict" where
  "compute_idom enum sets = map (\<lambda>(k, _). (k, idom_of enum sets k)) sets"

definition dominance_frontier :: "flow_graph \<Rightarrow> node_sets \<Rightarrow> string \<Rightarrow> string set" where
  "dominance_frontier g sets x =
     {y \<in> flow_ids g. \<exists>p\<in>set (flow_preds g y). in_sets sets x p \<and> \<not> (in_sets sets x y \<and> x \<noteq> y)}"

definition is_sanitized :: "node_sets \<Rightarrow> string \<Rightarrow> string \<Rightarrow> bool" where
  "is_sanitized sets sanitizer sink \<longleftrightarrow> in_sets sets sanitizer sink"

section \<open>What the sweeps compute\<close>

text \<open>The node is reached from the apex, backwards along the neighbours, without passing \<open>d\<close>.\<close>

inductive avoids :: "string \<Rightarrow> (string \<Rightarrow> string list) \<Rightarrow> string \<Rightarrow> string \<Rightarrow> bool"
  for apex neighbours d where
  avoids_apex: "apex \<noteq> d \<Longrightarrow> avoids apex neighbours d apex"
| avoids_alone: "neighbours k = [] \<Longrightarrow> k \<noteq> d \<Longrightarrow> avoids apex neighbours d k"
| avoids_step: "p \<in> set (neighbours k) \<Longrightarrow> avoids apex neighbours d p \<Longrightarrow> k \<noteq> apex \<Longrightarrow> k \<noteq> d \<Longrightarrow>
    avoids apex neighbours d k"

inductive_simps avoids_iff: "avoids apex neighbours d k"

definition through :: "string set \<Rightarrow> string \<Rightarrow> (string \<Rightarrow> string list) \<Rightarrow> string \<Rightarrow> string set" where
  "through N apex neighbours k = {d \<in> N. \<not> avoids apex neighbours d k}"

definition node_set :: "node_sets \<Rightarrow> string \<Rightarrow> string set" where
  "node_set sets k = dget_default sets k {}"

definition meet_of :: "(string \<Rightarrow> string list) \<Rightarrow> node_sets \<Rightarrow> string \<Rightarrow> string set" where
  "meet_of neighbours sets k =
     (if neighbours k = [] then {k} else insert k (\<Inter>p\<in>set (neighbours k). node_set sets p))"

definition meet_inv :: "string set \<Rightarrow> string \<Rightarrow> (string \<Rightarrow> string list) \<Rightarrow> node_sets \<Rightarrow> bool" where
  [inv_simps]: "meet_inv N apex neighbours sets \<longleftrightarrow>
     finite N \<and> (\<forall>k\<in>N. set (neighbours k) \<subseteq> N) \<and> set (dkeys sets) = N \<and>
     (\<forall>k\<in>N. node_set sets k \<subseteq> N) \<and> (apex \<in> N \<longrightarrow> node_set sets apex = {apex}) \<and>
     (\<forall>k\<in>N. through N apex neighbours k \<subseteq> node_set sets k) \<and>
     (\<forall>k\<in>N. k \<noteq> apex \<longrightarrow> meet_of neighbours sets k \<subseteq> node_set sets k)"

lemma meet_invD:
  assumes "meet_inv N apex neighbours sets"
  shows "finite N" and "k \<in> N \<Longrightarrow> set (neighbours k) \<subseteq> N" and "set (dkeys sets) = N"
    and "k \<in> N \<Longrightarrow> node_set sets k \<subseteq> N" and "apex \<in> N \<Longrightarrow> node_set sets apex = {apex}"
    and "k \<in> N \<Longrightarrow> through N apex neighbours k \<subseteq> node_set sets k"
    and "k \<in> N \<Longrightarrow> k \<noteq> apex \<Longrightarrow> meet_of neighbours sets k \<subseteq> node_set sets k"
  using assms unfolding meet_inv_def by (elim conjE, simp)+

lemma meet_invI:
  assumes "finite N" "\<And>k. k \<in> N \<Longrightarrow> set (neighbours k) \<subseteq> N" "set (dkeys sets) = N"
    "\<And>k. k \<in> N \<Longrightarrow> node_set sets k \<subseteq> N" "apex \<in> N \<Longrightarrow> node_set sets apex = {apex}"
    "\<And>k. k \<in> N \<Longrightarrow> through N apex neighbours k \<subseteq> node_set sets k"
    "\<And>k. k \<in> N \<Longrightarrow> k \<noteq> apex \<Longrightarrow> meet_of neighbours sets k \<subseteq> node_set sets k"
  shows "meet_inv N apex neighbours sets"
  unfolding meet_inv_def by (intro conjI ballI impI; (rule assms; assumption))

lemma node_set_dset [simp]: "node_set (dset sets k v) j = (if j = k then v else node_set sets j)"
  by (simp add: node_set_def)

lemma dget_node_set: "k \<in> set (dkeys sets) \<Longrightarrow> dget sets k = Some (node_set sets k)"
proof -
  assume "k \<in> set (dkeys sets)"
  then have "dget sets k \<noteq> None" using dget_None_iff [of sets k] by blast
  then show ?thesis by (auto simp: node_set_def dget_default_def)
qed

lemma lookup_all_found:
  "set ks \<subseteq> set (dkeys sets) \<Longrightarrow> lookup_all sets ks = Inr (map (node_set sets) ks)"
proof (induction ks)
  case (Cons k ks)
  then have "dget sets k = Some (node_set sets k)" by (intro dget_node_set) simp
  with Cons show ?case by simp
qed simp

lemma meet_step_returns:
  assumes "k \<in> set (dkeys sets)" "set (neighbours k) \<subseteq> set (dkeys sets)"
  shows "meet_step apex neighbours k sets =
    Inr (if k \<noteq> apex \<and> meet_of neighbours sets k \<noteq> node_set sets k
         then (dset sets k (meet_of neighbours sets k), True) else (sets, False))"
  using dget_node_set [OF assms(1)] lookup_all_found [OF assms(2)]
  by (simp add: meet_step_def meet_of_def)

lemma through_step:
  assumes "k \<in> N" "k \<noteq> apex" "\<And>p. p \<in> set (neighbours k) \<Longrightarrow> through N apex neighbours p \<subseteq> S p"
  shows "through N apex neighbours k \<subseteq> (if neighbours k = [] then {k} else insert k (\<Inter>p\<in>set (neighbours k). S p))"
proof
  fix d
  assume d: "d \<in> through N apex neighbours k"
  show "d \<in> (if neighbours k = [] then {k} else insert k (\<Inter>p\<in>set (neighbours k). S p))"
  proof (cases "d = k")
    case False
    then have "neighbours k \<noteq> []" using d avoids_alone [of neighbours k d apex] by (auto simp: through_def)
    moreover have "d \<in> through N apex neighbours p" if "p \<in> set (neighbours k)" for p
      using d avoids_step [of p neighbours k apex d] that assms(1,2) False avoids_apex by (auto simp: through_def)
    ultimately show ?thesis using assms(3) by auto
  qed simp
qed

lemma meet_of_mono:
  "(\<And>p. node_set sets' p \<subseteq> node_set sets p) \<Longrightarrow> meet_of neighbours sets' k \<subseteq> meet_of neighbours sets k"
  unfolding meet_of_def by auto

lemma meet_inv_step:
  assumes inv: "meet_inv N apex neighbours sets" and k: "k \<in> N" "k \<noteq> apex"
    and new: "new = meet_of neighbours sets k"
  shows "meet_inv N apex neighbours (dset sets k new)"
proof (rule meet_invI)
  note i = meet_invD [OF inv]
  have less: "node_set (dset sets k new) p \<subseteq> node_set sets p" for p
    using i(7) [OF k] by (simp add: new)
  show "set (dkeys (dset sets k new)) = N" unfolding set_dkeys_dset i(3) using k(1) by (rule insert_absorb)
  show "node_set (dset sets k new) j \<subseteq> N" if "j \<in> N" for j
    using less [of j] i(4) [OF that] by (rule subset_trans)
  show "node_set (dset sets k new) apex = {apex}" if "apex \<in> N"
    using i(5) [OF that] k by simp
  show "through N apex neighbours j \<subseteq> node_set (dset sets k new) j" if "j \<in> N" for j
  proof (cases "j = k")
    case True
    have "through N apex neighbours k \<subseteq> meet_of neighbours sets k"
      unfolding meet_of_def by (rule through_step [OF k]) (use i(2) [OF k(1)] i(6) in blast)
    then show ?thesis using True by (simp add: new)
  next
    case False
    then show ?thesis using i(6) [OF that] by simp
  qed
  show "meet_of neighbours (dset sets k new) j \<subseteq> node_set (dset sets k new) j"
    if "j \<in> N" "j \<noteq> apex" for j
    using meet_of_mono [OF less, of neighbours j] i(7) [OF that] by (cases "j = k") (auto simp: new)
qed (use meet_invD(1,2) [OF inv] in blast)+

definition meet_todo :: "string set \<Rightarrow> node_sets \<Rightarrow> nat" where
  "meet_todo N sets = (\<Sum>k\<in>N. card (node_set sets k))"

lemma meet_todo_step:
  assumes inv: "meet_inv N apex neighbours sets" and k: "k \<in> N" "k \<noteq> apex"
    and new: "meet_of neighbours sets k \<noteq> node_set sets k"
  shows "meet_todo N (dset sets k (meet_of neighbours sets k)) < meet_todo N sets"
proof -
  note i = meet_invD [OF inv]
  have "meet_of neighbours sets k \<subset> node_set sets k" using i(7) [OF k] new by blast
  then have "card (meet_of neighbours sets k) < card (node_set sets k)"
    using i(1) i(4) [OF k(1)] by (intro psubset_card_mono) (auto intro: finite_subset)
  then show ?thesis
    unfolding meet_todo_def using i(1) k(1)
    by (intro sum_strict_mono_ex1) (auto intro!: bexI [of _ k] less_imp_le)
qed

interpretation meet_sweep: sweeping "meet_step apex neighbours" N "meet_inv N apex neighbours" "meet_todo N"
  for apex neighbours N
proof
  fix k sets
  assume k: "k \<in> N" and inv: "meet_inv N apex neighbours sets"
  have step: "meet_step apex neighbours k sets =
    Inr (if k \<noteq> apex \<and> meet_of neighbours sets k \<noteq> node_set sets k
         then (dset sets k (meet_of neighbours sets k), True) else (sets, False))"
    using meet_invD(2,3) [OF inv] k by (intro meet_step_returns) blast+
  show "\<exists>r. meet_step apex neighbours k sets = Inr r" using step by blast
  show "meet_inv N apex neighbours t" if "meet_step apex neighbours k sets = Inr (t, c)" for t c
    using that step inv meet_inv_step [OF inv k _ refl] by (auto split: if_splits)
  show "t = sets" if "meet_step apex neighbours k sets = Inr (t, False)" for t
    using that step by (auto split: if_splits)
  show "meet_todo N t < meet_todo N sets" if "meet_step apex neighbours k sets = Inr (t, True)" for t
    using that step meet_todo_step [OF inv k] by (auto split: if_splits)
qed

text \<open>A state no step changes holds nothing that can be avoided.\<close>

lemma stable_sets:
  assumes inv: "meet_inv N apex neighbours sets" and stable: "\<forall>k\<in>N. meet_step apex neighbours k sets = Inr (sets, False)"
    and k: "k \<in> N" and apex: "apex \<in> N"
  shows "node_set sets k = through N apex neighbours k"
proof
  note i = meet_invD [OF inv]
  have fixed: "meet_of neighbours sets j = node_set sets j" if "j \<in> N" "j \<noteq> apex" for j
  proof -
    have "meet_step apex neighbours j sets =
        Inr (if j \<noteq> apex \<and> meet_of neighbours sets j \<noteq> node_set sets j
             then (dset sets j (meet_of neighbours sets j), True) else (sets, False))"
      using that(1) i(2) [OF that(1)] by (intro meet_step_returns) (simp_all only: i(3))
    then show ?thesis using stable that by (auto split: if_splits)
  qed
  have "d \<notin> node_set sets j" if "avoids apex neighbours d j" "j \<in> N" for d j
    using that
  proof (induction rule: avoids.induct)
    case avoids_apex
    then show ?case using i(5) by simp
  next
    case (avoids_alone j)
    show ?case
    proof (cases "j = apex")
      case True
      then show ?thesis using i(5) avoids_alone by simp
    next
      case False
      have "node_set sets j = {j}"
        using fixed [OF avoids_alone.prems False] avoids_alone.hyps(1) by (simp add: meet_of_def)
      then show ?thesis using avoids_alone.hyps(2) by simp
    qed
  next
    case (avoids_step p j)
    then have "p \<in> N" using i(2) by blast
    then have "d \<notin> node_set sets p" by (rule avoids_step.IH)
    then have "d \<notin> meet_of neighbours sets j" using avoids_step.hyps by (auto simp: meet_of_def)
    then show ?case using fixed [OF avoids_step.prems avoids_step.hyps(3)] by simp
  qed
  then show "node_set sets k \<subseteq> through N apex neighbours k" using i(4) [OF k] k by (auto simp: through_def)
  show "through N apex neighbours k \<subseteq> node_set sets k" by (rule i(6) [OF k])
qed

lemma initial_node_set: "k \<in> set ns \<Longrightarrow> node_set (initial_sets ns a) k = (if k = a then {a} else set ns)"
proof -
  assume k: "k \<in> set ns"
  have "dget (map (\<lambda>k. (k, f k)) ks) k = (if k \<in> set ks then Some (f k) else None)" for f :: "string \<Rightarrow> string set" and ks
    by (induction ks) auto
  then show ?thesis using k by (simp add: node_set_def initial_sets_def dget_default_def)
qed

lemma initial_meet_inv:
  assumes "\<And>k. k \<in> set ns \<Longrightarrow> set (neighbours k) \<subseteq> set ns"
  shows "meet_inv (set ns) apex neighbours (initial_sets ns apex)"
proof (rule meet_invI)
  show "set (dkeys (initial_sets ns apex)) = set ns" by (simp add: initial_sets_def image_image)
  show "through (set ns) apex neighbours k \<subseteq> node_set (initial_sets ns apex) k" if "k \<in> set ns" for k
  proof -
    have "x = apex" if "\<not> avoids apex neighbours x apex" for x using that avoids_apex by metis
    then show ?thesis by (auto simp: initial_node_set that through_def)
  qed
  show "meet_of neighbours (initial_sets ns apex) k \<subseteq> node_set (initial_sets ns apex) k"
    if "k \<in> set ns" "k \<noteq> apex" for k
  proof (cases "neighbours k")
    case Nil
    then show ?thesis using that by (simp add: meet_of_def initial_node_set)
  next
    case (Cons p ps)
    then have p: "p \<in> set ns" using assms [OF that(1)] by auto
    have "node_set (initial_sets ns apex) p \<subseteq> set ns" using p by (auto simp: initial_node_set)
    then have "(\<Inter>p\<in>set (neighbours k). node_set (initial_sets ns apex) p) \<subseteq> set ns" using Cons by auto
    then show ?thesis using that Cons by (simp add: meet_of_def initial_node_set)
  qed
qed (use assms in \<open>auto simp: initial_node_set\<close>)

lemma sweep_exact:
  assumes "\<And>k. k \<in> set ns \<Longrightarrow> set (neighbours k) \<subseteq> set ns" "apex \<in> set ns"
  shows "\<exists>sets. sweep_until_stable (meet_step apex neighbours) ns (initial_sets ns apex) = Some (Inr sets) \<and>
    set (dkeys sets) = set ns \<and> (\<forall>k\<in>set ns. node_set sets k = through (set ns) apex neighbours k)"
proof -
  obtain t where t: "sweep_until_stable (meet_step apex neighbours) ns (initial_sets ns apex) = Some (Inr t)"
    "meet_inv (set ns) apex neighbours t" "\<forall>n\<in>set ns. meet_step apex neighbours n t = Inr (t, False)"
    using meet_sweep.stable_result [OF subset_refl initial_meet_inv [where apex = apex and neighbours = neighbours and ns = ns]]
      assms(1) by blast
  then show ?thesis using stable_sets [OF t(2,3) _ assms(2)] meet_invD(3) [OF t(2)] by blast
qed

section \<open>Dominance over paths\<close>

definition flow_path :: "flow_graph \<Rightarrow> string list \<Rightarrow> bool" where
  "flow_path g xs \<longleftrightarrow> xs \<noteq> [] \<and> successively (\<lambda>a b. (a, b) \<in> flow g) xs"

definition on_every_path :: "flow_graph \<Rightarrow> string \<Rightarrow> string \<Rightarrow> string \<Rightarrow> bool" where
  "on_every_path g a b d \<longleftrightarrow> (\<forall>xs. flow_path g xs \<longrightarrow> hd xs = a \<longrightarrow> last xs = b \<longrightarrow> d \<in> set xs)"

lemma flow_path_snoc: "flow_path g (xs @ [k]) \<longleftrightarrow> xs = [] \<or> flow_path g xs \<and> (last xs, k) \<in> flow g"
  by (auto simp: flow_path_def successively_append_iff)

lemma flow_path_Cons: "flow_path g (k # xs) \<longleftrightarrow> xs = [] \<or> flow_path g xs \<and> (k, hd xs) \<in> flow g"
  by (cases xs) (auto simp: flow_path_def)

lemma valid_closed: "flow_valid g \<Longrightarrow> (a, b) \<in> flow g \<Longrightarrow> a \<in> flow_ids g \<and> b \<in> flow_ids g"
  by (auto simp: flow_valid_def flow_closed_def)

lemma valid_entry_reaches: "flow_valid g \<Longrightarrow> k \<in> flow_ids g \<Longrightarrow> (fg_entry g, k) \<in> (flow g)\<^sup>*"
  by (auto simp: flow_valid_def)

lemma valid_alone: "flow_valid g \<Longrightarrow> k \<in> flow_ids g \<Longrightarrow> flow_preds g k = [] \<Longrightarrow> k = fg_entry g"
  using valid_entry_reaches [of g k] by (auto simp: preds_Nil elim: rtranclE)

lemma valid_entry: "flow_valid g \<Longrightarrow> fg_entry g \<in> flow_ids g"
proof -
  assume g: "flow_valid g"
  then have "length (nodes_of_type g ENTRY) = 1" by (simp add: flow_valid_def)
  then have "fg_nodes g \<noteq> []" by (auto simp: nodes_of_type_def)
  then have "flow_ids g \<noteq> {}" by (simp add: flow_ids_def)
  then obtain k where k: "k \<in> flow_ids g" by blast
  have "(fg_entry g, k) \<in> (flow g)\<^sup>*" by (rule valid_entry_reaches [OF g k])
  then show "fg_entry g \<in> flow_ids g" using k valid_closed [OF g] by (auto elim: converse_rtranclE)
qed

lemma avoids_entry_path:
  assumes g: "flow_valid g" and "avoids (fg_entry g) (flow_preds g) d k" "k \<in> flow_ids g"
  shows "\<exists>xs. flow_path g xs \<and> hd xs = fg_entry g \<and> last xs = k \<and> d \<notin> set xs"
  using assms(2,3)
proof (induction rule: avoids.induct)
  case avoids_apex
  then show ?case by (intro exI [of _ "[fg_entry g]"]) (simp add: flow_path_def)
next
  case (avoids_alone k)
  then have "k = fg_entry g" using valid_alone [OF g] by blast
  then show ?case using avoids_alone by (intro exI [of _ "[k]"]) (simp add: flow_path_def)
next
  case (avoids_step p k)
  have e: "(p, k) \<in> flow g" using avoids_step by (simp add: flow_preds_flow)
  then obtain xs where xs: "flow_path g xs" "hd xs = fg_entry g" "last xs = p" "d \<notin> set xs"
    using avoids_step valid_closed [OF g] by blast
  moreover have "xs \<noteq> []" using xs(1) by (simp add: flow_path_def)
  ultimately show ?case using e avoids_step by (intro exI [of _ "xs @ [k]"]) (simp add: flow_path_snoc)
qed

lemma path_avoids_entry:
  "flow_path g xs \<Longrightarrow> hd xs = fg_entry g \<Longrightarrow> d \<notin> set xs \<Longrightarrow> avoids (fg_entry g) (flow_preds g) d (last xs)"
proof (induction xs rule: rev_induct)
  case Nil
  then show ?case by (simp add: flow_path_def)
next
  case (snoc k xs)
  show ?case
  proof (cases "k = fg_entry g")
    case True
    then have "fg_entry g \<noteq> d" using snoc.prems by auto
    then show ?thesis using True by (simp add: avoids_apex)
  next
    case False
    then have xs: "xs \<noteq> []" using snoc.prems by auto
    then have p: "flow_path g xs" "last xs \<in> set (flow_preds g k)" "hd xs = fg_entry g" "d \<notin> set xs" "k \<noteq> d"
      using snoc.prems by (auto simp: flow_path_snoc flow_preds_flow)
    show ?thesis unfolding last_snoc by (rule avoids_step [OF p(2) snoc.IH [OF p(1,3,4)] False p(5)])
  qed
qed

lemma avoids_entry_iff:
  "flow_valid g \<Longrightarrow> k \<in> flow_ids g \<Longrightarrow>
     avoids (fg_entry g) (flow_preds g) d k \<longleftrightarrow> \<not> on_every_path g (fg_entry g) k d"
  using avoids_entry_path [of g d k] path_avoids_entry [of g _ d] unfolding on_every_path_def by blast

lemma avoids_exit_path:
  assumes g: "flow_valid g" "fg_exit g \<in> flow_ids g" and n: "\<And>k. k \<in> flow_ids g \<Longrightarrow> flow_succs g k = [] \<Longrightarrow> k = fg_exit g"
    and "avoids (fg_exit g) (flow_succs g) d k" "k \<in> flow_ids g"
  shows "\<exists>xs. flow_path g xs \<and> hd xs = k \<and> last xs = fg_exit g \<and> d \<notin> set xs"
  using assms(4,5)
proof (induction rule: avoids.induct)
  case avoids_apex
  then show ?case by (intro exI [of _ "[fg_exit g]"]) (simp add: flow_path_def)
next
  case (avoids_alone k)
  then have "k = fg_exit g" using n by blast
  then show ?case using avoids_alone by (intro exI [of _ "[k]"]) (simp add: flow_path_def)
next
  case (avoids_step p k)
  have e: "(k, p) \<in> flow g" using avoids_step by (simp add: flow_succs_flow)
  then obtain xs where xs: "flow_path g xs" "hd xs = p" "last xs = fg_exit g" "d \<notin> set xs"
    using avoids_step valid_closed [OF g(1)] by blast
  moreover have "xs \<noteq> []" using xs(1) by (simp add: flow_path_def)
  ultimately show ?case using e avoids_step by (intro exI [of _ "k # xs"]) (simp add: flow_path_Cons)
qed

lemma path_avoids_exit:
  "flow_path g xs \<Longrightarrow> last xs = fg_exit g \<Longrightarrow> d \<notin> set xs \<Longrightarrow> avoids (fg_exit g) (flow_succs g) d (hd xs)"
proof (induction xs)
  case Nil
  then show ?case by (simp add: flow_path_def)
next
  case (Cons k xs)
  show ?case
  proof (cases "k = fg_exit g")
    case True
    then have "fg_exit g \<noteq> d" using Cons.prems by auto
    then show ?thesis using True by (simp add: avoids_apex)
  next
    case False
    then have xs: "xs \<noteq> []" using Cons.prems by auto
    then have p: "flow_path g xs" "hd xs \<in> set (flow_succs g k)" "last xs = fg_exit g" "d \<notin> set xs" "k \<noteq> d"
      using Cons.prems by (auto simp: flow_path_Cons flow_succs_flow)
    show ?thesis unfolding list.sel by (rule avoids_step [OF p(2) Cons.IH [OF p(1,3,4)] False p(5)])
  qed
qed

lemma avoids_exit_iff:
  assumes "flow_valid g" "exits_at g" "k \<in> flow_ids g"
  shows "avoids (fg_exit g) (flow_succs g) d k \<longleftrightarrow> \<not> on_every_path g k (fg_exit g) d"
proof -
  have "j = fg_exit g" if "j \<in> flow_ids g" "flow_succs g j = []" for j
    using assms(2) that by (auto simp: exits_at_def succs_Nil)
  then show ?thesis
    using avoids_exit_path [of g d k] path_avoids_exit [of g _ d] assms unfolding on_every_path_def exits_at_def by blast
qed

section \<open>The analysis on valid graphs\<close>

definition enumerates :: "(string set \<Rightarrow> string list) \<Rightarrow> bool" where
  "enumerates enum \<longleftrightarrow> (\<forall>S. finite S \<longrightarrow> set (enum S) = S)"

lemma enumerates_sorted: "enumerates sorted_list_of_set"
  by (simp add: enumerates_def)

lemma flow_ids_finite [simp]: "finite (flow_ids g)"
  by (simp add: flow_ids_def)

lemma preds_in_ids: "flow_closed g \<Longrightarrow> set (flow_preds g k) \<subseteq> flow_ids g"
  by (auto simp: flow_preds_flow flow_closed_def)

lemma succs_in_ids: "flow_closed g \<Longrightarrow> set (flow_succs g k) \<subseteq> flow_ids g"
  by (auto simp: flow_succs_flow flow_closed_def)

lemma in_sets_node_set: "in_sets sets a b \<longleftrightarrow> a \<in> node_set sets b"
  by (simp add: in_sets_def node_set_def)

lemma node_set_missing: "k \<notin> set (dkeys sets) \<Longrightarrow> node_set sets k = {}"
  unfolding dget_None_iff [symmetric] by (simp add: node_set_def dget_default_def)

lemma dominators_computed:
  assumes g: "flow_valid g" and enum: "enumerates enum"
  shows "\<exists>sets. compute_dominators enum g = Some (Inr sets) \<and>
    (\<forall>a b. in_sets sets a b \<longleftrightarrow> a \<in> flow_ids g \<and> b \<in> flow_ids g \<and> on_every_path g (fg_entry g) b a)"
proof -
  have ns: "set (enum (flow_ids g)) = flow_ids g" using enum by (simp add: enumerates_def)
  have "set (flow_preds g k) \<subseteq> flow_ids g" for k using g by (intro preds_in_ids) (simp add: flow_valid_def)
  then obtain sets where s: "sweep_until_stable (meet_step (fg_entry g) (flow_preds g)) (enum (flow_ids g))
      (initial_sets (enum (flow_ids g)) (fg_entry g)) = Some (Inr sets)" "set (dkeys sets) = flow_ids g"
    "\<forall>k\<in>flow_ids g. node_set sets k = through (flow_ids g) (fg_entry g) (flow_preds g) k"
    using sweep_exact [of "enum (flow_ids g)" "flow_preds g" "fg_entry g"] valid_entry [OF g] unfolding ns by blast
  have "in_sets sets a b \<longleftrightarrow> a \<in> flow_ids g \<and> b \<in> flow_ids g \<and> on_every_path g (fg_entry g) b a" for a b
  proof (cases "b \<in> flow_ids g")
    case True
    then show ?thesis using s(3) avoids_entry_iff [OF g True] by (simp add: in_sets_node_set through_def)
  next
    case False
    then show ?thesis using node_set_missing [of b sets] s(2) by (simp add: in_sets_node_set del: set_map)
  qed
  with s(1) show ?thesis by (auto simp: compute_dominators_def Let_def)
qed

lemma post_dominators_computed:
  assumes g: "flow_valid g" "exits_at g" and enum: "enumerates enum"
  shows "\<exists>sets. compute_post_dominators enum g = Some (Inr sets) \<and>
    (\<forall>a b. in_sets sets a b \<longleftrightarrow> a \<in> flow_ids g \<and> b \<in> flow_ids g \<and> on_every_path g b (fg_exit g) a)"
proof -
  have ns: "set (enum (flow_ids g)) = flow_ids g" using enum by (simp add: enumerates_def)
  have "set (flow_succs g k) \<subseteq> flow_ids g" for k using g by (intro succs_in_ids) (simp add: flow_valid_def)
  then obtain sets where s: "sweep_until_stable (meet_step (fg_exit g) (flow_succs g)) (enum (flow_ids g))
      (initial_sets (enum (flow_ids g)) (fg_exit g)) = Some (Inr sets)" "set (dkeys sets) = flow_ids g"
    "\<forall>k\<in>flow_ids g. node_set sets k = through (flow_ids g) (fg_exit g) (flow_succs g) k"
    using sweep_exact [of "enum (flow_ids g)" "flow_succs g" "fg_exit g"] g(2) unfolding ns exits_at_def by blast
  have "in_sets sets a b \<longleftrightarrow> a \<in> flow_ids g \<and> b \<in> flow_ids g \<and> on_every_path g b (fg_exit g) a" for a b
  proof (cases "b \<in> flow_ids g")
    case True
    then show ?thesis using s(3) avoids_exit_iff [OF g True] by (simp add: in_sets_node_set through_def)
  next
    case False
    then show ?thesis using node_set_missing [of b sets] s(2) by (simp add: in_sets_node_set del: set_map)
  qed
  with s(1) show ?thesis by (auto simp: compute_post_dominators_def Let_def)
qed

text \<open>The immediate dominator the analysis records is always the entry.\<close>

lemma idom_entry:
  assumes g: "flow_valid g" and enum: "enumerates enum"
    and sets: "\<And>a b. in_sets sets a b \<longleftrightarrow> a \<in> flow_ids g \<and> b \<in> flow_ids g \<and> on_every_path g (fg_entry g) b a"
    and k: "k \<in> flow_ids g" "k \<noteq> fg_entry g"
  shows "idom_of enum sets k = Some (fg_entry g)"
proof -
  let ?e = "fg_entry g" and ?strict = "node_set sets k - {k}"
  let ?P = "\<lambda>d. \<forall>other\<in>?strict. other \<noteq> d \<longrightarrow> d \<in> node_set sets other"
  have dom: "a \<in> node_set sets b \<longleftrightarrow> a \<in> flow_ids g \<and> b \<in> flow_ids g \<and> on_every_path g ?e b a" for a b
    using sets by (simp add: in_sets_node_set)
  have entry: "?e \<in> node_set sets b" if "b \<in> flow_ids g" for b
  proof -
    have "flow_path g xs \<Longrightarrow> hd xs = ?e \<Longrightarrow> ?e \<in> set xs" for xs
      using hd_in_set [of xs] by (auto simp: flow_path_def)
    then show ?thesis using that valid_entry [OF g] by (simp add: dom on_every_path_def)
  qed
  have only: "d = ?e" if "d \<in> node_set sets ?e" for d
  proof -
    have "flow_path g [?e]" by (simp add: flow_path_def)
    with that have "d \<in> set [?e]" unfolding dom on_every_path_def by force
    then show ?thesis by simp
  qed
  have e: "?e \<in> ?strict" using entry [OF k(1)] k(2) by blast
  have all: "?P ?e"
  proof (intro ballI impI)
    fix other
    assume "other \<in> ?strict"
    then have "other \<in> flow_ids g" using dom by blast
    then show "?e \<in> node_set sets other" by (rule entry)
  qed
  have unique: "d = ?e" if d: "?P d" for d
  proof (rule ccontr)
    assume "d \<noteq> ?e"
    moreover have "?e \<noteq> d \<longrightarrow> d \<in> node_set sets ?e" by (rule bspec [OF d e])
    ultimately show False using only [of d] by simp
  qed
  have fin: "finite ?strict" using dom by (intro finite_subset [OF _ flow_ids_finite [of g]]) blast
  then have enum_strict: "set (enum ?strict) = ?strict" using enum by (simp add: enumerates_def)
  have "find ?P (enum ?strict) = Some ?e"
  proof (cases "find ?P (enum ?strict)")
    case None
    then have "\<not> (\<exists>x. x \<in> set (enum ?strict) \<and> ?P x)" unfolding find_None_iff .
    then show ?thesis using e all enum_strict by blast
  next
    case (Some d)
    then have "?P d" by (auto simp: find_Some_iff)
    then have "d = ?e" by (rule unique)
    then show ?thesis using Some by simp
  qed
  moreover have "?e \<noteq> []" using g by (simp add: flow_valid_def)
  moreover have "?strict \<noteq> {}" using e by blast
  ultimately show ?thesis unfolding idom_of_def Let_def node_set_def [symmetric] by simp
qed

lemma validated: "validate_flow g = Inr True \<Longrightarrow> flow_valid g"
  by (simp add: validate_flow_iff)

text \<open>A function of two blocks around a loop, for the instances below.\<close>

definition demo_head :: "int \<Rightarrow> ir_head" where
  "demo_head l = \<lparr> ir_id = ''f'', ir_line = l, ir_file_path = ''f.php'', ir_language = ''php'' \<rparr>"

definition demo_function :: ir_function where
  "demo_function = \<lparr> irf_head = demo_head 1, irf_name = ''f'', irf_parameters = [],
     irf_body = [IRAssignment (demo_head 2) ''x'' ''1'' ''='', IRLoop (demo_head 3) ''WHILE'' ''c'' [],
       IRReturn (demo_head 5) ''x''] \<rparr>"

lemma demo_block: "''f::stmt::2::1'' \<in> flow_ids (build_flow demo_function)"
  and demo_return: "''f::return::5'' \<in> flow_ids (build_flow demo_function)"
  and demo_entry: "fg_entry (build_flow demo_function) = ''f::ENTRY''"
  by code_simp+

section \<open>Properties\<close>

text \<open>
  C14: on every graph the validator accepts, and whatever the order in which the
  set of nodes is enumerated, the iteration ends, and the computed relation is dominance over
  paths: a node dominates another exactly when it lies on every path from the entry to it. The
  sanitizer check is this relation: it says SAFE only when no path reaches the sink around the
  sanitizer.
\<close>

theorem dominators_exact:
  assumes "validate_flow g = Inr True" "enumerates enum"
  shows "\<exists>sets. compute_dominators enum g = Some (Inr sets) \<and>
    (\<forall>a b. is_sanitized sets a b \<longleftrightarrow>
       a \<in> flow_ids g \<and> b \<in> flow_ids g \<and> on_every_path g (fg_entry g) b a)"
  using dominators_computed [OF validated [OF assms(1)] assms(2)] by (simp add: is_sanitized_def)

theorem dominators_exact_witness:
  "\<exists>sets. compute_dominators sorted_list_of_set (build_flow demo_function) = Some (Inr sets) \<and>
    (is_sanitized sets ''f::stmt::2::1'' ''f::return::5'' \<longleftrightarrow>
       on_every_path (build_flow demo_function) ''f::ENTRY'' ''f::return::5'' ''f::stmt::2::1'')"
  using dominators_exact [of "build_flow demo_function" sorted_list_of_set] build_flow_finished [of demo_function]
    enumerates_sorted demo_block demo_return
  by (auto simp: validate_flow_iff demo_entry)

text \<open>
  On every graph the builder constructs the post-dominator iteration
  ends, and a node post-dominates another exactly when it lies on every path from it to the
  exit.
\<close>

theorem post_dominators_exact:
  assumes "enumerates enum"
  shows "\<exists>sets. compute_post_dominators enum (build_flow f) = Some (Inr sets) \<and>
    (\<forall>a b. in_sets sets a b \<longleftrightarrow> a \<in> flow_ids (build_flow f) \<and> b \<in> flow_ids (build_flow f) \<and>
       on_every_path (build_flow f) b (fg_exit (build_flow f)) a)"
  using post_dominators_computed [of "build_flow f" enum] build_flow_finished [of f] assms by blast

theorem post_dominators_exact_witness:
  "\<exists>sets. compute_post_dominators sorted_list_of_set (build_flow demo_function) = Some (Inr sets)"
  using post_dominators_exact [OF enumerates_sorted, of demo_function] by blast

text \<open>
  On every graph the validator accepts, the immediate dominator the analysis
  records for a node other than the entry is the entry itself, however many dominators lie
  between them: the loop that looks for it takes the strict dominator that dominates all the
  others, not the one all the others dominate.
\<close>

theorem idom_is_entry:
  assumes "validate_flow g = Inr True" "enumerates enum" "compute_dominators enum g = Some (Inr sets)"
    "k \<in> flow_ids g" "k \<noteq> fg_entry g"
  shows "idom_of enum sets k = Some (fg_entry g)"
proof -
  have "in_sets sets a b \<longleftrightarrow> a \<in> flow_ids g \<and> b \<in> flow_ids g \<and> on_every_path g (fg_entry g) b a" for a b
    using dominators_computed [OF validated [OF assms(1)] assms(2)] assms(3) by auto
  then show ?thesis by (rule idom_entry [OF validated [OF assms(1)] assms(2) _ assms(4,5)])
qed

theorem idom_is_entry_witness:
  "\<exists>sets. compute_dominators sorted_list_of_set (build_flow demo_function) = Some (Inr sets) \<and>
     idom_of sorted_list_of_set sets ''f::return::5'' = Some ''f::ENTRY''"
proof -
  have v: "validate_flow (build_flow demo_function) = Inr True"
    using build_flow_finished [of demo_function] by (simp add: validate_flow_iff)
  obtain sets where "compute_dominators sorted_list_of_set (build_flow demo_function) = Some (Inr sets)"
    using dominators_computed [OF validated [OF v] enumerates_sorted] by blast
  with idom_is_entry [OF v enumerates_sorted this demo_return] show ?thesis by (simp add: demo_entry)
qed

end
