(* ===== verification/ReachingDefs.thy ===== *)
theory ReachingDefs
  imports Ssa Dominators
begin

text \<open>
  The data flow analysis of \<^verbatim>\<open>analysis/dataflow/\<close>: reaching definitions by sweeping over the
  nodes, def-use chains, and the data flow graph assembled from them. Constant propagation rests
  on the interpreter's own literal parser and is left out. The order in which Python enumerates
  a set of definitions is the parameter \<open>enum\<close>.
\<close>

section \<open>Reaching definitions\<close>

type_synonym definition_site = "string \<times> nat \<times> int"

record variable_ref =
  vr_name :: string
  vr_version :: nat
  vr_line :: int

definition ref_ssa_name :: "variable_ref \<Rightarrow> string" where
  "ref_ssa_name r = (if vr_version r > 0 then vr_name r @ ''_'' @ str_nat (vr_version r) else vr_name r)"

definition site_of :: "ssa_node \<Rightarrow> definition_site option" where
  "site_of n = map_option (\<lambda>t. (va_base t, va_version t, sn_line n)) (sn_target n)"

definition all_definitions :: "ssa_function \<Rightarrow> definition_site set" where
  "all_definitions s = set (List.map_filter site_of (sf_nodes s))"

text \<open>The definitions of a node: those of the statements whose identifier starts with the node's.\<close>

definition node_definitions :: "ssa_function \<Rightarrow> string \<Rightarrow> definition_site list" where
  "node_definitions s nid = List.map_filter site_of (filter (\<lambda>n. startswith (sn_id n) nid) (sf_nodes s))"

definition gen_set :: "ssa_function \<Rightarrow> string \<Rightarrow> definition_site set" where
  "gen_set s nid = set (node_definitions s nid)"

definition kill_set :: "ssa_function \<Rightarrow> string \<Rightarrow> definition_site set" where
  "kill_set s nid =
     {d \<in> all_definitions s. \<exists>e\<in>set (node_definitions s nid). fst d = fst e \<and> d \<noteq> e}"

type_synonym site_sets = "(string, definition_site set) dict"

definition reaching_step ::
  "flow_graph \<Rightarrow> ssa_function \<Rightarrow> string \<Rightarrow> site_sets \<times> site_sets \<Rightarrow> string + (site_sets \<times> site_sets) \<times> bool" where
  "reaching_step g s nid st =
     (case st of (ins, outs) \<Rightarrow>
        rbind (if flow_preds g nid = [] then Inr {}
               else rbind (lookup_all outs (flow_preds g nid)) (\<lambda>vs. Inr (\<Union> (set vs))))
          (\<lambda>new_in. let new_out = gen_set s nid \<union> (new_in - kill_set s nid) in
             if new_in \<noteq> dget_default ins nid {} \<or> new_out \<noteq> dget_default outs nid {}
             then Inr ((dset ins nid new_in, dset outs nid new_out), True)
             else Inr ((ins, outs), False)))"

definition initial_reaching :: "flow_graph \<Rightarrow> ssa_function \<Rightarrow> site_sets \<times> site_sets" where
  "initial_reaching g s =
     (map (\<lambda>k. (k, {})) (dkeys (fg_nodes g)), map (\<lambda>k. (k, gen_set s k)) (dkeys (fg_nodes g)))"

definition analyze_reaching :: "flow_graph \<Rightarrow> ssa_function \<Rightarrow> (string + site_sets \<times> site_sets) option" where
  "analyze_reaching g s =
     sweep_until_stable (reaching_step g s) (dkeys (fg_nodes g)) (initial_reaching g s)"

definition get_reaching ::
  "(definition_site set \<Rightarrow> definition_site list) \<Rightarrow> site_sets \<Rightarrow> string \<Rightarrow> variable_ref list" where
  "get_reaching enum ins nid =
     map (\<lambda>(name, ver, line). \<lparr> vr_name = name, vr_version = ver, vr_line = line \<rparr>) (enum (dget_default ins nid {}))"

section \<open>What the sweep computes\<close>

text \<open>A definition reaches a node: it is made at a predecessor, or reaches one that does not kill it.\<close>

inductive reaches :: "flow_graph \<Rightarrow> ssa_function \<Rightarrow> definition_site \<Rightarrow> string \<Rightarrow> bool"
  for g s d where
  reaches_gen: "(p, n) \<in> flow g \<Longrightarrow> d \<in> gen_set s p \<Longrightarrow> reaches g s d n"
| reaches_pass: "(p, n) \<in> flow g \<Longrightarrow> reaches g s d p \<Longrightarrow> d \<notin> kill_set s p \<Longrightarrow> reaches g s d n"

definition site_set :: "site_sets \<Rightarrow> string \<Rightarrow> definition_site set" where
  "site_set sets k = dget_default sets k {}"

lemma site_set_dset [simp]: "site_set (dset sets k v) j = (if j = k then v else site_set sets j)"
  by (simp add: site_set_def)

lemma found_site_set: "k \<in> set (dkeys sets) \<Longrightarrow> dget sets k = Some (site_set sets k)"
proof -
  assume "k \<in> set (dkeys sets)"
  then have "dget sets k \<noteq> None" using dget_None_iff [of sets k] by blast
  then show ?thesis by (auto simp: site_set_def dget_default_def)
qed

lemma lookup_all_sites:
  "set ks \<subseteq> set (dkeys sets) \<Longrightarrow> lookup_all sets ks = Inr (map (site_set sets) ks)"
proof (induction ks)
  case (Cons k ks)
  then have "dget sets k = Some (site_set sets k)" by (intro found_site_set) simp
  with Cons show ?case by simp
qed simp

definition in_of :: "flow_graph \<Rightarrow> site_sets \<Rightarrow> string \<Rightarrow> definition_site set" where
  "in_of g outs k = (\<Union>p\<in>set (flow_preds g k). site_set outs p)"

definition out_of :: "flow_graph \<Rightarrow> ssa_function \<Rightarrow> site_sets \<Rightarrow> string \<Rightarrow> definition_site set" where
  "out_of g s outs k = gen_set s k \<union> (in_of g outs k - kill_set s k)"

lemma reaching_step_returns:
  assumes "set (flow_preds g k) \<subseteq> set (dkeys outs)"
  shows "reaching_step g s k (ins, outs) =
    Inr (if in_of g outs k \<noteq> site_set ins k \<or> out_of g s outs k \<noteq> site_set outs k
         then ((dset ins k (in_of g outs k), dset outs k (out_of g s outs k)), True)
         else ((ins, outs), False))"
  using lookup_all_sites [OF assms]
  by (simp add: reaching_step_def in_of_def out_of_def site_set_def [symmetric] Let_def)

text \<open>
  While the sweeps run the sets only hold definitions that do reach, and each is at most what its
  predecessors now justify.
\<close>

definition reaching_inv :: "flow_graph \<Rightarrow> ssa_function \<Rightarrow> site_sets \<times> site_sets \<Rightarrow> bool" where
  [inv_simps]: "reaching_inv g s st \<longleftrightarrow>
     flow_closed g \<and> set (dkeys (snd st)) = flow_ids g \<and>
     (\<forall>k. site_set (fst st) k \<subseteq> in_of g (snd st) k) \<and>
     (\<forall>k\<in>flow_ids g. site_set (snd st) k \<subseteq> out_of g s (snd st) k) \<and>
     (\<forall>k\<in>flow_ids g. gen_set s k \<subseteq> site_set (snd st) k) \<and>
     (\<forall>k\<in>flow_ids g. \<forall>d\<in>site_set (snd st) k. d \<in> gen_set s k \<or> reaches g s d k \<and> d \<notin> kill_set s k)"

lemma reaching_invD:
  assumes "reaching_inv g s (ins, outs)"
  shows "flow_closed g" and "set (dkeys outs) = flow_ids g"
    and "site_set ins k \<subseteq> in_of g outs k"
    and "k \<in> flow_ids g \<Longrightarrow> site_set outs k \<subseteq> out_of g s outs k"
    and "k \<in> flow_ids g \<Longrightarrow> gen_set s k \<subseteq> site_set outs k"
    and "k \<in> flow_ids g \<Longrightarrow> d \<in> site_set outs k \<Longrightarrow> d \<in> gen_set s k \<or> reaches g s d k \<and> d \<notin> kill_set s k"
  using assms unfolding reaching_inv_def fst_conv snd_conv by (elim conjE, simp)+

lemma reaching_invI:
  assumes "flow_closed g" "set (dkeys outs) = flow_ids g"
    "\<And>k. site_set ins k \<subseteq> in_of g outs k"
    "\<And>k. k \<in> flow_ids g \<Longrightarrow> site_set outs k \<subseteq> out_of g s outs k"
    "\<And>k. k \<in> flow_ids g \<Longrightarrow> gen_set s k \<subseteq> site_set outs k"
    "\<And>k d. k \<in> flow_ids g \<Longrightarrow> d \<in> site_set outs k \<Longrightarrow> d \<in> gen_set s k \<or> reaches g s d k \<and> d \<notin> kill_set s k"
  shows "reaching_inv g s (ins, outs)"
  unfolding reaching_inv_def fst_conv snd_conv by (intro conjI allI ballI; (rule assms; assumption))

lemma in_of_mono: "(\<And>p. site_set outs p \<subseteq> site_set outs' p) \<Longrightarrow> in_of g outs k \<subseteq> in_of g outs' k"
  unfolding in_of_def by auto

lemma out_of_mono: "(\<And>p. site_set outs p \<subseteq> site_set outs' p) \<Longrightarrow> out_of g s outs k \<subseteq> out_of g s outs' k"
  using in_of_mono [of outs outs' g k] unfolding out_of_def by blast

lemma in_of_reaches:
  assumes "reaching_inv g s (ins, outs)" "d \<in> in_of g outs k"
  shows "reaches g s d k"
proof -
  obtain p where p: "(p, k) \<in> flow g" "d \<in> site_set outs p"
    using assms(2) by (auto simp: in_of_def flow_preds_flow)
  then have "p \<in> flow_ids g" using reaching_invD(1) [OF assms(1)] by (auto simp: flow_closed_def)
  then show ?thesis using reaching_invD(6) [OF assms(1) _ p(2)] p(1) reaches_gen reaches_pass by blast
qed

lemma reaching_inv_step:
  assumes inv: "reaching_inv g s (ins, outs)" and k: "k \<in> flow_ids g"
    and new: "ins' = dset ins k (in_of g outs k)" "outs' = dset outs k (out_of g s outs k)"
  shows "reaching_inv g s (ins', outs')"
proof (rule reaching_invI)
  note i = reaching_invD [OF inv]
  have more: "site_set outs p \<subseteq> site_set outs' p" for p
    using i(4) [OF k] by (simp add: new(2))
  show "flow_closed g" by (rule i(1))
  show "set (dkeys outs') = flow_ids g" unfolding new(2) set_dkeys_dset i(2) using k by (rule insert_absorb)
  show "site_set ins' j \<subseteq> in_of g outs' j" for j
    using in_of_mono [OF more, of g j] i(3) [of j] by (cases "j = k") (auto simp: new(1))
  show "site_set outs' j \<subseteq> out_of g s outs' j" if "j \<in> flow_ids g" for j
    using out_of_mono [OF more, of g s j] i(4) [OF that] by (cases "j = k") (auto simp: new(2))
  show "gen_set s j \<subseteq> site_set outs' j" if "j \<in> flow_ids g" for j
    using i(5) [OF that] more [of j] by (rule subset_trans)
  show "d \<in> gen_set s j \<or> reaches g s d j \<and> d \<notin> kill_set s j" if "j \<in> flow_ids g" "d \<in> site_set outs' j" for j d
  proof (cases "j = k")
    case True
    then have "d \<in> out_of g s outs k" using that(2) by (simp add: new(2))
    then show ?thesis using in_of_reaches [OF inv, of d k] True by (auto simp: out_of_def)
  next
    case False
    then show ?thesis using i(6) [OF that(1)] that(2) by (simp add: new(2))
  qed
qed

definition sites :: "flow_graph \<Rightarrow> ssa_function \<Rightarrow> definition_site set" where
  "sites g s = (\<Union>k\<in>flow_ids g. gen_set s k)"

lemma reaches_sites: "reaches g s d k \<Longrightarrow> flow_closed g \<Longrightarrow> d \<in> sites g s"
proof (induction rule: reaches.induct)
  case (reaches_gen p n)
  then show ?case by (auto simp: sites_def flow_closed_def)
qed blast

lemma finite_sites: "finite (sites g s)"
  by (simp add: sites_def gen_set_def flow_ids_def)

definition reaching_todo :: "flow_graph \<Rightarrow> ssa_function \<Rightarrow> site_sets \<times> site_sets \<Rightarrow> nat" where
  "reaching_todo g s st =
     (\<Sum>k\<in>flow_ids g. card (sites g s - site_set (fst st) k) + card (sites g s - site_set (snd st) k))"

lemma finite_flow_ids: "finite (flow_ids g)"
  by (simp add: flow_ids_def)

lemma reaching_todo_step:
  assumes inv: "reaching_inv g s (ins, outs)" and k: "k \<in> flow_ids g"
    and change: "in_of g outs k \<noteq> site_set ins k \<or> out_of g s outs k \<noteq> site_set outs k"
  shows "reaching_todo g s (dset ins k (in_of g outs k), dset outs k (out_of g s outs k)) < reaching_todo g s (ins, outs)"
proof -
  note i = reaching_invD [OF inv]
  have sub: "site_set ins k \<subseteq> in_of g outs k" "site_set outs k \<subseteq> out_of g s outs k"
    using i(3) i(4) [OF k] by simp_all
  have within: "in_of g outs k \<subseteq> sites g s" "out_of g s outs k \<subseteq> sites g s"
    using in_of_reaches [OF inv, of _ k] reaches_sites [OF _ i(1)] k unfolding out_of_def sites_def by blast+
  have le: "card (S - B) \<le> card (S - A)" if "A \<subseteq> B" "finite S" for A B S :: "definition_site set"
    using that by (intro card_mono) auto
  have less: "card (S - B) < card (S - A)" if "A \<subseteq> B" "A \<noteq> B" "B \<subseteq> S" "finite S" for A B S :: "definition_site set"
    using that by (intro psubset_card_mono) auto
  have ins: "card (sites g s - in_of g outs k) \<le> card (sites g s - site_set ins k)"
    and outs: "card (sites g s - out_of g s outs k) \<le> card (sites g s - site_set outs k)"
    using le [OF sub(1) finite_sites] le [OF sub(2) finite_sites] by blast+
  have "card (sites g s - in_of g outs k) + card (sites g s - out_of g s outs k)
      < card (sites g s - site_set ins k) + card (sites g s - site_set outs k)"
    using change
  proof
    assume "in_of g outs k \<noteq> site_set ins k"
    then show ?thesis using less [OF sub(1) _ within(1) finite_sites] outs by auto
  next
    assume "out_of g s outs k \<noteq> site_set outs k"
    then show ?thesis using less [OF sub(2) _ within(2) finite_sites] ins by auto
  qed
  then show ?thesis
    unfolding reaching_todo_def fst_conv snd_conv using finite_flow_ids [of g] k
    by (intro sum_strict_mono_ex1) (auto intro!: bexI [of _ k] less_imp_le)
qed

interpretation reaching_sweep: sweeping "reaching_step g s" "flow_ids g" "reaching_inv g s" "reaching_todo g s"
  for g s
proof
  fix k st
  assume k: "k \<in> flow_ids g" and inv: "reaching_inv g s st"
  obtain ins outs where st: "st = (ins, outs)" by (cases st)
  note inv' = inv [unfolded st]
  have "set (flow_preds g k) \<subseteq> set (dkeys outs)"
    unfolding reaching_invD(2) [OF inv'] using reaching_invD(1) [OF inv'] by (rule preds_in_ids)
  note step = reaching_step_returns [OF this, of s ins, folded st]
  show "\<exists>r. reaching_step g s k st = Inr r" using step by blast
  show "reaching_inv g s t" if "reaching_step g s k st = Inr (t, c)" for t c
    using that step inv reaching_inv_step [OF inv' k refl refl] by (auto split: if_splits)
  show "t = st" if "reaching_step g s k st = Inr (t, False)" for t
    using that step by (auto split: if_splits)
  show "reaching_todo g s t < reaching_todo g s st" if "reaching_step g s k st = Inr (t, True)" for t
    using that step reaching_todo_step [OF inv' k] by (auto simp: st split: if_splits)
qed

lemma keyed_dget: "dget (map (\<lambda>k. (k, f k)) ks) k = (if k \<in> set ks then Some (f k) else None)"
  by (induction ks) auto

lemma initial_reaching_inv: "flow_closed g \<Longrightarrow> reaching_inv g s (initial_reaching g s)"
  unfolding initial_reaching_def
proof (rule reaching_invI, assumption)
  let ?ks = "dkeys (fg_nodes g)"
  have outs: "site_set (map (\<lambda>k. (k, gen_set s k)) ?ks) k = (if k \<in> flow_ids g then gen_set s k else {})" for k
    by (simp only: site_set_def dget_default_def keyed_dget flow_ids_def) simp
  have ins: "site_set (map (\<lambda>k. (k, {})) ?ks) k = {}" for k
    by (simp only: site_set_def dget_default_def keyed_dget) simp
  show "set (dkeys (map (\<lambda>k. (k, gen_set s k)) ?ks)) = flow_ids g" by (simp add: flow_ids_def image_image)
  show "site_set (map (\<lambda>k. (k, {})) ?ks) k \<subseteq> in_of g (map (\<lambda>k. (k, gen_set s k)) ?ks) k" for k
    unfolding ins by simp
  show "site_set (map (\<lambda>k. (k, gen_set s k)) ?ks) k \<subseteq> out_of g s (map (\<lambda>k. (k, gen_set s k)) ?ks) k"
    if "k \<in> flow_ids g" for k
    using that outs [of k] unfolding out_of_def by auto
  show "gen_set s k \<subseteq> site_set (map (\<lambda>k. (k, gen_set s k)) ?ks) k" if "k \<in> flow_ids g" for k
    unfolding outs using that by simp
  show "d \<in> gen_set s k \<or> reaches g s d k \<and> d \<notin> kill_set s k"
    if "k \<in> flow_ids g" "d \<in> site_set (map (\<lambda>k. (k, gen_set s k)) ?ks) k" for k d
    using that(2) unfolding outs by (simp add: that(1))
qed

lemma reaching_computed:
  assumes "flow_closed g"
  shows "\<exists>ins outs. analyze_reaching g s = Some (Inr (ins, outs)) \<and>
    (\<forall>k\<in>flow_ids g. \<forall>d. d \<in> site_set ins k \<longleftrightarrow> reaches g s d k)"
proof -
  have "set (dkeys (fg_nodes g)) \<subseteq> flow_ids g" by (simp add: flow_ids_def)
  then obtain st where st: "analyze_reaching g s = Some (Inr st)" "reaching_inv g s st"
    "\<forall>k\<in>flow_ids g. reaching_step g s k st = Inr (st, False)"
    using reaching_sweep.stable_result [OF _ initial_reaching_inv [OF assms, of s]]
    unfolding analyze_reaching_def flow_ids_def by blast
  obtain ins outs where io: "st = (ins, outs)" by (cases st)
  note inv = st(2) [unfolded io]
  note i = reaching_invD [OF inv]
  have stable: "site_set ins k = in_of g outs k" "site_set outs k = out_of g s outs k" if "k \<in> flow_ids g" for k
  proof -
    have "set (flow_preds g k) \<subseteq> set (dkeys outs)" unfolding i(2) using i(1) by (rule preds_in_ids)
    from reaching_step_returns [OF this, of s ins] st(3) that
    show "site_set ins k = in_of g outs k" "site_set outs k = out_of g s outs k"
      by (auto simp: io split: if_splits)
  qed
  have "d \<in> in_of g outs k" if "reaches g s d k" for d k
    using that
  proof (induction rule: reaches.induct)
    case (reaches_gen p n)
    then have "p \<in> flow_ids g" using i(1) by (auto simp: flow_closed_def)
    then have "d \<in> site_set outs p" using i(5) reaches_gen by blast
    then show ?case using reaches_gen by (auto simp: in_of_def flow_preds_flow)
  next
    case (reaches_pass p n)
    then have "p \<in> flow_ids g" using i(1) by (auto simp: flow_closed_def)
    then have "d \<in> site_set outs p" using stable(2) reaches_pass by (simp add: out_of_def)
    then show ?case using reaches_pass by (auto simp: in_of_def flow_preds_flow)
  qed
  then have "d \<in> site_set ins k \<longleftrightarrow> reaches g s d k" if "k \<in> flow_ids g" for d k
    using in_of_reaches [OF inv, of d k] stable(1) [OF that] by blast
  then show ?thesis using st(1) io by blast
qed

text \<open>The same over paths: a definition reaches a node along a path that starts where it is made.\<close>

definition reaching_path :: "flow_graph \<Rightarrow> ssa_function \<Rightarrow> definition_site \<Rightarrow> string list \<Rightarrow> bool" where
  "reaching_path g s d xs \<longleftrightarrow> flow_path g xs \<and> 2 \<le> length xs \<and> d \<in> gen_set s (hd xs) \<and>
     list_all (\<lambda>k. d \<notin> kill_set s k) (tl (butlast xs))"

lemma reaches_path: "reaches g s d k \<Longrightarrow> \<exists>xs. reaching_path g s d xs \<and> last xs = k"
proof (induction rule: reaches.induct)
  case (reaches_gen p n)
  then show ?case by (intro exI [of _ "[p, n]"]) (simp add: reaching_path_def flow_path_def)
next
  case (reaches_pass p n)
  then obtain xs where xs: "reaching_path g s d xs" "last xs = p" by blast
  then have ne: "xs \<noteq> []" "butlast xs \<noteq> []" by (cases xs; auto simp: reaching_path_def)+
  have "tl xs = tl (butlast xs) @ [p]" using xs(2) ne
    by (metis append_butlast_last_id tl_append2)
  then have "reaching_path g s d (xs @ [n])"
    using xs ne reaches_pass.hyps by (simp add: reaching_path_def flow_path_snoc)
  then show ?case by (intro exI [of _ "xs @ [n]"]) simp
qed

lemma path_reaches: "reaching_path g s d xs \<Longrightarrow> reaches g s d (last xs)"
proof (induction xs rule: rev_induct)
  case Nil
  then show ?case by (simp add: reaching_path_def)
next
  case (snoc n xs)
  then have ne: "xs \<noteq> []" by (auto simp: reaching_path_def)
  then have xs: "flow_path g xs" "(last xs, n) \<in> flow g" "d \<in> gen_set s (hd xs)"
    "list_all (\<lambda>k. d \<notin> kill_set s k) (tl xs)"
    using snoc.prems by (auto simp: reaching_path_def flow_path_snoc)
  note xs = xs ne
  show ?case
  proof (cases "2 \<le> length xs")
    case True
    then have ne': "butlast xs \<noteq> []" by (cases xs) auto
    have "tl xs = tl (butlast xs) @ [last xs]" using ne' ne by (metis append_butlast_last_id tl_append2)
    then have "reaching_path g s d xs" "d \<notin> kill_set s (last xs)"
      using xs True by (simp_all add: reaching_path_def)
    then show ?thesis using snoc.IH xs(2) by (simp add: reaches_pass [of "last xs"])
  next
    case False
    then have "length xs = 1" using ne by (cases xs; cases "tl xs") auto
    then have "hd xs = last xs" by (cases xs) auto
    then show ?thesis using xs(2,3) by (simp add: reaches_gen [of "last xs"])
  qed
qed

lemma reaches_iff_path: "reaches g s d k \<longleftrightarrow> (\<exists>xs. reaching_path g s d xs \<and> last xs = k)"
  using reaches_path path_reaches by blast

section \<open>Properties\<close>

text \<open>
  C20: On every graph the validator accepts the reaching definitions
  analysis ends, and the set it stores at a node holds exactly the definitions that reach the
  node along a path of the graph: a path that starts where the definition is made and passes
  no node that kills it.
\<close>

theorem reaching_definitions_exact:
  assumes "validate_flow g = Inr True"
  shows "\<exists>ins outs. analyze_reaching g s = Some (Inr (ins, outs)) \<and>
    (\<forall>k\<in>flow_ids g. \<forall>d. d \<in> site_set ins k \<longleftrightarrow> (\<exists>xs. reaching_path g s d xs \<and> last xs = k))"
proof -
  have "flow_closed g" using assms by (simp add: validate_flow_iff flow_valid_def)
  then show ?thesis using reaching_computed [of g s] by (simp add: reaches_iff_path)
qed

text \<open>One definition made at the condition of the example function.\<close>

definition demo_sites :: ssa_function where
  "demo_sites = \<lparr> sf_function_name = ''f'', sf_file_path = ''a.php'',
     sf_nodes = [\<lparr> sn_id = ''f::return::5'', sn_line = 5, sn_target = Some \<lparr> va_base = ''$x'', va_version = 1 \<rparr>,
                   sn_phi = None, sn_uses = [], sn_label = ''$x_1 = 1'' \<rparr>],
     sf_phi_nodes = [] \<rparr>"

theorem reaching_definitions_exact_witness:
  "\<exists>ins outs. analyze_reaching (build_flow demo_function) demo_sites = Some (Inr (ins, outs)) \<and>
     (''$x'', 1, 5) \<in> site_set ins ''f::EXIT''"
proof -
  have v: "validate_flow (build_flow demo_function) = Inr True"
    using build_flow_finished [of demo_function] by (simp add: validate_flow_iff)
  have "(''f::return::5'', ''f::EXIT'') \<in> flow (build_flow demo_function)"
    by (simp add: flow_succs_flow [symmetric]) code_simp
  moreover have "''f::EXIT'' \<in> flow_ids (build_flow demo_function)" by (simp add: flow_ids_def) code_simp
  moreover have "(''$x'', 1, 5) \<in> gen_set demo_sites ''f::return::5''"
    by (simp add: gen_set_def node_definitions_def demo_sites_def List.map_filter_simps site_of_def startswith_def)
  ultimately have "reaching_path (build_flow demo_function) demo_sites (''$x'', 1, 5) [''f::return::5'', ''f::EXIT'']"
    by (simp add: reaching_path_def flow_path_def)
  then show ?thesis using reaching_definitions_exact [OF v, of demo_sites] \<open>''f::EXIT'' \<in> _\<close> by fastforce
qed

end
