(* ===== verification/IrBuild.thy ===== *)
theory IrBuild
  imports FlowGraph RemediationModels
begin

text \<open>
  From parsed files to the intermediate representation: the syntax tree nodes of
  \<^verbatim>\<open>parser/ast_nodes.py\<close> and the translation of \<^verbatim>\<open>ir/builder.py\<close>. A file is its table of nodes;
  parents and children are identifiers into it, so the walk up the parents ends only when the
  table has no cycle.
\<close>

section \<open>Syntax trees\<close>

text \<open>The classes of nodes, with the fields of their own that the translation reads.\<close>

datatype ast_class =
    PlainNode
  | FileClass
  | FunctionClass string "string list"
  | ClassClass string
  | ImportClass
  | CallClass string "string list"
  | AssignmentClass string string

record ast_node =
  an_node_id :: string
  an_parent_id :: "string option"
  an_node_type :: string
  an_language :: string
  an_byte_start :: int
  an_byte_end :: int
  an_line :: int
  an_children :: "string list"
  an_class :: ast_class

record file_node =
  fl_file_path :: "string option"
  fl_language :: string
  fl_nodes_map :: "(string, ast_node) dict"

text \<open>
  \<open>decode("utf-8", errors="ignore")\<close>: the bytes that belong to no well-formed sequence are
  dropped one by one.
\<close>

function decode_ignore :: "string \<Rightarrow> string" where
  "decode_ignore [] = []"
| "decode_ignore (c # s) =
     (case utf8_lead (of_char c) of
        Some rs \<Rightarrow>
          if length rs \<le> length s \<and> utf8_run rs (take (length rs) s)
          then c # take (length rs) s @ decode_ignore (drop (length rs) s)
          else decode_ignore s
      | None \<Rightarrow> decode_ignore s)"
  by pat_completeness auto

termination by (relation "measure length") auto

definition get_text :: "ast_node \<Rightarrow> string \<Rightarrow> string" where
  "get_text n src =
     (if 0 \<le> an_byte_start n \<and> an_byte_start n \<le> an_byte_end n \<and> an_byte_end n \<le> int (length src)
      then decode_ignore (drop (nat (an_byte_start n)) (take (nat (an_byte_end n)) src))
      else [])"

section \<open>Statements\<close>

definition function_types :: "string list" where
  "function_types = [''function_definition'', ''function_declaration'', ''def'', ''func_decl'']"

definition is_function_node :: "ast_node \<Rightarrow> bool" where
  "is_function_node n =
     ((case an_class n of FunctionClass _ _ \<Rightarrow> True | _ \<Rightarrow> False) \<or> an_node_type n \<in> set function_types)"

text \<open>\<open>getattr(node, name, default)\<close> for the attributes some class has.\<close>

fun attr_name :: "ast_class \<Rightarrow> string" where
  "attr_name (FunctionClass name _) = name"
| "attr_name (ClassClass name) = name"
| "attr_name _ = []"

fun attr_parameters :: "ast_class \<Rightarrow> string list" where
  "attr_parameters (FunctionClass _ ps) = ps"
| "attr_parameters _ = []"

fun attr_assignment :: "ast_class \<Rightarrow> string \<times> string" where
  "attr_assignment (AssignmentClass t v) = (t, v)"
| "attr_assignment _ = ([], [])"

fun attr_call :: "ast_class \<Rightarrow> string \<times> string list" where
  "attr_call (CallClass f args) = (f, args)"
| "attr_call _ = ([], [])"

definition file_path_str :: "file_node \<Rightarrow> string" where
  "file_path_str fl = (case fl_file_path fl of Some p \<Rightarrow> p | None \<Rightarrow> ''unknown'')"

definition str_or :: "string \<Rightarrow> string \<Rightarrow> string" where
  "str_or s d = (if s = [] then d else s)"

definition statement_head :: "file_node \<Rightarrow> ast_node \<Rightarrow> string \<Rightarrow> ir_head" where
  "statement_head fl n kind =
     \<lparr> ir_id = file_path_str fl @ ''::'' @ kind @ ''::'' @ str_int (an_line n), ir_line = an_line n,
       ir_file_path = file_path_str fl, ir_language = str_or (an_language n) (fl_language fl) \<rparr>"

definition is_assignment_node :: "ast_node \<Rightarrow> bool" where
  "is_assignment_node n =
     ((case an_class n of AssignmentClass _ _ \<Rightarrow> True | _ \<Rightarrow> False) \<or>
      an_node_type n \<in> {''assignment'', ''assignment_expression'', ''augmented_assignment_expression''})"

definition is_call_node :: "ast_node \<Rightarrow> bool" where
  "is_call_node n =
     ((case an_class n of CallClass _ _ \<Rightarrow> True | _ \<Rightarrow> False) \<or> an_node_type n \<in> {''call'', ''call_expression''})"

definition augmented_ops :: "string list" where
  "augmented_ops = [''.='', ''+='', ''-='', ''*='', ''/='', ''&='', ''|='', ''^='']"

text \<open>Target, operator and value of an assignment, from its fields or its children's texts.\<close>

definition assignment_parts :: "file_node \<Rightarrow> ast_node \<Rightarrow> string \<Rightarrow> string \<times> string \<times> string" where
  "assignment_parts fl n src =
     (let (target, val) = attr_assignment (an_class n);
          kids = List.map_filter (dget (fl_nodes_map fl)) (an_children n);
          (target, oper, val) =
            (if target = [] \<or> val = []
             then (case kids of
                     a # b # c # _ \<Rightarrow> (get_text a src, get_text b src, get_text c src)
                   | [a, b] \<Rightarrow> (get_text a src, ''='', get_text b src)
                   | _ \<Rightarrow> (target, ''='', val))
             else (target, ''='', val));
          oper = (if an_node_type n = ''augmented_assignment_expression'' \<and> oper = ''=''
                  then (case find (\<lambda>p. contains p (get_text n src)) augmented_ops of Some p \<Rightarrow> p | None \<Rightarrow> oper)
                  else oper)
      in (target, oper, val))"

definition convert_statement :: "file_node \<Rightarrow> string \<Rightarrow> ast_node \<Rightarrow> ir_statement option" where
  "convert_statement fl src n =
     (let ty = py_lower (an_node_type n) in
      if is_assignment_node n
      then (case assignment_parts fl n src of (target, oper, val) \<Rightarrow>
              Some (IRAssignment (statement_head fl n ''assign'') target val oper))
      else if is_call_node n
      then (case attr_call (an_class n) of (callee, args) \<Rightarrow>
              Some (IRCall (statement_head fl n ''call'') callee args))
      else if contains ''if'' ty then Some (IRIf (statement_head fl n ''if'') [] [] [])
      else if list_ex (\<lambda>k. contains k ty) [''loop'', ''for'', ''while'']
      then Some (IRLoop (statement_head fl n ''loop'')
                   (if contains ''while'' ty then ''WHILE'' else ''FOR'') [] [])
      else None)"

section \<open>Functions\<close>

definition children_of :: "file_node \<Rightarrow> ast_node \<Rightarrow> ast_node list" where
  "children_of fl n = filter (\<lambda>c. an_parent_id c = Some (an_node_id n)) (map snd (fl_nodes_map fl))"

definition convert_function :: "file_node \<Rightarrow> string \<Rightarrow> ast_node \<Rightarrow> ir_function" where
  "convert_function fl src n =
     (let name = str_or (attr_name (an_class n)) ''anonymous'' in
      \<lparr> irf_head = statement_head fl n name, irf_name = name,
        irf_parameters = attr_parameters (an_class n),
        irf_body = List.map_filter (convert_statement fl src) (children_of fl n) \<rparr>)"

text \<open>The walk up the parents, \<open>None\<close> when it does not end.\<close>

partial_function (option) is_inside_function :: "(string, ast_node) dict \<Rightarrow> string \<Rightarrow> bool option" where
  "is_inside_function m k =
     (if k = [] then Some False
      else case dget m k of
        None \<Rightarrow> Some False
      | Some n \<Rightarrow>
          if is_function_node n then Some True
          else case an_parent_id n of None \<Rightarrow> Some False | Some p \<Rightarrow> is_inside_function m p)"

declare is_inside_function.simps [code]

definition at_top_level :: "file_node \<Rightarrow> ast_node \<Rightarrow> bool" where
  "at_top_level fl n =
     (case an_parent_id n of
        None \<Rightarrow> True
      | Some p \<Rightarrow>
          (case dget (fl_nodes_map fl) p of
             None \<Rightarrow> True
           | Some q \<Rightarrow> an_node_type q \<in> {''program'', ''file'', ''text_interpolation''}))"

fun top_level_statements :: "file_node \<Rightarrow> string \<Rightarrow> ast_node list \<Rightarrow> ir_statement list option" where
  "top_level_statements fl src [] = Some []"
| "top_level_statements fl src (n # ns) =
     (case is_inside_function (fl_nodes_map fl) (an_node_id n) of
        None \<Rightarrow> None
      | Some inside \<Rightarrow>
          map_option (\<lambda>rest. (if inside \<or> \<not> at_top_level fl n then []
                             else case convert_statement fl src n of None \<Rightarrow> [] | Some s \<Rightarrow> [s]) @ rest)
            (top_level_statements fl src ns))"

definition main_function :: "file_node \<Rightarrow> ir_statement list \<Rightarrow> ir_function" where
  "main_function fl stmts =
     \<lparr> irf_head = \<lparr> ir_id = file_path_str fl @ ''::__main__::1'', ir_line = 1,
                    ir_file_path = file_path_str fl, ir_language = fl_language fl \<rparr>,
       irf_name = ''__main__'', irf_parameters = [], irf_body = stmts \<rparr>"

definition convert_file_node :: "file_node \<Rightarrow> string \<Rightarrow> ir_function list option" where
  "convert_file_node fl src =
     (let nodes = map snd (fl_nodes_map fl) in
      map_option (\<lambda>stmts. map (convert_function fl src) (filter is_function_node nodes) @
                         (if stmts = [] then [] else [main_function fl stmts]))
        (top_level_statements fl src (sort_key (\<lambda>n. (an_line n, an_byte_start n)) nodes)))"

definition source_of :: "(string, string) dict \<Rightarrow> file_node \<Rightarrow> string" where
  "source_of srcs fl = dget_default srcs (case fl_file_path fl of Some p \<Rightarrow> p | None \<Rightarrow> ''None'') []"

fun build_from_file_nodes :: "(string, string) dict \<Rightarrow> file_node list \<Rightarrow> ir_function list option" where
  "build_from_file_nodes srcs [] = Some []"
| "build_from_file_nodes srcs (fl # fls) =
     (case convert_file_node fl (source_of srcs fl) of
        None \<Rightarrow> None
      | Some fs \<Rightarrow> map_option (\<lambda>rest. fs @ rest) (build_from_file_nodes srcs fls))"

text \<open>The two constructors for single statements.\<close>

definition build_call :: "string \<Rightarrow> string \<Rightarrow> int \<Rightarrow> ir_statement" where
  "build_call k callee line =
     IRCall \<lparr> ir_id = k, ir_line = line, ir_file_path = [], ir_language = [] \<rparr> callee []"

definition build_assign :: "string \<Rightarrow> string \<Rightarrow> string \<Rightarrow> int \<Rightarrow> ir_statement" where
  "build_assign k target val line =
     IRAssignment \<lparr> ir_id = k, ir_line = line, ir_file_path = [], ir_language = [] \<rparr> target val ''=''"

section \<open>The walk ends\<close>

definition parent_links :: "(string, ast_node) dict \<Rightarrow> (string \<times> string) set" where
  "parent_links m = {(p, k). \<exists>n. dget m k = Some n \<and> an_parent_id n = Some p}"

lemma finite_parent_links: "finite (parent_links m)"
proof -
  have "parent_links m \<subseteq> (\<lambda>(k, n). (the (an_parent_id n), k)) ` set m"
    by (force simp: parent_links_def dest: map_of_SomeD)
  then show ?thesis by (rule finite_subset) simp
qed

lemma inside_function_returns:
  assumes "acyclic (parent_links m)"
  shows "\<exists>b. is_inside_function m k = Some b"
proof -
  have "wf (parent_links m)" using finite_parent_links assms by (rule finite_acyclic_wf)
  then show ?thesis
  proof (induction k rule: wf_induct_rule)
    case (less k)
    show ?case
    proof (cases "\<exists>n p. k \<noteq> [] \<and> dget m k = Some n \<and> \<not> is_function_node n \<and> an_parent_id n = Some p")
      case True
      then obtain n p where n: "k \<noteq> []" "dget m k = Some n" "\<not> is_function_node n" "an_parent_id n = Some p" by blast
      then have "(p, k) \<in> parent_links m" by (auto simp: parent_links_def)
      with less obtain b where "is_inside_function m p = Some b" by blast
      with n show ?thesis by (subst is_inside_function.simps) simp
    next
      case False
      then show ?thesis by (subst is_inside_function.simps) (auto split: option.splits)
    qed
  qed
qed

lemma top_level_returns:
  "acyclic (parent_links (fl_nodes_map fl)) \<Longrightarrow> \<exists>ss. top_level_statements fl src ns = Some ss"
proof (induction ns)
  case (Cons n ns)
  then show ?case using inside_function_returns [of "fl_nodes_map fl" "an_node_id n"] by auto
qed simp

section \<open>Shape of the statements\<close>

definition flat_id :: "string \<Rightarrow> string \<Rightarrow> bool" where
  "flat_id path k \<longleftrightarrow> (\<exists>kind l. CHR '':'' \<notin> set kind \<and> k = path @ ''::'' @ kind @ ''::'' @ str_int l)"

lemma statement_head_flat:
  "CHR '':'' \<notin> set kind \<Longrightarrow> flat_id (file_path_str fl) (ir_id (statement_head fl n kind))"
  unfolding flat_id_def by (intro exI [of _ kind] exI [of _ "an_line n"]) (simp add: statement_head_def)

definition flat_statement :: "string \<Rightarrow> ir_statement \<Rightarrow> bool" where
  "flat_statement path s \<longleftrightarrow>
     flat_id path (ir_id (stmt_head s)) \<and>
     (case s of IRIf _ cond thens elses \<Rightarrow> cond = [] \<and> thens = [] \<and> elses = []
      | IRLoop _ _ cond body \<Rightarrow> cond = [] \<and> body = []
      | _ \<Rightarrow> True)"

lemma convert_statement_flat:
  assumes "convert_statement fl src n = Some s"
  shows "flat_statement (file_path_str fl) s"
  using assms
  by (auto simp: convert_statement_def Let_def flat_statement_def statement_head_flat split: if_splits prod.splits)

lemma top_level_flat:
  "top_level_statements fl src ns = Some ss \<Longrightarrow> list_all (flat_statement (file_path_str fl)) ss"
proof (induction ns arbitrary: ss)
  case (Cons n ns)
  then show ?case
    by (auto intro: convert_statement_flat split: option.splits if_splits)
qed simp

text \<open>A function of the result: its identifier, and statements without bodies of their own.\<close>

definition flat_function :: "ir_function \<Rightarrow> bool" where
  "flat_function f \<longleftrightarrow>
     (\<exists>path name l. ir_id (irf_head f) = path @ ''::'' @ name @ ''::'' @ str_int l \<and>
        list_all (flat_statement path) (irf_body f))"

lemma convert_function_flat: "flat_function (convert_function fl src n)"
proof -
  have "list_all (flat_statement (file_path_str fl)) (List.map_filter (convert_statement fl src) ns)" for ns
    by (induction ns) (auto simp: List.map_filter_simps intro: convert_statement_flat split: option.splits)
  then show ?thesis
    unfolding flat_function_def convert_function_def Let_def
    by (intro exI [of _ "file_path_str fl"] exI [of _ "str_or (attr_name (an_class n)) ''anonymous''"] exI [of _ "an_line n"])
      (simp add: statement_head_def)
qed

lemma main_function_flat:
  "list_all (flat_statement (file_path_str fl)) ss \<Longrightarrow> flat_function (main_function fl ss)"
proof -
  have one: "str_int 1 = ''1''" by code_simp
  assume "list_all (flat_statement (file_path_str fl)) ss"
  then show ?thesis
  unfolding flat_function_def main_function_def
  by (intro exI [of _ "file_path_str fl"] exI [of _ "''__main__''"] exI [of _ 1])
    (simp add: one)
qed

lemma convert_file_flat:
  "convert_file_node fl src = Some fs \<Longrightarrow> list_all flat_function fs"
  by (auto simp: convert_file_node_def Let_def list_all_iff convert_function_flat
      intro!: main_function_flat dest!: top_level_flat split: if_splits)

lemma built_functions_flat:
  "build_from_file_nodes srcs fls = Some fs \<Longrightarrow> list_all flat_function fs"
proof (induction fls arbitrary: fs)
  case (Cons fl fls)
  then show ?case using convert_file_flat by (auto split: option.splits)
qed simp

end
