(* ===== verification/DataFlow.thy ===== *)
theory DataFlow
  imports ReachingDefs IrBuild
begin

text \<open>
  The data flow graph of \<^verbatim>\<open>analysis/dataflow/\<close>: the lattice and the propagation of constants,
  def-use and use-def chains, and the graph \<^verbatim>\<open>builder.py\<close> assembles from them. The result of the
  interpreter's own \<^verbatim>\<open>ast.literal_eval\<close> is the parameter \<open>lit\<close>: \<open>None\<close> when it raises,
  \<open>Some None\<close> for the literal None.
\<close>

section \<open>Constants\<close>

record 'v lattice_element =
  le_is_top :: bool
  le_is_bottom :: bool
  le_value :: "'v option"

definition lattice_top :: "'v lattice_element" where
  "lattice_top = \<lparr> le_is_top = True, le_is_bottom = False, le_value = None \<rparr>"

definition lattice_bottom :: "'v lattice_element" where
  "lattice_bottom = \<lparr> le_is_top = False, le_is_bottom = True, le_value = None \<rparr>"

definition lattice_constant :: "'v option \<Rightarrow> 'v lattice_element" where
  "lattice_constant v = \<lparr> le_is_top = False, le_is_bottom = False, le_value = v \<rparr>"

definition is_constant :: "'v lattice_element \<Rightarrow> bool" where
  "is_constant e = (\<not> le_is_top e \<and> \<not> le_is_bottom e \<and> le_value e \<noteq> None)"

definition lattice_meet :: "'v lattice_element \<Rightarrow> 'v lattice_element \<Rightarrow> 'v lattice_element" where
  "lattice_meet a b =
     (if le_is_top a then b
      else if le_is_top b then a
      else if le_is_bottom a \<or> le_is_bottom b then lattice_bottom
      else if le_value a = le_value b then a
      else lattice_bottom)"

type_synonym 'v constant_env = "(string, 'v lattice_element) dict"

text \<open>\<open>label.split("=", 1)[1].strip()\<close>.\<close>

definition right_hand_side :: "string \<Rightarrow> string" where
  "right_hand_side label = py_strip (tl (dropWhile (\<lambda>c. c \<noteq> CHR ''='') label))"

definition constant_step :: "(string \<Rightarrow> 'v option option) \<Rightarrow> ssa_node \<Rightarrow> 'v constant_env \<Rightarrow> 'v constant_env" where
  "constant_step lit n env =
     (case sn_target n of
        None \<Rightarrow> env
      | Some t \<Rightarrow>
          if contains ''='' (sn_label n)
          then (let expr = right_hand_side (sn_label n) in
                case lit expr of
                  Some v \<Rightarrow> dset env (ssa_name t) (lattice_constant v)
                | None \<Rightarrow>
                    (case dget env expr of
                       Some e \<Rightarrow> dset env (ssa_name t) (if is_constant e then e else lattice_bottom)
                     | None \<Rightarrow> dset env (ssa_name t) lattice_bottom))
          else env)"

definition propagate_constants :: "(string \<Rightarrow> 'v option option) \<Rightarrow> ssa_function \<Rightarrow> (string, 'v) dict" where
  "propagate_constants lit s =
     List.map_filter (\<lambda>(k, e). if is_constant e then map_option (Pair k) (le_value e) else None)
       (fold (constant_step lit) (sf_nodes s) [])"

section \<open>Chains\<close>

record def_use_chain =
  du_definition :: variable_ref
  du_uses :: "variable_ref list"

record use_def_chain =
  ud_use :: variable_ref
  ud_definitions :: "variable_ref list"

definition ref_of :: "ssa_node \<Rightarrow> ssa_var \<Rightarrow> variable_ref" where
  "ref_of n v = \<lparr> vr_name = va_base v, vr_version = va_version v, vr_line = sn_line n \<rparr>"

definition record_definition :: "ssa_node \<Rightarrow> (string, variable_ref) dict \<Rightarrow> (string, variable_ref) dict" where
  "record_definition n m = (case sn_target n of None \<Rightarrow> m | Some t \<Rightarrow> dset m (ssa_name t) (ref_of n t))"

definition record_use :: "ssa_node \<Rightarrow> ssa_var \<Rightarrow> (string, variable_ref list) dict \<Rightarrow> (string, variable_ref list) dict" where
  "record_use n u m = dset m (ssa_name u) (dget_default m (ssa_name u) [] @ [ref_of n u])"

definition definition_map :: "ssa_function \<Rightarrow> (string, variable_ref) dict" where
  "definition_map s = fold record_definition (sf_nodes s) []"

definition use_map :: "ssa_function \<Rightarrow> (string, variable_ref list) dict" where
  "use_map s = fold (\<lambda>n. fold (record_use n) (sn_uses n)) (sf_nodes s) []"

definition build_chains :: "ssa_function \<Rightarrow> def_use_chain list \<times> use_def_chain list" where
  "build_chains s =
     (let uses = (\<lambda>name. dget_default (use_map s) name [])
      in (map (\<lambda>(name, r). \<lparr> du_definition = r, du_uses = uses name \<rparr>) (definition_map s),
          concat (map (\<lambda>(name, r). map (\<lambda>u. \<lparr> ud_use = u, ud_definitions = [r] \<rparr>) (uses name)) (definition_map s))))"

section \<open>The graph\<close>

record dataflow_node =
  dn_id :: string
  dn_statement_id :: string
  dn_line :: int
  dn_definitions :: "variable_ref list"
  dn_uses :: "variable_ref list"
  dn_label :: string

text \<open>The type of an edge is always a data dependence.\<close>

record dataflow_edge =
  de_source :: string
  de_target :: string
  de_var_name :: string

record 'v dataflow_graph =
  dg_function_name :: string
  dg_file_path :: string
  dg_nodes :: "(string, dataflow_node) dict"
  dg_edges :: "dataflow_edge list"
  dg_def_use :: "def_use_chain list"
  dg_use_def :: "use_def_chain list"
  dg_constants :: "(string, 'v) dict"

definition statements_at :: "ssa_function \<Rightarrow> string \<Rightarrow> ssa_node list" where
  "statements_at s nid = filter (\<lambda>n. startswith (sn_id n) nid) (sf_nodes s)"

definition dataflow_node_of ::
  "(definition_site set \<Rightarrow> definition_site list) \<Rightarrow> ssa_function \<Rightarrow> site_sets \<Rightarrow> string \<times> flow_node \<Rightarrow> dataflow_node" where
  "dataflow_node_of enum s ins kn =
     (let here = statements_at s (fst kn);
          defs = List.map_filter (\<lambda>n. map_option (ref_of n) (sn_target n)) here;
          uses = concat (map (\<lambda>n. map (ref_of n) (sn_uses n)) here)
      in \<lparr> dn_id = fst kn @ ''::df'', dn_statement_id = fst kn, dn_line = nd_line (snd kn),
           dn_definitions = (if defs = [] then get_reaching enum ins (fst kn) else defs),
           dn_uses = uses, dn_label = nd_label (snd kn) \<rparr>)"

definition dataflow_add_node :: "dataflow_node \<Rightarrow> (string, dataflow_node) dict \<Rightarrow> (string, dataflow_node) dict" where
  "dataflow_add_node n ns = dset ns (dn_id n) n"

definition edges_of_use :: "(string, dataflow_node) dict \<Rightarrow> variable_ref \<Rightarrow> variable_ref \<Rightarrow> dataflow_edge list" where
  "edges_of_use nodes d u =
     (let srcs = map fst (filter (\<lambda>(k, n). list_ex (\<lambda>r. ref_ssa_name r = ref_ssa_name d) (dn_definitions n)) nodes);
          tgts = map fst (filter (\<lambda>(k, n). list_ex (\<lambda>r. ref_ssa_name r = ref_ssa_name u) (dn_uses n)) nodes)
      in concat (map (\<lambda>a. map (\<lambda>b. \<lparr> de_source = a, de_target = b, de_var_name = vr_name d \<rparr>) tgts) srcs))"

definition dataflow_edges :: "(string, dataflow_node) dict \<Rightarrow> def_use_chain list \<Rightarrow> dataflow_edge list" where
  "dataflow_edges nodes ch =
     concat (map (\<lambda>c. concat (map (edges_of_use nodes (du_definition c)) (du_uses c))) ch)"

definition build_dataflow_graph ::
  "(string \<Rightarrow> 'v option option) \<Rightarrow> (definition_site set \<Rightarrow> definition_site list) \<Rightarrow> flow_graph \<Rightarrow> ssa_function \<Rightarrow>
     (string + 'v dataflow_graph) option" where
  "build_dataflow_graph lit enum g s =
     map_option (\<lambda>r. rbind r (\<lambda>(ins, outs).
         let ch = build_chains s;
             nodes = fold (\<lambda>kn. dataflow_add_node (dataflow_node_of enum s ins kn)) (fg_nodes g) []
         in Inr \<lparr> dg_function_name = fg_function_name g, dg_file_path = fg_file_path g, dg_nodes = nodes,
                  dg_edges = dataflow_edges nodes (fst ch), dg_def_use = fst ch,
                  dg_use_def = snd ch, dg_constants = propagate_constants lit s \<rparr>))
       (analyze_reaching g s)"

section \<open>Chains are exact\<close>

lemma targets_snoc: "targets (ns @ [n]) = targets ns @ (case sn_target n of None \<Rightarrow> [] | Some t \<Rightarrow> [t])"
  by (induction ns) (auto simp: targets_def List.map_filter_simps split: option.splits)

lemma in_targets: "t \<in> set (targets ns) \<longleftrightarrow> (\<exists>n\<in>set ns. sn_target n = Some t)"
  by (induction ns) (auto simp: targets_def List.map_filter_simps split: option.splits)

lemma definition_map_get:
  "distinct (map ssa_name (targets ns)) \<Longrightarrow>
   dget (fold record_definition ns []) k = Some r \<longleftrightarrow>
     (\<exists>n\<in>set ns. \<exists>t. sn_target n = Some t \<and> ssa_name t = k \<and> r = ref_of n t)"
proof (induction ns rule: rev_induct)
  case (snoc n ns)
  show ?case
  proof (cases "sn_target n")
    case None
    then show ?thesis using snoc by (simp add: record_definition_def targets_snoc)
  next
    case (Some t)
    then have "ssa_name t \<notin> ssa_name ` set (targets ns)"
      using snoc.prems by (simp add: targets_snoc)
    then have fresh: "\<not> (\<exists>m\<in>set ns. \<exists>u. sn_target m = Some u \<and> ssa_name u = ssa_name t)"
      by (metis image_eqI in_targets)
    show ?thesis
    proof (cases "k = ssa_name t")
      case True
      then show ?thesis using Some fresh by (auto simp: record_definition_def)
    next
      case False
      then show ?thesis using Some snoc by (auto simp: record_definition_def targets_snoc)
    qed
  qed
qed simp

lemma definition_map_distinct: "distinct (dkeys (fold record_definition ns m)) = distinct (dkeys m)"
  if "distinct (dkeys m)"
  using that by (induction ns arbitrary: m) (auto simp: record_definition_def distinct_dset split: option.splits)

lemma use_map_get_fold:
  "dget_default (fold (record_use n) us m) k [] =
     dget_default m k [] @ map (ref_of n) (filter (\<lambda>u. ssa_name u = k) us)"
  by (induction us arbitrary: m) (auto simp: record_use_def)

lemma use_map_get:
  "dget_default (fold (\<lambda>n. fold (record_use n) (sn_uses n)) ns m) k [] =
     dget_default m k [] @ concat (map (\<lambda>n. map (ref_of n) (filter (\<lambda>u. ssa_name u = k) (sn_uses n))) ns)"
  by (induction ns arbitrary: m) (simp_all add: use_map_get_fold)

lemma in_definition_map:
  assumes "distinct (map ssa_name (targets (sf_nodes s)))"
  shows "(k, r) \<in> set (definition_map s) \<longleftrightarrow>
    (\<exists>n\<in>set (sf_nodes s). \<exists>t. sn_target n = Some t \<and> ssa_name t = k \<and> r = ref_of n t)"
proof -
  have "distinct (dkeys (definition_map s))"
    unfolding definition_map_def by (subst definition_map_distinct) simp_all
  then have "(k, r) \<in> set (definition_map s) \<longleftrightarrow> dget (definition_map s) k = Some r" by simp
  then show ?thesis using definition_map_get [OF assms] by (simp add: definition_map_def)
qed

lemma dget_default_Nil [simp]: "dget_default [] k v = v"
  by (simp add: dget_default_def)

lemma in_use_map:
  "u \<in> set (dget_default (use_map s) (ssa_name v) []) \<longleftrightarrow>
     (\<exists>n\<in>set (sf_nodes s). v \<in> set (sn_uses n) \<and> u = ref_of n v)"
  by (auto simp: use_map_def use_map_get dest: ssa_name_inj)

lemma use_def_exact:
  assumes "distinct (map ssa_name (targets (sf_nodes s)))"
  shows "c \<in> set (snd (build_chains s)) \<longleftrightarrow>
    (\<exists>n\<in>set (sf_nodes s). \<exists>m\<in>set (sf_nodes s). \<exists>v. sn_target n = Some v \<and> v \<in> set (sn_uses m) \<and>
       c = \<lparr> ud_use = ref_of m v, ud_definitions = [ref_of n v] \<rparr>)"
proof -
  have "c \<in> set (snd (build_chains s)) \<longleftrightarrow>
      (\<exists>k r. (k, r) \<in> set (definition_map s) \<and>
         (\<exists>u\<in>set (dget_default (use_map s) k []). c = \<lparr> ud_use = u, ud_definitions = [r] \<rparr>))"
    by (auto simp: build_chains_def Let_def)
  also have "\<dots> \<longleftrightarrow> (\<exists>n\<in>set (sf_nodes s). \<exists>v. sn_target n = Some v \<and>
         (\<exists>u\<in>set (dget_default (use_map s) (ssa_name v) []). c = \<lparr> ud_use = u, ud_definitions = [ref_of n v] \<rparr>))"
    unfolding in_definition_map [OF assms] by blast
  finally show ?thesis unfolding Bex_def in_use_map by blast
qed

lemma defined_before_used:
  "defined_before defs ns \<Longrightarrow> n \<in> set ns \<Longrightarrow> v \<in> set (sn_uses n) \<Longrightarrow> v \<in> defs \<union> set (targets ns)"
  by (induction ns arbitrary: defs) (fastforce simp: in_targets)+

lemma build_ssa_names: "distinct (map ssa_name (targets (sf_nodes (build_ssa g))))"
  and build_ssa_defined: "defined_before {} (sf_nodes (build_ssa g))"
proof -
  have "distinct (targets (sf_nodes (build_ssa g))) \<and> defined_before {} (sf_nodes (build_ssa g))"
    using build_ssa_inv [of g] by (simp add: build_ssa_def Let_def renaming_inv_def)
  then show "distinct (map ssa_name (targets (sf_nodes (build_ssa g))))" "defined_before {} (sf_nodes (build_ssa g))"
    by (auto simp: distinct_map intro: inj_onI ssa_name_inj)
qed

section \<open>Where the statements of a graph come from\<close>

fun branch_statements :: "ir_statement \<Rightarrow> ir_statement list" where
  "branch_statements (IRIf _ _ thens elses) = thens @ elses"
| "branch_statements (IRLoop _ _ _ body) = body"
| "branch_statements _ = []"

definition statements_within :: "ir_statement list \<Rightarrow> ir_statement set" where
  "statements_within ss = (\<Union>s\<in>set ss. insert s (set (branch_statements s)))"

text \<open>A node's identifier starts with the function's, and its statements are the function's.\<close>

definition made_from :: "string \<Rightarrow> ir_statement set \<Rightarrow> flow_node \<Rightarrow> bool" where
  "made_from fid S n \<longleftrightarrow> (\<exists>r. nd_id n = fid @ ''::'' @ r) \<and> set (nd_statements n) \<subseteq> S"

definition nodes_from :: "string \<Rightarrow> ir_statement set \<Rightarrow> flow_graph \<Rightarrow> bool" where
  "nodes_from fid S g \<longleftrightarrow> (\<forall>k n. dget (fg_nodes g) k = Some n \<longrightarrow> k = nd_id n \<and> made_from fid S n)"

lemma nodes_from_add_node: "nodes_from fid S g \<Longrightarrow> made_from fid S n \<Longrightarrow> nodes_from fid S (flow_add_node n g)"
  by (auto simp: nodes_from_def flow_add_node_def Let_def)

lemma nodes_from_add_edge [simp]: "nodes_from fid S (flow_add_edge s t ty c g) = nodes_from fid S g"
  by (simp add: nodes_from_def flow_add_edge_def)

lemma made_from_branch:
  "made_from fid S (branch_node k ty s ss label) \<longleftrightarrow> (\<exists>r. k = fid @ ''::'' @ r) \<and> set ss \<subseteq> S"
  by (simp add: made_from_def branch_node_def)

lemma nodes_from_statements:
  "nodes_from fid S g \<Longrightarrow> statements_within ss \<subseteq> S \<Longrightarrow>
     nodes_from fid S (snd (build_statements fid ex idx ss prev g))"
proof (induction fid ex idx ss prev g rule: build_statements.induct)
  case (1 fid ex idx prev g)
  then show ?case by simp
next
  case (2 fid ex idx s ss prev g)
  have rest: "statements_within ss \<subseteq> S" "statements_within (dropWhile is_basic ss) \<subseteq> S"
    using "2.prems"(2) by (auto simp: statements_within_def dest: set_dropWhileD)
  have here: "insert s (set (branch_statements s)) \<subseteq> S" "set (takeWhile is_basic ss) \<subseteq> S"
    using "2.prems"(2) by (auto simp: statements_within_def dest: set_takeWhileD)
  show ?case
  proof (cases "is_basic s")
    case True
    have "made_from fid S (block_node (fid @ ''::stmt::'' @ x) s (s # takeWhile is_basic ss))" for x
      using here by (simp add: made_from_def block_node_def)
    then show ?thesis using "2.IH"(1) [OF True refl refl refl] rest "2.prems"(1)
      by (simp add: Let_def nodes_from_add_node True)
  next
    case False
    then show ?thesis
    proof (cases s)
      case (IRStatement x)
      then show ?thesis using "2.IH"(2) [OF False IRStatement "2.prems"(1) rest(1)] by simp
    next
      case (IRReturn x v)
      then show ?thesis using "2.IH"(5) [OF False IRReturn refl] rest "2.prems"(1)
        by (simp add: Let_def build_return_def nodes_from_add_node made_from_branch)
    next
      case (IRIf x c t e)
      then show ?thesis using "2.IH"(6) [OF False IRIf refl] rest "2.prems"(1) here
        by (simp add: Let_def build_if_def nodes_from_add_node made_from_branch)
    next
      case (IRLoop x t c b)
      then show ?thesis using "2.IH"(7) [OF False IRLoop refl] rest "2.prems"(1) here
        by (simp add: Let_def build_loop_def nodes_from_add_node made_from_branch)
    qed simp_all
  qed
qed

lemma build_flow_nodes_from:
  "nodes_from (ir_id (irf_head f)) (statements_within (irf_body f)) (build_flow f)"
proof -
  let ?fid = "ir_id (irf_head f)" and ?l = "ir_line (irf_head f)" and ?S = "statements_within (irf_body f)"
  define g where "g = flow_add_node (exit_node ?fid ?l) (flow_add_node (entry_node ?fid ?l)
    (empty_flow (irf_name f) (ir_file_path (irf_head f))))"
  have g: "nodes_from ?fid ?S g"
    unfolding g_def
    by (intro nodes_from_add_node)
      (simp_all add: made_from_def entry_node_def exit_node_def nodes_from_def empty_flow_def)
  have "nodes_from ?fid ?S
      (snd (build_statements ?fid (nd_id (exit_node ?fid ?l)) 0 (irf_body f) (nd_id (entry_node ?fid ?l)) g))"
    by (rule nodes_from_statements [OF g]) simp
  moreover obtain last_id k where "build_statements ?fid (nd_id (exit_node ?fid ?l)) 0 (irf_body f)
      (nd_id (entry_node ?fid ?l)) g = (last_id, k)" by fastforce
  ultimately show ?thesis using g
    by (cases "irf_body f = []") (simp_all add: build_flow_def Let_def g_def [symmetric])
qed

lemma build_flow_node_in:
  assumes "(k, n) \<in> set (fg_nodes (build_flow f))"
  shows "\<exists>r. k = ir_id (irf_head f) @ ''::'' @ r" "set (nd_statements n) \<subseteq> statements_within (irf_body f)"
  using build_flow_nodes_from [of f] map_of_is_SomeI [OF build_flow_distinct assms]
  by (auto simp: nodes_from_def made_from_def)

text \<open>The nodes of the single assignment form come from assignments, or from phi nodes.\<close>

lemma rename_statement_ids:
  "sn_id ` set (rn_nodes (rename_statement s r)) \<subseteq> insert (ir_id (stmt_head s)) (sn_id ` set (rn_nodes r))"
  by (cases s) (auto simp: Let_def emit_def get_new_version_def)

lemma fold_statement_ids:
  "sn_id ` set (rn_nodes (fold rename_statement ss r)) \<subseteq> (\<lambda>s. ir_id (stmt_head s)) ` set ss \<union> sn_id ` set (rn_nodes r)"
proof (induction ss arbitrary: r)
  case (Cons s ss)
  show ?case using Cons [of "rename_statement s r"] rename_statement_ids [of s r] by auto
qed simp

lemma fold_node_ids:
  assumes "list_all (\<lambda>kn. \<not> is_merge_point (snd kn)) ns"
  shows "sn_id ` set (rn_nodes (fold rename_node ns r)) \<subseteq>
    (\<Union>kn\<in>set ns. (\<lambda>s. ir_id (stmt_head s)) ` set (nd_statements (snd kn))) \<union> sn_id ` set (rn_nodes r)"
  using assms
proof (induction ns arbitrary: r)
  case (Cons n ns)
  show ?case
    using Cons.IH [of "rename_node n r"] Cons.prems fold_statement_ids [of "nd_statements (snd n)" r]
    by (auto simp: rename_node_def)
qed simp

lemma built_statement_ids:
  assumes "list_all (\<lambda>s. \<not> mentions_merge s) (irf_body f)" "n \<in> set (sf_nodes (build_ssa (build_flow f)))"
  shows "\<exists>s\<in>statements_within (irf_body f). sn_id n = ir_id (stmt_head s)"
proof -
  have "sn_id n \<in> sn_id ` set (rn_nodes (fold rename_node (fg_nodes (build_flow f)) start_renaming))"
    using assms(2) by (simp add: build_ssa_def Let_def)
  then have "sn_id n \<in> (\<Union>kn\<in>set (fg_nodes (build_flow f)). (\<lambda>s. ir_id (stmt_head s)) ` set (nd_statements (snd kn)))"
    using fold_node_ids [OF merge_free_listed [OF build_flow_distinct build_flow_merge_free [OF assms(1)]], of start_renaming]
    unfolding start_renaming_def by simp blast
  then show ?thesis using build_flow_node_in(2) by fastforce
qed

section \<open>Identifiers that never meet\<close>

lemma colon_notin_str_int: "CHR '':'' \<notin> set (str_int l)"
  using not_digit_str_nat [of "CHR '':''"] by (simp add: str_int_def)

text \<open>An identifier of a statement has fewer colons than one of a node of its function.\<close>

lemma statement_outside_nodes:
  assumes fid: "fid = path @ ''::'' @ name @ ''::'' @ str_int l" and "flat_id path k"
  shows "\<not> startswith k (fid @ ''::'' @ r)"
proof
  assume "startswith k (fid @ ''::'' @ r)"
  then obtain z where "k = fid @ ''::'' @ r @ z" by (auto simp: startswith_iff)
  moreover obtain kind m where k: "CHR '':'' \<notin> set kind" "k = path @ ''::'' @ kind @ ''::'' @ str_int m"
    using assms(2) by (auto simp: flat_id_def)
  ultimately have "kind @ ''::'' @ str_int m = name @ ''::'' @ str_int l @ ''::'' @ r @ z"
    by (simp add: fid)
  then have "count_list (kind @ ''::'' @ str_int m) CHR '':'' = count_list (name @ ''::'' @ str_int l @ ''::'' @ r @ z) CHR '':''"
    by simp
  then show False using k(1) colon_notin_str_int [of m] by (simp add: count_notin)
qed

lemma flat_statements_outside:
  assumes "flat_function f" "n \<in> set (sf_nodes (build_ssa (build_flow f)))" "(k, fn) \<in> set (fg_nodes (build_flow f))"
  shows "\<not> startswith (sn_id n) k"
proof -
  obtain path name l where f: "ir_id (irf_head f) = path @ ''::'' @ name @ ''::'' @ str_int l"
    and body: "list_all (flat_statement path) (irf_body f)"
    using assms(1) by (auto simp: flat_function_def)
  have flat: "flat_statement path s \<and> branch_statements s = []" if "s \<in> set (irf_body f)" for s
    using body that by (cases s) (auto simp: list_all_iff flat_statement_def)
  have "\<not> mentions_merge s" if "s \<in> set (irf_body f)" for s
    using flat [OF that] by (cases s) (auto simp: mentions_merge_def flat_statement_def startswith_def)
  then obtain s where s: "s \<in> statements_within (irf_body f)" "sn_id n = ir_id (stmt_head s)"
    using built_statement_ids [of f n] assms(2) by (auto simp: list_all_iff)
  then have "flat_id path (sn_id n)" using flat by (auto simp: statements_within_def flat_statement_def)
  moreover obtain r where "k = ir_id (irf_head f) @ ''::'' @ r" using build_flow_node_in(1) [OF assms(3)] by blast
  ultimately show ?thesis using statement_outside_nodes [OF f] by blast
qed

lemma no_statements_at:
  "\<forall>n\<in>set (sf_nodes s). \<not> startswith (sn_id n) k \<Longrightarrow> statements_at s k = []"
  by (simp add: statements_at_def filter_empty_conv)

lemma gen_set_at: "gen_set s k = set (List.map_filter site_of (statements_at s k))"
  by (simp add: gen_set_def node_definitions_def statements_at_def)

lemma nodes_fold_all:
  "list_all (\<lambda>kn. P (f kn)) xs \<Longrightarrow> list_all (\<lambda>kn. P (snd kn)) ns \<Longrightarrow>
     list_all (\<lambda>kn. P (snd kn)) (fold (\<lambda>kn. dataflow_add_node (f kn)) xs ns)"
proof (induction xs arbitrary: ns)
  case (Cons x xs)
  have "list_all (\<lambda>kn. P (snd kn)) (dset ns k v)" if "P v" for k v
    using Cons.prems(2) that by (induction ns) auto
  then show ?case using Cons by (simp add: dataflow_add_node_def)
qed simp

lemma no_uses_no_edges:
  "list_all (\<lambda>kn. dn_uses (snd kn) = []) nodes \<Longrightarrow> dataflow_edges nodes ch = []"
proof -
  assume "list_all (\<lambda>kn. dn_uses (snd kn) = []) nodes"
  then have "filter (\<lambda>(k, n). list_ex (\<lambda>r. ref_ssa_name r = ref_ssa_name u) (dn_uses n)) nodes = []" for u
    by (auto simp: filter_empty_conv list_all_iff)
  then have "edges_of_use nodes d u = []" for d u by (simp add: edges_of_use_def)
  then show ?thesis by (simp add: dataflow_edges_def)
qed

lemma disconnected_graph:
  assumes g: "flow_closed g" and out: "\<And>n k. n \<in> set (sf_nodes s) \<Longrightarrow> k \<in> flow_ids g \<Longrightarrow> \<not> startswith (sn_id n) k"
    and enum: "enum {} = []"
  shows "\<exists>dg. build_dataflow_graph lit enum g s = Some (Inr dg) \<and> dg_edges dg = [] \<and>
    dg_use_def dg = snd (build_chains s) \<and>
    list_all (\<lambda>kn. dn_definitions (snd kn) = [] \<and> dn_uses (snd kn) = []) (dg_nodes dg)"
proof -
  have none: "statements_at s k = []" if "k \<in> flow_ids g" for k using no_statements_at out that by blast
  obtain ins outs where io: "analyze_reaching g s = Some (Inr (ins, outs))"
    "\<forall>k\<in>flow_ids g. \<forall>d. d \<in> site_set ins k \<longleftrightarrow> reaches g s d k"
    using reaching_computed [OF g] by blast
  have "site_set ins k = {}" if "k \<in> flow_ids g" for k
  proof -
    have "d \<notin> site_set ins k" for d
    proof -
      have "d \<notin> sites g s" using none by (simp add: sites_def gen_set_at List.map_filter_simps)
      then have "\<not> reaches g s d k" using reaches_sites [OF _ g] by blast
      then show ?thesis using io(2) that by blast
    qed
    then show ?thesis by blast
  qed
  then have nodes: "dn_definitions (dataflow_node_of enum s ins kn) = [] \<and> dn_uses (dataflow_node_of enum s ins kn) = []"
    if "kn \<in> set (fg_nodes g)" for kn
    using that none [of "fst kn"] enum
    by (simp add: dataflow_node_of_def get_reaching_def Let_def flow_ids_def site_set_def [symmetric])
  let ?ns = "fold (\<lambda>kn. dataflow_add_node (dataflow_node_of enum s ins kn)) (fg_nodes g) []"
  have all: "list_all (\<lambda>kn. dn_definitions (snd kn) = [] \<and> dn_uses (snd kn) = []) ?ns"
    by (rule nodes_fold_all [where P = "\<lambda>n. dn_definitions n = [] \<and> dn_uses n = []"])
      (simp_all add: list_all_iff nodes)
  then have "dataflow_edges ?ns (fst (build_chains s)) = []"
    by (intro no_uses_no_edges) (simp add: list_all_iff)
  then show ?thesis using io(1) all by (simp add: build_dataflow_graph_def Let_def)
qed

lemma one_definition:
  assumes "v \<in> set (targets ns)" "distinct (targets ns)"
  shows "length (filter (\<lambda>n. sn_target n = Some v) ns) = 1"
  using assms
proof (induction ns)
  case (Cons n ns)
  have "filter (\<lambda>n. sn_target n = Some v) ns = []" if "v \<notin> set (targets ns)"
    using that by (auto simp: filter_empty_conv in_targets)
  then show ?case using Cons by (auto simp: targets_def List.map_filter_simps split: option.splits)
qed (simp add: targets_def List.map_filter_simps)

section \<open>Properties\<close>

text \<open>
  On the single assignment form of every graph the use-def chains are
  exactly the pairs of a use and the definition of the same version, and every variable a node
  uses has one defining node.
\<close>

theorem use_def_chains_exact:
  "(c \<in> set (snd (build_chains (build_ssa g))) \<longleftrightarrow>
     (\<exists>n m v. n \<in> set (sf_nodes (build_ssa g)) \<and> m \<in> set (sf_nodes (build_ssa g)) \<and>
        sn_target n = Some v \<and> v \<in> set (sn_uses m) \<and>
        c = \<lparr> ud_use = ref_of m v, ud_definitions = [ref_of n v] \<rparr>)) \<and>
   list_all (\<lambda>m. list_all (\<lambda>v. length (filter (\<lambda>n. sn_target n = Some v) (sf_nodes (build_ssa g))) = 1) (sn_uses m))
     (sf_nodes (build_ssa g))"
proof
  show "list_all (\<lambda>m. list_all (\<lambda>v. length (filter (\<lambda>n. sn_target n = Some v) (sf_nodes (build_ssa g))) = 1) (sn_uses m))
     (sf_nodes (build_ssa g))"
    using one_definition [OF _ conjunct1 [OF build_ssa_names [of g, unfolded distinct_map]]] defined_before_used [OF build_ssa_defined [of g]]
    by (simp add: list_all_iff)
qed (use use_def_exact [OF build_ssa_names [of g]] in blast)

definition demo_node :: "string \<Rightarrow> string option \<Rightarrow> string \<Rightarrow> int \<Rightarrow> ast_class \<Rightarrow> ast_node" where
  "demo_node k parent ty line cls =
     \<lparr> an_node_id = k, an_parent_id = parent, an_node_type = ty, an_language = ''php'', an_byte_start = 0,
       an_byte_end = 0, an_line = line, an_children = [], an_class = cls \<rparr>"

text \<open>A function that assigns a parameter of the request and queries with it.\<close>

definition demo_file :: file_node where
  "demo_file = \<lparr> fl_file_path = Some ''a.php'', fl_language = ''php'',
     fl_nodes_map =
       map (\<lambda>n. (an_node_id n, n))
         [demo_node ''n1'' None ''function_definition'' 1 (FunctionClass ''f'' []),
          demo_node ''n2'' (Some ''n1'') ''identifier'' 1 PlainNode,
          demo_node ''n3'' (Some ''n1'') ''assignment_expression'' 2 (AssignmentClass ''$x'' ''$_GET[1]''),
          demo_node ''n4'' (Some ''n1'') ''assignment_expression'' 3 (AssignmentClass ''$y'' ''$x'')] \<rparr>"

text \<open>The name of the function, an identifier, is taken for a condition: its type contains \<open>if\<close>.\<close>

lemma identifier_is_condition:
  "convert_statement fl src (demo_node k p ''identifier'' l PlainNode) =
     Some (IRIf (statement_head fl (demo_node k p ''identifier'' l PlainNode) ''if'') [] [] [])"
proof -
  have "contains ''if'' (py_lower ''identifier'')" by code_simp
  then show ?thesis
    by (simp add: convert_statement_def demo_node_def is_assignment_node_def is_call_node_def)
qed

text \<open>
  C21: For every function translated from parsed files the data flow graph
  is built, but it has no edge, and no node of it has a definition or a use: statements are
  found by comparing the start of their identifier with the node's, and the two are made of
  different parts. The use-def chains beside the graph are not lost.
\<close>

theorem dataflow_edges_missing:
  assumes "build_from_file_nodes srcs fls = Some fs" "f \<in> set fs" "enum {} = []"
  shows "\<exists>dg. build_dataflow_graph lit enum (build_flow f) (build_ssa (build_flow f)) = Some (Inr dg) \<and>
    dg_edges dg = [] \<and> dg_use_def dg = snd (build_chains (build_ssa (build_flow f))) \<and>
    list_all (\<lambda>kn. dn_definitions (snd kn) = [] \<and> dn_uses (snd kn) = []) (dg_nodes dg)"
proof (rule disconnected_graph)
  show "flow_closed (build_flow f)" using build_flow_finished [of f] by (simp add: flow_valid_def)
  show "enum {} = []" by (rule assms(3))
  have "flat_function f" using built_functions_flat [OF assms(1)] assms(2) by (simp add: list_all_iff)
  then show "\<not> startswith (sn_id n) k"
    if "n \<in> set (sf_nodes (build_ssa (build_flow f)))" "k \<in> flow_ids (build_flow f)" for n k
    using flat_statements_outside that by (auto simp: flow_ids_def)
qed

theorem dataflow_edges_missing_witness:
  "\<exists>fs f dg. build_from_file_nodes [] [demo_file] = Some fs \<and> fs = [f] \<and>
     build_dataflow_graph (\<lambda>_. None :: string option option) sorted_list_of_set (build_flow f) (build_ssa (build_flow f))
       = Some (Inr dg) \<and> dg_edges dg = [] \<and> length (dg_use_def dg) = 1"
proof -
  have b: "build_from_file_nodes [] [demo_file] = Some [the (map_option hd (build_from_file_nodes [] [demo_file]))]"
    (is "_ = Some [?f]") by code_simp
  have one: "length (snd (build_chains (build_ssa (build_flow ?f)))) = 1" by code_simp
  show ?thesis
    using dataflow_edges_missing [OF b, of ?f sorted_list_of_set "\<lambda>_. None :: string option option"] b one by auto
qed

end
