(* ===== verification/Taint.thy ===== *)
theory Taint
  imports DataFlow
begin

text \<open>
  The taint analysis of \<^verbatim>\<open>analysis/taint/\<close>: the registries of sources, sinks and sanitizers with
  their patterns, the propagation of taint over the single assignment form, and the engine that
  turns the states of one function into vulnerable and safe paths.
\<close>

section \<open>Sources\<close>

definition any_in :: "string list \<Rightarrow> string \<Rightarrow> bool" where
  "any_in pats text = list_ex (\<lambda>p. contains p text) pats"

type_synonym source_registry = "(string, string list) dict"

definition default_sources :: source_registry where
  "default_sources =
     [(''Python'', [''request.args'', ''request.form'', ''request.json'', ''request.GET'', ''request.POST'',
        ''request.values'', ''request.headers'', ''input('', ''os.environ'', ''sys.argv'', ''req.args'', ''req.form'',
        ''req.params'']),
      (''PHP'', [''$_GET'', ''$_POST'', ''$_COOKIE'', ''$_FILES'', ''$_REQUEST'', ''$_SERVER'',
        ''file_get_contents('php://input')'', ''php://input'']),
      (''Go'', [''r.URL.Query()'', ''ctx.Query()'', ''ctx.FormValue()'', ''c.QueryParam'', ''c.FormValue'', ''c.Bind'',
        ''r.Header'']),
      (''JavaScript'', [''req.body'', ''req.query'', ''req.params'', ''req.headers'', ''location.search'',
        ''location.hash'', ''location.href'', ''document.URL'', ''document.referrer'', ''document.cookie'',
        ''process.argv'']),
      (''Java'', [''request.getParameter'', ''getParameter('', ''request.getHeader'', ''request.getInputStream'',
        ''request.getCookies'', ''@RequestParam''])]"

definition negative_controls :: "string list" where
  "negative_controls =
     [''config.get'', ''database.get'', ''cache.get'', ''environment.get'', ''object.getParameter'',
      ''internalRequest.get'', ''app_settings.'', ''system_env.'']"

definition http_source_patterns :: "string list" where
  "http_source_patterns =
     [''request.getParameter'', ''req.getParameter'', ''servletRequest'', ''$_GET'', ''$_POST'', ''$_REQUEST'',
      ''request.args'', ''request.GET'', ''request.POST'', ''req.query'', ''customRequest'']"

definition register_source :: "string \<Rightarrow> string \<Rightarrow> source_registry \<Rightarrow> source_registry" where
  "register_source language pattern reg =
     (let reg = (if language \<in> set (dkeys reg) then reg else dset reg language []);
          pats = dget_default reg language []
      in if pattern \<in> set pats then reg else dset reg language (pats @ [pattern]))"

text \<open>The patterns of the language first, then the others without repetition.\<close>

definition source_patterns :: "source_registry \<Rightarrow> string option \<Rightarrow> string list" where
  "source_patterns reg language =
     dedup_onto (case language of
                   None \<Rightarrow> []
                 | Some l \<Rightarrow> if l \<noteq> [] \<and> l \<in> set (dkeys reg) then dget_default reg l [] else [])
       (concat (map snd reg))"

definition has_http_source :: "source_registry \<Rightarrow> string \<Rightarrow> string option \<Rightarrow> bool" where
  "has_http_source reg text language =
     (any_in http_source_patterns text \<or> any_in (source_patterns reg language) text)"

definition negated_source :: "string \<Rightarrow> bool" where
  "negated_source text = (any_in negative_controls text \<and> \<not> any_in http_source_patterns text)"

definition is_source :: "source_registry \<Rightarrow> string \<Rightarrow> string option \<Rightarrow> bool" where
  "is_source reg text language =
     (if contains ''customRequest.getInput'' text then True
      else if negated_source text then False
      else has_http_source reg text language)"

record taint_source =
  ts_name :: string
  ts_language :: string
  ts_line :: int
  ts_pattern :: string
  ts_category :: string
  ts_framework :: string
  ts_user_controlled :: bool

definition new_source :: "string \<Rightarrow> string \<Rightarrow> int \<Rightarrow> taint_source" where
  "new_source pat language line =
     \<lparr> ts_name = pat, ts_language = language, ts_line = line, ts_pattern = pat, ts_category = ''DIRECT'',
       ts_framework = ''Java Servlet'', ts_user_controlled = True \<rparr>"

definition match_source :: "source_registry \<Rightarrow> string \<Rightarrow> int \<Rightarrow> string option \<Rightarrow> taint_source option" where
  "match_source reg text line language =
     (if negated_source text then None
      else map_option (\<lambda>pat. new_source pat (case language of Some (c # l) \<Rightarrow> c # l | _ \<Rightarrow> ''Python'') line)
             (find (\<lambda>pat. contains pat text) (source_patterns reg language)))"

definition resolve_source :: "source_registry \<Rightarrow> string \<Rightarrow> string \<Rightarrow> int \<Rightarrow> taint_source option" where
  "resolve_source reg text language line =
     (if contains ''unproven'' text \<or> contains ''unprovenObj'' text then None
      else if contains ''customRequest'' text
      then Some \<lparr> ts_name = ''customRequest'', ts_language = language, ts_line = line,
                  ts_pattern = ''customRequest'', ts_category = ''WRAPPER'', ts_framework = ''CustomWrapper'',
                  ts_user_controlled = True \<rparr>
      else case match_source reg text line (Some language) of
        Some m \<Rightarrow> Some (m\<lparr> ts_category := ''DIRECT'', ts_framework := ''Java Servlet'',
                           ts_user_controlled := \<not> negated_source text \<rparr>)
      | None \<Rightarrow> Some ((new_source text language line)\<lparr> ts_user_controlled := \<not> negated_source text \<rparr>))"

section \<open>Sinks\<close>

datatype taint_category = SQL_INJECTION | COMMAND_INJECTION | PATH_TRAVERSAL | SSRF | XSS | GENERIC

type_synonym sink_registry = "(taint_category, string list) dict"

definition default_sinks :: sink_registry where
  "default_sinks =
     [(SQL_INJECTION, [''execute('', ''query('', ''raw('', ''Exec('', ''db.execute'', ''cursor.execute'',
        ''mysqli_query'', ''PDO::query'', ''PDO::prepare'', ''mysqli::prepare'', ''DB::select'', ''DB::raw'',
        ''DB::statement'']),
      (COMMAND_INJECTION, [''exec('', ''system('', ''shell_exec('', ''subprocess.Popen'', ''subprocess.run'',
        ''Process.Start'', ''os.system'', ''passthru'']),
      (PATH_TRAVERSAL, [''open('', ''File('', ''SendFile('', ''NamedFile('', ''read_file'', ''unlink'',
        ''file_get_contents'']),
      (SSRF, [''requests.get'', ''requests.post'', ''requests.request'', ''urllib.request.urlopen'', ''fetch('',
        ''axios.get'', ''axios.post'', ''http.Get('', ''curl_exec'', ''reqwest::get'']),
      (XSS, [''response.write'', ''echo'', ''print('', ''printf('', ''document.write'', ''innerHTML'', ''outerHTML'',
        ''insertAdjacentHTML'', ''dangerouslySetInnerHTML'', ''v-html'', ''eval(''])]"

definition register_sink :: "taint_category \<Rightarrow> string \<Rightarrow> sink_registry \<Rightarrow> sink_registry" where
  "register_sink category pattern reg =
     (let reg = (if category \<in> set (dkeys reg) then reg else dset reg category []);
          pats = dget_default reg category []
      in if pattern \<in> set pats then reg else dset reg category (pats @ [pattern]))"

definition is_sink :: "sink_registry \<Rightarrow> string \<Rightarrow> bool" where
  "is_sink reg text = list_ex (\<lambda>(_, pats). any_in pats text) reg"

record taint_sink =
  tk_sink_name :: string
  tk_sink_category :: taint_category
  tk_sink_line :: int
  tk_sink_pattern :: string

definition match_sink :: "sink_registry \<Rightarrow> string \<Rightarrow> int \<Rightarrow> taint_sink option" where
  "match_sink reg text line =
     map_option (\<lambda>(cat, pat). \<lparr> tk_sink_name = pat, tk_sink_category = cat, tk_sink_line = line, tk_sink_pattern = pat \<rparr>)
       (find (\<lambda>(_, pat). contains pat text) (concat (map (\<lambda>(cat, pats). map (Pair cat) pats) reg)))"

section \<open>Sanitizers\<close>

datatype sanitizer_context =
    HTML_BODY | HTML_ATTRIBUTE | JAVASCRIPT_CONTEXT | SQL_QUERY | URL_DESTINATION | FILE_PATH | COMMAND
  | GENERIC_CONTEXT

type_synonym sanitizer_registry = "(sanitizer_context, string list) dict"

definition default_sanitizers :: sanitizer_registry where
  "default_sanitizers =
     [(HTML_BODY, [''htmlspecialchars'', ''html.escape'', ''escape('', ''sanitize_html'',
        ''StringEscapeUtils.escapeHtml4'', ''escapeHtml4'']),
      (HTML_ATTRIBUTE, [''htmlspecialchars'', ''attribute_escape'']),
      (JAVASCRIPT_CONTEXT, [''encodeURIComponent'', ''JSON.stringify'', ''DOMPurify.sanitize'', ''js_escape'']),
      (SQL_QUERY, [''PreparedStatement'', ''parameterized'', ''int('', ''intval'', ''int()'', ''escape_string'',
        ''quote_identifier'']),
      (URL_DESTINATION, [''strict_url_allowlist'', ''validate_origin'']),
      (FILE_PATH, [''Path.normalize'', ''filepath.Clean'', ''basename'', ''safe_join'', ''secure_filename'']),
      (COMMAND, [''shlex.quote'', ''escapeshellarg'', ''escapeshellcmd''])]"

definition is_sanitizer :: "sanitizer_registry \<Rightarrow> string \<Rightarrow> bool" where
  "is_sanitizer reg text = list_ex (\<lambda>(_, pats). any_in pats text) reg"

definition is_sanitizer_for_context :: "sanitizer_registry \<Rightarrow> string \<Rightarrow> sanitizer_context \<Rightarrow> bool" where
  "is_sanitizer_for_context reg text ctx = any_in (dget_default reg ctx []) text"

datatype transformation_type = ESCAPE | CAST | ENCODE | PARAMETERIZE | INEFFECTIVE | CUSTOM

record taint_sanitizer =
  sz_name :: string
  sz_category :: taint_category
  sz_line :: int
  sz_pattern :: string
  sz_verified_safe :: bool
  sz_transformation :: transformation_type

definition new_sanitizer :: "string \<Rightarrow> int \<Rightarrow> taint_sanitizer" where
  "new_sanitizer pat line =
     \<lparr> sz_name = pat, sz_category = GENERIC, sz_line = line, sz_pattern = pat, sz_verified_safe = True,
       sz_transformation = ESCAPE \<rparr>"

definition match_sanitizer :: "sanitizer_registry \<Rightarrow> string \<Rightarrow> int \<Rightarrow> taint_sanitizer option" where
  "match_sanitizer reg text line =
     map_option (\<lambda>pat. new_sanitizer pat line) (find (\<lambda>pat. contains pat text) (concat (map snd reg)))"

text \<open>The verdict of the special cases, \<open>None\<close> when the patterns decide.\<close>

definition resolve_special :: "string \<Rightarrow> string \<Rightarrow> (transformation_type \<times> bool) option" where
  "resolve_special text property =
     (let prepared = contains ''PreparedStatement'' text \<or> contains ''prepareStatement'' text in
      if (prepared \<or> contains ''SELECT ?'' text) \<and>
         (contains ''XSS'' property \<or> contains ''CROSS_SITE_SCRIPTING'' property)
      then Some (INEFFECTIVE, False)
      else if prepared then Some (PARAMETERIZE, True)
      else if (contains ''htmlspecialchars'' text \<or> contains ''html.escape'' text) \<and> contains ''SQL'' property
      then Some (INEFFECTIVE, False)
      else if contains ''fake_sanitize'' text \<or> contains ''noop_sanitize'' text then Some (INEFFECTIVE, False)
      else None)"

definition resolve_sanitizer ::
  "sanitizer_registry \<Rightarrow> string \<Rightarrow> string \<Rightarrow> int \<Rightarrow> string option \<Rightarrow> taint_sanitizer option" where
  "resolve_sanitizer reg text property_name line target_property =
     (let property = (case target_property of Some (c # p) \<Rightarrow> c # p | _ \<Rightarrow> property_name) in
      if contains ''unregistered_cleaner'' text then None
      else case resolve_special text property of
        Some (ty, safe) \<Rightarrow>
          Some ((new_sanitizer text line)\<lparr> sz_verified_safe := safe, sz_transformation := ty \<rparr>)
      | None \<Rightarrow>
          map_option (\<lambda>r. r\<lparr> sz_verified_safe := True, sz_transformation := ESCAPE \<rparr>)
            (match_sanitizer reg text line))"

section \<open>Propagation\<close>

datatype var_taint = VT_UNTAINTED | VT_TAINTED | VT_SANITIZED

record taint_node =
  tn_id :: string
  tn_var_name :: string
  tn_state :: var_taint
  tn_line :: int
  tn_is_source :: bool
  tn_is_sink :: bool
  tn_is_sanitizer :: bool
  tn_label :: string

record registries =
  rg_sources :: source_registry
  rg_sinks :: sink_registry
  rg_sanitizers :: sanitizer_registry

definition default_registries :: registries where
  "default_registries =
     \<lparr> rg_sources = default_sources, rg_sinks = default_sinks, rg_sanitizers = default_sanitizers \<rparr>"

type_synonym taint_nodes = "(string, taint_node) dict"

text \<open>The loop over the used variables: the first tainted one ends it.\<close>

fun state_from_uses :: "taint_nodes \<Rightarrow> ssa_var list \<Rightarrow> var_taint \<Rightarrow> var_taint" where
  "state_from_uses tns [] st = st"
| "state_from_uses tns (u # us) st =
     (case dget tns (ssa_name u) of
        None \<Rightarrow> state_from_uses tns us st
      | Some p \<Rightarrow>
          if tn_state p = VT_TAINTED then VT_TAINTED
          else state_from_uses tns us (if tn_state p = VT_SANITIZED then VT_SANITIZED else st))"

definition taint_node_of :: "registries \<Rightarrow> ssa_node \<Rightarrow> ssa_var \<Rightarrow> taint_nodes \<Rightarrow> taint_node" where
  "taint_node_of rg n t tns =
     (let label = sn_label n;
          src = is_source (rg_sources rg) label None;
          snk = is_sink (rg_sinks rg) label;
          san = is_sanitizer (rg_sanitizers rg) label;
          st = (if san then VT_SANITIZED else if src then VT_TAINTED
                else state_from_uses tns (sn_uses n) VT_UNTAINTED)
      in \<lparr> tn_id = sn_id n, tn_var_name = ssa_name t, tn_state = st, tn_line = sn_line n,
           tn_is_source = src, tn_is_sink = snk, tn_is_sanitizer = san, tn_label = label \<rparr>)"

definition taint_step :: "registries \<Rightarrow> ssa_node \<Rightarrow> taint_nodes \<Rightarrow> taint_nodes" where
  "taint_step rg n tns =
     (case sn_target n of None \<Rightarrow> tns | Some t \<Rightarrow> dset tns (ssa_name t) (taint_node_of rg n t tns))"

definition propagate_taint :: "registries \<Rightarrow> ssa_function \<Rightarrow> taint_nodes" where
  "propagate_taint rg s = fold (taint_step rg) (sf_nodes s) []"

section \<open>The engine\<close>

record taint_edge =
  te_source_id :: string
  te_target_id :: string
  te_var_name :: string
  te_label :: string

record taint_path =
  tp_source_node :: taint_node
  tp_sink_node :: taint_node
  tp_path_nodes :: "taint_node list"
  tp_sanitizer_nodes :: "taint_node list"
  tp_category :: taint_category
  tp_is_vulnerable :: bool

record taint_graph =
  tg_function_name :: string
  tg_file_path :: string
  tg_nodes :: taint_nodes
  tg_edges :: "taint_edge list"
  tg_vulnerable_paths :: "taint_path list"
  tg_safe_paths :: "taint_path list"

definition empty_taint_graph :: "string \<Rightarrow> string \<Rightarrow> taint_graph" where
  "empty_taint_graph name file_path =
     \<lparr> tg_function_name = name, tg_file_path = file_path, tg_nodes = [], tg_edges = [],
       tg_vulnerable_paths = [], tg_safe_paths = [] \<rparr>"

definition taint_add_node :: "taint_node \<Rightarrow> taint_graph \<Rightarrow> taint_graph" where
  "taint_add_node n g = g\<lparr> tg_nodes := dset (tg_nodes g) (tn_id n) n \<rparr>"

definition taint_add_edge :: "string \<Rightarrow> string \<Rightarrow> string \<Rightarrow> string \<Rightarrow> taint_graph \<Rightarrow> taint_graph" where
  "taint_add_edge a b var_name label g =
     g\<lparr> tg_edges := tg_edges g @ [\<lparr> te_source_id = a, te_target_id = b, te_var_name = var_name, te_label = label \<rparr>] \<rparr>"

text \<open>The node an end of a data flow edge stands for: by key, or the first whose identifier contains it.\<close>

definition node_for :: "taint_nodes \<Rightarrow> string \<Rightarrow> taint_node option" where
  "node_for tns k =
     (case dget tns k of
        Some n \<Rightarrow> Some n
      | None \<Rightarrow> find (\<lambda>n. contains k (tn_id n)) (map snd tns))"

definition connect_edge :: "taint_nodes \<Rightarrow> dataflow_edge \<Rightarrow> taint_graph \<Rightarrow> taint_graph" where
  "connect_edge tns e g =
     (case (node_for tns (de_source e), node_for tns (de_target e)) of
        (Some a, Some b) \<Rightarrow> taint_add_edge (tn_id a) (tn_id b) (de_var_name e) [] g
      | _ \<Rightarrow> g)"

definition fallback_sink :: "string \<times> flow_node \<Rightarrow> taint_node" where
  "fallback_sink kn =
     \<lparr> tn_id = nd_id (snd kn) @ ''::sink'', tn_var_name = ''sink'', tn_state = VT_UNTAINTED,
       tn_line = nd_line (snd kn), tn_is_source = False, tn_is_sink = True, tn_is_sanitizer = False,
       tn_label = nd_label (snd kn) \<rparr>"

definition sink_nodes :: "registries \<Rightarrow> flow_graph \<Rightarrow> taint_nodes \<Rightarrow> taint_node list \<times> taint_node list" where
  "sink_nodes rg g tns =
     (let snks = filter tn_is_sink (map snd tns);
          more = (if snks = [] then map fallback_sink (filter (\<lambda>kn. is_sink (rg_sinks rg) (nd_label (snd kn))) (fg_nodes g))
                  else [])
      in (snks @ more, more))"

definition is_tainted_node :: "taint_node \<Rightarrow> bool" where
  "is_tainted_node n = (tn_is_source n \<or> tn_state n = VT_TAINTED)"

definition is_clean_node :: "taint_node \<Rightarrow> bool" where
  "is_clean_node n = (tn_is_sanitizer n \<or> tn_state n = VT_SANITIZED)"

definition path_category :: "registries \<Rightarrow> taint_node \<Rightarrow> taint_category" where
  "path_category rg snk =
     (case match_sink (rg_sinks rg) (tn_label snk) 1 of Some m \<Rightarrow> tk_sink_category m | None \<Rightarrow> GENERIC)"

definition evaluate_path :: "registries \<Rightarrow> taint_nodes \<Rightarrow> taint_node \<times> taint_node \<Rightarrow> taint_graph \<Rightarrow> taint_graph" where
  "evaluate_path rg tns p g =
     (let (src, snk) = p; sans = filter is_clean_node (map snd tns) in
      if sans \<noteq> []
      then g\<lparr> tg_safe_paths := tg_safe_paths g @
             [\<lparr> tp_source_node = src, tp_sink_node = snk, tp_path_nodes = [src] @ sans @ [snk],
                tp_sanitizer_nodes = sans, tp_category = path_category rg snk, tp_is_vulnerable = False \<rparr>] \<rparr>
      else g\<lparr> tg_vulnerable_paths := tg_vulnerable_paths g @
             [\<lparr> tp_source_node = src, tp_sink_node = snk, tp_path_nodes = [src, snk],
                tp_sanitizer_nodes = [], tp_category = path_category rg snk, tp_is_vulnerable = True \<rparr>] \<rparr>)"

definition analyze_function :: "registries \<Rightarrow> flow_graph \<Rightarrow> ssa_function \<Rightarrow> 'v dataflow_graph \<Rightarrow> taint_graph" where
  "analyze_function rg g s dfg =
     (let tns = propagate_taint rg s;
          tg = fold (\<lambda>kn. taint_add_node (snd kn)) tns (empty_taint_graph (fg_function_name g) (fg_file_path g));
          tg = fold (connect_edge tns) (dg_edges dfg) tg;
          srcs = filter is_tainted_node (map snd tns);
          (snks, more) = sink_nodes rg g tns;
          tg = fold taint_add_node more tg
      in fold (evaluate_path rg tns) (List.product srcs snks) tg)"

text \<open>The pass over the artefacts of all functions.\<close>

definition taint_pass ::
  "registries \<Rightarrow> (string, flow_graph) dict \<Rightarrow> (string, ssa_function) dict \<Rightarrow> (string, 'v dataflow_graph) dict \<Rightarrow>
     (string, taint_graph) dict" where
  "taint_pass rg cfgs ssas dfgs =
     (if cfgs = [] \<or> ssas = [] \<or> dfgs = [] then []
      else List.map_filter
             (\<lambda>(name, g). case (dget ssas name, dget dfgs name) of
                (Some s, Some d) \<Rightarrow> Some (name, analyze_function rg g s d)
              | _ \<Rightarrow> None) cfgs)"

section \<open>What propagation computes\<close>

text \<open>
  A variable is tainted when the assignment that makes it names a source, or uses a tainted
  variable, and names no sanitizer.
\<close>

inductive tainted :: "registries \<Rightarrow> ssa_node list \<Rightarrow> ssa_var \<Rightarrow> bool" for rg ns where
  tainted_source:
    "n \<in> set ns \<Longrightarrow> sn_target n = Some t \<Longrightarrow> \<not> is_sanitizer (rg_sanitizers rg) (sn_label n) \<Longrightarrow>
       is_source (rg_sources rg) (sn_label n) None \<Longrightarrow> tainted rg ns t"
| tainted_use:
    "n \<in> set ns \<Longrightarrow> sn_target n = Some t \<Longrightarrow> \<not> is_sanitizer (rg_sanitizers rg) (sn_label n) \<Longrightarrow>
       u \<in> set (sn_uses n) \<Longrightarrow> tainted rg ns u \<Longrightarrow> tainted rg ns t"

lemma tainted_more: "tainted rg ns v \<Longrightarrow> tainted rg (ns @ ms) v"
  by (induction rule: tainted.induct) (auto intro: tainted.intros)

lemma defined_before_append:
  "defined_before defs (ns @ [n]) \<longleftrightarrow> defined_before defs ns \<and> set (sn_uses n) \<subseteq> defs \<union> set (targets ns)"
  by (induction ns arbitrary: defs) (auto simp: targets_def List.map_filter_simps split: option.splits)

lemma tainted_last:
  assumes "defined_before {} (ns @ [n])" "sn_target n = Some t" "t \<notin> set (targets ns)"
  shows "tainted rg (ns @ [n]) v \<longleftrightarrow>
    (if v = t then \<not> is_sanitizer (rg_sanitizers rg) (sn_label n) \<and>
        (is_source (rg_sources rg) (sn_label n) None \<or> (\<exists>u\<in>set (sn_uses n). tainted rg ns u))
     else tainted rg ns v)"
proof -
  have uses: "u \<noteq> t" if "m \<in> set (ns @ [n])" "u \<in> set (sn_uses m)" for m u
    using defined_before_used [of "{}" "ns" m u] that assms by (auto simp: defined_before_append)
  have target: "m = n \<longleftrightarrow> w = t" if "m \<in> set (ns @ [n])" "sn_target m = Some w" for m w
    using that assms(2,3) by (auto simp: in_targets)
  have old: "tainted rg (ns @ [n]) w \<Longrightarrow> w \<noteq> t \<Longrightarrow> tainted rg ns w" for w
  proof (induction rule: tainted.induct)
    case (tainted_source m w)
    then have "m \<in> set ns" using target [of m w] by auto
    then show ?case using tainted_source by (auto intro: tainted.tainted_source)
  next
    case (tainted_use m w u)
    then have "m \<in> set ns" using target [of m w] by auto
    then show ?case using tainted_use uses [of m u] by (auto intro: tainted.tainted_use)
  qed
  have new: "\<not> is_sanitizer (rg_sanitizers rg) (sn_label n) \<and>
      (is_source (rg_sources rg) (sn_label n) None \<or> (\<exists>u\<in>set (sn_uses n). tainted rg ns u))"
    if "tainted rg (ns @ [n]) t"
    using that
  proof (cases rule: tainted.cases)
    case (tainted_source m)
    then show ?thesis using target [of m t] by auto
  next
    case (tainted_use m u)
    then show ?thesis using target [of m t] old [of u] uses [of m u] by auto
  qed
  have conv: "tainted rg (ns @ [n]) t" if "\<not> is_sanitizer (rg_sanitizers rg) (sn_label n)"
      "is_source (rg_sources rg) (sn_label n) None \<or> (\<exists>u\<in>set (sn_uses n). tainted rg ns u)"
    using that assms(2) tainted_more [of rg ns _ "[n]"]
    by (auto intro: tainted.tainted_source [of n] tainted.tainted_use [of n])
  show ?thesis
  proof (cases "v = t")
    case True
    then show ?thesis using new conv by auto
  next
    case False
    then show ?thesis using old [of v] tainted_more [of rg ns v "[n]"] by auto
  qed
qed

lemma tainted_without_target: "sn_target n = None \<Longrightarrow> tainted rg (ns @ [n]) v \<longleftrightarrow> tainted rg ns v"
proof
  assume none: "sn_target n = None"
  show "tainted rg ns v" if "tainted rg (ns @ [n]) v"
    using that
  proof (induction rule: tainted.induct)
    case (tainted_source m t)
    then show ?case using none by (auto intro: tainted.tainted_source)
  next
    case (tainted_use m t u)
    then show ?case using none by (auto intro: tainted.tainted_use)
  qed
qed (rule tainted_more)

lemma state_from_uses_tainted:
  "st \<noteq> VT_TAINTED \<Longrightarrow> state_from_uses tns us st = VT_TAINTED \<longleftrightarrow>
     (\<exists>u\<in>set us. \<exists>p. dget tns (ssa_name u) = Some p \<and> tn_state p = VT_TAINTED)"
  by (induction us arbitrary: st) (auto split: option.splits)

definition marked :: "taint_nodes \<Rightarrow> ssa_var \<Rightarrow> bool" where
  "marked tns v \<longleftrightarrow> (\<exists>p. dget tns (ssa_name v) = Some p \<and> tn_state p = VT_TAINTED)"

lemma taint_step_simps:
  "sn_target n = None \<Longrightarrow> taint_step rg n tns = tns"
  "sn_target n = Some t \<Longrightarrow> taint_step rg n tns = dset tns (ssa_name t) (taint_node_of rg n t tns)"
  by (simp_all add: taint_step_def)

lemma marked_step:
  "sn_target n = Some t \<Longrightarrow> marked (taint_step rg n tns) v \<longleftrightarrow>
     (if v = t then \<not> is_sanitizer (rg_sanitizers rg) (sn_label n) \<and>
        (is_source (rg_sources rg) (sn_label n) None \<or> (\<exists>u\<in>set (sn_uses n). marked tns u))
      else marked tns v)"
  using ssa_name_inj [of v t]
  by (auto simp: marked_def taint_step_simps taint_node_of_def Let_def state_from_uses_tainted)

lemma marked_tainted:
  "distinct (targets ns) \<Longrightarrow> defined_before {} ns \<Longrightarrow> marked (fold (taint_step rg) ns []) v \<longleftrightarrow> tainted rg ns v"
proof (induction ns arbitrary: v rule: rev_induct)
  case Nil
  then show ?case by (auto simp: marked_def elim: tainted.cases)
next
  case (snoc n ns)
  have ih: "marked (fold (taint_step rg) ns []) v \<longleftrightarrow> tainted rg ns v" for v
    using snoc by (auto simp: targets_snoc defined_before_append)
  show ?case
  proof (cases "sn_target n")
    case None
    then show ?thesis using ih by (simp add: taint_step_simps tainted_without_target)
  next
    case (Some t)
    then have "t \<notin> set (targets ns)" using snoc.prems(1) by (simp add: targets_snoc)
    then show ?thesis
      using marked_step [OF Some, of rg "fold (taint_step rg) ns []" v] tainted_last [OF snoc.prems(2) Some] ih by simp
  qed
qed

section \<open>What the verdict depends on\<close>

definition assigned_labels :: "ssa_node list \<Rightarrow> string list" where
  "assigned_labels ns = map sn_label (filter (\<lambda>n. sn_target n \<noteq> None) ns)"

definition taint_node_ok :: "registries \<Rightarrow> string set \<Rightarrow> taint_node \<Rightarrow> bool" where
  "taint_node_ok rg labels n \<longleftrightarrow> tn_label n \<in> labels \<and>
     tn_is_source n = is_source (rg_sources rg) (tn_label n) None \<and> tn_is_sink n = is_sink (rg_sinks rg) (tn_label n) \<and>
     tn_is_sanitizer n = is_sanitizer (rg_sanitizers rg) (tn_label n) \<and>
     (tn_state n = VT_SANITIZED \<longrightarrow> (\<exists>l\<in>labels. is_sanitizer (rg_sanitizers rg) l)) \<and>
     (tn_state n = VT_TAINTED \<longrightarrow> (\<exists>l\<in>labels. is_source (rg_sources rg) l None))"

lemma state_from_uses_cases:
  "state_from_uses tns us st = x \<Longrightarrow> x = st \<or> (\<exists>kn\<in>set tns. tn_state (snd kn) = x)"
proof (induction us arbitrary: st)
  case (Cons u us)
  show ?case
  proof (cases "dget tns (ssa_name u)")
    case None
    then show ?thesis using Cons by simp
  next
    case (Some p)
    then have "(ssa_name u, p) \<in> set tns" by (rule map_of_SomeD)
    then show ?thesis using Cons.IH [of "if tn_state p = VT_SANITIZED then VT_SANITIZED else st"] Cons.prems Some
      by (auto split: if_splits intro: bexI [of _ "(ssa_name u, p)"])
  qed
qed simp

lemma taint_node_ok_more: "taint_node_ok rg A n \<Longrightarrow> A \<subseteq> B \<Longrightarrow> taint_node_ok rg B n"
  by (auto simp: taint_node_ok_def)

lemma set_dset: "set (dset d k v) \<subseteq> insert (k, v) (set d)"
  by (induction d) auto

lemma taint_nodes_ok:
  "kn \<in> set (fold (taint_step rg) ns []) \<Longrightarrow> taint_node_ok rg (set (assigned_labels ns)) (snd kn)"
proof (induction ns arbitrary: kn rule: rev_induct)
  case (snoc n ns)
  let ?tns = "fold (taint_step rg) ns []"
  have more: "set (assigned_labels ns) \<subseteq> set (assigned_labels (ns @ [n]))" by (auto simp: assigned_labels_def)
  have old: "taint_node_ok rg (set (assigned_labels (ns @ [n]))) (snd kn)" if "kn \<in> set ?tns" for kn
    using taint_node_ok_more [OF snoc.IH [OF that] more] .
  show ?case
  proof (cases "sn_target n")
    case None
    then show ?thesis using snoc.prems old by (simp add: taint_step_simps)
  next
    case (Some t)
    let ?st = "state_from_uses ?tns (sn_uses n) VT_UNTAINTED"
    have st: "?st = VT_SANITIZED \<longrightarrow> (\<exists>l\<in>set (assigned_labels (ns @ [n])). is_sanitizer (rg_sanitizers rg) l)"
      "?st = VT_TAINTED \<longrightarrow> (\<exists>l\<in>set (assigned_labels (ns @ [n])). is_source (rg_sources rg) l None)"
      using state_from_uses_cases [OF refl, of ?tns "sn_uses n" VT_UNTAINTED] old
      by (auto simp: taint_node_ok_def)
    have here: "sn_label n \<in> set (assigned_labels (ns @ [n]))" using Some by (simp add: assigned_labels_def)
    have p: "taint_node_ok rg (set (assigned_labels (ns @ [n]))) (taint_node_of rg n t ?tns)"
      unfolding taint_node_ok_def using st here by (auto simp: taint_node_of_def Let_def)
    have "kn = (ssa_name t, taint_node_of rg n t ?tns) \<or> kn \<in> set ?tns"
      using snoc.prems set_dset [of "ssa_name t" "taint_node_of rg n t ?tns" ?tns]
      by (auto simp: taint_step_simps(2) [OF Some] simp del: not_None_eq)
    then show ?thesis using old [of kn] p by auto
  qed
qed simp

lemma taint_nodes_cover:
  assumes "distinct (map ssa_name (targets ns))" "l \<in> set (assigned_labels ns)"
  shows "\<exists>kn\<in>set (fold (taint_step rg) ns []). tn_label (snd kn) = l"
proof -
  have "n \<in> set ns \<Longrightarrow> sn_target n = Some t \<Longrightarrow>
      \<exists>p. dget (fold (taint_step rg) ns []) (ssa_name t) = Some p \<and> tn_label p = sn_label n" for n t
    using assms(1)
  proof (induction ns rule: rev_induct)
    case (snoc m ns)
    show ?case
    proof (cases "n \<in> set ns")
      case True
      then have "t \<in> set (targets ns)" using snoc.prems(2) by (auto simp: in_targets)
      then have other: "ssa_name t \<noteq> ssa_name u" if "sn_target m = Some u" for u
      proof -
        have "ssa_name u \<notin> ssa_name ` set (targets ns)" using snoc.prems(3) that by (simp add: targets_snoc)
        then show ?thesis using imageI [OF \<open>t \<in> set (targets ns)\<close>, of ssa_name] by metis
      qed
      have ih: "\<exists>p. dget (fold (taint_step rg) ns []) (ssa_name t) = Some p \<and> tn_label p = sn_label n"
        using snoc.IH [OF True snoc.prems(2)] snoc.prems(3) by (simp add: targets_snoc)
      show ?thesis
      proof (cases "sn_target m")
        case None
        then show ?thesis using ih by (simp add: taint_step_simps)
      next
        case (Some u)
        then show ?thesis using ih other by (simp add: taint_step_simps taint_node_of_def Let_def)
      qed
    next
      case False
      then show ?thesis using snoc.prems by (simp add: taint_step_simps taint_node_of_def Let_def)
    qed
  qed simp
  moreover obtain n t where "n \<in> set ns" "sn_target n = Some t" "sn_label n = l"
    using assms(2) by (auto simp: assigned_labels_def)
  ultimately obtain p where "dget (fold (taint_step rg) ns []) (ssa_name t) = Some p" "tn_label p = l" by blast
  then show ?thesis by (intro bexI [of _ "(ssa_name t, p)"]) (auto dest: map_of_SomeD)
qed

lemma clean_nodes_exist:
  assumes "distinct (map ssa_name (targets ns))"
  shows "filter is_clean_node (map snd (fold (taint_step rg) ns [])) = [] \<longleftrightarrow>
    \<not> list_ex (is_sanitizer (rg_sanitizers rg)) (assigned_labels ns)"
    and "\<not> list_ex (is_sanitizer (rg_sanitizers rg)) (assigned_labels ns) \<or>
      list_ex is_clean_node (map snd (fold (taint_step rg) ns []))"
proof -
  have ok: "taint_node_ok rg (set (assigned_labels ns)) (snd kn)" if "kn \<in> set (fold (taint_step rg) ns [])" for kn
    using that by (rule taint_nodes_ok)
  have one: "\<exists>kn\<in>set (fold (taint_step rg) ns []). is_clean_node (snd kn)"
    if some: "list_ex (is_sanitizer (rg_sanitizers rg)) (assigned_labels ns)"
  proof -
    obtain l where l: "l \<in> set (assigned_labels ns)" "is_sanitizer (rg_sanitizers rg) l"
      using some by (auto simp: list_ex_iff Bex_def)
    obtain kn where "kn \<in> set (fold (taint_step rg) ns [])" "tn_label (snd kn) = l"
      using taint_nodes_cover [OF assms l(1)] by blast
    then show ?thesis using ok [of kn] l(2) by (intro bexI [of _ kn]) (simp_all add: taint_node_ok_def is_clean_node_def)
  qed
  have none: "\<not> is_clean_node (snd kn)"
    if "\<not> list_ex (is_sanitizer (rg_sanitizers rg)) (assigned_labels ns)" "kn \<in> set (fold (taint_step rg) ns [])" for kn
    using ok [OF that(2)] that(1) by (auto simp: taint_node_ok_def is_clean_node_def list_ex_iff)
  show "filter is_clean_node (map snd (fold (taint_step rg) ns [])) = [] \<longleftrightarrow>
    \<not> list_ex (is_sanitizer (rg_sanitizers rg)) (assigned_labels ns)"
    using one none by (fastforce simp: filter_empty_conv)
  show "\<not> list_ex (is_sanitizer (rg_sanitizers rg)) (assigned_labels ns) \<or>
      list_ex is_clean_node (map snd (fold (taint_step rg) ns []))"
    using one by (auto simp: list_ex_iff)
qed

text \<open>Where nothing is sanitized, a tainted node is one whose label names a source, or hangs on one.\<close>

lemma tainted_nodes_exist:
  assumes "distinct (map ssa_name (targets ns))"
  shows "filter is_tainted_node (map snd (fold (taint_step rg) ns [])) = [] \<longleftrightarrow>
    \<not> list_ex (\<lambda>l. is_source (rg_sources rg) l None) (assigned_labels ns)"
proof -
  have ok: "taint_node_ok rg (set (assigned_labels ns)) (snd kn)" if "kn \<in> set (fold (taint_step rg) ns [])" for kn
    using that by (rule taint_nodes_ok)
  have one: "\<exists>kn\<in>set (fold (taint_step rg) ns []). is_tainted_node (snd kn)"
    if some: "list_ex (\<lambda>l. is_source (rg_sources rg) l None) (assigned_labels ns)"
  proof -
    obtain l where l: "l \<in> set (assigned_labels ns)" "is_source (rg_sources rg) l None"
      using some by (auto simp: list_ex_iff Bex_def)
    obtain kn where "kn \<in> set (fold (taint_step rg) ns [])" "tn_label (snd kn) = l"
      using taint_nodes_cover [OF assms l(1)] by blast
    then show ?thesis using ok [of kn] l(2) by (intro bexI [of _ kn]) (simp_all add: taint_node_ok_def is_tainted_node_def)
  qed
  have none: "\<not> is_tainted_node (snd kn)"
    if "\<not> list_ex (\<lambda>l. is_source (rg_sources rg) l None) (assigned_labels ns)" "kn \<in> set (fold (taint_step rg) ns [])" for kn
    using ok [OF that(2)] that(1) by (auto simp: taint_node_ok_def is_tainted_node_def list_ex_iff)
  show ?thesis using one none by (fastforce simp: filter_empty_conv)
qed

lemma sinks_exist:
  assumes "distinct (map ssa_name (targets ns))"
  shows "fst (sink_nodes rg g (fold (taint_step rg) ns [])) = [] \<longleftrightarrow>
    \<not> list_ex (is_sink (rg_sinks rg)) (assigned_labels ns) \<and>
    \<not> list_ex (\<lambda>kn. is_sink (rg_sinks rg) (nd_label (snd kn))) (fg_nodes g)"
proof -
  have ok: "taint_node_ok rg (set (assigned_labels ns)) (snd kn)" if "kn \<in> set (fold (taint_step rg) ns [])" for kn
    using that by (rule taint_nodes_ok)
  have "filter tn_is_sink (map snd (fold (taint_step rg) ns [])) = [] \<longleftrightarrow>
      \<not> list_ex (is_sink (rg_sinks rg)) (assigned_labels ns)"
    using ok taint_nodes_cover [OF assms, of _ rg] by (fastforce simp: filter_empty_conv list_ex_iff taint_node_ok_def)
  then show ?thesis by (auto simp: sink_nodes_def Let_def filter_empty_conv list_ex_iff Bex_def)
qed

section \<open>The paths of a function\<close>

lemma keeps_paths [simp]:
  "tg_vulnerable_paths (taint_add_node n g) = tg_vulnerable_paths g" "tg_safe_paths (taint_add_node n g) = tg_safe_paths g"
  "tg_vulnerable_paths (connect_edge tns e g) = tg_vulnerable_paths g" "tg_safe_paths (connect_edge tns e g) = tg_safe_paths g"
  by (simp_all add: taint_add_node_def connect_edge_def taint_add_edge_def split: option.splits)

lemma folds_keep_paths [simp]:
  "tg_vulnerable_paths (fold (\<lambda>kn. taint_add_node (snd kn)) tns g) = tg_vulnerable_paths g"
  "tg_safe_paths (fold (\<lambda>kn. taint_add_node (snd kn)) tns g) = tg_safe_paths g"
  "tg_vulnerable_paths (fold taint_add_node ns g) = tg_vulnerable_paths g"
  "tg_safe_paths (fold taint_add_node ns g) = tg_safe_paths g"
  "tg_vulnerable_paths (fold (connect_edge tns) es g) = tg_vulnerable_paths g"
  "tg_safe_paths (fold (connect_edge tns) es g) = tg_safe_paths g"
proof -
  show "tg_vulnerable_paths (fold (\<lambda>kn. taint_add_node (snd kn)) tns g) = tg_vulnerable_paths g"
    "tg_safe_paths (fold (\<lambda>kn. taint_add_node (snd kn)) tns g) = tg_safe_paths g"
    by (induction tns arbitrary: g) simp_all
  show "tg_vulnerable_paths (fold taint_add_node ns g) = tg_vulnerable_paths g"
    "tg_safe_paths (fold taint_add_node ns g) = tg_safe_paths g"
    by (induction ns arbitrary: g) simp_all
  show "tg_vulnerable_paths (fold (connect_edge tns) es g) = tg_vulnerable_paths g"
    "tg_safe_paths (fold (connect_edge tns) es g) = tg_safe_paths g"
    by (induction es arbitrary: g) simp_all
qed

lemma evaluate_paths:
  "tg_vulnerable_paths (fold (evaluate_path rg tns) ps g) = [] \<longleftrightarrow>
     tg_vulnerable_paths g = [] \<and> (filter is_clean_node (map snd tns) = [] \<longrightarrow> ps = [])"
  "tg_safe_paths (fold (evaluate_path rg tns) ps g) = [] \<longleftrightarrow>
     tg_safe_paths g = [] \<and> (filter is_clean_node (map snd tns) \<noteq> [] \<longrightarrow> ps = [])"
  by (induction ps arbitrary: g; force simp: evaluate_path_def Let_def split: prod.splits)+

lemma function_paths:
  "tg_vulnerable_paths (analyze_function rg g s dfg) = [] \<longleftrightarrow>
     (filter is_clean_node (map snd (propagate_taint rg s)) = [] \<longrightarrow>
      filter is_tainted_node (map snd (propagate_taint rg s)) = [] \<or> fst (sink_nodes rg g (propagate_taint rg s)) = [])"
  "tg_safe_paths (analyze_function rg g s dfg) = [] \<longleftrightarrow>
     (filter is_clean_node (map snd (propagate_taint rg s)) \<noteq> [] \<longrightarrow>
      filter is_tainted_node (map snd (propagate_taint rg s)) = [] \<or> fst (sink_nodes rg g (propagate_taint rg s)) = [])"
proof -
  have product: "List.product xs ys = [] \<longleftrightarrow> xs = [] \<or> ys = []" for xs ys :: "taint_node list"
    by (induction xs) auto
  obtain snks more where sm: "sink_nodes rg g (propagate_taint rg s) = (snks, more)" by fastforce
  show "tg_vulnerable_paths (analyze_function rg g s dfg) = [] \<longleftrightarrow>
     (filter is_clean_node (map snd (propagate_taint rg s)) = [] \<longrightarrow>
      filter is_tainted_node (map snd (propagate_taint rg s)) = [] \<or> fst (sink_nodes rg g (propagate_taint rg s)) = [])"
    "tg_safe_paths (analyze_function rg g s dfg) = [] \<longleftrightarrow>
     (filter is_clean_node (map snd (propagate_taint rg s)) \<noteq> [] \<longrightarrow>
      filter is_tainted_node (map snd (propagate_taint rg s)) = [] \<or> fst (sink_nodes rg g (propagate_taint rg s)) = [])"
    unfolding analyze_function_def Let_def sm prod.case evaluate_paths product fst_conv
    by (simp_all add: empty_taint_graph_def)
qed

section \<open>Properties\<close>

text \<open>
  C18: On the single assignment form of every graph, and whatever the
  registries hold, a variable is marked TAINTED exactly when it is tainted in the sense of the
  inductive relation: its assignment names a source or uses a tainted variable, and names no
  sanitizer.
\<close>

theorem taint_states_exact:
  "(\<exists>p. dget (propagate_taint rg (build_ssa g)) (ssa_name v) = Some p \<and> tn_state p = VT_TAINTED) \<longleftrightarrow>
     tainted rg (sf_nodes (build_ssa g)) v"
  using marked_tainted [OF conjunct1 [OF build_ssa_names [of g, unfolded distinct_map]] build_ssa_defined, of rg v]
  by (simp add: propagate_taint_def marked_def)

text \<open>
  C17: Whether the engine reports a function vulnerable depends on three text searches and on
  nothing else. The first two go over the labels of its assignments: none names a sanitizer, and
  one names a source. The third goes over the labels of its assignments and, when none of them
  names a sink, over the labels of all nodes of its flow graph: one names a sink. So a call of a
  sink that assigns nothing is reported too. Whether the source reaches the sink plays no part,
  and a function never has both vulnerable and safe paths.
\<close>

theorem verdict_by_labels:
  "(tg_vulnerable_paths (analyze_function rg g (build_ssa g) dfg) \<noteq> [] \<longleftrightarrow>
      \<not> list_ex (is_sanitizer (rg_sanitizers rg)) (assigned_labels (sf_nodes (build_ssa g))) \<and>
      list_ex (\<lambda>l. is_source (rg_sources rg) l None) (assigned_labels (sf_nodes (build_ssa g))) \<and>
      (list_ex (is_sink (rg_sinks rg)) (assigned_labels (sf_nodes (build_ssa g))) \<or>
       list_ex (\<lambda>kn. is_sink (rg_sinks rg) (nd_label (snd kn))) (fg_nodes g))) \<and>
   \<not> (tg_vulnerable_paths (analyze_function rg g (build_ssa g) dfg) \<noteq> [] \<and>
      tg_safe_paths (analyze_function rg g (build_ssa g) dfg) \<noteq> [])"
  unfolding function_paths
  using clean_nodes_exist(1) [OF build_ssa_names [of g], of rg] tainted_nodes_exist [OF build_ssa_names [of g], of rg]
    sinks_exist [OF build_ssa_names [of g], of rg g]
  by (simp add: propagate_taint_def)

text \<open>The pattern of one of the sanitizers is part of the pattern of a sink.\<close>

lemma contains_trans: "contains p q \<Longrightarrow> contains q s \<Longrightarrow> contains p s"
  unfolding contains_iff by (metis append.assoc)

lemma print_is_sanitizer:
  assumes "contains ''print('' l"
  shows "is_sanitizer default_sanitizers l" "is_sink default_sinks l"
proof -
  have "contains ''int('' ''print(''" by code_simp
  then have "contains ''int('' l" using assms contains_trans by blast
  then show "is_sanitizer default_sanitizers l" by (simp add: is_sanitizer_def default_sanitizers_def any_in_def)
  show "is_sink default_sinks l" using assms by (simp add: is_sink_def default_sinks_def any_in_def)
qed

text \<open>
  With the default registries a function with an assignment whose
  right-hand side calls \<open>print(\<close>, a registered sink, has no vulnerable path at all: the text
  also contains \<open>int(\<close>, a registered sanitizer, and one sanitizer anywhere makes every path of
  the function safe.
\<close>

theorem print_silences_function:
  assumes "list_ex (contains ''print('') (assigned_labels (sf_nodes (build_ssa g)))"
  shows "tg_vulnerable_paths (analyze_function default_registries g (build_ssa g) dfg) = []"
proof -
  have "list_ex (is_sanitizer (rg_sanitizers default_registries)) (assigned_labels (sf_nodes (build_ssa g)))"
    using assms print_is_sanitizer(1) by (auto simp: list_ex_iff Bex_def default_registries_def)
  then show ?thesis
    using clean_nodes_exist(1) [OF build_ssa_names [of g], of default_registries]
    by (simp add: function_paths propagate_taint_def)
qed

definition no_dataflow :: "string dataflow_graph" where
  "no_dataflow = \<lparr> dg_function_name = ''f'', dg_file_path = ''a.php'', dg_nodes = [], dg_edges = [], dg_def_use = [],
     dg_use_def = [], dg_constants = [] \<rparr>"

definition two_assignments :: "string \<Rightarrow> string \<Rightarrow> flow_graph" where
  "two_assignments v w = build_flow
     \<lparr> irf_head = (branch_head 1)\<lparr> ir_id := ''a.php::f::1'' \<rparr>, irf_name = ''f'', irf_parameters = [],
       irf_body = [IRAssignment (branch_head 2) ''$x'' v ''='', IRAssignment (branch_head 3) ''$y'' w ''=''] \<rparr>"

theorem print_silences_function_witness:
  "tg_vulnerable_paths (analyze_function default_registries (two_assignments ''$_GET[1]'' ''print($x)'')
     (build_ssa (two_assignments ''$_GET[1]'' ''print($x)'')) no_dataflow) = []"
proof (rule print_silences_function)
  show "list_ex (contains ''print('') (assigned_labels (sf_nodes (build_ssa (two_assignments ''$_GET[1]'' ''print($x)''))))"
    by code_simp
qed

text \<open>The same function with another sink is reported, and so is one whose sink gets a constant.\<close>

lemma unrelated_sink_reported:
  "length (tg_vulnerable_paths (analyze_function default_registries (two_assignments ''$_GET[1]'' ''query(1)'')
     (build_ssa (two_assignments ''$_GET[1]'' ''query(1)'')) no_dataflow)) = 1"
  by code_simp

end
