(* ===== verification/Interprocedural.thy ===== *)
theory Interprocedural
  imports Taint
begin

text \<open>
  The taint analysis across functions of \<^verbatim>\<open>analysis/interprocedural/\<close>: function summaries and
  their cache, the mapping of arguments, and the engine that looks for calls from functions
  with tainted data to functions with sinks.
\<close>

section \<open>Summaries\<close>

record call_site =
  ct_caller_id :: string
  ct_callee_name :: string
  ct_arguments :: "string list"
  ct_keyword_args :: "(string, string) dict"
  ct_line :: int

type_synonym call_context = "string list"

definition context_push :: "call_context \<Rightarrow> string \<Rightarrow> call_context" where
  "context_push c fn = c @ [fn]"

definition context_contains :: "call_context \<Rightarrow> string \<Rightarrow> bool" where
  "context_contains c fn = (fn \<in> set c)"

record parameter_summary =
  px_param_name :: string
  px_index :: int
  px_is_tainted :: bool
  px_sanitized_by :: string

record return_summary =
  rs_is_tainted :: bool
  rs_sanitized_by :: string
  rs_passthrough_params :: "int list"

record function_summary =
  fs_function_name :: string
  fs_file_path :: string
  fs_parameters :: "(int, parameter_summary) dict"
  fs_return_summary :: return_summary
  fs_contains_source :: bool
  fs_contains_sink :: bool
  fs_contains_sanitizer :: bool
  fs_has_recursive_calls :: bool

text \<open>
  The lists of sources, sinks, sanitizers, tainted parameters and effects of a summary are never
  filled and left out.
\<close>

text \<open>What a node of the graph says about the value the function returns.\<close>

definition return_step :: "taint_node \<Rightarrow> bool \<times> string \<Rightarrow> bool \<times> string" where
  "return_step n st =
     (let (ret_tainted, sanitized_by) = st in
      if contains ''return'' (py_lower (tn_label n)) \<or> contains ''return'' (py_lower (tn_id n))
      then (if is_tainted_node n then (True, sanitized_by)
            else if is_clean_node n then (ret_tainted, tn_label n)
            else st)
      else st)"

definition build_summary :: "taint_graph \<Rightarrow> function_summary" where
  "build_summary tg =
     (let ns = map snd (tg_nodes tg);
          (ret_tainted, sanitized_by) = fold return_step ns (False, [])
      in \<lparr> fs_function_name = tg_function_name tg, fs_file_path = tg_file_path tg, fs_parameters = [],
           fs_return_summary = \<lparr> rs_is_tainted = ret_tainted, rs_sanitized_by = sanitized_by,
                                 rs_passthrough_params = [] \<rparr>,
           fs_contains_source = list_ex is_tainted_node ns, fs_contains_sink = list_ex tn_is_sink ns,
           fs_contains_sanitizer = list_ex is_clean_node ns, fs_has_recursive_calls = False \<rparr>)"

section \<open>The cache of summaries\<close>

datatype recursion_state = UNVISITED | VISITING | VISITED

record summary_cache =
  sc_cache :: "(string, function_summary) dict"
  sc_states :: "(string, recursion_state) dict"

definition empty_cache :: summary_cache where
  "empty_cache = \<lparr> sc_cache = [], sc_states = [] \<rparr>"

definition cache_put :: "function_summary \<Rightarrow> summary_cache \<Rightarrow> summary_cache" where
  "cache_put s c =
     c\<lparr> sc_cache := dset (sc_cache c) (fs_function_name s) s, sc_states := dset (sc_states c) (fs_function_name s) VISITED \<rparr>"

definition cache_get :: "summary_cache \<Rightarrow> string \<Rightarrow> function_summary option" where
  "cache_get c name = dget (sc_cache c) name"

definition cache_contains :: "summary_cache \<Rightarrow> string \<Rightarrow> bool" where
  "cache_contains c name = (name \<in> set (dkeys (sc_cache c)))"

definition cache_invalidate :: "string \<Rightarrow> summary_cache \<Rightarrow> summary_cache" where
  "cache_invalidate name c =
     c\<lparr> sc_cache := AList.delete name (sc_cache c), sc_states := AList.delete name (sc_states c) \<rparr>"

definition cache_get_state :: "summary_cache \<Rightarrow> string \<Rightarrow> recursion_state" where
  "cache_get_state c name = dget_default (sc_states c) name UNVISITED"

definition cache_set_state :: "string \<Rightarrow> recursion_state \<Rightarrow> summary_cache \<Rightarrow> summary_cache" where
  "cache_set_state name st c = c\<lparr> sc_states := dset (sc_states c) name st \<rparr>"

definition cache_clear :: "summary_cache \<Rightarrow> summary_cache" where
  "cache_clear c = c\<lparr> sc_cache := [], sc_states := [] \<rparr>"

definition cache_size :: "summary_cache \<Rightarrow> nat" where
  "cache_size c = length (sc_cache c)"

section \<open>Arguments and callees\<close>

definition map_positional :: "string list \<Rightarrow> (int, string) dict" where
  "map_positional args = map (\<lambda>(i, a). (int i, a)) (enumerate 0 args)"

definition map_keyword :: "(string, string) dict \<Rightarrow> int \<times> parameter_summary \<Rightarrow> (int, string) dict \<Rightarrow> (int, string) dict" where
  "map_keyword kws ip mapped =
     (case dget kws (px_param_name (snd ip)) of None \<Rightarrow> mapped | Some a \<Rightarrow> dset mapped (fst ip) a)"

definition map_arguments :: "call_site \<Rightarrow> (int, parameter_summary) dict \<Rightarrow> (int, string) dict" where
  "map_arguments cs params =
     (let mapped = map_positional (ct_arguments cs) in
      if ct_keyword_args cs = [] then mapped else fold (map_keyword (ct_keyword_args cs)) params mapped)"

text \<open>The identifiers of a call graph's nodes, when there is one.\<close>

definition resolve_callee :: "string \<Rightarrow> string list option \<Rightarrow> string" where
  "resolve_callee callee_name graph_ids =
     (case graph_ids of
        None \<Rightarrow> callee_name
      | Some ids \<Rightarrow> (case find (\<lambda>k. contains callee_name k) ids of Some k \<Rightarrow> k | None \<Rightarrow> callee_name))"

section \<open>The engine\<close>

record inter_path =
  ip_source_func :: string
  ip_sink_func :: string
  ip_call_chain :: "call_site list"
  ip_source_node :: "taint_node option"
  ip_sink_node :: "taint_node option"
  ip_category :: taint_category
  ip_is_vulnerable :: bool

record inter_graph =
  ig_function_summaries :: "(string, function_summary) dict"
  ig_vulnerable_paths :: "inter_path list"
  ig_safe_paths :: "inter_path list"

definition empty_inter_graph :: inter_graph where
  "empty_inter_graph = \<lparr> ig_function_summaries = [], ig_vulnerable_paths = [], ig_safe_paths = [] \<rparr>"

definition add_summary :: "function_summary \<Rightarrow> inter_graph \<Rightarrow> inter_graph" where
  "add_summary s g = g\<lparr> ig_function_summaries := dset (ig_function_summaries g) (fs_function_name s) s \<rparr>"

type_synonym engine_run = "summary_cache \<times> inter_graph"

definition compile_summary ::
  "(string, 'v dataflow_graph) dict \<Rightarrow> string \<times> taint_graph \<Rightarrow> engine_run \<Rightarrow> engine_run" where
  "compile_summary dfgs nt run =
     (case dget dfgs (fst nt) of
        None \<Rightarrow> run
      | Some _ \<Rightarrow> (let s = build_summary (snd nt) in (cache_put s (fst run), add_summary s (snd run))))"

text \<open>The summary in the cache and the one in the result are one object.\<close>

definition mark_recursive :: "string \<Rightarrow> engine_run \<Rightarrow> engine_run" where
  "mark_recursive name run =
     (let (c, g) = run in
      case cache_get c name of
        None \<Rightarrow> run
      | Some s \<Rightarrow>
          let s = s\<lparr> fs_has_recursive_calls := True \<rparr> in
          (c\<lparr> sc_cache := dset (sc_cache c) name s \<rparr>,
           if dget (ig_function_summaries g) name = None then g
           else g\<lparr> ig_function_summaries := dset (ig_function_summaries g) name s \<rparr>))"

definition record_call ::
  "string \<Rightarrow> taint_node \<Rightarrow> string \<Rightarrow> taint_graph \<Rightarrow> engine_run \<Rightarrow> engine_run" where
  "record_call current_fn source target_fn target_tg run =
     (let (c, g) = run;
          site = \<lparr> ct_caller_id = current_fn, ct_callee_name = target_fn, ct_arguments = [], ct_keyword_args = [],
                   ct_line = 1 \<rparr>;
          summary = cache_get c target_fn;
          has_sanitizer = (case summary of None \<Rightarrow> False | Some s \<Rightarrow> fs_contains_sanitizer s);
          has_sink = (case summary of None \<Rightarrow> False | Some s \<Rightarrow> fs_contains_sink s);
          sinks = filter tn_is_sink (map snd (tg_nodes target_tg));
          path = \<lparr> ip_source_func = current_fn, ip_sink_func = target_fn, ip_call_chain = [site],
                   ip_source_node = Some source, ip_sink_node = (case sinks of [] \<Rightarrow> None | n # _ \<Rightarrow> Some n),
                   ip_category = GENERIC, ip_is_vulnerable = \<not> has_sanitizer \<rparr>
      in if sinks \<noteq> [] \<or> has_sink
         then (c, if has_sanitizer then g\<lparr> ig_safe_paths := ig_safe_paths g @ [path] \<rparr>
                  else g\<lparr> ig_vulnerable_paths := ig_vulnerable_paths g @ [path] \<rparr>)
         else run)"

text \<open>A function counts as called when its name occurs anywhere in a label.\<close>

definition trace_target ::
  "string \<Rightarrow> taint_node \<Rightarrow> call_context \<Rightarrow> string \<Rightarrow> string \<times> taint_graph \<Rightarrow> engine_run \<Rightarrow> engine_run" where
  "trace_target current_fn source ctx label nt run =
     (let (target_fn, target_tg) = nt in
      if target_fn = current_fn then run
      else if contains target_fn label \<or> contains (target_fn @ ''('') label
      then (if context_contains ctx target_fn then mark_recursive target_fn run
            else record_call current_fn source target_fn target_tg run)
      else run)"

definition labels_to_check :: "(string, 'v dataflow_graph) dict \<Rightarrow> string \<Rightarrow> taint_graph \<Rightarrow> string list" where
  "labels_to_check dfgs current_fn tg =
     map (\<lambda>kn. tn_label (snd kn)) (tg_nodes tg) @
     (case dget dfgs current_fn of None \<Rightarrow> [] | Some d \<Rightarrow> map (\<lambda>kn. dn_label (snd kn)) (dg_nodes d))"

definition trace_function ::
  "(string, taint_graph) dict \<Rightarrow> (string, 'v dataflow_graph) dict \<Rightarrow> string \<times> taint_graph \<Rightarrow> engine_run \<Rightarrow> engine_run" where
  "trace_function tgs dfgs nt run =
     (let (current_fn, tg) = nt in
      case filter is_tainted_node (map snd (tg_nodes tg)) of
        [] \<Rightarrow> run
      | source # _ \<Rightarrow>
          fold (\<lambda>label. fold (trace_target current_fn source [current_fn] label) tgs)
            (labels_to_check dfgs current_fn tg) run)"

definition analyze_program ::
  "(string, taint_graph) dict \<Rightarrow> (string, 'v dataflow_graph) dict \<Rightarrow> summary_cache \<Rightarrow> engine_run" where
  "analyze_program tgs dfgs c =
     fold (trace_function tgs dfgs) tgs (fold (compile_summary dfgs) tgs (c, empty_inter_graph))"

section \<open>The summaries of a run\<close>

text \<open>The graphs of a run, as the passes make them: every function has its data flow graph too.\<close>

definition run_ok :: "(string, taint_graph) dict \<Rightarrow> (string, 'v dataflow_graph) dict \<Rightarrow> bool" where
  "run_ok tgs dfgs \<longleftrightarrow> distinct (dkeys tgs) \<and>
     list_all (\<lambda>(name, tg). tg_function_name tg = name \<and> name \<in> set (dkeys dfgs)) tgs"

lemma compiled_summaries:
  assumes "list_all (\<lambda>(name, tg). tg_function_name tg = name \<and> name \<in> set (dkeys dfgs)) tgs" "distinct (dkeys tgs)"
  shows "dget (sc_cache (fst (fold (compile_summary dfgs) tgs run))) k =
      (case dget tgs k of None \<Rightarrow> dget (sc_cache (fst run)) k | Some tg \<Rightarrow> Some (build_summary tg))"
    and "dget (ig_function_summaries (snd (fold (compile_summary dfgs) tgs run))) k =
      (case dget tgs k of None \<Rightarrow> dget (ig_function_summaries (snd run)) k | Some tg \<Rightarrow> Some (build_summary tg))"
    and "ig_vulnerable_paths (snd (fold (compile_summary dfgs) tgs run)) = ig_vulnerable_paths (snd run)"
    and "ig_safe_paths (snd (fold (compile_summary dfgs) tgs run)) = ig_safe_paths (snd run)"
proof -
  have step: "compile_summary dfgs (name, tg) run = (cache_put (build_summary tg) (fst run), add_summary (build_summary tg) (snd run))"
    "fs_function_name (build_summary tg) = name"
    if "tg_function_name tg = name" "name \<in> set (dkeys dfgs)" for name tg run
  proof -
    have "dget dfgs name \<noteq> None" using that(2) dget_None_iff [of dfgs name] by blast
    then show "compile_summary dfgs (name, tg) run = (cache_put (build_summary tg) (fst run), add_summary (build_summary tg) (snd run))"
      by (auto simp: compile_summary_def Let_def)
    show "fs_function_name (build_summary tg) = name" using that(1) by (simp add: build_summary_def Let_def split: prod.splits)
  qed
  have "dget (sc_cache (fst (fold (compile_summary dfgs) tgs run))) k =
      (case dget tgs k of None \<Rightarrow> dget (sc_cache (fst run)) k | Some tg \<Rightarrow> Some (build_summary tg)) \<and>
    dget (ig_function_summaries (snd (fold (compile_summary dfgs) tgs run))) k =
      (case dget tgs k of None \<Rightarrow> dget (ig_function_summaries (snd run)) k | Some tg \<Rightarrow> Some (build_summary tg)) \<and>
    ig_vulnerable_paths (snd (fold (compile_summary dfgs) tgs run)) = ig_vulnerable_paths (snd run) \<and>
    ig_safe_paths (snd (fold (compile_summary dfgs) tgs run)) = ig_safe_paths (snd run)"
    using assms
  proof (induction tgs arbitrary: run)
    case (Cons nt tgs)
    obtain name tg where nt: "nt = (name, tg)" by (cases nt)
    have head: "tg_function_name tg = name" "name \<in> set (dkeys dfgs)" and fresh: "name \<notin> set (dkeys tgs)"
      using Cons.prems by (simp_all add: nt)
    note s = step [OF head]
    have none: "dget tgs name = None" unfolding dget_None_iff by (rule fresh)
    note ih = Cons.IH [of "compile_summary dfgs nt run"]
    show ?case
      using ih Cons.prems by (cases "k = name"; cases "dget tgs k") (simp_all add: nt s none cache_put_def add_summary_def)
  qed simp
  then show "dget (sc_cache (fst (fold (compile_summary dfgs) tgs run))) k =
      (case dget tgs k of None \<Rightarrow> dget (sc_cache (fst run)) k | Some tg \<Rightarrow> Some (build_summary tg))"
    "dget (ig_function_summaries (snd (fold (compile_summary dfgs) tgs run))) k =
      (case dget tgs k of None \<Rightarrow> dget (ig_function_summaries (snd run)) k | Some tg \<Rightarrow> Some (build_summary tg))"
    "ig_vulnerable_paths (snd (fold (compile_summary dfgs) tgs run)) = ig_vulnerable_paths (snd run)"
    "ig_safe_paths (snd (fold (compile_summary dfgs) tgs run)) = ig_safe_paths (snd run)"
    by blast+
qed

section \<open>The paths of a run\<close>

type_synonym found_path = "string \<times> string \<times> call_site list"

definition found :: "inter_path list \<Rightarrow> found_path set" where
  "found ps = (\<lambda>p. (ip_source_func p, ip_sink_func p, ip_call_chain p)) ` set ps"

lemma found_simps [simp]:
  "found [] = {}"
  "found (ps @ [p]) = insert (ip_source_func p, ip_sink_func p, ip_call_chain p) (found ps)"
  by (auto simp: found_def)

text \<open>A step that leaves cache and summaries alone and adds paths.\<close>

definition adds_paths :: "found_path set \<Rightarrow> found_path set \<Rightarrow> engine_run \<Rightarrow> engine_run \<Rightarrow> bool" where
  "adds_paths V S run run' \<longleftrightarrow> fst run' = fst run \<and>
     ig_function_summaries (snd run') = ig_function_summaries (snd run) \<and>
     found (ig_vulnerable_paths (snd run')) = found (ig_vulnerable_paths (snd run)) \<union> V \<and>
     found (ig_safe_paths (snd run')) = found (ig_safe_paths (snd run)) \<union> S"

lemma adds_paths_refl: "adds_paths {} {} run run"
  by (simp add: adds_paths_def)

lemma adds_paths_trans:
  "adds_paths V S a b \<Longrightarrow> adds_paths V' S' b c \<Longrightarrow> adds_paths (V \<union> V') (S \<union> S') a c"
  by (simp add: adds_paths_def Un_assoc)

lemma adds_paths_fold:
  "(\<And>x run. x \<in> set xs \<Longrightarrow> fst run = c \<Longrightarrow> adds_paths (V x) (S x) run (f x run)) \<Longrightarrow> fst run = c \<Longrightarrow>
     adds_paths (\<Union>x\<in>set xs. V x) (\<Union>x\<in>set xs. S x) run (fold f xs run)"
proof (induction xs arbitrary: run)
  case (Cons x xs)
  have x: "adds_paths (V x) (S x) run (f x run)" by (rule Cons.prems(1)) (simp_all add: Cons.prems(2))
  then have "adds_paths (\<Union>x\<in>set xs. V x) (\<Union>x\<in>set xs. S x) (f x run) (fold f xs (f x run))"
    using Cons.prems by (intro Cons.IH) (simp_all add: adds_paths_def)
  then show ?case using adds_paths_trans [OF x] by simp
qed (simp add: adds_paths_refl)

definition one_site :: "string \<Rightarrow> string \<Rightarrow> call_site list" where
  "one_site f h =
     [\<lparr> ct_caller_id = f, ct_callee_name = h, ct_arguments = [], ct_keyword_args = [], ct_line = 1 \<rparr>]"

definition has_sink_node :: "taint_graph \<Rightarrow> bool" where
  "has_sink_node tg = list_ex (\<lambda>kn. tn_is_sink (snd kn)) (tg_nodes tg)"

definition has_clean_node :: "taint_graph \<Rightarrow> bool" where
  "has_clean_node tg = list_ex (\<lambda>kn. is_clean_node (snd kn)) (tg_nodes tg)"

definition has_tainted_node :: "taint_graph \<Rightarrow> bool" where
  "has_tainted_node tg = list_ex (\<lambda>kn. is_tainted_node (snd kn)) (tg_nodes tg)"

lemma build_summary_contains [simp]:
  "fs_contains_sink (build_summary tg) = has_sink_node tg"
  "fs_contains_sanitizer (build_summary tg) = has_clean_node tg"
  "fs_has_recursive_calls (build_summary tg) = False"
  by (simp_all add: build_summary_def Let_def has_sink_node_def has_clean_node_def list_ex_iff split: prod.splits)

lemma trace_target_adds:
  assumes "cache_get (fst run) h = Some (build_summary tg)"
  shows "adds_paths
    (if h \<noteq> f \<and> contains h label \<and> has_sink_node tg \<and> \<not> has_clean_node tg then {(f, h, one_site f h)} else {})
    (if h \<noteq> f \<and> contains h label \<and> has_sink_node tg \<and> has_clean_node tg then {(f, h, one_site f h)} else {})
    run (trace_target f source [f] label (h, tg) run)"
proof -
  have called: "contains h label \<or> contains (h @ ''('') label \<longleftrightarrow> contains h label"
    unfolding contains_iff by (metis append.assoc)
  have sinks: "filter tn_is_sink (map snd (tg_nodes tg)) = [] \<longleftrightarrow> \<not> has_sink_node tg"
    by (auto simp: filter_empty_conv has_sink_node_def list_ex_iff)
  have "record_call f source h tg run =
      (if has_sink_node tg
       then (fst run, if has_clean_node tg
                      then (snd run)\<lparr> ig_safe_paths := ig_safe_paths (snd run) @
                        [\<lparr> ip_source_func = f, ip_sink_func = h, ip_call_chain = one_site f h, ip_source_node = Some source,
                           ip_sink_node = (case filter tn_is_sink (map snd (tg_nodes tg)) of [] \<Rightarrow> None | n # _ \<Rightarrow> Some n),
                           ip_category = GENERIC, ip_is_vulnerable = False \<rparr>] \<rparr>
                      else (snd run)\<lparr> ig_vulnerable_paths := ig_vulnerable_paths (snd run) @
                        [\<lparr> ip_source_func = f, ip_sink_func = h, ip_call_chain = one_site f h, ip_source_node = Some source,
                           ip_sink_node = (case filter tn_is_sink (map snd (tg_nodes tg)) of [] \<Rightarrow> None | n # _ \<Rightarrow> Some n),
                           ip_category = GENERIC, ip_is_vulnerable = True \<rparr>] \<rparr>)
       else run)"
    using assms by (cases run) (simp add: record_call_def Let_def sinks one_site_def)
  then show ?thesis
    by (simp add: trace_target_def Let_def called context_contains_def adds_paths_def)
qed

definition calls_in :: "(string, 'v dataflow_graph) dict \<Rightarrow> string \<Rightarrow> taint_graph \<Rightarrow> string \<Rightarrow> bool" where
  "calls_in dfgs f tg h \<longleftrightarrow> list_ex (contains h) (labels_to_check dfgs f tg)"

definition crosses :: "(string, taint_graph) dict \<Rightarrow> (string, 'v dataflow_graph) dict \<Rightarrow> bool \<Rightarrow> string \<times> taint_graph \<Rightarrow> found_path set" where
  "crosses tgs dfgs clean nt =
     {(fst nt, h, one_site (fst nt) h) | h tg. (h, tg) \<in> set tgs \<and> h \<noteq> fst nt \<and> has_tainted_node (snd nt) \<and>
        calls_in dfgs (fst nt) (snd nt) h \<and> has_sink_node tg \<and> has_clean_node tg = clean}"

lemma trace_function_adds:
  assumes cache: "\<And>h tg. (h, tg) \<in> set tgs \<Longrightarrow> cache_get (fst run) h = Some (build_summary tg)"
  shows "adds_paths (crosses tgs dfgs False nt) (crosses tgs dfgs True nt) run (trace_function tgs dfgs nt run)"
proof -
  obtain f tf where nt: "nt = (f, tf)" by (cases nt)
  show ?thesis
  proof (cases "filter is_tainted_node (map snd (tg_nodes tf))")
    case Nil
    then have "\<not> has_tainted_node tf" by (auto simp: has_tainted_node_def filter_empty_conv list_ex_iff)
    then show ?thesis by (simp add: nt trace_function_def Nil crosses_def adds_paths_refl)
  next
    case (Cons source rest)
    then have "source \<in> set (filter is_tainted_node (map snd (tg_nodes tf)))" by (metis list.set_intros(1))
    then have tainted: "has_tainted_node tf" by (auto simp: has_tainted_node_def list_ex_iff)
    let ?hit = "\<lambda>clean label x. fst x \<noteq> f \<and> contains (fst x) label \<and> has_sink_node (snd x) \<and> has_clean_node (snd x) = clean"
    let ?W = "\<lambda>clean label x. if ?hit clean label x then {(f, fst x, one_site f (fst x))} else {}"
    have inner: "adds_paths (\<Union>x\<in>set tgs. ?W False label x) (\<Union>x\<in>set tgs. ?W True label x) r
        (fold (trace_target f source [f] label) tgs r)" if "fst r = fst run" for label r
    proof (rule adds_paths_fold [where c = "fst run"])
      fix x and r :: engine_run assume "x \<in> set tgs" "fst r = fst run"
      then show "adds_paths (?W False label x) (?W True label x) r (trace_target f source [f] label x r)"
        using trace_target_adds [of r "fst x" "snd x" f label source] cache [of "fst x" "snd x"] by simp
    qed (rule that)
    have outer: "adds_paths (\<Union>l\<in>set (labels_to_check dfgs f tf). \<Union>x\<in>set tgs. ?W False l x)
        (\<Union>l\<in>set (labels_to_check dfgs f tf). \<Union>x\<in>set tgs. ?W True l x) run
        (fold (\<lambda>label. fold (trace_target f source [f] label) tgs) (labels_to_check dfgs f tf) run)"
      by (rule adds_paths_fold [where c = "fst run"]) (rule inner, assumption, simp)
    have eq: "(\<Union>l\<in>set (labels_to_check dfgs f tf). \<Union>x\<in>set tgs. ?W clean l x) = crosses tgs dfgs clean nt" for clean
      unfolding crosses_def nt calls_in_def list_ex_iff using tainted by (fastforce split: if_splits)
    show ?thesis using outer unfolding eq by (simp add: nt trace_function_def Cons)
  qed
qed

lemma program_paths:
  assumes "run_ok tgs dfgs"
  shows "found (ig_vulnerable_paths (snd (analyze_program tgs dfgs c))) = (\<Union>nt\<in>set tgs. crosses tgs dfgs False nt)"
    and "found (ig_safe_paths (snd (analyze_program tgs dfgs c))) = (\<Union>nt\<in>set tgs. crosses tgs dfgs True nt)"
    and "dget (ig_function_summaries (snd (analyze_program tgs dfgs c))) k = map_option build_summary (dget tgs k)"
proof -
  have ok: "list_all (\<lambda>(name, tg). tg_function_name tg = name \<and> name \<in> set (dkeys dfgs)) tgs" "distinct (dkeys tgs)"
    using assms by (simp_all add: run_ok_def)
  let ?run = "fold (compile_summary dfgs) tgs (c, empty_inter_graph)"
  note compiled = compiled_summaries [OF ok, of "(c, empty_inter_graph)"]
  have cache: "cache_get (fst ?run) h = Some (build_summary tg)" if "(h, tg) \<in> set tgs" for h tg
    using compiled(1) [of h] that ok(2) by (simp add: cache_get_def)
  have "adds_paths (\<Union>nt\<in>set tgs. crosses tgs dfgs False nt) (\<Union>nt\<in>set tgs. crosses tgs dfgs True nt) ?run
      (analyze_program tgs dfgs c)"
    unfolding analyze_program_def
    by (rule adds_paths_fold [where c = "fst ?run"], rule trace_function_adds) (simp_all add: cache)
  then show "found (ig_vulnerable_paths (snd (analyze_program tgs dfgs c))) = (\<Union>nt\<in>set tgs. crosses tgs dfgs False nt)"
    "found (ig_safe_paths (snd (analyze_program tgs dfgs c))) = (\<Union>nt\<in>set tgs. crosses tgs dfgs True nt)"
    "dget (ig_function_summaries (snd (analyze_program tgs dfgs c))) k = map_option build_summary (dget tgs k)"
    using compiled(2-4) by (auto simp: adds_paths_def empty_inter_graph_def split: option.splits)
qed

section \<open>Properties\<close>

text \<open>
  C19: A run over the taint graphs of a program, whatever the cache held
  before, reports a vulnerable path from a function to another exactly when the first has a
  tainted node, the name of the second occurs somewhere in a label of the first, and the second
  has a sink and nothing sanitized; every path has one call site. The summaries are those of the
  functions as they were, so that no recursive call is ever recorded.
\<close>

theorem interprocedural_exact:
  assumes "run_ok tgs dfgs"
  shows "((\<exists>p. p \<in> set (ig_vulnerable_paths (snd (analyze_program tgs dfgs c))) \<and>
        ip_source_func p = f \<and> ip_sink_func p = h \<and> ip_call_chain p = chain) \<longleftrightarrow>
      chain = one_site f h \<and> h \<noteq> f \<and>
      (\<exists>tf th. (f, tf) \<in> set tgs \<and> (h, th) \<in> set tgs \<and> has_tainted_node tf \<and> calls_in dfgs f tf h \<and>
         has_sink_node th \<and> \<not> has_clean_node th)) \<and>
    dget (ig_function_summaries (snd (analyze_program tgs dfgs c))) k = map_option build_summary (dget tgs k) \<and>
    \<not> fs_has_recursive_calls (build_summary tg)"
proof -
  have "(\<exists>p. p \<in> set (ig_vulnerable_paths (snd (analyze_program tgs dfgs c))) \<and>
        ip_source_func p = f \<and> ip_sink_func p = h \<and> ip_call_chain p = chain) \<longleftrightarrow>
      (f, h, chain) \<in> found (ig_vulnerable_paths (snd (analyze_program tgs dfgs c)))"
    by (auto simp: found_def)
  also have "\<dots> \<longleftrightarrow> (\<exists>tf. (f, tf) \<in> set tgs \<and> (f, h, chain) \<in> crosses tgs dfgs False (f, tf))"
    unfolding program_paths(1) [OF assms] UN_iff Bex_def split_paired_Ex crosses_def by fastforce
  finally show ?thesis using program_paths(3) [OF assms, of c k] by (auto simp: crosses_def)
qed

definition one_node_graph :: "string \<Rightarrow> var_taint \<Rightarrow> bool \<Rightarrow> string \<Rightarrow> taint_graph" where
  "one_node_graph name st sink label = taint_add_node
     \<lparr> tn_id = ''a.php::assign::2'', tn_var_name = ''$x_1'', tn_state = st, tn_line = 2, tn_is_source = False,
       tn_is_sink = sink, tn_is_sanitizer = False, tn_label = label \<rparr> (empty_taint_graph name ''a.php'')"

text \<open>A function that passes a parameter of the request on, and one that queries.\<close>

definition demo_program :: "string \<Rightarrow> (string, taint_graph) dict" where
  "demo_program callee =
     [(''main'', one_node_graph ''main'' VT_TAINTED False ''$x_1 = run($_GET[1])''),
      (callee, one_node_graph callee VT_UNTAINTED True ''$x_1 = query($y)'')]"

definition demo_dataflow :: "string \<Rightarrow> (string, string dataflow_graph) dict" where
  "demo_dataflow callee = [(''main'', no_dataflow), (callee, no_dataflow)]"

lemma demo_program_ok: "run_ok (demo_program ''run'') (demo_dataflow ''run'')"
  by code_simp

theorem interprocedural_exact_witness:
  "\<exists>p. p \<in> set (ig_vulnerable_paths (snd (analyze_program (demo_program ''run'') (demo_dataflow ''run'') empty_cache))) \<and>
     ip_source_func p = ''main'' \<and> ip_sink_func p = ''run'' \<and> ip_call_chain p = one_site ''main'' ''run''"
proof -
  let ?tf = "one_node_graph ''main'' VT_TAINTED False ''$x_1 = run($_GET[1])''"
    and ?th = "one_node_graph ''run'' VT_UNTAINTED True ''$x_1 = query($y)''"
  have "has_tainted_node ?tf" "calls_in (demo_dataflow ''run'') ''main'' ?tf ''run''"
    "has_sink_node ?th" "\<not> has_clean_node ?th"
    by code_simp+
  moreover have "(''main'', ?tf) \<in> set (demo_program ''run'')" "(''run'', ?th) \<in> set (demo_program ''run'')"
    by (simp_all add: demo_program_def)
  ultimately show ?thesis
    using interprocedural_exact [OF demo_program_ok, of empty_cache "''main''" "''run''" "one_site ''main'' ''run''" "''run''" ?tf]
    by blast
qed

text \<open>A function nobody calls is reported when its name is part of some other text, here of \<open>$_GET\<close>.\<close>

lemma name_inside_text_reported:
  "map (\<lambda>p. (ip_source_func p, ip_sink_func p))
     (ig_vulnerable_paths (snd (analyze_program (demo_program ''GET'') (demo_dataflow ''GET'') empty_cache)))
   = [(''main'', ''GET'')]"
  by code_simp

end
