(* ===== verification/TaskContract.thy ===== *)
theory TaskContract
  imports TransitionMatrix
begin

text \<open>
  What a task repository (the interface \<open>TaskRepository\<close> of \<^verbatim>\<open>workers/repository.py\<close>) promises of
  the three operations a worker calls: assigning, completing and failing a task. The promise is a
  small machine over views of the tasks (state, attempts, lease version); the locale
  \<open>task_authority\<close> states that a repository refines it, and carries what follows for any
  interleaving of calls. The states and transitions of \<^verbatim>\<open>workers/task.py\<close> stand here as well.
\<close>

section \<open>States\<close>

datatype task_state =
    TS_PENDING | TS_QUEUED | TS_RUNNING | TS_FAILED_RETRYABLE | TS_COMPLETED | TS_FAILED | TS_CANCELLED

fun task_state_value :: "task_state \<Rightarrow> string" where
  "task_state_value TS_PENDING = ''PENDING''"
| "task_state_value TS_QUEUED = ''QUEUED''"
| "task_state_value TS_RUNNING = ''RUNNING''"
| "task_state_value TS_FAILED_RETRYABLE = ''FAILED_RETRYABLE''"
| "task_state_value TS_COMPLETED = ''COMPLETED''"
| "task_state_value TS_FAILED = ''FAILED''"
| "task_state_value TS_CANCELLED = ''CANCELLED''"

fun task_transitions :: "task_state \<Rightarrow> task_state list" where
  "task_transitions TS_PENDING = [TS_QUEUED]"
| "task_transitions TS_QUEUED = [TS_RUNNING, TS_CANCELLED]"
| "task_transitions TS_RUNNING = [TS_COMPLETED, TS_FAILED_RETRYABLE, TS_FAILED, TS_CANCELLED, TS_QUEUED]"
| "task_transitions TS_FAILED_RETRYABLE = [TS_QUEUED, TS_FAILED]"
| "task_transitions TS_COMPLETED = []"
| "task_transitions TS_FAILED = []"
| "task_transitions TS_CANCELLED = []"

definition terminal_task :: "task_state \<Rightarrow> bool" where
  "terminal_task s = (s \<in> {TS_COMPLETED, TS_FAILED, TS_CANCELLED})"

definition may_become :: "task_state \<Rightarrow> task_state \<Rightarrow> bool" where
  "may_become s t = (t \<in> set (task_transitions s))"

interpretation task_sm: transition_matrix may_become terminal_task
proof
  show "terminal_task s \<Longrightarrow> \<not> may_become s t" for s t
    by (auto simp: terminal_task_def may_become_def)
  show "\<not> may_become s s" for s by (cases s) (simp_all add: may_become_def)
qed

lemma task_state_value_inj: "task_state_value s = task_state_value t \<longleftrightarrow> s = t"
  by (cases s; cases t) simp_all

section \<open>The abstract machine\<close>

record task_view =
  tv_state :: task_state
  tv_attempts :: int
  tv_max_attempts :: int
  tv_lease :: int

type_synonym task_views = "string \<Rightarrow> task_view option"

datatype task_call =
    AssignCall string
  | CompleteCall string int
  | FailCall string int

fun call_task :: "task_call \<Rightarrow> string" where
  "call_task (AssignCall i) = i"
| "call_task (CompleteCall i v) = i"
| "call_task (FailCall i v) = i"

fun call_enabled :: "task_call \<Rightarrow> task_view \<Rightarrow> bool" where
  "call_enabled (AssignCall i) t =
     (tv_state t \<in> {TS_QUEUED, TS_PENDING} \<and> tv_attempts t < tv_max_attempts t)"
| "call_enabled (CompleteCall i v) t = (tv_state t = TS_RUNNING \<and> tv_lease t = v)"
| "call_enabled (FailCall i v) t = (tv_state t = TS_RUNNING \<and> tv_lease t = v)"

fun call_effect :: "task_call \<Rightarrow> task_view \<Rightarrow> task_view" where
  "call_effect (AssignCall i) t =
     t\<lparr> tv_state := TS_RUNNING, tv_attempts := tv_attempts t + 1, tv_lease := tv_lease t + 1 \<rparr>"
| "call_effect (CompleteCall i v) t = t\<lparr> tv_state := TS_COMPLETED, tv_lease := tv_lease t + 1 \<rparr>"
| "call_effect (FailCall i v) t =
     t\<lparr> tv_state := (if tv_attempts t \<ge> tv_max_attempts t then TS_FAILED else TS_QUEUED),
        tv_lease := tv_lease t + 1 \<rparr>"

definition spec_step :: "task_call \<Rightarrow> task_views \<Rightarrow> task_views \<Rightarrow> bool" where
  "spec_step c vs vs' =
     (\<exists>t. vs (call_task c) = Some t \<and> call_enabled c t \<and> vs' = vs(call_task c \<mapsto> call_effect c t))"

lemma spec_stepE:
  assumes "spec_step c vs vs'"
  obtains t where "vs (call_task c) = Some t" "call_enabled c t" "vs' = vs(call_task c \<mapsto> call_effect c t)"
  using assms by (auto simp: spec_step_def)

lemma effect_lease: "tv_lease (call_effect c t) = tv_lease t + 1"
  by (cases c) simp_all

lemma effect_max: "tv_max_attempts (call_effect c t) = tv_max_attempts t"
  by (cases c) simp_all

lemma effect_attempts:
  "call_enabled c t \<Longrightarrow> tv_attempts t \<le> tv_max_attempts t \<Longrightarrow>
     tv_attempts (call_effect c t) \<le> tv_max_attempts (call_effect c t)"
  by (cases c) simp_all

lemma enabled_live: "call_enabled c t \<Longrightarrow> \<not> terminal_task (tv_state t)"
  by (cases c) (auto simp: terminal_task_def)

text \<open>The commits of a task in a run: the lease versions under which a worker ended it.\<close>

fun commit_of :: "string \<Rightarrow> task_call \<Rightarrow> int list" where
  "commit_of i (AssignCall j) = []"
| "commit_of i (CompleteCall j v) = (if i = j then [v] else [])"
| "commit_of i (FailCall j v) = (if i = j then [v] else [])"

section \<open>Repositories that keep the promise\<close>

text \<open>
  A refused call leaves the state as it is; a run returns the accepted calls and the last state.
\<close>

fun run_calls :: "('c \<Rightarrow> 'db \<Rightarrow> 'db option) \<Rightarrow> 'c list \<Rightarrow> 'db \<Rightarrow> 'c list \<times> 'db" where
  "run_calls exec [] db = ([], db)"
| "run_calls exec (c # cs) db =
     (case exec c db of
        None \<Rightarrow> run_calls exec cs db
      | Some db' \<Rightarrow> let (acc, r) = run_calls exec cs db' in (c # acc, r))"

text \<open>
  A repository is a state with views of its tasks and a call that either answers with a new state
  or is refused. Calls carry whatever the operation takes (worker, clock readings, fresh
  identifiers); \<open>kind\<close> forgets it.
\<close>

locale task_authority =
  fixes view :: "'db \<Rightarrow> task_views"
    and exec :: "'c \<Rightarrow> 'db \<Rightarrow> 'db option"
    and kind :: "'c \<Rightarrow> task_call"
  assumes refines: "exec c db = Some db' \<Longrightarrow> spec_step (kind c) (view db) (view db')"
begin

lemma exec_other: "exec c db = Some db' \<Longrightarrow> call_task (kind c) \<noteq> i \<Longrightarrow> view db' i = view db i"
  using refines by (fastforce elim!: spec_stepE)

lemma exec_task:
  assumes "exec c db = Some db'" "view db i = Some t" "call_task (kind c) = i"
  shows "call_enabled (kind c) t \<and> view db' i = Some (call_effect (kind c) t)"
  using refines [OF assms(1)] assms(2,3) by (auto elim!: spec_stepE)

lemma exec_view:
  assumes "exec c db = Some db'" "view db i = Some t"
  obtains (same) "view db' i = Some t" "call_task (kind c) \<noteq> i"
    | (moved) "call_task (kind c) = i" "call_enabled (kind c) t" "view db' i = Some (call_effect (kind c) t)"
  using assms exec_other exec_task by (cases "call_task (kind c) = i") auto

text \<open>The lease version counts the accepted calls of the task.\<close>

lemma run_lease:
  "run_calls exec cs db = (acc, db') \<Longrightarrow> view db i = Some t \<Longrightarrow>
     \<exists>t'. view db' i = Some t' \<and>
       tv_lease t' = tv_lease t + int (length [c \<leftarrow> acc. call_task (kind c) = i])"
proof (induction cs arbitrary: db acc t)
  case (Cons c cs)
  show ?case
  proof (cases "exec c db")
    case (Some db1)
    obtain a1 where a1: "run_calls exec cs db1 = (a1, db')" "acc = c # a1"
      using Cons.prems(1) Some by (auto split: prod.splits)
    show ?thesis using Some Cons.prems(2)
    proof (cases rule: exec_view)
      case same
      from Cons.IH [OF a1(1) same(1)] same(2) a1(2) show ?thesis by auto
    next
      case moved
      from Cons.IH [OF a1(1) moved(3)] moved(1) a1(2) show ?thesis
        by (auto simp: effect_lease)
    qed
  qed (use Cons in auto)
qed simp

lemma run_attempts:
  "run_calls exec cs db = (acc, db') \<Longrightarrow> view db i = Some t \<Longrightarrow> tv_attempts t \<le> tv_max_attempts t \<Longrightarrow>
     \<exists>t'. view db' i = Some t' \<and> tv_max_attempts t' = tv_max_attempts t \<and> tv_attempts t' \<le> tv_max_attempts t"
proof (induction cs arbitrary: db acc t)
  case (Cons c cs)
  show ?case
  proof (cases "exec c db")
    case (Some db1)
    obtain a1 where a1: "run_calls exec cs db1 = (a1, db')"
      using Cons.prems(1) Some by (auto split: prod.splits)
    show ?thesis using Some Cons.prems(2)
    proof (cases rule: exec_view)
      case same
      from Cons.IH [OF a1 same(1) Cons.prems(3)] show ?thesis .
    next
      case moved
      from Cons.IH [OF a1 moved(3) effect_attempts [OF moved(2) Cons.prems(3)]]
      show ?thesis by (simp add: effect_max)
    qed
  qed (use Cons in auto)
qed auto

lemma run_terminal:
  "run_calls exec cs db = (acc, db') \<Longrightarrow> view db i = Some t \<Longrightarrow> terminal_task (tv_state t) \<Longrightarrow>
     view db' i = Some t \<and> [c \<leftarrow> acc. call_task (kind c) = i] = []"
proof (induction cs arbitrary: db acc)
  case (Cons c cs)
  show ?case
  proof (cases "exec c db")
    case (Some db1)
    obtain a1 where a1: "run_calls exec cs db1 = (a1, db')" "acc = c # a1"
      using Cons.prems(1) Some by (auto split: prod.splits)
    show ?thesis using Some Cons.prems(2)
    proof (cases rule: exec_view)
      case same
      with Cons.IH [OF a1(1) same(1) Cons.prems(3)] a1(2) show ?thesis by simp
    next
      case moved
      with enabled_live Cons.prems(3) show ?thesis by blast
    qed
  qed (use Cons in auto)
qed simp

text \<open>The versions under which a task is committed, in order, lie between its first and last lease.\<close>

lemma run_commits:
  "run_calls exec cs db = (acc, db') \<Longrightarrow> view db i = Some t \<Longrightarrow>
     sorted_wrt (<) (concat (map (commit_of i \<circ> kind) acc)) \<and>
     (\<forall>v \<in> set (concat (map (commit_of i \<circ> kind) acc)). tv_lease t \<le> v)"
proof (induction cs arbitrary: db acc t)
  case (Cons c cs)
  show ?case
  proof (cases "exec c db")
    case (Some db1)
    obtain a1 where a1: "run_calls exec cs db1 = (a1, db')" "acc = c # a1"
      using Cons.prems(1) Some by (auto split: prod.splits)
    show ?thesis using Some Cons.prems(2)
    proof (cases rule: exec_view)
      case same
      from same(2) have "commit_of i (kind c) = []" by (cases "kind c") auto
      with Cons.IH [OF a1(1) same(1)] a1(2) show ?thesis by simp
    next
      case moved
      note ih = Cons.IH [OF a1(1) moved(3), unfolded effect_lease]
      from moved(1,2) have "commit_of i (kind c) = [] \<or> commit_of i (kind c) = [tv_lease t]"
        by (cases "kind c") auto
      with ih a1(2) show ?thesis by fastforce
    qed
  qed (use Cons in auto)
qed simp

lemma commits_once:
  assumes "run_calls exec cs db = (acc, db')" "view db i = Some t"
  shows "distinct (concat (map (commit_of i \<circ> kind) acc))"
  using run_commits [OF assms] by (simp add: strict_sorted_iff)

end

end
