(* ===== verification/TaskDomain.thy ===== *)
theory TaskDomain
  imports TaskContract Complex_Main "HOL-Library.Multiset"
begin

text \<open>
  Remediation tasks of \<^verbatim>\<open>workers/task.py\<close> with their leases and lease versions (the states are in
  \<open>TaskContract\<close>); the queue of \<^verbatim>\<open>workers/queue.py\<close> and the repository of \<^verbatim>\<open>workers/repository.py\<close> that
  keep them in memory. Every operation runs under the object's lock, as one step. The readings
  of the monotonic clock are arguments.
\<close>

datatype task_error =
    TaskValueError | StaleLeaseVersion | InvalidTaskState | WorkerFenced | InvalidWorkerState
  | TaskAttributeError | TaskIntegrityError | QueueCapacityExceeded | FencedLeader
  | AuditChainTampered | NoWorkersAvailable

section \<open>Tasks\<close>

record task =
  rt_task_id :: string
  rt_finding_id :: string
  rt_approval_token_id :: string
  rt_token :: string
  rt_fingerprint :: string
  rt_state :: task_state
  rt_attempts :: int
  rt_max_attempts :: int
  rt_lease_seconds :: int
  rt_started_at :: "real option"
  rt_error_message :: "string option"
  rt_receipt_id :: "string option"
  rt_receipt_fingerprint :: "string option"
  rt_verification_status :: "string option"
  rt_lease_version :: int

definition new_task ::
  "string \<Rightarrow> string \<Rightarrow> string \<Rightarrow> string \<Rightarrow> string \<Rightarrow> task_state \<Rightarrow> int \<Rightarrow> int \<Rightarrow> int \<Rightarrow> task" where
  "new_task task_id finding approval token fingerprint st attempts max_attempts lease_seconds =
     \<lparr> rt_task_id = task_id, rt_finding_id = finding, rt_approval_token_id = approval, rt_token = token,
       rt_fingerprint = fingerprint, rt_state = st, rt_attempts = attempts, rt_max_attempts = max_attempts,
       rt_lease_seconds = lease_seconds, rt_started_at = None, rt_error_message = None, rt_receipt_id = None,
       rt_receipt_fingerprint = None, rt_verification_status = None, rt_lease_version = 1 \<rparr>"

definition increment_lease_version :: "task \<Rightarrow> task" where
  "increment_lease_version t = t\<lparr> rt_lease_version := rt_lease_version t + 1 \<rparr>"

definition validate_lease_version :: "task \<Rightarrow> int \<Rightarrow> bool" where
  "validate_lease_version t v = (v = rt_lease_version t)"

definition transition_to :: "real \<Rightarrow> task_state \<Rightarrow> task \<Rightarrow> task_error + task" where
  "transition_to now new_state t =
     (if \<not> may_become (rt_state t) new_state then Inl TaskValueError
      else let t = t\<lparr> rt_state := new_state \<rparr> in
        if new_state = TS_RUNNING
        then Inr (t\<lparr> rt_started_at := Some now, rt_attempts := rt_attempts t + 1 \<rparr>)
        else if new_state \<in> {TS_COMPLETED, TS_FAILED, TS_CANCELLED, TS_QUEUED}
        then Inr (t\<lparr> rt_started_at := None \<rparr>)
        else Inr t)"

definition is_lease_expired :: "real \<Rightarrow> task \<Rightarrow> bool" where
  "is_lease_expired now t =
     (case rt_started_at t of
        None \<Rightarrow> False
      | Some s \<Rightarrow> rt_state t = TS_RUNNING \<and> now - s > real_of_int (rt_lease_seconds t))"

section \<open>The queue in memory\<close>

record task_queue =
  tq_main :: "string list"
  tq_processing :: "string list"
  tq_max_depth :: int

definition enqueue :: "string \<Rightarrow> task_queue \<Rightarrow> task_error + task_queue" where
  "enqueue task_id q =
     (if int (length (tq_main q)) \<ge> tq_max_depth q then Inl QueueCapacityExceeded
      else Inr (q\<lparr> tq_main := tq_main q @ [task_id] \<rparr>))"

definition dequeue :: "task_queue \<Rightarrow> task_queue \<times> string option" where
  "dequeue q =
     (case tq_main q of
        [] \<Rightarrow> (q, None)
      | x # xs \<Rightarrow> (q\<lparr> tq_main := xs, tq_processing := tq_processing q @ [x] \<rparr>, Some x))"

definition acknowledge :: "string \<Rightarrow> task_queue \<Rightarrow> task_queue" where
  "acknowledge task_id q =
     (if task_id \<in> set (tq_processing q) then q\<lparr> tq_processing := remove1 task_id (tq_processing q) \<rparr> else q)"

definition requeue :: "string \<Rightarrow> task_queue \<Rightarrow> task_queue" where
  "requeue task_id q = (acknowledge task_id q)\<lparr> tq_main := task_id # tq_main q \<rparr>"

section \<open>The repository in memory\<close>

type_synonym memory_repo = "(string, task) dict"

definition mem_create :: "task \<Rightarrow> memory_repo \<Rightarrow> task_error + memory_repo" where
  "mem_create t m =
     (if rt_task_id t \<in> set (dkeys m) then Inl TaskValueError else Inr (dset m (rt_task_id t) t))"

text \<open>
  Keyword arguments of an update, in the order of the call. The worker, the fencing tokens and the
  reason are names the database repository knows and a task in memory has not; any other name is
  \<open>KwOther\<close>.
\<close>

datatype task_kwarg =
    KwState task_state
  | KwFindingId string
  | KwApprovalTokenId string
  | KwToken string
  | KwFingerprint string
  | KwAttempts int
  | KwMaxAttempts int
  | KwLeaseSeconds int
  | KwStartedAt "real option"
  | KwErrorMessage "string option"
  | KwReceiptId "string option"
  | KwReceiptFingerprint "string option"
  | KwVerificationStatus "string option"
  | KwLeaseVersion int
  | KwAssignedWorker "string option"
  | KwWorkerFencingToken "int option"
  | KwRecoveryFencingToken "int option"
  | KwReason string
  | KwOther string

fun set_attr :: "task_kwarg \<Rightarrow> task \<Rightarrow> task_error + task" where
  "set_attr (KwState s) t = Inr t"
| "set_attr (KwFindingId x) t = Inr (t\<lparr> rt_finding_id := x \<rparr>)"
| "set_attr (KwApprovalTokenId x) t = Inr (t\<lparr> rt_approval_token_id := x \<rparr>)"
| "set_attr (KwToken x) t = Inr (t\<lparr> rt_token := x \<rparr>)"
| "set_attr (KwFingerprint x) t = Inr (t\<lparr> rt_fingerprint := x \<rparr>)"
| "set_attr (KwAttempts x) t = Inr (t\<lparr> rt_attempts := x \<rparr>)"
| "set_attr (KwMaxAttempts x) t = Inr (t\<lparr> rt_max_attempts := x \<rparr>)"
| "set_attr (KwLeaseSeconds x) t = Inr (t\<lparr> rt_lease_seconds := x \<rparr>)"
| "set_attr (KwStartedAt x) t = Inr (t\<lparr> rt_started_at := x \<rparr>)"
| "set_attr (KwErrorMessage x) t = Inr (t\<lparr> rt_error_message := x \<rparr>)"
| "set_attr (KwReceiptId x) t = Inr (t\<lparr> rt_receipt_id := x \<rparr>)"
| "set_attr (KwReceiptFingerprint x) t = Inr (t\<lparr> rt_receipt_fingerprint := x \<rparr>)"
| "set_attr (KwVerificationStatus x) t = Inr (t\<lparr> rt_verification_status := x \<rparr>)"
| "set_attr (KwLeaseVersion x) t = Inr (t\<lparr> rt_lease_version := x \<rparr>)"
| "set_attr (KwAssignedWorker x) t = Inl TaskAttributeError"
| "set_attr (KwWorkerFencingToken x) t = Inl TaskAttributeError"
| "set_attr (KwRecoveryFencingToken x) t = Inl TaskAttributeError"
| "set_attr (KwReason x) t = Inl TaskAttributeError"
| "set_attr (KwOther k) t = Inl TaskAttributeError"

text \<open>
  The loops over the keyword arguments write into the live object, so what an error leaves behind
  stays: they return the object together with the error, if any. \<open>update_task\<close> gives \<open>state\<close> to
  the state machine, \<open>atomic_transition\<close> skips it.
\<close>

fun set_attrs :: "task_kwarg list \<Rightarrow> task \<Rightarrow> task \<times> task_error option" where
  "set_attrs [] t = (t, None)"
| "set_attrs (k # ks) t =
     (case set_attr k t of Inl e \<Rightarrow> (t, Some e) | Inr t' \<Rightarrow> set_attrs ks t')"

definition update_attr :: "real \<Rightarrow> task_kwarg \<Rightarrow> task \<Rightarrow> task_error + task" where
  "update_attr now k t = (case k of KwState s \<Rightarrow> transition_to now s t | _ \<Rightarrow> set_attr k t)"

fun update_attrs :: "real \<Rightarrow> task_kwarg list \<Rightarrow> task \<Rightarrow> task \<times> task_error option" where
  "update_attrs now [] t = (t, None)"
| "update_attrs now (k # ks) t =
     (case update_attr now k t of Inl e \<Rightarrow> (t, Some e) | Inr t' \<Rightarrow> update_attrs now ks t')"

definition mem_update ::
  "real \<Rightarrow> string \<Rightarrow> task_kwarg list \<Rightarrow> memory_repo \<Rightarrow> memory_repo \<times> (task_error + task)" where
  "mem_update now task_id kwargs m =
     (case dget m task_id of
        None \<Rightarrow> (m, Inl TaskValueError)
      | Some t \<Rightarrow>
          let (t', err) = update_attrs now kwargs t in
          (dset m task_id t', case err of None \<Rightarrow> Inr t' | Some e \<Rightarrow> Inl e))"

definition mem_atomic_transition ::
  "real \<Rightarrow> string \<Rightarrow> int \<Rightarrow> task_state list \<Rightarrow> task_state \<Rightarrow> task_kwarg list \<Rightarrow> memory_repo
     \<Rightarrow> memory_repo \<times> (task_error + task)" where
  "mem_atomic_transition now task_id version states new_state kwargs m =
     (case dget m task_id of
        None \<Rightarrow> (m, Inl TaskValueError)
      | Some t \<Rightarrow>
          if rt_lease_version t \<noteq> version then (m, Inl StaleLeaseVersion)
          else if rt_state t \<notin> set states then (m, Inl InvalidTaskState)
          else case transition_to now new_state t of
              Inl e \<Rightarrow> (m, Inl e)
            | Inr t1 \<Rightarrow>
                let (t', err) = set_attrs kwargs t1 in
                (dset m task_id t', case err of None \<Rightarrow> Inr t' | Some e \<Rightarrow> Inl e))"

definition mem_assign :: "real \<Rightarrow> string \<Rightarrow> memory_repo \<Rightarrow> task_error + memory_repo \<times> task" where
  "mem_assign now task_id m =
     (case dget m task_id of
        None \<Rightarrow> Inl TaskValueError
      | Some t \<Rightarrow>
          if terminal_task (rt_state t) then Inl InvalidTaskState
          else if rt_attempts t \<ge> rt_max_attempts t then Inl InvalidTaskState
          else if rt_state t \<notin> {TS_QUEUED, TS_PENDING} then Inl InvalidTaskState
          else rbind (transition_to now TS_RUNNING t)
                 (\<lambda>t. let t = increment_lease_version t in Inr (dset m task_id t, t)))"

text \<open>\<open>if value: task.field = value\<close> on an optional string.\<close>

definition given :: "string option \<Rightarrow> string option \<Rightarrow> string option" where
  "given new old = (case new of Some (c # s) \<Rightarrow> Some (c # s) | _ \<Rightarrow> old)"

definition mem_complete ::
  "real \<Rightarrow> string \<Rightarrow> int \<Rightarrow> string option \<Rightarrow> string option \<Rightarrow> string option \<Rightarrow> memory_repo \<Rightarrow> task_error + memory_repo \<times> task" where
  "mem_complete now task_id version receipt receipt_fp status m =
     (case dget m task_id of
        None \<Rightarrow> Inl TaskValueError
      | Some t \<Rightarrow>
          if rt_lease_version t \<noteq> version then Inl StaleLeaseVersion
          else if rt_state t \<noteq> TS_RUNNING then Inl InvalidTaskState
          else rbind (transition_to now TS_COMPLETED t) (\<lambda>t.
            let t = increment_lease_version t;
                t = t\<lparr> rt_receipt_id := given receipt (rt_receipt_id t),
                       rt_receipt_fingerprint := given receipt_fp (rt_receipt_fingerprint t),
                       rt_verification_status := given status (rt_verification_status t) \<rparr>
            in Inr (dset m task_id t, t)))"

definition mem_record_failure ::
  "real \<Rightarrow> string \<Rightarrow> int \<Rightarrow> string \<Rightarrow> memory_repo \<Rightarrow> task_error + memory_repo \<times> task" where
  "mem_record_failure now task_id version msg m =
     (case dget m task_id of
        None \<Rightarrow> Inl TaskValueError
      | Some t \<Rightarrow>
          if rt_lease_version t \<noteq> version then Inl StaleLeaseVersion
          else if rt_state t \<noteq> TS_RUNNING then Inl InvalidTaskState
          else rbind (transition_to now (if rt_attempts t \<ge> rt_max_attempts t then TS_FAILED else TS_QUEUED)
                       (t\<lparr> rt_error_message := Some msg \<rparr>))
                 (\<lambda>t. let t = increment_lease_version t in Inr (dset m task_id t, t)))"

definition mem_active_by_fingerprint :: "string \<Rightarrow> memory_repo \<Rightarrow> task option" where
  "mem_active_by_fingerprint fp m =
     find (\<lambda>t. rt_fingerprint t = fp \<and> \<not> terminal_task (rt_state t)) (map snd m)"

text \<open>The loop stops once the list has \<open>limit\<close> tasks; the test comes after the append.\<close>

fun mem_list :: "task_state list option \<Rightarrow> int \<Rightarrow> task list \<Rightarrow> task list \<Rightarrow> task list" where
  "mem_list states limit [] res = res"
| "mem_list states limit (t # ts) res =
     (let res = (case states of
                   None \<Rightarrow> res @ [t]
                 | Some ss \<Rightarrow> if rt_state t \<in> set ss then res @ [t] else res)
      in if int (length res) \<ge> limit then res else mem_list states limit ts res)"

definition mem_list_tasks :: "task_state list option \<Rightarrow> int \<Rightarrow> memory_repo \<Rightarrow> task list" where
  "mem_list_tasks states limit m = mem_list states limit (map snd m) []"

section \<open>State changes\<close>

lemma transition_to_ok:
  assumes "transition_to now s t = Inr t'"
  shows "may_become (rt_state t) s" "rt_state t' = s" "rt_lease_version t' = rt_lease_version t"
    "rt_max_attempts t' = rt_max_attempts t" "rt_task_id t' = rt_task_id t"
    "rt_attempts t' = rt_attempts t + (if s = TS_RUNNING then 1 else 0)"
  using assms by (auto simp: transition_to_def Let_def split: if_splits)

lemma transition_to_returns: "may_become (rt_state t) s \<Longrightarrow> \<exists>t'. transition_to now s t = Inr t'"
  by (simp add: transition_to_def Let_def)

lemma increment_simps [simp]:
  "rt_lease_version (increment_lease_version t) = rt_lease_version t + 1"
  "rt_state (increment_lease_version t) = rt_state t"
  "rt_attempts (increment_lease_version t) = rt_attempts t"
  "rt_max_attempts (increment_lease_version t) = rt_max_attempts t"
  by (simp_all add: increment_lease_version_def)

text \<open>A started clock belongs to a running task; a clock that is not running never expires.\<close>

lemma expired_running: "is_lease_expired now t \<Longrightarrow> rt_state t = TS_RUNNING"
  by (auto simp: is_lease_expired_def split: option.splits)

lemma transition_to_clock:
  assumes "transition_to now s t = Inr t'" "s \<noteq> TS_RUNNING" "s \<noteq> TS_FAILED_RETRYABLE" "s \<noteq> TS_PENDING"
  shows "rt_started_at t' = None"
  using assms by (cases s) (auto simp: transition_to_def Let_def split: if_splits)

text \<open>
  Nothing but the state machine writes the state: an update whose keyword arguments name no state
  keeps it, so a terminal task stays in its state through every update.
\<close>

lemma set_attr_state: "set_attr k t = Inr t' \<Longrightarrow> rt_state t' = rt_state t"
  by (cases k) auto

lemma set_attrs_state: "set_attrs ks t = (t', e) \<Longrightarrow> rt_state t' = rt_state t"
  by (induction ks arbitrary: t) (auto dest: set_attr_state split: sum.splits)

lemma update_attr_state:
  "update_attr now k t = Inr t' \<Longrightarrow> rt_state t' = rt_state t \<or> may_become (rt_state t) (rt_state t')"
  by (cases k) (auto simp: update_attr_def dest: set_attr_state transition_to_ok)

lemma update_attrs_terminal:
  "terminal_task (rt_state t) \<Longrightarrow> update_attrs now ks t = (t', e) \<Longrightarrow> rt_state t' = rt_state t"
proof (induction ks arbitrary: t)
  case (Cons k ks)
  show ?case
  proof (cases "update_attr now k t")
    case (Inr t1)
    then have "rt_state t1 = rt_state t"
      using update_attr_state [OF Inr] task_sm.terminal_stuck [OF Cons.prems(1)] by blast
    with Cons.IH [of t1] Cons.prems Inr show ?thesis by simp
  qed (use Cons in auto)
qed simp

section \<open>The queue keeps its work\<close>

definition queue_bag :: "task_queue \<Rightarrow> string multiset" where
  "queue_bag q = mset (tq_main q) + mset (tq_processing q)"

lemma enqueue_ok:
  assumes "enqueue i q = Inr q'"
  shows "queue_bag q' = add_mset i (queue_bag q)" "int (length (tq_main q')) \<le> tq_max_depth q'"
  using assms by (auto simp: enqueue_def queue_bag_def split: if_splits)

lemma dequeue_ok:
  assumes "dequeue q = (q', r)"
  shows "queue_bag q' = queue_bag q" "r = Some i \<Longrightarrow> tq_main q = i # tq_main q' \<and> i \<in> set (tq_processing q')"
  using assms by (auto simp: dequeue_def queue_bag_def split: list.splits)

lemma acknowledge_ok:
  "queue_bag (acknowledge i q) = (if i \<in> set (tq_processing q) then queue_bag q - {#i#} else queue_bag q)"
  by (auto simp: acknowledge_def queue_bag_def)

lemma requeue_ok:
  "queue_bag (requeue i q) =
     (if i \<in> set (tq_processing q) then queue_bag q else add_mset i (queue_bag q))"
  by (auto simp: requeue_def acknowledge_def queue_bag_def)

text \<open>Requeueing ignores the bound: a full queue still grows.\<close>

lemma requeue_depth: "length (tq_main (requeue i q)) = Suc (length (tq_main q))"
  by (simp add: requeue_def)

section \<open>The repository keeps the promise\<close>

datatype memory_call =
    MemAssign real string
  | MemComplete real string int "string option" "string option" "string option"
  | MemFail real string int string

fun mem_kind :: "memory_call \<Rightarrow> task_call" where
  "mem_kind (MemAssign now i) = AssignCall i"
| "mem_kind (MemComplete now i v r f s) = CompleteCall i v"
| "mem_kind (MemFail now i v msg) = FailCall i v"

fun mem_call :: "memory_call \<Rightarrow> memory_repo \<Rightarrow> task_error + memory_repo \<times> task" where
  "mem_call (MemAssign now i) m = mem_assign now i m"
| "mem_call (MemComplete now i v r f s) m = mem_complete now i v r f s m"
| "mem_call (MemFail now i v msg) m = mem_record_failure now i v msg m"

definition mem_exec :: "memory_call \<Rightarrow> memory_repo \<Rightarrow> memory_repo option" where
  "mem_exec c m = (case mem_call c m of Inl e \<Rightarrow> None | Inr (m', t) \<Rightarrow> Some m')"

definition task_view_of :: "task \<Rightarrow> task_view" where
  "task_view_of t =
     \<lparr> tv_state = rt_state t, tv_attempts = rt_attempts t, tv_max_attempts = rt_max_attempts t,
       tv_lease = rt_lease_version t \<rparr>"

definition mem_view :: "memory_repo \<Rightarrow> task_views" where
  "mem_view m i = map_option task_view_of (dget m i)"

lemma mem_view_dset: "mem_view (dset m i t) = (mem_view m)(i \<mapsto> task_view_of t)"
  by (auto simp: mem_view_def)

lemma mem_view_Some: "dget m i = Some t \<Longrightarrow> mem_view m i = Some (task_view_of t)"
  by (simp add: mem_view_def)

definition accepted :: "task_call \<Rightarrow> memory_repo \<Rightarrow> memory_repo \<Rightarrow> bool" where
  "accepted c m m' =
     (\<exists>t t'. dget m (call_task c) = Some t \<and> call_enabled c (task_view_of t) \<and>
        m' = dset m (call_task c) t' \<and> task_view_of t' = call_effect c (task_view_of t))"

lemma accepted_spec: "accepted c m m' \<Longrightarrow> spec_step c (mem_view m) (mem_view m')"
  unfolding accepted_def spec_step_def using mem_view_Some mem_view_dset by metis

lemma receipt_view [simp]:
  "task_view_of (t\<lparr> rt_receipt_id := r, rt_receipt_fingerprint := f, rt_verification_status := s \<rparr>) = task_view_of t"
  by (simp add: task_view_of_def)

lemma mem_assign_accepted:
  assumes "mem_assign now i m = Inr (m', t')"
  shows "accepted (AssignCall i) m m'"
proof -
  obtain t t1 where t: "dget m i = Some t" "rt_attempts t < rt_max_attempts t"
      "rt_state t \<in> {TS_QUEUED, TS_PENDING}" "transition_to now TS_RUNNING t = Inr t1"
      "m' = dset m i (increment_lease_version t1)"
    using assms by (auto simp: mem_assign_def Let_def split: option.splits if_splits)
  from transition_to_ok [OF t(4)]
  have "task_view_of (increment_lease_version t1) = call_effect (AssignCall i) (task_view_of t)"
    by (simp add: task_view_of_def)
  moreover have "call_enabled (AssignCall i) (task_view_of t)"
    using t(2,3) by (simp add: task_view_of_def)
  ultimately show ?thesis unfolding accepted_def using t(1,5) by auto
qed

lemma mem_complete_accepted:
  assumes "mem_complete now i v r f s m = Inr (m', t')"
  shows "accepted (CompleteCall i v) m m'"
proof -
  obtain t t1 where t: "dget m i = Some t" "rt_lease_version t = v" "rt_state t = TS_RUNNING"
      "transition_to now TS_COMPLETED t = Inr t1" "m' = dset m i t'"
      "task_view_of t' = task_view_of (increment_lease_version t1)"
    using assms by (auto simp: mem_complete_def Let_def split: option.splits if_splits)
  from transition_to_ok [OF t(4)] t(6)
  have "task_view_of t' = call_effect (CompleteCall i v) (task_view_of t)"
    by (simp add: task_view_of_def)
  moreover have "call_enabled (CompleteCall i v) (task_view_of t)"
    using t(2,3) by (simp add: task_view_of_def)
  ultimately show ?thesis unfolding accepted_def using t(1,5) by auto
qed

lemma mem_fail_accepted:
  assumes "mem_record_failure now i v msg m = Inr (m', t')"
  shows "accepted (FailCall i v) m m'"
proof -
  obtain t t1 where t: "dget m i = Some t" "rt_lease_version t = v" "rt_state t = TS_RUNNING"
      "transition_to now (if rt_attempts t \<ge> rt_max_attempts t then TS_FAILED else TS_QUEUED)
         (t\<lparr> rt_error_message := Some msg \<rparr>) = Inr t1" "m' = dset m i (increment_lease_version t1)"
    using assms by (auto simp: mem_record_failure_def Let_def split: option.splits if_splits)
  from transition_to_ok [OF t(4)]
  have "task_view_of (increment_lease_version t1) = call_effect (FailCall i v) (task_view_of t)"
    by (simp add: task_view_of_def)
  moreover have "call_enabled (FailCall i v) (task_view_of t)"
    using t(2,3) by (simp add: task_view_of_def)
  ultimately show ?thesis unfolding accepted_def using t(1,5) by auto
qed

lemma mem_refines:
  assumes "mem_exec c m = Some m'"
  shows "spec_step (mem_kind c) (mem_view m) (mem_view m')"
proof -
  from assms obtain t' where "mem_call c m = Inr (m', t')"
    by (auto simp: mem_exec_def split: sum.splits)
  then have "accepted (mem_kind c) m m'"
    by (cases c) (auto intro: mem_assign_accepted mem_complete_accepted mem_fail_accepted)
  then show ?thesis by (rule accepted_spec)
qed

interpretation mem: task_authority mem_view mem_exec mem_kind
  by unfold_locales (rule mem_refines)

text \<open>
  The guard of \<open>assign_task\<close> lets a pending task through, the state machine does not: in memory a
  pending task is never assigned.
\<close>

lemma mem_pending_refused:
  "dget m i = Some t \<Longrightarrow> rt_state t = TS_PENDING \<Longrightarrow> returns (mem_assign now i m) = False"
  by (auto simp: mem_assign_def transition_to_def may_become_def terminal_task_def)

end
