(* ===== verification/TaskStore.thy ===== *)
theory TaskStore
  imports TaskDomain AiStore
begin

text \<open>
  The tables the task repository writes (\<^verbatim>\<open>persistence/models.py\<close>), the hash-chained audit log
  of \<^verbatim>\<open>events/audit_ledger.py\<close> and the staging of outbox events of \<^verbatim>\<open>events/outbox.py\<close>. SHA-256 is
  the argument \<open>sha\<close>; fresh identifiers and clock readings (microseconds since the epoch) are
  arguments too. Column widths are not enforced. A table with a unique column is a dictionary.
\<close>

section \<open>Rows\<close>

datatype worker_status = WS_ONLINE | WS_DRAINING | WS_DRAINED | WS_FENCED | WS_DEGRADED | WS_OFFLINE

record worker_row =
  wk_auth_token_hash :: string
  wk_hostname :: "string option"
  wk_status :: worker_status
  wk_fencing_token :: int
  wk_heartbeat_sequence :: int
  wk_last_heartbeat :: int

record task_row =
  ta_finding_id :: string
  ta_approval_token_id :: string
  ta_fingerprint :: string
  ta_state :: task_state
  ta_attempts :: int
  ta_max_attempts :: int
  ta_lease_seconds :: int
  ta_lease_version :: int
  ta_worker :: "string option"
  ta_worker_fencing_token :: "int option"
  ta_recovery_fencing_token :: "int option"
  ta_error_message :: "string option"
  ta_receipt_id :: "string option"
  ta_receipt_fingerprint :: "string option"
  ta_verification_status :: "string option"

record dead_letter_row =
  dl_event_id :: string
  dl_reason :: string
  dl_attempts :: int
  dl_max_attempts :: int
  dl_error_message :: string
  dl_worker_id :: string

record audit_row =
  au_id :: string
  au_task_id :: string
  au_previous_state :: string
  au_new_state :: string
  au_worker_id :: "string option"
  au_fencing_token :: "int option"
  au_lease_version :: int
  au_reason :: string
  au_previous_event_hash :: "string option"
  au_event_hash :: string
  au_created_at :: int

datatype outbox_status = OB_PENDING | OB_CLAIMED | OB_PUBLISHED | OB_FAILED

record outbox_row =
  ob_aggregate_id :: string
  ob_aggregate_type :: string
  ob_event_type :: string
  ob_payload :: string
  ob_event_hash :: "string option"
  ob_deduplication_key :: "string option"
  ob_aggregate_sequence :: int
  ob_status :: outbox_status
  ob_claimed_by :: "string option"
  ob_claimed_at :: "int option"
  ob_publisher_lease_token :: "string option"
  ob_attempt_count :: int
  ob_published_at :: "int option"
  ob_created_at :: int

type_synonym outbox = "(string, outbox_row) dict"

section \<open>The audit log\<close>

definition or_genesis :: "string option \<Rightarrow> string" where
  "or_genesis h = (case h of Some (c # s) \<Rightarrow> c # s | _ \<Rightarrow> ''GENESIS'')"

definition audit_text ::
  "string \<Rightarrow> string option \<Rightarrow> string \<Rightarrow> string \<Rightarrow> string option \<Rightarrow> int option \<Rightarrow> int \<Rightarrow> string \<Rightarrow> string" where
  "audit_text task_id prev_hash prev_state new_state worker fencing lease reason =
     task_id @ '':'' @ or_genesis prev_hash @ '':'' @ prev_state @ '':'' @ new_state @ '':''
     @ (case worker of None \<Rightarrow> '''' | Some w \<Rightarrow> w) @ '':''
     @ str_int (case fencing of None \<Rightarrow> 0 | Some f \<Rightarrow> f) @ '':'' @ str_int lease @ '':'' @ reason"

definition compute_hash ::
  "(string \<Rightarrow> string) \<Rightarrow> string \<Rightarrow> string option \<Rightarrow> string \<Rightarrow> string \<Rightarrow> string option \<Rightarrow> int option \<Rightarrow> int \<Rightarrow> string \<Rightarrow> string" where
  "compute_hash sha task_id prev_hash prev_state new_state worker fencing lease reason =
     sha (audit_text task_id prev_hash prev_state new_state worker fencing lease reason)"

definition audit_key :: "audit_row \<Rightarrow> int \<times> string" where
  "audit_key r = (au_created_at r, au_id r)"

text \<open>The rows of a task in the order of the queries (\<open>created_at\<close>, then \<open>id\<close>).\<close>

definition audit_rows :: "string \<Rightarrow> audit_row list \<Rightarrow> audit_row list" where
  "audit_rows task_id trail = sort_key audit_key [r \<leftarrow> trail. au_task_id r = task_id]"

definition latest_hash :: "string \<Rightarrow> audit_row list \<Rightarrow> string option" where
  "latest_hash task_id trail =
     (case rev (audit_rows task_id trail) of [] \<Rightarrow> None | r # _ \<Rightarrow> Some (au_event_hash r))"

definition record_transition ::
  "(string \<Rightarrow> string) \<Rightarrow> string \<Rightarrow> int \<Rightarrow> string \<Rightarrow> string \<Rightarrow> string \<Rightarrow> string option \<Rightarrow> int option \<Rightarrow> int \<Rightarrow> string
     \<Rightarrow> audit_row list \<Rightarrow> task_error + audit_row list" where
  "record_transition sha fresh_id now task_id prev_state new_state worker fencing lease reason trail =
     (let prev = latest_hash task_id trail in
      if fresh_id \<in> au_id ` set trail then Inl TaskIntegrityError
      else Inr (trail @ [\<lparr> au_id = fresh_id, au_task_id = task_id, au_previous_state = prev_state,
             au_new_state = new_state, au_worker_id = worker, au_fencing_token = fencing,
             au_lease_version = lease, au_reason = reason, au_previous_event_hash = prev,
             au_event_hash = compute_hash sha task_id prev prev_state new_state worker fencing lease reason,
             au_created_at = now \<rparr>]))"

definition row_hash :: "(string \<Rightarrow> string) \<Rightarrow> audit_row \<Rightarrow> string" where
  "row_hash sha r =
     compute_hash sha (au_task_id r) (au_previous_event_hash r) (au_previous_state r) (au_new_state r)
       (au_worker_id r) (au_fencing_token r) (au_lease_version r) (au_reason r)"

fun verify_rows :: "(string \<Rightarrow> string) \<Rightarrow> string option \<Rightarrow> audit_row list \<Rightarrow> task_error + bool" where
  "verify_rows sha prev [] = Inr True"
| "verify_rows sha prev (r # rs) =
     (if au_previous_event_hash r \<noteq> prev then Inl AuditChainTampered
      else if au_event_hash r \<noteq> row_hash sha r then Inl AuditChainTampered
      else verify_rows sha (Some (au_event_hash r)) rs)"

definition verify_chain_integrity :: "(string \<Rightarrow> string) \<Rightarrow> string \<Rightarrow> audit_row list \<Rightarrow> task_error + bool" where
  "verify_chain_integrity sha task_id trail = verify_rows sha None (audit_rows task_id trail)"

record history_entry =
  he_task_id :: string
  he_previous_state :: string
  he_new_state :: string
  he_worker_id :: "string option"
  he_fencing_token :: "int option"
  he_lease_version :: int
  he_reason :: string
  he_event_hash :: string
  he_created_at :: int

definition reconstruct_history :: "string \<Rightarrow> audit_row list \<Rightarrow> history_entry list" where
  "reconstruct_history task_id trail =
     map (\<lambda>r. \<lparr> he_task_id = au_task_id r, he_previous_state = au_previous_state r,
                he_new_state = au_new_state r, he_worker_id = au_worker_id r,
                he_fencing_token = au_fencing_token r, he_lease_version = au_lease_version r,
                he_reason = au_reason r, he_event_hash = au_event_hash r,
                he_created_at = au_created_at r \<rparr>)
       (audit_rows task_id trail)"

section \<open>The outbox\<close>

text \<open>\<open>json.dumps\<close> of a dictionary of strings with sorted keys, in its ASCII form.\<close>

definition hex_digit_char :: "nat \<Rightarrow> char" where
  "hex_digit_char d = ''0123456789abcdef'' ! d"

definition json_char :: "char \<Rightarrow> string" where
  "json_char c =
     (let n = of_char c :: nat in
      if n = 34 \<or> n = 92 then [char_of (92::nat), c]
      else if n = 10 then char_of (92::nat) # ''n''
      else if n = 13 then char_of (92::nat) # ''r''
      else if n = 9 then char_of (92::nat) # ''t''
      else if n = 12 then char_of (92::nat) # ''f''
      else if n = 8 then char_of (92::nat) # ''b''
      else if 32 \<le> n \<and> n \<le> 126 then [c]
      else char_of (92::nat) # ''u00'' @ [hex_digit_char (n div 16), hex_digit_char (n mod 16)])"

definition json_string :: "string \<Rightarrow> string" where
  "json_string s = CHR 0x22 # concat (map json_char s) @ [CHR 0x22]"

definition dumps :: "(string \<times> string) list \<Rightarrow> string" where
  "dumps d =
     ''{'' @ py_join '', '' (map (\<lambda>(k, v). json_string k @ '': '' @ json_string v) (sort_key fst d)) @ ''}''"

definition find_key :: "string \<Rightarrow> outbox \<Rightarrow> outbox_row option" where
  "find_key key ob = find (\<lambda>e. ob_deduplication_key e = Some key) (map snd ob)"

definition stage_event ::
  "(string \<Rightarrow> string) \<Rightarrow> string \<Rightarrow> int \<Rightarrow> string \<Rightarrow> string \<Rightarrow> string \<Rightarrow> (string \<times> string) list \<Rightarrow> int \<Rightarrow> string option
     \<Rightarrow> outbox \<Rightarrow> task_error + outbox" where
  "stage_event sha fresh_id now aggregate_type aggregate_id event_type payload lease key ob =
     (let payload_str = dumps payload;
          row = \<lparr> ob_aggregate_id = aggregate_id, ob_aggregate_type = aggregate_type,
                  ob_event_type = event_type, ob_payload = payload_str,
                  ob_event_hash = Some (sha (aggregate_type @ '':'' @ aggregate_id @ '':'' @ event_type @ '':''
                                             @ payload_str @ '':'' @ str_int lease)),
                  ob_deduplication_key = key, ob_aggregate_sequence = lease, ob_status = OB_PENDING,
                  ob_claimed_by = None, ob_claimed_at = None, ob_publisher_lease_token = None,
                  ob_attempt_count = 0, ob_published_at = None, ob_created_at = now \<rparr>;
          event_id = ''evt_'' @ fresh_id;
          taken = (case key of None \<Rightarrow> False | Some k \<Rightarrow> find_key k ob \<noteq> None)
      in if (case key of Some (c # k) \<Rightarrow> taken | _ \<Rightarrow> False) then Inr ob
         else if taken \<or> event_id \<in> set (dkeys ob) then Inl TaskIntegrityError
         else Inr (ob @ [(event_id, row)]))"

section \<open>The chain verifies as long as the clock moves forward\<close>

lemma sort_key_snoc:
  assumes "\<And>y. y \<in> set xs \<Longrightarrow> f y < f x"
  shows "sort_key f (xs @ [x]) = sort_key f xs @ [x]"
proof (rule properties_for_sort_key)
  show "mset (sort_key f xs @ [x]) = mset (xs @ [x])" by simp
  show "filter (\<lambda>y. f k = f y) (sort_key f xs @ [x]) = filter (\<lambda>y. f k = f y) (xs @ [x])" for k
    using sort_key_stable [of f "f k" xs] by (simp add: eq_commute [of "f k"])
  show "sorted (map f (sort_key f xs @ [x]))"
    using assms by (auto simp: sorted_append intro: less_imp_le)
qed

lemma audit_rows_other: "au_task_id r \<noteq> i \<Longrightarrow> audit_rows i (trail @ [r]) = audit_rows i trail"
  by (simp add: audit_rows_def)

lemma audit_rows_snoc:
  assumes "\<And>q. q \<in> set trail \<Longrightarrow> au_task_id q = au_task_id r \<Longrightarrow> audit_key q < audit_key r"
  shows "audit_rows (au_task_id r) (trail @ [r]) = audit_rows (au_task_id r) trail @ [r]"
  using assms by (auto simp: audit_rows_def intro: sort_key_snoc)

lemma set_audit_rows: "set (audit_rows i trail) = {r \<in> set trail. au_task_id r = i}"
  by (simp add: audit_rows_def)

definition last_hash :: "string option \<Rightarrow> audit_row list \<Rightarrow> string option" where
  "last_hash prev rs = (if rs = [] then prev else Some (au_event_hash (last rs)))"

lemma latest_hash_last: "latest_hash i trail = last_hash None (audit_rows i trail)"
  by (cases "audit_rows i trail" rule: rev_cases) (simp_all add: latest_hash_def last_hash_def)

lemma verify_rows_append:
  "verify_rows sha prev (rs @ us) =
     rbind (verify_rows sha prev rs) (\<lambda>_. verify_rows sha (last_hash prev rs) us)"
  by (induction rs arbitrary: prev) (auto simp: last_hash_def)

lemma verify_rows_True: "verify_rows sha prev rs = Inr b \<Longrightarrow> b"
  by (induction rs arbitrary: prev) (auto split: if_splits)

text \<open>Every prefix of a chain that verifies verifies: rows dropped at the end leave no trace.\<close>

lemma verify_rows_take:
  "verify_rows sha prev rs = Inr True \<Longrightarrow> verify_rows sha prev (take n rs) = Inr True"
proof -
  assume a: "verify_rows sha prev rs = Inr True"
  then have "rbind (verify_rows sha prev (take n rs))
      (\<lambda>_. verify_rows sha (last_hash prev (take n rs)) (drop n rs)) = Inr True"
    using verify_rows_append [of sha prev "take n rs" "drop n rs"] by simp
  then obtain b where b: "verify_rows sha prev (take n rs) = Inr b" by auto
  with verify_rows_True [OF b] show ?thesis by simp
qed

text \<open>The row a transition appends, and what stays of the others.\<close>

lemma record_transition_row:
  assumes "record_transition sha k now i p s w f l why trail = Inr trail'"
  obtains r where "trail' = trail @ [r]" "au_id r = k" "au_task_id r = i" "au_created_at r = now"
    "au_previous_state r = p" "au_new_state r = s" "au_worker_id r = w" "au_fencing_token r = f"
    "au_lease_version r = l" "au_reason r = why" "au_previous_event_hash r = latest_hash i trail"
    "au_event_hash r = row_hash sha r" "k \<notin> au_id ` set trail"
  by (rule that [of "last trail'"])
    (use assms in \<open>auto simp: record_transition_def Let_def row_hash_def split: if_splits\<close>)

lemma record_keeps_others:
  assumes "record_transition sha k now i p s w f l why trail = Inr trail'" "j \<noteq> i"
  shows "audit_rows j trail' = audit_rows j trail"
  using assms(1)
proof (rule record_transition_row)
  fix r assume "trail' = trail @ [r]" "au_task_id r = i"
  with audit_rows_other [of r j trail] assms(2) show ?thesis by simp
qed

lemma record_transition_verifies:
  assumes rec: "record_transition sha k now i p s w f l why trail = Inr trail'"
    and ok: "verify_chain_integrity sha i trail = Inr True"
    and clock: "\<And>q. q \<in> set trail \<Longrightarrow> au_task_id q = i \<Longrightarrow> au_created_at q < now"
  shows "verify_chain_integrity sha i trail' = Inr True"
  using rec
proof (rule record_transition_row)
  fix r
  assume r: "trail' = trail @ [r]" "au_task_id r = i" "au_created_at r = now"
    "au_previous_event_hash r = latest_hash i trail" "au_event_hash r = row_hash sha r"
  have "audit_rows i (trail @ [r]) = audit_rows i trail @ [r]"
    using audit_rows_snoc [of trail r] clock r(2,3) by (auto simp: audit_key_def less_prod_def)
  with r ok show ?thesis
    by (simp add: verify_chain_integrity_def verify_rows_append latest_hash_last)
qed

text \<open>
  What a verified chain pins down: two chains of the same length that verify and end in the same
  hash were computed from the same texts, or two of their texts collide.
\<close>

definition row_text :: "audit_row \<Rightarrow> string" where
  "row_text r =
     audit_text (au_task_id r) (au_previous_event_hash r) (au_previous_state r) (au_new_state r)
       (au_worker_id r) (au_fencing_token r) (au_lease_version r) (au_reason r)"

lemma verify_rows_snoc:
  "verify_rows sha prev (rs @ [r]) = Inr True \<longleftrightarrow>
     verify_rows sha prev rs = Inr True \<and> au_previous_event_hash r = last_hash prev rs \<and>
     au_event_hash r = sha (row_text r)"
  using verify_rows_True [of sha prev rs]
  by (auto simp: verify_rows_append row_hash_def row_text_def compute_hash_def)

text \<open>
  The text of a row determines its previous hash when the hashes hold no colon and the task is
  the same.
\<close>

definition plain_hash :: "string option \<Rightarrow> bool" where
  "plain_hash v =
     (case v of None \<Rightarrow> True | Some h \<Rightarrow> h \<noteq> [] \<and> CHR '':'' \<notin> set h \<and> h \<noteq> ''GENESIS'')"

lemma or_genesis_plain:
  assumes "plain_hash v"
  shows "or_genesis v = (case v of None \<Rightarrow> ''GENESIS'' | Some h \<Rightarrow> h)" "CHR '':'' \<notin> set (or_genesis v)"
  using assms by (auto simp: or_genesis_def plain_hash_def split: option.split list.split)

lemma or_genesis_inj: "plain_hash v \<Longrightarrow> plain_hash w \<Longrightarrow> or_genesis v = or_genesis w \<Longrightarrow> v = w"
  by (cases v; cases w) (simp_all add: or_genesis_plain plain_hash_def)

lemma row_text_previous:
  assumes eq: "row_text r = row_text q" and task: "au_task_id r = au_task_id q"
    and c: "plain_hash (au_previous_event_hash r)" and d: "plain_hash (au_previous_event_hash q)"
  shows "au_previous_event_hash r = au_previous_event_hash q"
proof -
  let ?g = "\<lambda>r. or_genesis (au_previous_event_hash r)"
  obtain x y where "au_task_id r @ CHR '':'' # ?g r @ CHR '':'' # x
      = au_task_id q @ CHR '':'' # ?g q @ CHR '':'' # y"
    using eq unfolding row_text_def audit_text_def by auto
  then have "?g r @ CHR '':'' # x = ?g q @ CHR '':'' # y" using task by simp
  then have "?g r = ?g q"
    using split_at_first [OF or_genesis_plain(2) [OF c] or_genesis_plain(2) [OF d]] by blast
  then show ?thesis by (rule or_genesis_inj [OF c d])
qed

definition hex_hash :: "(string \<Rightarrow> string) \<Rightarrow> bool" where
  "hex_hash sha \<longleftrightarrow> (\<forall>x. sha x \<noteq> [] \<and> set (sha x) \<subseteq> set ''0123456789abcdef'')"

lemma hex_hash_plain:
  assumes "hex_hash sha"
  shows "plain_hash (Some (sha x))"
proof -
  from assms have h: "sha x \<noteq> []" "set (sha x) \<subseteq> set ''0123456789abcdef''" by (simp_all add: hex_hash_def)
  then have "CHR '':'' \<notin> set (sha x)" "CHR ''G'' \<notin> set (sha x)" by auto
  moreover from this(2) have "sha x \<noteq> ''GENESIS''" by (metis list.set_intros(1))
  ultimately show ?thesis using h(1) by (simp add: plain_hash_def)
qed

lemma verify_last_hash:
  "hex_hash sha \<Longrightarrow> verify_rows sha None rs = Inr True \<Longrightarrow> plain_hash (last_hash None rs)"
  by (cases rs rule: rev_cases) (auto simp: last_hash_def verify_rows_snoc hex_hash_plain plain_hash_def [of None])

lemma chains_agree:
  assumes "hex_hash sha"
  shows "length rs = length us \<Longrightarrow> verify_rows sha None rs = Inr True \<Longrightarrow> verify_rows sha None us = Inr True \<Longrightarrow>
     list_all (\<lambda>r. au_task_id r = i) rs \<Longrightarrow> list_all (\<lambda>r. au_task_id r = i) us \<Longrightarrow>
     last_hash None rs = last_hash None us \<Longrightarrow>
     map row_text rs = map row_text us \<or> (\<exists>x y. x \<noteq> y \<and> sha x = sha y)"
proof (induction rs arbitrary: us rule: rev_induct)
  case (snoc r rs)
  obtain q qs where us: "us = qs @ [q]" using snoc.prems(1) by (cases us rule: rev_cases) auto
  from snoc.prems us have r: "verify_rows sha None rs = Inr True"
      "au_previous_event_hash r = last_hash None rs" "au_event_hash r = sha (row_text r)"
    and q: "verify_rows sha None qs = Inr True"
      "au_previous_event_hash q = last_hash None qs" "au_event_hash q = sha (row_text q)"
    by (simp_all add: verify_rows_snoc)
  have same: "sha (row_text r) = sha (row_text q)"
    using snoc.prems(6) us r(3) q(3) by (simp add: last_hash_def)
  show ?case
  proof (cases "row_text r = row_text q")
    case True
    have "au_previous_event_hash r = au_previous_event_hash q"
    proof (rule row_text_previous [OF True])
      show "au_task_id r = au_task_id q" using snoc.prems(4,5) us by simp
      show "plain_hash (au_previous_event_hash r)" "plain_hash (au_previous_event_hash q)"
        using verify_last_hash [OF assms] r(1,2) q(1,2) by simp_all
    qed
    with snoc.IH [of qs] snoc.prems us r q True show ?thesis by auto
  qed (use same in blast)
qed simp

section \<open>Staging an event\<close>

lemma find_key_None: "find_key k ob = None \<longleftrightarrow> (\<forall>e \<in> snd ` set ob. ob_deduplication_key e \<noteq> Some k)"
  by (auto simp: find_key_def find_None_iff)

text \<open>A staged event with a fresh key is a new pending row; a used key stages nothing.\<close>

lemma stage_event_cases:
  assumes "stage_event sha k now ty i ev payload lease (Some (c # key)) ob = Inr ob'"
  obtains (used) "find_key (c # key) ob \<noteq> None" "ob' = ob"
    | (staged) e where "find_key (c # key) ob = None" "''evt_'' @ k \<notin> set (dkeys ob)" "ob' = ob @ [(''evt_'' @ k, e)]"
        "ob_aggregate_id e = i" "ob_event_type e = ev" "ob_aggregate_sequence e = lease"
        "ob_deduplication_key e = Some (c # key)" "ob_status e = OB_PENDING" "ob_created_at e = now"
  using assms by (auto simp: stage_event_def Let_def split: if_splits)

end
