(* ===== verification/TaskRepo.thy ===== *)
theory TaskRepo
  imports TaskStore
begin

text \<open>
  The task repository on the database (\<^verbatim>\<open>persistence/postgres_task_repository.py\<close>). Every
  \<open>session_scope\<close> is one step on the tables: a block that raises leaves them as they were, and a
  row locked FOR UPDATE is the row the step reads. What the step draws from outside (fresh
  identifiers, clock readings) is a \<open>stamp\<close>. Refused compare-and-set updates are reported to the
  audit repository; the operation returns those notices beside its result.
\<close>

record task_db =
  td_tasks :: "(string, task_row) dict"
  td_workers :: "(string, worker_row) dict"
  td_dead :: "(string, dead_letter_row) dict"
  td_audit :: "audit_row list"
  td_outbox :: outbox

record stamp =
  sp_audit_id :: string
  sp_audit_time :: int
  sp_event_id :: string
  sp_event_time :: int
  sp_dead_id :: string

datatype task_notice =
    StateChangedNotice string string string int
  | CasRejectedNotice string int int

definition model_to_domain :: "string \<Rightarrow> task_row \<Rightarrow> task" where
  "model_to_domain task_id r =
     (new_task task_id (ta_finding_id r) (ta_approval_token_id r) '''' (ta_fingerprint r) (ta_state r)
        (ta_attempts r) (ta_max_attempts r) (ta_lease_seconds r))
       \<lparr> rt_lease_version := ta_lease_version r, rt_error_message := ta_error_message r,
         rt_receipt_id := ta_receipt_id r, rt_receipt_fingerprint := ta_receipt_fingerprint r,
         rt_verification_status := ta_verification_status r \<rparr>"

text \<open>Every change of a task records its transition and stages its event in the same session.\<close>

definition publish_change ::
  "(string \<Rightarrow> string) \<Rightarrow> stamp \<Rightarrow> string \<Rightarrow> string \<Rightarrow> string \<Rightarrow> string option \<Rightarrow> int option \<Rightarrow> int \<Rightarrow> string \<Rightarrow>
   string \<Rightarrow> (string \<times> string) list \<Rightarrow> string \<Rightarrow> task_db \<Rightarrow> task_error + task_db" where
  "publish_change sha sp task_id prev new worker fencing lease reason event payload key db =
     rbind (record_transition sha (sp_audit_id sp) (sp_audit_time sp) task_id prev new worker fencing lease
              reason (td_audit db)) (\<lambda>trail.
     rbind (stage_event sha (sp_event_id sp) (sp_event_time sp) ''remediation_task'' task_id event payload
              lease (Some key) (td_outbox db)) (\<lambda>ob.
     Inr (db\<lparr> td_audit := trail, td_outbox := ob \<rparr>)))"

section \<open>Creating and reading\<close>

definition pg_create :: "(string \<Rightarrow> string) \<Rightarrow> stamp \<Rightarrow> task \<Rightarrow> task_db \<Rightarrow> task_error + task_db" where
  "pg_create sha sp t db =
     (if dget (td_tasks db) (rt_task_id t) \<noteq> None then Inl TaskValueError
      else publish_change sha sp (rt_task_id t) ''NONE'' (task_state_value (rt_state t)) None None
             (rt_lease_version t) ''TASK_CREATED'' ''TASK_CREATED''
             [(''task_id'', rt_task_id t), (''state'', task_state_value (rt_state t))]
             (''task_created_'' @ rt_task_id t)
             (db\<lparr> td_tasks := dset (td_tasks db) (rt_task_id t)
                 \<lparr> ta_finding_id = rt_finding_id t, ta_approval_token_id = rt_approval_token_id t,
                   ta_fingerprint = rt_fingerprint t, ta_state = rt_state t, ta_attempts = rt_attempts t,
                   ta_max_attempts = rt_max_attempts t, ta_lease_seconds = rt_lease_seconds t,
                   ta_lease_version = rt_lease_version t, ta_worker = None, ta_worker_fencing_token = None,
                   ta_recovery_fencing_token = None, ta_error_message = rt_error_message t,
                   ta_receipt_id = rt_receipt_id t, ta_receipt_fingerprint = rt_receipt_fingerprint t,
                   ta_verification_status = rt_verification_status t \<rparr> \<rparr>))"

definition pg_get :: "string \<Rightarrow> task_db \<Rightarrow> task option" where
  "pg_get task_id db = map_option (model_to_domain task_id) (dget (td_tasks db) task_id)"

text \<open>Queries without ORDER BY answer in table order.\<close>

definition pg_active_by_fingerprint :: "string \<Rightarrow> task_db \<Rightarrow> task option" where
  "pg_active_by_fingerprint fp db =
     map_option (\<lambda>(i, r). model_to_domain i r)
       (find (\<lambda>(i, r). ta_fingerprint r = fp \<and> \<not> terminal_task (ta_state r)) (td_tasks db))"

definition pg_list :: "task_state list option \<Rightarrow> nat \<Rightarrow> task_db \<Rightarrow> task list" where
  "pg_list states limit db =
     map (\<lambda>(i, r). model_to_domain i r)
       (take limit
         (case states of
            Some (s # ss) \<Rightarrow> [(i, r) \<leftarrow> td_tasks db. ta_state r \<in> set (s # ss)]
          | _ \<Rightarrow> td_tasks db))"

section \<open>Compare and set\<close>

fun kw_error_message :: "task_kwarg list \<Rightarrow> string option option" where
  "kw_error_message [] = None"
| "kw_error_message (k # ks) = (case k of KwErrorMessage x \<Rightarrow> Some x | _ \<Rightarrow> kw_error_message ks)"

fun kw_assigned_worker :: "task_kwarg list \<Rightarrow> string option option" where
  "kw_assigned_worker [] = None"
| "kw_assigned_worker (k # ks) = (case k of KwAssignedWorker x \<Rightarrow> Some x | _ \<Rightarrow> kw_assigned_worker ks)"

fun kw_recovery_token :: "task_kwarg list \<Rightarrow> int option option" where
  "kw_recovery_token [] = None"
| "kw_recovery_token (k # ks) = (case k of KwRecoveryFencingToken x \<Rightarrow> Some x | _ \<Rightarrow> kw_recovery_token ks)"

fun kw_lease_version :: "task_kwarg list \<Rightarrow> int option" where
  "kw_lease_version [] = None"
| "kw_lease_version (k # ks) = (case k of KwLeaseVersion x \<Rightarrow> Some x | _ \<Rightarrow> kw_lease_version ks)"

fun kw_reason :: "task_kwarg list \<Rightarrow> string option" where
  "kw_reason [] = None"
| "kw_reason (k # ks) = (case k of KwReason x \<Rightarrow> Some x | _ \<Rightarrow> kw_reason ks)"

definition or_default :: "'a \<Rightarrow> 'a option \<Rightarrow> 'a" where
  "or_default d x = (case x of None \<Rightarrow> d | Some y \<Rightarrow> y)"

definition write_values :: "task_state \<Rightarrow> int \<Rightarrow> task_kwarg list \<Rightarrow> task_row \<Rightarrow> task_row" where
  "write_values target lease ks r =
     r\<lparr> ta_state := target, ta_lease_version := lease,
        ta_error_message := or_default (ta_error_message r) (kw_error_message ks),
        ta_worker := or_default (ta_worker r) (kw_assigned_worker ks),
        ta_recovery_fencing_token := or_default (ta_recovery_fencing_token r) (kw_recovery_token ks),
        ta_attempts := ta_attempts r + (if target = TS_RUNNING then 1 else 0) \<rparr>"

definition first_state :: "task_state list \<Rightarrow> string" where
  "first_state states = (case states of [] \<Rightarrow> ''UNKNOWN'' | s # _ \<Rightarrow> task_state_value s)"

definition pg_atomic_transition ::
  "(string \<Rightarrow> string) \<Rightarrow> stamp \<Rightarrow> string \<Rightarrow> int \<Rightarrow> task_state list \<Rightarrow> task_state \<Rightarrow> task_kwarg list \<Rightarrow> task_db
     \<Rightarrow> (task_error + task_db \<times> task) \<times> task_notice list" where
  "pg_atomic_transition sha sp task_id version states target ks db =
     (let lease = or_default (version + 1) (kw_lease_version ks) in
      if target \<in> {TS_QUEUED, TS_RUNNING} \<and> list_ex terminal_task states then (Inl InvalidTaskState, [])
      else let (tasks, rowcount) =
             update_row (td_tasks db) task_id (\<lambda>r. ta_lease_version r = version \<and> ta_state r \<in> set states)
               (write_values target lease ks) in
      if rowcount = 1 then
        (case dget tasks task_id of
           None \<Rightarrow> (Inl TaskValueError, [])
         | Some r \<Rightarrow>
             (case publish_change sha sp task_id (first_state states) (task_state_value target)
                     (or_default None (kw_assigned_worker ks)) (or_default None (kw_recovery_token ks)) lease
                     (or_default ''ATOMIC_TRANSITION'' (kw_reason ks)) (''TASK_'' @ task_state_value target)
                     [(''task_id'', task_id), (''state'', task_state_value target)]
                     (''task_transition_'' @ task_id @ ''_'' @ str_int lease) (db\<lparr> td_tasks := tasks \<rparr>) of
                Inl e \<Rightarrow> (Inl e, [])
              | Inr db' \<Rightarrow>
                  (Inr (db', model_to_domain task_id r),
                   [StateChangedNotice task_id (first_state states) (task_state_value target) lease])))
      else
        (case dget (td_tasks db) task_id of
           None \<Rightarrow> (Inl TaskValueError, [])
         | Some r \<Rightarrow>
             if terminal_task (ta_state r) then (Inl InvalidTaskState, [])
             else if ta_lease_version r \<noteq> version
             then (Inl StaleLeaseVersion, [CasRejectedNotice task_id version (ta_lease_version r)])
             else (Inl InvalidTaskState, [])))"

text \<open>
  An update that names a state reads the task in one session and compares and sets in another:
  \<open>seen\<close> is what the first one read. Other updates write columns.
\<close>

definition pg_update_state ::
  "(string \<Rightarrow> string) \<Rightarrow> stamp \<Rightarrow> string \<Rightarrow> task_state \<Rightarrow> task_kwarg list \<Rightarrow> task option \<Rightarrow> task_db
     \<Rightarrow> (task_error + task_db \<times> task) \<times> task_notice list" where
  "pg_update_state sha sp task_id target ks seen db =
     (case seen of
        None \<Rightarrow> (Inl TaskValueError, [])
      | Some t \<Rightarrow> pg_atomic_transition sha sp task_id (rt_lease_version t) [rt_state t] target ks db)"

fun set_column :: "task_kwarg \<Rightarrow> task_row \<Rightarrow> task_error + task_row" where
  "set_column (KwState s) r = Inr (r\<lparr> ta_state := s \<rparr>)"
| "set_column (KwFindingId x) r = Inr (r\<lparr> ta_finding_id := x \<rparr>)"
| "set_column (KwApprovalTokenId x) r = Inr (r\<lparr> ta_approval_token_id := x \<rparr>)"
| "set_column (KwToken x) r = Inl TaskAttributeError"
| "set_column (KwFingerprint x) r = Inr (r\<lparr> ta_fingerprint := x \<rparr>)"
| "set_column (KwAttempts x) r = Inr (r\<lparr> ta_attempts := x \<rparr>)"
| "set_column (KwMaxAttempts x) r = Inr (r\<lparr> ta_max_attempts := x \<rparr>)"
| "set_column (KwLeaseSeconds x) r = Inr (r\<lparr> ta_lease_seconds := x \<rparr>)"
| "set_column (KwStartedAt x) r = Inl TaskAttributeError"
| "set_column (KwErrorMessage x) r = Inr (r\<lparr> ta_error_message := x \<rparr>)"
| "set_column (KwReceiptId x) r = Inr (r\<lparr> ta_receipt_id := x \<rparr>)"
| "set_column (KwReceiptFingerprint x) r = Inr (r\<lparr> ta_receipt_fingerprint := x \<rparr>)"
| "set_column (KwVerificationStatus x) r = Inr (r\<lparr> ta_verification_status := x \<rparr>)"
| "set_column (KwLeaseVersion x) r = Inr (r\<lparr> ta_lease_version := x \<rparr>)"
| "set_column (KwAssignedWorker x) r = Inr (r\<lparr> ta_worker := x \<rparr>)"
| "set_column (KwWorkerFencingToken x) r = Inr (r\<lparr> ta_worker_fencing_token := x \<rparr>)"
| "set_column (KwRecoveryFencingToken x) r = Inr (r\<lparr> ta_recovery_fencing_token := x \<rparr>)"
| "set_column (KwReason x) r = Inl TaskAttributeError"
| "set_column (KwOther k) r = Inl TaskAttributeError"

fun set_columns :: "task_kwarg list \<Rightarrow> task_row \<Rightarrow> task_error + task_row" where
  "set_columns [] r = Inr r"
| "set_columns (k # ks) r = rbind (set_column k r) (set_columns ks)"

definition pg_update_columns ::
  "string \<Rightarrow> task_kwarg list \<Rightarrow> task_db \<Rightarrow> task_error + task_db \<times> task" where
  "pg_update_columns task_id ks db =
     (case dget (td_tasks db) task_id of
        None \<Rightarrow> Inl TaskValueError
      | Some r \<Rightarrow> rbind (set_columns ks r) (\<lambda>r'.
          Inr (db\<lparr> td_tasks := dset (td_tasks db) task_id r' \<rparr>, model_to_domain task_id r')))"

section \<open>What a worker calls\<close>

definition may_be_assigned :: "worker_row option \<Rightarrow> bool" where
  "may_be_assigned w =
     (case w of None \<Rightarrow> True
      | Some w \<Rightarrow> wk_status w \<notin> {WS_DRAINING, WS_DRAINED, WS_FENCED, WS_OFFLINE})"

definition pg_assign ::
  "(string \<Rightarrow> string) \<Rightarrow> stamp \<Rightarrow> string \<Rightarrow> string \<Rightarrow> task_db \<Rightarrow> task_error + task_db \<times> task" where
  "pg_assign sha sp task_id worker_id db =
     (let worker = dget (td_workers db) worker_id in
      if \<not> may_be_assigned worker then Inl InvalidWorkerState
      else let token = (case worker of None \<Rightarrow> 1 | Some w \<Rightarrow> wk_fencing_token w) in
      case dget (td_tasks db) task_id of
        None \<Rightarrow> Inl TaskValueError
      | Some r \<Rightarrow>
          if terminal_task (ta_state r) then Inl InvalidTaskState
          else if ta_attempts r \<ge> ta_max_attempts r then Inl InvalidTaskState
          else if ta_state r \<notin> {TS_QUEUED, TS_PENDING} then Inl InvalidTaskState
          else let r' = r\<lparr> ta_state := TS_RUNNING, ta_worker := Some worker_id,
                           ta_worker_fencing_token := Some token, ta_attempts := ta_attempts r + 1,
                           ta_lease_version := ta_lease_version r + 1 \<rparr> in
          rbind (publish_change sha sp task_id (task_state_value (ta_state r)) ''RUNNING'' (Some worker_id)
                   (Some token) (ta_lease_version r') ''TASK_ASSIGNED'' ''TASK_ASSIGNED''
                   [(''task_id'', task_id), (''worker_id'', worker_id), (''state'', ''RUNNING'')]
                   (''task_assigned_'' @ task_id @ ''_'' @ str_int (ta_lease_version r'))
                   (db\<lparr> td_tasks := dset (td_tasks db) task_id r' \<rparr>))
            (\<lambda>db'. Inr (db', model_to_domain task_id r')))"

definition worker_fenced :: "worker_row option \<Rightarrow> int \<Rightarrow> bool" where
  "worker_fenced w token =
     (case w of None \<Rightarrow> False
      | Some w \<Rightarrow> wk_status w \<in> {WS_FENCED, WS_OFFLINE} \<or> wk_fencing_token w > token)"

definition assigned_elsewhere :: "task_row \<Rightarrow> string \<Rightarrow> bool" where
  "assigned_elsewhere r worker_id =
     (case ta_worker r of Some (c # w) \<Rightarrow> c # w \<noteq> worker_id | _ \<Rightarrow> False)"

text \<open>The checks \<open>complete_task\<close> and \<open>record_execution_failure\<close> open with, in their order.\<close>

definition held_task ::
  "string \<Rightarrow> int \<Rightarrow> string \<Rightarrow> int \<Rightarrow> task_db \<Rightarrow> task_error + task_row" where
  "held_task task_id version worker_id token db =
     (if worker_fenced (dget (td_workers db) worker_id) token then Inl WorkerFenced
      else case dget (td_tasks db) task_id of
        None \<Rightarrow> Inl TaskValueError
      | Some r \<Rightarrow>
          if assigned_elsewhere r worker_id then Inl WorkerFenced
          else if ta_lease_version r \<noteq> version then Inl StaleLeaseVersion
          else if ta_state r \<noteq> TS_RUNNING then Inl InvalidTaskState
          else Inr r)"

definition pg_complete ::
  "(string \<Rightarrow> string) \<Rightarrow> stamp \<Rightarrow> string \<Rightarrow> int \<Rightarrow> string \<Rightarrow> int \<Rightarrow> string option \<Rightarrow> string option \<Rightarrow> string option
     \<Rightarrow> task_db \<Rightarrow> task_error + task_db \<times> task" where
  "pg_complete sha sp task_id version worker_id token receipt receipt_fp status db =
     rbind (held_task task_id version worker_id token db) (\<lambda>r.
       let r' = r\<lparr> ta_state := TS_COMPLETED, ta_lease_version := version + 1,
                   ta_receipt_id := given receipt (ta_receipt_id r),
                   ta_receipt_fingerprint := given receipt_fp (ta_receipt_fingerprint r),
                   ta_verification_status := given status (ta_verification_status r) \<rparr> in
       rbind (publish_change sha sp task_id (task_state_value (ta_state r)) ''COMPLETED'' (Some worker_id)
                (Some token) (ta_lease_version r') ''TASK_COMPLETED'' ''TASK_COMPLETED''
                [(''task_id'', task_id), (''worker_id'', worker_id), (''state'', ''COMPLETED'')]
                (''task_completed_'' @ task_id @ ''_'' @ str_int (ta_lease_version r'))
                (db\<lparr> td_tasks := dset (td_tasks db) task_id r' \<rparr>))
         (\<lambda>db'. Inr (db', model_to_domain task_id r')))"

text \<open>One dead letter per task: a second one violates the unique column.\<close>

definition add_dead_letter :: "string \<Rightarrow> dead_letter_row \<Rightarrow> task_db \<Rightarrow> task_error + task_db" where
  "add_dead_letter task_id d db =
     (if dget (td_dead db) task_id \<noteq> None \<or> dl_event_id d \<in> dl_event_id ` snd ` set (td_dead db)
      then Inl TaskIntegrityError
      else Inr (db\<lparr> td_dead := dset (td_dead db) task_id d \<rparr>))"

definition pg_record_failure ::
  "(string \<Rightarrow> string) \<Rightarrow> stamp \<Rightarrow> string \<Rightarrow> int \<Rightarrow> string \<Rightarrow> int \<Rightarrow> string \<Rightarrow> task_db \<Rightarrow> task_error + task_db \<times> task" where
  "pg_record_failure sha sp task_id version worker_id token msg db =
     rbind (held_task task_id version worker_id token db) (\<lambda>r.
       if ta_attempts r \<ge> ta_max_attempts r then
         let r' = r\<lparr> ta_lease_version := version + 1, ta_error_message := Some msg, ta_state := TS_FAILED \<rparr> in
         rbind (add_dead_letter task_id
                  \<lparr> dl_event_id = ''dlq_'' @ sp_dead_id sp, dl_reason = ''EXHAUSTED'',
                    dl_attempts = ta_attempts r, dl_max_attempts = ta_max_attempts r,
                    dl_error_message = take 8192 msg, dl_worker_id = worker_id \<rparr>
                  (db\<lparr> td_tasks := dset (td_tasks db) task_id r' \<rparr>)) (\<lambda>db1.
         rbind (publish_change sha sp task_id (task_state_value (ta_state r)) ''FAILED'' (Some worker_id)
                  (Some token) (ta_lease_version r') ''TASK_FAILED'' ''TASK_FAILED''
                  [(''task_id'', task_id), (''worker_id'', worker_id), (''state'', ''FAILED'')]
                  (''task_failure_'' @ task_id @ ''_'' @ str_int (ta_lease_version r')) db1)
           (\<lambda>db'. Inr (db', model_to_domain task_id r')))
       else
         let r' = r\<lparr> ta_lease_version := version + 1, ta_error_message := Some msg, ta_state := TS_QUEUED,
                     ta_worker := None, ta_worker_fencing_token := None \<rparr> in
         rbind (publish_change sha sp task_id (task_state_value (ta_state r)) ''QUEUED'' (Some worker_id)
                  (Some token) (ta_lease_version r') ''TASK_RETRIED'' ''TASK_RETRIED''
                  [(''task_id'', task_id), (''worker_id'', worker_id), (''state'', ''QUEUED'')]
                  (''task_transition_'' @ task_id @ ''_'' @ str_int (ta_lease_version r'))
                  (db\<lparr> td_tasks := dset (td_tasks db) task_id r' \<rparr>))
           (\<lambda>db'. Inr (db', model_to_domain task_id r')))"

section \<open>What an accepted call does\<close>

datatype pg_call =
    PgAssign stamp string string
  | PgComplete stamp string int string int "string option" "string option" "string option"
  | PgFail stamp string int string int string

fun pg_kind :: "pg_call \<Rightarrow> task_call" where
  "pg_kind (PgAssign sp i w) = AssignCall i"
| "pg_kind (PgComplete sp i v w k r f s) = CompleteCall i v"
| "pg_kind (PgFail sp i v w k msg) = FailCall i v"

fun pg_stamp :: "pg_call \<Rightarrow> stamp" where
  "pg_stamp (PgAssign sp i w) = sp"
| "pg_stamp (PgComplete sp i v w k r f s) = sp"
| "pg_stamp (PgFail sp i v w k msg) = sp"

fun pg_do :: "(string \<Rightarrow> string) \<Rightarrow> pg_call \<Rightarrow> task_db \<Rightarrow> task_error + task_db \<times> task" where
  "pg_do sha (PgAssign sp i w) db = pg_assign sha sp i w db"
| "pg_do sha (PgComplete sp i v w k r f s) db = pg_complete sha sp i v w k r f s db"
| "pg_do sha (PgFail sp i v w k msg) db = pg_record_failure sha sp i v w k msg db"

definition pg_exec :: "(string \<Rightarrow> string) \<Rightarrow> pg_call \<Rightarrow> task_db \<Rightarrow> task_db option" where
  "pg_exec sha c db = (case pg_do sha c db of Inl e \<Rightarrow> None | Inr (db', t) \<Rightarrow> Some db')"

definition row_view :: "task_row \<Rightarrow> task_view" where
  "row_view r =
     \<lparr> tv_state = ta_state r, tv_attempts = ta_attempts r, tv_max_attempts = ta_max_attempts r,
       tv_lease = ta_lease_version r \<rparr>"

definition pg_view :: "task_db \<Rightarrow> task_views" where
  "pg_view db i = map_option row_view (dget (td_tasks db) i)"

text \<open>
  One change: the row of task \<open>i\<close> goes from \<open>r\<close> to \<open>r'\<close>, the dead letters become \<open>dead\<close>, and the
  transition is recorded and published under a key that ends in the new lease version.
\<close>

definition key_prefixes :: "string list" where
  "key_prefixes = [''task_assigned_'', ''task_completed_'', ''task_failure_'', ''task_transition_'']"

definition changed ::
  "(string \<Rightarrow> string) \<Rightarrow> stamp \<Rightarrow> string \<Rightarrow> task_row \<Rightarrow> task_row \<Rightarrow> (string, dead_letter_row) dict \<Rightarrow>
     task_db \<Rightarrow> task_db \<Rightarrow> bool" where
  "changed sha sp i r r' dead db db' =
     (\<exists>w k reason ev payload. \<exists>p \<in> set key_prefixes.
        publish_change sha sp i (task_state_value (ta_state r)) (task_state_value (ta_state r')) w k
          (ta_lease_version r') reason ev payload (p @ i @ ''_'' @ str_int (ta_lease_version r'))
          (db\<lparr> td_tasks := dset (td_tasks db) i r', td_dead := dead \<rparr>) = Inr db')"

lemma changedI:
  assumes "publish_change sha sp i (task_state_value (ta_state r)) (task_state_value (ta_state r')) w k
      (ta_lease_version r') reason ev payload (p @ i @ ''_'' @ str_int (ta_lease_version r'))
      (db\<lparr> td_tasks := dset (td_tasks db) i r', td_dead := dead \<rparr>) = Inr db'"
    and "p \<in> set key_prefixes"
  shows "changed sha sp i r r' dead db db'"
  unfolding changed_def using assms by blast

lemma held_task_ok:
  "held_task i v w k db = Inr r \<longleftrightarrow>
     dget (td_tasks db) i = Some r \<and> \<not> worker_fenced (dget (td_workers db) w) k \<and>
     \<not> assigned_elsewhere r w \<and> ta_lease_version r = v \<and> ta_state r = TS_RUNNING"
  by (auto simp: held_task_def split: option.split)

lemma pg_assign_step:
  assumes "pg_assign sha sp i w db = Inr (db', t)"
  obtains r r' where "dget (td_tasks db) i = Some r" "call_enabled (AssignCall i) (row_view r)"
    "row_view r' = call_effect (AssignCall i) (row_view r)" "changed sha sp i r r' (td_dead db) db db'"
    "ta_worker r' = Some w" "may_be_assigned (dget (td_workers db) w)"
proof -
  obtain r where r: "dget (td_tasks db) i = Some r" "ta_attempts r < ta_max_attempts r"
      "ta_state r \<in> {TS_QUEUED, TS_PENDING}" "may_be_assigned (dget (td_workers db) w)"
    using assms by (auto simp: pg_assign_def Let_def split: option.splits if_splits)
  define k where "k = (case dget (td_workers db) w of None \<Rightarrow> 1 | Some x \<Rightarrow> wk_fencing_token x)"
  define r' where "r' = r\<lparr> ta_state := TS_RUNNING, ta_worker := Some w, ta_worker_fencing_token := Some k,
      ta_attempts := ta_attempts r + 1, ta_lease_version := ta_lease_version r + 1 \<rparr>"
  have "publish_change sha sp i (task_state_value (ta_state r)) (task_state_value (ta_state r')) (Some w) (Some k)
      (ta_lease_version r') ''TASK_ASSIGNED'' ''TASK_ASSIGNED''
      [(''task_id'', i), (''worker_id'', w), (''state'', ''RUNNING'')]
      (''task_assigned_'' @ i @ ''_'' @ str_int (ta_lease_version r'))
      (db\<lparr> td_tasks := dset (td_tasks db) i r', td_dead := td_dead db \<rparr>) = Inr db'"
    using assms r(1)
    by (simp add: pg_assign_def Let_def r'_def k_def split: if_splits)
  then have "changed sha sp i r r' (td_dead db) db db'"
    by (rule changedI) (simp add: key_prefixes_def)
  moreover have "call_enabled (AssignCall i) (row_view r)" using r by (auto simp: row_view_def)
  moreover have "row_view r' = call_effect (AssignCall i) (row_view r)" "ta_worker r' = Some w"
    by (simp_all add: row_view_def r'_def)
  ultimately show thesis using r(1,4) that by blast
qed

lemma pg_complete_step:
  assumes "pg_complete sha sp i v w k rc rf st db = Inr (db', t)"
  obtains r r' where "held_task i v w k db = Inr r"
    "row_view r' = call_effect (CompleteCall i v) (row_view r)" "changed sha sp i r r' (td_dead db) db db'"
proof -
  obtain r where r: "held_task i v w k db = Inr r"
    using assms by (auto simp: pg_complete_def)
  define r' where "r' = r\<lparr> ta_state := TS_COMPLETED, ta_lease_version := v + 1,
      ta_receipt_id := given rc (ta_receipt_id r), ta_receipt_fingerprint := given rf (ta_receipt_fingerprint r),
      ta_verification_status := given st (ta_verification_status r) \<rparr>"
  have "publish_change sha sp i (task_state_value (ta_state r)) (task_state_value (ta_state r')) (Some w) (Some k)
      (ta_lease_version r') ''TASK_COMPLETED'' ''TASK_COMPLETED''
      [(''task_id'', i), (''worker_id'', w), (''state'', ''COMPLETED'')]
      (''task_completed_'' @ i @ ''_'' @ str_int (ta_lease_version r'))
      (db\<lparr> td_tasks := dset (td_tasks db) i r', td_dead := td_dead db \<rparr>) = Inr db'"
    using assms r by (simp add: pg_complete_def Let_def r'_def)
  then have "changed sha sp i r r' (td_dead db) db db'"
    by (rule changedI) (simp add: key_prefixes_def)
  moreover have "row_view r' = call_effect (CompleteCall i v) (row_view r)"
    using r by (auto simp: row_view_def r'_def held_task_ok)
  ultimately show thesis using r that by blast
qed

lemma pg_fail_step:
  assumes "pg_record_failure sha sp i v w k msg db = Inr (db', t)"
  obtains (exhausted) r r' d where "held_task i v w k db = Inr r" "ta_attempts r \<ge> ta_max_attempts r"
      "row_view r' = call_effect (FailCall i v) (row_view r)" "dget (td_dead db) i = None"
      "dl_attempts d = ta_attempts r" "dl_worker_id d = w"
      "changed sha sp i r r' (dset (td_dead db) i d) db db'"
    | (retried) r r' where "held_task i v w k db = Inr r" "ta_attempts r < ta_max_attempts r"
      "row_view r' = call_effect (FailCall i v) (row_view r)" "changed sha sp i r r' (td_dead db) db db'"
proof -
  obtain r where r: "held_task i v w k db = Inr r"
    using assms by (auto simp: pg_record_failure_def)
  then have run: "ta_lease_version r = v" "ta_state r = TS_RUNNING" by (simp_all add: held_task_ok)
  show thesis
  proof (cases "ta_attempts r \<ge> ta_max_attempts r")
    case True
    define r' where "r' = r\<lparr> ta_lease_version := v + 1, ta_error_message := Some msg, ta_state := TS_FAILED \<rparr>"
    define d where "d = \<lparr> dl_event_id = ''dlq_'' @ sp_dead_id sp, dl_reason = ''EXHAUSTED'',
        dl_attempts = ta_attempts r, dl_max_attempts = ta_max_attempts r,
        dl_error_message = take 8192 msg, dl_worker_id = w \<rparr>"
    from assms r True have new: "dget (td_dead db) i = None" and
      "publish_change sha sp i (task_state_value (ta_state r)) (task_state_value (ta_state r')) (Some w) (Some k)
        (ta_lease_version r') ''TASK_FAILED'' ''TASK_FAILED''
        [(''task_id'', i), (''worker_id'', w), (''state'', ''FAILED'')]
        (''task_failure_'' @ i @ ''_'' @ str_int (ta_lease_version r'))
        (db\<lparr> td_tasks := dset (td_tasks db) i r', td_dead := dset (td_dead db) i d \<rparr>) = Inr db'"
      by (auto simp: pg_record_failure_def add_dead_letter_def Let_def r'_def d_def split: if_splits)
    note this(2)
    then have "changed sha sp i r r' (dset (td_dead db) i d) db db'"
      by (rule changedI) (simp add: key_prefixes_def)
    moreover have "row_view r' = call_effect (FailCall i v) (row_view r)"
      using run True by (simp add: row_view_def r'_def)
    moreover have "dl_attempts d = ta_attempts r" "dl_worker_id d = w" by (simp_all add: d_def)
    ultimately show thesis using exhausted r True new by blast
  next
    case False
    define r' where "r' = r\<lparr> ta_lease_version := v + 1, ta_error_message := Some msg, ta_state := TS_QUEUED,
        ta_worker := None, ta_worker_fencing_token := None \<rparr>"
    have "publish_change sha sp i (task_state_value (ta_state r)) (task_state_value (ta_state r')) (Some w) (Some k)
        (ta_lease_version r') ''TASK_RETRIED'' ''TASK_RETRIED''
        [(''task_id'', i), (''worker_id'', w), (''state'', ''QUEUED'')]
        (''task_transition_'' @ i @ ''_'' @ str_int (ta_lease_version r'))
        (db\<lparr> td_tasks := dset (td_tasks db) i r', td_dead := td_dead db \<rparr>) = Inr db'"
      using assms r False by (simp add: pg_record_failure_def Let_def r'_def)
    then have "changed sha sp i r r' (td_dead db) db db'"
      by (rule changedI) (simp add: key_prefixes_def)
    moreover have "row_view r' = call_effect (FailCall i v) (row_view r)"
      using run False by (simp add: row_view_def r'_def)
    ultimately show thesis using retried r False by fastforce
  qed
qed

text \<open>What the three operations share.\<close>

lemma pg_do_step:
  assumes "pg_do sha c db = Inr (db', t)"
  obtains r r' dead where "dget (td_tasks db) (call_task (pg_kind c)) = Some r"
    "call_enabled (pg_kind c) (row_view r)" "row_view r' = call_effect (pg_kind c) (row_view r)"
    "changed sha (pg_stamp c) (call_task (pg_kind c)) r r' dead db db'"
    "dead = td_dead db \<or>
       (\<exists>d. dget (td_dead db) (call_task (pg_kind c)) = None \<and> dead = dset (td_dead db) (call_task (pg_kind c)) d)"
    "(ta_state r' = TS_FAILED) = (dead \<noteq> td_dead db)"
proof (cases c)
  case (PgAssign sp i w)
  with assms show thesis
    by (auto elim!: pg_assign_step intro!: that simp: row_view_def)
next
  case (PgComplete sp i v w k rc rf st)
  with assms have "pg_complete sha sp i v w k rc rf st db = Inr (db', t)" by simp
  then show thesis
  proof (rule pg_complete_step)
    fix r r' assume a: "held_task i v w k db = Inr r" "row_view r' = call_effect (CompleteCall i v) (row_view r)"
      "changed sha sp i r r' (td_dead db) db db'"
    then show thesis using PgComplete that [of r r' "td_dead db"] by (simp add: held_task_ok row_view_def)
  qed
next
  case (PgFail sp i v w k msg)
  with assms have "pg_record_failure sha sp i v w k msg db = Inr (db', t)" by simp
  then show thesis
  proof (cases rule: pg_fail_step)
    case (exhausted r r' d)
    moreover from exhausted(4) have "dset (td_dead db) i d \<noteq> td_dead db"
      by (metis dget_dset option.distinct(1))
    ultimately show thesis using PgFail that [of r r' "dset (td_dead db) i d"]
      by (auto simp: held_task_ok row_view_def)
  next
    case (retried r r')
    then show thesis using PgFail that [of r r' "td_dead db"]
      by (simp add: held_task_ok row_view_def)
  qed
qed

lemma publish_change_ok:
  assumes "publish_change sha sp i p s w k l reason ev payload (c # key) db = Inr db'"
  shows "td_tasks db' = td_tasks db \<and> td_workers db' = td_workers db \<and> td_dead db' = td_dead db"
    "record_transition sha (sp_audit_id sp) (sp_audit_time sp) i p s w k l reason (td_audit db) = Inr (td_audit db')"
    "stage_event sha (sp_event_id sp) (sp_event_time sp) ''remediation_task'' i ev payload l (Some (c # key))
       (td_outbox db) = Inr (td_outbox db')"
  using assms by (auto simp: publish_change_def)

lemma changedE:
  assumes "changed sha sp i r r' dead db db'"
  obtains w k reason ev payload c p where "c # p \<in> set key_prefixes"
    "td_tasks db' = dset (td_tasks db) i r'" "td_workers db' = td_workers db" "td_dead db' = dead"
    "record_transition sha (sp_audit_id sp) (sp_audit_time sp) i (task_state_value (ta_state r))
       (task_state_value (ta_state r')) w k (ta_lease_version r') reason (td_audit db) = Inr (td_audit db')"
    "stage_event sha (sp_event_id sp) (sp_event_time sp) ''remediation_task'' i ev payload (ta_lease_version r')
       (Some (c # p @ i @ ''_'' @ str_int (ta_lease_version r'))) (td_outbox db) = Inr (td_outbox db')"
proof -
  let ?db = "db\<lparr> td_tasks := dset (td_tasks db) i r', td_dead := dead \<rparr>"
  obtain w k reason ev payload p where p: "p \<in> set key_prefixes"
    and pub: "publish_change sha sp i (task_state_value (ta_state r)) (task_state_value (ta_state r')) w k
        (ta_lease_version r') reason ev payload (p @ i @ ''_'' @ str_int (ta_lease_version r')) ?db = Inr db'"
    using assms unfolding changed_def by blast
  obtain c q where q: "p = c # q" using p by (cases p) (auto simp: key_prefixes_def)
  from publish_change_ok [OF pub [unfolded q append_Cons]] p q show thesis
    by (intro that [of c q]) simp_all
qed

lemma pg_view_dset: "td_tasks db' = dset (td_tasks db) i r \<Longrightarrow> pg_view db' = (pg_view db)(i \<mapsto> row_view r)"
  by (auto simp: pg_view_def)

lemma pg_refines:
  assumes "pg_exec sha c db = Some db'"
  shows "spec_step (pg_kind c) (pg_view db) (pg_view db')"
proof -
  from assms obtain t where "pg_do sha c db = Inr (db', t)"
    by (auto simp: pg_exec_def split: sum.splits)
  then show ?thesis
  proof (rule pg_do_step)
    fix r r' dead
    assume a: "dget (td_tasks db) (call_task (pg_kind c)) = Some r" "call_enabled (pg_kind c) (row_view r)"
      "row_view r' = call_effect (pg_kind c) (row_view r)"
      "changed sha (pg_stamp c) (call_task (pg_kind c)) r r' dead db db'"
    from a(4) have "td_tasks db' = dset (td_tasks db) (call_task (pg_kind c)) r'" by (rule changedE)
    then have "pg_view db' = (pg_view db)(call_task (pg_kind c) \<mapsto> row_view r')" by (rule pg_view_dset)
    then show ?thesis using a(1-3) by (auto simp: spec_step_def pg_view_def)
  qed
qed

interpretation pg: task_authority pg_view "pg_exec sha" pg_kind for sha
  by unfold_locales (rule pg_refines)

section \<open>What a compare and set does\<close>

lemma pg_atomic_ok:
  assumes "fst (pg_atomic_transition sha sp i v states target ks db) = Inr (db', t)"
  obtains r where "dget (td_tasks db) i = Some r" "ta_lease_version r = v" "ta_state r \<in> set states"
    "td_tasks db' = dset (td_tasks db) i (write_values target (or_default (v + 1) (kw_lease_version ks)) ks r)"
    "td_workers db' = td_workers db" "td_dead db' = td_dead db"
    "\<not> (target \<in> {TS_QUEUED, TS_RUNNING} \<and> list_ex terminal_task states)"
proof -
  let ?P = "\<lambda>r. ta_lease_version r = v \<and> ta_state r \<in> set states"
  let ?f = "write_values target (or_default (v + 1) (kw_lease_version ks)) ks"
  have guard: "\<not> (target \<in> {TS_QUEUED, TS_RUNNING} \<and> list_ex terminal_task states)"
    using assms by (auto simp: pg_atomic_transition_def Let_def)
  show thesis
  proof (rule update_row_cases [of "td_tasks db" i ?P ?f])
    fix r assume r: "dget (td_tasks db) i = Some r" "?P r"
      "update_row (td_tasks db) i ?P ?f = (dset (td_tasks db) i (?f r), 1)"
    with assms guard show thesis
      by (intro that [of r])
        (auto simp: pg_atomic_transition_def Let_def publish_change_def split: sum.splits if_splits)
  next
    assume miss: "update_row (td_tasks db) i ?P ?f = (td_tasks db, 0)"
    with assms guard show thesis
      by (auto simp: pg_atomic_transition_def Let_def split: option.splits if_splits)
  qed
qed

lemma pg_atomic_refused:
  assumes "dget (td_tasks db) i = Some r" "\<not> (ta_lease_version r = v \<and> ta_state r \<in> set states)"
  shows "fst (pg_atomic_transition sha sp i v states target ks db) \<in> {Inl InvalidTaskState, Inl StaleLeaseVersion}"
  using assms by (auto simp: pg_atomic_transition_def Let_def update_row_def)

text \<open>The guard against resurrection looks at the states the caller expects.\<close>

lemma pg_atomic_resurrection:
  "target \<in> {TS_QUEUED, TS_RUNNING} \<Longrightarrow> list_ex terminal_task states \<Longrightarrow>
     fst (pg_atomic_transition sha sp i v states target ks db) = Inl InvalidTaskState"
  by (auto simp: pg_atomic_transition_def Let_def)

text \<open>With fresh identifiers a change is always recorded and staged, and stamps stay fresh for others.\<close>

definition fresh_stamp :: "stamp \<Rightarrow> task_db \<Rightarrow> bool" where
  "fresh_stamp sp db =
     (sp_audit_id sp \<notin> au_id ` set (td_audit db) \<and> ''evt_'' @ sp_event_id sp \<notin> set (dkeys (td_outbox db)))"

definition stamps_differ :: "stamp \<Rightarrow> stamp \<Rightarrow> bool" where
  "stamps_differ sp sq = (sp_audit_id sp \<noteq> sp_audit_id sq \<and> sp_event_id sp \<noteq> sp_event_id sq)"

lemma publish_change_returns:
  "fresh_stamp sp db \<Longrightarrow> \<exists>db'. publish_change sha sp i p s w k l reason ev payload (c # key) db = Inr db'"
  by (auto simp: publish_change_def fresh_stamp_def record_transition_def stage_event_def Let_def)

lemma publish_change_fresh:
  assumes "publish_change sha sp i p s w k l reason ev payload (c # key) db = Inr db'"
    and "fresh_stamp sq db" "stamps_differ sp sq"
  shows "fresh_stamp sq db'"
proof -
  note ok = publish_change_ok [OF assms(1)]
  from ok(2) have "au_id ` set (td_audit db') = insert (sp_audit_id sp) (au_id ` set (td_audit db))"
    by (rule record_transition_row) simp
  moreover from ok(3) have "set (dkeys (td_outbox db')) \<subseteq> insert (''evt_'' @ sp_event_id sp) (set (dkeys (td_outbox db)))"
    by (cases rule: stage_event_cases) auto
  ultimately show ?thesis using assms(2,3) by (auto simp: fresh_stamp_def stamps_differ_def)
qed

lemma pg_atomic_hit:
  assumes "dget (td_tasks db) i = Some r" "ta_lease_version r = v" "ta_state r \<in> set states"
    and "\<not> (target \<in> {TS_QUEUED, TS_RUNNING} \<and> list_ex terminal_task states)" and "fresh_stamp sp db"
  obtains db' where
    "fst (pg_atomic_transition sha sp i v states target ks db) =
       Inr (db', model_to_domain i (write_values target (or_default (v + 1) (kw_lease_version ks)) ks r))"
    "td_tasks db' = dset (td_tasks db) i (write_values target (or_default (v + 1) (kw_lease_version ks)) ks r)"
    "td_workers db' = td_workers db"
    "\<And>sq. fresh_stamp sq db \<Longrightarrow> stamps_differ sp sq \<Longrightarrow> fresh_stamp sq db'"
proof -
  let ?l = "or_default (v + 1) (kw_lease_version ks)"
  let ?r = "write_values target ?l ks r"
  let ?db = "db\<lparr> td_tasks := dset (td_tasks db) i ?r \<rparr>"
  have up: "update_row (td_tasks db) i (\<lambda>r. ta_lease_version r = v \<and> ta_state r \<in> set states)
      (write_values target ?l ks) = (dset (td_tasks db) i ?r, 1)"
    using assms(1-3) by (simp add: update_row_def)
  let ?pub = "publish_change sha sp i (first_state states) (task_state_value target)
      (or_default None (kw_assigned_worker ks)) (or_default None (kw_recovery_token ks)) ?l
      (or_default ''ATOMIC_TRANSITION'' (kw_reason ks)) (''TASK_'' @ task_state_value target)
      [(''task_id'', i), (''state'', task_state_value target)]
      (''task_transition_'' @ i @ ''_'' @ str_int ?l) ?db"
  have fresh: "fresh_stamp sq ?db = fresh_stamp sq db" for sq by (simp add: fresh_stamp_def)
  obtain db' where pub: "?pub = Inr db'"
    using publish_change_returns [of sp ?db] assms(5) fresh unfolding append_Cons by blast
  have "fst (pg_atomic_transition sha sp i v states target ks db) = Inr (db', model_to_domain i ?r)"
    using assms(4) up pub by (auto simp: pg_atomic_transition_def Let_def)
  moreover have "td_tasks db' = dset (td_tasks db) i ?r" "td_workers db' = td_workers db"
    using publish_change_ok(1) [OF pub [unfolded append_Cons]] by simp_all
  moreover have "fresh_stamp sq db'" if "fresh_stamp sq db" "stamps_differ sp sq" for sq
    using publish_change_fresh [OF pub [unfolded append_Cons]] that fresh by simp
  ultimately show thesis using that by blast
qed

end
