(* ===== verification/TaskInvariants.thy ===== *)
theory TaskInvariants
  imports TaskRepo
begin

text \<open>
  What the tables of the task repository keep through the calls of workers: every change is
  published once under a key of its own, a task is failed exactly when it has a dead letter, and
  the audit chain of a task verifies and ends in the state of its row.
\<close>

section \<open>The invariant\<close>

definition each_task :: "(string \<Rightarrow> task_row \<Rightarrow> bool) \<Rightarrow> task_db \<Rightarrow> bool" where
  "each_task P db =
     list_all (\<lambda>i. case dget (td_tasks db) i of None \<Rightarrow> True | Some r \<Rightarrow> P i r) (dkeys (td_tasks db))"

lemma each_task_iff: "each_task P db \<longleftrightarrow> (\<forall>i r. dget (td_tasks db) i = Some r \<longrightarrow> P i r)"
proof
  assume "each_task P db"
  then show "\<forall>i r. dget (td_tasks db) i = Some r \<longrightarrow> P i r"
    unfolding each_task_def list_all_iff using dget_Some_in by (metis option.simps(5))
qed (auto simp: each_task_def list_all_iff split: option.split)

definition event_keys :: "string \<Rightarrow> int \<Rightarrow> string list" where
  "event_keys i l = (''task_created_'' @ i) # map (\<lambda>p. p @ i @ ''_'' @ str_int l) key_prefixes"

definition event_ok :: "task_db \<Rightarrow> outbox_row \<Rightarrow> bool" where
  "event_ok db e =
     (case dget (td_tasks db) (ob_aggregate_id e) of
        None \<Rightarrow> False
      | Some r \<Rightarrow>
          (case ob_deduplication_key e of
             None \<Rightarrow> False
           | Some k \<Rightarrow> k \<in> set (event_keys (ob_aggregate_id e) (ob_aggregate_sequence e)))
          \<and> ob_aggregate_sequence e \<le> ta_lease_version r)"

definition outbox_ok :: "task_db \<Rightarrow> bool" where
  "outbox_ok db = list_all (event_ok db) (map snd (td_outbox db))"

definition dead_ok :: "task_db \<Rightarrow> bool" where
  "dead_ok db = each_task (\<lambda>i r. (ta_state r = TS_FAILED) = (dget (td_dead db) i \<noteq> None)) db"

definition mirrors :: "(string \<Rightarrow> string) \<Rightarrow> audit_row list \<Rightarrow> string \<Rightarrow> task_row \<Rightarrow> bool" where
  "mirrors sha trail i r =
     (verify_chain_integrity sha i trail = Inr True \<and>
      (case rev (audit_rows i trail) of
         [] \<Rightarrow> False
       | a # _ \<Rightarrow> au_new_state a = task_state_value (ta_state r) \<and> au_lease_version a = ta_lease_version r))"

definition trail_ok :: "(string \<Rightarrow> string) \<Rightarrow> task_db \<Rightarrow> bool" where
  "trail_ok sha db = each_task (mirrors sha (td_audit db)) db"

definition db_ok :: "(string \<Rightarrow> string) \<Rightarrow> task_db \<Rightarrow> bool" where
  "db_ok sha db = (outbox_ok db \<and> dead_ok db \<and> trail_ok sha db)"

text \<open>The clock of a stamp is past every audit row of the task.\<close>

definition clock_ahead :: "stamp \<Rightarrow> string \<Rightarrow> task_db \<Rightarrow> bool" where
  "clock_ahead sp i db =
     list_all (\<lambda>q. au_task_id q \<noteq> i \<or> au_created_at q < sp_audit_time sp) (td_audit db)"

section \<open>Keys\<close>

lemma underscore_notin_str_int: "CHR ''_'' \<notin> set (str_int l)"
  using not_digit_str_nat [of "CHR ''_''"] by (simp add: str_int_def)

lemma str_int_inj: "str_int k = str_int l \<Longrightarrow> k = l"
proof -
  have m: "CHR ''-'' \<notin> set (str_nat n)" for n using not_digit_str_nat [of "CHR ''-''"] by simp
  assume "str_int k = str_int l"
  then show "k = l"
    using m [of "nat k"] m [of "nat l"]
    by (auto simp: str_int_def split: if_splits dest!: str_nat_inj)
      (metis m list.set_intros(1))+
qed

lemma versioned_key_inj:
  assumes "a @ ''_'' @ str_int k = b @ ''_'' @ str_int l"
  shows "a = b \<and> k = l"
  using split_at_last [of "CHR ''_''" "str_int k" "str_int l" a b] assms
    underscore_notin_str_int str_int_inj by auto

text \<open>A key names its task and its lease version.\<close>

lemma key_in_event_keys:
  assumes "p \<in> set key_prefixes" "p @ i @ ''_'' @ str_int l \<in> set (event_keys j m)"
  shows "i = j \<and> l = m"
  using assms
  by (auto simp: key_prefixes_def event_keys_def dest!: versioned_key_inj [of i l j m, simplified])

lemma fresh_key:
  assumes ok: "outbox_ok db" and r: "dget (td_tasks db) i = Some r" and new: "ta_lease_version r < l"
    and p: "p \<in> set key_prefixes"
  shows "find_key (p @ i @ ''_'' @ str_int l) (td_outbox db) = None"
  unfolding find_key_None
proof (intro ballI notI)
  fix e assume e: "e \<in> snd ` set (td_outbox db)"
    and k: "ob_deduplication_key e = Some (p @ i @ ''_'' @ str_int l)"
  from ok e have "event_ok db e" by (auto simp: outbox_ok_def list_all_iff)
  then obtain q where q: "dget (td_tasks db) (ob_aggregate_id e) = Some q"
      "p @ i @ ''_'' @ str_int l \<in> set (event_keys (ob_aggregate_id e) (ob_aggregate_sequence e))"
      "ob_aggregate_sequence e \<le> ta_lease_version q"
    using k by (auto simp: event_ok_def split: option.splits)
  from key_in_event_keys [OF p q(2)] q r new show False by simp
qed

section \<open>One change keeps it\<close>

lemma dead_ok_iff:
  "dead_ok db \<longleftrightarrow> (\<forall>i r. dget (td_tasks db) i = Some r \<longrightarrow> (ta_state r = TS_FAILED) = (dget (td_dead db) i \<noteq> None))"
  by (simp add: dead_ok_def each_task_iff)

lemma event_ok_mono:
  assumes "event_ok db e" "dget (td_tasks db) i = Some r" "ta_lease_version r \<le> ta_lease_version r'"
    "td_tasks db' = dset (td_tasks db) i r'"
  shows "event_ok db' e"
  using assms by (auto simp: event_ok_def split: option.splits)

lemma changed_publishes:
  assumes "changed sha sp i r r' dead db db'" "outbox_ok db" "dget (td_tasks db) i = Some r"
    "ta_lease_version r < ta_lease_version r'"
  obtains e where "td_outbox db' = td_outbox db @ [(''evt_'' @ sp_event_id sp, e)]" "ob_aggregate_id e = i"
    "ob_aggregate_sequence e = ta_lease_version r'" "ob_status e = OB_PENDING" "event_ok db' e"
  using assms(1)
proof (rule changedE)
  fix w k reason ev payload c p
  assume p: "c # p \<in> set key_prefixes" and tasks: "td_tasks db' = dset (td_tasks db) i r'"
    and st: "stage_event sha (sp_event_id sp) (sp_event_time sp) ''remediation_task'' i ev payload
        (ta_lease_version r') (Some (c # p @ i @ ''_'' @ str_int (ta_lease_version r'))) (td_outbox db)
        = Inr (td_outbox db')"
  from fresh_key [OF assms(2,3,4) p]
  have new: "find_key (c # p @ i @ ''_'' @ str_int (ta_lease_version r')) (td_outbox db) = None" by simp
  from st show thesis
  proof (cases rule: stage_event_cases)
    case (staged e)
    have "(c # p) @ i @ ''_'' @ str_int (ta_lease_version r') \<in> set (event_keys i (ta_lease_version r'))"
      unfolding event_keys_def using p by (intro list.set_intros(2)) (simp only: set_map image_eqI)
    with staged tasks have "event_ok db' e" by (simp add: event_ok_def)
    with staged that show thesis by blast
  qed (use new in simp)
qed

lemma mirrors_other:
  assumes "record_transition sha k now i p s w f l why trail = Inr trail'" "j \<noteq> i"
  shows "mirrors sha trail' j = mirrors sha trail j"
  using record_keeps_others [OF assms] by (simp add: mirrors_def verify_chain_integrity_def fun_eq_iff)

lemma mirrors_changed:
  assumes rec: "record_transition sha k now i p (task_state_value (ta_state r')) w f (ta_lease_version r') why trail
      = Inr trail'"
    and ok: "verify_chain_integrity sha i trail = Inr True"
    and clock: "\<And>q. q \<in> set trail \<Longrightarrow> au_task_id q = i \<Longrightarrow> au_created_at q < now"
  shows "mirrors sha trail' i r'"
proof -
  from rec obtain a where a: "trail' = trail @ [a]" "au_task_id a = i" "au_created_at a = now"
      "au_new_state a = task_state_value (ta_state r')" "au_lease_version a = ta_lease_version r'"
    by (rule record_transition_row) blast
  have "audit_rows i (trail @ [a]) = audit_rows i trail @ [a]"
    using audit_rows_snoc [of trail a] clock a(2,3) by (auto simp: audit_key_def less_prod_def)
  with a record_transition_verifies [OF rec ok clock] show ?thesis by (simp add: mirrors_def)
qed

lemma changed_ok:
  assumes ch: "changed sha sp i r r' dead db db'" and r: "dget (td_tasks db) i = Some r"
    and lease: "ta_lease_version r < ta_lease_version r'" and ok: "db_ok sha db"
    and clock: "clock_ahead sp i db"
    and dead: "dead = td_dead db \<or> (\<exists>d. dget (td_dead db) i = None \<and> dead = dset (td_dead db) i d)"
    and fail: "(ta_state r' = TS_FAILED) = (dead \<noteq> td_dead db)" and live: "ta_state r \<noteq> TS_FAILED"
  shows "db_ok sha db'"
proof -
  from ch obtain w k reason where tasks: "td_tasks db' = dset (td_tasks db) i r'" and dead': "td_dead db' = dead"
    and rec: "record_transition sha (sp_audit_id sp) (sp_audit_time sp) i (task_state_value (ta_state r))
        (task_state_value (ta_state r')) w k (ta_lease_version r') reason (td_audit db) = Inr (td_audit db')"
    by (rule changedE) blast
  from ok have okd: "outbox_ok db" "dead_ok db" "trail_ok sha db" by (simp_all add: db_ok_def)
  have "outbox_ok db'"
  proof (rule changed_publishes [OF ch okd(1) r lease])
    fix e assume e: "td_outbox db' = td_outbox db @ [(''evt_'' @ sp_event_id sp, e)]" "event_ok db' e"
    have "event_ok db' x" if "x \<in> snd ` set (td_outbox db)" for x
    proof (rule event_ok_mono [OF _ r _ tasks])
      show "event_ok db x" using okd(1) that by (auto simp: outbox_ok_def list_all_iff)
    qed (use lease in simp)
    with e show ?thesis by (auto simp: outbox_ok_def list_all_iff)
  qed
  moreover have "dead_ok db'"
    unfolding dead_ok_iff
  proof (intro allI impI)
    fix j q assume q: "dget (td_tasks db') j = Some q"
    show "(ta_state q = TS_FAILED) = (dget (td_dead db') j \<noteq> None)"
    proof (cases "j = i")
      case True
      have "dget (td_dead db) i = None" using okd(2) r live by (auto simp: dead_ok_iff)
      with True q tasks dead dead' fail show ?thesis by auto
    next
      case False
      with q tasks okd(2) have "(ta_state q = TS_FAILED) = (dget (td_dead db) j \<noteq> None)"
        by (simp add: dead_ok_iff)
      with False dead dead' show ?thesis by auto
    qed
  qed
  moreover have "trail_ok sha db'"
    unfolding trail_ok_def each_task_iff
  proof (intro allI impI)
    fix j q assume q: "dget (td_tasks db') j = Some q"
    show "mirrors sha (td_audit db') j q"
    proof (cases "j = i")
      case True
      have "verify_chain_integrity sha i (td_audit db) = Inr True"
        using okd(3) r by (auto simp: trail_ok_def each_task_iff mirrors_def)
      moreover have "au_created_at x < sp_audit_time sp" if "x \<in> set (td_audit db)" "au_task_id x = i" for x
        using clock that by (auto simp: clock_ahead_def list_all_iff)
      ultimately have "mirrors sha (td_audit db') i r'" by (rule mirrors_changed [OF rec])
      with True q tasks show ?thesis by simp
    next
      case False
      with q tasks okd(3) have "mirrors sha (td_audit db) j q" by (simp add: trail_ok_def each_task_iff)
      with mirrors_other [OF rec False] show ?thesis by simp
    qed
  qed
  ultimately show ?thesis by (simp add: db_ok_def)
qed

lemma view_lease: "row_view r' = call_effect c (row_view r) \<Longrightarrow> ta_lease_version r' = ta_lease_version r + 1"
  using effect_lease [of c "row_view r"] by (metis row_view_def task_view.select_convs(4))

lemma pg_do_keeps_ok:
  assumes "pg_do sha c db = Inr (db', t)" "db_ok sha db" "clock_ahead (pg_stamp c) (call_task (pg_kind c)) db"
  shows "db_ok sha db'"
  using assms(1)
proof (rule pg_do_step)
  fix r r' dead
  assume a: "dget (td_tasks db) (call_task (pg_kind c)) = Some r" "call_enabled (pg_kind c) (row_view r)"
    "row_view r' = call_effect (pg_kind c) (row_view r)"
    "changed sha (pg_stamp c) (call_task (pg_kind c)) r r' dead db db'"
    "dead = td_dead db \<or>
       (\<exists>d. dget (td_dead db) (call_task (pg_kind c)) = None \<and> dead = dset (td_dead db) (call_task (pg_kind c)) d)"
    "(ta_state r' = TS_FAILED) = (dead \<noteq> td_dead db)"
  have "ta_state r \<noteq> TS_FAILED"
    using enabled_live [OF a(2)] by (auto simp: row_view_def terminal_task_def)
  with changed_ok [OF a(4,1) _ assms(2,3) a(5,6)] view_lease [OF a(3)] show ?thesis by simp
qed

section \<open>Any calls of workers\<close>

lemma pg_do_appends:
  assumes "pg_do sha c db = Inr (db', t)" "outbox_ok db"
  obtains e a where "td_outbox db' = td_outbox db @ [(''evt_'' @ sp_event_id (pg_stamp c), e)]"
    "td_audit db' = td_audit db @ [a]" "au_created_at a = sp_audit_time (pg_stamp c)"
  using assms(1)
proof (rule pg_do_step)
  fix r r' dead
  assume a: "dget (td_tasks db) (call_task (pg_kind c)) = Some r"
    "row_view r' = call_effect (pg_kind c) (row_view r)"
    "changed sha (pg_stamp c) (call_task (pg_kind c)) r r' dead db db'"
  have "ta_lease_version r < ta_lease_version r'" using view_lease [OF a(2)] by simp
  from changed_publishes [OF a(3) assms(2) a(1) this] obtain e where
    e: "td_outbox db' = td_outbox db @ [(''evt_'' @ sp_event_id (pg_stamp c), e)]" by blast
  from a(3) obtain w k why where "record_transition sha (sp_audit_id (pg_stamp c)) (sp_audit_time (pg_stamp c))
      (call_task (pg_kind c)) (task_state_value (ta_state r)) (task_state_value (ta_state r')) w k
      (ta_lease_version r') why (td_audit db) = Inr (td_audit db')"
    by (rule changedE) blast
  then obtain x where "td_audit db' = td_audit db @ [x]" "au_created_at x = sp_audit_time (pg_stamp c)"
    by (rule record_transition_row) blast
  with e that show thesis by blast
qed

definition past_all :: "task_db \<Rightarrow> pg_call \<Rightarrow> bool" where
  "past_all db c = list_all (\<lambda>q. au_created_at q < sp_audit_time (pg_stamp c)) (td_audit db)"

lemma past_all_ahead: "past_all db c \<Longrightarrow> clock_ahead (pg_stamp c) i db"
  by (auto simp: past_all_def clock_ahead_def list_all_iff)

text \<open>
  C31: Through any sequence of assignments, completions and failure reports whose audit clock moves
  forward the tables stay consistent (\<open>db_ok\<close>): each task's audit chain verifies and ends in the
  state and lease version of its row, a task is failed exactly when it has a dead letter, and every
  event's key names its task and a lease version the task has reached. Every accepted call adds
  exactly one event and one audit row, a refused one nothing.
\<close>

theorem tables_stay_consistent:
  assumes "db_ok sha db" "run_calls (pg_exec sha) cs db = (acc, db')"
    and "sorted_wrt (<) (map (\<lambda>c. sp_audit_time (pg_stamp c)) cs)" "list_all (past_all db) cs"
  shows "db_ok sha db' \<and> length (td_outbox db') = length (td_outbox db) + length acc \<and>
    length (td_audit db') = length (td_audit db) + length acc"
  using assms
proof (induction cs arbitrary: db acc)
  case (Cons c cs)
  show ?case
  proof (cases "pg_exec sha c db")
    case None
    with Cons show ?thesis by simp
  next
    case (Some db1)
    then obtain t where run: "pg_do sha c db = Inr (db1, t)" by (auto simp: pg_exec_def split: sum.splits)
    obtain a1 where a1: "run_calls (pg_exec sha) cs db1 = (a1, db')" "acc = c # a1"
      using Cons.prems(2) Some by (auto split: prod.splits)
    have ok: "db_ok sha db1"
      using pg_do_keeps_ok [OF run Cons.prems(1)] past_all_ahead Cons.prems(4) by simp
    have "outbox_ok db" using Cons.prems(1) by (simp add: db_ok_def)
    from pg_do_appends [OF run this] obtain e a
      where e: "td_outbox db1 = td_outbox db @ [(''evt_'' @ sp_event_id (pg_stamp c), e)]"
        "td_audit db1 = td_audit db @ [a]" "au_created_at a = sp_audit_time (pg_stamp c)" by blast
    have "list_all (past_all db1) cs"
      using Cons.prems(3,4) e(2,3) by (auto simp: past_all_def list_all_iff)
    with Cons.IH [OF ok a1(1)] Cons.prems(3) a1(2) e show ?thesis by simp
  qed
qed simp

definition demo_stamp :: "string \<Rightarrow> int \<Rightarrow> stamp" where
  "demo_stamp i now =
     \<lparr> sp_audit_id = i, sp_audit_time = now, sp_event_id = i, sp_event_time = now, sp_dead_id = i \<rparr>"

definition empty_db :: task_db where
  "empty_db = \<lparr> td_tasks = [], td_workers = [], td_dead = [], td_audit = [], td_outbox = [] \<rparr>"

definition demo_task :: task where
  "demo_task = new_task ''T'' ''F'' ''A'' '''' ''fp'' TS_QUEUED 0 1 300"

text \<open>A created task; then it is assigned, fails for the last time and is asked for again.\<close>

definition demo_db :: task_db where
  "demo_db =
     (case pg_create (\<lambda>s. ''00'') (demo_stamp ''a'' 1) demo_task empty_db of Inl e \<Rightarrow> empty_db | Inr db \<Rightarrow> db)"

definition demo_calls :: "pg_call list" where
  "demo_calls =
     [PgAssign (demo_stamp ''b'' 2) ''T'' ''w'', PgFail (demo_stamp ''c'' 3) ''T'' 2 ''w'' 1 ''boom'',
      PgComplete (demo_stamp ''d'' 4) ''T'' 2 ''w'' 1 None None None]"

abbreviation demo_run :: "pg_call list \<times> task_db" where
  "demo_run \<equiv> run_calls (pg_exec (\<lambda>s. ''00'')) demo_calls demo_db"

theorem tables_stay_consistent_witness:
  "length (td_outbox (snd demo_run)) = 3 \<and> db_ok (\<lambda>s. ''00'') (snd demo_run)"
proof -
  have "db_ok (\<lambda>s. ''00'') demo_db" "length (td_outbox demo_db) = 1"
    "sorted_wrt (<) (map (\<lambda>c. sp_audit_time (pg_stamp c)) demo_calls)" "list_all (past_all demo_db) demo_calls"
    "length (fst demo_run) = 2"
    by code_simp+
  then show ?thesis
    using tables_stay_consistent [of "\<lambda>s. ''00''" demo_db demo_calls, OF _ surjective_pairing] by simp
qed

text \<open>
  C32: Through any interleaving of assignments, completions and failure reports, each one step on
  the tables, the lease version of a task counts exactly the calls that were accepted for it, no
  lease version of it is committed twice, its attempts stay within their maximum, and a task in a
  terminal state keeps it.
\<close>

theorem worker_calls_fenced:
  assumes "run_calls (pg_exec sha) cs db = (acc, db')" "dget (td_tasks db) i = Some r"
    and "ta_attempts r \<le> ta_max_attempts r"
  shows "\<exists>r'. dget (td_tasks db') i = Some r' \<and>
    ta_lease_version r' = ta_lease_version r + int (length [c \<leftarrow> acc. call_task (pg_kind c) = i]) \<and>
    distinct (concat (map (commit_of i \<circ> pg_kind) acc)) \<and>
    ta_attempts r' \<le> ta_max_attempts r' \<and> ta_max_attempts r' = ta_max_attempts r \<and>
    (terminal_task (ta_state r) \<longrightarrow> ta_state r' = ta_state r)"
proof -
  have v: "pg_view db i = Some (row_view r)" using assms(2) by (simp add: pg_view_def)
  from pg.run_lease [OF assms(1) v] obtain r' where r': "dget (td_tasks db') i = Some r'"
      "ta_lease_version r' = ta_lease_version r + int (length [c \<leftarrow> acc. call_task (pg_kind c) = i])"
    by (auto simp: pg_view_def row_view_def)
  moreover have "ta_attempts r' \<le> ta_max_attempts r' \<and> ta_max_attempts r' = ta_max_attempts r"
    using pg.run_attempts [OF assms(1) v] assms(3) r'(1) by (auto simp: pg_view_def row_view_def)
  moreover have "ta_state r' = ta_state r" if "terminal_task (ta_state r)"
    using pg.run_terminal [OF assms(1) v] that r'(1) by (auto simp: pg_view_def row_view_def)
  ultimately show ?thesis using pg.commits_once [OF assms(1) v] by blast
qed

theorem worker_calls_fenced_witness:
  "\<exists>r'. dget (td_tasks (snd demo_run)) ''T'' = Some r' \<and> ta_lease_version r' = 3 \<and>
     ta_attempts r' \<le> ta_max_attempts r'"
proof -
  have "map_option (\<lambda>r. (ta_attempts r, ta_max_attempts r, ta_lease_version r)) (dget (td_tasks demo_db) ''T'')
      = Some (0, 1, 1)"
    by code_simp
  then obtain r where r: "dget (td_tasks demo_db) ''T'' = Some r" "ta_attempts r \<le> ta_max_attempts r"
      "ta_lease_version r = 1" by auto
  have "length [c \<leftarrow> fst demo_run. call_task (pg_kind c) = ''T''] = 2" by code_simp
  then show ?thesis
    using worker_calls_fenced [of "\<lambda>s. ''00''" demo_calls demo_db, OF surjective_pairing r(1,2)] r(3) by auto
qed

end
