(* ===== verification/WorkerStore.thy ===== *)
theory WorkerStore
  imports TaskInvariants
begin

text \<open>
  Workers: the rows of \<^verbatim>\<open>persistence/postgres_worker_repository.py\<close>, the registry in memory of
  \<^verbatim>\<open>workers/worker_registry.py\<close> and the health check of \<^verbatim>\<open>workers/heartbeat.py\<close>. Row times are
  microseconds, the registry's are seconds. A worker is registered, beats, drains, is fenced; a
  fence raises the worker's token, and the task repository refuses smaller ones.
\<close>

section \<open>The worker table\<close>

record worker_node =
  no_worker_id :: string
  no_hostname :: "string option"
  no_status :: worker_status

definition host_or_local :: "string option \<Rightarrow> string" where
  "host_or_local h = (case h of Some (c # s) \<Rightarrow> c # s | _ \<Rightarrow> ''localhost'')"

text \<open>
  Registration reads the row, updates or inserts it. When another session inserts it in between
  (\<open>lost_race\<close>), the insertion violates the unique column and the row is read once more.
\<close>

definition pg_register ::
  "(string \<Rightarrow> string) \<Rightarrow> int \<Rightarrow> bool \<Rightarrow> string \<Rightarrow> string \<Rightarrow> string \<Rightarrow> task_db
     \<Rightarrow> task_error + task_db \<times> worker_node" where
  "pg_register sha now lost_race worker_id token hostname db =
     (case dget (td_workers db) worker_id of
        None \<Rightarrow>
          Inr (db\<lparr> td_workers := dset (td_workers db) worker_id
                  \<lparr> wk_auth_token_hash = sha token, wk_hostname = Some hostname, wk_status = WS_ONLINE,
                    wk_fencing_token = 1, wk_heartbeat_sequence = 0, wk_last_heartbeat = now \<rparr> \<rparr>,
               \<lparr> no_worker_id = worker_id, no_hostname = Some hostname, no_status = WS_ONLINE \<rparr>)
      | Some w \<Rightarrow>
          if wk_auth_token_hash w \<noteq> sha token then Inl TaskValueError
          else if lost_race then
            Inr (db, \<lparr> no_worker_id = worker_id, no_hostname = wk_hostname w,
                       no_status = wk_status w \<rparr>)
          else
            Inr (db\<lparr> td_workers := dset (td_workers db) worker_id
                    (w\<lparr> wk_hostname := Some hostname, wk_status := WS_ONLINE, wk_last_heartbeat := now \<rparr>) \<rparr>,
                 \<lparr> no_worker_id = worker_id, no_hostname = Some hostname, no_status = WS_ONLINE \<rparr>))"

definition pg_authenticate :: "(string \<Rightarrow> string) \<Rightarrow> string \<Rightarrow> string \<Rightarrow> task_db \<Rightarrow> bool" where
  "pg_authenticate sha worker_id token db =
     (case dget (td_workers db) worker_id of None \<Rightarrow> False | Some w \<Rightarrow> wk_auth_token_hash w = sha token)"

definition token_or_default :: "string option \<Rightarrow> string" where
  "token_or_default t = (case t of Some (c # s) \<Rightarrow> c # s | _ \<Rightarrow> ''secret-worker-token'')"

definition pg_heartbeat ::
  "(string \<Rightarrow> string) \<Rightarrow> int \<Rightarrow> string \<Rightarrow> int \<Rightarrow> string option \<Rightarrow> task_db \<Rightarrow> task_error + task_db" where
  "pg_heartbeat sha now worker_id sequence token db =
     (let (workers, rowcount) =
        update_row (td_workers db) worker_id
          (\<lambda>w. wk_heartbeat_sequence w < sequence \<and> wk_auth_token_hash w = sha (token_or_default token))
          (\<lambda>w. w\<lparr> wk_heartbeat_sequence := sequence, wk_last_heartbeat := now, wk_status := WS_ONLINE \<rparr>)
      in if rowcount = 1 then Inr (db\<lparr> td_workers := workers \<rparr>) else Inl TaskValueError)"

definition pg_get_worker :: "string \<Rightarrow> task_db \<Rightarrow> worker_node option" where
  "pg_get_worker worker_id db =
     map_option (\<lambda>w. \<lparr> no_worker_id = worker_id, no_hostname = Some (host_or_local (wk_hostname w)),
                       no_status = wk_status w \<rparr>)
       (dget (td_workers db) worker_id)"

definition pg_mark_offline :: "string \<Rightarrow> task_db \<Rightarrow> task_db" where
  "pg_mark_offline worker_id db =
     (case dget (td_workers db) worker_id of
        None \<Rightarrow> db
      | Some w \<Rightarrow> db\<lparr> td_workers := dset (td_workers db) worker_id (w\<lparr> wk_status := WS_OFFLINE \<rparr>) \<rparr>)"

definition pg_mark_draining :: "string \<Rightarrow> task_db \<Rightarrow> task_db" where
  "pg_mark_draining worker_id db =
     (case dget (td_workers db) worker_id of
        None \<Rightarrow> db
      | Some w \<Rightarrow>
          if wk_status w = WS_ONLINE
          then db\<lparr> td_workers := dset (td_workers db) worker_id (w\<lparr> wk_status := WS_DRAINING \<rparr>) \<rparr>
          else db)"

definition runs_for :: "string \<Rightarrow> task_row \<Rightarrow> bool" where
  "runs_for worker_id r = (ta_worker r = Some worker_id \<and> ta_state r = TS_RUNNING)"

definition pg_mark_drained :: "string \<Rightarrow> task_db \<Rightarrow> task_db \<times> bool" where
  "pg_mark_drained worker_id db =
     (case dget (td_workers db) worker_id of
        None \<Rightarrow> (db, False)
      | Some w \<Rightarrow>
          if wk_status w \<noteq> WS_DRAINING then (db, False)
          else if list_ex (runs_for worker_id) (map snd (td_tasks db)) then (db, False)
          else (db\<lparr> td_workers := dset (td_workers db) worker_id (w\<lparr> wk_status := WS_DRAINED \<rparr>) \<rparr>, True))"

definition pg_mark_fenced :: "string \<Rightarrow> task_db \<Rightarrow> task_db" where
  "pg_mark_fenced worker_id db =
     (case dget (td_workers db) worker_id of
        None \<Rightarrow> db
      | Some w \<Rightarrow>
          if wk_status w \<in> {WS_DRAINING, WS_ONLINE}
          then db\<lparr> td_workers := dset (td_workers db) worker_id
                    (w\<lparr> wk_status := WS_FENCED, wk_fencing_token := wk_fencing_token w + 1 \<rparr>) \<rparr>
          else db)"

definition pg_active_task_count :: "string \<Rightarrow> task_db \<Rightarrow> nat" where
  "pg_active_task_count worker_id db = length [r \<leftarrow> map snd (td_tasks db). runs_for worker_id r]"

definition pg_list_active :: "int \<Rightarrow> int \<Rightarrow> task_db \<Rightarrow> worker_node list" where
  "pg_list_active now max_age_seconds db =
     map (\<lambda>(i, w). \<lparr> no_worker_id = i, no_hostname = Some (host_or_local (wk_hostname w)), no_status = wk_status w \<rparr>)
       (sort_key fst
         [(i, w) \<leftarrow> td_workers db. wk_status w \<in> {WS_ONLINE, WS_DEGRADED} \<and>
            wk_last_heartbeat w \<ge> now - max_age_seconds * 1000000])"

section \<open>The registry in memory\<close>

record registry_node =
  rn_hostname :: string
  rn_version :: string
  rn_started_at :: real
  rn_last_heartbeat :: real
  rn_status :: worker_status
  rn_auth_token_hash :: string
  rn_heartbeat_sequence :: int

type_synonym registry = "(string, registry_node) dict"

datatype heartbeat_alarm =
    UnregisteredWorker string
  | InvalidAuthToken string
  | ReplayedHeartbeat string int int

definition registry_token :: "string \<Rightarrow> string option \<Rightarrow> string" where
  "registry_token worker_id t = (case t of Some (c # s) \<Rightarrow> c # s | _ \<Rightarrow> ''worker_secret_'' @ worker_id)"

definition update_heartbeat :: "real \<Rightarrow> int option \<Rightarrow> registry_node \<Rightarrow> registry_node" where
  "update_heartbeat now sequence n =
     n\<lparr> rn_last_heartbeat := now,
        rn_heartbeat_sequence := (case sequence of None \<Rightarrow> rn_heartbeat_sequence n | Some s \<Rightarrow> s),
        rn_status := WS_ONLINE \<rparr>"

definition reg_register ::
  "(string \<Rightarrow> string) \<Rightarrow> real \<Rightarrow> string \<Rightarrow> string \<Rightarrow> string \<Rightarrow> string option \<Rightarrow> registry
     \<Rightarrow> task_error + registry \<times> registry_node" where
  "reg_register sha now worker_id hostname version token g =
     (let h = sha (registry_token worker_id token) in
      case dget g worker_id of
        Some n \<Rightarrow>
          if rn_auth_token_hash n \<noteq> h then Inl TaskValueError
          else let n' = update_heartbeat now None n in Inr (dset g worker_id n', n')
      | None \<Rightarrow>
          let n = \<lparr> rn_hostname = hostname, rn_version = version, rn_started_at = now,
                    rn_last_heartbeat = now, rn_status = WS_ONLINE, rn_auth_token_hash = h,
                    rn_heartbeat_sequence = 0 \<rparr>
          in Inr (dset g worker_id n, n))"

definition reg_heartbeat ::
  "(string \<Rightarrow> string) \<Rightarrow> real \<Rightarrow> string \<Rightarrow> string option \<Rightarrow> int option \<Rightarrow> registry
     \<Rightarrow> (registry \<times> bool) \<times> heartbeat_alarm option" where
  "reg_heartbeat sha now worker_id token sequence g =
     (case dget g worker_id of
        None \<Rightarrow> ((g, False), Some (UnregisteredWorker worker_id))
      | Some n \<Rightarrow>
          if sha (registry_token worker_id token) \<noteq> rn_auth_token_hash n
          then ((g, False), Some (InvalidAuthToken worker_id))
          else case sequence of
              None \<Rightarrow> ((dset g worker_id (update_heartbeat now None n), True), None)
            | Some s \<Rightarrow>
                if s \<le> rn_heartbeat_sequence n
                then ((g, False), Some (ReplayedHeartbeat worker_id s (rn_heartbeat_sequence n)))
                else ((dset g worker_id (update_heartbeat now (Some s) n), True), None))"

definition reg_mark_offline :: "string \<Rightarrow> registry \<Rightarrow> registry" where
  "reg_mark_offline worker_id g =
     (case dget g worker_id of None \<Rightarrow> g | Some n \<Rightarrow> dset g worker_id (n\<lparr> rn_status := WS_OFFLINE \<rparr>))"

definition reg_list_all :: "registry \<Rightarrow> (string \<times> registry_node) list" where
  "reg_list_all g = sort_key fst g"

definition reg_list_active :: "registry \<Rightarrow> (string \<times> registry_node) list" where
  "reg_list_active g = sort_key fst [(i, n) \<leftarrow> g. rn_status n \<in> {WS_ONLINE, WS_DEGRADED}]"

definition health :: "real \<Rightarrow> registry_node \<Rightarrow> worker_status" where
  "health now n =
     (let age = now - rn_last_heartbeat n in
      if age > 90 then WS_OFFLINE else if age > 45 then WS_DEGRADED else WS_ONLINE)"

definition evaluate_workers :: "real \<Rightarrow> registry \<Rightarrow> registry \<times> nat" where
  "evaluate_workers now g =
     (map (\<lambda>(i, n). (i, n\<lparr> rn_status := health now n \<rparr>)) g,
      length [(i, n) \<leftarrow> g. rn_status n \<noteq> health now n])"

section \<open>Steps of the cluster\<close>

datatype worker_op =
    WRegister int bool string string string
  | WHeartbeat int string int "string option"
  | WOffline string
  | WDraining string
  | WDrained string
  | WFenced string
  | WTask pg_call

fun cluster_step :: "(string \<Rightarrow> string) \<Rightarrow> worker_op \<Rightarrow> task_db \<Rightarrow> task_db" where
  "cluster_step sha (WRegister now race i token host) db =
     (case pg_register sha now race i token host db of Inl e \<Rightarrow> db | Inr (db', n) \<Rightarrow> db')"
| "cluster_step sha (WHeartbeat now i s token) db =
     (case pg_heartbeat sha now i s token db of Inl e \<Rightarrow> db | Inr db' \<Rightarrow> db')"
| "cluster_step sha (WOffline i) db = pg_mark_offline i db"
| "cluster_step sha (WDraining i) db = pg_mark_draining i db"
| "cluster_step sha (WDrained i) db = fst (pg_mark_drained i db)"
| "cluster_step sha (WFenced i) db = pg_mark_fenced i db"
| "cluster_step sha (WTask c) db = (case pg_exec sha c db of None \<Rightarrow> db | Some db' \<Rightarrow> db')"

fun cluster_run :: "(string \<Rightarrow> string) \<Rightarrow> worker_op list \<Rightarrow> task_db \<Rightarrow> task_db" where
  "cluster_run sha [] db = db"
| "cluster_run sha (x # xs) db = cluster_run sha xs (cluster_step sha x db)"

lemma pg_exec_workers: "pg_exec sha c db = Some db' \<Longrightarrow> td_workers db' = td_workers db"
  by (auto simp: pg_exec_def split: sum.splits elim!: pg_do_step changedE)

lemma pg_exec_task:
  assumes "pg_exec sha c db = Some db'"
  obtains r r' where "dget (td_tasks db) (call_task (pg_kind c)) = Some r"
    "row_view r' = call_effect (pg_kind c) (row_view r)"
    "td_tasks db' = dset (td_tasks db) (call_task (pg_kind c)) r'" "td_workers db' = td_workers db"
  using assms by (auto simp: pg_exec_def split: sum.splits elim!: pg_do_step changedE)

text \<open>No step lowers a fencing token.\<close>

definition token_at_least :: "string \<Rightarrow> int \<Rightarrow> task_db \<Rightarrow> bool" where
  "token_at_least w k db = (case dget (td_workers db) w of None \<Rightarrow> False | Some r \<Rightarrow> wk_fencing_token r \<ge> k)"

lemma cluster_step_token: "token_at_least w k db \<Longrightarrow> token_at_least w k (cluster_step sha x db)"
proof (cases x)
  case (WHeartbeat now i s token)
  assume "token_at_least w k db"
  then show ?thesis using WHeartbeat
    by (auto simp: token_at_least_def pg_heartbeat_def update_row_def split: option.splits)
qed (auto simp: token_at_least_def pg_register_def pg_mark_offline_def pg_mark_draining_def
       pg_mark_drained_def pg_mark_fenced_def Let_def dest: pg_exec_workers
       split: option.splits sum.splits prod.splits if_splits)

lemma cluster_run_token: "token_at_least w k db \<Longrightarrow> token_at_least w k (cluster_run sha xs db)"
  by (induction xs arbitrary: db) (auto intro: cluster_step_token)

lemma small_token_fenced:
  "token_at_least w k db \<Longrightarrow> j < k \<Longrightarrow> held_task i v w j db = Inl WorkerFenced"
  by (auto simp: token_at_least_def held_task_def worker_fenced_def split: option.splits)

lemma mark_fenced_token:
  "dget (td_workers db) w = Some r \<Longrightarrow> wk_status r \<in> {WS_ONLINE, WS_DRAINING} \<Longrightarrow>
     token_at_least w (wk_fencing_token r + 1) (pg_mark_fenced w db)"
  by (auto simp: token_at_least_def pg_mark_fenced_def)

text \<open>Sequence numbers of heartbeats only grow: no beat is accepted twice.\<close>

lemma heartbeat_ok:
  assumes "pg_heartbeat sha now w s token db = Inr db'"
  obtains r where "dget (td_workers db) w = Some r" "wk_heartbeat_sequence r < s"
    "wk_auth_token_hash r = sha (token_or_default token)"
    "td_workers db' = dset (td_workers db) w
       (r\<lparr> wk_heartbeat_sequence := s, wk_last_heartbeat := now, wk_status := WS_ONLINE \<rparr>)"
  using assms by (auto simp: pg_heartbeat_def update_row_def split: option.splits if_splits)

section \<open>A drained worker runs nothing\<close>

definition drained_idle :: "task_db \<Rightarrow> bool" where
  "drained_idle db =
     each_task (\<lambda>i r. case ta_worker r of None \<Rightarrow> True
        | Some w \<Rightarrow> (case dget (td_workers db) w of None \<Rightarrow> True
            | Some x \<Rightarrow> \<not> (wk_status x = WS_DRAINED \<and> ta_state r = TS_RUNNING))) db"

lemma drained_idle_iff:
  "drained_idle db \<longleftrightarrow>
     (\<forall>i r w x. dget (td_tasks db) i = Some r \<longrightarrow> runs_for w r \<longrightarrow> dget (td_workers db) w = Some x \<longrightarrow>
        wk_status x \<noteq> WS_DRAINED)"
  unfolding drained_idle_def each_task_iff runs_for_def
  by (fastforce split: option.splits)

lemma drained_idle_workers:
  assumes "drained_idle db" "td_tasks db' = td_tasks db"
    and "\<And>w x. dget (td_workers db') w = Some x \<Longrightarrow> wk_status x = WS_DRAINED \<Longrightarrow>
      (\<exists>y. dget (td_workers db) w = Some y \<and> wk_status y = WS_DRAINED) \<or>
      \<not> list_ex (runs_for w) (map snd (td_tasks db))"
  shows "drained_idle db'"
  unfolding drained_idle_iff
proof (intro allI impI notI)
  fix i r w x
  assume r: "dget (td_tasks db') i = Some r" "runs_for w r" and x: "dget (td_workers db') w = Some x"
    "wk_status x = WS_DRAINED"
  have "(i, r) \<in> set (td_tasks db)" using r(1) assms(2) by (simp add: map_of_SomeD)
  then have "list_ex (runs_for w) (map snd (td_tasks db))" using r(2) by (force simp: list_ex_iff)
  with assms(3) [OF x] obtain y where "dget (td_workers db) w = Some y" "wk_status y = WS_DRAINED" by blast
  with assms(1) r assms(2) show False by (auto simp: drained_idle_iff)
qed

text \<open>A task call puts a task to run only on a worker that may be assigned.\<close>

lemma drained_idle_task:
  assumes ok: "drained_idle db" and ex: "pg_exec sha c db = Some db'"
  shows "drained_idle db'"
proof -
  obtain r' where t: "td_tasks db' = dset (td_tasks db) (call_task (pg_kind c)) r'"
      "td_workers db' = td_workers db"
    and idle: "\<And>w x. runs_for w r' \<Longrightarrow> dget (td_workers db) w = Some x \<Longrightarrow> wk_status x \<noteq> WS_DRAINED"
  proof (cases c)
    case (PgAssign sp i w)
    from ex PgAssign obtain tk where "pg_assign sha sp i w db = Inr (db', tk)"
      by (auto simp: pg_exec_def split: sum.splits)
    then show thesis
    proof (rule pg_assign_step)
      fix r r' assume ch: "changed sha sp i r r' (td_dead db) db db'" and w: "ta_worker r' = Some w"
        and may: "may_be_assigned (dget (td_workers db) w)"
      from ch have "td_tasks db' = dset (td_tasks db) i r'" "td_workers db' = td_workers db"
        by (auto elim: changedE)
      moreover have "wk_status x \<noteq> WS_DRAINED" if "runs_for u r'" "dget (td_workers db) u = Some x" for u x
        using that w may by (auto simp: runs_for_def may_be_assigned_def)
      ultimately show thesis using PgAssign by (intro that [of r']) auto
    qed
  next
    case (PgComplete sp i v w k rc rf st)
    from ex show thesis
    proof (rule pg_exec_task)
      fix r r' assume a: "row_view r' = call_effect (pg_kind c) (row_view r)"
        "td_tasks db' = dset (td_tasks db) (call_task (pg_kind c)) r'" "td_workers db' = td_workers db"
      have "ta_state r' \<noteq> TS_RUNNING"
        using arg_cong [OF a(1), of tv_state] PgComplete by (simp add: row_view_def)
      with a show thesis by (intro that [of r']) (auto simp: runs_for_def)
    qed
  next
    case (PgFail sp i v w k msg)
    from ex show thesis
    proof (rule pg_exec_task)
      fix r r' assume a: "row_view r' = call_effect (pg_kind c) (row_view r)"
        "td_tasks db' = dset (td_tasks db) (call_task (pg_kind c)) r'" "td_workers db' = td_workers db"
      have "ta_state r' \<noteq> TS_RUNNING"
        using arg_cong [OF a(1), of tv_state] PgFail by (simp add: row_view_def split: if_splits)
      with a show thesis by (intro that [of r']) (auto simp: runs_for_def)
    qed
  qed
  show ?thesis
    unfolding drained_idle_iff
  proof (intro allI impI)
    fix j q w x assume q: "dget (td_tasks db') j = Some q" "runs_for w q" and x: "dget (td_workers db') w = Some x"
    show "wk_status x \<noteq> WS_DRAINED"
    proof (cases "j = call_task (pg_kind c)")
      case True
      with q t have "runs_for w r'" by simp
      with idle x t show ?thesis by simp
    next
      case False
      with q t x ok show ?thesis by (auto simp: drained_idle_iff)
    qed
  qed
qed

lemma drained_idle_step:
  assumes "drained_idle db"
  shows "drained_idle (cluster_step sha x db)"
proof (cases x)
  case (WTask c)
  then show ?thesis using assms drained_idle_task by (auto split: option.split)
next
  case (WHeartbeat now i s token)
  then show ?thesis using assms
    by (auto elim!: heartbeat_ok intro!: drained_idle_workers [OF assms]
        simp: pg_heartbeat_def update_row_def split: option.splits sum.splits prod.splits if_splits)
next
  case (WDrained i)
  then show ?thesis
    by (auto intro!: drained_idle_workers [OF assms] simp: pg_mark_drained_def assms split: option.splits if_splits)
qed (auto intro!: drained_idle_workers [OF assms]
       simp: assms pg_register_def pg_mark_offline_def pg_mark_draining_def pg_mark_fenced_def Let_def
       split: option.splits sum.splits prod.splits if_splits)

lemma drained_idle_run: "drained_idle db \<Longrightarrow> drained_idle (cluster_run sha xs db)"
  by (induction xs arbitrary: db) (auto intro: drained_idle_step)

section \<open>Properties\<close>

text \<open>
  C33: Once an online or draining worker has been fenced, it never ends a task again with the token
  it held, whatever it and the others do afterwards: after any sequence of registrations, beats,
  drains, fences and task calls every completion and every failure report of it under that token
  is refused. Each call is one step on the tables; the code reads the worker's row without locking
  it, so a fence that commits between that read and the commit of the same call is outside.
\<close>

theorem fenced_token_never_commits:
  assumes "dget (td_workers db) w = Some r" "wk_status r \<in> {WS_ONLINE, WS_DRAINING}" "k \<le> wk_fencing_token r"
  shows "pg_complete sha sp i v w k rc rf st (cluster_run sha xs (pg_mark_fenced w db)) = Inl WorkerFenced \<and>
    pg_record_failure sha sp i v w k msg (cluster_run sha xs (pg_mark_fenced w db)) = Inl WorkerFenced"
proof -
  have "held_task i v w k (cluster_run sha xs (pg_mark_fenced w db)) = Inl WorkerFenced"
    using cluster_run_token [OF mark_fenced_token [OF assms(1,2)]] assms(3) by (intro small_token_fenced) auto
  then show ?thesis by (simp add: pg_complete_def pg_record_failure_def)
qed

text \<open>The worker comes back online with the next heartbeat; its old token stays refused.\<close>

definition worker_db :: task_db where
  "worker_db =
     (case pg_register (\<lambda>s. s) 1 False ''w'' ''pw'' ''host'' demo_db of Inl e \<Rightarrow> demo_db | Inr (db, n) \<Rightarrow> db)"

theorem fenced_token_never_commits_witness:
  "(let db = cluster_run (\<lambda>s. s) [WHeartbeat 2 ''w'' 1 (Some ''pw'')] (pg_mark_fenced ''w'' worker_db) in
    map_option wk_status (dget (td_workers db) ''w'') = Some WS_ONLINE \<and>
    pg_complete (\<lambda>s. s) (demo_stamp ''x'' 9) ''T'' 1 ''w'' 1 None None None db = Inl WorkerFenced)"
proof -
  have "map_option (\<lambda>r. (wk_status r, wk_fencing_token r)) (dget (td_workers worker_db) ''w'') = Some (WS_ONLINE, 1)"
    "map_option wk_status (dget (td_workers
       (cluster_run (\<lambda>s. s) [WHeartbeat 2 ''w'' 1 (Some ''pw'')] (pg_mark_fenced ''w'' worker_db))) ''w'') = Some WS_ONLINE"
    by code_simp+
  moreover from this(1) obtain r where "dget (td_workers worker_db) ''w'' = Some r"
      "wk_status r \<in> {WS_ONLINE, WS_DRAINING}" "1 \<le> wk_fencing_token r" by auto
  ultimately show ?thesis
    unfolding Let_def using fenced_token_never_commits [of worker_db "''w''" r 1] by blast
qed

end
