(* ===== verification/WorkerRuntime.thy ===== *)
theory WorkerRuntime
  imports WorkerStore
begin

text \<open>
  The polling worker (\<open>CustomWorkerRuntime\<close> of \<^verbatim>\<open>workers/worker.py\<close>). It works on whichever
  repository it was given, so its operations come as a record, with one instance for the
  repository in memory and one for the tables. The remediation itself (lifecycle, package, receipt)
  is an input: a receipt or the text of an exception.
\<close>

section \<open>Repositories as the worker sees them\<close>

text \<open>
  \<open>op_now\<close> is what a task object the worker holds shows later: in memory it is the live object,
  from the tables it is a copy. The first argument of an operation is what the call draws from
  outside (clock or stamp).
\<close>

record ('e, 'db) task_ops =
  op_get :: "string \<Rightarrow> 'db \<Rightarrow> task option"
  op_now :: "'db \<Rightarrow> task \<Rightarrow> task"
  op_assign :: "'e \<Rightarrow> string \<Rightarrow> string \<Rightarrow> 'db \<Rightarrow> task_error + 'db \<times> task"
  op_update_state :: "'e \<Rightarrow> string \<Rightarrow> task_state \<Rightarrow> task_kwarg list \<Rightarrow> 'db \<Rightarrow> 'db \<times> (task_error + task)"
  op_complete :: "'e \<Rightarrow> string \<Rightarrow> int \<Rightarrow> string \<Rightarrow> int \<Rightarrow> string \<Rightarrow> string \<Rightarrow> string \<Rightarrow> 'db \<Rightarrow> task_error + 'db \<times> task"
  op_record_failure :: "'e \<Rightarrow> string \<Rightarrow> int \<Rightarrow> string \<Rightarrow> int \<Rightarrow> string \<Rightarrow> 'db \<Rightarrow> task_error + 'db \<times> task"
  op_atomic :: "'e \<Rightarrow> string \<Rightarrow> int \<Rightarrow> task_state list \<Rightarrow> task_state \<Rightarrow> task_kwarg list \<Rightarrow> 'db \<Rightarrow> 'db \<times> (task_error + task)"

definition committed :: "'db \<Rightarrow> task_error + 'db \<times> task \<Rightarrow> 'db \<times> (task_error + task)" where
  "committed db res = (case res of Inl e \<Rightarrow> (db, Inl e) | Inr (db', t) \<Rightarrow> (db', Inr t))"

definition memory_ops :: "(real, memory_repo) task_ops" where
  "memory_ops = \<lparr>
     op_get = (\<lambda>i m. dget m i),
     op_now = (\<lambda>m t. case dget m (rt_task_id t) of None \<Rightarrow> t | Some t' \<Rightarrow> t'),
     op_assign = (\<lambda>now i w m. mem_assign now i m),
     op_update_state = (\<lambda>now i s ks m. mem_update now i (KwState s # ks) m),
     op_complete = (\<lambda>now i v w k r f s m. mem_complete now i v (Some r) (Some f) (Some s) m),
     op_record_failure = (\<lambda>now i v w k msg m. mem_record_failure now i v msg m),
     op_atomic = (\<lambda>now i v ss s ks m. mem_atomic_transition now i v ss s ks m) \<rparr>"

definition table_ops :: "(string \<Rightarrow> string) \<Rightarrow> (stamp, task_db) task_ops" where
  "table_ops sha = \<lparr>
     op_get = pg_get,
     op_now = (\<lambda>db t. t),
     op_assign = pg_assign sha,
     op_update_state = (\<lambda>sp i s ks db. committed db (fst (pg_update_state sha sp i s ks (pg_get i db) db))),
     op_complete = (\<lambda>sp i v w k r f s db. pg_complete sha sp i v w k (Some r) (Some f) (Some s) db),
     op_record_failure = pg_record_failure sha,
     op_atomic = (\<lambda>sp i v ss s ks db. committed db (fst (pg_atomic_transition sha sp i v ss s ks db))) \<rparr>"

section \<open>One task\<close>

record worker_self =
  ws_worker_id :: string
  ws_fencing_token :: int

record remediation_receipt =
  rr_receipt_id :: string
  rr_fingerprint :: string
  rr_status :: string

text \<open>
  The texts are those of the exceptions: of a fallback that is refused in turn, before and after
  the remediation. \<open>env n\<close> is what the \<open>n\<close>-th call draws.
\<close>

record 'e task_run =
  tk_env :: "nat \<Rightarrow> 'e"
  tk_result :: "string + remediation_receipt"
  tk_start_error :: string
  tk_finish_error :: string

definition start_running ::
  "('e, 'db) task_ops \<Rightarrow> worker_self \<Rightarrow> 'e task_run \<Rightarrow> string \<Rightarrow> task \<Rightarrow> 'db \<Rightarrow> 'db \<times> task \<times> bool" where
  "start_running ops w x i t db =
     (case op_assign ops (tk_env x 0) i (ws_worker_id w) db of
        Inr (db', t') \<Rightarrow> (db', t', True)
      | Inl e \<Rightarrow>
          (case op_update_state ops (tk_env x 1) i TS_RUNNING [] db of
             (db', Inl e') \<Rightarrow> (db', t, False)
           | (db', Inr t') \<Rightarrow> (db', t, True)))"

definition finish_running ::
  "('e, 'db) task_ops \<Rightarrow> worker_self \<Rightarrow> 'e task_run \<Rightarrow> string \<Rightarrow> task \<Rightarrow> remediation_receipt \<Rightarrow> 'db \<Rightarrow> 'db \<times> bool" where
  "finish_running ops w x i t rc db =
     (case op_complete ops (tk_env x 2) i (rt_lease_version (op_now ops db t)) (ws_worker_id w)
             (ws_fencing_token w) (rr_receipt_id rc) (rr_fingerprint rc) (rr_status rc) db of
        Inr (db', t') \<Rightarrow> (db', True)
      | Inl e \<Rightarrow>
          (case op_update_state ops (tk_env x 3) i TS_COMPLETED
                  [KwReceiptId (Some (rr_receipt_id rc)), KwReceiptFingerprint (Some (rr_fingerprint rc)),
                   KwVerificationStatus (Some (rr_status rc))] db of
             (db', Inl e') \<Rightarrow> (db', False)
           | (db', Inr t') \<Rightarrow> (db', True)))"

definition give_up ::
  "('e, 'db) task_ops \<Rightarrow> worker_self \<Rightarrow> 'e task_run \<Rightarrow> string \<Rightarrow> task \<Rightarrow> string \<Rightarrow> 'db \<Rightarrow> task_queue \<Rightarrow> 'db \<times> task_queue" where
  "give_up ops w x i t msg db q =
     (let db' = (case op_record_failure ops (tk_env x 4) i (rt_lease_version (op_now ops db t)) (ws_worker_id w)
                        (ws_fencing_token w) msg db of Inl e \<Rightarrow> db | Inr (db', t') \<Rightarrow> db');
          t' = op_now ops db' t
      in (db', if rt_attempts t' < rt_max_attempts t' then requeue i q else acknowledge i q))"

definition process_task ::
  "('e, 'db) task_ops \<Rightarrow> worker_self \<Rightarrow> 'e task_run \<Rightarrow> string \<Rightarrow> 'db \<Rightarrow> task_queue \<Rightarrow> 'db \<times> task_queue" where
  "process_task ops w x i db q =
     (case op_get ops i db of
        None \<Rightarrow> (db, acknowledge i q)
      | Some t \<Rightarrow>
          if rt_state t \<notin> {TS_QUEUED, TS_FAILED_RETRYABLE} then (db, acknowledge i q)
          else case start_running ops w x i t db of
              (db1, t1, False) \<Rightarrow> give_up ops w x i t1 (tk_start_error x) db1 q
            | (db1, t1, True) \<Rightarrow>
                (case tk_result x of
                   Inl msg \<Rightarrow> give_up ops w x i t1 msg db1 q
                 | Inr rc \<Rightarrow>
                     (case finish_running ops w x i t1 rc db1 of
                        (db2, False) \<Rightarrow> give_up ops w x i t1 (tk_finish_error x) db2 q
                      | (db2, True) \<Rightarrow> (db2, acknowledge i q))))"

section \<open>Stale leases\<close>

definition recover_stale ::
  "('e, 'db) task_ops \<Rightarrow> (string \<Rightarrow> 'e) \<Rightarrow> real \<Rightarrow> string \<Rightarrow> 'db \<times> task_queue \<Rightarrow> 'db \<times> task_queue" where
  "recover_stale ops env now i dbq =
     (let (db, q) = dbq in
      case op_get ops i db of
        None \<Rightarrow> (db, q)
      | Some t \<Rightarrow>
          if rt_state t = TS_RUNNING \<and> is_lease_expired now t then
            let target = (if rt_attempts t < rt_max_attempts t then TS_QUEUED else TS_FAILED) in
            (case op_atomic ops (env i) i (rt_lease_version t) [TS_RUNNING] target
                    [KwErrorMessage (Some ''Lease expired'')] db of
               (db', Inl e) \<Rightarrow> (db', q)
             | (db', Inr t') \<Rightarrow> (db', if target = TS_QUEUED then requeue i q else acknowledge i q))
          else (db, q))"

definition recover_stale_tasks ::
  "('e, 'db) task_ops \<Rightarrow> (string \<Rightarrow> 'e) \<Rightarrow> real \<Rightarrow> 'db \<Rightarrow> task_queue \<Rightarrow> 'db \<times> task_queue" where
  "recover_stale_tasks ops env now db q = fold (recover_stale ops env now) (tq_processing q) (db, q)"

text \<open>A task read from the tables has no start time, so its lease never expires for the worker.\<close>

lemma pg_get_no_clock: "pg_get i db = Some t \<Longrightarrow> rt_started_at t = None"
  by (auto simp: pg_get_def model_to_domain_def new_task_def)

lemma recover_stale_idle: "recover_stale (table_ops sha) env now i (db, q) = (db, q)"
  by (auto simp: recover_stale_def table_ops_def is_lease_expired_def pg_get_no_clock split: option.split)

lemma recover_stale_tables: "recover_stale_tasks (table_ops sha) env now db q = (db, q)"
proof -
  have "fold (recover_stale (table_ops sha) env now) is (db, q) = (db, q)" for "is"
    by (induction "is") (simp_all add: recover_stale_idle)
  then show ?thesis by (simp add: recover_stale_tasks_def)
qed

text \<open>In memory a lease that expired is taken back once: requeued, or failed after the last attempt.\<close>

lemma recover_stale_memory:
  assumes "dget m i = Some t" "rt_task_id t = i" "rt_state t = TS_RUNNING" "is_lease_expired now t"
  shows "let target = (if rt_attempts t < rt_max_attempts t then TS_QUEUED else TS_FAILED);
             (m', q') = recover_stale memory_ops env now i (m, q)
         in m' = dset m i (t\<lparr> rt_state := target, rt_started_at := None, rt_error_message := Some ''Lease expired'' \<rparr>) \<and>
            q' = (if target = TS_QUEUED then requeue i q else acknowledge i q)"
  using assms
  by (auto simp: recover_stale_def memory_ops_def mem_atomic_transition_def transition_to_def may_become_def Let_def)

section \<open>Properties\<close>

lemma committed_Inr: "committed db (Inr (db', t)) = (db', Inr t)"
  by (simp add: committed_def)

text \<open>
  A state update by the worker: from the tables it reads the task and sets the state under the
  version it read, whoever holds the task.
\<close>

lemma table_update_state:
  assumes "dget (td_tasks db) i = Some r" "\<not> (s \<in> {TS_QUEUED, TS_RUNNING} \<and> terminal_task (ta_state r))"
    and "fresh_stamp sp db"
  obtains db' t where "op_update_state (table_ops sha) sp i s ks db = (db', Inr t)"
    "td_tasks db' = dset (td_tasks db) i
       (write_values s (or_default (ta_lease_version r + 1) (kw_lease_version ks)) ks r)"
    "td_workers db' = td_workers db"
    "\<forall>sq. fresh_stamp sq db \<longrightarrow> stamps_differ sp sq \<longrightarrow> fresh_stamp sq db'"
proof -
  have get: "pg_get i db = Some (model_to_domain i r)" using assms(1) by (simp add: pg_get_def)
  have t: "rt_lease_version (model_to_domain i r) = ta_lease_version r" "rt_state (model_to_domain i r) = ta_state r"
    by (simp_all add: model_to_domain_def new_task_def)
  have guard: "\<not> (s \<in> {TS_QUEUED, TS_RUNNING} \<and> list_ex terminal_task [ta_state r])" using assms(2) by simp
  from pg_atomic_hit [OF assms(1) refl _ guard assms(3), of sha ks] obtain db' where
    "fst (pg_atomic_transition sha sp i (ta_lease_version r) [ta_state r] s ks db) =
       Inr (db', model_to_domain i (write_values s (or_default (ta_lease_version r + 1) (kw_lease_version ks)) ks r))"
    "td_tasks db' = dset (td_tasks db) i
       (write_values s (or_default (ta_lease_version r + 1) (kw_lease_version ks)) ks r)"
    "td_workers db' = td_workers db"
    "\<And>sq. fresh_stamp sq db \<Longrightarrow> stamps_differ sp sq \<Longrightarrow> fresh_stamp sq db'"
    by auto
  then show thesis
    by (intro that [of db']) (simp_all add: table_ops_def pg_update_state_def get t committed_Inr)
qed

text \<open>
  C36: The polling worker gets round its fence. A worker that the tables have fenced or marked
  offline is refused the assignment and the completion, and falls back to plain state updates both
  times: when the work on a queued task it takes returns a receipt, the task ends completed,
  without the receipt and the verification status of that work, and with the worker column as it
  was before.
\<close>

theorem fenced_worker_completes:
  assumes r: "dget (td_tasks db) i = Some r" "ta_state r = TS_QUEUED"
    and w: "dget (td_workers db) (ws_worker_id w) = Some wk" "wk_status wk \<in> {WS_FENCED, WS_OFFLINE}"
    and fresh: "fresh_stamp (tk_env x 1) db" "fresh_stamp (tk_env x 3) db" "stamps_differ (tk_env x 1) (tk_env x 3)"
    and res: "tk_result x = Inr rc"
  shows "\<exists>r'. dget (td_tasks (fst (process_task (table_ops sha) w x i db q))) i = Some r' \<and>
    ta_state r' = TS_COMPLETED \<and> ta_receipt_id r' = ta_receipt_id r \<and>
    ta_verification_status r' = ta_verification_status r \<and> ta_worker r' = ta_worker r"
proof -
  let ?ops = "table_ops sha"
  define t where "t = model_to_domain i r"
  have t: "op_get ?ops i db = Some t" "rt_state t = TS_QUEUED"
    using r by (simp_all add: table_ops_def pg_get_def t_def model_to_domain_def new_task_def)
  have no_assign: "op_assign ?ops (tk_env x 0) i (ws_worker_id w) db = Inl InvalidWorkerState"
    using w by (auto simp: table_ops_def pg_assign_def may_be_assigned_def Let_def)
  have live: "\<not> (TS_RUNNING \<in> {TS_QUEUED, TS_RUNNING} \<and> terminal_task (ta_state r))"
    using r(2) by (simp add: terminal_task_def)
  from table_update_state [OF r(1) live fresh(1), of sha "[]"] obtain db1 t1 where
    up1: "op_update_state ?ops (tk_env x 1) i TS_RUNNING [] db = (db1, Inr t1)"
      "td_tasks db1 = dset (td_tasks db) i
         (write_values TS_RUNNING (or_default (ta_lease_version r + 1) (kw_lease_version [])) [] r)"
      "td_workers db1 = td_workers db"
      "\<forall>sq. fresh_stamp sq db \<longrightarrow> stamps_differ (tk_env x 1) sq \<longrightarrow> fresh_stamp sq db1" by blast
  define r1 where "r1 = write_values TS_RUNNING (or_default (ta_lease_version r + 1) (kw_lease_version [])) [] r"
  have r1: "dget (td_tasks db1) i = Some r1" "ta_state r1 = TS_RUNNING" "ta_receipt_id r1 = ta_receipt_id r"
      "ta_verification_status r1 = ta_verification_status r" "ta_worker r1 = ta_worker r"
    using up1(2) by (simp_all add: r1_def write_values_def or_default_def)
  have start: "start_running ?ops w x i t db = (db1, t, True)"
    by (simp add: start_running_def no_assign up1(1) del: One_nat_def)
  have no_complete: "op_complete ?ops (tk_env x 2) i v (ws_worker_id w) k a b c db1 = Inl WorkerFenced" for v k a b c
    using w up1(3) by (auto simp: table_ops_def pg_complete_def held_task_def worker_fenced_def)
  let ?ks = "[KwReceiptId (Some (rr_receipt_id rc)), KwReceiptFingerprint (Some (rr_fingerprint rc)),
      KwVerificationStatus (Some (rr_status rc))]"
  have "\<not> (TS_COMPLETED \<in> {TS_QUEUED, TS_RUNNING} \<and> terminal_task (ta_state r1))" by simp
  moreover have "fresh_stamp (tk_env x 3) db1" using up1(4) fresh(2,3) by blast
  ultimately obtain db2 t2 where
    up2: "op_update_state ?ops (tk_env x 3) i TS_COMPLETED ?ks db1 = (db2, Inr t2)"
      "td_tasks db2 = dset (td_tasks db1) i
         (write_values TS_COMPLETED (or_default (ta_lease_version r1 + 1) (kw_lease_version ?ks)) ?ks r1)"
    by (rule table_update_state [OF r1(1), of TS_COMPLETED "tk_env x 3" sha ?ks]) blast
  have "finish_running ?ops w x i t rc db1 = (db2, True)"
    by (simp add: finish_running_def no_complete up2(1))
  then have "fst (process_task ?ops w x i db q) = db2"
    by (simp add: process_task_def t start res)
  with up2(2) r1 show ?thesis by (simp add: write_values_def or_default_def)
qed

definition demo_work :: "stamp task_run" where
  "demo_work =
     \<lparr> tk_env = (\<lambda>n. if n = 1 then demo_stamp ''b'' 2 else demo_stamp ''c'' 3),
       tk_result = Inr \<lparr> rr_receipt_id = ''R'', rr_fingerprint = ''f'', rr_status = ''VERIFIED_FIXED'' \<rparr>,
       tk_start_error = '''', tk_finish_error = '''' \<rparr>"

theorem fenced_worker_completes_witness:
  "\<exists>r'. dget (td_tasks (fst (process_task (table_ops (\<lambda>s. s)) \<lparr> ws_worker_id = ''w'', ws_fencing_token = 1 \<rparr> demo_work ''T''
       (pg_mark_fenced ''w'' worker_db) \<lparr> tq_main = [], tq_processing = [''T''], tq_max_depth = 10 \<rparr>))) ''T'' = Some r' \<and>
     ta_state r' = TS_COMPLETED \<and> ta_receipt_id r' = None"
proof -
  let ?db = "pg_mark_fenced ''w'' worker_db"
  have "map_option (\<lambda>r. (ta_state r, ta_receipt_id r)) (dget (td_tasks ?db) ''T'') = Some (TS_QUEUED, None)"
    "map_option wk_status (dget (td_workers ?db) ''w'') = Some WS_FENCED"
    "fresh_stamp (tk_env demo_work 1) ?db" "fresh_stamp (tk_env demo_work 3) ?db"
    "stamps_differ (tk_env demo_work 1) (tk_env demo_work 3)"
    by code_simp+
  moreover from this(1) obtain r where r: "dget (td_tasks ?db) ''T'' = Some r" "ta_state r = TS_QUEUED" "ta_receipt_id r = None"
    by auto
  moreover from calculation(2) obtain wk where "dget (td_workers ?db) ''w'' = Some wk" "wk_status wk \<in> {WS_FENCED, WS_OFFLINE}"
    by auto
  moreover have "tk_result demo_work = Inr \<lparr> rr_receipt_id = ''R'', rr_fingerprint = ''f'', rr_status = ''VERIFIED_FIXED'' \<rparr>"
    by (simp add: demo_work_def)
  ultimately show ?thesis
    using fenced_worker_completes [of ?db "''T''" r "\<lparr> ws_worker_id = ''w'', ws_fencing_token = 1 \<rparr>" wk demo_work]
    by fastforce
qed

text \<open>
  In memory a task that failed retryably never runs again: the worker is refused both ways and puts
  it back at the head of the queue, with nothing changed.
\<close>

lemma dset_same: "dget m i = Some t \<Longrightarrow> dset m i t = m"
  by (induction m) (auto split: if_splits)

lemma retryable_task_spins:
  assumes t: "dget m i = Some t" "rt_task_id t = i" "rt_state t = TS_FAILED_RETRYABLE"
    and left: "rt_attempts t < rt_max_attempts t"
  shows "process_task memory_ops w x i m q = (m, requeue i q)"
proof -
  have start: "start_running memory_ops w x i t m = (m, t, False)"
    using t left
    by (simp add: start_running_def memory_ops_def mem_assign_def mem_update_def update_attr_def transition_to_def
        may_become_def terminal_task_def dset_same Let_def)
  have "give_up memory_ops w x i t msg m q = (m, requeue i q)" for msg
    using t left by (simp add: give_up_def memory_ops_def mem_record_failure_def Let_def)
  with start t show ?thesis by (simp add: process_task_def memory_ops_def)
qed

end
