(* ===== verification/RecoveryLock.thy ===== *)
theory RecoveryLock
  imports TaskDomain
begin

text \<open>
  The two recovery locks: the lease in memory of \<^verbatim>\<open>workers/cluster_recovery.py\<close>
  (\<open>DistributedRecoveryLock\<close>) and the lease table of \<^verbatim>\<open>persistence/postgres_recovery_lock.py\<close>. A
  lease carries a fencing token; a leader whose token is no longer the newest is refused.
\<close>

section \<open>The lease in memory\<close>

record recovery_lease =
  rl_owner_id :: string
  rl_lease_id :: string
  rl_fencing_token :: int
  rl_acquired_at :: real
  rl_expires_at :: real

definition lease_expired :: "real \<Rightarrow> recovery_lease \<Rightarrow> bool" where
  "lease_expired now l = (now \<ge> rl_expires_at l)"

record lease_lock =
  lk_current :: "recovery_lease option"
  lk_counter :: int

definition lock_init :: lease_lock where
  "lock_init = \<lparr> lk_current = None, lk_counter = 0 \<rparr>"

definition renewed :: "real \<Rightarrow> real \<Rightarrow> recovery_lease \<Rightarrow> recovery_lease" where
  "renewed now ttl l = l\<lparr> rl_acquired_at := now, rl_expires_at := now + ttl \<rparr>"

definition lock_acquire ::
  "real \<Rightarrow> string \<Rightarrow> string \<Rightarrow> real \<Rightarrow> lease_lock \<Rightarrow> lease_lock \<times> recovery_lease option" where
  "lock_acquire now fresh_id owner ttl k =
     (let fresh = \<lparr> rl_owner_id = owner, rl_lease_id = ''lease_'' @ fresh_id,
                    rl_fencing_token = lk_counter k + 1, rl_acquired_at = now, rl_expires_at = now + ttl \<rparr>;
          grant = (k\<lparr> lk_counter := lk_counter k + 1, lk_current := Some fresh \<rparr>, Some fresh)
      in case lk_current k of
           None \<Rightarrow> grant
         | Some l \<Rightarrow>
             if lease_expired now l then grant
             else if rl_owner_id l \<noteq> owner then (k, None)
             else (k\<lparr> lk_current := Some (renewed now ttl l) \<rparr>, Some (renewed now ttl l)))"

definition lock_renew :: "real \<Rightarrow> string \<Rightarrow> string \<Rightarrow> real \<Rightarrow> lease_lock \<Rightarrow> lease_lock \<times> bool" where
  "lock_renew now owner lease_id ttl k =
     (case lk_current k of
        None \<Rightarrow> (k, False)
      | Some l \<Rightarrow>
          if rl_owner_id l = owner \<and> rl_lease_id l = lease_id \<and> \<not> lease_expired now l
          then (k\<lparr> lk_current := Some (renewed now ttl l) \<rparr>, True) else (k, False))"

definition lock_release :: "string \<Rightarrow> string option \<Rightarrow> lease_lock \<Rightarrow> lease_lock \<times> bool" where
  "lock_release owner lease_id k =
     (case lk_current k of
        None \<Rightarrow> (k, True)
      | Some l \<Rightarrow>
          if rl_owner_id l = owner \<and> (case lease_id of None \<Rightarrow> True | Some i \<Rightarrow> rl_lease_id l = i)
          then (k\<lparr> lk_current := None \<rparr>, True) else (k, False))"

definition lock_is_valid :: "real \<Rightarrow> string \<Rightarrow> string option \<Rightarrow> int option \<Rightarrow> lease_lock \<Rightarrow> bool" where
  "lock_is_valid now owner lease_id token k =
     (case lk_current k of
        None \<Rightarrow> False
      | Some l \<Rightarrow>
          \<not> lease_expired now l \<and> rl_owner_id l = owner \<and>
          (case lease_id of None \<Rightarrow> True | Some i \<Rightarrow> rl_lease_id l = i) \<and>
          (case token of None \<Rightarrow> True | Some t \<Rightarrow> rl_fencing_token l = t))"

section \<open>The lease table\<close>

datatype lease_status = LS_ACTIVE | LS_EXPIRED | LS_RELEASED

record lease_row =
  le_owner_id :: string
  le_fencing_token :: int
  le_acquired_at :: int
  le_expires_at :: int
  le_released_at :: "int option"
  le_status :: lease_status

type_synonym lease_table = "(string, lease_row) dict"

text \<open>\<open>max\<close> of the tokens; SQL answers NULL for an empty table.\<close>

definition max_token :: "lease_table \<Rightarrow> int option" where
  "max_token t =
     (case map (le_fencing_token \<circ> snd) t of [] \<Rightarrow> None | x # xs \<Rightarrow> Some (fold max xs x))"

text \<open>
  \<open>nextval\<close> is what the database's sequence answers, None where it has none. \<open>or 0\<close> and \<open>+ 1\<close>
  otherwise.
\<close>

definition next_fencing_token :: "int option \<Rightarrow> lease_table \<Rightarrow> int" where
  "next_fencing_token nextval t =
     (case nextval of Some v \<Rightarrow> v | None \<Rightarrow> (case max_token t of None \<Rightarrow> 0 | Some m \<Rightarrow> m) + 1)"

definition expire_active :: "lease_table \<Rightarrow> lease_table" where
  "expire_active t =
     map (\<lambda>(i, r). (i, if le_status r = LS_ACTIVE then r\<lparr> le_status := LS_EXPIRED \<rparr> else r)) t"

definition table_acquire ::
  "int \<Rightarrow> int option \<Rightarrow> string \<Rightarrow> int \<Rightarrow> lease_table \<Rightarrow> task_error + lease_table \<times> string \<times> int" where
  "table_acquire now nextval node_id ttl t =
     (let t = expire_active t;
          token = next_fencing_token nextval t;
          lease_id = ''lease-'' @ node_id @ ''-'' @ str_int token
      in if lease_id \<in> set (dkeys t) \<or> token \<in> (le_fencing_token \<circ> snd) ` set t then Inl TaskIntegrityError
         else Inr (t @ [(lease_id, \<lparr> le_owner_id = node_id, le_fencing_token = token, le_acquired_at = now,
                          le_expires_at = now + ttl * 1000000, le_released_at = None, le_status = LS_ACTIVE \<rparr>)],
                   lease_id, token))"

definition active_lease :: "string \<Rightarrow> string \<Rightarrow> int \<Rightarrow> lease_table \<Rightarrow> lease_row option" where
  "active_lease node_id lease_id token t =
     (case dget t lease_id of
        None \<Rightarrow> None
      | Some r \<Rightarrow>
          if le_owner_id r = node_id \<and> le_fencing_token r = token \<and> le_status r = LS_ACTIVE
          then Some r else None)"

definition superseded :: "int \<Rightarrow> lease_table \<Rightarrow> bool" where
  "superseded token t = (case max_token t of None \<Rightarrow> False | Some m \<Rightarrow> m > token)"

definition table_is_valid :: "int \<Rightarrow> string \<Rightarrow> string \<Rightarrow> int \<Rightarrow> lease_table \<Rightarrow> bool" where
  "table_is_valid now node_id lease_id token t =
     (if superseded token t then False
      else case active_lease node_id lease_id token t of None \<Rightarrow> False | Some r \<Rightarrow> le_expires_at r \<ge> now)"

definition table_renew ::
  "int \<Rightarrow> string \<Rightarrow> string \<Rightarrow> int \<Rightarrow> int \<Rightarrow> lease_table \<Rightarrow> lease_table \<times> bool" where
  "table_renew now node_id lease_id token ttl t =
     (if superseded token t then (t, False)
      else case active_lease node_id lease_id token t of
          None \<Rightarrow> (t, False)
        | Some r \<Rightarrow>
            if le_expires_at r < now then (t, False)
            else (dset t lease_id (r\<lparr> le_expires_at := now + ttl * 1000000 \<rparr>), True))"

definition table_release ::
  "int \<Rightarrow> string \<Rightarrow> string \<Rightarrow> int \<Rightarrow> lease_table \<Rightarrow> lease_table \<times> bool" where
  "table_release now node_id lease_id token t =
     (case active_lease node_id lease_id token t of
        None \<Rightarrow> (t, False)
      | Some r \<Rightarrow> (dset t lease_id (r\<lparr> le_status := LS_RELEASED, le_released_at := Some now \<rparr>), True))"

section \<open>Fencing\<close>

lemma fold_max_ge: "y \<in> insert x (set xs) \<Longrightarrow> y \<le> fold max xs (x :: int)"
proof -
  have "x \<le> fold max xs x \<and> (\<forall>y \<in> set xs. y \<le> fold max xs x)" for x
    by (induction xs arbitrary: x) (auto, (meson max.cobounded1 max.cobounded2 order_trans)+)
  then show "y \<in> insert x (set xs) \<Longrightarrow> y \<le> fold max xs x" by auto
qed

lemma fold_max_in: "fold max xs x \<in> insert (x :: int) (set xs)"
proof (induction xs arbitrary: x)
  case (Cons y xs)
  from Cons.IH [of "max y x"] show ?case by (auto simp: max_def split: if_splits)
qed simp

lemma max_token_ge: "(i, r) \<in> set t \<Longrightarrow> \<exists>m. max_token t = Some m \<and> le_fencing_token r \<le> m"
proof -
  assume "(i, r) \<in> set t"
  then have "le_fencing_token r \<in> set (map (le_fencing_token \<circ> snd) t)" by force
  then show ?thesis
    using fold_max_ge [of "le_fencing_token r"]
    by (cases "map (le_fencing_token \<circ> snd) t") (auto simp: max_token_def)
qed

lemma superseded_iff: "superseded k t \<longleftrightarrow> (\<exists>r \<in> snd ` set t. le_fencing_token r > k)"
proof
  assume "superseded k t"
  then obtain m where m: "max_token t = Some m" "m > k" by (auto simp: superseded_def split: option.splits)
  then have "m \<in> set (map (le_fencing_token \<circ> snd) t)"
    using fold_max_in by (cases "map (le_fencing_token \<circ> snd) t") (auto simp: max_token_def simp del: fold_simps)
  with m(2) show "\<exists>r \<in> snd ` set t. le_fencing_token r > k" by auto
next
  assume "\<exists>r \<in> snd ` set t. le_fencing_token r > k"
  then obtain i r where "(i, r) \<in> set t" "le_fencing_token r > k" by auto
  with max_token_ge [OF this(1)] show "superseded k t" by (auto simp: superseded_def)
qed

text \<open>A granted lease: its token is new, it is valid until it expires, and no other lease is active.\<close>

lemma table_acquire_ok:
  assumes "table_acquire now nextval n ttl t = Inr (t', l, k)"
  obtains "k = next_fencing_token nextval t" "l = ''lease-'' @ n @ ''-'' @ str_int k"
    "map (le_fencing_token \<circ> snd) t' = map (le_fencing_token \<circ> snd) t @ [k]"
    "k \<notin> (le_fencing_token \<circ> snd) ` set t" "l \<notin> set (dkeys t)" "dkeys t' = dkeys t @ [l]"
    "dget t' l = Some \<lparr> le_owner_id = n, le_fencing_token = k, le_acquired_at = now,
       le_expires_at = now + ttl * 1000000, le_released_at = None, le_status = LS_ACTIVE \<rparr>"
    "\<And>j r. dget t' j = Some r \<Longrightarrow> j \<noteq> l \<Longrightarrow> le_status r \<noteq> LS_ACTIVE"
proof -
  define u where "u = expire_active t"
  have keys: "dkeys u = dkeys t" by (simp add: u_def expire_active_def split_def comp_def)
  have toks: "map (le_fencing_token \<circ> snd) u = map (le_fencing_token \<circ> snd) t"
    by (auto simp: u_def expire_active_def)
  have next_eq: "next_fencing_token nextval u = next_fencing_token nextval t"
    unfolding next_fencing_token_def max_token_def toks ..
  have toks_set: "(le_fencing_token \<circ> snd) ` set u = (le_fencing_token \<circ> snd) ` set t"
    using arg_cong [OF toks, of set] by simp
  have idle: "le_status r \<noteq> LS_ACTIVE" if "dget u j = Some r" for j r
    using map_of_SomeD [OF that] by (auto simp: u_def expire_active_def split: if_splits)
  from assms have a: "k = next_fencing_token nextval u" "l = ''lease-'' @ n @ ''-'' @ str_int k"
      "l \<notin> set (dkeys u)" "k \<notin> (le_fencing_token \<circ> snd) ` set u"
      "t' = u @ [(l, \<lparr> le_owner_id = n, le_fencing_token = k, le_acquired_at = now,
         le_expires_at = now + ttl * 1000000, le_released_at = None, le_status = LS_ACTIVE \<rparr>)]"
    unfolding table_acquire_def Let_def u_def [symmetric] by (auto split: if_splits)
  have none: "dget u l = None" using a(3) by (simp add: dget_None_iff)
  show thesis
  proof (rule that)
    show "k = next_fencing_token nextval t" using a(1) next_eq by simp
    show "map (le_fencing_token \<circ> snd) t' = map (le_fencing_token \<circ> snd) t @ [k]" using a(5) toks by simp
    show "k \<notin> (le_fencing_token \<circ> snd) ` set t" using a(4) toks_set by simp
    show "l \<notin> set (dkeys t)" using a(3) keys by simp
    show "dkeys t' = dkeys t @ [l]" using a(5) keys by simp
    show "dget t' l = Some \<lparr> le_owner_id = n, le_fencing_token = k, le_acquired_at = now,
       le_expires_at = now + ttl * 1000000, le_released_at = None, le_status = LS_ACTIVE \<rparr>"
      using a(5) none by (simp add: map_add_def)
    fix j r assume "dget t' j = Some r" "j \<noteq> l"
    then have "dget u j = Some r" using a(5) by (auto simp: map_add_def split: option.splits)
    then show "le_status r \<noteq> LS_ACTIVE" by (rule idle)
  qed (use a(2) in simp)
qed

lemma fallback_token_new: "r \<in> snd ` set t \<Longrightarrow> le_fencing_token r < next_fencing_token None t"
proof -
  assume "r \<in> snd ` set t"
  then obtain i where "(i, r) \<in> set t" by auto
  from max_token_ge [OF this] show ?thesis by (auto simp: next_fencing_token_def)
qed

lemma table_is_valid_iff:
  "table_is_valid now n l k t \<longleftrightarrow>
     (\<exists>r. dget t l = Some r \<and> le_owner_id r = n \<and> le_fencing_token r = k \<and> le_status r = LS_ACTIVE \<and>
        le_expires_at r \<ge> now) \<and> \<not> superseded k t"
  by (auto simp: table_is_valid_def active_lease_def split: option.splits if_splits)

text \<open>Once a newer token is in the table, an older lease is neither valid nor renewed.\<close>

lemma superseded_refused:
  assumes "superseded k t"
  shows "\<not> table_is_valid now n l k t" "table_renew now n l k ttl t = (t, False)"
  using assms by (simp_all add: table_is_valid_def table_renew_def)

section \<open>Steps of the lease table\<close>

datatype lease_op =
    LAcquire int "int option" string int
  | LRenew int string string int int
  | LRelease int string string int

fun lease_step :: "lease_op \<Rightarrow> lease_table \<Rightarrow> lease_table" where
  "lease_step (LAcquire now nextval n ttl) t =
     (case table_acquire now nextval n ttl t of Inl e \<Rightarrow> t | Inr (t', l, k) \<Rightarrow> t')"
| "lease_step (LRenew now n l k ttl) t = fst (table_renew now n l k ttl t)"
| "lease_step (LRelease now n l k) t = fst (table_release now n l k t)"

lemma active_lease_Some:
  "active_lease n l k t = Some r \<longleftrightarrow>
     dget t l = Some r \<and> le_owner_id r = n \<and> le_fencing_token r = k \<and> le_status r = LS_ACTIVE"
  by (auto simp: active_lease_def split: option.splits if_splits)

lemma has_token_dset:
  assumes "dget t l = Some r" "le_fencing_token r' = le_fencing_token r" "j \<in> (le_fencing_token \<circ> snd) ` set t"
    "distinct (dkeys t)"
  shows "j \<in> (le_fencing_token \<circ> snd) ` set (dset t l r')"
proof -
  from assms(3) obtain i q where q: "(i, q) \<in> set t" "le_fencing_token q = j" by auto
  with assms(4) have iq: "dget t i = Some q" by simp
  show ?thesis
  proof (cases "i = l")
    case True
    then have "dget (dset t l r') l = Some r'" by simp
    from map_of_SomeD [OF this] True iq assms(1,2) q(2) show ?thesis by force
  next
    case False
    then have "dget (dset t l r') i = Some q" using iq by simp
    from map_of_SomeD [OF this] q(2) show ?thesis by force
  qed
qed

text \<open>Tokens are never lost: a lease that has been superseded stays so.\<close>

definition lease_tokens :: "lease_table \<Rightarrow> int set" where
  "lease_tokens t = (le_fencing_token \<circ> snd) ` set t"

lemma superseded_tokens: "superseded k t \<longleftrightarrow> (\<exists>j \<in> lease_tokens t. k < j)"
  by (auto simp: superseded_iff lease_tokens_def)

lemma acquire_distinct:
  assumes "distinct (dkeys t)" "table_acquire now nextval n ttl t = Inr (t', l, k)"
  shows "distinct (dkeys t')"
  using assms(2)
proof (rule table_acquire_ok)
  assume "l \<notin> set (dkeys t)" "dkeys t' = dkeys t @ [l]"
  with assms(1) show ?thesis by simp
qed

lemma lease_step_tokens:
  assumes "distinct (dkeys t)"
  shows "distinct (dkeys (lease_step x t)) \<and> lease_tokens t \<subseteq> lease_tokens (lease_step x t)"
proof (cases x)
  case (LAcquire now nextval n ttl)
  show ?thesis
  proof (cases "table_acquire now nextval n ttl t")
    case (Inr a)
    obtain t' l k where a: "a = (t', l, k)" by (cases a)
    from Inr a have acq: "table_acquire now nextval n ttl t = Inr (t', l, k)" by simp
    then have "lease_tokens t \<subseteq> lease_tokens t'"
    proof (rule table_acquire_ok)
      assume "map (le_fencing_token \<circ> snd) t' = map (le_fencing_token \<circ> snd) t @ [k]"
      from arg_cong [OF this, of set] show ?thesis by (auto simp: lease_tokens_def)
    qed
    with acquire_distinct [OF assms acq] LAcquire acq show ?thesis by simp
  qed (use LAcquire assms in simp)
next
  case (LRenew now n l k ttl)
  then show ?thesis using assms
    by (auto simp: table_renew_def active_lease_Some lease_tokens_def intro!: has_token_dset [unfolded comp_def]
        split: option.split)
next
  case (LRelease now n l k)
  then show ?thesis using assms
    by (auto simp: table_release_def active_lease_Some lease_tokens_def intro!: has_token_dset [unfolded comp_def]
        split: option.split)
qed

lemma lease_run_superseded:
  "distinct (dkeys t) \<Longrightarrow> superseded k t \<Longrightarrow> superseded k (fold lease_step xs t)"
proof (induction xs arbitrary: t)
  case (Cons x xs)
  from lease_step_tokens [OF Cons.prems(1), of x] Cons.prems(2) Cons.IH [of "lease_step x t"]
  show ?case by (auto simp: superseded_tokens)
qed simp

section \<open>The lease in memory\<close>

definition lock_ok :: "lease_lock \<Rightarrow> bool" where
  "lock_ok k = (case lk_current k of None \<Rightarrow> True | Some l \<Rightarrow> rl_fencing_token l \<le> lk_counter k)"

text \<open>
  An acquisition grants the caller a lease that is valid until it expires; a lease of another
  owner that has not expired keeps everyone else out; a fresh lease has a token above all before.
\<close>

lemma lock_acquire_cases:
  assumes "lock_acquire now i owner ttl k = (k', res)"
  obtains (refused) l where "lk_current k = Some l" "\<not> lease_expired now l" "rl_owner_id l \<noteq> owner"
      "k' = k" "res = None"
    | (renewed) l where "lk_current k = Some l" "\<not> lease_expired now l" "rl_owner_id l = owner"
      "lk_current k' = Some (renewed now ttl l)" "lk_counter k' = lk_counter k" "res = Some (renewed now ttl l)"
    | (granted) l where "\<forall>x. lk_current k = Some x \<longrightarrow> lease_expired now x" "lk_current k' = Some l"
      "lk_counter k' = lk_counter k + 1" "res = Some l" "rl_owner_id l = owner"
      "rl_fencing_token l = lk_counter k + 1" "rl_expires_at l = now + ttl"
  using assms
proof (cases "lk_current k")
  case None
  with assms show thesis by (intro granted [of "the res"]) (auto simp: lock_acquire_def Let_def)
next
  case (Some l)
  show thesis
  proof (cases "lease_expired now l")
    case True
    with assms Some show thesis by (intro granted [of "the res"]) (auto simp: lock_acquire_def Let_def)
  next
    case False
    with assms Some show thesis
      by (cases "rl_owner_id l = owner") (auto simp: lock_acquire_def Let_def intro: refused renewed)
  qed
qed

lemma lock_acquire_ok:
  assumes "lock_ok k" "lock_acquire now i owner ttl k = (k', res)"
  shows "lock_ok k' \<and> lk_counter k \<le> lk_counter k'"
  using assms(2)
proof (cases rule: lock_acquire_cases)
  case (renewed l)
  with assms(1) show ?thesis by (simp add: lock_ok_def renewed_def)
qed (use assms(1) in \<open>simp_all add: lock_ok_def\<close>)

text \<open>
  Once another node has acquired the table's lease under a larger token, an older lease is refused
  for good, whatever follows.
\<close>

lemma superseded_for_good:
  assumes "distinct (dkeys t)" "table_acquire now nextval n ttl t = Inr (t', l', k')" "k < k'"
  shows "\<not> table_is_valid later m l k (fold lease_step xs t') \<and>
    table_renew later m l k ttl2 (fold lease_step xs t') = (fold lease_step xs t', False)"
proof -
  have "distinct (dkeys t')" by (rule acquire_distinct [OF assms(1,2)])
  moreover from assms(2) have "superseded k t'"
  proof (rule table_acquire_ok)
    assume "map (le_fencing_token \<circ> snd) t' = map (le_fencing_token \<circ> snd) t @ [k']"
    from arg_cong [OF this, of set] have "k' \<in> lease_tokens t'" by (simp add: lease_tokens_def)
    with assms(3) show ?thesis by (auto simp: superseded_tokens)
  qed
  ultimately have "superseded k (fold lease_step xs t')" by (rule lease_run_superseded)
  then show ?thesis using superseded_refused by blast
qed

end
