(* ===== verification/ClusterRecovery.thy ===== *)
theory ClusterRecovery
  imports WorkerStore RecoveryLock
begin

text \<open>
  Recovery of the tasks of dead workers (\<open>ClusterRecoveryEngine\<close> of
  \<^verbatim>\<open>workers/cluster_recovery.py\<close>) over the task tables, the lock in memory and the queue. A leader
  works through the running tasks it listed; every step takes its own clock readings and stamps.
  What a raise leaves behind stays: each compare-and-set has committed on its own.
\<close>

record recovery_input =
  ri_now_before :: real
  ri_now_after :: real
  ri_stamp :: stamp
  ri_rollback_stamp :: stamp
  ri_error :: string
  ri_rollback_error :: string

record recovery_state =
  rs_db :: task_db
  rs_queue :: task_queue
  rs_count :: nat

definition recovery_target :: "task \<Rightarrow> task_state" where
  "recovery_target t = (if rt_attempts t < rt_max_attempts t then TS_QUEUED else TS_FAILED)"

text \<open>
  The compensating rollback: back to running under the old lease version. A refusal is swallowed,
  another error replaces the one in flight.
\<close>

definition rollback ::
  "(string \<Rightarrow> string) \<Rightarrow> recovery_input \<Rightarrow> task \<Rightarrow> task_error \<Rightarrow> task_db \<Rightarrow> task_db \<times> task_error" where
  "rollback sha x t err db =
     (case fst (pg_atomic_transition sha (ri_rollback_stamp x) (rt_task_id t) (rt_lease_version t + 1)
                  [recovery_target t] TS_RUNNING
                  [KwLeaseVersion (rt_lease_version t), KwErrorMessage (Some (ri_rollback_error x))] db) of
        Inr (db', _) \<Rightarrow> (db', err)
      | Inl StaleLeaseVersion \<Rightarrow> (db, err)
      | Inl InvalidTaskState \<Rightarrow> (db, err)
      | Inl e \<Rightarrow> (db, e))"

definition recover_task ::
  "(string \<Rightarrow> string) \<Rightarrow> string \<Rightarrow> recovery_lease \<Rightarrow> lease_lock \<Rightarrow> (string \<times> string) list \<Rightarrow> string list
     \<Rightarrow> recovery_input \<Rightarrow> task \<Rightarrow> recovery_state \<Rightarrow> recovery_state \<times> task_error option" where
  "recover_task sha node lease lock assignments offline x t s =
     (if terminal_task (rt_state t) then (s, None)
      else case dget assignments (rt_task_id t) of
        None \<Rightarrow> (s, None)
      | Some owner \<Rightarrow>
          if owner = [] \<or> owner \<notin> set offline then (s, None)
          else if \<not> lock_is_valid (ri_now_before x) node (Some (rl_lease_id lease)) (Some (rl_fencing_token lease)) lock
          then (s, Some FencedLeader)
          else case fst (pg_atomic_transition sha (ri_stamp x) (rt_task_id t) (rt_lease_version t) [TS_RUNNING]
                           (recovery_target t)
                           [KwLeaseVersion (rt_lease_version t + 1), KwErrorMessage (Some (ri_error x))] (rs_db s)) of
              Inl StaleLeaseVersion \<Rightarrow> (s, None)
            | Inl InvalidTaskState \<Rightarrow> (s, None)
            | Inl e \<Rightarrow> (s, Some e)
            | Inr (db1, _) \<Rightarrow>
                if \<not> lock_is_valid (ri_now_after x) node (Some (rl_lease_id lease)) (Some (rl_fencing_token lease)) lock
                then let (db2, e) = rollback sha x t FencedLeader db1 in (s\<lparr> rs_db := db2 \<rparr>, Some e)
                else if recovery_target t = TS_QUEUED then
                  (case enqueue (rt_task_id t) (rs_queue s) of
                     Inl err \<Rightarrow> let (db2, e) = rollback sha x t err db1 in (s\<lparr> rs_db := db2 \<rparr>, Some e)
                   | Inr q \<Rightarrow> (s\<lparr> rs_db := db1, rs_queue := q, rs_count := rs_count s + 1 \<rparr>, None))
                else (s\<lparr> rs_db := db1, rs_count := rs_count s + 1 \<rparr>, None))"

fun recover_tasks ::
  "(string \<Rightarrow> string) \<Rightarrow> string \<Rightarrow> recovery_lease \<Rightarrow> lease_lock \<Rightarrow> (string \<times> string) list \<Rightarrow> string list
     \<Rightarrow> (recovery_input \<times> task) list \<Rightarrow> recovery_state \<Rightarrow> recovery_state \<times> task_error option" where
  "recover_tasks sha node lease lock assignments offline [] s = (s, None)"
| "recover_tasks sha node lease lock assignments offline ((x, t) # xs) s =
     (case recover_task sha node lease lock assignments offline x t s of
        (s', Some e) \<Rightarrow> (s', Some e)
      | (s', None) \<Rightarrow> recover_tasks sha node lease lock assignments offline xs s')"

definition recover_orphaned_tasks ::
  "(string \<Rightarrow> string) \<Rightarrow> real \<Rightarrow> string \<Rightarrow> string \<Rightarrow> recovery_lease option \<Rightarrow> registry \<Rightarrow> (string \<times> string) list
     \<Rightarrow> (nat \<Rightarrow> recovery_input) \<Rightarrow> lease_lock \<Rightarrow> task_db \<Rightarrow> task_queue
     \<Rightarrow> (lease_lock \<times> recovery_state) \<times> task_error option" where
  "recover_orphaned_tasks sha now fresh_id node existing g assignments inputs lock db q =
     (let s = \<lparr> rs_db = db, rs_queue = q, rs_count = 0 \<rparr>;
          (lock1, lease) = (case existing of Some l \<Rightarrow> (lock, Some l) | None \<Rightarrow> lock_acquire now fresh_id node 30 lock)
      in case lease of
           None \<Rightarrow> ((lock1, s), None)
         | Some l \<Rightarrow>
             let offline = map fst [(i, n) \<leftarrow> reg_list_all g. rn_status n = WS_OFFLINE];
                 running = pg_list (Some [TS_RUNNING]) 100 db;
                 (s', e) = (if offline = [] then (s, None)
                            else recover_tasks sha node l lock1 assignments offline
                                   (map (\<lambda>(k, t). (inputs k, t)) (enumerate 0 running)) s)
             in ((fst (lock_release node (Some (rl_lease_id l)) lock1), s'), e))"

section \<open>What a recovery changes\<close>

text \<open>A leader whose lease is not valid changes nothing.\<close>

lemma fenced_leader_idle:
  assumes "\<not> lock_is_valid (ri_now_before x) node (Some (rl_lease_id lease)) (Some (rl_fencing_token lease)) lock"
  shows "fst (recover_task sha node lease lock assignments offline x t s) = s"
  using assms by (auto simp: recover_task_def split: option.split)

text \<open>
  A recovered task was running under the version the leader saw, is now queued (or failed, when its
  attempts are used up) under the next one, and is in the queue exactly when it is queued; the lease
  was valid before and after.
\<close>

lemma recover_task_exact:
  assumes "recover_task sha node lease lock assignments offline x t s = (s', None)" "rs_count s' \<noteq> rs_count s"
  obtains r owner where "dget (td_tasks (rs_db s)) (rt_task_id t) = Some r" "ta_state r = TS_RUNNING"
    "ta_lease_version r = rt_lease_version t"
    "td_tasks (rs_db s') = dset (td_tasks (rs_db s)) (rt_task_id t)
       (r\<lparr> ta_state := recovery_target t, ta_lease_version := rt_lease_version t + 1,
          ta_error_message := Some (ri_error x) \<rparr>)"
    "recovery_target t = TS_QUEUED \<Longrightarrow> enqueue (rt_task_id t) (rs_queue s) = Inr (rs_queue s')"
    "recovery_target t \<noteq> TS_QUEUED \<Longrightarrow> rs_queue s' = rs_queue s"
    "dget assignments (rt_task_id t) = Some owner" "owner \<in> set offline"
    "lock_is_valid (ri_now_before x) node (Some (rl_lease_id lease)) (Some (rl_fencing_token lease)) lock"
    "lock_is_valid (ri_now_after x) node (Some (rl_lease_id lease)) (Some (rl_fencing_token lease)) lock"
proof -
  let ?ks = "[KwLeaseVersion (rt_lease_version t + 1), KwErrorMessage (Some (ri_error x))]"
  let ?v = "\<lambda>now. lock_is_valid now node (Some (rl_lease_id lease)) (Some (rl_fencing_token lease)) lock"
  obtain owner where owner: "dget assignments (rt_task_id t) = Some owner" "owner \<in> set offline"
      "?v (ri_now_before x)"
    using assms by (auto simp: recover_task_def split: option.splits if_splits)
  obtain db1 t1 where cas: "fst (pg_atomic_transition sha (ri_stamp x) (rt_task_id t) (rt_lease_version t) [TS_RUNNING]
      (recovery_target t) ?ks (rs_db s)) = Inr (db1, t1)"
    using assms owner
    by (auto simp: recover_task_def split: option.splits if_splits sum.splits task_error.splits)
  have after: "?v (ri_now_after x)" "rs_db s' = db1"
      "recovery_target t = TS_QUEUED \<Longrightarrow> enqueue (rt_task_id t) (rs_queue s) = Inr (rs_queue s')"
      "recovery_target t \<noteq> TS_QUEUED \<Longrightarrow> rs_queue s' = rs_queue s"
    using assms owner cas
    by (auto simp: recover_task_def split: if_splits sum.splits prod.splits)
  from cas obtain r where r: "dget (td_tasks (rs_db s)) (rt_task_id t) = Some r" "ta_state r = TS_RUNNING"
    "ta_lease_version r = rt_lease_version t"
    "td_tasks db1 = dset (td_tasks (rs_db s)) (rt_task_id t)
       (write_values (recovery_target t) (or_default (rt_lease_version t + 1) (kw_lease_version ?ks)) ?ks r)"
    by (rule pg_atomic_ok) auto
  have "write_values (recovery_target t) (or_default (rt_lease_version t + 1) (kw_lease_version ?ks)) ?ks r =
      r\<lparr> ta_state := recovery_target t, ta_lease_version := rt_lease_version t + 1,
         ta_error_message := Some (ri_error x) \<rparr>"
    by (simp add: write_values_def or_default_def recovery_target_def)
  with r after owner that show thesis by metis
qed

text \<open>
  The rollback of a requeued task puts it back under the version it had, but counts an attempt that
  was never made; a failed task is never rolled back.
\<close>

lemma rollback_counts_attempt:
  assumes "rollback sha x t err db = (db', e)" "db' \<noteq> db"
  obtains r where "dget (td_tasks db) (rt_task_id t) = Some r" "recovery_target t = TS_QUEUED"
    "td_tasks db' = dset (td_tasks db) (rt_task_id t)
       (r\<lparr> ta_state := TS_RUNNING, ta_lease_version := rt_lease_version t,
          ta_error_message := Some (ri_rollback_error x), ta_attempts := ta_attempts r + 1 \<rparr>)"
proof -
  let ?ks = "[KwLeaseVersion (rt_lease_version t), KwErrorMessage (Some (ri_rollback_error x))]"
  obtain t1 where "fst (pg_atomic_transition sha (ri_rollback_stamp x) (rt_task_id t) (rt_lease_version t + 1)
      [recovery_target t] TS_RUNNING ?ks db) = Inr (db', t1)"
    using assms by (auto simp: rollback_def split: sum.splits task_error.splits)
  then show thesis
  proof (rule pg_atomic_ok)
    fix r assume r: "dget (td_tasks db) (rt_task_id t) = Some r"
      "td_tasks db' = dset (td_tasks db) (rt_task_id t)
         (write_values TS_RUNNING (or_default (rt_lease_version t + 1 + 1) (kw_lease_version ?ks)) ?ks r)"
      "\<not> (TS_RUNNING \<in> {TS_QUEUED, TS_RUNNING} \<and> list_ex terminal_task [recovery_target t])"
    then have "recovery_target t = TS_QUEUED"
      by (auto simp: recovery_target_def terminal_task_def split: if_splits)
    with r that show thesis by (simp add: write_values_def or_default_def)
  qed
qed

lemma failed_never_rolled_back:
  assumes "rt_attempts t \<ge> rt_max_attempts t"
  shows "rollback sha x t err db = (db, err)"
proof -
  have "fst (pg_atomic_transition sha sp i v [recovery_target t] TS_RUNNING ks db) = Inl InvalidTaskState"
    for sp i v ks
    using assms by (intro pg_atomic_resurrection) (simp_all add: recovery_target_def terminal_task_def)
  then show ?thesis by (simp add: rollback_def)
qed

end
