(* ===== verification/HashRing.thy ===== *)
theory HashRing
  imports WorkerStore
begin

text \<open>
  Placement of tasks on workers (\<^verbatim>\<open>workers/scheduler.py\<close>): the round-robin scheduler, and the
  consistent hash ring with virtual nodes. The hash is the argument \<open>h\<close> (SHA-256 read as a
  number). A position that is taken is looked for again under a longer key; that search is a
  partial function, since a hash that keeps hitting taken positions never ends it.
\<close>

datatype ring_error = RingValueError | NoWorkers | RingRuntimeError | RingKeyError

record hash_ring =
  hr_virtual_nodes :: int
  hr_ring :: "(nat, string) dict"
  hr_positions :: "nat list"
  hr_workers :: "string list"

definition new_ring :: "int \<Rightarrow> ring_error + hash_ring" where
  "new_ring n =
     (if n \<le> 0 then Inl RingValueError
      else Inr \<lparr> hr_virtual_nodes = n, hr_ring = [], hr_positions = [], hr_workers = [] \<rparr>)"

section \<open>Joining and leaving\<close>

partial_function (option) free_position ::
  "(string \<Rightarrow> nat) \<Rightarrow> (nat, string) dict \<Rightarrow> string \<Rightarrow> nat option" where
  "free_position h ring key =
     (if h key \<in> set (dkeys ring) then free_position h ring (key @ ''#collision'') else Some (h key))"

declare free_position.simps [code]

fun add_vnodes ::
  "(string \<Rightarrow> nat) \<Rightarrow> string \<Rightarrow> nat list \<Rightarrow> (nat, string) dict \<Rightarrow> (nat, string) dict option" where
  "add_vnodes h w [] ring = Some ring"
| "add_vnodes h w (v # vs) ring =
     (case free_position h ring (w @ ''#vnode-'' @ str_nat v) of
        None \<Rightarrow> None
      | Some p \<Rightarrow> add_vnodes h w vs (dset ring p w))"

definition add_worker :: "(string \<Rightarrow> nat) \<Rightarrow> string \<Rightarrow> hash_ring \<Rightarrow> (ring_error + hash_ring) option" where
  "add_worker h w r =
     (if w = [] then Some (Inl RingValueError)
      else if w \<in> set (hr_workers r) then Some (Inr r)
      else case add_vnodes h w [0..<nat (hr_virtual_nodes r)] (hr_ring r) of
          None \<Rightarrow> None
        | Some ring \<Rightarrow>
            Some (Inr (r\<lparr> hr_ring := ring, hr_workers := hr_workers r @ [w],
                          hr_positions := sort (dkeys ring) \<rparr>)))"

definition remove_worker :: "string \<Rightarrow> hash_ring \<Rightarrow> hash_ring" where
  "remove_worker w r =
     (if w \<notin> set (hr_workers r) then r
      else let ring = [(p, owner) \<leftarrow> hr_ring r. owner \<noteq> w] in
        r\<lparr> hr_ring := ring, hr_workers := [v \<leftarrow> hr_workers r. v \<noteq> w], hr_positions := sort (dkeys ring) \<rparr>)"

section \<open>Assignment\<close>

text \<open>\<open>bisect_right\<close> of a sorted list: how many elements do not exceed \<open>x\<close>.\<close>

definition bisect_right :: "nat list \<Rightarrow> nat \<Rightarrow> nat" where
  "bisect_right ps x = length (takeWhile (\<lambda>p. p \<le> x) ps)"

definition ring_assign :: "(string \<Rightarrow> nat) \<Rightarrow> string \<Rightarrow> hash_ring \<Rightarrow> ring_error + string" where
  "ring_assign h task_id r =
     (if hr_positions r = [] then Inl NoWorkers
      else let i = bisect_right (hr_positions r) (h task_id);
               i = (if i = length (hr_positions r) then 0 else i)
        in case dget (hr_ring r) (hr_positions r ! i) of None \<Rightarrow> Inl RingKeyError | Some w \<Rightarrow> Inr w)"

definition scheduler_assign :: "(string \<Rightarrow> nat) \<Rightarrow> string \<Rightarrow> hash_ring \<Rightarrow> ring_error + string" where
  "scheduler_assign h task_id r =
     (case ring_assign h task_id r of Inl NoWorkers \<Rightarrow> Inl RingRuntimeError | x \<Rightarrow> x)"

text \<open>
  Selection with a registry: workers that are no longer active leave the ring, active ones join it
  in the order of the registry's listing.
\<close>

fun join_all :: "(string \<Rightarrow> nat) \<Rightarrow> string list \<Rightarrow> hash_ring \<Rightarrow> (ring_error + hash_ring) option" where
  "join_all h [] r = Some (Inr r)"
| "join_all h (w # ws) r =
     (if w \<in> set (hr_workers r) then join_all h ws r
      else case add_worker h w r of
          None \<Rightarrow> None
        | Some (Inl e) \<Rightarrow> Some (Inl e)
        | Some (Inr r') \<Rightarrow> join_all h ws r')"

definition select_worker ::
  "(string \<Rightarrow> nat) \<Rightarrow> string option \<Rightarrow> registry \<Rightarrow> hash_ring
     \<Rightarrow> (ring_error + hash_ring \<times> (string \<times> registry_node) option) option" where
  "select_worker h task_id g r =
     (case reg_list_active g of
        [] \<Rightarrow> Some (Inr (r, None))
      | first # rest \<Rightarrow>
          let active = first # rest;
              left = fold remove_worker [w \<leftarrow> hr_workers r. w \<notin> fst ` set active] r
          in case join_all h (map fst active) left of
              None \<Rightarrow> None
            | Some (Inl e) \<Rightarrow> Some (Inl e)
            | Some (Inr r') \<Rightarrow>
                let task = (case task_id of Some (c # s) \<Rightarrow> c # s | _ \<Rightarrow> ''default-task-id'') in
                Some (rbind (scheduler_assign h task r') (\<lambda>w.
                  Inr (r', Some (case map_of active w of Some n \<Rightarrow> (w, n) | None \<Rightarrow> first)))))"

text \<open>Round robin.\<close>

definition round_robin :: "registry \<Rightarrow> nat \<Rightarrow> nat \<times> (string \<times> registry_node) option" where
  "round_robin g counter =
     (case reg_list_active g of
        [] \<Rightarrow> (counter, None)
      | ws \<Rightarrow> (Suc counter, Some (ws ! (counter mod length ws))))"

section \<open>The search for a free position ends when the longer keys spread\<close>

fun collided :: "nat \<Rightarrow> string \<Rightarrow> string" where
  "collided 0 key = key"
| "collided (Suc n) key = collided n (key @ ''#collision'')"

lemma free_position_Some:
  "h (collided n key) \<notin> set (dkeys ring) \<Longrightarrow> \<exists>p. free_position h ring key = Some p"
proof (induction n arbitrary: key)
  case 0
  then show ?case by (subst free_position.simps) simp
next
  case (Suc n)
  then show ?case by (subst free_position.simps) auto
qed

lemma free_position_fresh: "free_position h ring key = Some p \<Longrightarrow> p \<notin> set (dkeys ring)"
proof (induction rule: free_position.raw_induct [rotated 1, consumes 1])
  case (1 free_position h ring key p)
  then show ?case by (auto split: if_splits)
qed

lemma free_position_ends:
  assumes "inj (\<lambda>n. h (collided n key))"
  shows "\<exists>p. free_position h ring key = Some p"
proof -
  have "infinite (range (\<lambda>n. h (collided n key)))" using finite_imageD [OF _ assms] infinite_UNIV_nat by blast
  then have "\<not> range (\<lambda>n. h (collided n key)) \<subseteq> set (dkeys ring)" using finite_subset by blast
  then obtain n where "h (collided n key) \<notin> set (dkeys ring)" by auto
  then show ?thesis by (rule free_position_Some)
qed

lemma add_vnodes_ends:
  assumes "\<And>v. inj (\<lambda>n. h (collided n (w @ ''#vnode-'' @ str_nat v)))"
  shows "\<exists>ring'. add_vnodes h w vs ring = Some ring'"
proof (induction vs arbitrary: ring)
  case (Cons v vs)
  obtain p where "free_position h ring (w @ ''#vnode-'' @ str_nat v) = Some p"
    using free_position_ends [OF assms] by blast
  with Cons.IH show ?case by simp
qed simp

text \<open>What joining leaves of the ring: every old position keeps its owner, new ones are the joiner's.\<close>

definition extends :: "(nat, string) dict \<Rightarrow> string \<Rightarrow> (nat, string) dict \<Rightarrow> bool" where
  "extends ring w ring' \<longleftrightarrow>
     (\<forall>p. dget ring' p = dget ring p \<or> (dget ring p = None \<and> dget ring' p = Some w))"

lemma add_vnodes_extends: "add_vnodes h w vs ring = Some ring' \<Longrightarrow> extends ring w ring'"
proof (induction vs arbitrary: ring)
  case (Cons v vs)
  obtain p where p: "free_position h ring (w @ ''#vnode-'' @ str_nat v) = Some p"
      "add_vnodes h w vs (dset ring p w) = Some ring'"
    using Cons.prems by (auto split: option.splits)
  have "dget ring p = None" using free_position_fresh [OF p(1)] by (simp add: dget_None_iff)
  with Cons.IH [OF p(2)] show ?case unfolding extends_def by (metis dget_dset option.distinct(1))
qed (simp add: extends_def)

lemma add_vnodes_distinct: "add_vnodes h w vs ring = Some ring' \<Longrightarrow> distinct (dkeys ring) \<Longrightarrow> distinct (dkeys ring')"
  by (induction vs arbitrary: ring) (auto split: option.splits intro: distinct_dset)

lemma add_vnodes_owns:
  assumes "add_vnodes h w (v # vs) ring = Some ring'"
  shows "\<exists>p. dget ring' p = Some w"
proof -
  obtain p where p: "add_vnodes h w vs (dset ring p w) = Some ring'"
    using assms by (auto split: option.splits)
  from add_vnodes_extends [OF p] have "dget ring' p = Some w"
    unfolding extends_def by (metis dget_dset option.distinct(1))
  then show ?thesis ..
qed

section \<open>Where a task falls\<close>

text \<open>The next position after \<open>x\<close>, around the ring.\<close>

definition next_position :: "nat set \<Rightarrow> nat \<Rightarrow> nat" where
  "next_position S x = (if \<exists>p\<in>S. x < p then Min {p \<in> S. x < p} else Min S)"

lemma next_position_in: "finite S \<Longrightarrow> S \<noteq> {} \<Longrightarrow> next_position S x \<in> S"
proof (cases "\<exists>p\<in>S. x < p")
  case True
  assume "finite S"
  then have "Min {p \<in> S. x < p} \<in> {p \<in> S. x < p}" using True by (intro Min_in) auto
  then show ?thesis using True by (simp add: next_position_def)
qed (auto simp: next_position_def)

lemma next_positionI:
  assumes "finite S" "p \<in> S" "x < p" "\<And>q. q \<in> S \<Longrightarrow> x < q \<Longrightarrow> p \<le> q"
  shows "next_position S x = p"
proof -
  have "Min {p \<in> S. x < p} = p" using assms by (intro Min_eqI) auto
  then show ?thesis using assms(2,3) by (auto simp: next_position_def)
qed

lemma next_position_wrapI:
  assumes "finite S" "p \<in> S" "\<And>q. q \<in> S \<Longrightarrow> q \<le> x" "\<And>q. q \<in> S \<Longrightarrow> p \<le> q"
  shows "next_position S x = p"
proof -
  have "Min S = p" using assms by (intro Min_eqI) auto
  moreover have "\<not> (\<exists>p\<in>S. x < p)" using assms(3) by (auto simp: not_less)
  ultimately show ?thesis by (simp only: next_position_def if_False)
qed

text \<open>More positions move the next one only onto a new position.\<close>

lemma next_position_superset:
  assumes "finite T" "S \<subseteq> T" "S \<noteq> {}"
  shows "next_position T x = next_position S x \<or> next_position T x \<in> T - S"
proof (cases "next_position T x \<in> S")
  case True
  have fin: "finite S" using assms(1,2) finite_subset by blast
  let ?p = "next_position T x"
  show ?thesis
  proof (cases "\<exists>p\<in>T. x < p")
    case up: True
    then have p: "?p = Min {p \<in> T. x < p}" by (simp add: next_position_def)
    have "?p \<in> {p \<in> T. x < p}" unfolding p using up assms(1) by (intro Min_in) auto
    moreover have "?p \<le> q" if "q \<in> S" "x < q" for q
      unfolding p using that assms(1,2) by (intro Min_le) auto
    ultimately have "next_position S x = ?p" using True fin by (intro next_positionI) auto
    then show ?thesis by simp
  next
    case False
    then have p: "?p = Min T" by (simp add: next_position_def)
    have "next_position S x = ?p"
    proof (rule next_position_wrapI [OF fin True])
      show "q \<le> x" if "q \<in> S" for q using False assms(2) that by (meson not_less subsetD)
      show "?p \<le> q" if "q \<in> S" for q unfolding p using that assms(1,2) by (intro Min_le) auto
    qed
    then show ?thesis by simp
  qed
next
  case False
  then show ?thesis using next_position_in [OF assms(1)] assms(2,3) by blast
qed

lemma bisect_next:
  assumes "sorted ps" "ps \<noteq> []"
  shows "ps ! (if bisect_right ps x = length ps then 0 else bisect_right ps x) = next_position (set ps) x"
proof (cases "bisect_right ps x = length ps")
  case True
  then have "takeWhile (\<lambda>p. p \<le> x) ps = ps"
    unfolding bisect_right_def by (metis takeWhile_eq_take take_all_iff order_refl)
  then have all: "\<And>q. q \<in> set ps \<Longrightarrow> q \<le> x" by (metis set_takeWhileD)
  have "next_position (set ps) x = ps ! 0"
  proof (rule next_position_wrapI)
    show "ps ! 0 \<in> set ps" using assms(2) by simp
    show "ps ! 0 \<le> q" if "q \<in> set ps" for q
      using that assms by (metis in_set_conv_nth sorted_nth_mono zero_le)
  qed (use all in auto)
  then show ?thesis using True by simp
next
  case False
  let ?n = "bisect_right ps x"
  have n: "?n < length ps"
    using False length_takeWhile_le [of "\<lambda>p. p \<le> x" ps] by (simp add: bisect_right_def)
  have "next_position (set ps) x = ps ! ?n"
  proof (rule next_positionI)
    show "x < ps ! ?n"
      using nth_length_takeWhile [of "\<lambda>p. p \<le> x" ps] n by (simp add: bisect_right_def)
    show "ps ! ?n \<le> q" if q: "q \<in> set ps" "x < q" for q
    proof -
      obtain j where j: "j < length ps" "q = ps ! j" using q(1) by (auto simp: in_set_conv_nth)
      have "\<not> j < ?n"
      proof
        assume "j < ?n"
        then have "takeWhile (\<lambda>p. p \<le> x) ps ! j = ps ! j" "j < length (takeWhile (\<lambda>p. p \<le> x) ps)"
          by (simp_all add: bisect_right_def takeWhile_nth)
        then have "ps ! j \<in> set (takeWhile (\<lambda>p. p \<le> x) ps)" by (metis nth_mem)
        then have "ps ! j \<le> x" by (metis set_takeWhileD)
        with q(2) j(2) show False by simp
      qed
      with j assms(1) n show ?thesis by (simp add: sorted_nth_mono)
    qed
  qed (use n in auto)
  then show ?thesis using False by simp
qed

section \<open>The ring's invariant\<close>

definition ring_ok :: "hash_ring \<Rightarrow> bool" where
  "ring_ok r \<longleftrightarrow>
     hr_virtual_nodes r > 0 \<and> distinct (dkeys (hr_ring r)) \<and> hr_positions r = sort (dkeys (hr_ring r)) \<and>
     snd ` set (hr_ring r) = set (hr_workers r)"

lemma ring_assign_owner:
  assumes "ring_ok r"
  shows "ring_assign h t r =
    (if hr_ring r = [] then Inl NoWorkers
     else Inr (the (dget (hr_ring r) (next_position (set (dkeys (hr_ring r))) (h t)))))"
proof (cases "hr_ring r = []")
  case True
  then show ?thesis using assms by (simp add: ring_assign_def ring_ok_def)
next
  case False
  let ?ps = "hr_positions r" and ?S = "set (dkeys (hr_ring r))"
  have ps: "?ps \<noteq> []" "sorted ?ps" "set ?ps = ?S"
    using assms False by (auto simp: ring_ok_def dest: arg_cong [of _ "[]" set])
  have "next_position ?S (h t) \<in> ?S" using ps by (intro next_position_in) auto
  then obtain w where "dget (hr_ring r) (next_position ?S (h t)) = Some w"
    by (metis dget_None_iff option.exhaust)
  then show ?thesis
    using bisect_next [OF ps(2,1), of "h t"] ps False
    by (simp add: ring_assign_def Let_def)
qed

lemma ring_assign_total:
  assumes "ring_ok r" "hr_workers r \<noteq> []"
  shows "\<exists>w \<in> set (hr_workers r). ring_assign h t r = Inr w"
proof -
  let ?S = "set (dkeys (hr_ring r))"
  have ne: "hr_ring r \<noteq> []" using assms by (auto simp: ring_ok_def)
  have "next_position ?S (h t) \<in> ?S" using ne by (intro next_position_in) auto
  then obtain w where w: "dget (hr_ring r) (next_position ?S (h t)) = Some w"
    by (metis dget_None_iff option.exhaust)
  then have "w \<in> set (hr_workers r)"
    using assms(1) by (force simp: ring_ok_def dest: map_of_SomeD)
  with w ne ring_assign_owner [OF assms(1)] show ?thesis by auto
qed

lemma new_ring_ok: "new_ring n = Inr r \<Longrightarrow> ring_ok r"
  by (auto simp: new_ring_def ring_ok_def split: if_splits)

lemma extends_keys: "extends ring w ring' \<Longrightarrow> set (dkeys ring) \<subseteq> set (dkeys ring')"
  unfolding extends_def by (metis dget_None_iff option.distinct(1) subsetI)

lemma extends_new: "extends ring w ring' \<Longrightarrow> p \<in> set (dkeys ring') - set (dkeys ring) \<Longrightarrow> dget ring' p = Some w"
  unfolding extends_def by (metis DiffD1 DiffD2 dget_None_iff)

lemma extends_old: "extends ring w ring' \<Longrightarrow> p \<in> set (dkeys ring) \<Longrightarrow> dget ring' p = dget ring p"
  unfolding extends_def by (metis dget_None_iff)

lemma extends_values:
  assumes ext: "extends ring w ring'" and p: "dget ring' p = Some w"
  shows "{v. \<exists>k. dget ring' k = Some v} = insert w {v. \<exists>k. dget ring k = Some v}"
proof -
  have "dget ring' k = Some v \<Longrightarrow> v = w \<or> dget ring k = Some v" for k v
    using ext unfolding extends_def by (metis option.inject)
  moreover have "dget ring k = Some v \<Longrightarrow> dget ring' k = Some v" for k v
    using ext unfolding extends_def by (metis option.distinct(1))
  ultimately show ?thesis using p by blast
qed

lemma dict_values: "distinct (dkeys d) \<Longrightarrow> snd ` set d = {v. \<exists>k. dget d k = Some v}"
  by (force dest: map_of_SomeD intro: map_of_is_SomeI)

text \<open>Joining keeps the invariant and moves a task, if at all, to the joiner.\<close>

lemma add_worker_cases:
  assumes "add_worker h w r = Some (Inr r')"
  obtains (there) "w \<in> set (hr_workers r)" "r' = r"
    | (new) ring where "w \<noteq> []" "w \<notin> set (hr_workers r)"
        "add_vnodes h w [0..<nat (hr_virtual_nodes r)] (hr_ring r) = Some ring"
        "r' = r\<lparr> hr_ring := ring, hr_workers := hr_workers r @ [w], hr_positions := sort (dkeys ring) \<rparr>"
  using assms by (auto simp: add_worker_def split: if_splits option.splits)

lemma add_worker_ok:
  assumes ok: "ring_ok r" and add: "add_worker h w r = Some (Inr r')"
  shows "ring_ok r' \<and> set (hr_workers r') = insert w (set (hr_workers r))"
  using add
proof (cases rule: add_worker_cases)
  case (new ring)
  have vs: "[0..<nat (hr_virtual_nodes r)] = 0 # [1..<nat (hr_virtual_nodes r)]"
    using ok by (simp add: ring_ok_def upt_conv_Cons)
  have ext: "extends (hr_ring r) w ring" by (rule add_vnodes_extends [OF new(3)])
  have dist: "distinct (dkeys ring)" using add_vnodes_distinct [OF new(3)] ok by (simp add: ring_ok_def)
  obtain p where p: "dget ring p = Some w" using add_vnodes_owns new(3) vs by metis
  have vals: "snd ` set (hr_ring r) = {v. \<exists>k. dget (hr_ring r) k = Some v}"
    using ok by (intro dict_values) (simp add: ring_ok_def)
  have "snd ` set ring = insert w (snd ` set (hr_ring r))"
    unfolding dict_values [OF dist] vals
    using extends_values [OF ext p] .
  with new ok dist show ?thesis by (auto simp: ring_ok_def)
qed (use ok in auto)

lemma add_worker_moves:
  assumes ok: "ring_ok r" and add: "add_worker h w r = Some (Inr r')" and a: "ring_assign h t r = Inr v"
  shows "ring_assign h t r' \<in> {Inr v, Inr w}"
  using add
proof (cases rule: add_worker_cases)
  case (new ring)
  let ?S = "set (dkeys (hr_ring r))" and ?T = "set (dkeys ring)"
  have ext: "extends (hr_ring r) w ring" by (rule add_vnodes_extends [OF new(3)])
  have ok': "ring_ok r'" using add_worker_ok [OF ok add] by simp
  have ne: "?S \<noteq> {}" and v: "v = the (dget (hr_ring r) (next_position ?S (h t)))"
    using a ring_assign_owner [OF ok] by (auto split: if_splits)
  have in_S: "next_position ?S (h t) \<in> ?S" using ne by (intro next_position_in) auto
  have ne': "ring \<noteq> []" using extends_keys [OF ext] ne by auto
  have r': "ring_assign h t r' = Inr (the (dget ring (next_position ?T (h t))))"
    using ring_assign_owner [OF ok'] new(4) ne' by simp
  from next_position_superset [OF _ extends_keys [OF ext] ne, of "h t"]
  consider "next_position ?T (h t) = next_position ?S (h t)" | "next_position ?T (h t) \<in> ?T - ?S" by auto
  then show ?thesis
  proof cases
    case 1
    then show ?thesis using r' v extends_old [OF ext in_S] by simp
  next
    case 2
    then show ?thesis using r' extends_new [OF ext] by simp
  qed
qed (use a in simp)

text \<open>Leaving keeps the invariant and moves only the tasks of the one that leaves.\<close>

lemma dget_filter_owner:
  "distinct (dkeys d) \<Longrightarrow> dget [(p, v) \<leftarrow> d. v \<noteq> w] k = (case dget d k of Some v \<Rightarrow> if v = w then None else Some v | None \<Rightarrow> None)"
proof (induction d)
  case (Cons x d)
  obtain q u where x: "x = (q, u)" by (cases x)
  have "q \<notin> set (dkeys d)" using Cons.prems x by simp
  then have "dget d q = None" by (simp add: dget_None_iff)
  with Cons x show ?case by (auto split: option.split)
qed simp

lemma distinct_filter_keys: "distinct (dkeys d) \<Longrightarrow> distinct (dkeys (filter P d))"
  by (simp add: distinct_map_filter)

lemma remove_worker_ok:
  assumes "ring_ok r"
  shows "ring_ok (remove_worker w r) \<and> set (hr_workers (remove_worker w r)) = set (hr_workers r) - {w}"
proof -
  have "snd ` set [(p, v) \<leftarrow> hr_ring r. v \<noteq> w] = snd ` set (hr_ring r) - {w}" by force
  then show ?thesis using assms by (auto simp: ring_ok_def remove_worker_def Let_def distinct_filter_keys)
qed

lemma remove_worker_moves:
  assumes ok: "ring_ok r" and a: "ring_assign h t r = Inr v" and "v \<noteq> w"
  shows "ring_assign h t (remove_worker w r) = Inr v"
proof (cases "w \<in> set (hr_workers r)")
  case True
  let ?r = "remove_worker w r"
  let ?S = "set (dkeys (hr_ring ?r))" and ?T = "set (dkeys (hr_ring r))"
  have dist: "distinct (dkeys (hr_ring r))" using ok by (simp add: ring_ok_def)
  have ring: "hr_ring ?r = [(p, v) \<leftarrow> hr_ring r. v \<noteq> w]" using True by (simp add: remove_worker_def Let_def)
  note lk = dget_filter_owner [OF dist, of w, folded ring]
  have ne: "?T \<noteq> {}" and v: "dget (hr_ring r) (next_position ?T (h t)) = Some v"
  proof -
    show ne: "?T \<noteq> {}" using a ring_assign_owner [OF ok] by (auto split: if_splits)
    then have "next_position ?T (h t) \<in> ?T" by (intro next_position_in) auto
    then obtain u where "dget (hr_ring r) (next_position ?T (h t)) = Some u"
      by (metis dget_None_iff option.exhaust)
    then show "dget (hr_ring r) (next_position ?T (h t)) = Some v"
      using a ne ring_assign_owner [OF ok] by (auto split: if_splits)
  qed
  have v': "dget (hr_ring ?r) (next_position ?T (h t)) = Some v" using lk v \<open>v \<noteq> w\<close> by simp
  then have in_S: "next_position ?T (h t) \<in> ?S" by (metis dget_None_iff option.distinct(1))
  have sub: "?S \<subseteq> ?T" unfolding ring by auto
  have "next_position ?T (h t) = next_position ?S (h t)"
    using next_position_superset [OF _ sub, of "h t"] in_S by (metis DiffD2 List.finite_set empty_iff)
  then show ?thesis
    using ring_assign_owner [of ?r h t] remove_worker_ok [OF ok] v' in_S by auto
qed (use a in \<open>simp add: remove_worker_def\<close>)

section \<open>Selection\<close>

lemma remove_all_ok:
  "ring_ok r \<Longrightarrow> ring_ok (fold remove_worker ws r) \<and>
     set (hr_workers (fold remove_worker ws r)) = set (hr_workers r) - set ws"
proof (induction ws arbitrary: r)
  case (Cons w ws)
  from remove_worker_ok [OF Cons.prems, of w] Cons.IH [of "remove_worker w r"] show ?case by auto
qed simp

lemma join_all_ok:
  "ring_ok r \<Longrightarrow> join_all h ws r = Some (Inr r') \<Longrightarrow>
     ring_ok r' \<and> set (hr_workers r') = set (hr_workers r) \<union> set ws"
proof (induction ws arbitrary: r)
  case (Cons w ws)
  show ?case
  proof (cases "w \<in> set (hr_workers r)")
    case True
    with Cons show ?thesis by auto
  next
    case False
    then obtain r1 where r1: "add_worker h w r = Some (Inr r1)" "join_all h ws r1 = Some (Inr r')"
      using Cons.prems(2) by (auto split: option.splits sum.splits)
    from add_worker_ok [OF Cons.prems(1) r1(1)] Cons.IH [OF _ r1(2)] show ?thesis by auto
  qed
qed auto

text \<open>
  After a selection the ring holds the active workers and no other, and the worker the ring names
  is found among them: the fallback to the first active worker is never taken.
\<close>

lemma select_worker_exact:
  assumes ok: "ring_ok r" and sel: "select_worker h task g r = Some (Inr (r', x))"
    and some: "reg_list_active g \<noteq> []"
  shows "ring_ok r' \<and> set (hr_workers r') = fst ` set (reg_list_active g) \<and>
    (\<exists>w n. x = Some (w, n) \<and> (w, n) \<in> set (reg_list_active g) \<and>
       ring_assign h (case task of Some (c # s) \<Rightarrow> c # s | _ \<Rightarrow> ''default-task-id'') r' = Inr w)"
proof -
  let ?task = "case task of Some (c # s) \<Rightarrow> c # s | _ \<Rightarrow> ''default-task-id''"
  obtain first rest where act: "reg_list_active g = first # rest" using some by (cases "reg_list_active g") auto
  define active where "active = first # rest"
  define left where "left = fold remove_worker [w \<leftarrow> hr_workers r. w \<notin> fst ` set active] r"
  obtain w where join: "join_all h (map fst active) left = Some (Inr r')"
    and w: "scheduler_assign h ?task r' = Inr w"
    and x: "x = Some (case map_of active w of Some n \<Rightarrow> (w, n) | None \<Rightarrow> first)"
    using sel act by (auto simp: select_worker_def Let_def active_def left_def split: option.splits sum.splits)
  from remove_all_ok [OF ok, of "[w \<leftarrow> hr_workers r. w \<notin> fst ` set active]"]
  have left: "ring_ok left" "set (hr_workers left) \<subseteq> fst ` set active" by (auto simp: left_def)
  from join_all_ok [OF left(1) join] left(2)
  have r': "ring_ok r'" "set (hr_workers r') = fst ` set active" by auto
  have ra: "ring_assign h ?task r' = Inr w"
    using w by (auto simp: scheduler_assign_def split: sum.splits ring_error.splits)
  have "hr_workers r' \<noteq> []" using r'(2) by (auto simp: active_def)
  from ring_assign_total [OF r'(1) this, of h ?task] obtain v
    where "v \<in> set (hr_workers r')" "ring_assign h ?task r' = Inr v" by blast
  with ra r'(2) have "w \<in> fst ` set active" by simp
  then obtain n where "map_of active w = Some n" using dget_None_iff [of active w] by (cases "map_of active w") auto
  moreover from this have "(w, n) \<in> set active" by (rule map_of_SomeD)
  ultimately show ?thesis using x r' ra act by (simp add: active_def [symmetric])
qed

text \<open>Round robin visits every active worker once in as many turns as there are workers.\<close>

fun round_robin_run :: "registry \<Rightarrow> nat \<Rightarrow> nat \<Rightarrow> (string \<times> registry_node) option list" where
  "round_robin_run g counter 0 = []"
| "round_robin_run g counter (Suc n) =
     (let (counter', w) = round_robin g counter in w # round_robin_run g counter' n)"

lemma round_robin_run_nth:
  assumes "reg_list_active g \<noteq> []"
  shows "round_robin_run g c n =
     map (\<lambda>k. Some (reg_list_active g ! (k mod length (reg_list_active g)))) [c..<c + n]"
proof (induction n arbitrary: c)
  case (Suc n)
  have "round_robin g c = (Suc c, Some (reg_list_active g ! (c mod length (reg_list_active g))))"
    using assms by (cases "reg_list_active g") (simp_all add: round_robin_def)
  moreover have "[c..<c + Suc n] = c # [Suc c..<Suc c + n]" by (simp add: upt_conv_Cons)
  ultimately show ?case using Suc.IH [of "Suc c"] by simp
qed simp

section \<open>Properties\<close>

text \<open>
  C35: Workers come and go without reshuffling the others' tasks, for any hash. When a worker joins
  a well-formed ring (\<open>ring_ok\<close>, which joining and leaving keep), a task stays where it was or
  moves to the joiner; when one leaves, only its own tasks move.
\<close>

theorem churn_is_local:
  assumes "ring_ok r" "ring_assign h t r = Inr v"
  shows "(add_worker h w r = Some (Inr r') \<longrightarrow> ring_assign h t r' \<in> {Inr v, Inr w}) \<and>
    (v \<noteq> w \<longrightarrow> ring_assign h t (remove_worker w r) = Inr v)"
  using add_worker_moves [OF assms(1) _ assms(2)] remove_worker_moves [OF assms] by blast

text \<open>A ring of two workers under a small hash.\<close>

definition demo_hash :: "string \<Rightarrow> nat" where
  "demo_hash s = foldl (\<lambda>n c. (7 * n + of_char c) mod 101) 0 s"

definition empty_ring :: hash_ring where
  "empty_ring = \<lparr> hr_virtual_nodes = 1, hr_ring = [], hr_positions = [], hr_workers = [] \<rparr>"

definition ring_after :: "string list \<Rightarrow> hash_ring" where
  "ring_after ws =
     (case join_all demo_hash ws empty_ring of Some (Inr r) \<Rightarrow> r | _ \<Rightarrow> empty_ring)"

theorem churn_is_local_witness:
  "ring_assign demo_hash ''t1'' (ring_after [''a'', ''b'', ''c'']) \<in> {Inr ''a'', Inr ''c''} \<and>
   ring_assign demo_hash ''t1'' (remove_worker ''b'' (ring_after [''a'', ''b''])) = Inr ''a''"
proof -
  have r: "ring_assign demo_hash ''t1'' (ring_after [''a'', ''b'']) = Inr ''a''"
    "add_worker demo_hash ''c'' (ring_after [''a'', ''b'']) = Some (Inr (ring_after [''a'', ''b'', ''c'']))"
    by code_simp+
  have "join_all demo_hash [''a'', ''b''] empty_ring = Some (Inr (ring_after [''a'', ''b'']))" by code_simp
  moreover have "ring_ok empty_ring" by (rule new_ring_ok [of 1]) (simp add: new_ring_def empty_ring_def)
  ultimately have "ring_ok (ring_after [''a'', ''b''])" using join_all_ok by blast
  from churn_is_local [OF this r(1), of "''c''" "ring_after [''a'', ''b'', ''c'']"]
    churn_is_local [OF this r(1), of "''b''"] r(2)
  show ?thesis by auto
qed

end
