(* ===== verification/Outbox.thy ===== *)
theory Outbox
  imports TaskStore
begin

text \<open>
  Publishing of outbox events: claiming, publishing and failing (\<^verbatim>\<open>events/outbox.py\<close>), the polling
  publisher (\<^verbatim>\<open>events/publisher.py\<close>) and the publisher that feeds the task queue
  (\<^verbatim>\<open>persistence/outbox_publisher.py\<close>). A poll is one session: when its commit fails, the rows are
  as before while the publisher still remembers what it delivered. Rows that other sessions hold
  locked are skipped; the handler is a function that says whether it returned or raised.
\<close>

section \<open>Claiming\<close>

definition claim_row :: "int \<Rightarrow> string \<Rightarrow> string \<Rightarrow> outbox_row \<Rightarrow> outbox_row" where
  "claim_row now publisher token e =
     e\<lparr> ob_status := OB_CLAIMED, ob_claimed_by := Some publisher, ob_publisher_lease_token := Some token,
        ob_claimed_at := Some now \<rparr>"

definition pending_ids :: "string list \<Rightarrow> nat \<Rightarrow> outbox \<Rightarrow> string list" where
  "pending_ids locked limit ob =
     take limit (map fst (sort_key (\<lambda>(i, e). ob_created_at e)
       [(i, e) \<leftarrow> ob. ob_status e = OB_PENDING \<and> i \<notin> set locked]))"

definition claim_pending_events ::
  "int \<Rightarrow> string \<Rightarrow> string \<Rightarrow> nat \<Rightarrow> string list \<Rightarrow> outbox \<Rightarrow> outbox \<times> string list" where
  "claim_pending_events now publisher token limit locked ob =
     (let ids = pending_ids locked limit ob in
      (map (\<lambda>(i, e). (i, if i \<in> set ids then claim_row now publisher token e else e)) ob, ids))"

definition mark_published :: "int \<Rightarrow> string \<Rightarrow> string \<Rightarrow> string \<Rightarrow> outbox \<Rightarrow> outbox \<times> bool" where
  "mark_published now event_id publisher token ob =
     (let (ob', n) = update_row ob event_id
        (\<lambda>e. ob_status e = OB_CLAIMED \<and> ob_claimed_by e = Some publisher \<and>
             ob_publisher_lease_token e = Some token)
        (\<lambda>e. e\<lparr> ob_status := OB_PUBLISHED, ob_published_at := Some now \<rparr>)
      in (ob', n = 1))"

definition fail_row :: "int \<Rightarrow> outbox_row \<Rightarrow> outbox_row" where
  "fail_row max_attempts e =
     e\<lparr> ob_attempt_count := ob_attempt_count e + 1,
        ob_status := (if ob_attempt_count e + 1 \<ge> max_attempts then OB_FAILED else OB_PENDING),
        ob_claimed_by := None, ob_claimed_at := None, ob_publisher_lease_token := None \<rparr>"

definition mark_failed :: "string \<Rightarrow> int \<Rightarrow> outbox \<Rightarrow> outbox" where
  "mark_failed event_id max_attempts ob =
     (case dget ob event_id of None \<Rightarrow> ob | Some e \<Rightarrow> dset ob event_id (fail_row max_attempts e))"

section \<open>The polling publisher\<close>

record publisher =
  pu_id :: string
  pu_lease_token :: string
  pu_processed :: "string list"

record poll_state =
  po_outbox :: outbox
  po_processed :: "string list"
  po_delivered :: "string list"
  po_count :: nat

fun publish_claimed ::
  "int \<Rightarrow> (string \<Rightarrow> outbox_row \<Rightarrow> bool) \<Rightarrow> publisher \<Rightarrow> string list \<Rightarrow> poll_state \<Rightarrow> poll_state" where
  "publish_claimed now handler pu [] s = s"
| "publish_claimed now handler pu (i # ids) s =
     publish_claimed now handler pu ids
       (if i \<in> set (po_processed s)
        then s\<lparr> po_outbox := fst (mark_published now i (pu_id pu) (pu_lease_token pu) (po_outbox s)),
                po_count := po_count s + 1 \<rparr>
        else case dget (po_outbox s) i of
            None \<Rightarrow> s
          | Some e \<Rightarrow>
              if handler i e
              then s\<lparr> po_processed := po_processed s @ [i], po_delivered := po_delivered s @ [i],
                      po_outbox := fst (mark_published now i (pu_id pu) (pu_lease_token pu) (po_outbox s)),
                      po_count := po_count s + 1 \<rparr>
              else s\<lparr> po_outbox := mark_failed i 5 (po_outbox s) \<rparr>)"

definition poll_and_publish ::
  "int \<Rightarrow> (string \<Rightarrow> outbox_row \<Rightarrow> bool) \<Rightarrow> nat \<Rightarrow> string list \<Rightarrow> bool \<Rightarrow> publisher \<Rightarrow> outbox
     \<Rightarrow> (publisher \<times> outbox) \<times> string list \<times> nat" where
  "poll_and_publish now handler limit locked commits pu ob =
     (let (claimed, ids) = claim_pending_events now (pu_id pu) (pu_lease_token pu) limit locked ob;
          s = publish_claimed now handler pu ids
                \<lparr> po_outbox = claimed, po_processed = pu_processed pu, po_delivered = [], po_count = 0 \<rparr>
      in ((pu\<lparr> pu_processed := po_processed s \<rparr>, if commits then po_outbox s else ob),
          po_delivered s, po_count s))"

section \<open>What a poll does to a row\<close>

lemma set_pending_ids:
  "i \<in> set (pending_ids locked limit ob) \<Longrightarrow> \<exists>e. (i, e) \<in> set ob \<and> ob_status e = OB_PENDING \<and> i \<notin> set locked"
  by (fastforce simp: pending_ids_def dest!: in_set_takeD)

lemma distinct_map_sort: "distinct (map f xs) \<Longrightarrow> distinct (map f (sort_key g xs))"
proof -
  have "mset (map f (sort_key g xs)) = mset (map f xs)" by simp
  then show "distinct (map f xs) \<Longrightarrow> ?thesis" using mset_eq_imp_distinct_iff by blast
qed

lemma distinct_pending_ids: "distinct (dkeys ob) \<Longrightarrow> distinct (pending_ids locked limit ob)"
  unfolding pending_ids_def
  by (intro distinct_take distinct_map_sort) (simp add: distinct_map_filter)

lemma dget_map_rows: "dget (map (\<lambda>(i, e). (i, f i e)) d) k = map_option (f k) (dget d k)"
  by (induction d) auto

lemma claim_row_dget:
  "dget (fst (claim_pending_events now p t limit locked ob)) i =
     map_option (\<lambda>e. if i \<in> set (pending_ids locked limit ob) then claim_row now p t e else e) (dget ob i)"
  by (simp add: claim_pending_events_def Let_def dget_map_rows [where f = "\<lambda>i e. if _ i then _ e else e"])

text \<open>The rows the loop does not name stay; a named row ends delivered or failed.\<close>

lemma mark_published_dget:
  "dget (fst (mark_published now i p t ob)) j =
     (if j = i then map_option (\<lambda>e. if ob_status e = OB_CLAIMED \<and> ob_claimed_by e = Some p \<and>
          ob_publisher_lease_token e = Some t then e\<lparr> ob_status := OB_PUBLISHED, ob_published_at := Some now \<rparr> else e)
        (dget ob i) else dget ob j)"
  by (auto simp: mark_published_def update_row_def split: option.splits)

lemma mark_failed_dget:
  "dget (mark_failed i m ob) j = (if j = i then map_option (fail_row m) (dget ob i) else dget ob j)"
  by (auto simp: mark_failed_def split: option.split)

lemma publish_claimed_other:
  "i \<notin> set ids \<Longrightarrow> dget (po_outbox (publish_claimed now handler pu ids s)) i = dget (po_outbox s) i"
proof (induction ids arbitrary: s)
  case (Cons j ids)
  then show ?case
    by (auto simp: mark_published_dget mark_failed_dget split: option.split)
qed simp

definition held_by :: "publisher \<Rightarrow> outbox_row \<Rightarrow> bool" where
  "held_by pu e =
     (ob_status e = OB_CLAIMED \<and> ob_claimed_by e = Some (pu_id pu) \<and>
      ob_publisher_lease_token e = Some (pu_lease_token pu))"

definition published_row :: "int \<Rightarrow> outbox_row \<Rightarrow> outbox_row" where
  "published_row now e = e\<lparr> ob_status := OB_PUBLISHED, ob_published_at := Some now \<rparr>"

lemma publish_claimed_exact:
  "distinct ids \<Longrightarrow> (\<And>i. i \<in> set ids \<Longrightarrow> dget (po_outbox s) i = Some (E i) \<and> held_by pu (E i)) \<Longrightarrow>
     s' = publish_claimed now handler pu ids s \<Longrightarrow>
     (let new = [i \<leftarrow> ids. i \<notin> set (po_processed s) \<and> handler i (E i)] in
      po_processed s' = po_processed s @ new \<and> po_delivered s' = po_delivered s @ new \<and>
      (\<forall>i \<in> set ids. dget (po_outbox s') i =
         Some (if i \<in> set (po_processed s) \<or> handler i (E i) then published_row now (E i)
               else fail_row 5 (E i))))"
proof (induction ids arbitrary: s)
  case (Cons i ids)
  from Cons.prems(2) [of i] have i: "dget (po_outbox s) i = Some (E i)" "held_by pu (E i)" by simp_all
  let ?pub = "fst (mark_published now i (pu_id pu) (pu_lease_token pu) (po_outbox s))"
  define s1 where "s1 =
    (if i \<in> set (po_processed s) then s\<lparr> po_outbox := ?pub, po_count := po_count s + 1 \<rparr>
     else if handler i (E i) then s\<lparr> po_processed := po_processed s @ [i], po_delivered := po_delivered s @ [i],
        po_outbox := ?pub, po_count := po_count s + 1 \<rparr>
     else s\<lparr> po_outbox := mark_failed i 5 (po_outbox s) \<rparr>)"
  have s': "s' = publish_claimed now handler pu ids s1"
    using Cons.prems(3) i(1) by (simp add: s1_def)
  have row: "dget (po_outbox s1) i =
      Some (if i \<in> set (po_processed s) \<or> handler i (E i) then published_row now (E i) else fail_row 5 (E i))"
    using i by (simp add: s1_def mark_published_dget mark_failed_dget held_by_def published_row_def)
  have others: "dget (po_outbox s1) j = dget (po_outbox s) j" if "j \<noteq> i" for j
    using that by (simp add: s1_def mark_published_dget mark_failed_dget)
  have nid: "i \<notin> set ids" "distinct ids" using Cons.prems(1) by simp_all
  have hyp: "dget (po_outbox s1) j = Some (E j) \<and> held_by pu (E j)" if "j \<in> set ids" for j
    using Cons.prems(2) [of j] others [of j] that nid(1) by auto
  note ih = Cons.IH [OF nid(2) hyp s', unfolded Let_def]
  have same: "[j \<leftarrow> ids. j \<notin> set (po_processed s1) \<and> handler j (E j)]
      = [j \<leftarrow> ids. j \<notin> set (po_processed s) \<and> handler j (E j)]"
    using nid(1) by (intro filter_cong) (auto simp: s1_def)
  have last: "dget (po_outbox s') i = dget (po_outbox s1) i"
    unfolding s' using nid(1) by (rule publish_claimed_other)
  have mem: "j \<in> set (po_processed s1) \<longleftrightarrow> j \<in> set (po_processed s)" if "j \<in> set ids" for j
    using that nid(1) by (auto simp: s1_def)
  have head: "po_processed s1 = po_processed s @ (if i \<notin> set (po_processed s) \<and> handler i (E i) then [i] else [])"
    "po_delivered s1 = po_delivered s @ (if i \<notin> set (po_processed s) \<and> handler i (E i) then [i] else [])"
    by (simp_all add: s1_def)
  show ?case
    unfolding Let_def
  proof (intro conjI ballI)
    show "po_processed s' = po_processed s @ [j \<leftarrow> i # ids. j \<notin> set (po_processed s) \<and> handler j (E j)]"
      using ih same head(1) by simp
    show "po_delivered s' = po_delivered s @ [j \<leftarrow> i # ids. j \<notin> set (po_processed s) \<and> handler j (E j)]"
      using ih same head(2) by simp
    fix j assume j: "j \<in> set (i # ids)"
    show "dget (po_outbox s') j =
        Some (if j \<in> set (po_processed s) \<or> handler j (E j) then published_row now (E j) else fail_row 5 (E j))"
    proof (cases "j = i")
      case True
      with last row show ?thesis by simp
    next
      case False
      with j have "j \<in> set ids" by simp
      with ih mem [OF this] show ?thesis by simp
    qed
  qed
qed simp

section \<open>A poll\<close>

lemma poll_exact:
  assumes "distinct (dkeys ob)"
    and p: "poll_and_publish now handler limit locked commits pu ob = ((pu', ob'), delivered, n)"
  defines "ids \<equiv> pending_ids locked limit ob"
    and "E \<equiv> \<lambda>i. claim_row now (pu_id pu) (pu_lease_token pu) (the (dget ob i))"
  shows "delivered = [i \<leftarrow> ids. i \<notin> set (pu_processed pu) \<and> handler i (E i)]"
    and "pu' = pu\<lparr> pu_processed := pu_processed pu @ delivered \<rparr>"
    and "\<not> commits \<Longrightarrow> ob' = ob"
    and "commits \<Longrightarrow> dget ob' i =
      (if i \<in> set ids
       then Some (if i \<in> set (pu_processed pu) \<or> handler i (E i) then published_row now (E i) else fail_row 5 (E i))
       else dget ob i)"
proof -
  obtain claimed where claimed: "claimed = fst (claim_pending_events now (pu_id pu) (pu_lease_token pu) limit locked ob)"
    by simp
  define s where "s = \<lparr> po_outbox = claimed, po_processed = pu_processed pu, po_delivered = [], po_count = 0 \<rparr>"
  define s' where "s' = publish_claimed now handler pu ids s"
  have poll: "((pu', ob'), delivered, n) =
      ((pu\<lparr> pu_processed := po_processed s' \<rparr>, if commits then po_outbox s' else ob), po_delivered s', po_count s')"
    unfolding p [symmetric]
    by (simp add: poll_and_publish_def s'_def s_def claimed ids_def claim_pending_events_def Let_def)
  have dist: "distinct ids" unfolding ids_def by (rule distinct_pending_ids [OF assms(1)])
  have held: "dget (po_outbox s) i = Some (E i) \<and> held_by pu (E i)" if mem: "i \<in> set ids" for i
  proof -
    obtain e where "(i, e) \<in> set ob" using set_pending_ids [OF mem [unfolded ids_def]] by blast
    then have "dget ob i = Some e" using assms(1) by simp
    then show ?thesis
      using mem by (simp add: s_def claimed claim_row_dget E_def ids_def held_by_def claim_row_def)
  qed
  note ex = publish_claimed_exact [OF dist held s'_def, unfolded Let_def]
  show d: "delivered = [i \<leftarrow> ids. i \<notin> set (pu_processed pu) \<and> handler i (E i)]"
    using ex poll by (simp add: s_def)
  show "pu' = pu\<lparr> pu_processed := pu_processed pu @ delivered \<rparr>" using ex poll d by (simp add: s_def)
  show "\<not> commits \<Longrightarrow> ob' = ob" using poll by simp
  show "dget ob' i =
      (if i \<in> set ids
       then Some (if i \<in> set (pu_processed pu) \<or> handler i (E i) then published_row now (E i) else fail_row 5 (E i))
       else dget ob i)" if commits
  proof (cases "i \<in> set ids")
    case True
    with ex poll that show ?thesis by (simp add: s_def)
  next
    case False
    have "dget (po_outbox s') i = dget (po_outbox s) i"
      unfolding s'_def by (rule publish_claimed_other [OF False])
    also have "\<dots> = dget ob i" using False by (simp add: s_def claimed claim_row_dget ids_def option.map_ident)
    finally show ?thesis using False poll that by simp
  qed
qed

text \<open>
  Any number of polls of one publisher, on whatever tables it finds, with handlers that fail and
  commits that are lost: what it delivers, it delivers once.
\<close>

record poll_input =
  pi_now :: int
  pi_handler :: "string \<Rightarrow> outbox_row \<Rightarrow> bool"
  pi_limit :: nat
  pi_locked :: "string list"
  pi_commits :: bool
  pi_outbox :: outbox

fun polls :: "poll_input list \<Rightarrow> publisher \<Rightarrow> publisher \<times> string list" where
  "polls [] pu = (pu, [])"
| "polls (x # xs) pu =
     (let ((pu', ob), delivered, n) =
        poll_and_publish (pi_now x) (pi_handler x) (pi_limit x) (pi_locked x) (pi_commits x) pu (pi_outbox x);
          (pu'', more) = polls xs pu'
      in (pu'', delivered @ more))"

lemma polls_once:
  "list_all (\<lambda>x. distinct (dkeys (pi_outbox x))) xs \<Longrightarrow> polls xs pu = (pu', delivered) \<Longrightarrow>
     distinct delivered \<and> set delivered \<inter> set (pu_processed pu) = {} \<and>
     pu_processed pu' = pu_processed pu @ delivered"
proof (induction xs arbitrary: pu pu' delivered)
  case (Cons x xs)
  obtain pu1 ob d n where p: "poll_and_publish (pi_now x) (pi_handler x) (pi_limit x) (pi_locked x) (pi_commits x)
      pu (pi_outbox x) = ((pu1, ob), d, n)" by (metis surj_pair)
  obtain more where more: "polls xs pu1 = (pu', more)" "delivered = d @ more"
    using Cons.prems(2) p by (auto split: prod.splits)
  have dist: "distinct (dkeys (pi_outbox x))" using Cons.prems(1) by simp
  note ex = poll_exact [OF dist p]
  have d: "distinct d" "set d \<inter> set (pu_processed pu) = {}"
    unfolding ex(1) using distinct_pending_ids [OF dist] by auto
  from Cons.IH [OF _ more(1)] Cons.prems(1)
  have "distinct more" "set more \<inter> set (pu_processed pu1) = {}" "pu_processed pu' = pu_processed pu1 @ more"
    by auto
  with d ex(2) more(2) show ?case by auto
qed simp

text \<open>The fifth failed delivery is the last.\<close>

lemma fail_row_count:
  "ob_attempt_count ((fail_row m ^^ k) e) = ob_attempt_count e + int k"
  by (induction k) (simp_all add: fail_row_def)

lemma fail_row_status:
  "ob_status ((fail_row m ^^ Suc k) e) = (if ob_attempt_count e + int (Suc k) \<ge> m then OB_FAILED else OB_PENDING)"
  by (simp add: fail_row_def fail_row_count)

section \<open>Reading a payload\<close>

text \<open>
  \<open>json.loads\<close> of an object whose members are strings, which is what \<open>dumps\<close> writes; anything else
  is None.
\<close>

definition hex_digit_value :: "char \<Rightarrow> nat option" where
  "hex_digit_value c =
     (let n = of_char c in
      if 48 \<le> n \<and> n \<le> 57 then Some (n - 48) else if 97 \<le> n \<and> n \<le> 102 then Some (n - 87)
      else if 65 \<le> n \<and> n \<le> 70 then Some (n - 55) else None)"

definition unescape :: "char \<Rightarrow> char option" where
  "unescape c =
     (if c = CHR 0x22 \<or> c = CHR 0x5C \<or> c = CHR ''/'' then Some c
      else if c = CHR ''n'' then Some (char_of (10::nat)) else if c = CHR ''r'' then Some (char_of (13::nat))
      else if c = CHR ''t'' then Some (char_of (9::nat)) else if c = CHR ''f'' then Some (char_of (12::nat))
      else if c = CHR ''b'' then Some (char_of (8::nat)) else None)"

fun read_text :: "string \<Rightarrow> (string \<times> string) option" where
  "read_text [] = None"
| "read_text (c # cs) =
     (if c = CHR 0x22 then Some ([], cs)
      else if c \<noteq> CHR 0x5C then map_option (\<lambda>(s, r). (c # s, r)) (read_text cs)
      else case cs of
          [] \<Rightarrow> None
        | e # ds \<Rightarrow>
            if e = CHR ''u'' then
              (case ds of
                 z1 # z2 # x # y # es \<Rightarrow>
                   (if z1 = CHR ''0'' \<and> z2 = CHR ''0'' then
                      (case (hex_digit_value x, hex_digit_value y) of
                         (Some a, Some b) \<Rightarrow>
                           map_option (\<lambda>(s, r). (char_of (16 * a + b) # s, r)) (read_text es)
                       | _ \<Rightarrow> None)
                    else None)
               | _ \<Rightarrow> None)
            else case unescape e of
                None \<Rightarrow> None
              | Some d \<Rightarrow> map_option (\<lambda>(s, r). (d # s, r)) (read_text ds))"

fun read_members :: "nat \<Rightarrow> string \<Rightarrow> (string \<times> string) list option" where
  "read_members 0 s = None"
| "read_members (Suc n) s =
     (case s of
        [] \<Rightarrow> None
      | q # s1 \<Rightarrow>
          if q \<noteq> CHR 0x22 then None
          else case read_text s1 of
              None \<Rightarrow> None
            | Some (k, s2) \<Rightarrow>
                (case s2 of
                   a # b # q # s3 \<Rightarrow>
                     if a \<noteq> CHR '':'' \<or> b \<noteq> CHR '' '' \<or> q \<noteq> CHR 0x22 then None
                     else (case read_text s3 of
                         None \<Rightarrow> None
                       | Some (v, s4) \<Rightarrow>
                           (if s4 = ''}'' then Some [(k, v)]
                            else case s4 of
                                c # d # s5 \<Rightarrow>
                                  if c = CHR '','' \<and> d = CHR '' '' then map_option (\<lambda>m. (k, v) # m) (read_members n s5)
                                  else None
                              | _ \<Rightarrow> None))
                 | _ \<Rightarrow> None))"

definition loads :: "string \<Rightarrow> (string \<times> string) list option" where
  "loads s =
     (case s of
        [] \<Rightarrow> None
      | c # r \<Rightarrow> if c \<noteq> CHR ''{'' then None else if r = ''}'' then Some [] else read_members (length r) r)"

lemma control_chars:
  "char_of (92::nat) = CHR 0x5C" "char_of (10::nat) = CHR 0x0A" "char_of (13::nat) = CHR 0x0D"
  "char_of (9::nat) = CHR 0x09" "char_of (12::nat) = CHR 0x0C" "char_of (8::nat) = CHR 0x08"
  "char_of (34::nat) = CHR 0x22"
  by code_simp+

lemma char_code: "(of_char c :: nat) = n \<Longrightarrow> c = char_of n"
  by (metis char_of_char)

lemma hex_value: "d < 16 \<Longrightarrow> hex_digit_value (hex_digit_char d) = Some d"
proof -
  assume "d < 16"
  then have "d \<in> set [0..<16]" by simp
  moreover have "list_all (\<lambda>d. hex_digit_value (hex_digit_char d) = Some d) [0..<16]" by code_simp
  ultimately show ?thesis by (simp only: list_all_iff)
qed

lemma read_text_plain:
  "c \<noteq> CHR 0x22 \<Longrightarrow> c \<noteq> CHR 0x5C \<Longrightarrow> read_text (c # t) = map_option (\<lambda>(s, r). (c # s, r)) (read_text t)"
  by simp

lemma read_text_escape:
  "unescape e = Some d \<Longrightarrow> e \<noteq> CHR ''u'' \<Longrightarrow>
     read_text (CHR 0x5C # e # t) = map_option (\<lambda>(s, r). (d # s, r)) (read_text t)"
  by simp

lemma read_text_hex:
  "a < 16 \<Longrightarrow> b < 16 \<Longrightarrow>
     read_text (CHR 0x5C # CHR ''u'' # CHR ''0'' # CHR ''0'' # hex_digit_char a # hex_digit_char b # t)
       = map_option (\<lambda>(s, r). (char_of (16 * a + b) # s, r)) (read_text t)"
  by (simp add: hex_value)

lemma read_text_char: "read_text (json_char c @ t) = map_option (\<lambda>(s, r). (c # s, r)) (read_text t)"
proof -
  define n where "n = (of_char c :: nat)"
  have c: "c = char_of n" by (simp add: n_def)
  have n: "n < 256" unfolding n_def by (rule nat_of_char_less_256)
  have short: ?thesis if "json_char c = [CHR 0x5C, e]" "unescape e = Some c" "e \<noteq> CHR ''u''" for e
    unfolding that(1) using read_text_escape [OF that(2,3), of t] by simp
  consider (quoted) "c \<in> {CHR 0x22, CHR 0x5C}" | (named) "c \<in> {CHR 0x0A, CHR 0x0D, CHR 0x09, CHR 0x0C, CHR 0x08}"
    | (plain) "n \<notin> {34, 92}" "32 \<le> n" "n \<le> 126"
    | (other) "n \<notin> {34, 92, 10, 13, 9, 12, 8}" "\<not> (32 \<le> n \<and> n \<le> 126)"
  proof -
    have "n = 34 \<Longrightarrow> c = CHR 0x22" "n = 92 \<Longrightarrow> c = CHR 0x5C" "n = 10 \<Longrightarrow> c = CHR 0x0A" "n = 13 \<Longrightarrow> c = CHR 0x0D"
      "n = 9 \<Longrightarrow> c = CHR 0x09" "n = 12 \<Longrightarrow> c = CHR 0x0C" "n = 8 \<Longrightarrow> c = CHR 0x08"
      using c control_chars by (simp_all only:)
    then show thesis using quoted named plain other by blast
  qed
  then show ?thesis
  proof cases
    case quoted
    then have "json_char c = [CHR 0x5C, c] \<and> unescape c = Some c \<and> c \<noteq> CHR ''u''"
      by (elim insertE emptyE) (simp_all only:, code_simp+)
    then show ?thesis using short by blast
  next
    case named
    then have "\<exists>e. json_char c = [CHR 0x5C, e] \<and> unescape e = Some c \<and> e \<noteq> CHR ''u''"
    proof (elim insertE emptyE)
      assume "c = CHR 0x0A"
      moreover have "json_char CHR 0x0A = [CHR 0x5C, CHR ''n''] \<and> unescape CHR ''n'' = Some CHR 0x0A" by code_simp
      ultimately show ?thesis by auto
    next
      assume "c = CHR 0x0D"
      moreover have "json_char CHR 0x0D = [CHR 0x5C, CHR ''r''] \<and> unescape CHR ''r'' = Some CHR 0x0D" by code_simp
      ultimately show ?thesis by auto
    next
      assume "c = CHR 0x09"
      moreover have "json_char CHR 0x09 = [CHR 0x5C, CHR ''t''] \<and> unescape CHR ''t'' = Some CHR 0x09" by code_simp
      ultimately show ?thesis by auto
    next
      assume "c = CHR 0x0C"
      moreover have "json_char CHR 0x0C = [CHR 0x5C, CHR ''f''] \<and> unescape CHR ''f'' = Some CHR 0x0C" by code_simp
      ultimately show ?thesis by auto
    next
      assume "c = CHR 0x08"
      moreover have "json_char CHR 0x08 = [CHR 0x5C, CHR ''b''] \<and> unescape CHR ''b'' = Some CHR 0x08" by code_simp
      ultimately show ?thesis by auto
    qed
    then show ?thesis using short by blast
  next
    case plain
    have "c \<noteq> CHR 0x22" "c \<noteq> CHR 0x5C"
      using plain(1) by (auto simp: n_def)
    moreover have "json_char c = [c]" using plain by (auto simp: json_char_def Let_def n_def)
    ultimately show ?thesis using read_text_plain [of c t] by simp
  next
    case other
    have j: "json_char c = CHR 0x5C # ''u00'' @ [hex_digit_char (n div 16), hex_digit_char (n mod 16)]"
      using other by (auto simp: json_char_def Let_def n_def control_chars)
    have "n div 16 < 16" "n mod 16 < 16" using n by simp_all
    moreover have "char_of (16 * (n div 16) + n mod 16) = c" using c by simp
    ultimately show ?thesis using read_text_hex [of "n div 16" "n mod 16" t] unfolding j by simp
  qed
qed

lemma read_text_json: "read_text (concat (map json_char s) @ CHR 0x22 # r) = Some (s, r)"
proof (induction s)
  case (Cons c s)
  have "read_text (concat (map json_char (c # s)) @ CHR 0x22 # r)
      = read_text (json_char c @ concat (map json_char s) @ CHR 0x22 # r)" by simp
  also have "\<dots> = Some (c # s, r)" unfolding read_text_char Cons.IH by simp
  finally show ?case .
qed simp

definition member_text :: "string \<times> string \<Rightarrow> string" where
  "member_text kv = json_string (fst kv) @ '': '' @ json_string (snd kv)"

lemma read_one_member:
  "read_members (Suc n) (member_text (k, v) @ rest) =
     (if rest = ''}'' then Some [(k, v)]
      else case rest of
          c # d # s5 \<Rightarrow> if c = CHR '','' \<and> d = CHR '' '' then map_option (\<lambda>m. (k, v) # m) (read_members n s5) else None
        | _ \<Rightarrow> None)"
  by (simp add: member_text_def json_string_def read_text_json [of k] read_text_json [of v] append_Cons [symmetric]
      del: append_Cons) (simp add: read_text_json [of k] read_text_json [of v])

lemma read_members_join:
  "d \<noteq> [] \<Longrightarrow> length d \<le> n \<Longrightarrow> read_members n (py_join '', '' (map member_text d) @ ''}'') = Some d"
proof (induction d arbitrary: n)
  case (Cons x d)
  obtain m where n: "n = Suc m" using Cons.prems(2) by (cases n) auto
  obtain k v where x: "x = (k, v)" by (cases x)
  show ?case
  proof (cases "d = []")
    case True
    then show ?thesis unfolding n x using read_one_member [of m k v "''}''"] by simp
  next
    case False
    then have j: "py_join '', '' (map member_text (x # d)) @ ''}'' =
        member_text (k, v) @ '', '' @ py_join '', '' (map member_text d) @ ''}''"
      using x by (simp add: py_join_Cons)
    show ?thesis
      unfolding j n using read_one_member [of m k v "'', '' @ py_join '', '' (map member_text d) @ ''}''"]
        Cons.IH [OF False, of m] Cons.prems(2) n x by simp
  qed
qed simp

lemma py_join_length: "length d \<le> length (py_join '', '' (map member_text d))"
proof (induction d)
  case (Cons x d)
  have "Suc 0 \<le> length (member_text x)" by (simp add: member_text_def json_string_def)
  with Cons show ?case by (cases "d = []") (simp_all add: py_join_Cons)
qed simp

lemma loads_dumps_sorted: "loads (dumps d) = Some (sort_key fst d)"
proof (cases "d = []")
  case False
  let ?e = "sort_key fst d"
  have ne: "?e \<noteq> []" using False by (metis length_0_conv length_sort)
  have body: "dumps d = CHR ''{'' # py_join '', '' (map member_text ?e) @ ''}''"
    unfolding dumps_def member_text_def [abs_def] split_def by simp
  have long: "0 < length (py_join '', '' (map member_text ?e))"
    using py_join_length [of ?e] ne by (cases ?e) auto
  then have "py_join '', '' (map member_text ?e) @ ''}'' \<noteq> ''}''" by auto
  moreover have "read_members (length (py_join '', '' (map member_text ?e) @ ''}''))
      (py_join '', '' (map member_text ?e) @ ''}'') = Some ?e"
    using py_join_length [of ?e] by (intro read_members_join [OF ne]) simp
  ultimately show ?thesis unfolding body loads_def by simp
qed (simp add: dumps_def loads_def)

section \<open>Feeding the task queue\<close>

definition payload_task :: "outbox_row \<Rightarrow> string option" where
  "payload_task e =
     map_option (\<lambda>d. dget_default d ''task_id'' (ob_aggregate_id e)) (loads (ob_payload e))"

definition record_failure_row :: "outbox_row \<Rightarrow> outbox_row" where
  "record_failure_row e =
     e\<lparr> ob_attempt_count := ob_attempt_count e + 1,
        ob_status := (if ob_attempt_count e + 1 \<ge> 5 then OB_FAILED else ob_status e) \<rparr>"

text \<open>
  An event whose payload cannot be read ends the poll: its session rolls back, the queue keeps
  what it got.
\<close>

fun feed_queue ::
  "int \<Rightarrow> string list \<Rightarrow> outbox \<Rightarrow> task_queue \<Rightarrow> nat \<Rightarrow> task_queue \<times> (task_error + outbox \<times> nat)" where
  "feed_queue now [] ob q n = (q, Inr (ob, n))"
| "feed_queue now (i # ids) ob q n =
     (case dget ob i of
        None \<Rightarrow> feed_queue now ids ob q n
      | Some e \<Rightarrow>
          (case payload_task e of
             None \<Rightarrow> (q, Inl TaskValueError)
           | Some task_id \<Rightarrow>
               (case enqueue task_id q of
                  Inl err \<Rightarrow> feed_queue now ids (dset ob i (record_failure_row e)) q n
                | Inr q' \<Rightarrow>
                    let (ob', rowcount) = update_row ob i (\<lambda>e. ob_status e = OB_PENDING)
                          (\<lambda>e. e\<lparr> ob_status := OB_PUBLISHED, ob_published_at := Some now \<rparr>)
                    in feed_queue now ids ob' q' (if rowcount = 1 then n + 1 else n))))"

definition process_pending_events ::
  "int \<Rightarrow> nat \<Rightarrow> string list \<Rightarrow> outbox \<Rightarrow> task_queue \<Rightarrow> task_queue \<times> (task_error + outbox \<times> nat)" where
  "process_pending_events now limit locked ob q = feed_queue now (pending_ids locked limit ob) ob q 0"

text \<open>An event staged for a task names that task to the queue, whatever its kind.\<close>

lemma staged_payload_task:
  assumes "stage_event sha k now ty i ev payload lease (Some (c # key)) ob = Inr ob'"
    and "find_key (c # key) ob = None" "dget (sort_key fst payload) ''task_id'' = Some t"
  shows "payload_task (snd (last ob')) = Some t"
  using assms
  by (auto simp: stage_event_def Let_def payload_task_def loads_dumps_sorted dget_default_def split: if_splits)

section \<open>Properties\<close>

text \<open>
  C34: Whatever tables one publisher finds at its polls, however its handlers fail and its commits
  get lost, each event is accepted by a handler at most once over all its polls: no event is
  delivered twice, none that it had processed before, and it remembers exactly what it delivered.
  The memory is the publisher's own: a second one, or a restart, is outside.
\<close>

theorem delivered_once:
  assumes "list_all (\<lambda>x. distinct (dkeys (pi_outbox x))) xs" "polls xs pu = (pu', delivered)"
  shows "distinct delivered \<and> set delivered \<inter> set (pu_processed pu) = {} \<and>
    set (pu_processed pu') = set (pu_processed pu) \<union> set delivered"
  using polls_once [OF assms] by simp

definition demo_outbox :: outbox where
  "demo_outbox =
     (case stage_event (\<lambda>s. ''00'') ''1'' 5 ''remediation_task'' ''T'' ''TASK_CREATED'' [(''task_id'', ''T'')] 1 (Some ''k'') [] of
        Inl e \<Rightarrow> [] | Inr ob \<Rightarrow> ob)"

text \<open>Two polls of the same row: the commit of the first is lost.\<close>

definition demo_polls :: "poll_input list" where
  "demo_polls =
     map (\<lambda>c. \<lparr> pi_now = 6, pi_handler = (\<lambda>i e. True), pi_limit = 10, pi_locked = [], pi_commits = c,
               pi_outbox = demo_outbox \<rparr>) [False, True]"

definition demo_publisher :: publisher where
  "demo_publisher = \<lparr> pu_id = ''p'', pu_lease_token = ''t'', pu_processed = [] \<rparr>"

theorem delivered_once_witness:
  "set (snd (polls demo_polls demo_publisher)) = {''evt_1''} \<and> distinct (snd (polls demo_polls demo_publisher))"
proof -
  have "list_all (\<lambda>x. distinct (dkeys (pi_outbox x))) demo_polls"
    "snd (polls demo_polls demo_publisher) = [''evt_1'']"
    by code_simp+
  then show ?thesis using delivered_once [of demo_polls demo_publisher, OF _ surjective_pairing] by simp
qed

end
