(* ===== verification/Spec2Isabelle.thy ===== *)
theory Spec2Isabelle
  imports GuardPropagation SecurityDecision Execution LifecycleSM Ledger Approval Consensus LifecycleRuns
    CallGraph Interprocedural WorkerRuntime ClusterRecovery HashRing Outbox
begin

text \<open>
  A model of the decision-making core of KarsaSec, a Python security scanner that finds
  vulnerabilities, asks AI providers for fixes and applies approved patches. Paths below are
  relative to \<^verbatim>\<open>src/karsasec/\<close>.

  \<^bold>\<open>How the parts fit together.\<close>
  A scan turns parsed files into an intermediate representation (\<^verbatim>\<open>ir/builder.py\<close>);
  \<^verbatim>\<open>analysis/cfg\<close> builds one control flow graph per function, \<^verbatim>\<open>analysis/ssa\<close> renames its
  variables, \<^verbatim>\<open>analysis/dataflow\<close> computes reaching definitions and chains over both, and
  \<^verbatim>\<open>analysis/taint\<close> and \<^verbatim>\<open>analysis/interprocedural\<close> report flows from sources to sinks within a
  function and across calls. The path-sensitive analysis of \<^verbatim>\<open>graph/dataflow\<close> (guards, call graph)
  feeds the evidence from which \<^verbatim>\<open>security_decision.py\<close> takes a verdict on a sink. A finding then enters the
  remediation lifecycle of \<^verbatim>\<open>ai/remediation\<close>: a proposal is made, approved by a token, applied
  to the files by a transactional applier, rescanned and verified, while a ledger and a
  provenance graph record what happened. The AI calls on the way go through the gateway of
  \<^verbatim>\<open>ai/\<close>: budgets, requests, a router over providers with health, circuit breakers and rate
  limits, and an execution service with a bounded retry loop. Leases on shared resources are
  granted by the quorum engine of \<^verbatim>\<open>analysis/distributed\<close>.
  Remediations also run on a cluster: a task waits in a queue, a scheduler places it on a worker,
  and the worker (\<^verbatim>\<open>workers/\<close>) takes it through its states over a repository that lives in memory
  or in the tables of \<^verbatim>\<open>persistence/\<close>. Every change of a task in the tables writes a row of a hash
  chained audit log and stages an event (\<^verbatim>\<open>events/\<close>) in an outbox, from which publishers feed the
  queues. A worker that stops beating is fenced, and an elected leader recovers its tasks.

  \<^bold>\<open>Conventions.\<close>
  Every class of the source is a \<open>record\<close> or a \<open>datatype\<close>, every method a definition of its
  name. A raised exception is \<open>Inl\<close>, a returned value \<open>Inr\<close> (theory \<open>Prelude\<close>). Dictionaries are
  association lists in insertion order, strings are lists of characters, Python integers are
  \<open>int\<close>, floating point clocks and rates are \<open>real\<close>. Readings of a clock, random numbers,
  generated identifiers, the digest (\<open>sha256\<close>) and callbacks are arguments; nothing is assumed
  of the digest: where a property would need it to be free of collisions, it says that
  otherwise a collision is exhibited. Times in ISO format are compared as strings or parsed by
  a parameter. Database statements are conditional updates of the rows of a table
  (\<open>AiStore.update_row\<close>), which is the atomicity the code asks of its database; a transaction
  that loses a race is an argument of the operation.

  \<^bold>\<open>Theories.\<close>
  \<^item> Shared: \<open>Prelude\<close> (results, dictionaries, strings, decimal printing), \<open>PyRegex\<close> (the regular
    expressions the guard analysis uses, as backtracking matchers), \<open>TransitionMatrix\<close> (locales
    \<open>transition_matrix\<close> and \<open>ranked_matrix\<close> for state machines given by a matrix, interpreted by
    the AI request machine and the lifecycle machine), \<open>Sweep\<close> (the loop of the flow analyses, with
    the locale \<open>sweeping\<close> that proves it ends).
  \<^item> Static analysis: \<open>AbstractState\<close>, \<open>SinkMatrix\<close>, \<open>GuardRegistry\<close>, \<open>GuardPropagation\<close> and
    \<open>SecurityDecision\<close> model \<^verbatim>\<open>graph/dataflow/\<close> (\<^verbatim>\<open>abstract_state.py\<close>, \<^verbatim>\<open>sink_matrix.py\<close>,
    \<^verbatim>\<open>registry.py\<close>, \<^verbatim>\<open>guard_propagation.py\<close> with \<^verbatim>\<open>graph/cfg/model.py\<close>, \<^verbatim>\<open>semantic_evidence.py\<close>,
    \<^verbatim>\<open>security_verdict.py\<close> and \<^verbatim>\<open>security_decision.py\<close>); \<open>CallGraph\<close> models \<^verbatim>\<open>call_graph.py\<close>;
    \<open>FlowGraph\<close>, \<open>Dominators\<close> and \<open>Ssa\<close> model \<^verbatim>\<open>analysis/cfg\<close> and \<^verbatim>\<open>analysis/ssa\<close> over the
    statements of \<^verbatim>\<open>ir/nodes.py\<close>, which \<open>IrBuild\<close> makes from syntax trees as \<^verbatim>\<open>ir/builder.py\<close>
    does; \<open>ReachingDefs\<close> and \<open>DataFlow\<close> model \<^verbatim>\<open>analysis/dataflow\<close>, \<open>Taint\<close> models
    \<^verbatim>\<open>analysis/taint\<close> and \<open>Interprocedural\<close> models \<^verbatim>\<open>analysis/interprocedural\<close>.
  \<^item> AI gateway: \<open>AiStore\<close> (tables and the locale \<open>cas_table\<close>), \<open>AiRequestState\<close>, \<open>AiBudget\<close>,
    \<open>AiRequest\<close>, \<open>AiProvider\<close>, \<open>FailureRetry\<close>, \<open>CircuitBreaker\<close>, \<open>RateLimiter\<close>, \<open>Router\<close> and
    \<open>Execution\<close> model the files of \<^verbatim>\<open>ai/\<close> of those names and the rows of
    \<^verbatim>\<open>persistence/models.py\<close> they touch.
  \<^item> Remediation: \<open>LifecycleSM\<close>, \<open>PatchVerification\<close>, \<open>AuditEvents\<close>, \<open>Ledger\<close>, \<open>Approval\<close>,
    \<open>RemediationModels\<close>, \<open>Snapshot\<close>, \<open>Applier\<close>, \<open>ApplicationAgent\<close>, \<open>Provenance\<close> and
    \<open>LifecycleEngine\<close> model the files of \<^verbatim>\<open>ai/remediation/\<close>; \<open>LifecycleRuns\<close> proves what whole runs
    of the engine guarantee.
  \<^item> Distribution: \<open>Consensus\<close> models \<^verbatim>\<open>analysis/distributed/consensus.py\<close>.
  \<^item> Workers: \<open>TaskContract\<close> holds the task states and the locale \<open>task_authority\<close>, the promise a
    repository makes its workers; \<open>TaskDomain\<close> models \<^verbatim>\<open>workers/task.py\<close>, \<^verbatim>\<open>queue.py\<close> and
    \<^verbatim>\<open>repository.py\<close> and interprets the locale in memory; \<open>TaskStore\<close> models the rows of
    \<^verbatim>\<open>persistence/models.py\<close>, \<^verbatim>\<open>events/audit_ledger.py\<close> and the staging of events, \<open>TaskRepo\<close>
    models \<^verbatim>\<open>persistence/postgres_task_repository.py\<close> and interprets the locale on the tables,
    \<open>TaskInvariants\<close> proves what the tables keep; \<open>WorkerStore\<close> models
    \<^verbatim>\<open>postgres_worker_repository.py\<close>, \<^verbatim>\<open>worker_registry.py\<close> and \<^verbatim>\<open>heartbeat.py\<close>, \<open>HashRing\<close>
    \<^verbatim>\<open>scheduler.py\<close>, \<open>RecoveryLock\<close> and \<open>ClusterRecovery\<close> \<^verbatim>\<open>cluster_recovery.py\<close> and
    \<^verbatim>\<open>postgres_recovery_lock.py\<close>, \<open>Outbox\<close> \<^verbatim>\<open>events/outbox.py\<close>, \<^verbatim>\<open>publisher.py\<close> and
    \<^verbatim>\<open>outbox_publisher.py\<close>, and \<open>WorkerRuntime\<close> \<^verbatim>\<open>worker.py\<close> over either repository.

  \<^bold>\<open>What the lemmas show.\<close>
  Each theory defines its state, then its operations in the order of the code, then an
  invariant with one lemma per operation, then the properties, each after a text block with its
  number. The joins of the abstract domain form a semilattice; the guard analysis returns
  well-formed environments; the matrix's and the decision engine's positive answers are
  justified by constraints. Tarjan's search returns the strongly connected components, the
  dominator sweeps compute dominance over paths, the reaching definitions sweep computes the
  definitions that reach a node over paths, the renaming gives single assignment form, the
  taint states are the inductive taint relation, and the graph builder only makes graphs its
  validator accepts. Budgets equal the totals over the
  requests charged to them through any execution; a circuit refines its three-state automaton;
  the router's choice is eligible and least. Patches are applied completely or not at all, and
  only for what was approved; the last fingerprint of a ledger of unambiguous events binds every
  field of its history; a lifecycle run ends in one of three
  paths, and VERIFIED_FIXED has the grounds the design asks for. Grants of authority are
  exclusive per epoch and fenced. Both task repositories refine one machine of task views, so lease
  versions count the accepted calls and terminal states stay; the tables keep their audit chains,
  dead letters and outbox consistent; a fenced token ends no task; the hash ring moves only the
  tasks it must; a publisher delivers an event at most once. Where the code does not do what its comments or names
  promise, the divergence is itself a theorem on the model.

  \<^bold>\<open>Bounds and termination.\<close>
  The guard analysis runs the code's own bound of 1000 steps, and its fuel is that bound. The
  attempt loop recurses on the number of allowed attempts. Tarjan's recursion has as fuel the
  number of registered functions, and its correctness shows that the fuel never runs out. The
  sweeps of the flow analyses are partial functions whose result is \<open>None\<close> when they do not
  return; each analysis is proved to return. So is the search for a free position on the hash ring,
  which returns when the longer keys spread (\<open>HashRing\<close>). The reader of event payloads has the
  length of the text as its fuel. Python's recursion limit is not modelled.
  Scanning a string for a match is structural.

  \<^bold>\<open>Not modelled.\<close>
  The command line, the HTTP server, the framework extractors and language parsers (tree walks
  over other programs' syntax, driven by third-party parsers), the rule files and their
  matcher, reports, JSON and diagram exports of the analysis artefacts, subprocesses (running
  a project's tests), the Celery and Redis adapters of the queue, the receipt and audit event
  repositories, and the startup recovery (\<^verbatim>\<open>persistence/recovery.py\<close>), which asks its repository
  for an operation that none has. A database session is one step; the widths of columns and reads
  of rows that another session is changing are not modelled. Strings are restricted to what the code does with identifiers and file
  contents byte by byte; Unicode case mapping beyond ASCII is not modelled.
\<close>

end
